(* ===== verification/Prelude.thy ===== *)
theory Prelude
  imports Main "HOL-Library.Word"
begin

section \<open>Shared vocabulary of the development\<close>

text \<open>
  Types, collections of simplification rules and generic lemmas that the component theories share:
  the machine integers of the C++ code, C enumerations and casts into them, reading a
  little-endian value out of a byte buffer, and lemmas on lists.
\<close>

subsection \<open>Machine integers\<close>

type_synonym u8 = "8 word"
type_synonym u16 = "16 word"
type_synonym u32 = "32 word"
type_synonym u64 = "64 word"

text \<open>Collections: \<open>unat_simps\<close> turns an inequality between words into one between naturals.\<close>

named_theorems unat_simps

lemmas [unat_simps] = word_le_nat_alt word_less_nat_alt word_unat_eq_iff

lemma unat_add_no_wrap:
  fixes a b :: "'a::len word"
  assumes "unat a + unat b < 2 ^ LENGTH('a)"
  shows "unat (a + b) = unat a + unat b"
  using assms by (simp add: unat_word_ariths)

lemma unat_bound_u32: "unat (w :: u32) < 4294967296"
proof -
  have "unat w < 2 ^ LENGTH(32)" by (rule unsigned_less)
  then show ?thesis by simp
qed

lemma unat_bound_u8: "unat (b :: u8) < 256"
proof -
  have "unat b < 2 ^ LENGTH(8)" by (rule unsigned_less)
  then show ?thesis by simp
qed

lemma unat_of_nat_u32: "n < 2 ^ 32 \<Longrightarrow> unat (word_of_nat n :: u32) = n"
  by (simp add: unat_of_nat)

text \<open>The measure of a loop \<open>for (; i < end; i++)\<close>.\<close>

lemma unat_loop_measure:
  fixes i e :: "'a::len word"
  assumes "i < e"
  shows "unat (e - (i + 1)) < unat (e - i)"
proof -
  have "e - i \<noteq> 0" using assms by auto
  then have "unat (e - i - 1) < unat (e - i)" by (rule measure_unat)
  then show ?thesis by (simp add: diff_diff_eq)
qed

subsection \<open>C enumerations\<close>

text \<open>
  An enumeration is the list of its enumerators in declaration order. The integer value of an
  enumerator is its position; the cast of an integer is defined for the positions of the list.
\<close>

definition enum_value :: "'e list \<Rightarrow> 'e \<Rightarrow> int" where
  "enum_value es x = int (length (takeWhile (\<lambda>y. y \<noteq> x) es))"

definition enum_cast :: "'e list \<Rightarrow> int \<Rightarrow> 'e option" where
  "enum_cast es i = (if 0 \<le> i \<and> i < int (length es) then Some (es ! nat i) else None)"

lemma enum_cast_value:
  assumes "x \<in> set es"
  shows "enum_cast es (enum_value es x) = Some x"
proof -
  let ?n = "length (takeWhile (\<lambda>y. y \<noteq> x) es)"
  from assms have "?n < length es" by (induction es) auto
  moreover from this have "es ! ?n = x" using nth_length_takeWhile by fastforce
  ultimately show ?thesis by (simp add: enum_cast_def enum_value_def)
qed

subsection \<open>Little-endian reads\<close>

text \<open>The value of a byte string whose first byte is the least significant one.\<close>

fun le_value :: "u8 list \<Rightarrow> nat" where
  "le_value [] = 0"
| "le_value (b # bs) = unat b + 256 * le_value bs"

lemma le_value_bound: "le_value bs < 256 ^ length bs"
proof (induction bs)
  case Nil
  then show ?case by simp
next
  case (Cons b bs)
  have "256 * le_value bs + 256 \<le> 256 * 256 ^ length bs" using Cons by simp
  then show ?case using unat_bound_u8[of b] by simp
qed

subsection \<open>Failing operations\<close>

text \<open>
  Where the C++ code reads or writes outside an array or throws, the model returns \<open>Inl\<close> of a
  description of the failure.
\<close>

datatype fault =
    OutOfBounds string nat    \<comment> \<open>an array and the index outside it\<close>
  | OutOfRange string         \<comment> \<open>\<open>std::out_of_range\<close> thrown by a standard library call\<close>
  | AssertFailed string       \<comment> \<open>an \<open>assert\<close> of the source that does not hold\<close>
  | Unreachable string        \<comment> \<open>\<open>llvm_unreachable\<close>\<close>
  | NYI string                \<comment> \<open>\<open>NotYetImplementedException\<close>\<close>

type_synonym 'a result = "fault + 'a"

definition rbind :: "'a result \<Rightarrow> ('a \<Rightarrow> 'b result) \<Rightarrow> 'b result" where
  "rbind m f = (case m of Inl e \<Rightarrow> Inl e | Inr x \<Rightarrow> f x)"

lemma rbind_simps [simp]:
  "rbind (Inl e) f = Inl e"
  "rbind (Inr x) f = f x"
  by (simp_all add: rbind_def)

lemma rbind_eq_Inr_iff: "rbind m f = Inr y \<longleftrightarrow> (\<exists>x. m = Inr x \<and> f x = Inr y)"
  by (cases m) auto

lemma rbind_cong [fundef_cong]:
  "m = m' \<Longrightarrow> (\<And>x. m' = Inr x \<Longrightarrow> f x = f' x) \<Longrightarrow> rbind m f = rbind m' f'"
  by (cases m') auto

text \<open>\<open>assert(b)\<close> and the write \<open>xs[i] = v\<close> into an array.\<close>

definition rassert :: "string \<Rightarrow> bool \<Rightarrow> unit result" where
  "rassert msg b = (if b then Inr () else Inl (AssertFailed msg))"

definition array_put :: "string \<Rightarrow> 'a list \<Rightarrow> nat \<Rightarrow> 'a \<Rightarrow> 'a list result" where
  "array_put who xs i v = (if i < length xs then Inr (xs[i := v]) else Inl (OutOfBounds who i))"

definition array_get :: "string \<Rightarrow> 'a list \<Rightarrow> nat \<Rightarrow> 'a result" where
  "array_get who xs i = (if i < length xs then Inr (xs ! i) else Inl (OutOfBounds who i))"

lemma rassert_simps [simp]:
  "rassert msg True = Inr ()"
  "rassert msg False = Inl (AssertFailed msg)"
  "rassert msg b = Inr u \<longleftrightarrow> b"
  by (simp_all add: rassert_def)

lemma array_put_simps [simp]:
  "i < length xs \<Longrightarrow> array_put who xs i v = Inr (xs[i := v])"
  "array_put who xs i v = Inr ys \<longleftrightarrow> i < length xs \<and> ys = xs[i := v]"
  by (auto simp: array_put_def)

lemma array_get_simps [simp]:
  "i < length xs \<Longrightarrow> array_get who xs i = Inr (xs ! i)"
  "array_get who xs i = Inr y \<longleftrightarrow> i < length xs \<and> y = xs ! i"
  by (auto simp: array_get_def)

text \<open>\<open>n\<close> bytes of a buffer from an offset.\<close>

definition read_bytes :: "string \<Rightarrow> u8 list \<Rightarrow> nat \<Rightarrow> nat \<Rightarrow> u8 list result" where
  "read_bytes who buf off n =
     (if off + n \<le> length buf then Inr (take n (drop off buf)) else Inl (OutOfBounds who (off + n)))"

lemma read_bytes_Inr:
  "read_bytes who buf off n = Inr bs \<longleftrightarrow> off + n \<le> length buf \<and> bs = take n (drop off buf)"
  by (auto simp: read_bytes_def)

subsection \<open>Lists\<close>

lemma nth_append_mid: "(xs @ y # ys) ! length xs = y"
  by (simp add: nth_append)

lemma list_update_append_mid: "(xs @ y # ys)[length xs := z] = (xs @ [z]) @ ys"
  by (simp add: list_update_append)

end
