(* ===== verification/Opcodes.thy ===== *)
theory Opcodes
  imports Prelude
begin

section \<open>MSIL opcodes and the opcode tables of the reader\<close>

text \<open>
  The opcode enumerations of \<^verbatim>\<open>include/Reader/readerenum.h\<close>, its table \<open>OpcodeRemap\<close>, and the
  two decoding tables of \<^verbatim>\<open>include/Reader/bytecodetowvmcode.def\<close>.

  The enumeration \<open>OPCODE\<close> itself comes from CoreCLR's \<^verbatim>\<open>openum.h\<close>, which is not part of the
  repository; \<open>readerenum.h\<close> gives its order (the rows of \<open>OpcodeRemap\<close> follow \<open>openum.h\<close>), and the
  code subtracts \<open>CEE_NOP\<close> from an opcode and indexes arrays with it. An \<open>OPCODE\<close> is therefore the
  number of its row, and the enumerators are names for those numbers.
\<close>

subsection \<open>The opcode enumeration\<close>

type_synonym OPCODE = nat

abbreviation (input) CEE_NOP :: OPCODE where "CEE_NOP \<equiv> 0"
abbreviation (input) CEE_BREAK :: OPCODE where "CEE_BREAK \<equiv> 1"
abbreviation (input) CEE_LDARG_0 :: OPCODE where "CEE_LDARG_0 \<equiv> 2"
abbreviation (input) CEE_LDARG_1 :: OPCODE where "CEE_LDARG_1 \<equiv> 3"
abbreviation (input) CEE_LDARG_2 :: OPCODE where "CEE_LDARG_2 \<equiv> 4"
abbreviation (input) CEE_LDARG_3 :: OPCODE where "CEE_LDARG_3 \<equiv> 5"
abbreviation (input) CEE_LDLOC_0 :: OPCODE where "CEE_LDLOC_0 \<equiv> 6"
abbreviation (input) CEE_LDLOC_1 :: OPCODE where "CEE_LDLOC_1 \<equiv> 7"
abbreviation (input) CEE_LDLOC_2 :: OPCODE where "CEE_LDLOC_2 \<equiv> 8"
abbreviation (input) CEE_LDLOC_3 :: OPCODE where "CEE_LDLOC_3 \<equiv> 9"
abbreviation (input) CEE_STLOC_0 :: OPCODE where "CEE_STLOC_0 \<equiv> 10"
abbreviation (input) CEE_STLOC_1 :: OPCODE where "CEE_STLOC_1 \<equiv> 11"
abbreviation (input) CEE_STLOC_2 :: OPCODE where "CEE_STLOC_2 \<equiv> 12"
abbreviation (input) CEE_STLOC_3 :: OPCODE where "CEE_STLOC_3 \<equiv> 13"
abbreviation (input) CEE_LDARG_S :: OPCODE where "CEE_LDARG_S \<equiv> 14"
abbreviation (input) CEE_LDARGA_S :: OPCODE where "CEE_LDARGA_S \<equiv> 15"
abbreviation (input) CEE_STARG_S :: OPCODE where "CEE_STARG_S \<equiv> 16"
abbreviation (input) CEE_LDLOC_S :: OPCODE where "CEE_LDLOC_S \<equiv> 17"
abbreviation (input) CEE_LDLOCA_S :: OPCODE where "CEE_LDLOCA_S \<equiv> 18"
abbreviation (input) CEE_STLOC_S :: OPCODE where "CEE_STLOC_S \<equiv> 19"
abbreviation (input) CEE_LDNULL :: OPCODE where "CEE_LDNULL \<equiv> 20"
abbreviation (input) CEE_LDC_I4_M1 :: OPCODE where "CEE_LDC_I4_M1 \<equiv> 21"
abbreviation (input) CEE_LDC_I4_0 :: OPCODE where "CEE_LDC_I4_0 \<equiv> 22"
abbreviation (input) CEE_LDC_I4_1 :: OPCODE where "CEE_LDC_I4_1 \<equiv> 23"
abbreviation (input) CEE_LDC_I4_2 :: OPCODE where "CEE_LDC_I4_2 \<equiv> 24"
abbreviation (input) CEE_LDC_I4_3 :: OPCODE where "CEE_LDC_I4_3 \<equiv> 25"
abbreviation (input) CEE_LDC_I4_4 :: OPCODE where "CEE_LDC_I4_4 \<equiv> 26"
abbreviation (input) CEE_LDC_I4_5 :: OPCODE where "CEE_LDC_I4_5 \<equiv> 27"
abbreviation (input) CEE_LDC_I4_6 :: OPCODE where "CEE_LDC_I4_6 \<equiv> 28"
abbreviation (input) CEE_LDC_I4_7 :: OPCODE where "CEE_LDC_I4_7 \<equiv> 29"
abbreviation (input) CEE_LDC_I4_8 :: OPCODE where "CEE_LDC_I4_8 \<equiv> 30"
abbreviation (input) CEE_LDC_I4_S :: OPCODE where "CEE_LDC_I4_S \<equiv> 31"
abbreviation (input) CEE_LDC_I4 :: OPCODE where "CEE_LDC_I4 \<equiv> 32"
abbreviation (input) CEE_LDC_I8 :: OPCODE where "CEE_LDC_I8 \<equiv> 33"
abbreviation (input) CEE_LDC_R4 :: OPCODE where "CEE_LDC_R4 \<equiv> 34"
abbreviation (input) CEE_LDC_R8 :: OPCODE where "CEE_LDC_R8 \<equiv> 35"
abbreviation (input) CEE_DUP :: OPCODE where "CEE_DUP \<equiv> 37"
abbreviation (input) CEE_POP :: OPCODE where "CEE_POP \<equiv> 38"
abbreviation (input) CEE_JMP :: OPCODE where "CEE_JMP \<equiv> 39"
abbreviation (input) CEE_CALL :: OPCODE where "CEE_CALL \<equiv> 40"
abbreviation (input) CEE_CALLI :: OPCODE where "CEE_CALLI \<equiv> 41"
abbreviation (input) CEE_RET :: OPCODE where "CEE_RET \<equiv> 42"
abbreviation (input) CEE_BR_S :: OPCODE where "CEE_BR_S \<equiv> 43"
abbreviation (input) CEE_BRFALSE_S :: OPCODE where "CEE_BRFALSE_S \<equiv> 44"
abbreviation (input) CEE_BRTRUE_S :: OPCODE where "CEE_BRTRUE_S \<equiv> 45"
abbreviation (input) CEE_BEQ_S :: OPCODE where "CEE_BEQ_S \<equiv> 46"
abbreviation (input) CEE_BGE_S :: OPCODE where "CEE_BGE_S \<equiv> 47"
abbreviation (input) CEE_BGT_S :: OPCODE where "CEE_BGT_S \<equiv> 48"
abbreviation (input) CEE_BLE_S :: OPCODE where "CEE_BLE_S \<equiv> 49"
abbreviation (input) CEE_BLT_S :: OPCODE where "CEE_BLT_S \<equiv> 50"
abbreviation (input) CEE_BNE_UN_S :: OPCODE where "CEE_BNE_UN_S \<equiv> 51"
abbreviation (input) CEE_BGE_UN_S :: OPCODE where "CEE_BGE_UN_S \<equiv> 52"
abbreviation (input) CEE_BGT_UN_S :: OPCODE where "CEE_BGT_UN_S \<equiv> 53"
abbreviation (input) CEE_BLE_UN_S :: OPCODE where "CEE_BLE_UN_S \<equiv> 54"
abbreviation (input) CEE_BLT_UN_S :: OPCODE where "CEE_BLT_UN_S \<equiv> 55"
abbreviation (input) CEE_BR :: OPCODE where "CEE_BR \<equiv> 56"
abbreviation (input) CEE_BRFALSE :: OPCODE where "CEE_BRFALSE \<equiv> 57"
abbreviation (input) CEE_BRTRUE :: OPCODE where "CEE_BRTRUE \<equiv> 58"
abbreviation (input) CEE_BEQ :: OPCODE where "CEE_BEQ \<equiv> 59"
abbreviation (input) CEE_BGE :: OPCODE where "CEE_BGE \<equiv> 60"
abbreviation (input) CEE_BGT :: OPCODE where "CEE_BGT \<equiv> 61"
abbreviation (input) CEE_BLE :: OPCODE where "CEE_BLE \<equiv> 62"
abbreviation (input) CEE_BLT :: OPCODE where "CEE_BLT \<equiv> 63"
abbreviation (input) CEE_BNE_UN :: OPCODE where "CEE_BNE_UN \<equiv> 64"
abbreviation (input) CEE_BGE_UN :: OPCODE where "CEE_BGE_UN \<equiv> 65"
abbreviation (input) CEE_BGT_UN :: OPCODE where "CEE_BGT_UN \<equiv> 66"
abbreviation (input) CEE_BLE_UN :: OPCODE where "CEE_BLE_UN \<equiv> 67"
abbreviation (input) CEE_BLT_UN :: OPCODE where "CEE_BLT_UN \<equiv> 68"
abbreviation (input) CEE_SWITCH :: OPCODE where "CEE_SWITCH \<equiv> 69"
abbreviation (input) CEE_LDIND_I1 :: OPCODE where "CEE_LDIND_I1 \<equiv> 70"
abbreviation (input) CEE_LDIND_U1 :: OPCODE where "CEE_LDIND_U1 \<equiv> 71"
abbreviation (input) CEE_LDIND_I2 :: OPCODE where "CEE_LDIND_I2 \<equiv> 72"
abbreviation (input) CEE_LDIND_U2 :: OPCODE where "CEE_LDIND_U2 \<equiv> 73"
abbreviation (input) CEE_LDIND_I4 :: OPCODE where "CEE_LDIND_I4 \<equiv> 74"
abbreviation (input) CEE_LDIND_U4 :: OPCODE where "CEE_LDIND_U4 \<equiv> 75"
abbreviation (input) CEE_LDIND_I8 :: OPCODE where "CEE_LDIND_I8 \<equiv> 76"
abbreviation (input) CEE_LDIND_I :: OPCODE where "CEE_LDIND_I \<equiv> 77"
abbreviation (input) CEE_LDIND_R4 :: OPCODE where "CEE_LDIND_R4 \<equiv> 78"
abbreviation (input) CEE_LDIND_R8 :: OPCODE where "CEE_LDIND_R8 \<equiv> 79"
abbreviation (input) CEE_LDIND_REF :: OPCODE where "CEE_LDIND_REF \<equiv> 80"
abbreviation (input) CEE_STIND_REF :: OPCODE where "CEE_STIND_REF \<equiv> 81"
abbreviation (input) CEE_STIND_I1 :: OPCODE where "CEE_STIND_I1 \<equiv> 82"
abbreviation (input) CEE_STIND_I2 :: OPCODE where "CEE_STIND_I2 \<equiv> 83"
abbreviation (input) CEE_STIND_I4 :: OPCODE where "CEE_STIND_I4 \<equiv> 84"
abbreviation (input) CEE_STIND_I8 :: OPCODE where "CEE_STIND_I8 \<equiv> 85"
abbreviation (input) CEE_STIND_R4 :: OPCODE where "CEE_STIND_R4 \<equiv> 86"
abbreviation (input) CEE_STIND_R8 :: OPCODE where "CEE_STIND_R8 \<equiv> 87"
abbreviation (input) CEE_ADD :: OPCODE where "CEE_ADD \<equiv> 88"
abbreviation (input) CEE_SUB :: OPCODE where "CEE_SUB \<equiv> 89"
abbreviation (input) CEE_MUL :: OPCODE where "CEE_MUL \<equiv> 90"
abbreviation (input) CEE_DIV :: OPCODE where "CEE_DIV \<equiv> 91"
abbreviation (input) CEE_DIV_UN :: OPCODE where "CEE_DIV_UN \<equiv> 92"
abbreviation (input) CEE_REM :: OPCODE where "CEE_REM \<equiv> 93"
abbreviation (input) CEE_REM_UN :: OPCODE where "CEE_REM_UN \<equiv> 94"
abbreviation (input) CEE_AND :: OPCODE where "CEE_AND \<equiv> 95"
abbreviation (input) CEE_OR :: OPCODE where "CEE_OR \<equiv> 96"
abbreviation (input) CEE_XOR :: OPCODE where "CEE_XOR \<equiv> 97"
abbreviation (input) CEE_SHL :: OPCODE where "CEE_SHL \<equiv> 98"
abbreviation (input) CEE_SHR :: OPCODE where "CEE_SHR \<equiv> 99"
abbreviation (input) CEE_SHR_UN :: OPCODE where "CEE_SHR_UN \<equiv> 100"
abbreviation (input) CEE_NEG :: OPCODE where "CEE_NEG \<equiv> 101"
abbreviation (input) CEE_NOT :: OPCODE where "CEE_NOT \<equiv> 102"
abbreviation (input) CEE_CONV_I1 :: OPCODE where "CEE_CONV_I1 \<equiv> 103"
abbreviation (input) CEE_CONV_I2 :: OPCODE where "CEE_CONV_I2 \<equiv> 104"
abbreviation (input) CEE_CONV_I4 :: OPCODE where "CEE_CONV_I4 \<equiv> 105"
abbreviation (input) CEE_CONV_I8 :: OPCODE where "CEE_CONV_I8 \<equiv> 106"
abbreviation (input) CEE_CONV_R4 :: OPCODE where "CEE_CONV_R4 \<equiv> 107"
abbreviation (input) CEE_CONV_R8 :: OPCODE where "CEE_CONV_R8 \<equiv> 108"
abbreviation (input) CEE_CONV_U4 :: OPCODE where "CEE_CONV_U4 \<equiv> 109"
abbreviation (input) CEE_CONV_U8 :: OPCODE where "CEE_CONV_U8 \<equiv> 110"
abbreviation (input) CEE_CALLVIRT :: OPCODE where "CEE_CALLVIRT \<equiv> 111"
abbreviation (input) CEE_CPOBJ :: OPCODE where "CEE_CPOBJ \<equiv> 112"
abbreviation (input) CEE_LDOBJ :: OPCODE where "CEE_LDOBJ \<equiv> 113"
abbreviation (input) CEE_LDSTR :: OPCODE where "CEE_LDSTR \<equiv> 114"
abbreviation (input) CEE_NEWOBJ :: OPCODE where "CEE_NEWOBJ \<equiv> 115"
abbreviation (input) CEE_CASTCLASS :: OPCODE where "CEE_CASTCLASS \<equiv> 116"
abbreviation (input) CEE_ISINST :: OPCODE where "CEE_ISINST \<equiv> 117"
abbreviation (input) CEE_CONV_R_UN :: OPCODE where "CEE_CONV_R_UN \<equiv> 118"
abbreviation (input) CEE_UNBOX :: OPCODE where "CEE_UNBOX \<equiv> 121"
abbreviation (input) CEE_THROW :: OPCODE where "CEE_THROW \<equiv> 122"
abbreviation (input) CEE_LDFLD :: OPCODE where "CEE_LDFLD \<equiv> 123"
abbreviation (input) CEE_LDFLDA :: OPCODE where "CEE_LDFLDA \<equiv> 124"
abbreviation (input) CEE_STFLD :: OPCODE where "CEE_STFLD \<equiv> 125"
abbreviation (input) CEE_LDSFLD :: OPCODE where "CEE_LDSFLD \<equiv> 126"
abbreviation (input) CEE_LDSFLDA :: OPCODE where "CEE_LDSFLDA \<equiv> 127"
abbreviation (input) CEE_STSFLD :: OPCODE where "CEE_STSFLD \<equiv> 128"
abbreviation (input) CEE_STOBJ :: OPCODE where "CEE_STOBJ \<equiv> 129"
abbreviation (input) CEE_CONV_OVF_I1_UN :: OPCODE where "CEE_CONV_OVF_I1_UN \<equiv> 130"
abbreviation (input) CEE_CONV_OVF_I2_UN :: OPCODE where "CEE_CONV_OVF_I2_UN \<equiv> 131"
abbreviation (input) CEE_CONV_OVF_I4_UN :: OPCODE where "CEE_CONV_OVF_I4_UN \<equiv> 132"
abbreviation (input) CEE_CONV_OVF_I8_UN :: OPCODE where "CEE_CONV_OVF_I8_UN \<equiv> 133"
abbreviation (input) CEE_CONV_OVF_U1_UN :: OPCODE where "CEE_CONV_OVF_U1_UN \<equiv> 134"
abbreviation (input) CEE_CONV_OVF_U2_UN :: OPCODE where "CEE_CONV_OVF_U2_UN \<equiv> 135"
abbreviation (input) CEE_CONV_OVF_U4_UN :: OPCODE where "CEE_CONV_OVF_U4_UN \<equiv> 136"
abbreviation (input) CEE_CONV_OVF_U8_UN :: OPCODE where "CEE_CONV_OVF_U8_UN \<equiv> 137"
abbreviation (input) CEE_CONV_OVF_I_UN :: OPCODE where "CEE_CONV_OVF_I_UN \<equiv> 138"
abbreviation (input) CEE_CONV_OVF_U_UN :: OPCODE where "CEE_CONV_OVF_U_UN \<equiv> 139"
abbreviation (input) CEE_BOX :: OPCODE where "CEE_BOX \<equiv> 140"
abbreviation (input) CEE_NEWARR :: OPCODE where "CEE_NEWARR \<equiv> 141"
abbreviation (input) CEE_LDLEN :: OPCODE where "CEE_LDLEN \<equiv> 142"
abbreviation (input) CEE_LDELEMA :: OPCODE where "CEE_LDELEMA \<equiv> 143"
abbreviation (input) CEE_LDELEM_I1 :: OPCODE where "CEE_LDELEM_I1 \<equiv> 144"
abbreviation (input) CEE_LDELEM_U1 :: OPCODE where "CEE_LDELEM_U1 \<equiv> 145"
abbreviation (input) CEE_LDELEM_I2 :: OPCODE where "CEE_LDELEM_I2 \<equiv> 146"
abbreviation (input) CEE_LDELEM_U2 :: OPCODE where "CEE_LDELEM_U2 \<equiv> 147"
abbreviation (input) CEE_LDELEM_I4 :: OPCODE where "CEE_LDELEM_I4 \<equiv> 148"
abbreviation (input) CEE_LDELEM_U4 :: OPCODE where "CEE_LDELEM_U4 \<equiv> 149"
abbreviation (input) CEE_LDELEM_I8 :: OPCODE where "CEE_LDELEM_I8 \<equiv> 150"
abbreviation (input) CEE_LDELEM_I :: OPCODE where "CEE_LDELEM_I \<equiv> 151"
abbreviation (input) CEE_LDELEM_R4 :: OPCODE where "CEE_LDELEM_R4 \<equiv> 152"
abbreviation (input) CEE_LDELEM_R8 :: OPCODE where "CEE_LDELEM_R8 \<equiv> 153"
abbreviation (input) CEE_LDELEM_REF :: OPCODE where "CEE_LDELEM_REF \<equiv> 154"
abbreviation (input) CEE_STELEM_I :: OPCODE where "CEE_STELEM_I \<equiv> 155"
abbreviation (input) CEE_STELEM_I1 :: OPCODE where "CEE_STELEM_I1 \<equiv> 156"
abbreviation (input) CEE_STELEM_I2 :: OPCODE where "CEE_STELEM_I2 \<equiv> 157"
abbreviation (input) CEE_STELEM_I4 :: OPCODE where "CEE_STELEM_I4 \<equiv> 158"
abbreviation (input) CEE_STELEM_I8 :: OPCODE where "CEE_STELEM_I8 \<equiv> 159"
abbreviation (input) CEE_STELEM_R4 :: OPCODE where "CEE_STELEM_R4 \<equiv> 160"
abbreviation (input) CEE_STELEM_R8 :: OPCODE where "CEE_STELEM_R8 \<equiv> 161"
abbreviation (input) CEE_STELEM_REF :: OPCODE where "CEE_STELEM_REF \<equiv> 162"
abbreviation (input) CEE_LDELEM :: OPCODE where "CEE_LDELEM \<equiv> 163"
abbreviation (input) CEE_STELEM :: OPCODE where "CEE_STELEM \<equiv> 164"
abbreviation (input) CEE_UNBOX_ANY :: OPCODE where "CEE_UNBOX_ANY \<equiv> 165"
abbreviation (input) CEE_CONV_OVF_I1 :: OPCODE where "CEE_CONV_OVF_I1 \<equiv> 179"
abbreviation (input) CEE_CONV_OVF_U1 :: OPCODE where "CEE_CONV_OVF_U1 \<equiv> 180"
abbreviation (input) CEE_CONV_OVF_I2 :: OPCODE where "CEE_CONV_OVF_I2 \<equiv> 181"
abbreviation (input) CEE_CONV_OVF_U2 :: OPCODE where "CEE_CONV_OVF_U2 \<equiv> 182"
abbreviation (input) CEE_CONV_OVF_I4 :: OPCODE where "CEE_CONV_OVF_I4 \<equiv> 183"
abbreviation (input) CEE_CONV_OVF_U4 :: OPCODE where "CEE_CONV_OVF_U4 \<equiv> 184"
abbreviation (input) CEE_CONV_OVF_I8 :: OPCODE where "CEE_CONV_OVF_I8 \<equiv> 185"
abbreviation (input) CEE_CONV_OVF_U8 :: OPCODE where "CEE_CONV_OVF_U8 \<equiv> 186"
abbreviation (input) CEE_REFANYVAL :: OPCODE where "CEE_REFANYVAL \<equiv> 194"
abbreviation (input) CEE_CKFINITE :: OPCODE where "CEE_CKFINITE \<equiv> 195"
abbreviation (input) CEE_MKREFANY :: OPCODE where "CEE_MKREFANY \<equiv> 198"
abbreviation (input) CEE_LDTOKEN :: OPCODE where "CEE_LDTOKEN \<equiv> 208"
abbreviation (input) CEE_CONV_U2 :: OPCODE where "CEE_CONV_U2 \<equiv> 209"
abbreviation (input) CEE_CONV_U1 :: OPCODE where "CEE_CONV_U1 \<equiv> 210"
abbreviation (input) CEE_CONV_I :: OPCODE where "CEE_CONV_I \<equiv> 211"
abbreviation (input) CEE_CONV_OVF_I :: OPCODE where "CEE_CONV_OVF_I \<equiv> 212"
abbreviation (input) CEE_CONV_OVF_U :: OPCODE where "CEE_CONV_OVF_U \<equiv> 213"
abbreviation (input) CEE_ADD_OVF :: OPCODE where "CEE_ADD_OVF \<equiv> 214"
abbreviation (input) CEE_ADD_OVF_UN :: OPCODE where "CEE_ADD_OVF_UN \<equiv> 215"
abbreviation (input) CEE_MUL_OVF :: OPCODE where "CEE_MUL_OVF \<equiv> 216"
abbreviation (input) CEE_MUL_OVF_UN :: OPCODE where "CEE_MUL_OVF_UN \<equiv> 217"
abbreviation (input) CEE_SUB_OVF :: OPCODE where "CEE_SUB_OVF \<equiv> 218"
abbreviation (input) CEE_SUB_OVF_UN :: OPCODE where "CEE_SUB_OVF_UN \<equiv> 219"
abbreviation (input) CEE_ENDFINALLY :: OPCODE where "CEE_ENDFINALLY \<equiv> 220"
abbreviation (input) CEE_LEAVE :: OPCODE where "CEE_LEAVE \<equiv> 221"
abbreviation (input) CEE_LEAVE_S :: OPCODE where "CEE_LEAVE_S \<equiv> 222"
abbreviation (input) CEE_STIND_I :: OPCODE where "CEE_STIND_I \<equiv> 223"
abbreviation (input) CEE_CONV_U :: OPCODE where "CEE_CONV_U \<equiv> 224"
abbreviation (input) CEE_ARGLIST :: OPCODE where "CEE_ARGLIST \<equiv> 256"
abbreviation (input) CEE_CEQ :: OPCODE where "CEE_CEQ \<equiv> 257"
abbreviation (input) CEE_CGT :: OPCODE where "CEE_CGT \<equiv> 258"
abbreviation (input) CEE_CGT_UN :: OPCODE where "CEE_CGT_UN \<equiv> 259"
abbreviation (input) CEE_CLT :: OPCODE where "CEE_CLT \<equiv> 260"
abbreviation (input) CEE_CLT_UN :: OPCODE where "CEE_CLT_UN \<equiv> 261"
abbreviation (input) CEE_LDFTN :: OPCODE where "CEE_LDFTN \<equiv> 262"
abbreviation (input) CEE_LDVIRTFTN :: OPCODE where "CEE_LDVIRTFTN \<equiv> 263"
abbreviation (input) CEE_LDARG :: OPCODE where "CEE_LDARG \<equiv> 265"
abbreviation (input) CEE_LDARGA :: OPCODE where "CEE_LDARGA \<equiv> 266"
abbreviation (input) CEE_STARG :: OPCODE where "CEE_STARG \<equiv> 267"
abbreviation (input) CEE_LDLOC :: OPCODE where "CEE_LDLOC \<equiv> 268"
abbreviation (input) CEE_LDLOCA :: OPCODE where "CEE_LDLOCA \<equiv> 269"
abbreviation (input) CEE_STLOC :: OPCODE where "CEE_STLOC \<equiv> 270"
abbreviation (input) CEE_LOCALLOC :: OPCODE where "CEE_LOCALLOC \<equiv> 271"
abbreviation (input) CEE_ENDFILTER :: OPCODE where "CEE_ENDFILTER \<equiv> 273"
abbreviation (input) CEE_UNALIGNED :: OPCODE where "CEE_UNALIGNED \<equiv> 274"
abbreviation (input) CEE_VOLATILE :: OPCODE where "CEE_VOLATILE \<equiv> 275"
abbreviation (input) CEE_TAILCALL :: OPCODE where "CEE_TAILCALL \<equiv> 276"
abbreviation (input) CEE_INITOBJ :: OPCODE where "CEE_INITOBJ \<equiv> 277"
abbreviation (input) CEE_CONSTRAINED :: OPCODE where "CEE_CONSTRAINED \<equiv> 278"
abbreviation (input) CEE_CPBLK :: OPCODE where "CEE_CPBLK \<equiv> 279"
abbreviation (input) CEE_INITBLK :: OPCODE where "CEE_INITBLK \<equiv> 280"
abbreviation (input) CEE_RETHROW :: OPCODE where "CEE_RETHROW \<equiv> 282"
abbreviation (input) CEE_SIZEOF :: OPCODE where "CEE_SIZEOF \<equiv> 284"
abbreviation (input) CEE_REFANYTYPE :: OPCODE where "CEE_REFANYTYPE \<equiv> 285"
abbreviation (input) CEE_READONLY :: OPCODE where "CEE_READONLY \<equiv> 286"
abbreviation (input) CEE_ILLEGAL :: OPCODE where "CEE_ILLEGAL \<equiv> 291"

subsection \<open>The per-family enumerations\<close>

datatype UnaryOpcode =
    Neg | Not_op

datatype BinaryOpcode =
    Add | AddOvf | AddOvfUn | And | Div | DivUn | Mul | MulOvf | MulOvfUn | Or | Rem | RemUn
    | Sub | SubOvf | SubOvfUn | Xor

datatype BoolBranchOpcode =
    BrFalse | BrFalseS | BrTrue | BrTrueS

datatype CallOpcode =
    Jmp | Call | CallVirt | Calli | Tail | NewObj

datatype CmpOpcode =
    Ceq | Cgt | CgtUn | Clt | CltUn

datatype CondBranchOpcode =
    Beq | BeqS | Bge | BgeS | BgeUn | BgeUnS | Bgt | BgtS | BgtUn | BgtUnS | Ble | BleS | BleUn
    | BleUnS | Blt | BltS | BltUn | BltUnS | BneUn | BneUnS

datatype ConvOpcode =
    ConvI1 | ConvI2 | ConvI4 | ConvI8 | ConvR4 | ConvR8 | ConvU1 | ConvU2 | ConvU4 | ConvU8
    | ConvI | ConvU | ConvOvfI1 | ConvOvfI2 | ConvOvfI4 | ConvOvfI8 | ConvOvfU1 | ConvOvfU2
    | ConvOvfU4 | ConvOvfU8 | ConvOvfI | ConvOvfU | ConvOvfI1Un | ConvOvfI2Un | ConvOvfI4Un
    | ConvOvfI8Un | ConvOvfU1Un | ConvOvfU2Un | ConvOvfU4Un | ConvOvfU8Un | ConvOvfIUn
    | ConvOvfUUn | ConvRUn

datatype ExceptOpcode =
    EndFilter | Throw

datatype LdElemOpcode =
    LdelemI1 | LdelemU1 | LdelemI2 | LdelemU2 | LdelemI4 | LdelemU4 | LdelemI8 | LdelemI
    | LdelemR4 | LdelemR8 | LdelemRef | Ldelem

datatype LdIndirOpcode =
    LdindI1 | LdindU1 | LdindI2 | LdindU2 | LdindI4 | LdindU4 | LdindI8 | LdindI | LdindR4
    | LdindR8 | LdindRef

datatype StElemOpcode =
    StelemI | StelemI1 | StelemI2 | StelemI4 | StelemI8 | StelemR4 | StelemR8 | StelemRef
    | Stelem

datatype ShiftOpcode =
    Shl | Shr | ShrUn

datatype StIndirOpcode =
    StindI1 | StindI2 | StindI4 | StindI8 | StindI | StindR4 | StindR8 | StindRef

text \<open>The enumerators of each family in declaration order: an enumerator's integer value is its
  position, and \<open>Last...\<close> is the length.\<close>

definition UnaryOpcodes :: "UnaryOpcode list" where
  "UnaryOpcodes = [Neg, Not_op]"

definition BinaryOpcodes :: "BinaryOpcode list" where
  "BinaryOpcodes = [Add, AddOvf, AddOvfUn, And, Div, DivUn, Mul, MulOvf, MulOvfUn, Or, Rem,
     RemUn, Sub, SubOvf, SubOvfUn, Xor]"

definition BoolBranchOpcodes :: "BoolBranchOpcode list" where
  "BoolBranchOpcodes = [BrFalse, BrFalseS, BrTrue, BrTrueS]"

definition CallOpcodes :: "CallOpcode list" where
  "CallOpcodes = [Jmp, Call, CallVirt, Calli, Tail, NewObj]"

definition CmpOpcodes :: "CmpOpcode list" where
  "CmpOpcodes = [Ceq, Cgt, CgtUn, Clt, CltUn]"

definition CondBranchOpcodes :: "CondBranchOpcode list" where
  "CondBranchOpcodes = [Beq, BeqS, Bge, BgeS, BgeUn, BgeUnS, Bgt, BgtS, BgtUn, BgtUnS, Ble,
     BleS, BleUn, BleUnS, Blt, BltS, BltUn, BltUnS, BneUn, BneUnS]"

definition ConvOpcodes :: "ConvOpcode list" where
  "ConvOpcodes = [ConvI1, ConvI2, ConvI4, ConvI8, ConvR4, ConvR8, ConvU1, ConvU2, ConvU4,
     ConvU8, ConvI, ConvU, ConvOvfI1, ConvOvfI2, ConvOvfI4, ConvOvfI8, ConvOvfU1, ConvOvfU2,
     ConvOvfU4, ConvOvfU8, ConvOvfI, ConvOvfU, ConvOvfI1Un, ConvOvfI2Un, ConvOvfI4Un,
     ConvOvfI8Un, ConvOvfU1Un, ConvOvfU2Un, ConvOvfU4Un, ConvOvfU8Un, ConvOvfIUn, ConvOvfUUn,
     ConvRUn]"

definition ExceptOpcodes :: "ExceptOpcode list" where
  "ExceptOpcodes = [EndFilter, Throw]"

definition LdElemOpcodes :: "LdElemOpcode list" where
  "LdElemOpcodes = [LdelemI1, LdelemU1, LdelemI2, LdelemU2, LdelemI4, LdelemU4, LdelemI8,
     LdelemI, LdelemR4, LdelemR8, LdelemRef, Ldelem]"

definition LdIndirOpcodes :: "LdIndirOpcode list" where
  "LdIndirOpcodes = [LdindI1, LdindU1, LdindI2, LdindU2, LdindI4, LdindU4, LdindI8, LdindI,
     LdindR4, LdindR8, LdindRef]"

definition StElemOpcodes :: "StElemOpcode list" where
  "StElemOpcodes = [StelemI, StelemI1, StelemI2, StelemI4, StelemI8, StelemR4, StelemR8,
     StelemRef, Stelem]"

definition ShiftOpcodes :: "ShiftOpcode list" where
  "ShiftOpcodes = [Shl, Shr, ShrUn]"

definition StIndirOpcodes :: "StIndirOpcode list" where
  "StIndirOpcodes = [StindI1, StindI2, StindI4, StindI8, StindI, StindR4, StindR8, StindRef]"

lemmas Opcode_enum_defs =
  UnaryOpcodes_def
  BinaryOpcodes_def
  BoolBranchOpcodes_def
  CallOpcodes_def
  CmpOpcodes_def
  CondBranchOpcodes_def
  ConvOpcodes_def
  ExceptOpcodes_def
  LdElemOpcodes_def
  LdIndirOpcodes_def
  StElemOpcodes_def
  ShiftOpcodes_def
  StIndirOpcodes_def

subsection \<open>The remap table\<close>

text \<open>
  A row of the initialiser of \<open>OpcodeRemap\<close> is \<open>-1\<close>, a literal index (for \<open>ldarg.0\<close> and the like) or
  an enumerator of one of the families, converted to \<open>int8_t\<close>.
\<close>

datatype RemapEntry = NoRemap | Lit nat
  | RUnary UnaryOpcode
  | RBinary BinaryOpcode
  | RBoolBranch BoolBranchOpcode
  | RCall CallOpcode
  | RCmp CmpOpcode
  | RCondBranch CondBranchOpcode
  | RConv ConvOpcode
  | RExcept ExceptOpcode
  | RLdElem LdElemOpcode
  | RLdIndir LdIndirOpcode
  | RStElem StElemOpcode
  | RShift ShiftOpcode
  | RStIndir StIndirOpcode

fun remap_value :: "RemapEntry \<Rightarrow> int" where
  "remap_value NoRemap = -1"
| "remap_value (Lit n) = int n"
| "remap_value (RUnary x) = enum_value UnaryOpcodes x"
| "remap_value (RBinary x) = enum_value BinaryOpcodes x"
| "remap_value (RBoolBranch x) = enum_value BoolBranchOpcodes x"
| "remap_value (RCall x) = enum_value CallOpcodes x"
| "remap_value (RCmp x) = enum_value CmpOpcodes x"
| "remap_value (RCondBranch x) = enum_value CondBranchOpcodes x"
| "remap_value (RConv x) = enum_value ConvOpcodes x"
| "remap_value (RExcept x) = enum_value ExceptOpcodes x"
| "remap_value (RLdElem x) = enum_value LdElemOpcodes x"
| "remap_value (RLdIndir x) = enum_value LdIndirOpcodes x"
| "remap_value (RStElem x) = enum_value StElemOpcodes x"
| "remap_value (RShift x) = enum_value ShiftOpcodes x"
| "remap_value (RStIndir x) = enum_value StIndirOpcodes x"

definition OpcodeRemapRows :: "RemapEntry list" where
  "OpcodeRemapRows = [
     NoRemap, NoRemap, Lit 0, Lit 1, Lit 2, Lit 3, Lit 0, Lit 1, Lit 2, Lit 3, Lit 0, Lit 1,
     Lit 2, Lit 3, NoRemap, NoRemap, NoRemap, NoRemap, NoRemap, NoRemap, NoRemap, NoRemap,
     Lit 0, Lit 1, Lit 2, Lit 3, Lit 4, Lit 5, Lit 6, Lit 7, Lit 8, NoRemap, NoRemap, NoRemap,
     NoRemap, NoRemap, NoRemap, NoRemap, NoRemap, RCall Jmp, RCall Call, RCall Calli, NoRemap,
     NoRemap, RBoolBranch BrFalseS, RBoolBranch BrTrueS, RCondBranch BeqS, RCondBranch BgeS,
     RCondBranch BgtS, RCondBranch BleS, RCondBranch BltS, RCondBranch BneUnS,
     RCondBranch BgeUnS, RCondBranch BgtUnS, RCondBranch BleUnS, RCondBranch BltUnS, NoRemap,
     RBoolBranch BrFalse, RBoolBranch BrTrue, RCondBranch Beq, RCondBranch Bge,
     RCondBranch Bgt, RCondBranch Ble, RCondBranch Blt, RCondBranch BneUn, RCondBranch BgeUn,
     RCondBranch BgtUn, RCondBranch BleUn, RCondBranch BltUn, NoRemap, RLdIndir LdindI1,
     RLdIndir LdindU1, RLdIndir LdindI2, RLdIndir LdindU2, RLdIndir LdindI4, RLdIndir LdindU4,
     RLdIndir LdindI8, RLdIndir LdindI, RLdIndir LdindR4, RLdIndir LdindR8, RLdIndir LdindRef,
     RStIndir StindRef, RStIndir StindI1, RStIndir StindI2, RStIndir StindI4, RStIndir StindI8,
     RStIndir StindR4, RStIndir StindR8, RBinary Add, RBinary Sub, RBinary Mul, RBinary Div,
     RBinary DivUn, RBinary Rem, RBinary RemUn, RBinary And, RBinary Or, RBinary Xor,
     RShift Shl, RShift Shr, RShift ShrUn, RUnary Neg, RUnary Not_op, RConv ConvI1,
     RConv ConvI2, RConv ConvI4, RConv ConvI8, RConv ConvR4, RConv ConvR8, RConv ConvU4,
     RConv ConvU8, RCall CallVirt, NoRemap, NoRemap, NoRemap, RCall NewObj, NoRemap, NoRemap,
     RConv ConvRUn, NoRemap, NoRemap, NoRemap, RExcept Throw, NoRemap, NoRemap, NoRemap,
     NoRemap, NoRemap, NoRemap, NoRemap, RConv ConvOvfI1Un, RConv ConvOvfI2Un,
     RConv ConvOvfI4Un, RConv ConvOvfI8Un, RConv ConvOvfU1Un, RConv ConvOvfU2Un,
     RConv ConvOvfU4Un, RConv ConvOvfU8Un, RConv ConvOvfIUn, RConv ConvOvfUUn, NoRemap,
     NoRemap, NoRemap, NoRemap, RLdElem LdelemI1, RLdElem LdelemU1, RLdElem LdelemI2,
     RLdElem LdelemU2, RLdElem LdelemI4, RLdElem LdelemU4, RLdElem LdelemI8, RLdElem LdelemI,
     RLdElem LdelemR4, RLdElem LdelemR8, RLdElem LdelemRef, RStElem StelemI, RStElem StelemI1,
     RStElem StelemI2, RStElem StelemI4, RStElem StelemI8, RStElem StelemR4, RStElem StelemR8,
     RStElem StelemRef, RLdElem Ldelem, RStElem Stelem, NoRemap, NoRemap, NoRemap, NoRemap,
     NoRemap, NoRemap, NoRemap, NoRemap, NoRemap, NoRemap, NoRemap, NoRemap, NoRemap, NoRemap,
     RConv ConvOvfI1, RConv ConvOvfU1, RConv ConvOvfI2, RConv ConvOvfU2, RConv ConvOvfI4,
     RConv ConvOvfU4, RConv ConvOvfI8, RConv ConvOvfU8, NoRemap, NoRemap, NoRemap, NoRemap,
     NoRemap, NoRemap, NoRemap, NoRemap, NoRemap, NoRemap, NoRemap, NoRemap, NoRemap, NoRemap,
     NoRemap, NoRemap, NoRemap, NoRemap, NoRemap, NoRemap, NoRemap, NoRemap, RConv ConvU2,
     RConv ConvU1, RConv ConvI, RConv ConvOvfI, RConv ConvOvfU, RBinary AddOvf,
     RBinary AddOvfUn, RBinary MulOvf, RBinary MulOvfUn, RBinary SubOvf, RBinary SubOvfUn,
     NoRemap, NoRemap, NoRemap, RStIndir StindI, RConv ConvU, NoRemap, NoRemap, NoRemap,
     NoRemap, NoRemap, NoRemap, NoRemap, NoRemap, NoRemap, NoRemap, NoRemap, NoRemap, NoRemap,
     NoRemap, NoRemap, NoRemap, NoRemap, NoRemap, NoRemap, NoRemap, NoRemap, NoRemap, NoRemap,
     NoRemap, NoRemap, NoRemap, NoRemap, NoRemap, NoRemap, NoRemap, NoRemap, NoRemap, RCmp Ceq,
     RCmp Cgt, RCmp CgtUn, RCmp Clt, RCmp CltUn, NoRemap, NoRemap, NoRemap, NoRemap, NoRemap,
     NoRemap, NoRemap, NoRemap, NoRemap, NoRemap, NoRemap, RExcept EndFilter, NoRemap, NoRemap,
     NoRemap, NoRemap, NoRemap, NoRemap, NoRemap, NoRemap, NoRemap, NoRemap, NoRemap, NoRemap,
     NoRemap, NoRemap, NoRemap, NoRemap, NoRemap, NoRemap]"

definition OpcodeRemap :: "int list" where
  "OpcodeRemap = map remap_value OpcodeRemapRows"

subsection \<open>The decoding tables\<close>

definition ByteCodes :: "OPCODE list" where
  "ByteCodes = [
     CEE_NOP, CEE_BREAK, CEE_LDARG_0, CEE_LDARG_1, CEE_LDARG_2, CEE_LDARG_3, CEE_LDLOC_0,
     CEE_LDLOC_1, CEE_LDLOC_2, CEE_LDLOC_3, CEE_STLOC_0, CEE_STLOC_1, CEE_STLOC_2, CEE_STLOC_3,
     CEE_LDARG_S, CEE_LDARGA_S, CEE_STARG_S, CEE_LDLOC_S, CEE_LDLOCA_S, CEE_STLOC_S,
     CEE_LDNULL, CEE_LDC_I4_M1, CEE_LDC_I4_0, CEE_LDC_I4_1, CEE_LDC_I4_2, CEE_LDC_I4_3,
     CEE_LDC_I4_4, CEE_LDC_I4_5, CEE_LDC_I4_6, CEE_LDC_I4_7, CEE_LDC_I4_8, CEE_LDC_I4_S,
     CEE_LDC_I4, CEE_LDC_I8, CEE_LDC_R4, CEE_LDC_R8, CEE_ILLEGAL, CEE_DUP, CEE_POP, CEE_JMP,
     CEE_CALL, CEE_CALLI, CEE_RET, CEE_BR_S, CEE_BRFALSE_S, CEE_BRTRUE_S, CEE_BEQ_S, CEE_BGE_S,
     CEE_BGT_S, CEE_BLE_S, CEE_BLT_S, CEE_BNE_UN_S, CEE_BGE_UN_S, CEE_BGT_UN_S, CEE_BLE_UN_S,
     CEE_BLT_UN_S, CEE_BR, CEE_BRFALSE, CEE_BRTRUE, CEE_BEQ, CEE_BGE, CEE_BGT, CEE_BLE,
     CEE_BLT, CEE_BNE_UN, CEE_BGE_UN, CEE_BGT_UN, CEE_BLE_UN, CEE_BLT_UN, CEE_SWITCH,
     CEE_LDIND_I1, CEE_LDIND_U1, CEE_LDIND_I2, CEE_LDIND_U2, CEE_LDIND_I4, CEE_LDIND_U4,
     CEE_LDIND_I8, CEE_LDIND_I, CEE_LDIND_R4, CEE_LDIND_R8, CEE_LDIND_REF, CEE_STIND_REF,
     CEE_STIND_I1, CEE_STIND_I2, CEE_STIND_I4, CEE_STIND_I8, CEE_STIND_R4, CEE_STIND_R8,
     CEE_ADD, CEE_SUB, CEE_MUL, CEE_DIV, CEE_DIV_UN, CEE_REM, CEE_REM_UN, CEE_AND, CEE_OR,
     CEE_XOR, CEE_SHL, CEE_SHR, CEE_SHR_UN, CEE_NEG, CEE_NOT, CEE_CONV_I1, CEE_CONV_I2,
     CEE_CONV_I4, CEE_CONV_I8, CEE_CONV_R4, CEE_CONV_R8, CEE_CONV_U4, CEE_CONV_U8,
     CEE_CALLVIRT, CEE_CPOBJ, CEE_LDOBJ, CEE_LDSTR, CEE_NEWOBJ, CEE_CASTCLASS, CEE_ISINST,
     CEE_CONV_R_UN, CEE_ILLEGAL, CEE_ILLEGAL, CEE_UNBOX, CEE_THROW, CEE_LDFLD, CEE_LDFLDA,
     CEE_STFLD, CEE_LDSFLD, CEE_LDSFLDA, CEE_STSFLD, CEE_STOBJ, CEE_CONV_OVF_I1_UN,
     CEE_CONV_OVF_I2_UN, CEE_CONV_OVF_I4_UN, CEE_CONV_OVF_I8_UN, CEE_CONV_OVF_U1_UN,
     CEE_CONV_OVF_U2_UN, CEE_CONV_OVF_U4_UN, CEE_CONV_OVF_U8_UN, CEE_CONV_OVF_I_UN,
     CEE_CONV_OVF_U_UN, CEE_BOX, CEE_NEWARR, CEE_LDLEN, CEE_LDELEMA, CEE_LDELEM_I1,
     CEE_LDELEM_U1, CEE_LDELEM_I2, CEE_LDELEM_U2, CEE_LDELEM_I4, CEE_LDELEM_U4, CEE_LDELEM_I8,
     CEE_LDELEM_I, CEE_LDELEM_R4, CEE_LDELEM_R8, CEE_LDELEM_REF, CEE_STELEM_I, CEE_STELEM_I1,
     CEE_STELEM_I2, CEE_STELEM_I4, CEE_STELEM_I8, CEE_STELEM_R4, CEE_STELEM_R8, CEE_STELEM_REF,
     CEE_LDELEM, CEE_STELEM, CEE_UNBOX_ANY, CEE_ILLEGAL, CEE_ILLEGAL, CEE_ILLEGAL, CEE_ILLEGAL,
     CEE_ILLEGAL, CEE_ILLEGAL, CEE_ILLEGAL, CEE_ILLEGAL, CEE_ILLEGAL, CEE_ILLEGAL, CEE_ILLEGAL,
     CEE_ILLEGAL, CEE_ILLEGAL, CEE_CONV_OVF_I1, CEE_CONV_OVF_U1, CEE_CONV_OVF_I2,
     CEE_CONV_OVF_U2, CEE_CONV_OVF_I4, CEE_CONV_OVF_U4, CEE_CONV_OVF_I8, CEE_CONV_OVF_U8,
     CEE_ILLEGAL, CEE_ILLEGAL, CEE_ILLEGAL, CEE_ILLEGAL, CEE_ILLEGAL, CEE_ILLEGAL, CEE_ILLEGAL,
     CEE_REFANYVAL, CEE_CKFINITE, CEE_ILLEGAL, CEE_ILLEGAL, CEE_MKREFANY, CEE_ILLEGAL,
     CEE_ILLEGAL, CEE_ILLEGAL, CEE_ILLEGAL, CEE_ILLEGAL, CEE_ILLEGAL, CEE_ILLEGAL, CEE_ILLEGAL,
     CEE_ILLEGAL, CEE_LDTOKEN, CEE_CONV_U2, CEE_CONV_U1, CEE_CONV_I, CEE_CONV_OVF_I,
     CEE_CONV_OVF_U, CEE_ADD_OVF, CEE_ADD_OVF_UN, CEE_MUL_OVF, CEE_MUL_OVF_UN, CEE_SUB_OVF,
     CEE_SUB_OVF_UN, CEE_ENDFINALLY, CEE_LEAVE, CEE_LEAVE_S, CEE_STIND_I, CEE_CONV_U,
     CEE_ILLEGAL, CEE_ILLEGAL, CEE_ILLEGAL, CEE_ILLEGAL, CEE_ILLEGAL, CEE_ILLEGAL, CEE_ILLEGAL,
     CEE_ILLEGAL, CEE_ILLEGAL, CEE_ILLEGAL, CEE_ILLEGAL, CEE_ILLEGAL, CEE_ILLEGAL, CEE_ILLEGAL,
     CEE_ILLEGAL, CEE_ILLEGAL, CEE_ILLEGAL, CEE_ILLEGAL, CEE_ILLEGAL, CEE_ILLEGAL, CEE_ILLEGAL,
     CEE_ILLEGAL, CEE_ILLEGAL, CEE_ILLEGAL, CEE_ILLEGAL, CEE_ILLEGAL, CEE_ILLEGAL, CEE_ILLEGAL,
     CEE_ILLEGAL, CEE_ILLEGAL, CEE_ILLEGAL]"

definition PrefixedByteCodes :: "OPCODE list" where
  "PrefixedByteCodes = [
     CEE_ARGLIST, CEE_CEQ, CEE_CGT, CEE_CGT_UN, CEE_CLT, CEE_CLT_UN, CEE_LDFTN, CEE_LDVIRTFTN,
     CEE_ILLEGAL, CEE_LDARG, CEE_LDARGA, CEE_STARG, CEE_LDLOC, CEE_LDLOCA, CEE_STLOC,
     CEE_LOCALLOC, CEE_ILLEGAL, CEE_ENDFILTER, CEE_UNALIGNED, CEE_VOLATILE, CEE_TAILCALL,
     CEE_INITOBJ, CEE_CONSTRAINED, CEE_CPBLK, CEE_INITBLK, CEE_ILLEGAL, CEE_RETHROW,
     CEE_ILLEGAL, CEE_SIZEOF, CEE_REFANYTYPE, CEE_READONLY, CEE_ILLEGAL, CEE_ILLEGAL]"

definition remapCallOpcode :: "OPCODE \<Rightarrow> CallOpcode option" where
  "remapCallOpcode op = enum_cast CallOpcodes (OpcodeRemap ! op)"

subsection \<open>The tables are consistent with the enumeration\<close>

lemma length_ByteCodes [simp]: "length ByteCodes = 256"
  by (simp add: ByteCodes_def)

lemma length_PrefixedByteCodes [simp]: "length PrefixedByteCodes = 33"
  by (simp add: PrefixedByteCodes_def)

lemma length_OpcodeRemap [simp]: "length OpcodeRemap = 292"
  by (simp add: OpcodeRemap_def OpcodeRemapRows_def)

text \<open>Row \<open>i\<close> of a decoding table is the opcode \<open>base + i\<close>, or illegal.\<close>

definition table_rows_ok :: "nat \<Rightarrow> OPCODE list \<Rightarrow> bool" where
  "table_rows_ok base tab = list_all (\<lambda>(i, op). op = base + i \<or> op = CEE_ILLEGAL) (enumerate 0 tab)"

lemma table_rows_okD:
  assumes "table_rows_ok base tab" and "i < length tab"
  shows "tab ! i = base + i \<or> tab ! i = CEE_ILLEGAL"
  using assms by (auto simp: table_rows_ok_def list_all_length nth_enumerate_eq)

lemma ByteCodes_rows: "table_rows_ok 0 ByteCodes"
  by (simp add: table_rows_ok_def ByteCodes_def)

lemma PrefixedByteCodes_rows: "table_rows_ok 256 PrefixedByteCodes"
  by (simp add: table_rows_ok_def PrefixedByteCodes_def)

lemma ByteCodes_nth: "ByteCodes ! unat (b :: u8) = unat b \<or> ByteCodes ! unat b = CEE_ILLEGAL"
  using table_rows_okD[OF ByteCodes_rows, of "unat b"] unat_bound_u8[of b] by simp

lemma PrefixedByteCodes_nth:
  "i < 33 \<Longrightarrow> PrefixedByteCodes ! i = 256 + i \<or> PrefixedByteCodes ! i = CEE_ILLEGAL"
  using table_rows_okD[OF PrefixedByteCodes_rows, of i] by simp

subsection \<open>The remap table sends each opcode to the enumerator of its name\<close>

definition remaps_to :: "'e list \<Rightarrow> (OPCODE \<times> 'e) list \<Rightarrow> bool" where
  "remaps_to es rows = list_all (\<lambda>(op, e). enum_cast es (OpcodeRemap ! op) = Some e) rows"

lemmas remap_eval = remaps_to_def OpcodeRemap_def OpcodeRemapRows_def enum_cast_def enum_value_def
  Opcode_enum_defs

definition UnaryOpcode_rows :: "(OPCODE \<times> UnaryOpcode) list" where
  "UnaryOpcode_rows =
     [(CEE_NEG, Neg), (CEE_NOT, Not_op)]"

lemma remap_UnaryOpcode: "remaps_to UnaryOpcodes UnaryOpcode_rows"
  by (simp add: remap_eval UnaryOpcode_rows_def)

definition BinaryOpcode_rows :: "(OPCODE \<times> BinaryOpcode) list" where
  "BinaryOpcode_rows =
     [(CEE_ADD, Add), (CEE_SUB, Sub), (CEE_MUL, Mul), (CEE_DIV, Div), (CEE_DIV_UN, DivUn),
      (CEE_REM, Rem), (CEE_REM_UN, RemUn), (CEE_AND, And), (CEE_OR, Or), (CEE_XOR, Xor),
      (CEE_ADD_OVF, AddOvf), (CEE_ADD_OVF_UN, AddOvfUn), (CEE_MUL_OVF, MulOvf),
      (CEE_MUL_OVF_UN, MulOvfUn), (CEE_SUB_OVF, SubOvf), (CEE_SUB_OVF_UN, SubOvfUn)]"

lemma remap_BinaryOpcode: "remaps_to BinaryOpcodes BinaryOpcode_rows"
  by (simp add: remap_eval BinaryOpcode_rows_def)

definition BoolBranchOpcode_rows :: "(OPCODE \<times> BoolBranchOpcode) list" where
  "BoolBranchOpcode_rows =
     [(CEE_BRFALSE_S, BrFalseS), (CEE_BRTRUE_S, BrTrueS), (CEE_BRFALSE, BrFalse),
      (CEE_BRTRUE, BrTrue)]"

lemma remap_BoolBranchOpcode: "remaps_to BoolBranchOpcodes BoolBranchOpcode_rows"
  by (simp add: remap_eval BoolBranchOpcode_rows_def)

definition CallOpcode_rows :: "(OPCODE \<times> CallOpcode) list" where
  "CallOpcode_rows =
     [(CEE_JMP, Jmp), (CEE_CALL, Call), (CEE_CALLI, Calli), (CEE_CALLVIRT, CallVirt),
      (CEE_NEWOBJ, NewObj)]"

lemma remap_CallOpcode: "remaps_to CallOpcodes CallOpcode_rows"
  by (simp add: remap_eval CallOpcode_rows_def)

definition CmpOpcode_rows :: "(OPCODE \<times> CmpOpcode) list" where
  "CmpOpcode_rows =
     [(CEE_CEQ, Ceq), (CEE_CGT, Cgt), (CEE_CGT_UN, CgtUn), (CEE_CLT, Clt), (CEE_CLT_UN, CltUn)]"

lemma remap_CmpOpcode: "remaps_to CmpOpcodes CmpOpcode_rows"
  by (simp add: remap_eval CmpOpcode_rows_def)

definition CondBranchOpcode_rows :: "(OPCODE \<times> CondBranchOpcode) list" where
  "CondBranchOpcode_rows =
     [(CEE_BEQ_S, BeqS), (CEE_BGE_S, BgeS), (CEE_BGT_S, BgtS), (CEE_BLE_S, BleS),
      (CEE_BLT_S, BltS), (CEE_BNE_UN_S, BneUnS), (CEE_BGE_UN_S, BgeUnS),
      (CEE_BGT_UN_S, BgtUnS), (CEE_BLE_UN_S, BleUnS), (CEE_BLT_UN_S, BltUnS), (CEE_BEQ, Beq),
      (CEE_BGE, Bge), (CEE_BGT, Bgt), (CEE_BLE, Ble), (CEE_BLT, Blt), (CEE_BNE_UN, BneUn),
      (CEE_BGE_UN, BgeUn), (CEE_BGT_UN, BgtUn), (CEE_BLE_UN, BleUn), (CEE_BLT_UN, BltUn)]"

lemma remap_CondBranchOpcode: "remaps_to CondBranchOpcodes CondBranchOpcode_rows"
  by (simp add: remap_eval CondBranchOpcode_rows_def)

definition ConvOpcode_rows :: "(OPCODE \<times> ConvOpcode) list" where
  "ConvOpcode_rows =
     [(CEE_CONV_I1, ConvI1), (CEE_CONV_I2, ConvI2), (CEE_CONV_I4, ConvI4),
      (CEE_CONV_I8, ConvI8), (CEE_CONV_R4, ConvR4), (CEE_CONV_R8, ConvR8),
      (CEE_CONV_U4, ConvU4), (CEE_CONV_U8, ConvU8), (CEE_CONV_R_UN, ConvRUn),
      (CEE_CONV_OVF_I1_UN, ConvOvfI1Un), (CEE_CONV_OVF_I2_UN, ConvOvfI2Un),
      (CEE_CONV_OVF_I4_UN, ConvOvfI4Un), (CEE_CONV_OVF_I8_UN, ConvOvfI8Un),
      (CEE_CONV_OVF_U1_UN, ConvOvfU1Un), (CEE_CONV_OVF_U2_UN, ConvOvfU2Un),
      (CEE_CONV_OVF_U4_UN, ConvOvfU4Un), (CEE_CONV_OVF_U8_UN, ConvOvfU8Un),
      (CEE_CONV_OVF_I_UN, ConvOvfIUn), (CEE_CONV_OVF_U_UN, ConvOvfUUn),
      (CEE_CONV_OVF_I1, ConvOvfI1), (CEE_CONV_OVF_U1, ConvOvfU1), (CEE_CONV_OVF_I2, ConvOvfI2),
      (CEE_CONV_OVF_U2, ConvOvfU2), (CEE_CONV_OVF_I4, ConvOvfI4), (CEE_CONV_OVF_U4, ConvOvfU4),
      (CEE_CONV_OVF_I8, ConvOvfI8), (CEE_CONV_OVF_U8, ConvOvfU8), (CEE_CONV_U2, ConvU2),
      (CEE_CONV_U1, ConvU1), (CEE_CONV_I, ConvI), (CEE_CONV_OVF_I, ConvOvfI),
      (CEE_CONV_OVF_U, ConvOvfU), (CEE_CONV_U, ConvU)]"

lemma remap_ConvOpcode: "remaps_to ConvOpcodes ConvOpcode_rows"
  by (simp add: remap_eval ConvOpcode_rows_def)

definition ExceptOpcode_rows :: "(OPCODE \<times> ExceptOpcode) list" where
  "ExceptOpcode_rows =
     [(CEE_THROW, Throw), (CEE_ENDFILTER, EndFilter)]"

lemma remap_ExceptOpcode: "remaps_to ExceptOpcodes ExceptOpcode_rows"
  by (simp add: remap_eval ExceptOpcode_rows_def)

definition LdElemOpcode_rows :: "(OPCODE \<times> LdElemOpcode) list" where
  "LdElemOpcode_rows =
     [(CEE_LDELEM_I1, LdelemI1), (CEE_LDELEM_U1, LdelemU1), (CEE_LDELEM_I2, LdelemI2),
      (CEE_LDELEM_U2, LdelemU2), (CEE_LDELEM_I4, LdelemI4), (CEE_LDELEM_U4, LdelemU4),
      (CEE_LDELEM_I8, LdelemI8), (CEE_LDELEM_I, LdelemI), (CEE_LDELEM_R4, LdelemR4),
      (CEE_LDELEM_R8, LdelemR8), (CEE_LDELEM_REF, LdelemRef), (CEE_LDELEM, Ldelem)]"

lemma remap_LdElemOpcode: "remaps_to LdElemOpcodes LdElemOpcode_rows"
  by (simp add: remap_eval LdElemOpcode_rows_def)

definition LdIndirOpcode_rows :: "(OPCODE \<times> LdIndirOpcode) list" where
  "LdIndirOpcode_rows =
     [(CEE_LDIND_I1, LdindI1), (CEE_LDIND_U1, LdindU1), (CEE_LDIND_I2, LdindI2),
      (CEE_LDIND_U2, LdindU2), (CEE_LDIND_I4, LdindI4), (CEE_LDIND_U4, LdindU4),
      (CEE_LDIND_I8, LdindI8), (CEE_LDIND_I, LdindI), (CEE_LDIND_R4, LdindR4),
      (CEE_LDIND_R8, LdindR8), (CEE_LDIND_REF, LdindRef)]"

lemma remap_LdIndirOpcode: "remaps_to LdIndirOpcodes LdIndirOpcode_rows"
  by (simp add: remap_eval LdIndirOpcode_rows_def)

definition StElemOpcode_rows :: "(OPCODE \<times> StElemOpcode) list" where
  "StElemOpcode_rows =
     [(CEE_STELEM_I, StelemI), (CEE_STELEM_I1, StelemI1), (CEE_STELEM_I2, StelemI2),
      (CEE_STELEM_I4, StelemI4), (CEE_STELEM_I8, StelemI8), (CEE_STELEM_R4, StelemR4),
      (CEE_STELEM_R8, StelemR8), (CEE_STELEM_REF, StelemRef), (CEE_STELEM, Stelem)]"

lemma remap_StElemOpcode: "remaps_to StElemOpcodes StElemOpcode_rows"
  by (simp add: remap_eval StElemOpcode_rows_def)

definition ShiftOpcode_rows :: "(OPCODE \<times> ShiftOpcode) list" where
  "ShiftOpcode_rows =
     [(CEE_SHL, Shl), (CEE_SHR, Shr), (CEE_SHR_UN, ShrUn)]"

lemma remap_ShiftOpcode: "remaps_to ShiftOpcodes ShiftOpcode_rows"
  by (simp add: remap_eval ShiftOpcode_rows_def)

definition StIndirOpcode_rows :: "(OPCODE \<times> StIndirOpcode) list" where
  "StIndirOpcode_rows =
     [(CEE_STIND_REF, StindRef), (CEE_STIND_I1, StindI1), (CEE_STIND_I2, StindI2),
      (CEE_STIND_I4, StindI4), (CEE_STIND_I8, StindI8), (CEE_STIND_R4, StindR4),
      (CEE_STIND_R8, StindR8), (CEE_STIND_I, StindI)]"

lemma remap_StIndirOpcode: "remaps_to StIndirOpcodes StIndirOpcode_rows"
  by (simp add: remap_eval StIndirOpcode_rows_def)

end
