(* ===== verification/ILDecode.thy ===== *)
theory ILDecode
  imports Opcodes
begin

section \<open>Decoding MSIL instructions\<close>

text \<open>
  The instruction decoder of \<^verbatim>\<open>lib/Reader/reader.cpp\<close>: \<open>readValue\<close>, \<open>getMSILInstrLength\<close>,
  \<open>parseILOpcode\<close> and the listing loop \<open>printMSIL\<close>. Offsets are 32-bit words, so that the additions
  of the code wrap as they do there. The operand kind of an opcode is listed in CoreCLR's
  \<^verbatim>\<open>opcode.def\<close>, which is not part of the repository: it is the parameter \<open>opargs\<close> of the model, and
  the byte size of each kind is the one \<^verbatim>\<open>include/Reader/ophelper.def\<close> gives.
\<close>

subsection \<open>Operand kinds and their sizes\<close>

datatype InlineKind =
    InlineNone | ShortInlineVar | ShortInlineI | InlineI | InlineI8 | ShortInlineR | InlineR
  | InlineMethod | InlineSig | ShortInlineBrTarget | InlineBrTarget | InlineSwitch | InlineType
  | InlineString | InlineField | InlineTok | InlineVar

fun operandSize :: "InlineKind \<Rightarrow> int" where
  "operandSize InlineNone = 0"
| "operandSize ShortInlineVar = 1"
| "operandSize ShortInlineI = 1"
| "operandSize InlineI = 4"
| "operandSize InlineI8 = 8"
| "operandSize ShortInlineR = 4"
| "operandSize InlineR = 8"
| "operandSize InlineMethod = 4"
| "operandSize InlineSig = 4"
| "operandSize ShortInlineBrTarget = 1"
| "operandSize InlineBrTarget = 4"
| "operandSize InlineSwitch = -1"
| "operandSize InlineType = 4"
| "operandSize InlineString = 4"
| "operandSize InlineField = 4"
| "operandSize InlineTok = 4"
| "operandSize InlineVar = 2"

subsection \<open>Reading values\<close>

text \<open>\<open>readValue\<close> at the types the reader uses, at a byte offset of the buffer.\<close>

definition readValue_u32 :: "u8 list \<Rightarrow> u32 \<Rightarrow> u32 result" where
  "readValue_u32 buf off =
     rbind (read_bytes ''IL'' buf (unat off) 4) (\<lambda>bs. Inr (word_of_nat (le_value bs)))"

definition readValue_i8 :: "u8 list \<Rightarrow> u32 \<Rightarrow> int result" where
  "readValue_i8 buf off =
     rbind (read_bytes ''IL'' buf (unat off) 1) (\<lambda>bs. Inr (sint (word_of_nat (le_value bs) :: u8)))"

definition readValue_i16 :: "u8 list \<Rightarrow> u32 \<Rightarrow> int result" where
  "readValue_i16 buf off =
     rbind (read_bytes ''IL'' buf (unat off) 2) (\<lambda>bs. Inr (sint (word_of_nat (le_value bs) :: u16)))"

definition readValue_i32 :: "u8 list \<Rightarrow> u32 \<Rightarrow> int result" where
  "readValue_i32 buf off =
     rbind (read_bytes ''IL'' buf (unat off) 4) (\<lambda>bs. Inr (sint (word_of_nat (le_value bs) :: u32)))"

definition readValue_i64 :: "u8 list \<Rightarrow> u32 \<Rightarrow> int result" where
  "readValue_i64 buf off =
     rbind (read_bytes ''IL'' buf (unat off) 8) (\<lambda>bs. Inr (sint (word_of_nat (le_value bs) :: u64)))"

text \<open>Reading a switch: the value and the cursor after it.\<close>

definition readNumberOfSwitchCases :: "u8 list \<Rightarrow> u32 \<Rightarrow> (u32 \<times> u32) result" where
  "readNumberOfSwitchCases buf cursor =
     rbind (readValue_u32 buf cursor) (\<lambda>v. Inr (v, cursor + 4))"

definition readSwitchCase :: "u8 list \<Rightarrow> u32 \<Rightarrow> (int \<times> u32) result" where
  "readSwitchCase buf cursor =
     rbind (readValue_i32 buf cursor) (\<lambda>v. Inr (v, cursor + 4))"

subsection \<open>Instruction length\<close>

definition getMSILInstrLength :: "(OPCODE \<Rightarrow> InlineKind) \<Rightarrow> OPCODE \<Rightarrow> u8 list \<Rightarrow> u32 \<Rightarrow> u32 result" where
  "getMSILInstrLength opargs op buf operand =
     (if op = CEE_SWITCH
      then rbind (readNumberOfSwitchCases buf operand) (\<lambda>(numCases, _). Inr (4 + numCases * 4))
      else Inr (word_of_int (operandSize (opargs op))))"

subsection \<open>Parsing one opcode\<close>

text \<open>
  What a parse reports. With a reader the report goes to \<open>verGlobalError\<close>, which this build stubs
  out (\<^verbatim>\<open>GenIRStubs.cpp\<close>), without one it is printed; in both cases the parse goes on.
\<close>

datatype ParseReport = BadOpcode | Underflow

record ParseResult =
  next_offset :: u32              \<comment> \<open>the return value\<close>
  opcode :: OPCODE                \<comment> \<open>\<open>*Opcode\<close>\<close>
  operand :: "u32 option"         \<comment> \<open>\<open>*Operand\<close> as an offset of \<open>ILInput\<close>; \<open>None\<close> is \<open>nullptr\<close>\<close>
  report :: "ParseReport option"

text \<open>The result on the \<open>underflow\<close> label and on an illegal opcode.\<close>

definition parse_failure :: "u32 \<Rightarrow> u32 \<Rightarrow> bool \<Rightarrow> ParseReport \<Rightarrow> ParseResult" where
  "parse_failure ILOffset ILSize ReportErrors rep =
     \<lparr>next_offset = ILSize,
      opcode = (if ReportErrors then CEE_ILLEGAL else CEE_NOP),
      operand = (if ReportErrors then None else Some ILOffset),
      report = (if ReportErrors then Some rep else None)\<rparr>"

text \<open>
  The opcode after its one or two bytes were read: the prefixed table is indexed whenever the byte
  is at most the table's length, as in the source, so the index one past the end is a fault.
\<close>

definition prefixed_opcode :: "u8 \<Rightarrow> OPCODE result" where
  "prefixed_opcode b =
     (if unat b \<le> length PrefixedByteCodes
      then (if unat b < length PrefixedByteCodes then Inr (PrefixedByteCodes ! unat b)
            else Inl (OutOfBounds ''PrefixedByteCodes'' (unat b)))
      else Inr CEE_ILLEGAL)"

definition read_byte :: "u8 list \<Rightarrow> u32 \<Rightarrow> u8 result" where
  "read_byte buf off =
     (if unat off < length buf then Inr (buf ! unat off) else Inl (OutOfBounds ''IL'' (unat off)))"

text \<open>The part of \<open>parseILOpcode\<close> after the opcode bytes, with the cursor behind them.\<close>

definition parse_operand ::
  "(OPCODE \<Rightarrow> InlineKind) \<Rightarrow> u8 list \<Rightarrow> u32 \<Rightarrow> u32 \<Rightarrow> bool \<Rightarrow> u32 \<Rightarrow> OPCODE \<Rightarrow> ParseResult result"
where
  "parse_operand opargs ILInput ILOffset ILSize ReportErrors cur op =
     (if op = CEE_ILLEGAL then Inr (parse_failure ILOffset ILSize ReportErrors BadOpcode)
      else if op = CEE_SWITCH \<and> ILSize - cur < 4
      then Inr (parse_failure ILOffset ILSize ReportErrors Underflow)
      else rbind (getMSILInstrLength opargs op ILInput cur) (\<lambda>len.
        if cur + len > ILSize then Inr (parse_failure ILOffset ILSize ReportErrors Underflow)
        else Inr \<lparr>next_offset = cur + len, opcode = op, operand = Some cur, report = None\<rparr>))"

definition parseILOpcode ::
  "(OPCODE \<Rightarrow> InlineKind) \<Rightarrow> u8 list \<Rightarrow> u32 \<Rightarrow> u32 \<Rightarrow> bool \<Rightarrow> ParseResult result"
where
  "parseILOpcode opargs ILInput ILOffset ILSize ReportErrors =
     (if ILOffset \<ge> ILSize then Inr (parse_failure ILOffset ILSize ReportErrors Underflow)
      else rbind (read_byte ILInput ILOffset) (\<lambda>b.
        if b = 0xFE
        then (if ILOffset + 1 = ILSize
              then Inr (parse_failure ILOffset ILSize ReportErrors Underflow)
              else rbind (read_byte ILInput (ILOffset + 1)) (\<lambda>b2.
                   rbind (prefixed_opcode b2) (\<lambda>op.
                   parse_operand opargs ILInput ILOffset ILSize ReportErrors (ILOffset + 2) op)))
        else parse_operand opargs ILInput ILOffset ILSize ReportErrors (ILOffset + 1)
               (ByteCodes ! unat b)))"

subsection \<open>Listing a method\<close>

text \<open>
  \<open>printMSIL\<close> prints one line per instruction: the address, the next offset, the name of the opcode
  and the operand. The loop follows the offsets \<open>parseILOpcode\<close> returns, and nothing in it
  guarantees that they grow, so the model has fuel and \<open>None\<close> is a listing that goes on.
\<close>

datatype MSILOperand = NoOperand | HexOperand int | FloatOperand "u8 list" | SwitchOperand "int list"

record MSILLine =
  address :: u32
  next_label :: u32
  mnemonic :: OPCODE
  shown :: MSILOperand

fun read_cases :: "nat \<Rightarrow> u8 list \<Rightarrow> u32 \<Rightarrow> int list result" where
  "read_cases 0 buf cursor = Inr []"
| "read_cases (Suc n) buf cursor =
     rbind (readSwitchCase buf cursor) (\<lambda>(v, cursor').
     rbind (read_cases n buf cursor') (\<lambda>vs. Inr (v # vs)))"

definition printMSIL_operand :: "u8 list \<Rightarrow> ParseResult \<Rightarrow> MSILOperand result" where
  "printMSIL_operand buf r =
     (case operand r of None \<Rightarrow> Inr NoOperand
      | Some cur \<Rightarrow>
        if opcode r = CEE_SWITCH
        then rbind (readNumberOfSwitchCases buf cur) (\<lambda>(n, cur').
             rbind (read_cases (unat n) buf cur') (\<lambda>vs. Inr (SwitchOperand vs)))
        else
          (let size = unat (next_offset r - cur) in
           if size = 1 then rbind (readValue_i8 buf cur) (\<lambda>v. Inr (HexOperand v))
           else if size = 2 then rbind (readValue_i16 buf cur) (\<lambda>v. Inr (HexOperand v))
           else if size = 4
           then (if opcode r = CEE_LDC_R4
                 then rbind (read_bytes ''IL'' buf (unat cur) 4) (\<lambda>bs. Inr (FloatOperand bs))
                 else rbind (readValue_i32 buf cur) (\<lambda>v. Inr (HexOperand v)))
           else if size = 8
           then (if opcode r = CEE_LDC_R8
                 then rbind (read_bytes ''IL'' buf (unat cur) 8) (\<lambda>bs. Inr (FloatOperand bs))
                 else rbind (readValue_i64 buf cur) (\<lambda>v. Inr (HexOperand v)))
           else Inr NoOperand))"

fun printMSIL_loop ::
  "nat \<Rightarrow> (OPCODE \<Rightarrow> InlineKind) \<Rightarrow> u8 list \<Rightarrow> u32 \<Rightarrow> u32 \<Rightarrow> u32 \<Rightarrow> MSILLine list result option"
where
  "printMSIL_loop 0 opargs buf StartOffset NumBytes Offset = None"
| "printMSIL_loop (Suc fuel) opargs buf StartOffset NumBytes Offset =
     (if Offset < NumBytes then
        (case parseILOpcode opargs buf Offset NumBytes True of
           Inl e \<Rightarrow> Some (Inl e)
         | Inr r \<Rightarrow>
           (case printMSIL_operand buf r of
              Inl e \<Rightarrow> Some (Inl e)
            | Inr t \<Rightarrow>
              (case printMSIL_loop fuel opargs buf StartOffset NumBytes (next_offset r) of
                 None \<Rightarrow> None
               | Some (Inl e) \<Rightarrow> Some (Inl e)
               | Some (Inr ls) \<Rightarrow>
                 Some (Inr (\<lparr>address = StartOffset + Offset, next_label = next_offset r,
                             mnemonic = opcode r, shown = t\<rparr> # ls)))))
      else Some (Inr []))"

definition printMSIL ::
  "nat \<Rightarrow> (OPCODE \<Rightarrow> InlineKind) \<Rightarrow> u8 list \<Rightarrow> u32 \<Rightarrow> u32 \<Rightarrow> MSILLine list result option"
where
  "printMSIL fuel opargs buf StartOffset EndOffset =
     (if StartOffset \<ge> EndOffset then Some (Inr [])
      else printMSIL_loop fuel opargs buf StartOffset (EndOffset - StartOffset) StartOffset)"

subsection \<open>Vocabulary of the properties\<close>

definition opargs_wf :: "(OPCODE \<Rightarrow> InlineKind) \<Rightarrow> bool" where
  "opargs_wf opargs \<longleftrightarrow> (\<forall>op. opargs op = InlineSwitch \<longrightarrow> op = CEE_SWITCH)"

definition switch_count :: "u8 list \<Rightarrow> u32 \<Rightarrow> nat" where
  "switch_count buf cur = le_value (take 4 (drop (unat cur) buf))"

definition operand_bytes :: "(OPCODE \<Rightarrow> InlineKind) \<Rightarrow> u8 list \<Rightarrow> OPCODE \<Rightarrow> u32 \<Rightarrow> nat" where
  "operand_bytes opargs buf op cur =
     (if op = CEE_SWITCH then 4 + 4 * switch_count buf cur else nat (operandSize (opargs op)))"

text \<open>The decode loop makes progress where no switch table wraps around the address space.\<close>

definition switch_fits :: "u8 list \<Rightarrow> ParseResult \<Rightarrow> bool" where
  "switch_fits buf r \<longleftrightarrow>
     (case operand r of None \<Rightarrow> True
      | Some cur \<Rightarrow> opcode r = CEE_SWITCH \<longrightarrow> unat cur + 4 + 4 * switch_count buf cur < 2 ^ 32)"

text \<open>Every switch of the buffer fits.\<close>

definition switches_fit :: "(OPCODE \<Rightarrow> InlineKind) \<Rightarrow> u8 list \<Rightarrow> bool" where
  "switches_fit opargs buf = list_all
     (\<lambda>i. case parseILOpcode opargs buf (word_of_nat i) (word_of_nat (length buf)) True of
            Inl e \<Rightarrow> True | Inr r \<Rightarrow> switch_fits buf r)
     [0..<length buf]"

definition legal_opcode :: "OPCODE \<Rightarrow> bool" where
  "legal_opcode op \<longleftrightarrow> op \<noteq> CEE_ILLEGAL \<and> (op \<in> set ByteCodes \<or> op \<in> set PrefixedByteCodes)"

definition encode_opcode :: "OPCODE \<Rightarrow> u8 list" where
  "encode_opcode op = (if op < 256 then [word_of_nat op] else [0xFE, word_of_nat (op - 256)])"

definition operand_wf :: "(OPCODE \<Rightarrow> InlineKind) \<Rightarrow> OPCODE \<Rightarrow> u8 list \<Rightarrow> bool" where
  "operand_wf opargs op args \<longleftrightarrow>
     (if op = CEE_SWITCH then 4 \<le> length args \<and> length args = 4 + 4 * le_value (take 4 args)
      else int (length args) = operandSize (opargs op))"

definition sample_opargs :: "OPCODE \<Rightarrow> InlineKind" where
  "sample_opargs op =
     (if op = CEE_SWITCH then InlineSwitch else if op = CEE_LDC_I4 then InlineI
      else if op = CEE_BR_S \<or> op = CEE_LEAVE_S then ShortInlineBrTarget
      else if op = CEE_BR then InlineBrTarget else InlineNone)"

subsection \<open>Lemmas\<close>


lemma operandSize_range: "k \<noteq> InlineSwitch \<Longrightarrow> 0 \<le> operandSize k \<and> operandSize k \<le> 8"
  by (cases k) auto

lemma switch_count_bound: "switch_count buf cur < 2 ^ 32"
proof -
  have "switch_count buf cur < 256 ^ length (take 4 (drop (unat cur) buf))"
    unfolding switch_count_def by (rule le_value_bound)
  also have "\<dots> \<le> 256 ^ 4" by (rule power_increasing) auto
  finally show ?thesis by simp
qed

lemma getMSILInstrLength_eq:
  assumes "opargs_wf opargs" and "op = CEE_SWITCH \<Longrightarrow> unat cur + 4 \<le> length buf"
  shows "getMSILInstrLength opargs op buf cur = Inr (word_of_nat (operand_bytes opargs buf op cur))"
proof (cases "op = CEE_SWITCH")
  case True
  with assms(2) show ?thesis
    by (simp add: getMSILInstrLength_def readNumberOfSwitchCases_def readValue_u32_def
        read_bytes_def operand_bytes_def switch_count_def)
next
  case False
  with assms(1) have "opargs op \<noteq> InlineSwitch" by (auto simp: opargs_wf_def)
  with operandSize_range[of "opargs op"] False show ?thesis
    by (simp add: getMSILInstrLength_def operand_bytes_def of_nat_nat)
qed

lemma parse_operand_success:
  assumes wf: "opargs_wf opargs" and len: "length buf = unat ILSize" and cur: "cur \<le> ILSize"
    and r: "parse_operand opargs buf off ILSize True cur op = Inr r" and ok: "report r = None"
  shows "opcode r = op \<and> op \<noteq> CEE_ILLEGAL \<and> operand r = Some cur \<and> next_offset r \<le> ILSize \<and>
     next_offset r = cur + word_of_nat (operand_bytes opargs buf op cur)"
proof -
  have "unat cur + 4 \<le> length buf" if "\<not> ILSize - cur < 4"
    using that cur len by (simp add: word_less_nat_alt unat_sub word_le_nat_alt)
  then have L: "getMSILInstrLength opargs op buf cur = Inr (word_of_nat (operand_bytes opargs buf op cur))"
    if "\<not> (op = CEE_SWITCH \<and> ILSize - cur < 4)"
    using that by (intro getMSILInstrLength_eq[OF wf]) auto
  from r ok L show ?thesis
    by (auto simp: parse_operand_def parse_failure_def not_less split: if_splits)
qed

lemma parseILOpcode_success:
  assumes wf: "opargs_wf opargs" and len: "length buf = unat ILSize"
    and r: "parseILOpcode opargs buf off ILSize True = Inr r" and ok: "report r = None"
  shows "\<exists>cur. operand r = Some cur \<and> unat off < unat cur \<and> unat cur \<le> unat off + 2 \<and>
     opcode r \<noteq> CEE_ILLEGAL \<and> unat cur \<le> unat ILSize \<and> next_offset r \<le> ILSize \<and>
     next_offset r = cur + word_of_nat (operand_bytes opargs buf (opcode r) cur)"
proof -
  from r ok have lt: "off < ILSize" by (auto simp: parseILOpcode_def parse_failure_def not_le split: if_splits)
  then have u: "unat off < unat ILSize" by (simp add: word_less_nat_alt)
  have u1: "unat (off + 1) = unat off + 1"
    by (subst unat_add_no_wrap) (use u unat_bound_u32[of ILSize] in auto)
  have u2: "unat (off + 2) = unat off + 2" if "off + 1 \<noteq> ILSize"
  proof -
    from that have "unat (off + 1) \<noteq> unat ILSize" by (simp add: word_unat_eq_iff)
    with u u1 have "unat off + 1 < unat ILSize" by simp
    then show ?thesis by (subst unat_add_no_wrap) (use unat_bound_u32[of ILSize] in auto)
  qed
  obtain cur op where P: "parse_operand opargs buf off ILSize True cur op = Inr r"
    and c: "cur = off + 1 \<or> (cur = off + 2 \<and> off + 1 \<noteq> ILSize)"
    using r ok lt
    by (auto simp: parseILOpcode_def rbind_eq_Inr_iff parse_failure_def not_le split: if_splits)
  from c u u1 u2 have b: "unat off < unat cur \<and> unat cur \<le> unat off + 2 \<and> cur \<le> ILSize"
    by (auto simp: word_le_nat_alt word_unat_eq_iff)
  with parse_operand_success[OF wf len _ P ok] show ?thesis
    by (auto simp: word_le_nat_alt)
qed

lemma read_byte_in_range: "unat off < length buf \<Longrightarrow> read_byte buf off = Inr (buf ! unat off)"
  by (simp add: read_byte_def)

lemma parse_operand_total:
  assumes wf: "opargs_wf opargs" and len: "length buf = unat ILSize" and cur: "cur \<le> ILSize"
  shows "parse_operand opargs buf off ILSize rep cur op \<noteq> Inl e"
proof -
  have "unat cur + 4 \<le> length buf" if "\<not> ILSize - cur < 4"
    using that cur len by (simp add: word_less_nat_alt unat_sub word_le_nat_alt)
  then have "getMSILInstrLength opargs op buf cur = Inr (word_of_nat (operand_bytes opargs buf op cur))"
    if "\<not> (op = CEE_SWITCH \<and> ILSize - cur < 4)"
    using that by (intro getMSILInstrLength_eq[OF wf]) auto
  then show ?thesis by (auto simp: parse_operand_def)
qed

lemma unat_Suc_off:
  fixes off ILSize :: u32
  assumes "off < ILSize"
  shows "unat (off + 1) = unat off + 1"
  using assms unat_bound_u32[of ILSize] by (subst unat_add_no_wrap) (auto simp: word_less_nat_alt)

lemma parseILOpcode_fault_iff:
  assumes wf: "opargs_wf opargs" and len: "length buf = unat ILSize"
  shows "(\<exists>e. parseILOpcode opargs buf off ILSize rep = Inl e) \<longleftrightarrow>
     unat off + 1 < length buf \<and> buf ! unat off = 0xFE \<and> buf ! (unat off + 1) = 33"
proof (cases "off < ILSize")
  case False
  then show ?thesis using len by (auto simp: parseILOpcode_def not_less unat_simps)
next
  case lt: True
  note u1 = unat_Suc_off[OF lt]
  from lt len have rb: "read_byte buf off = Inr (buf ! unat off)"
    by (intro read_byte_in_range) (simp add: word_less_nat_alt)
  have le1: "off + 1 \<le> ILSize" using lt u1 by (simp add: unat_simps)
  show ?thesis
  proof (cases "buf ! unat off = 0xFE \<and> off + 1 \<noteq> ILSize")
    case False
    then show ?thesis using parse_operand_total[OF wf len le1, of off rep] lt rb u1 len
      by (auto simp: parseILOpcode_def unat_simps)
  next
    case True
    from True lt u1 have u: "unat off + 1 < unat ILSize" by (auto simp: unat_simps)
    then have u2: "unat (off + 2) = unat off + 2"
      by (subst unat_add_no_wrap) (use unat_bound_u32[of ILSize] in auto)
    then have le2: "off + 2 \<le> ILSize" using u by (simp add: word_le_nat_alt)
    have rb2: "read_byte buf (off + 1) = Inr (buf ! (unat off + 1))"
      using read_byte_in_range[of "off + 1" buf] u u1 len by simp
    have "buf ! (unat off + 1) = 33 \<longleftrightarrow> unat (buf ! (unat off + 1)) = 33"
      by (simp add: word_unat_eq_iff)
    then show ?thesis using parse_operand_total[OF wf len le2, of off rep] lt rb rb2 True u len
      by (auto simp: parseILOpcode_def prefixed_opcode_def)
  qed
qed

lemma parseILOpcode_next:
  assumes wf: "opargs_wf opargs" and len: "length buf = unat ILSize" and small: "unat ILSize + 8 < 2 ^ 32"
    and r: "parseILOpcode opargs buf off ILSize True = Inr r" and ok: "report r = None"
    and fits: "switch_fits buf r"
  shows "\<exists>cur. operand r = Some cur \<and> unat off < unat cur \<and> unat cur \<le> unat off + 2 \<and>
     unat (next_offset r) = unat cur + operand_bytes opargs buf (opcode r) cur \<and>
     unat (next_offset r) \<le> length buf"
proof -
  obtain cur where c: "operand r = Some cur" "unat off < unat cur" "unat cur \<le> unat off + 2"
      "unat cur \<le> unat ILSize" "next_offset r \<le> ILSize"
    and n: "next_offset r = cur + word_of_nat (operand_bytes opargs buf (opcode r) cur)"
    using parseILOpcode_success[OF wf len r ok] by blast
  have "unat cur + operand_bytes opargs buf (opcode r) cur < 2 ^ 32"
  proof (cases "opcode r = CEE_SWITCH")
    case True
    with fits c(1) show ?thesis by (simp add: switch_fits_def operand_bytes_def)
  next
    case False
    with wf have "opargs (opcode r) \<noteq> InlineSwitch" by (auto simp: opargs_wf_def)
    with operandSize_range[of "opargs (opcode r)"] False
    have "operand_bytes opargs buf (opcode r) cur \<le> 8" by (simp add: operand_bytes_def nat_le_iff)
    with small c(4) show ?thesis by simp
  qed
  then have "unat (next_offset r) = unat cur + operand_bytes opargs buf (opcode r) cur"
    unfolding n by (simp add: unat_word_ariths unat_of_nat)
  with c len show ?thesis by (auto simp: word_le_nat_alt)
qed

lemma parseILOpcode_failure:
  assumes "parseILOpcode opargs buf off ILSize True = Inr r" and "report r \<noteq> None"
  shows "next_offset r = ILSize \<and> opcode r = CEE_ILLEGAL \<and> operand r = None"
  using assms
  by (auto simp: parseILOpcode_def parse_operand_def parse_failure_def rbind_eq_Inr_iff split: if_splits)

lemma parseILOpcode_progress:
  assumes "opargs_wf opargs" and "length buf = unat ILSize" and "unat ILSize + 8 < 2 ^ 32"
    and r: "parseILOpcode opargs buf off ILSize True = Inr r" and "off < ILSize"
    and "switch_fits buf r"
  shows "unat off < unat (next_offset r) \<and> unat (next_offset r) \<le> length buf"
proof (cases "report r = None")
  case True
  then show ?thesis using parseILOpcode_next[OF assms(1-4) True assms(6)] by fastforce
next
  case False
  then show ?thesis using parseILOpcode_failure[OF r False] assms(2,5) by (simp add: word_less_nat_alt)
qed

subsection \<open>Assembling and decoding one instruction\<close>

lemma ByteCodes_prefix_byte: "ByteCodes ! 254 = CEE_ILLEGAL"
  by (simp add: ByteCodes_def)

lemma legal_opcode_short:
  assumes "legal_opcode op" and "op < 256"
  shows "ByteCodes ! op = op \<and> op \<noteq> 254"
proof -
  from assms obtain i where "i < 256" "ByteCodes ! i = op \<or> 256 + i = op"
    using PrefixedByteCodes_nth by (fastforce simp: legal_opcode_def in_set_conv_nth)
  with assms have "i < 256" "ByteCodes ! i = op" by auto
  moreover from this have "op = i"
    using table_rows_okD[OF ByteCodes_rows, of i] assms(1) by (auto simp: legal_opcode_def)
  ultimately show ?thesis using assms ByteCodes_prefix_byte by (auto simp: legal_opcode_def)
qed

lemma legal_opcode_long:
  assumes "legal_opcode op" and "\<not> op < 256"
  shows "op - 256 < 33 \<and> PrefixedByteCodes ! (op - 256) = op"
proof -
  from assms have "op \<in> set PrefixedByteCodes"
    using ByteCodes_rows table_rows_okD[of 0 ByteCodes]
    by (fastforce simp: legal_opcode_def in_set_conv_nth)
  then obtain i where "i < 33" "PrefixedByteCodes ! i = op" by (auto simp: in_set_conv_nth)
  with PrefixedByteCodes_nth[of i] assms(1) show ?thesis by (auto simp: legal_opcode_def)
qed

lemma parse_operand_encode:
  assumes wf: "opargs_wf opargs" and op: "op \<noteq> CEE_ILLEGAL" and args: "operand_wf opargs op args"
    and buf: "buf = front @ args @ post" and small: "length buf + 8 < 2 ^ 32"
  shows "parse_operand opargs buf off (word_of_nat (length buf)) rep (word_of_nat (length front)) op =
    Inr \<lparr>next_offset = word_of_nat (length front + length args), opcode = op,
         operand = Some (word_of_nat (length front)), report = None\<rparr>"
proof -
  let ?cur = "word_of_nat (length front) :: u32" and ?sz = "word_of_nat (length buf) :: u32"
  have u: "unat ?cur = length front" "unat ?sz = length buf"
    by (rule unat_of_nat_u32, use small buf in simp)+
  have cnt: "switch_count buf ?cur = le_value (take 4 args)" if "op = CEE_SWITCH"
    using that args buf u by (simp add: switch_count_def operand_wf_def)
  have ob: "operand_bytes opargs buf op ?cur = length args"
    using args cnt by (auto simp: operand_bytes_def operand_wf_def)
  have sub: "\<not> ?sz - ?cur < 4" if "op = CEE_SWITCH"
  proof -
    have "?cur \<le> ?sz" unfolding word_le_nat_alt u using buf by simp
    then have "unat (?sz - ?cur) = length buf - length front" using u by (simp only: unat_sub)
    then show ?thesis unfolding word_less_nat_alt using that args buf by (simp add: operand_wf_def)
  qed
  have "op = CEE_SWITCH \<Longrightarrow> unat ?cur + 4 \<le> length buf"
    using args buf u by (simp add: operand_wf_def)
  then have L: "getMSILInstrLength opargs op buf ?cur = Inr (word_of_nat (length args))"
    using getMSILInstrLength_eq[OF wf, of op ?cur buf] ob by simp
  have "?cur + word_of_nat (length args) \<le> ?sz"
    using small buf u(2) unat_of_nat_u32[of "length front + length args"] by (simp add: word_le_nat_alt)
  with L sub op show ?thesis by (auto simp: parse_operand_def not_less)
qed

lemma parseILOpcode_encode:
  assumes wf: "opargs_wf opargs" and legal: "legal_opcode op" and args: "operand_wf opargs op args"
    and buf: "buf = pre @ encode_opcode op @ args @ post" and small: "length buf + 8 < 2 ^ 32"
  shows "parseILOpcode opargs buf (word_of_nat (length pre)) (word_of_nat (length buf)) rep =
    Inr \<lparr>next_offset = word_of_nat (length pre + length (encode_opcode op) + length args),
         opcode = op, operand = Some (word_of_nat (length pre + length (encode_opcode op))),
         report = None\<rparr>"
proof -
  let ?off = "word_of_nat (length pre) :: u32" and ?sz = "word_of_nat (length buf) :: u32"
  have u: "unat ?off = length pre" "unat ?sz = length buf"
    by (rule unat_of_nat_u32, use small buf in simp)+
  have lt: "\<not> ?off \<ge> ?sz" using u buf by (auto simp: word_le_nat_alt encode_opcode_def)
  have nil: "op \<noteq> CEE_ILLEGAL" using legal by (simp add: legal_opcode_def)
  note P = parse_operand_encode[OF wf nil args, of buf "pre @ encode_opcode op" post ?off rep]
  show ?thesis
  proof (cases "op < 256")
    case True
    have b: "unat (word_of_nat op :: u8) = op" using True by (simp add: unat_of_nat)
    then have "(word_of_nat op :: u8) \<noteq> 0xFE" using legal_opcode_short[OF legal True]
      by (auto simp: word_unat_eq_iff)
    moreover have "read_byte buf ?off = Inr (word_of_nat op)"
      using u True buf by (simp add: read_byte_def encode_opcode_def)
    ultimately show ?thesis using lt P buf small True b legal_opcode_short[OF legal True]
      by (simp add: parseILOpcode_def encode_opcode_def add.commute)
  next
    case False
    note long = legal_opcode_long[OF legal False]
    have b: "unat (word_of_nat (op - 256) :: u8) = op - 256" using long by (simp add: unat_of_nat)
    have u1: "unat (?off + 1) = length pre + 1"
      using unat_Suc_off[of ?off ?sz] lt u by simp
    have "read_byte buf ?off = Inr 0xFE" "read_byte buf (?off + 1) = Inr (word_of_nat (op - 256))"
      using u u1 False buf by (simp_all add: read_byte_def encode_opcode_def nth_append)
    moreover have "?off + 1 \<noteq> ?sz"
      using u u1 buf False by (auto simp: word_unat_eq_iff encode_opcode_def)
    moreover have "prefixed_opcode (word_of_nat (op - 256)) = Inr op"
      using long b by (simp add: prefixed_opcode_def)
    ultimately show ?thesis using lt P buf small False
      by (simp add: parseILOpcode_def encode_opcode_def add.commute)
  qed
qed

subsection \<open>The listing loop\<close>

lemma switches_fitD:
  assumes "switches_fit opargs buf" and "length buf = unat ILSize" and "off < ILSize"
    and "parseILOpcode opargs buf off ILSize True = Inr r"
  shows "switch_fits buf r"
proof -
  have "unat off \<in> set [0..<length buf]" using assms(2,3) by (simp add: word_less_nat_alt)
  with assms show ?thesis by (force simp: switches_fit_def list_all_iff)
qed

lemma printMSIL_loop_terminates:
  assumes wf: "opargs_wf opargs" and len: "length buf = unat n" and small: "unat n + 8 < 2 ^ 32"
    and fit: "switches_fit opargs buf"
  shows "unat n - unat off < f \<Longrightarrow> printMSIL_loop f opargs buf start n off \<noteq> None"
proof (induction f arbitrary: off)
  case 0
  then show ?case by simp
next
  case (Suc f)
  show ?case
  proof (cases "\<exists>r. off < n \<and> parseILOpcode opargs buf off n True = Inr r")
    case True
    then obtain r where lt: "off < n" and r: "parseILOpcode opargs buf off n True = Inr r" by blast
    have "unat off < unat (next_offset r) \<and> unat (next_offset r) \<le> length buf"
      using parseILOpcode_progress[OF wf len small r lt switches_fitD[OF fit len lt r]] .
    with Suc.prems len have "unat n - unat (next_offset r) < f" by linarith
    with Suc.IH[of "next_offset r"] lt r show ?thesis
      by (auto split: sum.splits option.splits)
  next
    case False
    then show ?thesis by (auto split: sum.splits)
  qed
qed

lemma printMSIL_loop_addresses:
  assumes wf: "opargs_wf opargs" and len: "length buf = unat n" and small: "unat n + 8 < 2 ^ 32"
    and fit: "switches_fit opargs buf"
  shows "printMSIL_loop f opargs buf 0 n off = Some (Inr ls) \<Longrightarrow>
    sorted_wrt (<) (map (unat \<circ> address) ls) \<and>
    (\<forall>l \<in> set ls. unat off \<le> unat (address l) \<and> unat (address l) < length buf)"
proof (induction f arbitrary: off ls)
  case 0
  then show ?case by simp
next
  case (Suc f)
  show ?case
  proof (cases "off < n")
    case False
    with Suc.prems show ?thesis by simp
  next
    case lt: True
    with Suc.prems obtain r t ls' where r: "parseILOpcode opargs buf off n True = Inr r"
      and rest: "printMSIL_loop f opargs buf 0 n (next_offset r) = Some (Inr ls')"
      and ls: "ls = \<lparr>address = off, next_label = next_offset r, mnemonic = opcode r, shown = t\<rparr> # ls'"
      by (auto split: sum.splits option.splits)
    have "unat off < unat (next_offset r)"
      using parseILOpcode_progress[OF wf len small r lt switches_fitD[OF fit len lt r]] by simp
    with Suc.IH[OF rest] ls lt len show ?thesis by (fastforce simp: word_less_nat_alt)
  qed
qed

subsection \<open>Properties\<close>

text \<open>The operand table of the witnesses is well formed; in it \<open>ldc.i4\<close>, \<open>br\<close>, \<open>br.s\<close> and \<open>switch\<close> have operands.\<close>

lemma sample_opargs_wf: "opargs_wf sample_opargs"
  by (simp add: opargs_wf_def sample_opargs_def)

lemmas parse_eval = parseILOpcode_def read_byte_def ByteCodes_def PrefixedByteCodes_def
  prefixed_opcode_def parse_operand_def parse_failure_def getMSILInstrLength_def
  readNumberOfSwitchCases_def readSwitchCase_def readValue_u32_def readValue_i8_def
  readValue_i16_def readValue_i32_def readValue_i64_def read_bytes_def sample_opargs_def

text \<open>C7: decoding inverts encoding: where the bytes of a legal opcode and a well-formed operand
  stand at an offset of the buffer, \<open>parseILOpcode\<close> returns that opcode, the operand's offset and
  the offset just behind the operand, with no report.\<close>

theorem parse_encode_roundtrip:
  assumes "opargs_wf opargs" and "legal_opcode op" and "operand_wf opargs op args"
    and "length (pre @ encode_opcode op @ args @ post) + 8 < 2 ^ 32"
  shows "parseILOpcode opargs (pre @ encode_opcode op @ args @ post) (word_of_nat (length pre))
      (word_of_nat (length (pre @ encode_opcode op @ args @ post))) rep =
    Inr \<lparr>next_offset = word_of_nat (length pre + length (encode_opcode op) + length args),
         opcode = op, operand = Some (word_of_nat (length pre + length (encode_opcode op))),
         report = None\<rparr>"
  using parseILOpcode_encode[OF assms(1-3) refl assms(4)] .

theorem parse_encode_roundtrip_witness:
  "parseILOpcode sample_opargs [0, 0x20, 1, 2, 3, 4, 0x2A] 1 7 True =
    Inr \<lparr>next_offset = 6, opcode = CEE_LDC_I4, operand = Some 2, report = None\<rparr>"
proof -
  have "legal_opcode CEE_LDC_I4" by (simp add: legal_opcode_def ByteCodes_def)
  moreover have "operand_wf sample_opargs CEE_LDC_I4 [1, 2, 3, 4]"
    by (simp add: operand_wf_def sample_opargs_def)
  ultimately show ?thesis
    using parse_encode_roundtrip[OF sample_opargs_wf, of CEE_LDC_I4 "[1, 2, 3, 4]" "[0]" "[0x2A]" True]
    by (simp add: encode_opcode_def)
qed

text \<open>C10: a successful parse stays in the buffer and makes progress: the operand starts one or two
  bytes behind the opcode, the next offset is just behind the operand's bytes and within the
  buffer, provided a decoded switch table does not wrap around the 32-bit address space.\<close>

theorem parse_in_bounds:
  assumes "opargs_wf opargs" and "length buf = unat ILSize" and "unat ILSize + 8 < 2 ^ 32"
    and "parseILOpcode opargs buf off ILSize True = Inr r" and "report r = None"
    and "switch_fits buf r"
  shows "\<exists>cur. operand r = Some cur \<and> unat off < unat cur \<and> unat cur \<le> unat off + 2 \<and>
     unat (next_offset r) = unat cur + operand_bytes opargs buf (opcode r) cur \<and>
     unat (next_offset r) \<le> length buf"
  using assms by (rule parseILOpcode_next)

theorem parse_in_bounds_witness:
  "\<exists>cur. Some (2::u32) = Some cur \<and> unat (1::u32) < unat cur \<and> unat cur \<le> unat (1::u32) + 2 \<and>
     unat (10::u32) = unat cur + operand_bytes sample_opargs [0, 0x45, 1, 0, 0, 0, 0, 0, 0, 0] CEE_SWITCH cur \<and>
     unat (10::u32) \<le> length [0::u8, 0x45, 1, 0, 0, 0, 0, 0, 0, 0]"
proof -
  let ?buf = "[0, 0x45, 1, 0, 0, 0, 0, 0, 0, 0] :: u8 list"
  let ?r = "\<lparr>next_offset = 10, opcode = CEE_SWITCH, operand = Some 2, report = None\<rparr> :: ParseResult"
  have "parseILOpcode sample_opargs ?buf 1 10 True = Inr ?r" by (simp add: parse_eval word_le_nat_alt)
  moreover have "switch_fits ?buf ?r" by (simp add: switch_fits_def switch_count_def)
  ultimately show ?thesis
    using parse_in_bounds[OF sample_opargs_wf, of ?buf 10 1 ?r] by simp
qed

text \<open>Exactly one input makes \<open>parseILOpcode\<close> read outside its tables: the two bytes \<open>FE 21\<close>. The
  bounds check of the prefixed table is \<open>\<le>\<close> where the table has 33 entries.\<close>

theorem parse_fault_iff:
  assumes "opargs_wf opargs" and "length buf = unat ILSize"
  shows "(\<exists>e. parseILOpcode opargs buf off ILSize rep = Inl e) \<longleftrightarrow>
     unat off + 1 < length buf \<and> buf ! unat off = 0xFE \<and> buf ! (unat off + 1) = 33"
  using assms by (rule parseILOpcode_fault_iff)

theorem parse_fault_iff_witness:
  "\<exists>e. parseILOpcode sample_opargs [0xFE, 33] 0 2 True = Inl e"
  using parse_fault_iff[OF sample_opargs_wf, of "[0xFE, 33]" 2 0 True] by simp

text \<open>The length of a switch is computed modulo \<open>2 ^ 32\<close>: a case count of \<open>0x3FFFFFFE\<close> at offset
  3 decodes without a report and gives offset 0 as the next instruction, so a loop that follows the
  offsets never ends.\<close>

theorem parse_switch_wraps:
  "parseILOpcode opargs [0, 0, 0, 0x45, 0xFE, 0xFF, 0xFF, 0x3F] 3 8 True =
     Inr \<lparr>next_offset = 0, opcode = CEE_SWITCH, operand = Some 4, report = None\<rparr>"
  by (simp add: parse_eval)

text \<open>Listing a whole method ends after at most one step per byte when no switch table wraps, and
  the lines it prints are in strictly increasing order of address, all inside the method.\<close>

theorem printMSIL_terminates:
  assumes "opargs_wf opargs" and "length buf + 8 < 2 ^ 32" and "switches_fit opargs buf"
  shows "\<exists>res. printMSIL (Suc (length buf)) opargs buf 0 (word_of_nat (length buf)) = Some res \<and>
    (case res of Inl e \<Rightarrow> True
     | Inr ls \<Rightarrow> sorted_wrt (<) (map (unat \<circ> address) ls) \<and>
        list_all (\<lambda>l. unat (address l) < length buf) ls)"
proof -
  have u: "unat (word_of_nat (length buf) :: u32) = length buf"
    using assms(2) by (intro unat_of_nat_u32) simp
  have len: "length buf = unat (word_of_nat (length buf) :: u32)" using u by simp
  have small: "unat (word_of_nat (length buf) :: u32) + 8 < 2 ^ 32" using u assms(2) by simp
  show ?thesis
  proof (cases "printMSIL (Suc (length buf)) opargs buf 0 (word_of_nat (length buf))")
    case None
    then show ?thesis using printMSIL_loop_terminates[OF assms(1) len small assms(3), of 0 "Suc (length buf)" 0] u
      by (auto simp: printMSIL_def simp del: printMSIL_loop.simps split: if_splits)
  next
    case (Some res)
    then show ?thesis using printMSIL_loop_addresses[OF assms(1) len small assms(3), of "Suc (length buf)" 0]
      by (auto simp: printMSIL_def list_all_iff simp del: printMSIL_loop.simps split: sum.splits if_splits)
  qed
qed

theorem printMSIL_terminates_witness:
  "\<exists>res. printMSIL 3 sample_opargs [0, 0x2A] 0 2 = Some res \<and>
    (case res of Inl e \<Rightarrow> True
     | Inr ls \<Rightarrow> sorted_wrt (<) (map (unat \<circ> address) ls) \<and> list_all (\<lambda>l. unat (address l) < length [0::u8, 0x2A]) ls)"
proof -
  have "switches_fit sample_opargs [0, 0x2A]"
    by (simp add: switches_fit_def upt_rec parse_eval switch_fits_def)
  then show ?thesis using printMSIL_terminates[OF sample_opargs_wf, of "[0, 0x2A]"]
    by (simp add: numeral_3_eq_3 del: printMSIL_loop.simps)
qed

text \<open>Listing a range that does not start at 0 takes the number of bytes as the end offset: a range
  in the second half of the method prints nothing at all.\<close>

theorem printMSIL_second_half_empty:
  assumes "0 < fuel" and "StartOffset < EndOffset" and "unat EndOffset \<le> 2 * unat StartOffset"
  shows "printMSIL fuel opargs buf StartOffset EndOffset = Some (Inr [])"
proof -
  have "unat (EndOffset - StartOffset) = unat EndOffset - unat StartOffset"
    using assms(2) by (intro unat_sub) simp
  with assms have "\<not> StartOffset < EndOffset - StartOffset" by (simp add: word_less_nat_alt)
  with assms show ?thesis by (cases fuel) (simp_all add: printMSIL_def)
qed

theorem printMSIL_second_half_empty_witness:
  "printMSIL 5 sample_opargs [0, 0, 0, 0x2A] 2 4 = Some (Inr [])"
  using printMSIL_second_half_empty[of 5 2 4] by simp

end
