(* ===== verification/MethodSet.thy ===== *)
theory MethodSet
  imports Prelude
begin

section \<open>Method patterns and method sets\<close>

text \<open>
  \<^verbatim>\<open>lib/Jit/utility.cpp\<close> and \<^verbatim>\<open>include/Jit/utility.h\<close>: the patterns that select methods for the
  alternate JIT (\<open>MethodID\<close>), their parser, and the set of patterns (\<open>MethodSet\<close>) that several
  compilations share. A position of a \<open>std::string\<close> is a natural number, \<open>npos\<close> is the value the
  search functions return when they find nothing, and a \<open>std::string\<close> constructor that throws
  \<open>std::out_of_range\<close> is an \<open>Inl\<close>.
\<close>

subsection \<open>The parts of \<open>std::string\<close> and \<open>atoi\<close> the parser uses\<close>

definition npos :: nat where
  "npos = 18446744073709551615"

definition find_first :: "(char \<Rightarrow> bool) \<Rightarrow> string \<Rightarrow> nat \<Rightarrow> nat" where
  "find_first P S I =
     (let n = length (takeWhile (\<lambda>c. \<not> P c) (drop I S))
      in if I + n < length S then I + n else npos)"

definition find_first_of :: "string \<Rightarrow> string \<Rightarrow> nat \<Rightarrow> nat" where
  "find_first_of cs S I = find_first (\<lambda>c. c \<in> set cs) S I"

definition find_first_not_of :: "string \<Rightarrow> string \<Rightarrow> nat \<Rightarrow> nat" where
  "find_first_not_of cs S I = find_first (\<lambda>c. c \<notin> set cs) S I"

definition substring :: "string \<Rightarrow> nat \<Rightarrow> nat \<Rightarrow> string result" where
  "substring S pos n =
     (if pos > length S then Inl (OutOfRange ''string'') else Inr (take n (drop pos S)))"

text \<open>\<open>S[I]\<close>: at the end of the string it is the terminating null character.\<close>

definition char_at :: "string \<Rightarrow> nat \<Rightarrow> char result" where
  "char_at S I =
     (if I < length S then Inr (S ! I) else if I = length S then Inr (CHR 0x00)
      else Inl (OutOfBounds ''string'' I))"

definition is_space :: "char \<Rightarrow> bool" where
  "is_space c \<longleftrightarrow> c = CHR '' '' \<or> c \<in> {CHR 0x09, CHR 0x0A, CHR 0x0B, CHR 0x0C, CHR 0x0D}"

definition is_digit :: "char \<Rightarrow> bool" where
  "is_digit c \<longleftrightarrow> 48 \<le> (of_char c :: nat) \<and> (of_char c :: nat) \<le> 57"

definition digits_value :: "string \<Rightarrow> int" where
  "digits_value ds = foldl (\<lambda>v c. 10 * v + (of_char c - 48)) 0 ds"

text \<open>\<open>atoi\<close>: its result is undefined when the value does not fit in an \<open>int\<close>.\<close>

definition atoi :: "string \<Rightarrow> int result" where
  "atoi S =
     (let S' = dropWhile is_space S;
          neg = (S' \<noteq> [] \<and> hd S' = CHR ''-'');
          ds = (if S' \<noteq> [] \<and> hd S' \<in> {CHR ''-'', CHR ''+''} then tl S' else S');
          v = digits_value (takeWhile is_digit ds);
          r = (if neg then - v else v)
      in if - (2 ^ 31) \<le> r \<and> r < 2 ^ 31 then Inr r else Inl (OutOfRange ''atoi''))"

subsection \<open>\<open>MethodID\<close>\<close>

definition AnyArgs :: int where
  "AnyArgs = -1"

record MethodID =
  ClassName :: "string option"
  MethodName :: "string option"
  NumArgs :: int

definition MethodID_default :: MethodID where
  "MethodID_default = \<lparr>ClassName = None, MethodName = None, NumArgs = AnyArgs\<rparr>"

text \<open>On entry \<open>S[I]\<close> is the opening parenthesis.\<close>

definition parseArgs :: "string \<Rightarrow> nat \<Rightarrow> (int \<times> nat) result" where
  "parseArgs S I =
     (let Start = I + 1; I' = find_first_of '')'' S Start
      in if I' = npos then Inr (AnyArgs, npos)
         else rbind (substring S Start (I' - Start)) (\<lambda>Num.
              rbind (atoi Num) (\<lambda>NArgs. Inr (NArgs, I' + 1))))"

definition scan :: "string \<Rightarrow> nat \<Rightarrow> (string \<times> nat) result" where
  "scan S I =
     (if I \<ge> length S then Inr ([], I)
      else
        (let Start = find_first_not_of [CHR '' '', CHR 0x09] S I;
             I' = find_first_of '' :()'' S Start;
             I'' = (if I' = npos then length S else I')
         in rbind (substring S Start (I'' - Start)) (\<lambda>Token. Inr (Token, I''))))"

text \<open>The part of \<open>MethodID::parse\<close> after the optional class name.\<close>

definition parse_method :: "MethodID \<Rightarrow> string \<Rightarrow> string \<Rightarrow> nat \<Rightarrow> (MethodID option \<times> nat) result" where
  "parse_method MId Token S I =
     (let MId = MId\<lparr>MethodName := Some Token\<rparr> in
      if I \<ge> length S then Inr (Some (MId\<lparr>NumArgs := AnyArgs\<rparr>), I)
      else rbind (char_at S I) (\<lambda>c.
        if c = CHR '' '' then Inr (Some (MId\<lparr>NumArgs := AnyArgs\<rparr>), I)
        else if c \<noteq> CHR ''('' then Inr (None, I)
        else rbind (parseArgs S I) (\<lambda>(n, I'). Inr (Some (MId\<lparr>NumArgs := n\<rparr>), I'))))"

definition parse :: "string \<Rightarrow> nat \<Rightarrow> (MethodID option \<times> nat) result" where
  "parse S I =
     rbind (scan S I) (\<lambda>(Token, I).
       if Token = [] then Inr (None, I)
       else if Token = ''*''
       then Inr (Some (MethodID_default\<lparr>ClassName := Some Token, MethodName := None\<rparr>), I)
       else rbind (char_at S I) (\<lambda>c.
         if c = CHR '':''
         then rbind (scan S (I + 1)) (\<lambda>(Token', I').
              parse_method (MethodID_default\<lparr>ClassName := Some Token\<rparr>) Token' S I')
         else parse_method MethodID_default Token S I))"

subsection \<open>\<open>MethodSet\<close>\<close>

text \<open>The loop of \<open>MethodSet::insert\<close>: patterns up to the first that does not parse.\<close>

fun parse_all :: "nat \<Rightarrow> string \<Rightarrow> nat \<Rightarrow> MethodID list result option" where
  "parse_all 0 S I = None"
| "parse_all (Suc fuel) S I =
     (case parse S I of
        Inl e \<Rightarrow> Some (Inl e)
      | Inr (None, _) \<Rightarrow> Some (Inr [])
      | Inr (Some MId, I') \<Rightarrow>
        (case parse_all fuel S I' of
           None \<Rightarrow> None
         | Some (Inl e) \<Rightarrow> Some (Inl e)
         | Some (Inr MIds) \<Rightarrow> Some (Inr (MId # MIds))))"

record MethodSet =
  Initialized :: u32
  MethodIDList :: "MethodID list option"

definition MethodSet_new :: MethodSet where
  "MethodSet_new = \<lparr>Initialized = 0, MethodIDList = None\<rparr>"

definition isInitialized :: "MethodSet \<Rightarrow> bool" where
  "isInitialized s \<longleftrightarrow> MethodIDList s \<noteq> None"

definition isEmpty :: "MethodSet \<Rightarrow> bool result" where
  "isEmpty s = (case MethodIDList s of None \<Rightarrow> Inl (AssertFailed ''isInitialized'') | Some l \<Rightarrow> Inr (l = []))"

text \<open>The publication of a parsed list by compare-and-swap.\<close>

definition publish :: "MethodID list \<Rightarrow> MethodSet \<Rightarrow> MethodSet" where
  "publish l s = (if Initialized s \<noteq> 0 then s else s\<lparr>Initialized := 1, MethodIDList := Some l\<rparr>)"

definition insert_patterns :: "nat \<Rightarrow> string \<Rightarrow> MethodSet \<Rightarrow> MethodSet result option" where
  "insert_patterns fuel S s =
     (case parse_all fuel S 0 of
        None \<Rightarrow> None
      | Some (Inl e) \<Rightarrow> Some (Inl e)
      | Some (Inr l) \<Rightarrow> Some (Inr (publish l s)))"

definition init :: "nat \<Rightarrow> string \<Rightarrow> MethodSet \<Rightarrow> MethodSet result option" where
  "init fuel S s = (if isInitialized s then Some (Inr s) else insert_patterns fuel S s)"

text \<open>
  \<open>contains\<close>: the number of arguments comes from the signature, whose decoder \<open>CorSigUncompressData\<close>
  belongs to CoreCLR and is the parameter \<open>uncompress\<close>.
\<close>

fun contains_loop :: "MethodID list \<Rightarrow> string \<Rightarrow> string \<Rightarrow> int \<Rightarrow> bool" where
  "contains_loop [] M C n = False"
| "contains_loop (P # Ps) M C n =
     (if ClassName P = Some ''*'' then True
      else if NumArgs P \<noteq> AnyArgs \<and> NumArgs P \<noteq> n then contains_loop Ps M C n
      else if MethodName P \<noteq> None \<and> the (MethodName P) \<noteq> M then contains_loop Ps M C n
      else if ClassName P = None then True
      else if the (ClassName P) = C then True
      else contains_loop Ps M C n)"

definition contains ::
  "(u8 list \<Rightarrow> int) \<Rightarrow> MethodSet \<Rightarrow> string option \<Rightarrow> string option \<Rightarrow> u8 list option \<Rightarrow> bool result"
where
  "contains uncompress s M C PCSig =
     (case MethodIDList s of
        None \<Rightarrow> Inl (AssertFailed ''isInitialized'')
      | Some l \<Rightarrow>
        Inr (contains_loop l (case M of None \<Rightarrow> [] | Some m \<Rightarrow> m) (case C of None \<Rightarrow> [] | Some c \<Rightarrow> c)
          (case PCSig of None \<Rightarrow> AnyArgs | Some sig \<Rightarrow> uncompress (tl sig))))"

subsection \<open>Concurrent initialisation\<close>

text \<open>
  Several compilations call \<open>queryMethodSet\<close> on one set: test \<open>isInitialized\<close>, parse, compare and
  swap the flag, then (in the winner) store the list pointer, then call \<open>contains\<close>. The flag and the
  pointer are two memory locations, so the store is a step of its own.
\<close>

datatype thread = Testing | Swapping "MethodID list" | Storing "MethodID list" | Ready

record shared =
  mset_state :: MethodSet
  thr :: "nat \<Rightarrow> thread"

inductive init_step :: "MethodID list \<Rightarrow> shared \<Rightarrow> shared \<Rightarrow> bool" for parsed :: "MethodID list" where
  test_initialised: "thr s i = Testing \<Longrightarrow> isInitialized (mset_state s) \<Longrightarrow>
     init_step parsed s (s\<lparr>thr := (thr s)(i := Ready)\<rparr>)"
| test_parse: "thr s i = Testing \<Longrightarrow> \<not> isInitialized (mset_state s) \<Longrightarrow>
     init_step parsed s (s\<lparr>thr := (thr s)(i := Swapping parsed)\<rparr>)"
| swap_lost: "thr s i = Swapping l \<Longrightarrow> Initialized (mset_state s) \<noteq> 0 \<Longrightarrow>
     init_step parsed s (s\<lparr>thr := (thr s)(i := Ready)\<rparr>)"
| swap_won: "thr s i = Swapping l \<Longrightarrow> Initialized (mset_state s) = 0 \<Longrightarrow>
     init_step parsed s (s\<lparr>mset_state := (mset_state s)\<lparr>Initialized := 1\<rparr>,
                           thr := (thr s)(i := Storing l)\<rparr>)"
| store: "thr s i = Storing l \<Longrightarrow>
     init_step parsed s (s\<lparr>mset_state := (mset_state s)\<lparr>MethodIDList := Some l\<rparr>,
                           thr := (thr s)(i := Ready)\<rparr>)"

definition init_start :: shared where
  "init_start = \<lparr>mset_state = MethodSet_new, thr = (\<lambda>_. Testing)\<rparr>"

inductive init_reach :: "MethodID list \<Rightarrow> shared \<Rightarrow> bool" for parsed :: "MethodID list" where
  init_reach_start: "init_reach parsed init_start"
| init_reach_step: "init_reach parsed s \<Longrightarrow> init_step parsed s t \<Longrightarrow> init_reach parsed t"

subsection \<open>Vocabulary of the properties\<close>

text \<open>The patterns of the class comment and their text.\<close>

datatype pattern = Star | Pat "string option" string "string option"

fun show_pattern :: "pattern \<Rightarrow> string" where
  "show_pattern Star = ''*''"
| "show_pattern (Pat c m a) =
     (case c of None \<Rightarrow> [] | Some c \<Rightarrow> c @ '':'') @ m @
     (case a of None \<Rightarrow> [] | Some d \<Rightarrow> ''('' @ d @ '')'')"

fun pattern_id :: "pattern \<Rightarrow> MethodID" where
  "pattern_id Star = \<lparr>ClassName = Some ''*'', MethodName = None, NumArgs = AnyArgs\<rparr>"
| "pattern_id (Pat c m a) = \<lparr>ClassName = c, MethodName = Some m,
     NumArgs = (case a of None \<Rightarrow> AnyArgs | Some d \<Rightarrow> projr (atoi d))\<rparr>"

definition name_ok :: "string \<Rightarrow> bool" where
  "name_ok s \<longleftrightarrow> s \<noteq> [] \<and> list_all (\<lambda>c. c \<notin> {CHR '' '', CHR 0x09, CHR '':'', CHR ''('', CHR '')''}) s"

fun pattern_ok :: "pattern \<Rightarrow> bool" where
  "pattern_ok Star = True"
| "pattern_ok (Pat c m a) \<longleftrightarrow>
     name_ok m \<and> (case c of None \<Rightarrow> m \<noteq> ''*'' | Some c \<Rightarrow> name_ok c \<and> c \<noteq> ''*'') \<and>
     (case a of None \<Rightarrow> True | Some d \<Rightarrow> CHR '')'' \<notin> set d \<and> \<not> isl (atoi d))"

text \<open>A configuration value: every pattern is preceded by some spaces.\<close>

definition config_text :: "(nat \<times> pattern) list \<Rightarrow> string" where
  "config_text ps = concat (map (\<lambda>(k, p). replicate (Suc k) (CHR '' '') @ show_pattern p) ps)"

text \<open>When a pattern selects a method.\<close>

definition selects :: "MethodID \<Rightarrow> string \<Rightarrow> string \<Rightarrow> int \<Rightarrow> bool" where
  "selects P M C n \<longleftrightarrow>
     ClassName P = Some ''*'' \<or>
     ((NumArgs P = AnyArgs \<or> NumArgs P = n) \<and> (MethodName P = None \<or> MethodName P = Some M) \<and>
      (ClassName P = None \<or> ClassName P = Some C))"

text \<open>The invariant of concurrent initialisation: the flag is set exactly when one thread is about to
  store or the list is stored, and at most one thread is ever about to store.\<close>

definition init_inv :: "MethodID list \<Rightarrow> shared \<Rightarrow> bool" where
  "init_inv parsed s \<longleftrightarrow>
     (\<forall>i l. thr s i = Swapping l \<longrightarrow> l = parsed) \<and>
     (\<forall>i l. thr s i = Storing l \<longrightarrow> l = parsed \<and> Initialized (mset_state s) \<noteq> 0 \<and>
        MethodIDList (mset_state s) = None) \<and>
     (\<forall>i j l m. thr s i = Storing l \<longrightarrow> thr s j = Storing m \<longrightarrow> i = j) \<and>
     (MethodIDList (mset_state s) = None \<or>
      (MethodIDList (mset_state s) = Some parsed \<and> Initialized (mset_state s) \<noteq> 0))"

subsection \<open>Lemmas\<close>

lemma find_first_skip:
  assumes "list_all (\<lambda>c. \<not> P c) xs"
  shows "find_first P (pre @ xs @ rest) (length pre) =
    (case rest of [] \<Rightarrow> npos
     | c # _ \<Rightarrow> if P c then length pre + length xs
                else find_first P (pre @ xs @ rest) (length pre + length xs))"
proof (cases rest)
  case Nil
  have "takeWhile (\<lambda>c. \<not> P c) xs = xs" using assms by (simp add: takeWhile_eq_all_conv list_all_iff)
  with Nil show ?thesis by (simp add: find_first_def Let_def del: takeWhile_eq_all_conv)
next
  case (Cons c cs)
  have "takeWhile (\<lambda>c. \<not> P c) (xs @ rest) = xs @ takeWhile (\<lambda>c. \<not> P c) rest"
    using assms by (intro takeWhile_append2) (simp add: list_all_iff)
  with Cons show ?thesis by (simp add: find_first_def)
qed

lemma find_first_ge: "find_first P S I \<noteq> npos \<Longrightarrow> I \<le> find_first P S I \<and> find_first P S I < length S"
  by (auto simp: find_first_def Let_def split: if_splits)

lemma scan_token:
  assumes bl: "list_all (\<lambda>c. c = CHR '' '') bl" and tok: "name_ok tok"
    and rest: "rest = [] \<or> hd rest \<in> {CHR '' '', CHR '':'', CHR ''('', CHR '')''}"
    and S: "S = pre @ bl @ tok @ rest" and len: "length S < npos"
  shows "scan S (length pre) = Inr (tok, length pre + length bl + length tok)"
proof -
  obtain t ts where t: "tok = t # ts" "t \<noteq> CHR '' ''" "t \<noteq> CHR 0x09"
    using tok by (cases tok) (auto simp: name_ok_def)
  have start: "find_first_not_of [CHR '' '', CHR 0x09] S (length pre) = length pre + length bl"
    unfolding find_first_not_of_def
    using find_first_skip[of "\<lambda>c. c \<notin> set [CHR '' '', CHR 0x09]" bl pre "tok @ rest"] bl t S
    by (auto simp: list_all_iff)
  have "find_first_of '' :()'' S (length pre + length bl) =
      (if rest = [] then npos else length pre + length bl + length tok)"
    unfolding find_first_of_def
    using find_first_skip[of "\<lambda>c. c \<in> set '' :()''" tok "pre @ bl" rest] tok rest S
    by (auto simp: list_all_iff name_ok_def split: list.splits)
  then show ?thesis using start S t len
    by (auto simp: scan_def substring_def Let_def npos_def)
qed

lemma scan_blank:
  assumes "bl \<noteq> []" and "list_all (\<lambda>c. c = CHR '' '') bl" and "S = pre @ bl" and "length S < npos"
  shows "scan S (length pre) = Inl (OutOfRange ''string'')"
proof -
  have "find_first_not_of [CHR '' '', CHR 0x09] S (length pre) = npos"
    unfolding find_first_not_of_def
    using find_first_skip[of "\<lambda>c. c \<notin> set [CHR '' '', CHR 0x09]" bl pre "[]"] assms
    by (auto simp: list_all_iff)
  with assms show ?thesis by (auto simp: scan_def substring_def Let_def)
qed

lemma parse_method_pattern:
  assumes S: "S = pre @ (case a of None \<Rightarrow> [] | Some d \<Rightarrow> ''('' @ d @ '')'') @ rest"
    and rest: "rest = [] \<or> hd rest = CHR '' ''" and len: "length S < npos"
    and ok: "case a of None \<Rightarrow> True | Some d \<Rightarrow> CHR '')'' \<notin> set d \<and> \<not> isl (atoi d)"
  shows "parse_method MId m S (length pre) =
    Inr (Some (MId\<lparr>MethodName := Some m,
                   NumArgs := (case a of None \<Rightarrow> AnyArgs | Some d \<Rightarrow> projr (atoi d))\<rparr>),
         length S - length rest)"
proof (cases a)
  case None
  with S rest show ?thesis
    by (cases rest) (auto simp: parse_method_def char_at_def nth_append Let_def)
next
  case (Some d)
  have "find_first_of '')'' S (Suc (length pre)) = length pre + 1 + length d"
    unfolding find_first_of_def
    using find_first_skip[of "\<lambda>c. c \<in> set '')''" d "pre @ ''(''" "'')'' @ rest"] ok Some S
    by (auto simp: list_all_iff)
  moreover obtain n where "atoi d = Inr n" using ok Some by (cases "atoi d") auto
  ultimately show ?thesis using S Some len
    by (simp add: parse_method_def char_at_def nth_append parseArgs_def substring_def Let_def npos_def)
qed

lemma parse_pattern:
  assumes bl: "list_all (\<lambda>c. c = CHR '' '') bl" and ok: "pattern_ok p"
    and rest: "rest = [] \<or> hd rest = CHR '' ''"
    and S: "S = pre @ bl @ show_pattern p @ rest" and len: "length S < npos"
  shows "parse S (length pre) = Inr (Some (pattern_id p), length S - length rest)"
proof (cases p)
  case Star
  have "scan S (length pre) = Inr (''*'', length pre + length bl + length ''*'')"
    by (rule scan_token[OF bl _ _ _ len]) (use Star S rest in \<open>auto simp: name_ok_def\<close>)
  then show ?thesis using Star S by (simp add: parse_def MethodID_default_def)
next
  case (Pat c m a)
  let ?args = "case a of None \<Rightarrow> [] | Some d \<Rightarrow> ''('' @ d @ '')''"
  have argok: "case a of None \<Rightarrow> True | Some d \<Rightarrow> CHR '')'' \<notin> set d \<and> \<not> isl (atoi d)"
    and m: "name_ok m" using ok Pat by auto
  have ar: "?args @ rest = [] \<or> hd (?args @ rest) \<in> {CHR '' '', CHR '':'', CHR ''('', CHR '')''}"
    using rest by (auto split: option.splits)
  show ?thesis
  proof (cases c)
    case None
    have "scan S (length pre) = Inr (m, length pre + length bl + length m)"
      by (rule scan_token[OF bl m ar _ len]) (use S Pat None in simp)
    moreover have "parse_method MethodID_default m S (length (pre @ bl @ m)) =
        Inr (Some (pattern_id p), length S - length rest)"
      by (subst parse_method_pattern[OF _ rest len argok])
         (use S Pat None in \<open>auto simp: MethodID_default_def\<close>)
    moreover have "char_at S (length (pre @ bl @ m)) =
        Inr (if ?args @ rest = [] then CHR 0x00 else hd (?args @ rest))"
      using S Pat None by (auto simp: char_at_def nth_append hd_conv_nth)
    moreover have "(if ?args @ rest = [] then CHR 0x00 else hd (?args @ rest)) \<noteq> CHR '':''"
      using rest by (auto split: option.splits)
    ultimately show ?thesis using ok Pat None m
      by (auto simp: parse_def name_ok_def add.assoc)
  next
    case (Some k)
    have k: "name_ok k" "k \<noteq> ''*''" using ok Pat Some by auto
    have S': "S = pre @ bl @ k @ '':'' @ m @ ?args @ rest" using S Pat Some by simp
    have "scan S (length pre) = Inr (k, length pre + length bl + length k)"
      by (rule scan_token[OF bl k(1) _ _ len, of "'':'' @ m @ ?args @ rest"]) (use S' in auto)
    moreover have "scan S (length (pre @ bl @ k @ '':'')) =
        Inr (m, length (pre @ bl @ k @ '':'') + length ([] :: string) + length m)"
      by (rule scan_token[OF _ m ar _ len]) (use S' in auto)
    moreover have "parse_method (MethodID_default\<lparr>ClassName := Some k\<rparr>) m S (length (pre @ bl @ k @ '':'' @ m)) =
        Inr (Some (pattern_id p), length S - length rest)"
      by (subst parse_method_pattern[OF _ rest len argok])
         (use S' Pat Some in \<open>auto simp: MethodID_default_def\<close>)
    moreover have "char_at S (length (pre @ bl @ k)) = Inr (CHR '':'')"
      using S' by (simp add: char_at_def nth_append)
    ultimately show ?thesis using k by (simp add: parse_def name_ok_def add.assoc)
  qed
qed

lemma config_text_start: "config_text ps = [] \<or> hd (config_text ps) = CHR '' ''"
  by (cases ps) (auto simp: config_text_def)

lemma parse_all_config:
  assumes "list_all (pattern_ok \<circ> snd) ps" and "S = pre @ config_text ps @ trail"
    and "list_all (\<lambda>c. c = CHR '' '') trail" and "length S < npos"
  shows "parse_all (Suc (length ps)) S (length pre) =
    (if trail = [] then Some (Inr (map (pattern_id \<circ> snd) ps)) else Some (Inl (OutOfRange ''string'')))"
  using assms
proof (induction ps arbitrary: pre)
  case Nil
  show ?case
  proof (cases "trail = []")
    case True
    with Nil show ?thesis by (simp add: config_text_def parse_def scan_def)
  next
    case False
    with Nil scan_blank[OF False Nil.prems(3), of S pre] show ?thesis
      by (simp add: config_text_def parse_def)
  qed
next
  case (Cons kp ps)
  obtain k p where kp: "kp = (k, p)" by force
  let ?bl = "replicate (Suc k) (CHR '' '')" and ?rest = "config_text ps @ trail"
  have S: "S = pre @ ?bl @ show_pattern p @ ?rest" using Cons.prems(2) kp by (simp add: config_text_def)
  have rest: "?rest = [] \<or> hd ?rest = CHR '' ''"
    using config_text_start[of ps] Cons.prems(3) by (cases trail; cases "config_text ps") auto
  have "parse S (length pre) = Inr (Some (pattern_id p), length S - length ?rest)"
    by (rule parse_pattern[OF _ _ rest S Cons.prems(4)]) (use Cons.prems(1) kp in \<open>auto simp: list_all_iff\<close>)
  moreover have "length S - length ?rest = length (pre @ ?bl @ show_pattern p)" using S by simp
  moreover have "parse_all (Suc (length ps)) S (length (pre @ ?bl @ show_pattern p)) =
      (if trail = [] then Some (Inr (map (pattern_id \<circ> snd) ps)) else Some (Inl (OutOfRange ''string'')))"
    by (rule Cons.IH) (use Cons.prems S in auto)
  ultimately show ?case using kp by simp
qed

lemma scan_progress:
  assumes "scan S I = Inr (Token, I')" and "length S < npos"
  shows "I \<le> I' \<and> (Token \<noteq> [] \<longrightarrow> I < length S \<and> I < I' \<and> I' \<le> length S)"
proof (cases "I \<ge> length S")
  case True
  with assms show ?thesis by (simp add: scan_def)
next
  case False
  let ?st = "find_first_not_of [CHR '' '', CHR 0x09] S I"
  let ?e = "find_first_of '' :()'' S ?st"
  have st: "?st \<noteq> npos"
    using assms False by (auto simp: scan_def substring_def Let_def split: if_splits)
  then have "I \<le> ?st \<and> ?st < length S"
    using find_first_ge by (fastforce simp: find_first_not_of_def)
  moreover have "?e = npos \<or> (?st \<le> ?e \<and> ?e < length S)"
    using find_first_ge by (fastforce simp: find_first_of_def)
  ultimately show ?thesis using assms False
    by (auto simp: scan_def substring_def Let_def split: if_splits)
qed

lemma parse_method_progress:
  assumes "parse_method MId Token S I = Inr (r, I')" and "length S < npos"
  shows "I \<le> I'"
proof -
  have "n = npos \<or> Suc I \<le> n" if "n = find_first_of '')'' S (I + 1)" for n
    using find_first_ge[of "\<lambda>c. c \<in> set '')''" S "I + 1"] that by (auto simp: find_first_of_def)
  with assms show ?thesis
    by (fastforce simp: parse_method_def parseArgs_def Let_def rbind_eq_Inr_iff char_at_def split: if_splits)
qed

lemma parse_progress:
  assumes "parse S I = Inr (Some MId, I')" and len: "length S < npos"
  shows "I < length S \<and> I < I'"
proof -
  obtain T J where s: "scan S I = Inr (T, J)" and T: "T \<noteq> []"
    using assms(1) by (auto simp: parse_def rbind_eq_Inr_iff split: if_splits)
  from scan_progress[OF s len] T have J: "I < length S" "I < J" by auto
  have "J \<le> I'" if "J + 1 \<le> K" "parse_method M U S K = Inr (Some MId, I')" for K M U
    using parse_method_progress[OF that(2) len] that(1) by simp
  then show ?thesis using assms(1) s T J parse_method_progress[OF _ len] scan_progress[OF _ len, of "J + 1"]
    by (fastforce simp: parse_def rbind_eq_Inr_iff split: if_splits)
qed

lemma parse_all_terminates:
  "length S < npos \<Longrightarrow> length S - I < fuel \<Longrightarrow> parse_all fuel S I \<noteq> None"
proof (induction fuel arbitrary: I)
  case 0
  then show ?case by simp
next
  case (Suc fuel)
  show ?case
  proof (cases "\<exists>MId I'. parse S I = Inr (Some MId, I')")
    case True
    then obtain MId I' where p: "parse S I = Inr (Some MId, I')" by blast
    from parse_progress[OF p Suc.prems(1)] Suc.prems have "length S - I' < fuel" by linarith
    from Suc.IH[OF Suc.prems(1) this] p show ?thesis by (auto split: option.splits sum.splits)
  next
    case False
    then show ?thesis by (auto split: sum.splits option.splits)
  qed
qed

lemma contains_loop_Cons: "contains_loop (P # Ps) M C n \<longleftrightarrow> selects P M C n \<or> contains_loop Ps M C n"
  by (cases "ClassName P"; cases "MethodName P") (simp_all add: selects_def)

lemma contains_loop_iff: "contains_loop l M C n \<longleftrightarrow> (\<exists>P \<in> set l. selects P M C n)"
  by (induction l) (simp_all add: contains_loop_Cons del: contains_loop.simps(2))

lemma init_inv_step: "init_step parsed s t \<Longrightarrow> init_inv parsed s \<Longrightarrow> init_inv parsed t"
proof (induction rule: init_step.induct)
  case (store s i l)
  then have "l = parsed" and "Initialized (mset_state s) \<noteq> 0"
    and "\<And>j m. j \<noteq> i \<Longrightarrow> thr s j \<noteq> Storing m" and "\<And>j m. thr s j = Swapping m \<Longrightarrow> m = parsed"
    unfolding init_inv_def by blast+
  then show ?case unfolding init_inv_def by simp
next
  case (swap_lost s i l)
  then show ?case unfolding init_inv_def by simp metis
next
  case (swap_won s i l)
  then show ?case unfolding init_inv_def by simp metis
qed (auto simp: init_inv_def isInitialized_def)

lemma init_reach_inv: "init_reach parsed s \<Longrightarrow> init_inv parsed s"
  by (induction rule: init_reach.induct)
     (auto simp: init_inv_step, simp add: init_inv_def init_start_def MethodSet_new_def)

subsection \<open>Properties\<close>

text \<open>C29: parsing a configuration value that lists well-formed patterns, each preceded by spaces, gives
  exactly those patterns in order.\<close>

theorem patterns_roundtrip:
  assumes "list_all (pattern_ok \<circ> snd) ps" and "length (config_text ps) < npos"
  shows "parse_all (Suc (length ps)) (config_text ps) 0 = Some (Inr (map (pattern_id \<circ> snd) ps))"
  using parse_all_config[OF assms(1), of "config_text ps" "[]" "[]"] assms(2) by simp

theorem patterns_roundtrip_witness:
  "parse_all 3 (config_text [(0, Pat None ''foo'' None), (1, Pat (Some ''Ns.C'') ''bar'' (Some ''2''))]) 0 =
     Some (Inr [\<lparr>ClassName = None, MethodName = Some ''foo'', NumArgs = -1\<rparr>,
                \<lparr>ClassName = Some ''Ns.C'', MethodName = Some ''bar'', NumArgs = 2\<rparr>])"
  using patterns_roundtrip[of "[(0, Pat None ''foo'' None), (1, Pat (Some ''Ns.C'') ''bar'' (Some ''2''))]"]
  by (simp add: numeral_3_eq_3 name_ok_def atoi_def Let_def is_space_def is_digit_def digits_value_def
      AnyArgs_def npos_def config_text_def del: parse_all.simps)

text \<open>A configuration value with a blank behind its last pattern (or one that is all blank) makes the
  scanner construct a \<open>std::string\<close> from position \<open>npos\<close>, which throws.\<close>

theorem trailing_blank_throws:
  assumes "list_all (pattern_ok \<circ> snd) ps" and "0 < k"
    and "length (config_text ps) + k < npos"
  shows "parse_all (Suc (length ps)) (config_text ps @ replicate k (CHR '' '')) 0 =
    Some (Inl (OutOfRange ''string''))"
  using parse_all_config[OF assms(1), of _ "[]" "replicate k (CHR '' '')"] assms(2,3)
  by (simp add: list_all_iff del: parse_all.simps)

theorem trailing_blank_throws_witness:
  "parse_all 2 '' foo '' 0 = Some (Inl (OutOfRange ''string''))"
  using trailing_blank_throws[of "[(0, Pat None ''foo'' None)]" 1]
  by (simp add: numeral_2_eq_2 name_ok_def config_text_def npos_def del: parse_all.simps)

text \<open>Parsing a configuration value always ends: every accepted pattern moves the position forward.\<close>

theorem parse_patterns_terminates:
  assumes "length S < npos"
  shows "\<exists>res. parse_all (Suc (length S)) S 0 = Some res"
  using parse_all_terminates[OF assms, of 0 "Suc (length S)"] by (cases "parse_all (Suc (length S)) S 0") auto

theorem parse_patterns_terminates_witness: 
  "\<exists>res. parse_all (Suc (length ''a:)('')) ''a:)('' 0 = Some res"
  by (rule parse_patterns_terminates) (simp add: npos_def)

text \<open>C25: \<open>contains\<close> answers whether some pattern of the set selects the method: the star pattern, or a
  pattern whose argument count, method name and class name each match or are left open.\<close>

theorem contains_iff:
  assumes "MethodIDList s = Some l"
  shows "contains uncompress s (Some M) (Some C) (Some sig) =
    Inr (\<exists>P \<in> set l. selects P M C (uncompress (tl sig)))"
  using assms by (simp add: contains_def contains_loop_iff)

theorem contains_iff_witness:
  "contains (\<lambda>bs. uint (hd bs)) \<lparr>Initialized = 1,
      MethodIDList = Some [\<lparr>ClassName = None, MethodName = Some ''foo'', NumArgs = 2\<rparr>]\<rparr>
      (Some ''foo'') (Some ''C'') (Some [0, 2]) =
    Inr (\<exists>P \<in> set [\<lparr>ClassName = None, MethodName = Some ''foo'', NumArgs = 2\<rparr>]. selects P ''foo'' ''C'' 2)"
  using contains_iff[of "\<lparr>Initialized = 1,
      MethodIDList = Some [\<lparr>ClassName = None, MethodName = Some ''foo'', NumArgs = 2\<rparr>]\<rparr>" _
      "\<lambda>bs. uint (hd bs)" "''foo''" "''C''" "[0, 2]"] by simp


text \<open>A run of one thread up to the stored list, and one in which a second thread overtakes.\<close>

lemma init_run_swapped:
  "init_reach parsed \<lparr>mset_state = \<lparr>Initialized = 1, MethodIDList = None\<rparr>,
     thr = (\<lambda>_. Testing)(0 := Storing parsed)\<rparr>"
proof -
  have "init_step parsed init_start (init_start\<lparr>thr := (thr init_start)(0 := Swapping parsed)\<rparr>)"
    by (rule test_parse) (simp_all add: init_start_def isInitialized_def MethodSet_new_def)
  note r1 = init_reach_step[OF init_reach_start this]
  have "init_step parsed (init_start\<lparr>thr := (thr init_start)(0 := Swapping parsed)\<rparr>)
      \<lparr>mset_state = \<lparr>Initialized = 1, MethodIDList = None\<rparr>, thr = (\<lambda>_. Testing)(0 := Storing parsed)\<rparr>"
    using swap_won[of "init_start\<lparr>thr := (thr init_start)(0 := Swapping parsed)\<rparr>" 0 parsed parsed]
    by (simp add: init_start_def MethodSet_new_def)
  from init_reach_step[OF r1 this] show ?thesis .
qed

lemma init_run_stored:
  "init_reach parsed \<lparr>mset_state = \<lparr>Initialized = 1, MethodIDList = Some parsed\<rparr>,
     thr = (\<lambda>_. Testing)(0 := Ready)\<rparr>"
  using init_reach_step[OF init_run_swapped store[of _ 0 parsed parsed]]
  by simp


text \<open>The flag is set before the list is stored, so a compilation that loses the compare-and-swap
  leaves \<open>init\<close> while the list pointer is still null: there is a reachable state in which a thread is
  past \<open>init\<close> and the assertion of \<open>contains\<close> fails.\<close>

theorem concurrent_init_race:
  "\<exists>s. init_reach parsed s \<and> thr s 1 = Ready \<and>
     contains uncompress (mset_state s) M C sig = Inl (AssertFailed ''isInitialized'')"
proof -
  let ?s = "\<lparr>mset_state = \<lparr>Initialized = 1, MethodIDList = None\<rparr>,
     thr = (\<lambda>_. Testing)(0 := Storing parsed)\<rparr> :: shared"
  let ?t = "?s\<lparr>thr := (thr ?s)(1 := Swapping parsed)\<rparr>"
  have 1: "init_step parsed ?s ?t" by (rule test_parse) (simp_all add: isInitialized_def)
  have 2: "init_step parsed ?t (?t\<lparr>thr := (thr ?t)(1 := Ready)\<rparr>)"
    by (rule swap_lost) simp_all
  from init_reach_step[OF init_reach_step[OF init_run_swapped 1] 2] show ?thesis
    by (intro exI[of _ "?t\<lparr>thr := (thr ?t)(1 := Ready)\<rparr>"]) (simp add: contains_def)
qed

end
