(* ===== verification/MethodSignature.thy ===== *)
theory MethodSignature
  imports Prelude
begin

section \<open>Runtime signatures of methods and call targets\<close>

text \<open>
  \<open>ReaderCallSignature\<close> and \<open>ReaderMethodSignature\<close> (include/Reader/reader.h): the list of the
  arguments a method receives at run time, which are the secret parameter of an IL stub, \<open>this\<close>,
  the vararg cookie, the instantiation parameter and the parameters of the metadata, in this
  order; the index functions that locate them and translate IL argument ordinals; and
  \<open>ReaderBase::argListNext\<close>, \<open>initMethodInfo\<close>, \<open>buildUpParams\<close> (lib/Reader/reader.cpp), which
  compute the list and visit it. The execution engine behind \<open>JitInfo\<close> is a parameter, the record
  \<open>arg_iterator\<close>.
\<close>

subsection \<open>Data\<close>

datatype CorInfoType =
    CORINFO_TYPE_UNDEF | CORINFO_TYPE_VOID | CORINFO_TYPE_BOOL | CORINFO_TYPE_CHAR
  | CORINFO_TYPE_BYTE | CORINFO_TYPE_UBYTE | CORINFO_TYPE_SHORT | CORINFO_TYPE_USHORT
  | CORINFO_TYPE_INT | CORINFO_TYPE_UINT | CORINFO_TYPE_LONG | CORINFO_TYPE_ULONG
  | CORINFO_TYPE_NATIVEINT | CORINFO_TYPE_NATIVEUINT | CORINFO_TYPE_FLOAT | CORINFO_TYPE_DOUBLE
  | CORINFO_TYPE_STRING | CORINFO_TYPE_PTR | CORINFO_TYPE_BYREF | CORINFO_TYPE_VALUECLASS
  | CORINFO_TYPE_CLASS | CORINFO_TYPE_REFANY | CORINFO_TYPE_VAR

datatype CorInfoCallConv =
    CORINFO_CALLCONV_DEFAULT | CORINFO_CALLCONV_C | CORINFO_CALLCONV_STDCALL
  | CORINFO_CALLCONV_THISCALL | CORINFO_CALLCONV_FASTCALL | CORINFO_CALLCONV_VARARG
  | CORINFO_CALLCONV_FIELD | CORINFO_CALLCONV_LOCAL_SIG | CORINFO_CALLCONV_PROPERTY
  | CORINFO_CALLCONV_NATIVEVARARG

type_synonym CORINFO_CLASS_HANDLE = "nat option"   \<comment> \<open>\<open>None\<close> is \<open>nullptr\<close>\<close>
type_synonym CORINFO_ARG_LIST_HANDLE = nat

record CallArgType =
  CorType :: CorInfoType
  Class :: CORINFO_CLASS_HANDLE

record ReaderCallSignature =
  HasThis :: bool
  CallingConvention :: CorInfoCallConv
  ResultType :: CallArgType
  ArgumentTypes :: "CallArgType list"

record ReaderMethodSignature = ReaderCallSignature +
  IsVarArg :: bool
  HasTypeArg :: bool
  HasSecretParameter :: bool

text \<open>The fields of \<open>CORINFO_SIG_INFO\<close> the reader uses, and the execution engine's queries.\<close>

record CORINFO_SIG_INFO =
  numArgs :: u32
  sig_hasThis :: bool
  sig_isVarArg :: bool
  sig_hasTypeArg :: bool
  sig_callConv :: CorInfoCallConv
  sig_retType :: CorInfoType
  sig_retTypeClass :: CORINFO_CLASS_HANDLE
  sig_args :: CORINFO_ARG_LIST_HANDLE

record arg_iterator =
  getArgNext :: "CORINFO_ARG_LIST_HANDLE \<Rightarrow> CORINFO_ARG_LIST_HANDLE"
  getArgType :: "CORINFO_ARG_LIST_HANDLE \<Rightarrow> CorInfoType \<times> bool"   \<comment> \<open>stripped type, pinned modifier\<close>
  getArgClass :: "CORINFO_ARG_LIST_HANDLE \<Rightarrow> CORINFO_CLASS_HANDLE"
  getBuiltinClass :: "string \<Rightarrow> CORINFO_CLASS_HANDLE"
  currentMethodClass :: CORINFO_CLASS_HANDLE
  isValueClass :: "CORINFO_CLASS_HANDLE \<Rightarrow> bool"   \<comment> \<open>\<open>CORINFO_FLG_VALUECLASS\<close> of \<open>getClassAttribs\<close>\<close>

definition undef_arg :: CallArgType where
  "undef_arg = \<lparr>CorType = CORINFO_TYPE_UNDEF, Class = None\<rparr>"

text \<open>How a type is extended when it is passed or pushed (\<open>GenIR\<close>).\<close>

definition isSigned :: "CorInfoType \<Rightarrow> bool result" where
  "isSigned ty =
     (if ty \<in> {CORINFO_TYPE_BOOL, CORINFO_TYPE_CHAR, CORINFO_TYPE_UBYTE, CORINFO_TYPE_USHORT, CORINFO_TYPE_UINT,
               CORINFO_TYPE_ULONG, CORINFO_TYPE_NATIVEUINT, CORINFO_TYPE_PTR, CORINFO_TYPE_BYREF, CORINFO_TYPE_CLASS}
      then Inr False
      else if ty \<in> {CORINFO_TYPE_BYTE, CORINFO_TYPE_SHORT, CORINFO_TYPE_INT, CORINFO_TYPE_LONG, CORINFO_TYPE_NATIVEINT}
      then Inr True
      else Inl (AssertFailed ''UNREACHED''))"

definition isSignedIntegralType :: "CorInfoType \<Rightarrow> bool result" where
  "isSignedIntegralType ty =
     (if ty \<in> {CORINFO_TYPE_UNDEF, CORINFO_TYPE_VOID, CORINFO_TYPE_FLOAT, CORINFO_TYPE_DOUBLE, CORINFO_TYPE_VALUECLASS,
               CORINFO_TYPE_REFANY}
      then Inr False else isSigned ty)"

subsection \<open>Indices into the argument list\<close>

definition flag :: "bool \<Rightarrow> u32" where
  "flag b = (if b then 1 else 0)"

definition getSecretParameterIndex :: "ReaderMethodSignature \<Rightarrow> u32 result" where
  "getSecretParameterIndex s = rbind (rassert ''HasSecretParameter'' (HasSecretParameter s)) (\<lambda>_. Inr 0)"

definition getThisIndex :: "ReaderMethodSignature \<Rightarrow> u32 result" where
  "getThisIndex s = rbind (rassert ''HasThis'' (HasThis s)) (\<lambda>_. Inr (flag (HasSecretParameter s)))"

definition getVarArgIndex :: "ReaderMethodSignature \<Rightarrow> u32 result" where
  "getVarArgIndex s =
     rbind (rassert ''IsVarArg'' (IsVarArg s)) (\<lambda>_. Inr (flag (HasSecretParameter s) + flag (HasThis s)))"

definition getTypeArgIndex :: "ReaderMethodSignature \<Rightarrow> u32 result" where
  "getTypeArgIndex s =
     rbind (rassert ''HasTypeArg'' (HasTypeArg s))
       (\<lambda>_. Inr (flag (HasSecretParameter s) + flag (HasThis s) + flag (IsVarArg s)))"

definition getNormalParamStart :: "ReaderMethodSignature \<Rightarrow> u32" where
  "getNormalParamStart s =
     flag (HasSecretParameter s) + flag (HasThis s) + flag (IsVarArg s) + flag (HasTypeArg s)"

definition getNormalParamEnd :: "ReaderMethodSignature \<Rightarrow> u32" where
  "getNormalParamEnd s = of_nat (length (ArgumentTypes s))"

definition getArgIndexForILArg :: "ReaderMethodSignature \<Rightarrow> u32 \<Rightarrow> u32 result" where
  "getArgIndexForILArg s Ordinal =
     (if HasThis s \<and> Ordinal = 0 then getThisIndex s
      else let Index = Ordinal + flag (HasSecretParameter s) + flag (IsVarArg s) + flag (HasTypeArg s) in
        rbind (rassert ''Index >= getNormalParamStart()'' (getNormalParamStart s \<le> Index)) (\<lambda>_.
        rbind (rassert ''Index < getNormalParamEnd()'' (Index < getNormalParamEnd s)) (\<lambda>_. Inr Index)))"

definition getILArgForArgIndex :: "ReaderMethodSignature \<Rightarrow> u32 \<Rightarrow> u32 result" where
  "getILArgForArgIndex s Index =
     (if HasThis s \<and> getThisIndex s = Inr Index then Inr 0
      else
        rbind (rassert ''Index >= getNormalParamStart()'' (getNormalParamStart s \<le> Index)) (\<lambda>_.
        rbind (rassert ''Index < getNormalParamEnd()'' (Index < getNormalParamEnd s)) (\<lambda>_.
        Inr (Index - flag (HasSecretParameter s) - flag (IsVarArg s) - flag (HasTypeArg s)))))"

subsection \<open>Computing the argument list\<close>

definition argListNext ::
    "arg_iterator \<Rightarrow> CORINFO_ARG_LIST_HANDLE \<Rightarrow> CORINFO_ARG_LIST_HANDLE \<times> CallArgType \<times> bool" where
  "argListNext EE h =
     (let (ty, pinned) = getArgType EE h;
          cls = (if ty \<in> {CORINFO_TYPE_CLASS, CORINFO_TYPE_VALUECLASS, CORINFO_TYPE_BYREF, CORINFO_TYPE_PTR}
                 then getArgClass EE h
                 else if ty = CORINFO_TYPE_REFANY then getBuiltinClass EE ''CLASSID_TYPED_BYREF''
                 else None)
      in (getArgNext EE h, \<lparr>CorType = ty, Class = cls\<rparr>, pinned))"

text \<open>
  One special parameter: when the signature has it, its index must be the current \<open>ParamIndex\<close>
  (the assertion in front of each), and its type is stored there.
\<close>

definition special_param ::
    "bool \<Rightarrow> u32 result \<Rightarrow> CallArgType \<Rightarrow> u32 \<times> CallArgType list \<Rightarrow> (u32 \<times> CallArgType list) result" where
  "special_param present expected ty st =
     (if \<not> present then Inr st
      else rbind expected (\<lambda>i.
           rbind (rassert ''ParamIndex'' (fst st = i)) (\<lambda>_.
           rbind (array_put ''ArgumentTypes'' (snd st) (unat (fst st)) ty) (\<lambda>tys.
           Inr (fst st + 1, tys)))))"

text \<open>The loop over the parameters of the metadata.\<close>

function normal_params ::
    "arg_iterator \<Rightarrow> u32 \<Rightarrow> u32 \<Rightarrow> CORINFO_ARG_LIST_HANDLE \<Rightarrow> CallArgType list \<Rightarrow> CallArgType list result" where
  "normal_params EE End ParamIndex Args tys =
     (if ParamIndex < End
      then case argListNext EE Args of (next, ty, _) \<Rightarrow>
        rbind (array_put ''ArgumentTypes'' tys (unat ParamIndex) ty) (\<lambda>tys'.
        normal_params EE End (ParamIndex + 1) next tys')
      else Inr tys)"
  by pat_completeness auto
termination
  by (relation "measure (\<lambda>(_, End, ParamIndex, _, _). unat (End - ParamIndex))")
    (simp_all add: unat_loop_measure)

declare normal_params.simps [simp del]

definition initMethodInfo ::
    "arg_iterator \<Rightarrow> CORINFO_SIG_INFO \<Rightarrow> bool \<Rightarrow> ReaderMethodSignature result" where
  "initMethodInfo EE SigInfo hasSecret =
     (let NumArgs = flag hasSecret + flag (sig_hasThis SigInfo) + flag (sig_isVarArg SigInfo)
                    + flag (sig_hasTypeArg SigInfo) + numArgs SigInfo;
          Signature =
            \<lparr>HasThis = sig_hasThis SigInfo, CallingConvention = sig_callConv SigInfo,
             ResultType = \<lparr>CorType = sig_retType SigInfo, Class = sig_retTypeClass SigInfo\<rparr>,
             ArgumentTypes = replicate (unat NumArgs) undef_arg,
             IsVarArg = sig_isVarArg SigInfo, HasTypeArg = sig_hasTypeArg SigInfo,
             HasSecretParameter = hasSecret\<rparr>;
          thisClass = currentMethodClass EE;
          thisType = (if isValueClass EE thisClass then CORINFO_TYPE_BYREF else CORINFO_TYPE_CLASS)
      in
        rbind (special_param hasSecret (getSecretParameterIndex Signature)
                 \<lparr>CorType = CORINFO_TYPE_NATIVEINT, Class = None\<rparr> (0, ArgumentTypes Signature)) (\<lambda>st1.
        rbind (special_param (HasThis Signature) (getThisIndex Signature)
                 \<lparr>CorType = thisType, Class = thisClass\<rparr> st1) (\<lambda>st2.
        rbind (special_param (IsVarArg Signature) (getVarArgIndex Signature)
                 \<lparr>CorType = CORINFO_TYPE_PTR, Class = getBuiltinClass EE ''CLASSID_ARGUMENT_HANDLE''\<rparr> st2) (\<lambda>st3.
        rbind (special_param (HasTypeArg Signature) (getTypeArgIndex Signature)
                 \<lparr>CorType = CORINFO_TYPE_NATIVEINT, Class = None\<rparr> st3) (\<lambda>st4.
        rbind (rassert ''ParamIndex == Signature.getNormalParamStart()'' (fst st4 = getNormalParamStart Signature)) (\<lambda>_.
        rbind (normal_params EE (getNormalParamEnd Signature) (fst st4) (sig_args SigInfo) (snd st4)) (\<lambda>tys.
        Inr (Signature\<lparr>ArgumentTypes := tys\<rparr>))))))))"

subsection \<open>Visiting the parameters\<close>

datatype ReaderSpecialSymbolType =
    Reader_NotSpecialSymbol | Reader_ThisPtr | Reader_UnmodifiedThisPtr | Reader_IndirectResult
  | Reader_VarArgsToken | Reader_InstParam | Reader_SecretParam | Reader_SecurityObject
  | Reader_GenericsContext

text \<open>
  \<open>buildUpParams\<close> calls \<open>createSym\<close> once per parameter: the calls are the list of the argument
  indices, their types and the kind of symbol.
\<close>

type_synonym createSym_call = "u32 \<times> CallArgType \<times> ReaderSpecialSymbolType"

definition visit_special ::
    "bool \<Rightarrow> u32 result \<Rightarrow> CallArgType list \<Rightarrow> ReaderSpecialSymbolType \<Rightarrow> createSym_call list result" where
  "visit_special present idx Args k =
     (if present
      then rbind idx (\<lambda>I. rbind (array_get ''Args'' Args (unat I)) (\<lambda>Arg. Inr [(I, Arg, k)]))
      else Inr [])"

fun visit_normal :: "CallArgType list \<Rightarrow> nat \<Rightarrow> nat \<Rightarrow> createSym_call list result" where
  "visit_normal Args I 0 = Inr []"
| "visit_normal Args I (Suc n) =
     rbind (array_get ''Args'' Args I) (\<lambda>Arg.
     rbind (visit_normal Args (Suc I) n) (\<lambda>rest.
     Inr ((of_nat I, Arg, Reader_NotSpecialSymbol) # rest)))"

definition buildUpParams :: "ReaderMethodSignature \<Rightarrow> createSym_call list result" where
  "buildUpParams s =
     (let Args = ArgumentTypes s;
          I = getNormalParamStart s; E = getNormalParamEnd s in
      rbind (visit_special (HasSecretParameter s) (getSecretParameterIndex s) Args Reader_SecretParam) (\<lambda>c1.
      rbind (visit_special (HasThis s) (getThisIndex s) Args Reader_ThisPtr) (\<lambda>c2.
      rbind (visit_special (IsVarArg s) (getVarArgIndex s) Args Reader_VarArgsToken) (\<lambda>c3.
      rbind (visit_special (HasTypeArg s) (getTypeArgIndex s) Args Reader_InstParam) (\<lambda>c4.
      rbind (visit_normal Args (unat I) (unat (E - I))) (\<lambda>c5.
      Inr (c1 @ c2 @ c3 @ c4 @ c5)))))))"

subsection \<open>Specification\<close>

text \<open>The types the argument handles of the metadata enumerate, and those of the special parameters.\<close>

fun metadata_types :: "arg_iterator \<Rightarrow> CORINFO_ARG_LIST_HANDLE \<Rightarrow> nat \<Rightarrow> CallArgType list" where
  "metadata_types EE h 0 = []"
| "metadata_types EE h (Suc n) = fst (snd (argListNext EE h)) # metadata_types EE (getArgNext EE h) n"

definition special_types :: "arg_iterator \<Rightarrow> CORINFO_SIG_INFO \<Rightarrow> bool \<Rightarrow> CallArgType list" where
  "special_types EE si secret =
     (if secret then [\<lparr>CorType = CORINFO_TYPE_NATIVEINT, Class = None\<rparr>] else [])
     @ (if sig_hasThis si
        then [\<lparr>CorType = if isValueClass EE (currentMethodClass EE) then CORINFO_TYPE_BYREF else CORINFO_TYPE_CLASS,
               Class = currentMethodClass EE\<rparr>] else [])
     @ (if sig_isVarArg si
        then [\<lparr>CorType = CORINFO_TYPE_PTR, Class = getBuiltinClass EE ''CLASSID_ARGUMENT_HANDLE''\<rparr>] else [])
     @ (if sig_hasTypeArg si then [\<lparr>CorType = CORINFO_TYPE_NATIVEINT, Class = None\<rparr>] else [])"

text \<open>The argument list holds at least the special parameters and has a 32-bit length.\<close>

definition signature_wf :: "ReaderMethodSignature \<Rightarrow> bool" where
  "signature_wf s \<longleftrightarrow>
     unat (getNormalParamStart s) \<le> length (ArgumentTypes s) \<and> length (ArgumentTypes s) < 2 ^ 32"

text \<open>The kind of symbol that belongs to each position of the argument list.\<close>

definition symbol_kind :: "ReaderMethodSignature \<Rightarrow> nat \<Rightarrow> ReaderSpecialSymbolType" where
  "symbol_kind s i =
    (let ks = (if HasSecretParameter s then [Reader_SecretParam] else []) @ (if HasThis s then [Reader_ThisPtr] else [])
              @ (if IsVarArg s then [Reader_VarArgsToken] else []) @ (if HasTypeArg s then [Reader_InstParam] else [])
     in if i < length ks then ks ! i else Reader_NotSpecialSymbol)"

text \<open>A method of a value class with two parameters, and its argument handles.\<close>

definition sample_EE :: arg_iterator where
  "sample_EE = \<lparr>getArgNext = Suc,
     getArgType = (\<lambda>h. if h = 0 then (CORINFO_TYPE_INT, False) else (CORINFO_TYPE_VALUECLASS, False)),
     getArgClass = (\<lambda>h. Some h), getBuiltinClass = (\<lambda>_. None), currentMethodClass = Some 7,
     isValueClass = (\<lambda>c. c = Some 7)\<rparr>"

definition sample_sig :: CORINFO_SIG_INFO where
  "sample_sig = \<lparr>numArgs = 2, sig_hasThis = True, sig_isVarArg = False, sig_hasTypeArg = False,
     sig_callConv = CORINFO_CALLCONV_DEFAULT, sig_retType = CORINFO_TYPE_VOID, sig_retTypeClass = None, sig_args = 0\<rparr>"

subsection \<open>Lemmas\<close>

lemma unat_flag [simp]: "unat (flag b) = of_bool b"
  by (simp add: flag_def)

lemma unat_flags:
  "unat (flag a + flag b) = of_bool a + of_bool b"
  "unat (flag a + flag b + flag c) = of_bool a + of_bool b + of_bool c"
  "unat (flag a + flag b + flag c + flag d) = of_bool a + of_bool b + of_bool c + of_bool d"
  by (simp_all add: flag_def)

lemma argListNext_parts: "argListNext EE h = (getArgNext EE h, fst (snd (argListNext EE h)), snd (snd (argListNext EE h)))"
  by (simp add: argListNext_def Let_def split: prod.split)

lemma normal_params_fill:
  assumes "unat P = length pre" "unat End = length pre + length rest"
  shows "normal_params EE End P h (pre @ rest) = Inr (pre @ metadata_types EE h (length rest))"
  using assms
proof (induction rest arbitrary: P h pre)
  case Nil
  then show ?case by (subst normal_params.simps) (simp add: unat_simps)
next
  case (Cons r rest)
  have lt: "P < End" using Cons.prems by (simp add: unat_simps)
  have "unat (P + 1) = length (pre @ [fst (snd (argListNext EE h))])"
    using lt Cons.prems unat_bound_u32[of End] by (subst unat_add_no_wrap) auto
  from Cons.IH[OF this, of "getArgNext EE h"] Cons.prems lt show ?case
    by (subst normal_params.simps, subst argListNext_parts) (simp add: list_update_append_mid case_prod_beta)
qed

lemma special_param_step:
  assumes "present \<Longrightarrow> expected = Inr P" "unat P = length pre" "length pre + of_bool present < 2 ^ 32"
  shows "special_param present expected ty (P, pre @ replicate (of_bool present) x @ rest) =
         Inr (P + of_bool present, (pre @ (if present then [ty] else [])) @ rest)"
  using assms by (cases present) (auto simp: special_param_def list_update_append_mid)

lemma normal_params_append:
  assumes "unat P = length pre" "unat End = length pre + n"
  shows "normal_params EE End P h (pre @ replicate n x) = Inr (pre @ metadata_types EE h n)"
  using normal_params_fill[of P pre End "replicate n x"] assms by simp

lemma flag_of_bool: "flag b = of_bool b"
  by (simp add: flag_def)

lemma initMethodInfo_eq:
  assumes "unat (numArgs si) < 2 ^ 16"
  shows "initMethodInfo EE si secret =
    Inr \<lparr>HasThis = sig_hasThis si, CallingConvention = sig_callConv si,
         ResultType = \<lparr>CorType = sig_retType si, Class = sig_retTypeClass si\<rparr>,
         ArgumentTypes = special_types EE si secret @ metadata_types EE (sig_args si) (unat (numArgs si)),
         IsVarArg = sig_isVarArg si, HasTypeArg = sig_hasTypeArg si, HasSecretParameter = secret\<rparr>"
proof -
  have N: "unat (k + numArgs si) = unat k + unat (numArgs si)" if "unat k \<le> 4" for k
    using assms that by (subst unat_add_no_wrap) auto
  note N [of 1, simplified, simp] N [of 2, simplified, simp] N [of 3, simplified, simp] N [of 4, simplified, simp]
  have rep: "replicate (2 + m) x = x # x # replicate m x" "replicate (3 + m) x = x # x # x # replicate m x"
    "replicate (4 + m) x = x # x # x # x # replicate m x" for m and x :: CallArgType
    by (simp_all add: eval_nat_numeral)
  have upd: "(a # b # c # xs)[2 := y] = a # b # y # xs" "(a # b # c # d # xs)[3 := y] = a # b # c # y # xs"
    for a b c d y :: CallArgType and xs
    by (simp_all add: eval_nat_numeral)
  have fill: "normal_params EE (numArgs si) 0 h (replicate (unat (numArgs si)) x)
      = Inr (metadata_types EE h (unat (numArgs si)))"
    "normal_params EE (1 + numArgs si) 1 h (a # replicate (unat (numArgs si)) x)
      = Inr (a # metadata_types EE h (unat (numArgs si)))"
    "normal_params EE (2 + numArgs si) 2 h (a # b # replicate (unat (numArgs si)) x)
      = Inr (a # b # metadata_types EE h (unat (numArgs si)))"
    "normal_params EE (3 + numArgs si) 3 h (a # b # c # replicate (unat (numArgs si)) x)
      = Inr (a # b # c # metadata_types EE h (unat (numArgs si)))"
    "normal_params EE (4 + numArgs si) 4 h (a # b # c # d # replicate (unat (numArgs si)) x)
      = Inr (a # b # c # d # metadata_types EE h (unat (numArgs si)))" for h a b c d x
    using normal_params_append[of _ "[]" _ "unat (numArgs si)"] normal_params_append[of _ "[a]" _ "unat (numArgs si)"]
      normal_params_append[of _ "[a, b]" _ "unat (numArgs si)"] normal_params_append[of _ "[a, b, c]" _ "unat (numArgs si)"]
      normal_params_append[of _ "[a, b, c, d]" _ "unat (numArgs si)"] by simp_all
  show ?thesis
    by (cases secret; cases "sig_hasThis si"; cases "sig_isVarArg si"; cases "sig_hasTypeArg si")
      (simp_all add: initMethodInfo_def Let_def flag_def special_param_def special_types_def fill
        getSecretParameterIndex_def getThisIndex_def getVarArgIndex_def getTypeArgIndex_def
        getNormalParamStart_def getNormalParamEnd_def rep upd)
qed

lemma metadata_types_length [simp]: "length (metadata_types EE h n) = n"
  by (induction n arbitrary: h) auto

lemma signature_wf_bounds:
  assumes "signature_wf s"
  shows "unat (getNormalParamEnd s) = length (ArgumentTypes s)"
    "of_bool (HasSecretParameter s) + of_bool (HasThis s) + of_bool (IsVarArg s) + of_bool (HasTypeArg s)
       \<le> length (ArgumentTypes s)"
  using assms by (auto simp: signature_wf_def getNormalParamEnd_def getNormalParamStart_def unat_flags unat_of_nat)

lemma il_arg_roundtrip_wf:
  assumes "signature_wf s"
    and "unat Ordinal + unat (getNormalParamStart s) < length (ArgumentTypes s) + of_bool (HasThis s)"
  shows "\<exists>i. getArgIndexForILArg s Ordinal = Inr i \<and> unat i < length (ArgumentTypes s)
           \<and> getILArgForArgIndex s i = Inr Ordinal"
proof -
  let ?k = "flag (HasSecretParameter s) + flag (IsVarArg s) + flag (HasTypeArg s)"
  note b = signature_wf_bounds[OF assms(1)]
  have e: "length (ArgumentTypes s) < 2 ^ 32" using assms(1) by (simp add: signature_wf_def)
  have S: "unat (getNormalParamStart s) = unat ?k + of_bool (HasThis s)"
    by (simp add: getNormalParamStart_def unat_flags)
  show ?thesis
  proof (cases "HasThis s \<and> Ordinal = 0")
    case True
    then show ?thesis using b by (auto simp: getArgIndexForILArg_def getILArgForArgIndex_def getThisIndex_def)
  next
    case False
    have idx: "unat (Ordinal + ?k) = unat Ordinal + unat ?k"
      using assms(2) S e by (intro unat_add_no_wrap) simp
    have pos: "HasThis s \<Longrightarrow> 0 < unat Ordinal" using False by (auto simp: unat_gt_0)
    have lo: "getNormalParamStart s \<le> Ordinal + ?k" using idx S pos by (auto simp: unat_simps)
    have hi: "Ordinal + ?k < getNormalParamEnd s" using idx S assms(2) b(1) by (auto simp: unat_simps)
    have ne: "getThisIndex s \<noteq> Inr (Ordinal + ?k)" if "HasThis s"
    proof -
      have "unat (flag (HasSecretParameter s)) < unat (Ordinal + ?k)"
        using idx pos[OF that] by (simp add: unat_flags)
      then have "flag (HasSecretParameter s) \<noteq> Ordinal + ?k" by (metis nat_neq_iff)
      then show ?thesis using that by (simp add: getThisIndex_def)
    qed
    have "getArgIndexForILArg s Ordinal = Inr (Ordinal + ?k)"
      using False lo hi by (auto simp: getArgIndexForILArg_def add.assoc)
    moreover have "getILArgForArgIndex s (Ordinal + ?k) = Inr Ordinal"
      using lo hi ne by (auto simp: getILArgForArgIndex_def)
    ultimately show ?thesis using hi b(1) by (auto simp: unat_simps)
  qed
qed

lemma visit_normal_eq:
  "I + n \<le> length Args \<Longrightarrow>
   visit_normal Args I n = Inr (map (\<lambda>i. (of_nat i, Args ! i, Reader_NotSpecialSymbol)) [I..<I + n])"
proof (induction n arbitrary: I)
  case (Suc n)
  have "[I..<I + Suc n] = I # [Suc I..<Suc I + n]" by (simp add: upt_rec)
  then show ?case using Suc by simp
qed simp

lemma buildUpParams_wf:
  assumes "signature_wf s"
  shows "buildUpParams s =
     Inr (map (\<lambda>i. (of_nat i, ArgumentTypes s ! i, symbol_kind s i)) [0..<length (ArgumentTypes s)])"
proof -
  let ?A = "ArgumentTypes s"
  let ?k = "of_bool (HasSecretParameter s) + of_bool (HasThis s) + of_bool (IsVarArg s) + of_bool (HasTypeArg s) :: nat"
  note b = signature_wf_bounds[OF assms]
  have k: "unat (getNormalParamStart s) = ?k" by (simp add: getNormalParamStart_def unat_flags)
  have "unat (getNormalParamEnd s - getNormalParamStart s) = length ?A - ?k"
    using b k by (subst unat_sub) (auto simp: unat_simps)
  then have normal: "visit_normal ?A (unat (getNormalParamStart s)) (unat (getNormalParamEnd s - getNormalParamStart s)) =
      Inr (map (\<lambda>i. (of_nat i, ?A ! i, Reader_NotSpecialSymbol)) [?k..<length ?A])"
    using b k by (simp add: visit_normal_eq)
  have tail: "map (\<lambda>i. (of_nat i, ?A ! i, symbol_kind s i)) [?k..<length ?A] =
      map (\<lambda>i. (of_nat i :: u32, ?A ! i, Reader_NotSpecialSymbol)) [?k..<length ?A]"
    by (rule map_cong) (auto simp: symbol_kind_def)
  have "[0..<length ?A] = [0..<?k] @ [?k..<length ?A]" using b(2) by (metis upt_add_eq_append le0 le_add_diff_inverse)
  then have split: "map (\<lambda>i. (of_nat i, ?A ! i, symbol_kind s i)) [0..<length ?A] =
     map (\<lambda>i. (of_nat i, ?A ! i, symbol_kind s i)) [0..<?k] @ map (\<lambda>i. (of_nat i :: u32, ?A ! i, Reader_NotSpecialSymbol)) [?k..<length ?A]"
    by (simp add: tail)
  have u: "unat (2 :: u32) = Suc (Suc 0)" "unat (3 :: u32) = Suc (Suc (Suc 0))" by simp_all
  have upts: "[0..<2] = [0, 1 :: nat]" "[0..<3] = [0, 1, Suc (Suc 0)]" "[0..<4] = [0, 1, Suc (Suc 0), Suc (Suc (Suc 0))]"
    by (simp_all add: eval_nat_numeral)
  show ?thesis
    unfolding split buildUpParams_def Let_def normal using b(2)
    by (cases "HasSecretParameter s"; cases "HasThis s"; cases "IsVarArg s"; cases "HasTypeArg s")
      (auto simp: visit_special_def array_get_def getSecretParameterIndex_def getThisIndex_def getVarArgIndex_def getTypeArgIndex_def
         flag_def symbol_kind_def upts u;
        simp add: eval_nat_numeral)+
qed

lemma initMethodInfo_wf:
  assumes "initMethodInfo EE si secret = Inr s" "unat (numArgs si) < 2 ^ 16"
  shows "signature_wf s"
    and "length (ArgumentTypes s) + of_bool (HasThis s) =
         unat (getNormalParamStart s) + unat (numArgs si) + of_bool (sig_hasThis si)"
  using assms(1) assms(2)
  by (auto simp: initMethodInfo_eq[OF assms(2)] signature_wf_def getNormalParamStart_def unat_flags special_types_def)

subsection \<open>Properties\<close>

text \<open>C35: \<open>initMethodInfo\<close> never fails one of its assertions nor writes outside the vector, and the
  argument list it computes is the secret parameter, \<open>this\<close> (a byref for the methods of a value
  class), the vararg cookie and the instantiation parameter, each when present, followed by the
  parameters of the metadata in order.\<close>

theorem initMethodInfo_layout:
  assumes "unat (numArgs si) < 2 ^ 16"
  shows "initMethodInfo EE si secret =
    Inr \<lparr>HasThis = sig_hasThis si, CallingConvention = sig_callConv si,
         ResultType = \<lparr>CorType = sig_retType si, Class = sig_retTypeClass si\<rparr>,
         ArgumentTypes = special_types EE si secret @ metadata_types EE (sig_args si) (unat (numArgs si)),
         IsVarArg = sig_isVarArg si, HasTypeArg = sig_hasTypeArg si, HasSecretParameter = secret\<rparr>"
  by (rule initMethodInfo_eq[OF assms])

theorem initMethodInfo_layout_witness:
  "map CorType (ArgumentTypes (projr (initMethodInfo sample_EE sample_sig True))) =
     [CORINFO_TYPE_NATIVEINT, CORINFO_TYPE_BYREF, CORINFO_TYPE_INT, CORINFO_TYPE_VALUECLASS]"
proof -
  have n: "unat (numArgs sample_sig) = Suc (Suc 0)" by (simp add: sample_sig_def)
  show ?thesis
    by (subst initMethodInfo_layout)
      (simp_all add: n, simp add: sample_EE_def sample_sig_def special_types_def argListNext_def)
qed

text \<open>For a signature computed by \<open>initMethodInfo\<close> every IL argument ordinal (the parameters of
  the metadata, \<open>this\<close> first when there is one) has an argument index inside the argument list,
  and \<open>getILArgForArgIndex\<close> maps that index back to the ordinal.\<close>

theorem il_arg_roundtrip:
  assumes "initMethodInfo EE si secret = Inr s" "unat (numArgs si) < 2 ^ 16"
    and "unat Ordinal < unat (numArgs si) + of_bool (sig_hasThis si)"
  shows "\<exists>i. getArgIndexForILArg s Ordinal = Inr i \<and> unat i < length (ArgumentTypes s)
           \<and> getILArgForArgIndex s i = Inr Ordinal"
  using il_arg_roundtrip_wf initMethodInfo_wf[OF assms(1,2)] assms(3) by simp

theorem il_arg_roundtrip_witness:
  "\<exists>i. getArgIndexForILArg (projr (initMethodInfo sample_EE sample_sig True)) 2 = Inr i
     \<and> unat i < length (ArgumentTypes (projr (initMethodInfo sample_EE sample_sig True)))
     \<and> getILArgForArgIndex (projr (initMethodInfo sample_EE sample_sig True)) i = Inr 2"
proof -
  have n: "unat (numArgs sample_sig) < 2 ^ 16" by (simp add: sample_sig_def)
  show ?thesis
    by (rule il_arg_roundtrip[of sample_EE sample_sig True])
      (simp_all add: initMethodInfo_eq[OF n], simp_all add: sample_sig_def)
qed

text \<open>For a signature computed by \<open>initMethodInfo\<close> the method \<open>buildUpParams\<close> creates one symbol
  for every entry of the argument list, in order, with the entry's type and, for the special
  parameters, the symbol kind of the parameter at that position.\<close>

theorem buildUpParams_visits:
  assumes "initMethodInfo EE si secret = Inr s" "unat (numArgs si) < 2 ^ 16"
  shows "buildUpParams s =
     Inr (map (\<lambda>i. (of_nat i, ArgumentTypes s ! i, symbol_kind s i)) [0..<length (ArgumentTypes s)])"
  using buildUpParams_wf initMethodInfo_wf(1)[OF assms] by simp

theorem buildUpParams_visits_witness:
  "map (snd \<circ> snd) (projr (buildUpParams (projr (initMethodInfo sample_EE sample_sig True)))) =
     [Reader_SecretParam, Reader_ThisPtr, Reader_NotSpecialSymbol, Reader_NotSpecialSymbol]"
proof -
  have n: "unat (numArgs sample_sig) < 2 ^ 16" by (simp add: sample_sig_def)
  show ?thesis
    by (subst buildUpParams_visits[of sample_EE sample_sig True])
      (simp_all add: initMethodInfo_eq[OF n], simp_all add: sample_sig_def special_types_def symbol_kind_def upt_rec)
qed

end
