(* ===== verification/ABI.thy ===== *)
theory ABI
  imports MethodSignature
begin

section \<open>Argument classification for the x86-64 ABIs\<close>

text \<open>
  lib/Reader/abi.cpp and include/Reader/abi.h: how each argument and the result of a function are
  passed. \<open>Win64\<close> classifies every argument on its own; \<open>SysV\<close> assigns the eightbytes of a
  struct to registers and keeps count of the free ones. The size of a type under the data layout,
  \<open>isPowerOf2_64\<close> and the execution engine's struct descriptors are parameters. The LLVM types the
  code inspects or builds are a datatype. An \<open>assert\<close> that does not hold is a fault.
\<close>

subsection \<open>Data\<close>

datatype llvm_type =
    VoidTy
  | IntegerTy nat
  | FloatTy
  | DoubleTy
  | OtherFPTy string                       \<comment> \<open>half, x86_fp80, fp128, ppc_fp128\<close>
  | PointerTy llvm_type nat                \<comment> \<open>element type and address space\<close>
  | StructTy string "llvm_type list"       \<comment> \<open>the name of a named struct, or \<open>''''\<close>\<close>
  | ArrayTy nat llvm_type
  | VectorTy nat llvm_type
  | OtherTy string                         \<comment> \<open>function, label, metadata, token\<close>

fun isAggregateType :: "llvm_type \<Rightarrow> bool" where
  "isAggregateType (StructTy _ _) = True"
| "isAggregateType (ArrayTy _ _) = True"
| "isAggregateType _ = False"

fun isVectorTy :: "llvm_type \<Rightarrow> bool" where
  "isVectorTy (VectorTy _ _) = True"
| "isVectorTy _ = False"

fun isStructTy :: "llvm_type \<Rightarrow> bool" where
  "isStructTy (StructTy _ _) = True"
| "isStructTy _ = False"

text \<open>Code outside the repository: LLVM's data layout and arithmetic, and \<open>JitInfo\<close>.\<close>

datatype SystemVClassificationType =
    SystemVClassificationTypeInteger
  | SystemVClassificationTypeSSE
  | SystemVClassificationTypeIntegerReference
  | SystemVClassificationTypeOther nat

record struct_descriptor =
  passedInRegisters :: bool
  eightByteCount :: u8
  eightByteClassifications :: "SystemVClassificationType list"
  eightByteSizes :: "u32 list"
  eightByteOffsets :: "u32 list"

record abi_env =
  getTypeSizeInBits :: "llvm_type \<Rightarrow> u64"
  isPowerOf2_64 :: "u64 \<Rightarrow> bool"
  getStructDescriptor :: "CORINFO_CLASS_HANDLE \<Rightarrow> struct_descriptor option"
    \<comment> \<open>\<open>getSystemVAmd64PassStructInRegisterDescriptor\<close>; \<open>None\<close> when it answers false\<close>

record Expansion =
  exp_type :: llvm_type
  exp_offset :: u32

text \<open>The tagged union of \<open>ABIArgInfo\<close>: its \<open>Kind\<close> with the member the kind selects.\<close>

datatype Passing =
    Direct llvm_type
  | Expand "Expansion list"
  | ZeroExtend llvm_type
  | SignExtend llvm_type
  | Indirect llvm_type

record ABIArgInfo =
  Passed :: Passing
  Index :: "u32 option"   \<comment> \<open>\<open>None\<close> until \<open>setIndex\<close>\<close>

record ABIType =
  TheType :: llvm_type
  TheClass :: CORINFO_CLASS_HANDLE
  IsSigned :: bool

definition getDirect :: "llvm_type \<Rightarrow> ABIArgInfo" where
  "getDirect ty = \<lparr>Passed = Direct ty, Index = None\<rparr>"

definition getExpand :: "Expansion list \<Rightarrow> ABIArgInfo" where
  "getExpand es = \<lparr>Passed = Expand es, Index = None\<rparr>"

definition getZeroExtend :: "llvm_type \<Rightarrow> ABIArgInfo" where
  "getZeroExtend ty = \<lparr>Passed = ZeroExtend ty, Index = None\<rparr>"

definition getSignExtend :: "llvm_type \<Rightarrow> ABIArgInfo" where
  "getSignExtend ty = \<lparr>Passed = SignExtend ty, Index = None\<rparr>"

definition getIndirect :: "llvm_type \<Rightarrow> ABIArgInfo" where
  "getIndirect ty = \<lparr>Passed = Indirect ty, Index = None\<rparr>"

text \<open>\<open>operator=(ABIArgInfo &&)\<close> moves the kind and its union member and keeps the target's index.\<close>

definition move_assign :: "ABIArgInfo \<Rightarrow> ABIArgInfo \<Rightarrow> ABIArgInfo" where
  "move_assign target other = target\<lparr>Passed := Passed other\<rparr>"

definition setIndex :: "u32 \<Rightarrow> ABIArgInfo \<Rightarrow> ABIArgInfo" where
  "setIndex i info = info\<lparr>Index := Some i\<rparr>"

definition isIndirect :: "ABIArgInfo \<Rightarrow> bool" where
  "isIndirect info = (case Passed info of Indirect _ \<Rightarrow> True | _ \<Rightarrow> False)"

definition isExpand :: "ABIArgInfo \<Rightarrow> bool" where
  "isExpand info = (case Passed info of Expand _ \<Rightarrow> True | _ \<Rightarrow> False)"

subsection \<open>Microsoft x64\<close>

definition extend_small :: "bool \<Rightarrow> ABIType \<Rightarrow> nat \<Rightarrow> ABIArgInfo" where
  "extend_small managed aty w =
     (if managed \<and> w < 32
      then (if IsSigned aty then getSignExtend (TheType aty) else getZeroExtend (TheType aty))
      else getDirect (TheType aty))"

definition Win64_classify :: "abi_env \<Rightarrow> bool \<Rightarrow> ABIType \<Rightarrow> ABIArgInfo result" where
  "Win64_classify env managed aty =
     (let Ty = TheType aty in
      rbind (rassert ''!Ty->isVoidTy()'' (Ty \<noteq> VoidTy)) (\<lambda>_.
      if isAggregateType Ty \<or> isVectorTy Ty then
        let SizeInBits = getTypeSizeInBits env Ty; SizeInBytes = SizeInBits div 8 in
        if SizeInBytes \<le> 8 \<and> isPowerOf2_64 env SizeInBytes
        then Inr (getDirect (IntegerTy (unat SizeInBits)))
        else Inr (getIndirect Ty)
      else case Ty of
        IntegerTy w \<Rightarrow> rbind (rassert ''getIntegerBitWidth() <= 64'' (w \<le> 64)) (\<lambda>_. Inr (extend_small managed aty w))
      | FloatTy \<Rightarrow> Inr (getDirect Ty)
      | DoubleTy \<Rightarrow> Inr (getDirect Ty)
      | OtherFPTy _ \<Rightarrow> Inl (AssertFailed ''Ty->isFloatTy() || Ty->isDoubleTy()'')
      | PointerTy _ _ \<Rightarrow> Inr (getDirect Ty)
      | _ \<Rightarrow> Inl (AssertFailed ''Ty->isPointerTy()'')))"

definition Win64_classifyResult :: "abi_env \<Rightarrow> bool \<Rightarrow> ABIType \<Rightarrow> ABIArgInfo result" where
  "Win64_classifyResult env managed aty =
     (if TheType aty = VoidTy then Inr (getDirect (TheType aty)) else Win64_classify env managed aty)"

fun Win64_arguments :: "abi_env \<Rightarrow> bool \<Rightarrow> ABIType list \<Rightarrow> ABIArgInfo list result" where
  "Win64_arguments env managed [] = Inr []"
| "Win64_arguments env managed (Arg # Args) =
     rbind (Win64_classify env managed Arg) (\<lambda>info.
     rbind (Win64_arguments env managed Args) (\<lambda>infos. Inr (info # infos)))"

definition Win64_computeSignatureInfo ::
    "abi_env \<Rightarrow> bool \<Rightarrow> ABIType \<Rightarrow> ABIType list \<Rightarrow> (ABIArgInfo \<times> ABIArgInfo list) result" where
  "Win64_computeSignatureInfo env managed resultType argTypes =
     rbind (Win64_classifyResult env managed resultType) (\<lambda>r.
     rbind (Win64_arguments env managed argTypes) (\<lambda>infos. Inr (r, infos)))"

subsection \<open>System V\<close>

text \<open>
  The \<open>switch\<close> on the class of one eightbyte: its type and the integer and SSE registers it needs.
\<close>

definition eightbyte :: "SystemVClassificationType \<Rightarrow> u32 \<Rightarrow> (llvm_type \<times> u32 \<times> u32) result" where
  "eightbyte cls Size =
     (case cls of
        SystemVClassificationTypeInteger \<Rightarrow> Inr (IntegerTy (unat (Size * 8)), 1, 0)
      | SystemVClassificationTypeSSE \<Rightarrow> Inr (if Size \<le> 4 then FloatTy else DoubleTy, 0, 1)
      | SystemVClassificationTypeIntegerReference \<Rightarrow>
          rbind (rassert ''Size == 8'' (Size = 8)) (\<lambda>_. Inr (PointerTy (IntegerTy 8) 1, 1, 0))
      | SystemVClassificationTypeOther _ \<Rightarrow> Inl (Unreachable ''unexpected SysV classification''))"

text \<open>The loop over the eightbytes of a struct.\<close>

function eightbyte_loop ::
    "struct_descriptor \<Rightarrow> nat \<Rightarrow> u32 \<Rightarrow> u32 \<Rightarrow> Expansion list \<Rightarrow> (ABIArgInfo \<times> u32 \<times> u32) result" where
  "eightbyte_loop Desc I RequiredIntRegs RequiredSSERegs Expansions =
     (if I < unat (eightByteCount Desc) then
        rbind (array_get ''eightByteSizes'' (eightByteSizes Desc) I) (\<lambda>Size.
        rbind (array_get ''eightByteClassifications'' (eightByteClassifications Desc) I) (\<lambda>cls.
        rbind (eightbyte cls Size) (\<lambda>(Ty, ints, sses).
        rbind (array_get ''eightByteOffsets'' (eightByteOffsets Desc) I) (\<lambda>offset.
        eightbyte_loop Desc (I + 1) (RequiredIntRegs + ints) (RequiredSSERegs + sses)
          (Expansions @ [\<lparr>exp_type = Ty, exp_offset = offset\<rparr>])))))
      else Inr (getExpand Expansions, RequiredIntRegs, RequiredSSERegs))"
  by pat_completeness auto
termination by (relation "measure (\<lambda>(Desc, I, _). unat (eightByteCount Desc) - I)") auto

declare eightbyte_loop.simps [simp del]

definition SysV_classify ::
    "abi_env \<Rightarrow> bool \<Rightarrow> bool \<Rightarrow> ABIType \<Rightarrow> (ABIArgInfo \<times> u32 \<times> u32) result" where
  "SysV_classify env managed isResult aty =
     (let Ty = TheType aty in
      rbind (rassert ''!Ty->isVoidTy()'' (Ty \<noteq> VoidTy)) (\<lambda>_.
      if isAggregateType Ty \<or> isVectorTy Ty then
        (case getStructDescriptor env (TheClass aty) of
           None \<Rightarrow> Inl (AssertFailed ''Ok'')
         | Some Desc \<Rightarrow>
             if \<not> passedInRegisters Desc
             then (if isResult then Inr (getIndirect Ty, 1, 0) else Inr (getDirect Ty, 0, 0))
             else eightbyte_loop Desc 0 0 0 [])
      else case Ty of
        IntegerTy w \<Rightarrow>
          rbind (rassert ''getIntegerBitWidth() <= 64'' (w \<le> 64)) (\<lambda>_. Inr (extend_small managed aty w, 1, 0))
      | FloatTy \<Rightarrow> Inr (getDirect Ty, 0, 1)
      | DoubleTy \<Rightarrow> Inr (getDirect Ty, 0, 1)
      | OtherFPTy _ \<Rightarrow> Inl (AssertFailed ''Ty->isFloatTy() || Ty->isDoubleTy()'')
      | PointerTy _ _ \<Rightarrow> Inr (getDirect Ty, 1, 0)
      | _ \<Rightarrow> Inl (AssertFailed ''Ty->isPointerTy()'')))"

definition SysV_classifyArgument :: "abi_env \<Rightarrow> bool \<Rightarrow> ABIType \<Rightarrow> (ABIArgInfo \<times> u32 \<times> u32) result" where
  "SysV_classifyArgument env managed aty = SysV_classify env managed False aty"

definition SysV_classifyResult :: "abi_env \<Rightarrow> bool \<Rightarrow> ABIType \<Rightarrow> ABIArgInfo result" where
  "SysV_classifyResult env managed aty =
     (if TheType aty = VoidTy then Inr (getDirect (TheType aty))
      else rbind (SysV_classify env managed True aty) (\<lambda>(info, _, _). Inr info))"

fun SysV_arguments ::
    "abi_env \<Rightarrow> bool \<Rightarrow> u32 \<Rightarrow> u32 \<Rightarrow> ABIType list \<Rightarrow> ABIArgInfo list result" where
  "SysV_arguments env managed FreeIntRegs FreeSSERegs [] = Inr []"
| "SysV_arguments env managed FreeIntRegs FreeSSERegs (Arg # Args) =
     rbind (SysV_classifyArgument env managed Arg) (\<lambda>(Info, RequiredIntRegs, RequiredSSERegs).
     if isExpand Info \<and> (FreeIntRegs < RequiredIntRegs \<or> FreeSSERegs < RequiredSSERegs)
     then rbind (SysV_arguments env managed FreeIntRegs FreeSSERegs Args) (\<lambda>infos.
          Inr (move_assign Info (getDirect (TheType Arg)) # infos))
     else rbind (SysV_arguments env managed
                  (if 0 < RequiredIntRegs \<and> RequiredIntRegs \<le> FreeIntRegs then FreeIntRegs - RequiredIntRegs else FreeIntRegs)
                  (if 0 < RequiredSSERegs \<and> RequiredSSERegs \<le> FreeSSERegs then FreeSSERegs - RequiredSSERegs else FreeSSERegs)
                  Args) (\<lambda>infos.
          Inr (Info # infos)))"

definition SysV_computeSignatureInfo ::
    "abi_env \<Rightarrow> bool \<Rightarrow> ABIType \<Rightarrow> ABIType list \<Rightarrow> (ABIArgInfo \<times> ABIArgInfo list) result" where
  "SysV_computeSignatureInfo env managed resultType argTypes =
     rbind (SysV_classifyResult env managed resultType) (\<lambda>r.
     rbind (SysV_arguments env managed (if isIndirect r then 5 else 6) 8 argTypes) (\<lambda>infos. Inr (r, infos)))"

subsection \<open>The target's ABI\<close>

datatype CallingConv =
    CC_C | CC_X86_64_Win64 | CC_X86_64_SysV | CC_X86_StdCall | CC_X86_FastCall | CC_X86_ThisCall
  | CC_CLR_VirtualDispatchStub | CC_CLR_SecretParameter

record X86_64ABIInfo =
  IsWindows :: bool
  TheEnv :: abi_env

datatype arch = Triple_x86_64 | Triple_other string

definition ABIInfo_get :: "arch \<Rightarrow> bool \<Rightarrow> abi_env \<Rightarrow> X86_64ABIInfo result" where
  "ABIInfo_get a isOSWindows env =
     (case a of Triple_x86_64 \<Rightarrow> Inr \<lparr>IsWindows = isOSWindows, TheEnv = env\<rparr>
      | Triple_other _ \<Rightarrow> Inl (Unreachable ''Unsupported architecture''))"

definition computeSignatureInfo ::
    "X86_64ABIInfo \<Rightarrow> CallingConv \<Rightarrow> bool \<Rightarrow> ABIType \<Rightarrow> ABIType list \<Rightarrow> (ABIArgInfo \<times> ABIArgInfo list) result" where
  "computeSignatureInfo info cc managed resultType argTypes =
     (let CC = (if cc = CC_C then (if IsWindows info then CC_X86_64_Win64 else CC_X86_64_SysV) else cc) in
      if CC = CC_X86_64_Win64 then Win64_computeSignatureInfo (TheEnv info) managed resultType argTypes
      else if CC = CC_X86_64_SysV then SysV_computeSignatureInfo (TheEnv info) managed resultType argTypes
      else Inl (AssertFailed ''Unsupported calling convention''))"

subsection \<open>Specification and samples\<close>

text \<open>The registers a passed value takes: one integer register per integer or pointer slot, one SSE register per floating-point slot.\<close>

definition int_slot :: "llvm_type \<Rightarrow> nat" where
  "int_slot ty = (case ty of IntegerTy _ \<Rightarrow> 1 | PointerTy _ _ \<Rightarrow> 1 | _ \<Rightarrow> 0)"

definition sse_slot :: "llvm_type \<Rightarrow> nat" where
  "sse_slot ty = (case ty of FloatTy \<Rightarrow> 1 | DoubleTy \<Rightarrow> 1 | _ \<Rightarrow> 0)"

fun passed_types :: "Passing \<Rightarrow> llvm_type list" where
  "passed_types (Direct ty) = [ty]"
| "passed_types (Expand es) = map exp_type es"
| "passed_types (ZeroExtend ty) = [ty]"
| "passed_types (SignExtend ty) = [ty]"
| "passed_types (Indirect ty) = [PointerTy ty 0]"

definition int_regs :: "ABIArgInfo \<Rightarrow> nat" where
  "int_regs info = sum_list (map int_slot (passed_types (Passed info)))"

definition sse_regs :: "ABIArgInfo \<Rightarrow> nat" where
  "sse_regs info = sum_list (map sse_slot (passed_types (Passed info)))"

text \<open>The assignment of an argument when \<open>ints\<close> and \<open>sses\<close> registers are left.\<close>

definition assigned :: "nat \<Rightarrow> nat \<Rightarrow> ABIType \<Rightarrow> ABIArgInfo \<Rightarrow> ABIArgInfo" where
  "assigned ints sses aty info =
     (if isExpand info \<and> \<not> (int_regs info \<le> ints \<and> sse_regs info \<le> sses) then getDirect (TheType aty) else info)"

text \<open>A struct of two integer eightbytes, a short and a void result.\<close>

definition sample_env :: abi_env where
  "sample_env = \<lparr>getTypeSizeInBits = (\<lambda>_. 64), isPowerOf2_64 = (\<lambda>x. unat x \<in> set (map (\<lambda>k. 2 ^ k) [0..<64])),
     getStructDescriptor = (\<lambda>c. Some \<lparr>passedInRegisters = True, eightByteCount = 2,
        eightByteClassifications = [SystemVClassificationTypeInteger, SystemVClassificationTypeInteger],
        eightByteSizes = [8, 8], eightByteOffsets = [0, 8]\<rparr>)\<rparr>"

definition sample_struct :: ABIType where
  "sample_struct = \<lparr>TheType = StructTy ''Pair'' [IntegerTy 64, IntegerTy 64], TheClass = Some 1, IsSigned = False\<rparr>"

definition sample_int :: ABIType where
  "sample_int = \<lparr>TheType = IntegerTy 16, TheClass = None, IsSigned = True\<rparr>"

definition sample_void :: ABIType where
  "sample_void = \<lparr>TheType = VoidTy, TheClass = None, IsSigned = False\<rparr>"

subsection \<open>Lemmas\<close>

lemmas constructor_defs = getDirect_def getExpand_def getZeroExtend_def getSignExtend_def getIndirect_def

lemma constructor_simps [simp]:
  "isExpand (getDirect t) = False" "isExpand (getZeroExtend t) = False" "isExpand (getSignExtend t) = False"
  "isExpand (getIndirect t) = False" "isExpand (getExpand es) = True"
  "isIndirect (getDirect t) = False" "isIndirect (getZeroExtend t) = False" "isIndirect (getSignExtend t) = False"
  "isIndirect (getIndirect t) = True" "isIndirect (getExpand es) = False"
  "Index (getDirect t) = None" "Index (getZeroExtend t) = None" "Index (getSignExtend t) = None"
  "Index (getIndirect t) = None" "Index (getExpand es) = None"
  by (simp_all add: constructor_defs isExpand_def isIndirect_def)

lemma slot_simps [simp]:
  "int_slot (IntegerTy w) = 1" "int_slot (PointerTy t a) = 1" "int_slot FloatTy = 0" "int_slot DoubleTy = 0"
  "sse_slot (IntegerTy w) = 0" "sse_slot (PointerTy t a) = 0" "sse_slot FloatTy = 1" "sse_slot DoubleTy = 1"
  by (simp_all add: int_slot_def sse_slot_def)

lemma aggregate_no_slot:
  assumes "isAggregateType ty \<or> isVectorTy ty"
  shows "int_slot ty = 0" "sse_slot ty = 0"
  using assms by (cases ty; simp add: int_slot_def sse_slot_def)+

lemma eightbyte_slots:
  assumes "eightbyte cls Size = Inr (Ty, ints, sses)"
  shows "unat ints = int_slot Ty" "unat sses = sse_slot Ty" "int_slot Ty + sse_slot Ty = 1"
  using assms by (auto simp: eightbyte_def rbind_eq_Inr_iff split: SystemVClassificationType.splits if_splits)

lemma eightbyte_loop_counts:
  assumes "eightbyte_loop Desc I ri rs es = Inr (info, ri', rs')"
    "unat ri = sum_list (map (int_slot \<circ> exp_type) es)" "unat rs = sum_list (map (sse_slot \<circ> exp_type) es)"
    "length es = I" "unat ri + unat rs = I" "I \<le> unat (eightByteCount Desc)"
  shows "\<exists>es'. info = getExpand es' \<and> length es' = unat (eightByteCount Desc)
     \<and> unat ri' = int_regs info \<and> unat rs' = sse_regs info"
  using assms
proof (induction "unat (eightByteCount Desc) - I" arbitrary: I ri rs es)
  case 0
  then show ?case
    by (subst (asm) eightbyte_loop.simps) (auto simp: int_regs_def sse_regs_def getExpand_def o_def)
next
  case (Suc n)
  then have True: "I < unat (eightByteCount Desc)" by simp
  have small: "I < 255" using True unat_bound_u8[of "eightByteCount Desc"] by simp
  from True Suc.prems(1) obtain Size cls Ty ints sses offset where
    g: "eightbyte cls Size = Inr (Ty, ints, sses)"
      "eightbyte_loop Desc (I + 1) (ri + ints) (rs + sses) (es @ [\<lparr>exp_type = Ty, exp_offset = offset\<rparr>]) = Inr (info, ri', rs')"
    by (subst (asm) eightbyte_loop.simps) (auto simp: rbind_eq_Inr_iff)
  note slots = eightbyte_slots[OF g(1)]
  have inc: "unat (ri + ints) = unat ri + int_slot Ty" "unat (rs + sses) = unat rs + sse_slot Ty"
    using small Suc.prems(5) slots by (subst unat_add_no_wrap; simp)+
  show ?case
    by (rule Suc.hyps(1)[OF _ g(2)]) (use Suc slots inc True in auto)
qed

lemma SysV_classify_regs:
  assumes "SysV_classify env managed False aty = Inr (info, ri, rs)"
  shows "unat ri = int_regs info" "unat rs = sse_regs info"
    and "isExpand info \<Longrightarrow> isAggregateType (TheType aty) \<or> isVectorTy (TheType aty)"
    and "\<not> isExpand info \<Longrightarrow> int_regs info \<le> 1 \<and> sse_regs info \<le> 1"
    and "Index info = None" "\<not> isIndirect info"
proof -
  let ?Ty = "TheType aty"
  have agg: thesis if "isAggregateType ?Ty \<or> isVectorTy ?Ty" 
     "\<And>D. eightbyte_loop D 0 0 0 [] = Inr (info, ri, rs) \<Longrightarrow> thesis"
     "info = getDirect ?Ty \<Longrightarrow> ri = 0 \<Longrightarrow> rs = 0 \<Longrightarrow> thesis" for thesis
    using assms that by (auto simp: SysV_classify_def Let_def rbind_eq_Inr_iff split: option.splits if_splits)
  have "(unat ri = int_regs info \<and> unat rs = sse_regs info
    \<and> (isExpand info \<longrightarrow> isAggregateType (TheType aty) \<or> isVectorTy (TheType aty))
    \<and> (\<not> isExpand info \<longrightarrow> int_regs info \<le> 1 \<and> sse_regs info \<le> 1) \<and> Index info = None \<and> \<not> isIndirect info)"
  proof (cases "isAggregateType ?Ty \<or> isVectorTy ?Ty")
    case True
    show ?thesis
    proof (rule agg[OF True])
      fix D assume "eightbyte_loop D 0 0 0 [] = Inr (info, ri, rs)"
      from eightbyte_loop_counts[OF this] show ?thesis using True
        by (auto simp: getExpand_def isExpand_def isIndirect_def)
    qed (use True aggregate_no_slot[OF True] in \<open>simp add: getDirect_def int_regs_def sse_regs_def isExpand_def isIndirect_def\<close>)
  next
    case False
    then show ?thesis using assms
      by (cases ?Ty) (auto simp: SysV_classify_def Let_def rbind_eq_Inr_iff extend_small_def constructor_defs
          int_regs_def sse_regs_def isExpand_def isIndirect_def split: if_splits)
  qed
  then show "unat ri = int_regs info" "unat rs = sse_regs info"
    and "isExpand info \<Longrightarrow> isAggregateType (TheType aty) \<or> isVectorTy (TheType aty)"
    and "\<not> isExpand info \<Longrightarrow> int_regs info \<le> 1 \<and> sse_regs info \<le> 1" and "Index info = None" "\<not> isIndirect info" by blast+
qed

lemma unat_take_regs:
  "unat (if 0 < r \<and> r \<le> f then f - r else f) = (if unat r \<le> unat f then unat f - unat r else unat f)"
  for f r :: u32
  by (auto simp: unat_simps unat_sub)

lemma take_regs_saturates:
  "(a :: nat) \<le> 1 \<or> a \<le> n \<Longrightarrow> (if a \<le> n then n - a else n) = n - a"
  by auto

lemma SysV_arguments_assigned:
  assumes "SysV_arguments env managed fi fs args = Inr infos"
  shows "length infos = length args \<and>
    (\<forall>i < length args. \<exists>info ri rs. SysV_classifyArgument env managed (args ! i) = Inr (info, ri, rs)
       \<and> infos ! i = assigned (unat fi - sum_list (map int_regs (take i infos)))
                              (unat fs - sum_list (map sse_regs (take i infos))) (args ! i) info)"
  using assms
proof (induction args arbitrary: fi fs infos)
  case Nil
  then show ?case by simp
next
  case (Cons a args)
  from Cons.prems obtain info ri rs where c: "SysV_classifyArgument env managed a = Inr (info, ri, rs)"
    by (auto simp: rbind_eq_Inr_iff)
  note r = SysV_classify_regs[OF c[unfolded SysV_classifyArgument_def]]
  let ?spill = "isExpand info \<and> (fi < ri \<or> fs < rs)"
  define fi' fs' where
    "fi' = (if ?spill then fi else if 0 < ri \<and> ri \<le> fi then fi - ri else fi)"
    "fs' = (if ?spill then fs else if 0 < rs \<and> rs \<le> fs then fs - rs else fs)"
  define x where "x = (if ?spill then getDirect (TheType a) else info)"
  have mv: "move_assign info (getDirect (TheType a)) = getDirect (TheType a)"
    using r(5) by (cases info) (simp add: move_assign_def getDirect_def)
  from Cons.prems obtain rest where
    rest: "SysV_arguments env managed fi' fs' args = Inr rest" "infos = x # rest"
    by (auto simp: c rbind_eq_Inr_iff fi'_fs'_def x_def mv split: if_splits)
  have x: "x = assigned (unat fi) (unat fs) a info"
    by (auto simp: x_def assigned_def unat_simps r(1,2))
  have free: "unat fi' = unat fi - int_regs x \<and> unat fs' = unat fs - sse_regs x"
  proof (cases ?spill)
    case True
    then have "int_regs x = 0" "sse_regs x = 0"
      using aggregate_no_slot[OF r(3)] by (simp_all add: x_def getDirect_def int_regs_def sse_regs_def)
    then show ?thesis 
      using True by (simp_all add: fi'_fs'_def)
  next
    case False
    have "int_regs info \<le> 1 \<or> int_regs info \<le> unat fi" "sse_regs info \<le> 1 \<or> sse_regs info \<le> unat fs"
      using False r(4) by (auto simp: unat_simps r(1,2))
    then show ?thesis
      using False by (auto simp: fi'_fs'_def x_def unat_take_regs r(1,2))
  qed
  show ?case
  proof (intro conjI allI impI)
    show "length infos = length (a # args)" using Cons.IH[OF rest(1)] rest(2) by simp
    fix i assume i: "i < length (a # args)"
    show "\<exists>info ri rs. SysV_classifyArgument env managed ((a # args) ! i) = Inr (info, ri, rs)
       \<and> infos ! i = assigned (unat fi - sum_list (map int_regs (take i infos)))
                              (unat fs - sum_list (map sse_regs (take i infos))) ((a # args) ! i) info"
      using i c x rest(2) Cons.IH[OF rest(1)] by (cases i) (auto simp: free)
  qed
qed

lemma Win64_arguments_classify:
  "Win64_arguments env managed args = Inr infos \<longleftrightarrow>
   length infos = length args \<and> (\<forall>i < length args. Win64_classify env managed (args ! i) = Inr (infos ! i))"
proof (induction args arbitrary: infos)
  case Nil
  then show ?case by auto
next
  case (Cons a args)
  show ?case
    by (cases infos) (auto simp: rbind_eq_Inr_iff Cons.IH nth_Cons split: nat.splits)
qed

lemma Win64_classify_shape:
  assumes "Win64_classify env managed aty = Inr info"
  shows "\<not> isExpand info" "isIndirect info \<Longrightarrow> isAggregateType (TheType aty) \<or> isVectorTy (TheType aty)" "Index info = None"
  using assms
  by (auto simp: Win64_classify_def Let_def rbind_eq_Inr_iff constructor_defs extend_small_def isExpand_def isIndirect_def
      split: llvm_type.splits if_splits)

subsection \<open>The contract of a classifier\<close>

text \<open>
  What the rest of the compiler relies on, whatever the ABI: one description per argument, with no
  index yet; only aggregates and vectors are split or passed by reference; integers are extended or
  passed as they are.
\<close>

locale signature_classifier =
  fixes compute :: "ABIType \<Rightarrow> ABIType list \<Rightarrow> (ABIArgInfo \<times> ABIArgInfo list) result"
    and managed :: bool
  assumes one_info_per_argument: "compute r args = Inr (ri, infos) \<Longrightarrow> length infos = length args"
    and unindexed: "compute r args = Inr (ri, infos) \<Longrightarrow> i < length args \<Longrightarrow> Index (infos ! i) = None"
    and split_aggregates: "compute r args = Inr (ri, infos) \<Longrightarrow> i < length args \<Longrightarrow>
      isExpand (infos ! i) \<or> isIndirect (infos ! i) \<Longrightarrow>
      isAggregateType (TheType (args ! i)) \<or> isVectorTy (TheType (args ! i))"
    and integers: "compute r args = Inr (ri, infos) \<Longrightarrow> i < length args \<Longrightarrow> TheType (args ! i) = IntegerTy w \<Longrightarrow>
      infos ! i = extend_small managed (args ! i) w"
begin

lemma scalar_single_slot:
  assumes "compute r args = Inr (ri, infos)" "i < length args"
    and "\<not> isAggregateType (TheType (args ! i))" "\<not> isVectorTy (TheType (args ! i))"
  shows "length (passed_types (Passed (infos ! i))) = 1"
  using split_aggregates[OF assms(1,2)] assms(3,4)
  by (cases "Passed (infos ! i)") (auto simp: isExpand_def)

lemma integer_extension:
  assumes "compute r args = Inr (ri, infos)" "i < length args" "TheType (args ! i) = IntegerTy w"
  shows "Passed (infos ! i) =
    (if managed \<and> w < 32 then if IsSigned (args ! i) then SignExtend (IntegerTy w) else ZeroExtend (IntegerTy w)
     else Direct (IntegerTy w))"
  using integers[OF assms] assms(3) by (simp add: extend_small_def constructor_defs)

end

lemma Win64_integer: "TheType a = IntegerTy w \<Longrightarrow> Win64_classify env managed a = Inr info \<Longrightarrow> info = extend_small managed a w"
  by (auto simp: Win64_classify_def Let_def rbind_eq_Inr_iff)

lemma SysV_integer:
  "TheType a = IntegerTy w \<Longrightarrow> SysV_classifyArgument env managed a = Inr (info, ri, rs) \<Longrightarrow>
   info = extend_small managed a w \<and> \<not> isExpand info"
  by (auto simp: SysV_classifyArgument_def SysV_classify_def Let_def rbind_eq_Inr_iff extend_small_def split: if_splits)

interpretation win64: signature_classifier "Win64_computeSignatureInfo env managed" managed for env managed
  by unfold_locales
    (auto simp: Win64_computeSignatureInfo_def rbind_eq_Inr_iff Win64_arguments_classify
      dest: Win64_classify_shape Win64_integer)

lemma SysV_infos:
  assumes "SysV_computeSignatureInfo env managed r args = Inr (ri, infos)"
  shows "length infos = length args"
    and "i < length args \<Longrightarrow> \<exists>info n m req. SysV_classifyArgument env managed (args ! i) = Inr (info, req) \<and>
      infos ! i = assigned n m (args ! i) info"
  using assms SysV_arguments_assigned
  by (fastforce simp: SysV_computeSignatureInfo_def rbind_eq_Inr_iff)+

lemma assigned_shape:
  assumes "SysV_classifyArgument env managed a = Inr (info, req)"
  shows "Index (assigned n m a info) = None" "\<not> isIndirect (assigned n m a info)"
    "isExpand (assigned n m a info) \<Longrightarrow> isAggregateType (TheType a) \<or> isVectorTy (TheType a)"
  using assms SysV_classify_regs[of env managed a info "fst req" "snd req"]
  by (auto simp: SysV_classifyArgument_def assigned_def split: if_splits)

interpretation sysv: signature_classifier "SysV_computeSignatureInfo env managed" managed for env managed
proof
  fix r args ri infos i
  assume c: "SysV_computeSignatureInfo env managed r args = Inr (ri, infos)"
  note s = SysV_infos[OF c]
  show "length infos = length args" by (rule s(1))
  assume i: "i < length args"
  obtain info n m req where a: "SysV_classifyArgument env managed (args ! i) = Inr (info, req)"
    "infos ! i = assigned n m (args ! i) info" using s(2)[OF i] by blast
  show "Index (infos ! i) = None" using assigned_shape[OF a(1)] a(2) by simp
  show "isExpand (infos ! i) \<or> isIndirect (infos ! i) \<Longrightarrow>
      isAggregateType (TheType (args ! i)) \<or> isVectorTy (TheType (args ! i))"
    using assigned_shape[OF a(1)] a(2) by auto
  fix w assume "TheType (args ! i) = IntegerTy w"
  with a SysV_integer[of "args ! i" w env managed info "fst req" "snd req"]
  show "infos ! i = extend_small managed (args ! i) w" by (simp add: assigned_def)
qed

interpretation x64: signature_classifier "computeSignatureInfo info cc managed" managed for info cc managed
  by unfold_locales
    (auto simp: computeSignatureInfo_def Let_def split: if_splits
      dest: win64.one_info_per_argument win64.unindexed win64.split_aggregates win64.integers
        sysv.one_info_per_argument sysv.unindexed sysv.split_aggregates sysv.integers)

lemma expand_budget:
  assumes "\<forall>i < length infos. isExpand (infos ! i) \<longrightarrow> f (infos ! i) \<le> N - sum_list (map f (take i infos))"
  shows "sum_list (map f (filter isExpand infos)) \<le> (N :: nat)"
proof -
  have le: "sum_list (map f (filter isExpand xs)) \<le> sum_list (map f xs)" for xs
    by (induction xs) auto
  have "sum_list (map f (filter isExpand (take k infos))) \<le> N" if "k \<le> length infos" for k
    using that
  proof (induction k)
    case (Suc k)
    then have k: "k < length infos" and IH: "sum_list (map f (filter isExpand (take k infos))) \<le> N" by simp_all
    from le[of "take k infos"] assms[rule_format, OF k] IH show ?case
      by (cases "isExpand (infos ! k)") (auto simp: take_Suc_conv_app_nth[OF k])
  qed simp
  from this[of "length infos"] show ?thesis by simp
qed

lemma assigned_fits:
  "isExpand (assigned n m a info) \<Longrightarrow> int_regs (assigned n m a info) \<le> n \<and> sse_regs (assigned n m a info) \<le> m"
  by (auto simp: assigned_def split: if_splits)

subsection \<open>Properties\<close>

text \<open>C17: System V register assignment. Of the registers left over by the arguments in front of it
  (six integer registers, five when the result is returned through a hidden pointer, and eight SSE
  registers), an argument that is split into eightbytes is passed in registers exactly when all its
  eightbytes fit, and otherwise goes to the stack as a whole; every other argument is passed as its
  own classification says.\<close>

theorem sysv_register_assignment:
  assumes "SysV_computeSignatureInfo env managed resultType args = Inr (r, infos)" and "i < length args"
  shows "\<exists>info ri rs. SysV_classifyArgument env managed (args ! i) = Inr (info, ri, rs)
    \<and> infos ! i = assigned ((if isIndirect r then 5 else 6) - sum_list (map int_regs (take i infos)))
                           (8 - sum_list (map sse_regs (take i infos))) (args ! i) info"
proof -
  have "SysV_arguments env managed (if isIndirect r then 5 else 6) 8 args = Inr infos"
    using assms(1) by (auto simp: SysV_computeSignatureInfo_def rbind_eq_Inr_iff)
  from SysV_arguments_assigned[OF this] assms(2) show ?thesis by (simp split: if_splits)
qed

lemma sample_pow2: "isPowerOf2_64 sample_env x \<longleftrightarrow> (\<exists>k. unat x = 2 ^ k)"
proof -
  have "k < 64" if "unat x = 2 ^ k" for k
  proof -
    have "unat x < 2 ^ LENGTH(64)" by (rule unsigned_less)
    then have "(2 :: nat) ^ k < 2 ^ 64" using that by simp
    then show ?thesis by (rule power_less_imp_less_exp[rotated]) simp
  qed
  then show ?thesis by (auto simp: sample_env_def)
qed

lemma sample_eval:
  "SysV_classifyArgument sample_env managed sample_struct =
     Inr (getExpand [\<lparr>exp_type = IntegerTy 64, exp_offset = 0\<rparr>, \<lparr>exp_type = IntegerTy 64, exp_offset = 8\<rparr>], 2, 0)"
  "SysV_classifyArgument sample_env True sample_int = Inr (getSignExtend (IntegerTy 16), 1, 0)"
  "SysV_classifyResult sample_env managed sample_void = Inr (getDirect VoidTy)"
  by (simp_all add: SysV_classifyArgument_def SysV_classify_def SysV_classifyResult_def sample_env_def sample_struct_def
      sample_int_def sample_void_def extend_small_def eightbyte_loop.simps eightbyte_def)

lemma sample_signature:
  "SysV_computeSignatureInfo sample_env True sample_void [sample_struct, sample_struct, sample_int, sample_struct] =
     Inr (getDirect VoidTy, [getExpand [\<lparr>exp_type = IntegerTy 64, exp_offset = 0\<rparr>, \<lparr>exp_type = IntegerTy 64, exp_offset = 8\<rparr>],
       getExpand [\<lparr>exp_type = IntegerTy 64, exp_offset = 0\<rparr>, \<lparr>exp_type = IntegerTy 64, exp_offset = 8\<rparr>],
       getSignExtend (IntegerTy 16), getDirect (TheType sample_struct)])"
  by (simp add: SysV_computeSignatureInfo_def sample_eval move_assign_def)

theorem sysv_register_assignment_witness:
  "\<exists>info ri rs. SysV_classifyArgument sample_env True sample_struct = Inr (info, ri, rs) \<and>
     getDirect (TheType sample_struct) = assigned 1 8 sample_struct info"
  using sysv_register_assignment[OF sample_signature, of 3]
  by (simp add: numeral_eq_Suc) (simp add: int_regs_def sse_regs_def getSignExtend_def getExpand_def)

text \<open>The eightbytes the System V classification places in registers never exceed the registers
  there are.\<close>

theorem sysv_register_budget:
  assumes "SysV_computeSignatureInfo env managed resultType args = Inr (r, infos)"
  shows "sum_list (map int_regs (filter isExpand infos)) \<le> (if isIndirect r then 5 else 6)
    \<and> sum_list (map sse_regs (filter isExpand infos)) \<le> 8"
proof -
  define fi :: u32 where "fi = (if isIndirect r then 5 else 6)"
  have "SysV_arguments env managed fi 8 args = Inr infos"
    using assms by (auto simp: SysV_computeSignatureInfo_def rbind_eq_Inr_iff fi_def)
  note a = SysV_arguments_assigned[OF this]
  have "sum_list (map int_regs (filter isExpand infos)) \<le> unat fi" "sum_list (map sse_regs (filter isExpand infos)) \<le> unat (8 :: u32)"
    by (rule expand_budget; use a assigned_fits in metis)+
  then show ?thesis by (simp add: fi_def split: if_splits)
qed

theorem sysv_register_budget_witness:
  "sum_list (map int_regs [getExpand [\<lparr>exp_type = IntegerTy 64, exp_offset = 0\<rparr>, \<lparr>exp_type = IntegerTy 64, exp_offset = 8\<rparr>],
       getExpand [\<lparr>exp_type = IntegerTy 64, exp_offset = 0\<rparr>, \<lparr>exp_type = IntegerTy 64, exp_offset = 8\<rparr>]]) \<le> 6"
  using sysv_register_budget[OF sample_signature] by simp

text \<open>Microsoft x64 aggregates. A struct, array or vector is passed as an integer of its own size
  exactly when it has 1, 2, 4 or 8 bytes, and through a pointer otherwise, at any position of the
  argument list.\<close>

theorem win64_aggregates:
  assumes "\<forall>x. isPowerOf2_64 env x \<longleftrightarrow> (\<exists>k. unat x = 2 ^ k)"
    and "Win64_computeSignatureInfo env managed resultType args = Inr (r, infos)" "i < length args"
    and "isAggregateType (TheType (args ! i)) \<or> isVectorTy (TheType (args ! i))"
  shows "Passed (infos ! i) =
    (let size = unat (getTypeSizeInBits env (TheType (args ! i))) in
     if size div 8 \<in> {1, 2, 4, 8} then Direct (IntegerTy size) else Indirect (TheType (args ! i)))"
proof -
  have pow: "(n \<le> 8 \<and> (\<exists>k. n = 2 ^ k)) \<longleftrightarrow> n \<in> {1, 2, 4, 8}" for n :: nat
  proof
    assume "n \<le> 8 \<and> (\<exists>k. n = 2 ^ k)"
    then obtain k where k: "n = 2 ^ k" "(2 :: nat) ^ k \<le> 2 ^ 3" by auto
    then have "k \<le> 3" using power_le_imp_le_exp[of "2 :: nat" k 3] by simp
    then have "k = 0 \<or> k = 1 \<or> k = 2 \<or> k = 3" by linarith
    then show "n \<in> {1, 2, 4, 8}" using k(1) by auto
  next
    assume "n \<in> {1, 2, 4, 8}"
    then have "n = 2 ^ 0 \<or> n = 2 ^ 1 \<or> n = 2 ^ 2 \<or> n = 2 ^ 3" by auto
    then have "\<exists>k. n = 2 ^ k" by blast
    then show "n \<le> 8 \<and> (\<exists>k. n = 2 ^ k)" using \<open>n \<in> {1, 2, 4, 8}\<close> by auto
  qed
  have "Win64_classify env managed (args ! i) = Inr (infos ! i)"
    using assms(2,3) by (auto simp: Win64_computeSignatureInfo_def rbind_eq_Inr_iff Win64_arguments_classify)
  moreover have "TheType (args ! i) \<noteq> VoidTy" using assms(4) by auto
  ultimately have *: "infos ! i = (let b = getTypeSizeInBits env (TheType (args ! i)) in
      if b div 8 \<le> 8 \<and> isPowerOf2_64 env (b div 8) then getDirect (IntegerTy (unat b)) else getIndirect (TheType (args ! i)))"
    using assms(4) by (auto simp: Win64_classify_def Let_def)
  show ?thesis
    using pow[of "unat (getTypeSizeInBits env (TheType (args ! i))) div 8"]
    by (simp add: * Let_def assms(1) unat_simps unat_div constructor_defs)
qed

theorem win64_aggregates_witness:
  "Passed ([getDirect (IntegerTy 64)] ! 0) =
    (let size = unat (getTypeSizeInBits sample_env (TheType ([sample_struct] ! 0))) in
     if size div 8 \<in> {1, 2, 4, 8} then Direct (IntegerTy size) else Indirect (TheType ([sample_struct] ! 0)))"
proof (rule win64_aggregates[of sample_env True sample_void "[sample_struct]" "getDirect VoidTy" _ 0])
  show "\<forall>x. isPowerOf2_64 sample_env x \<longleftrightarrow> (\<exists>k. unat x = 2 ^ k)" by (simp add: sample_pow2)
  show "Win64_computeSignatureInfo sample_env True sample_void [sample_struct] = Inr (getDirect VoidTy, [getDirect (IntegerTy 64)])"
    by (simp add: Win64_computeSignatureInfo_def Win64_classifyResult_def Win64_classify_def sample_void_def
        sample_struct_def sample_env_def Let_def unat_simps upt_rec)
qed (simp_all add: sample_struct_def)

text \<open>Under both ABIs an integer argument narrower than 32 bits is sign- or zero-extended according
  to its signedness when the callee is managed; all other integers are passed as they are, at every
  position.\<close>

theorem small_integers_extended:
  assumes "computeSignatureInfo info cc managed r args = Inr (ri, infos)" "i < length args" "TheType (args ! i) = IntegerTy w"
  shows "Passed (infos ! i) =
    (if managed \<and> w < 32 then if IsSigned (args ! i) then SignExtend (IntegerTy w) else ZeroExtend (IntegerTy w)
     else Direct (IntegerTy w))"
  by (rule x64.integer_extension[OF assms])

theorem small_integers_extended_witness:
  "Passed (getSignExtend (IntegerTy 16)) = SignExtend (IntegerTy 16)"
  using small_integers_extended[of "\<lparr>IsWindows = False, TheEnv = sample_env\<rparr>" CC_C True sample_void
      "[sample_struct, sample_struct, sample_int, sample_struct]" _ _ 2 16]
  by (simp add: computeSignatureInfo_def sample_signature) (simp add: sample_int_def)

end
