(* ===== verification/ABISignature.thy ===== *)
theory ABISignature
  imports ABI
begin

section \<open>Function and call signatures\<close>

text \<open>
  lib/Reader/abisignature.cpp and its users in lib/Reader/readerir.cpp: \<open>ABISignature\<close> classifies a
  runtime signature for the target; \<open>createFunction\<close> lays the parameters of the compiled function
  out, \<open>emitCall\<close> lays the arguments of a call out, and the loop of \<open>GenIR::readerPrePass\<close> that homes
  the parameters reads them back. The model keeps the layout: for every slot of the LLVM
  function type its type, its attributes and the argument, or part of a split argument, that it
  carries. The instructions that compute the values (loads, casts, temporaries) are not
  modelled. \<open>GenIR::getType\<close> is a parameter.
\<close>

subsection \<open>Calling conventions\<close>

definition getNormalizedCallingConvention :: "CorInfoCallConv \<Rightarrow> CorInfoCallConv" where
  "getNormalizedCallingConvention CC =
     (case CC of
        CORINFO_CALLCONV_STDCALL \<Rightarrow> CORINFO_CALLCONV_C
      | CORINFO_CALLCONV_THISCALL \<Rightarrow> CORINFO_CALLCONV_C
      | CORINFO_CALLCONV_FASTCALL \<Rightarrow> CORINFO_CALLCONV_C
      | _ \<Rightarrow> CC)"

text \<open>The LLVM convention and whether the callee is managed code.\<close>

definition getLLVMCallingConv :: "CorInfoCallConv \<Rightarrow> CallingConv \<times> bool" where
  "getLLVMCallingConv CC =
     (case CC of
        CORINFO_CALLCONV_STDCALL \<Rightarrow> (CC_X86_StdCall, False)
      | CORINFO_CALLCONV_THISCALL \<Rightarrow> (CC_X86_ThisCall, False)
      | CORINFO_CALLCONV_FASTCALL \<Rightarrow> (CC_X86_FastCall, False)
      | CORINFO_CALLCONV_DEFAULT \<Rightarrow> (CC_C, True)
      | _ \<Rightarrow> (CC_C, False))"

subsection \<open>ABISignature\<close>

record ABISignature =
  FuncResultType :: llvm_type
  Result :: ABIArgInfo
  Args :: "ABIArgInfo list"

definition getManagedPointerType :: "llvm_type \<Rightarrow> llvm_type" where
  "getManagedPointerType ty = PointerTy ty 1"

definition getUnmanagedPointerType :: "llvm_type \<Rightarrow> llvm_type" where
  "getUnmanagedPointerType ty = PointerTy ty 0"

definition getExpandedResultType :: "Expansion list \<Rightarrow> llvm_type result" where
  "getExpandedResultType es = rbind (rassert ''Expansions.size() > 0'' (es \<noteq> [])) (\<lambda>_. Inr (StructTy '''' (map exp_type es)))"

type_synonym get_type = "CorInfoType \<Rightarrow> CORINFO_CLASS_HANDLE \<Rightarrow> llvm_type"

definition abi_type :: "get_type \<Rightarrow> CallArgType \<Rightarrow> ABIType result" where
  "abi_type getType a =
     rbind (isSignedIntegralType (CorType a)) (\<lambda>s.
     Inr \<lparr>TheType = getType (CorType a) (Class a), TheClass = Class a, IsSigned = s\<rparr>)"

fun abi_types :: "get_type \<Rightarrow> CallArgType list \<Rightarrow> ABIType list result" where
  "abi_types getType [] = Inr []"
| "abi_types getType (a # as) =
     rbind (abi_type getType a) (\<lambda>t. rbind (abi_types getType as) (\<lambda>ts. Inr (t # ts)))"

definition ABISignature_new ::
    "get_type \<Rightarrow> X86_64ABIInfo \<Rightarrow> 'a ReaderCallSignature_scheme \<Rightarrow> ABISignature result" where
  "ABISignature_new getType info s =
     rbind (abi_type getType (ResultType s)) (\<lambda>ABIResultType.
     rbind (abi_types getType (ArgumentTypes s)) (\<lambda>ABIArgTypes.
     case getLLVMCallingConv (getNormalizedCallingConvention (CallingConvention s)) of (CC, managed) \<Rightarrow>
     rbind (computeSignatureInfo info CC managed ABIResultType ABIArgTypes) (\<lambda>(r, infos).
     rbind (case Passed r of
              Indirect ty \<Rightarrow> Inr (getManagedPointerType ty)
            | Expand es \<Rightarrow> getExpandedResultType es
            | Direct ty \<Rightarrow> Inr ty | ZeroExtend ty \<Rightarrow> Inr ty | SignExtend ty \<Rightarrow> Inr ty) (\<lambda>fr.
     Inr \<lparr>FuncResultType = fr, Result = r, Args = infos\<rparr>))))"

definition num_slots :: "ABIArgInfo \<Rightarrow> nat" where
  "num_slots info = (case Passed info of Expand es \<Rightarrow> length es | _ \<Rightarrow> 1)"

fun count_abi_args :: "ABIArgInfo list \<Rightarrow> u32" where
  "count_abi_args [] = 0"
| "count_abi_args (info # infos) = of_nat (num_slots info) + count_abi_args infos"

definition getNumABIArgs :: "ABISignature \<Rightarrow> u32" where
  "getNumABIArgs s = count_abi_args (Args s)"

definition hasIndirectResultOrArg :: "ABISignature \<Rightarrow> bool" where
  "hasIndirectResultOrArg s = (isIndirect (Result s) \<or> list_ex isIndirect (Args s))"

subsection \<open>Placing arguments\<close>

text \<open>
  A slot of a function type: its type, its attributes and where its value comes from. The loops of
  \<open>createFunction\<close> and \<open>emitCall\<close> fill an array of slots: they jump over the slot of the indirect
  result when they reach it, write the slots of each argument, and remember the index \<open>I\<close> of the
  argument's last slot.
\<close>

datatype Attribute = ZExt | SExt | ByVal

datatype slot_source =
    SpecialArg            \<comment> \<open>the indirection cell or the secret parameter\<close>
  | ResultBuffer          \<comment> \<open>the pointer to the indirect result\<close>
  | Part nat nat          \<comment> \<open>part of an argument: its number and the number of the expansion\<close>

type_synonym slot = "llvm_type \<times> Attribute list \<times> slot_source"

fun write_slots :: "'s option list \<Rightarrow> u32 \<Rightarrow> 's list \<Rightarrow> 's option list result" where
  "write_slots ts I [] = Inr ts"
| "write_slots ts I (x # xs) =
     rbind (array_put ''ArgumentTypes'' ts (unat I) (Some x)) (\<lambda>ts'. write_slots ts' (I + 1) xs)"

fun place_arguments ::
    "u32 option \<Rightarrow> u32 \<Rightarrow> 's list list \<Rightarrow> 's option list \<Rightarrow> ('s option list \<times> u32 list) result" where
  "place_arguments ResultIndex I [] ts = Inr (ts, [])"
| "place_arguments ResultIndex I (xs # xss) ts =
     (let I0 = (if ResultIndex = Some I then I + 1 else I); I1 = I0 + of_nat (length xs) - 1 in
      rbind (write_slots ts I0 xs) (\<lambda>ts'.
      rbind (place_arguments ResultIndex (I1 + 1) xss ts') (\<lambda>(ts'', idxs). Inr (ts'', I1 # idxs))))"

text \<open>The slots of argument number \<open>J\<close> in \<open>createFunction\<close>.\<close>

definition direct_slot :: "llvm_type \<Rightarrow> Attribute list \<Rightarrow> nat \<Rightarrow> slot" where
  "direct_slot ty attrs J =
     (if isStructTy ty then (PointerTy ty 0, attrs @ [ByVal], Part J 0) else (ty, attrs, Part J 0))"

definition expand_slots :: "Expansion list \<Rightarrow> nat \<Rightarrow> slot list" where
  "expand_slots es J = map (\<lambda>k. (exp_type (es ! k), [], Part J k)) [0..<length es]"

definition create_slots :: "nat \<Rightarrow> ABIArgInfo \<Rightarrow> slot list" where
  "create_slots J Arg =
     (case Passed Arg of
        Indirect ty \<Rightarrow> [(getManagedPointerType ty, [], Part J 0)]
      | Expand es \<Rightarrow> expand_slots es J
      | ZeroExtend ty \<Rightarrow> [direct_slot ty [ZExt] J]
      | SignExtend ty \<Rightarrow> [direct_slot ty [SExt] J]
      | Direct ty \<Rightarrow> [direct_slot ty [] J])"

text \<open>A function declaration: the slots of its type, the attributes of its result and its convention.\<close>

record function_decl =
  fn_result :: llvm_type
  fn_ret_attrs :: "Attribute list"
  fn_slots :: "slot option list"   \<comment> \<open>\<open>None\<close> is a type that was never set\<close>
  fn_cc :: CallingConv

definition ret_attrs :: "ABIArgInfo \<Rightarrow> Attribute list" where
  "ret_attrs r = (case Passed r of ZeroExtend _ \<Rightarrow> [ZExt] | SignExtend _ \<Rightarrow> [SExt] | _ \<Rightarrow> [])"

definition createFunction ::
    "ReaderMethodSignature \<Rightarrow> ABISignature \<Rightarrow> (function_decl \<times> ABISignature) result" where
  "createFunction Signature s =
     (let NumExtraArgs = (if isIndirect (Result s) then 1 else 0);
          NumArgs = getNumABIArgs s + NumExtraArgs;
          ts = replicate (unat NumArgs) None;
          ResultIndex = (if isIndirect (Result s) then Some (if HasThis Signature then 1 else 0) else None) in
      rbind (case Passed (Result s) of
               Indirect ty \<Rightarrow> array_put ''ArgumentTypes'' ts (unat (the ResultIndex))
                                (Some (getManagedPointerType ty, [], ResultBuffer))
             | _ \<Rightarrow> Inr ts) (\<lambda>ts1.
      rbind (place_arguments ResultIndex 0 (map (\<lambda>(J, Arg). create_slots J Arg) (enumerate 0 (Args s))) ts1) (\<lambda>(ts2, idxs).
      Inr (\<lparr>fn_result = FuncResultType s, fn_ret_attrs = ret_attrs (Result s), fn_slots = ts2,
            fn_cc = (if HasSecretParameter Signature then CC_CLR_SecretParameter else CC_C)\<rparr>,
           s\<lparr>Result := (case ResultIndex of Some i \<Rightarrow> setIndex i (Result s) | None \<Rightarrow> Result s),
             Args := map (\<lambda>(Arg, i). setIndex i Arg) (zip (Args s) idxs)\<rparr>))))"

text \<open>
  The arguments of \<open>emitCall\<close>: each is the type of an IR value and whether the value is a pointer
  that represents a struct.
\<close>

type_synonym call_arg = "llvm_type \<times> bool"

definition call_direct_slot :: "llvm_type \<Rightarrow> Attribute list \<Rightarrow> nat \<Rightarrow> slot" where
  "call_direct_slot ty attrs J =
     (if isStructTy ty \<or> isVectorTy ty then (PointerTy ty 0, attrs @ [ByVal], Part J 0) else (ty, attrs, Part J 0))"

definition call_slots :: "bool \<Rightarrow> nat \<Rightarrow> ABIArgInfo \<times> call_arg \<Rightarrow> slot list" where
  "call_slots IsJmp J a =
     (let ArgType = fst (snd a); representsStruct = snd (snd a) in
      case Passed (fst a) of
        Indirect _ \<Rightarrow> [(if IsJmp \<or> representsStruct then ArgType else PointerTy ArgType 0, [], Part J 0)]
      | Expand es \<Rightarrow> expand_slots es J
      | ZeroExtend ty \<Rightarrow> [call_direct_slot ty [ZExt] J]
      | SignExtend ty \<Rightarrow> [call_direct_slot ty [SExt] J]
      | Direct ty \<Rightarrow> [call_direct_slot ty [] J])"

record call_site =
  cs_slots :: "slot option list"
  cs_ret_attrs :: "Attribute list"
  cs_cc :: CallingConv
  cs_unmanaged :: bool

text \<open>
  \<open>emitCall\<close>: \<open>IndirectionCell\<close> is the type of the cell when there is one, \<open>secretParam\<close> the type
  of the caller's secret parameter when it has one.
\<close>

definition emitCall ::
    "ReaderCallSignature \<Rightarrow> ABISignature \<Rightarrow> call_arg list \<Rightarrow> llvm_type option \<Rightarrow> llvm_type option \<Rightarrow> bool \<Rightarrow> call_site result" where
  "emitCall Signature s args IndirectionCell secretParam IsJmp =
     (let HasIndirectResult = isIndirect (Result s);
          HasIndirectionCell = IndirectionCell \<noteq> None;
          IsUnmanagedCall = CallingConvention Signature \<noteq> CORINFO_CALLCONV_DEFAULT;
          IsJmpWithSecretParam = IsJmp \<and> secretParam \<noteq> None;
          NumSpecialArgs = (if HasIndirectionCell \<or> IsJmpWithSecretParam then 1 else 0) :: u32;
          NumExtraArgs = (if HasIndirectResult then 1 else 0) + NumSpecialArgs;
          NumArgs = getNumABIArgs s + NumExtraArgs;
          ts = replicate (unat NumArgs) None;
          ResultIndex = (if HasIndirectResult then Some (NumSpecialArgs + (if HasThis Signature then 1 else 0)) else None) in
      rbind (rassert ''at most one special argument''
               ((if HasIndirectionCell then 1 else 0) + (if IsUnmanagedCall then 1 else 0)
                + (if IsJmpWithSecretParam then 1 else 0) \<le> (1 :: nat))) (\<lambda>_.
      rbind (case IndirectionCell of
               Some ty \<Rightarrow> array_put ''Arguments'' ts 0 (Some (ty, [], SpecialArg))
             | None \<Rightarrow> if IsJmpWithSecretParam
                       then array_put ''Arguments'' ts 0 (Some (the secretParam, [], SpecialArg)) else Inr ts) (\<lambda>ts1.
      rbind (case Passed (Result s) of
               Indirect ty \<Rightarrow> array_put ''Arguments'' ts1 (unat (the ResultIndex))
                 (Some (if IsJmp then getManagedPointerType ty else getUnmanagedPointerType ty, [], ResultBuffer))
             | _ \<Rightarrow> Inr ts1) (\<lambda>ts2.
      rbind (rassert ''J < Args.size()'' (length args \<le> length (Args s))) (\<lambda>_.
      rbind (place_arguments ResultIndex NumSpecialArgs
               (map (\<lambda>(J, a). call_slots IsJmp J a) (enumerate 0 (zip (Args s) args))) ts2) (\<lambda>(ts3, _).
      Inr \<lparr>cs_slots = ts3, cs_ret_attrs = ret_attrs (Result s),
           cs_cc = (if HasIndirectionCell then CC_CLR_VirtualDispatchStub
                    else if IsJmpWithSecretParam then CC_CLR_SecretParameter
                    else fst (getLLVMCallingConv (getNormalizedCallingConvention (CallingConvention Signature)))),
           cs_unmanaged = IsUnmanagedCall\<rparr>))))))"

subsection \<open>Reading the parameters in the callee\<close>

definition doesArgumentHaveHome :: "ABIArgInfo \<Rightarrow> bool" where
  "doesArgumentHaveHome Info =
     (case Passed Info of
        Indirect _ \<Rightarrow> False
      | Direct ty \<Rightarrow> \<not> isStructTy ty \<and> \<not> isVectorTy ty
      | _ \<Rightarrow> True)"

text \<open>
  The homing loop of \<open>readerPrePass\<close> over the slots of the function: it yields the parts of the
  arguments it stores into their homes, by slot, and checks the slots of the arguments that stay
  where they are.
\<close>

function home_loop ::
    "u32 option \<Rightarrow> ABIArgInfo list \<Rightarrow> u32 \<Rightarrow> nat \<Rightarrow> slot list \<Rightarrow> (u32 \<times> slot_source) list result" where
  "home_loop ResultIndex infos I J slots =
     (case slots of
        [] \<Rightarrow> Inr []
      | (ty, attrs, _) # rest \<Rightarrow>
          if ResultIndex = Some I then home_loop ResultIndex infos (I + 1) J rest
          else if \<not> J < length infos then Inl (AssertFailed ''I < Args.size()'')
          else case Passed (infos ! J) of
            Indirect _ \<Rightarrow> home_loop ResultIndex infos (I + 1) (J + 1) rest
          | Expand es \<Rightarrow>
              if es = [] \<or> length slots < length es then Inl (OutOfBounds ''Function->args'' (unat I + length es))
              else rbind (home_loop ResultIndex infos (I + of_nat (length es)) (J + 1) (drop (length es) slots)) (\<lambda>hs.
                   Inr (map (\<lambda>k. (I + of_nat k, Part J k)) [0..<length es] @ hs))
          | Direct aty \<Rightarrow>
              if isStructTy aty \<or> isVectorTy aty
              then rbind (rassert ''ArgI->getType() == ArgInfo.getType()*'' (case ty of PointerTy ety _ \<Rightarrow> ety = aty | _ \<Rightarrow> False)) (\<lambda>_.
                   rbind (rassert ''ArgI->hasByValAttr()'' (ByVal \<in> set attrs)) (\<lambda>_.
                   home_loop ResultIndex infos (I + 1) (J + 1) rest))
              else rbind (home_loop ResultIndex infos (I + 1) (J + 1) rest) (\<lambda>hs. Inr ((I, Part J 0) # hs))
          | ZeroExtend aty \<Rightarrow>
              if isStructTy aty \<or> isVectorTy aty then Inl (AssertFailed ''!doesArgumentHaveHome(ArgInfo)'')
              else rbind (home_loop ResultIndex infos (I + 1) (J + 1) rest) (\<lambda>hs. Inr ((I, Part J 0) # hs))
          | SignExtend aty \<Rightarrow>
              if isStructTy aty \<or> isVectorTy aty then Inl (AssertFailed ''!doesArgumentHaveHome(ArgInfo)'')
              else rbind (home_loop ResultIndex infos (I + 1) (J + 1) rest) (\<lambda>hs. Inr ((I, Part J 0) # hs)))"
  by pat_completeness auto
termination by (relation "measure (\<lambda>(_, _, _, _, slots). length slots)") auto

declare home_loop.simps [simp del]

text \<open>
  \<open>secretParam\<close> reads parameter 0; \<open>thisObj\<close> and \<open>instParam\<close> read the slot at the index stored for the
  argument.
\<close>

definition secretParam_slot :: "ReaderMethodSignature \<Rightarrow> function_decl \<Rightarrow> slot option result" where
  "secretParam_slot Signature f =
     rbind (getSecretParameterIndex Signature) (\<lambda>i.
     rbind (rassert ''getSecretParameterIndex() == 0'' (i = 0)) (\<lambda>_. array_get ''Function->args'' (fn_slots f) 0))"

definition argument_slot :: "u32 result \<Rightarrow> ABISignature \<Rightarrow> function_decl \<Rightarrow> slot option result" where
  "argument_slot index s f =
     rbind index (\<lambda>I.
     rbind (rassert ''I < Args.size()'' (unat I < length (Args s))) (\<lambda>_.
     rbind (case Index (Args s ! unat I) of Some i \<Rightarrow> Inr i | None \<Rightarrow> Inl (AssertFailed ''Index'')) (\<lambda>i.
     array_get ''Function->args'' (fn_slots f) (unat i))))"

definition thisObj_slot :: "ReaderMethodSignature \<Rightarrow> ABISignature \<Rightarrow> function_decl \<Rightarrow> slot option result" where
  "thisObj_slot Signature s f = argument_slot (getThisIndex Signature) s f"

definition instParam_slot :: "ReaderMethodSignature \<Rightarrow> ABISignature \<Rightarrow> function_decl \<Rightarrow> slot option result" where
  "instParam_slot Signature s f = argument_slot (getTypeArgIndex Signature) s f"

subsection \<open>Specification and samples\<close>

text \<open>The slots of the arguments with the result slot at its position.\<close>

definition layout :: "nat option \<Rightarrow> 's \<Rightarrow> 's list list \<Rightarrow> 's list" where
  "layout pos x xss =
     (case pos of None \<Rightarrow> concat xss | Some k \<Rightarrow> take k (concat xss) @ x # drop k (concat xss))"

text \<open>Every index names the last slot of its argument.\<close>

definition points_at_last :: "'s option list \<Rightarrow> 's list list \<Rightarrow> u32 list \<Rightarrow> bool" where
  "points_at_last ts xss idxs \<longleftrightarrow> length idxs = length xss \<and>
     (\<forall>j < length xss. xss ! j \<noteq> [] \<longrightarrow>
        unat (idxs ! j) < length ts \<and> ts ! unat (idxs ! j) = Some (last (xss ! j)))"

definition result_pos :: "bool \<Rightarrow> ABISignature \<Rightarrow> nat option" where
  "result_pos hasThis s = (if isIndirect (Result s) then Some (if hasThis then 1 else 0) else None)"

definition callee_slots :: "ABISignature \<Rightarrow> slot list list" where
  "callee_slots s = map (\<lambda>(J, Arg). create_slots J Arg) (enumerate 0 (Args s))"

definition result_type :: "ABISignature \<Rightarrow> llvm_type" where
  "result_type s = (case Passed (Result s) of Indirect ty \<Rightarrow> ty | _ \<Rightarrow> VoidTy)"

definition callee_layout :: "bool \<Rightarrow> ABISignature \<Rightarrow> slot list" where
  "callee_layout hasThis s =
     layout (result_pos hasThis s) (getManagedPointerType (result_type s), [], ResultBuffer) (callee_slots s)"

text \<open>The slots can be counted in 32 bits, and an argument in front of an indirect result has one slot.\<close>

definition slots_fit :: "bool \<Rightarrow> ABISignature \<Rightarrow> bool" where
  "slots_fit hasThis s \<longleftrightarrow> sum_list (map num_slots (Args s)) + 3 < 2 ^ 32
     \<and> (isIndirect (Result s) \<and> hasThis \<longrightarrow> Args s \<noteq> [] \<and> num_slots (hd (Args s)) = 1)"

text \<open>The slots of a call, in the order of the arguments.\<close>

definition caller_slots :: "bool \<Rightarrow> ABISignature \<Rightarrow> call_arg list \<Rightarrow> slot list list" where
  "caller_slots IsJmp s args = map (\<lambda>(J, a). call_slots IsJmp J a) (enumerate 0 (zip (Args s) args))"

definition special_slots :: "llvm_type option \<Rightarrow> llvm_type option \<Rightarrow> bool \<Rightarrow> slot list" where
  "special_slots IndirectionCell secretParam IsJmp =
     (case IndirectionCell of Some ty \<Rightarrow> [(ty, [], SpecialArg)]
      | None \<Rightarrow> (case secretParam of Some ty \<Rightarrow> if IsJmp then [(ty, [], SpecialArg)] else [] | None \<Rightarrow> []))"

definition caller_layout :: "bool \<Rightarrow> bool \<Rightarrow> ABISignature \<Rightarrow> call_arg list \<Rightarrow> slot list" where
  "caller_layout hasThis IsJmp s args =
     layout (result_pos hasThis s)
       (if IsJmp then getManagedPointerType (result_type s) else getUnmanagedPointerType (result_type s), [], ResultBuffer)
       (caller_slots IsJmp s args)"

definition source :: "slot \<Rightarrow> slot_source" where
  "source x = snd (snd x)"

fun homed_by :: "ABIArgInfo list \<Rightarrow> slot_source \<Rightarrow> bool" where
  "homed_by infos (Part J k) = doesArgumentHaveHome (infos ! J)"
| "homed_by infos _ = False"

text \<open>The parts of the arguments to be homed, by slot.\<close>

fun homes :: "ABIArgInfo list \<Rightarrow> u32 \<Rightarrow> slot list \<Rightarrow> (u32 \<times> slot_source) list" where
  "homes infos I [] = []"
| "homes infos I (x # xs) =
     (if homed_by infos (source x) then [(I, source x)] else []) @ homes infos (I + 1) xs"

text \<open>The forms of argument the homing loop handles.\<close>

definition homeable :: "ABIArgInfo \<Rightarrow> bool" where
  "homeable a = (case Passed a of
     Expand es \<Rightarrow> es \<noteq> [] | Direct ty \<Rightarrow> \<not> isVectorTy ty | Indirect _ \<Rightarrow> True
   | ZeroExtend ty \<Rightarrow> \<not> isStructTy ty \<and> \<not> isVectorTy ty
   | SignExtend ty \<Rightarrow> \<not> isStructTy ty \<and> \<not> isVectorTy ty)"

text \<open>What the layout relies on in \<open>getType\<close>.\<close>

definition scalar_this :: "get_type \<Rightarrow> bool" where
  "scalar_this getType \<longleftrightarrow>
     (\<forall>t \<in> {CORINFO_TYPE_CLASS, CORINFO_TYPE_BYREF, CORINFO_TYPE_NATIVEINT}. \<forall>c.
        \<not> isAggregateType (getType t c) \<and> \<not> isVectorTy (getType t c))"

text \<open>A method of a value class: \<open>this\<close>, an int and a struct of two eightbytes.\<close>

definition sample_getType :: get_type where
  "sample_getType t c =
     (case t of CORINFO_TYPE_VOID \<Rightarrow> VoidTy | CORINFO_TYPE_INT \<Rightarrow> IntegerTy 32
      | CORINFO_TYPE_VALUECLASS \<Rightarrow> StructTy ''Pair'' [IntegerTy 64, IntegerTy 64]
      | CORINFO_TYPE_NATIVEINT \<Rightarrow> IntegerTy 64 | _ \<Rightarrow> PointerTy (IntegerTy 8) 1)"

definition sample_target :: X86_64ABIInfo where
  "sample_target = \<lparr>IsWindows = False, TheEnv = sample_env\<rparr>"

definition sample_method :: ReaderMethodSignature where
  "sample_method = projr (initMethodInfo sample_EE sample_sig False)"

definition sample_abi :: ABISignature where
  "sample_abi = \<lparr>FuncResultType = VoidTy, Result = getDirect VoidTy,
     Args = [getDirect (PointerTy (IntegerTy 8) 1), getDirect (IntegerTy 32),
       getExpand [\<lparr>exp_type = IntegerTy 64, exp_offset = 0\<rparr>, \<lparr>exp_type = IntegerTy 64, exp_offset = 8\<rparr>]]\<rparr>"

subsection \<open>Lemmas\<close>

lemma write_slots_fill:
  assumes "length pre = unat I" "length mid = length xs" "unat I + length xs < 2 ^ 32"
  shows "write_slots (pre @ mid @ post) I xs = Inr (pre @ map Some xs @ post)"
  using assms
proof (induction xs arbitrary: pre mid I)
  case Nil
  then show ?case by simp
next
  case (Cons x xs)
  then obtain m ms where mid: "mid = m # ms" by (cases mid) auto
  have I1: "unat (I + 1) = unat I + 1" using Cons.prems by (subst unat_add_no_wrap) auto
  have "array_put ''ArgumentTypes'' (pre @ mid @ post) (unat I) (Some x) = Inr ((pre @ [Some x]) @ ms @ post)"
    using Cons.prems(1) by (simp add: mid list_update_append)
  then show ?case using Cons.IH[of "pre @ [Some x]" "I + 1" ms] Cons.prems mid I1 by simp
qed

text \<open>Behind the slot of the indirect result the loop only appends.\<close>

lemma place_arguments_append:
  assumes "\<forall>r. ResultIndex = Some r \<longrightarrow> unat r < unat I"
    and "length pre = unat I" "length post = length (concat xss)" "unat I + length (concat xss) < 2 ^ 32"
  shows "\<exists>idxs. place_arguments ResultIndex I xss (pre @ post) = Inr (pre @ map Some (concat xss), idxs)
     \<and> length idxs = length xss
     \<and> (\<forall>j < length xss. xss ! j \<noteq> [] \<longrightarrow> Suc (unat (idxs ! j)) = unat I + length (concat (take (Suc j) xss)))"
  using assms
proof (induction xss arbitrary: I pre post)
  case Nil
  then show ?case by simp
next
  case (Cons xs xss)
  let ?I' = "I + of_nat (length xs)"
  have ne: "ResultIndex \<noteq> Some I" using Cons.prems(1) by auto
  have I': "unat ?I' = unat I + length xs"
    using Cons.prems(4) by (subst unat_add_no_wrap) (auto simp: unat_of_nat)
  have post: "post = take (length xs) post @ drop (length xs) post" "length (take (length xs) post) = length xs"
    using Cons.prems(3) by simp_all
  have w: "write_slots (pre @ post) I xs = Inr (pre @ map Some xs @ drop (length xs) post)"
    using write_slots_fill[of pre I "take (length xs) post" xs "drop (length xs) post"] Cons.prems post by simp
  obtain idxs where ih: "place_arguments ResultIndex ?I' xss ((pre @ map Some xs) @ drop (length xs) post)
      = Inr ((pre @ map Some xs) @ map Some (concat xss), idxs)" "length idxs = length xss"
    "\<forall>j < length xss. xss ! j \<noteq> [] \<longrightarrow> Suc (unat (idxs ! j)) = unat ?I' + length (concat (take (Suc j) xss))"
    using Cons.IH[of ?I' "pre @ map Some xs" "drop (length xs) post"] Cons.prems I' by fastforce
  have "place_arguments ResultIndex I (xs # xss) (pre @ post)
      = Inr (pre @ map Some (concat (xs # xss)), (?I' - 1) # idxs)"
    using w ih(1) ne by simp
  moreover have "Suc (unat (?I' - 1)) = unat I + length xs" if "xs \<noteq> []"
    using that I' by (subst unat_minus_one) (auto simp: unat_eq_0)
  ultimately show ?case using ih(2,3) I'
    by (intro exI[of _ "(?I' - 1) # idxs"]) (auto simp: nth_Cons split: nat.splits)
qed

lemma concat_take_last:
  assumes "j < length xss" "xss ! j \<noteq> []"
  shows "length (concat (take (Suc j) xss)) \<le> length (concat xss)"
    and "concat xss ! (length (concat (take (Suc j) xss)) - 1) = last (xss ! j)"
proof -
  let ?p = "concat (take j xss)"
  have t: "concat (take (Suc j) xss) = ?p @ xss ! j" using assms(1) by (simp add: take_Suc_conv_app_nth)
  have all: "concat xss = ?p @ xss ! j @ concat (drop (Suc j) xss)"
    using assms(1) by (metis Cons_nth_drop_Suc append_take_drop_id concat.simps(2) concat_append)
  have l: "0 < length (xss ! j)" using assms(2) by simp
  show "length (concat (take (Suc j) xss)) \<le> length (concat xss)" by (subst all, subst t) simp
  have "length ?p + length (xss ! j) - 1 = length ?p + (length (xss ! j) - 1)" using l by linarith
  then have "concat xss ! (length ?p + length (xss ! j) - 1) = (xss ! j @ concat (drop (Suc j) xss)) ! (length (xss ! j) - 1)"
    by (subst all) (simp only: nth_append_length_plus)
  then have "concat xss ! (length ?p + length (xss ! j) - 1) = (xss ! j) ! (length (xss ! j) - 1)"
    using l by (simp add: nth_append)
  then show "concat xss ! (length (concat (take (Suc j) xss)) - 1) = last (xss ! j)"
    using assms(2) by (simp add: t last_conv_nth)
qed

lemma place_arguments_behind:
  assumes "\<forall>r. ResultIndex = Some r \<longrightarrow> unat r < unat I"
    and "length pre = unat I" "length post = length (concat xss)" "unat I + length (concat xss) < 2 ^ 32"
  shows "\<exists>idxs. place_arguments ResultIndex I xss (pre @ post) = Inr (pre @ map Some (concat xss), idxs)
     \<and> points_at_last (pre @ map Some (concat xss)) xss idxs"
proof -
  obtain idxs where p: "place_arguments ResultIndex I xss (pre @ post) = Inr (pre @ map Some (concat xss), idxs)"
    "length idxs = length xss"
    "\<And>j. j < length xss \<Longrightarrow> xss ! j \<noteq> [] \<Longrightarrow> Suc (unat (idxs ! j)) = unat I + length (concat (take (Suc j) xss))"
    using place_arguments_append[OF assms] by blast
  have "unat (idxs ! j) < length (pre @ map Some (concat xss)) \<and>
      (pre @ map Some (concat xss)) ! unat (idxs ! j) = Some (last (xss ! j))"
    if j: "j < length xss" "xss ! j \<noteq> []" for j
  proof -
    let ?n = "length (concat (take (Suc j) xss))"
    have "0 < ?n" using j by (auto simp: take_Suc_conv_app_nth)
    then obtain m where m: "?n = Suc m" by (cases ?n) auto
    have "m < length (concat xss)" "concat xss ! m = last (xss ! j)" using concat_take_last[OF j] m by simp_all
    moreover have "unat (idxs ! j) = length pre + m" using p(3)[OF j] m assms(2) by simp
    ultimately show ?thesis by (simp add: nth_append)
  qed
  then show ?thesis using p(1,2) by (auto simp: points_at_last_def)
qed

lemma place_arguments_at:
  assumes "length pre = unat I" "length post = length (concat xss)" "unat I + length (concat xss) + 1 < 2 ^ 32"
  shows "\<exists>idxs. place_arguments (Some I) I xss (pre @ Some x # post) = Inr (pre @ Some x # map Some (concat xss), idxs)
     \<and> points_at_last (pre @ Some x # map Some (concat xss)) xss idxs"
proof (cases xss)
  case Nil
  then show ?thesis using assms by (simp add: points_at_last_def)
next
  case (Cons xs xss')
  have I1: "unat (I + 1) = unat I + 1" using assms by (subst unat_add_no_wrap) auto
  have "place_arguments (Some I) I xss (pre @ Some x # post) = place_arguments (Some I) (I + 1) xss ((pre @ [Some x]) @ post)"
    by (simp add: Cons)
  then show ?thesis
    using place_arguments_behind[of "Some I" "I + 1" "pre @ [Some x]" post xss] assms I1 by auto
qed

lemma place_arguments_after_first:
  assumes "length pre = unat I" "length post = length (concat xss)" "unat I + length (concat xss) + 2 < 2 ^ 32"
  shows "\<exists>idxs. place_arguments (Some (I + 1)) I ([a] # xss) (pre @ y # Some x # post) =
       Inr (pre @ Some a # Some x # map Some (concat xss), idxs)
     \<and> points_at_last (pre @ Some a # Some x # map Some (concat xss)) ([a] # xss) idxs"
proof -
  have I1: "unat (I + 1) = unat I + 1" using assms by (subst unat_add_no_wrap) auto
  obtain idxs where p: "place_arguments (Some (I + 1)) (I + 1) xss ((pre @ [Some a]) @ Some x # post) =
      Inr ((pre @ [Some a]) @ Some x # map Some (concat xss), idxs)"
    "points_at_last ((pre @ [Some a]) @ Some x # map Some (concat xss)) xss idxs"
    using place_arguments_at[of "pre @ [Some a]" "I + 1" post xss x] assms I1 by auto
  have "place_arguments (Some (I + 1)) I ([a] # xss) (pre @ y # Some x # post) =
      Inr (pre @ Some a # Some x # map Some (concat xss), I # idxs)"
    using p(1) assms(1) by (simp add: list_update_append)
  moreover have "points_at_last (pre @ Some a # Some x # map Some (concat xss)) ([a] # xss) (I # idxs)"
    using p(2) assms(1) by (auto simp: points_at_last_def nth_Cons nth_append split: nat.splits)
  ultimately show ?thesis by blast
qed

lemma place_arguments_layout:
  assumes "pos = None \<or> pos = Some 0 \<or> (pos = Some 1 \<and> (\<exists>a yss. xss = [a] # yss))"
    and "length pre = unat I" "unat I + length (concat xss) + 2 < 2 ^ 32"
  shows "\<exists>idxs. place_arguments (map_option (\<lambda>k. I + of_nat k) pos) I xss
       (case pos of None \<Rightarrow> pre @ replicate (length (concat xss)) None
        | Some k \<Rightarrow> (pre @ replicate (Suc (length (concat xss))) None)[unat I + k := Some x]) =
       Inr (pre @ map Some (layout pos x xss), idxs)
     \<and> points_at_last (pre @ map Some (layout pos x xss)) xss idxs"
proof -
  consider "pos = None" | "pos = Some 0" | a yss where "pos = Some 1" "xss = [a] # yss" using assms(1) by blast
  then show ?thesis
  proof cases
    case 1
    then show ?thesis
      using place_arguments_behind[of None I pre "replicate (length (concat xss)) None" xss] assms by (simp add: layout_def)
  next
    case 2
    then show ?thesis
      using place_arguments_at[of pre I "replicate (length (concat xss)) None" xss x] assms
      by (simp add: layout_def list_update_append)
  next
    case 3
    then show ?thesis
      using place_arguments_after_first[of pre I "replicate (length (concat yss)) None" yss a None x] assms
      by (simp add: layout_def list_update_append)
  qed
qed

lemma length_slots [simp]:
  "length (create_slots J a) = num_slots a"
  "length (call_slots j J b) = num_slots (fst b)"
  by (auto simp: create_slots_def call_slots_def num_slots_def expand_slots_def Let_def split: Passing.split)

lemma length_concat_slots:
  assumes "\<And>J a. a \<in> set as \<Longrightarrow> length (f J a) = g a"
  shows "length (concat (map (\<lambda>(J, a). f J a) (enumerate n as))) = sum_list (map g as)"
  using assms by (induction as arbitrary: n) auto

lemma count_abi_args_unat:
  "sum_list (map num_slots infos) < 2 ^ 32 \<Longrightarrow> unat (count_abi_args infos) = sum_list (map num_slots infos)"
proof (induction infos)
  case (Cons a infos)
  then show ?case by (simp, subst unat_add_no_wrap) (auto simp: unat_of_nat)
qed simp

lemma getNumABIArgs_unat:
  assumes "sum_list (map num_slots (Args s)) + 3 < 2 ^ 32" "unat k \<le> 2"
  shows "unat (getNumABIArgs s + k) = sum_list (map num_slots (Args s)) + unat k"
  using assms by (subst unat_add_no_wrap) (auto simp: getNumABIArgs_def count_abi_args_unat)

lemma Passed_Indirect: "isIndirect r \<longleftrightarrow> (\<exists>ty. Passed r = Indirect ty)"
  by (auto simp: isIndirect_def split: Passing.splits)

lemma createFunction_eq:
  assumes "slots_fit (HasThis Signature) s"
  shows "\<exists>f s'. createFunction Signature s = Inr (f, s')
     \<and> fn_slots f = map Some (callee_layout (HasThis Signature) s)
     \<and> map Passed (Args s') = map Passed (Args s)
     \<and> points_at_last (fn_slots f) (callee_slots s) (map (the \<circ> Index) (Args s'))
     \<and> (\<forall>a \<in> set (Args s'). Index a \<noteq> None)
     \<and> Passed (Result s') = Passed (Result s)
     \<and> (isIndirect (Result s) \<longrightarrow> Index (Result s') = Some (if HasThis Signature then 1 else 0))"
proof -
  let ?pos = "result_pos (HasThis Signature) s" and ?x = "(getManagedPointerType (result_type s), [], ResultBuffer) :: slot"
  let ?n = "sum_list (map num_slots (Args s))"
  have n: "?n + 3 < 2 ^ 32" using assms by (simp add: slots_fit_def)
  have len: "length (concat (callee_slots s)) = ?n"
    unfolding callee_slots_def by (rule length_concat_slots) simp
  have first: "\<exists>a yss. callee_slots s = [a] # yss" if "isIndirect (Result s)" "HasThis Signature"
  proof -
    note both = that
    obtain b bs where b: "Args s = b # bs" "num_slots b = 1"
      using both assms by (cases "Args s") (auto simp: slots_fit_def)
    then have "length (create_slots 0 b) = 1" by simp
    then obtain x where "create_slots 0 b = [x]" by (metis One_nat_def length_0_conv length_Suc_conv)
    then show ?thesis using b by (cases x) (simp add: callee_slots_def)
  qed
  have pos: "?pos = None \<or> ?pos = Some 0 \<or> (?pos = Some 1 \<and> (\<exists>a yss. callee_slots s = [a] # yss))"
    using first unfolding result_pos_def by presburger
  obtain idxs where p: "place_arguments (map_option (\<lambda>k. 0 + of_nat k) ?pos) 0 (callee_slots s)
       (case ?pos of None \<Rightarrow> [] @ replicate ?n None | Some k \<Rightarrow> ([] @ replicate (Suc ?n) None)[unat (0 :: u32) + k := Some ?x]) =
       Inr ([] @ map Some (layout ?pos ?x (callee_slots s)), idxs)"
     "points_at_last ([] @ map Some (layout ?pos ?x (callee_slots s))) (callee_slots s) idxs"
    using place_arguments_layout[OF pos, of "[]" 0 ?x] n unfolding len by auto
  have li: "length idxs = length (Args s)" using p(2) by (simp add: points_at_last_def callee_slots_def)
  let ?A = "map (\<lambda>(Arg, i). setIndex i Arg) (zip (Args s) idxs)"
  have A: "map Passed ?A = map Passed (Args s)" "map (the \<circ> Index) ?A = idxs" "\<forall>a \<in> set ?A. Index a \<noteq> None"
    using li by (auto intro!: nth_equalityI simp: setIndex_def)
  show ?thesis
  proof (cases "isIndirect (Result s)")
    case True
    then obtain ty where ty: "Passed (Result s) = Indirect ty" by (auto simp: Passed_Indirect)
    have N: "unat (getNumABIArgs s + 1) = Suc ?n" using getNumABIArgs_unat[OF n, of 1] by simp
    have this_le: "HasThis Signature \<Longrightarrow> 1 < Suc ?n" using assms True by (cases "Args s") (auto simp: slots_fit_def)
    show ?thesis
      using p A True N this_le
      by (auto simp: createFunction_def Let_def ty callee_layout_def callee_slots_def[symmetric] result_pos_def
          result_type_def setIndex_def split: if_splits)
  next
    case False
    then have "(case Passed (Result s) of Indirect ty \<Rightarrow> g ty | _ \<Rightarrow> h) = h" for g and h :: "slot option list result"
      by (auto simp: isIndirect_def split: Passing.splits)
    with p A False getNumABIArgs_unat[OF n, of 0] show ?thesis
      by (auto simp: createFunction_def Let_def callee_layout_def callee_slots_def[symmetric] result_pos_def)
  qed
qed

lemma result_pos_cases:
  assumes "slots_fit hasThis s" "length xss = length (Args s)" "\<And>j. j < length xss \<Longrightarrow> length (xss ! j) = num_slots (Args s ! j)"
  shows "result_pos hasThis s = None \<or> result_pos hasThis s = Some 0
     \<or> (result_pos hasThis s = Some 1 \<and> (\<exists>a yss. xss = [a] # yss))"
proof -
  have "\<exists>a yss. xss = [a] # yss" if "isIndirect (Result s)" "hasThis"
  proof -
    have "Args s \<noteq> []" "num_slots (Args s ! 0) = 1"
      using that assms(1) by (auto simp: slots_fit_def hd_conv_nth)
    then obtain xs yss where "xss = xs # yss" "length xs = 1" using assms(2) assms(3)[of 0] by (cases xss) auto
    then show ?thesis by (cases xs) auto
  qed
  then show ?thesis unfolding result_pos_def by presburger
qed

lemma emitCall_eq:
  assumes "slots_fit (HasThis Signature) s" "length args = length (Args s)"
    and "special_slots IndirectionCell secretParam IsJmp = [] \<or> CallingConvention Signature = CORINFO_CALLCONV_DEFAULT"
    and "\<not> (IndirectionCell \<noteq> None \<and> IsJmp \<and> secretParam \<noteq> None)"
  shows "\<exists>cs. emitCall Signature s args IndirectionCell secretParam IsJmp = Inr cs
     \<and> cs_slots cs = map Some (special_slots IndirectionCell secretParam IsJmp @ caller_layout (HasThis Signature) IsJmp s args)
     \<and> cs_ret_attrs cs = ret_attrs (Result s)"
proof -
  let ?n = "sum_list (map num_slots (Args s))"
  let ?sp = "special_slots IndirectionCell secretParam IsJmp"
  let ?pos = "result_pos (HasThis Signature) s" and ?xss = "caller_slots IsJmp s args"
  let ?x = "(if IsJmp then getManagedPointerType (result_type s) else getUnmanagedPointerType (result_type s), [], ResultBuffer) :: slot"
  let ?k = "if IndirectionCell \<noteq> None \<or> (IsJmp \<and> secretParam \<noteq> None) then 1 else 0 :: u32"
  have n: "?n + 3 < 2 ^ 32" using assms by (simp add: slots_fit_def)
  have "length (concat ?xss) = sum_list (map (num_slots \<circ> fst) (zip (Args s) args))"
    unfolding caller_slots_def by (rule length_concat_slots) simp
  then have len: "length (concat ?xss) = ?n" using assms(2) by (simp flip: map_map)
  have pos: "?pos = None \<or> ?pos = Some 0 \<or> (?pos = Some 1 \<and> (\<exists>a yss. ?xss = [a] # yss))"
    by (rule result_pos_cases[OF assms(1)]) (use assms(2) in \<open>simp_all add: caller_slots_def nth_enumerate_eq\<close>)
  have k: "length (map Some ?sp) = unat ?k" "unat ?k \<le> 1"
    by (auto simp: special_slots_def split: option.splits)
  obtain idxs where p: "place_arguments (map_option (\<lambda>k. ?k + of_nat k) ?pos) ?k ?xss
       (case ?pos of None \<Rightarrow> map Some ?sp @ replicate ?n None
        | Some k \<Rightarrow> (map Some ?sp @ replicate (Suc ?n) None)[unat ?k + k := Some ?x]) =
       Inr (map Some ?sp @ map Some (layout ?pos ?x ?xss), idxs)"
    using place_arguments_layout[OF pos k(1), of ?x] k(2) n unfolding len by auto
  have one: "(if IndirectionCell \<noteq> None then 1 else 0) + (if CallingConvention Signature \<noteq> CORINFO_CALLCONV_DEFAULT then 1 else 0)
     + (if IsJmp \<and> secretParam \<noteq> None then 1 else 0) \<le> (1 :: nat)"
    using assms(3,4) by (auto simp: special_slots_def split: option.splits if_splits)
  have N: "unat (getNumABIArgs s + ((if isIndirect (Result s) then 1 else 0) + ?k)) = unat ?k + (?n + of_bool (isIndirect (Result s)))"
    by (subst getNumABIArgs_unat[OF n]) auto
  define ts1 where "ts1 = map Some ?sp @ replicate (?n + of_bool (isIndirect (Result s))) None"
  have ts1: "(case IndirectionCell of
               Some ty \<Rightarrow> array_put ''Arguments'' (replicate (unat ?k + (?n + of_bool (isIndirect (Result s)))) None) 0 (Some (ty, [], SpecialArg))
             | None \<Rightarrow> if IsJmp \<and> secretParam \<noteq> None
                       then array_put ''Arguments'' (replicate (unat ?k + (?n + of_bool (isIndirect (Result s)))) None) 0 (Some (the secretParam, [], SpecialArg))
                       else Inr (replicate (unat ?k + (?n + of_bool (isIndirect (Result s)))) None)) = Inr ts1"
    by (auto simp: ts1_def special_slots_def split: option.splits)
  have ts2: "(case Passed (Result s) of
               Indirect ty \<Rightarrow> array_put ''Arguments'' ts1 (unat (the (map_option (\<lambda>k. ?k + of_nat k) ?pos)))
                 (Some (if IsJmp then getManagedPointerType ty else getUnmanagedPointerType ty, [], ResultBuffer))
             | _ \<Rightarrow> Inr ts1) =
     Inr (case ?pos of None \<Rightarrow> map Some ?sp @ replicate ?n None
        | Some k \<Rightarrow> (map Some ?sp @ replicate (Suc ?n) None)[unat ?k + k := Some ?x])"
  proof (cases "isIndirect (Result s)")
    case True
    then obtain ty where ty: "Passed (Result s) = Indirect ty" by (auto simp: Passed_Indirect)
    obtain j where j: "?pos = Some j" "j = 0 \<or> j = 1 \<and> 1 \<le> ?n"
      using True assms(1) by (cases "Args s") (auto simp: result_pos_def slots_fit_def)
    have "unat (?k + of_nat j) = unat ?k + j" using j(2) by auto
    then show ?thesis using True ty j k(1) by (auto simp: ts1_def result_type_def simp del: replicate_Suc)
  next
    case False
    then show ?thesis by (auto simp: ts1_def result_pos_def isIndirect_def split: Passing.splits)
  qed
  have ri: "(if isIndirect (Result s) then Some (?k + (if HasThis Signature then 1 else 0)) else None) = map_option (\<lambda>k. ?k + of_nat k) ?pos"
    by (simp add: result_pos_def)
  show ?thesis
    unfolding emitCall_def Let_def N ts1 ri
    using p one assms(2) by (simp only: rassert_simps rbind_simps ts1 ts2) (simp add: caller_layout_def caller_slots_def)
qed

lemma homes_append: "homes infos I (xs @ ys) = homes infos I xs @ homes infos (I + of_nat (length xs)) ys"
  by (induction xs arbitrary: I) (auto simp: algebra_simps)

lemma homes_parts:
  assumes "doesArgumentHaveHome (infos ! J)"
  shows "homes infos I (map (\<lambda>k. (g k, h k, Part J k)) ks) = map (\<lambda>i. (I + of_nat i, Part J (ks ! i))) [0..<length ks]"
proof (induction ks arbitrary: I)
  case (Cons k ks)
  have "[0..<length (k # ks)] = 0 # map Suc [0..<length ks]" by (simp add: upt_conv_Cons map_Suc_upt del: upt_Suc)
  then show ?case using assms by (simp add: Cons.IH source_def algebra_simps o_def)
qed simp

lemma create_slots_nonempty: "homeable a \<Longrightarrow> create_slots J a \<noteq> []"
  by (auto simp: homeable_def create_slots_def expand_slots_def split: Passing.splits)

lemma home_step:
  assumes "J < length infos" "homeable (infos ! J)" "ResultIndex \<noteq> Some I"
  shows "home_loop ResultIndex infos I J (create_slots J (infos ! J) @ rest) =
    rbind (home_loop ResultIndex infos (I + of_nat (num_slots (infos ! J))) (J + 1) rest) (\<lambda>hs.
      Inr (homes infos I (create_slots J (infos ! J)) @ hs))"
proof -
  obtain x xs where cons: "create_slots J (infos ! J) = x # xs"
    using create_slots_nonempty[OF assms(2)] by (cases "create_slots J (infos ! J)") auto
  have id: "rbind m (\<lambda>hs. Inr hs) = m" for m :: "(u32 \<times> slot_source) list result" by (cases m) auto
  show ?thesis
  proof (cases "Passed (infos ! J)")
    case (Expand es)
    have "homes infos I (create_slots J (infos ! J)) = map (\<lambda>k. (I + of_nat k, Part J k)) [0..<length es]"
      unfolding create_slots_def Expand Passing.case expand_slots_def
      by (subst homes_parts) (auto simp: doesArgumentHaveHome_def Expand)
    moreover have "es \<noteq> []" using assms(2) Expand by (simp add: homeable_def)
    moreover have len: "length (x # xs) = length es" using length_slots(1)[of J "infos ! J"] cons Expand by (simp add: num_slots_def)
    moreover have "drop (length es) (x # xs @ rest) = rest" by (simp flip: len)
    ultimately show ?thesis
      using assms cons Expand by (subst home_loop.simps) (auto simp: num_slots_def split: prod.split)
  qed (use assms in \<open>subst home_loop.simps, auto simp: create_slots_def direct_slot_def num_slots_def homeable_def source_def
         doesArgumentHaveHome_def id\<close>)+
qed

lemma home_loop_behind:
  assumes "\<forall>r. ResultIndex = Some r \<longrightarrow> unat r < unat I" "\<forall>a \<in> set (drop J infos). homeable a"
    and "slots = concat (map (\<lambda>(j, a). create_slots j a) (enumerate J (drop J infos)))"
    and "unat I + length slots < 2 ^ 32" "J \<le> length infos"
  shows "home_loop ResultIndex infos I J slots = Inr (homes infos I slots)"
  using assms
proof (induction "length infos - J" arbitrary: I J slots)
  case 0
  then show ?case by (subst home_loop.simps) simp
next
  case (Suc n)
  then have J: "J < length infos" by simp
  have d: "drop J infos = infos ! J # drop (Suc J) infos" using J by (simp add: Cons_nth_drop_Suc)
  let ?rest = "concat (map (\<lambda>(j, a). create_slots j a) (enumerate (Suc J) (drop (Suc J) infos)))"
  have slots: "slots = create_slots J (infos ! J) @ ?rest" using Suc.prems(3) by (simp add: d)
  let ?I = "I + of_nat (num_slots (infos ! J))"
  have I: "unat ?I = unat I + num_slots (infos ! J)"
    using Suc.prems(4) slots by (subst unat_add_no_wrap) (auto simp: unat_of_nat)
  have ne: "ResultIndex \<noteq> Some I" using Suc.prems(1) by auto
  have "home_loop ResultIndex infos ?I (Suc J) ?rest = Inr (homes infos ?I ?rest)"
    by (rule Suc.hyps(1)) (use Suc.hyps(2) Suc.prems I J slots d in auto)
  then show ?case
    using home_step[OF J _ ne, of ?rest] Suc.prems(2) d by (simp add: slots homes_append)
qed

lemma home_loop_layout:
  assumes "slots_fit hasThis s" "\<forall>a \<in> set (Args s). homeable a"
    and "ResultIndex = map_option of_nat (result_pos hasThis s)"
  shows "home_loop ResultIndex (Args s) 0 0 (callee_layout hasThis s) = Inr (homes (Args s) 0 (callee_layout hasThis s))"
proof -
  let ?infos = "Args s" and ?x = "(getManagedPointerType (result_type s), [], ResultBuffer) :: slot"
  have len: "length (concat (callee_slots s)) + 3 < 2 ^ 32"
    using assms(1) unfolding callee_slots_def by (subst length_concat_slots[where g = num_slots]) (auto simp: slots_fit_def)
  have skip: "home_loop (Some r) ?infos r J (?x # rest) = home_loop (Some r) ?infos (r + 1) J rest" for r J rest
    by (subst home_loop.simps) simp
  have pos: "result_pos hasThis s = None \<or> result_pos hasThis s = Some 0
     \<or> (result_pos hasThis s = Some 1 \<and> (\<exists>a yss. callee_slots s = [a] # yss))"
    by (rule result_pos_cases[OF assms(1)]) (simp_all add: callee_slots_def nth_enumerate_eq)
  consider "result_pos hasThis s = None" | "result_pos hasThis s = Some 0"
    | a yss where "result_pos hasThis s = Some 1" "callee_slots s = [a] # yss" using pos by metis
  then show ?thesis
  proof cases
    case 1
    then show ?thesis
      using home_loop_behind[of ResultIndex 0 0 ?infos "concat (callee_slots s)"] assms len
      by (simp add: callee_layout_def layout_def callee_slots_def)
  next
    case 2
    then show ?thesis
      using home_loop_behind[of ResultIndex 1 0 ?infos "concat (callee_slots s)"] assms len skip[of 0]
      by (simp add: callee_layout_def layout_def callee_slots_def source_def)
  next
    case 3
    obtain b bs where b: "?infos = b # bs" "create_slots 0 b = [a]"
      using 3(2) by (cases ?infos) (auto simp: callee_slots_def)
    let ?rest = "concat (map (\<lambda>(j, a). create_slots j a) (enumerate 1 bs))"
    have yss: "concat yss = ?rest" using 3(2) b by (simp add: callee_slots_def)
    have L: "callee_layout hasThis s = [a] @ ?x # ?rest" using 3 yss by (simp add: callee_layout_def layout_def)
    have "num_slots b = 1" using b(2) length_slots(1)[of 0 b] by simp
    then have "home_loop ResultIndex ?infos 0 0 (create_slots 0 b @ ?x # ?rest) =
       rbind (home_loop ResultIndex ?infos 1 1 (?x # ?rest)) (\<lambda>hs. Inr (homes ?infos 0 [a] @ hs))"
      using home_step[of 0 ?infos ResultIndex 0 "?x # ?rest"] b assms(2,3) 3(1) by simp
    moreover have "home_loop ResultIndex ?infos 1 1 (?x # ?rest) = Inr (homes ?infos 2 ?rest)"
      using home_loop_behind[of ResultIndex 2 1 ?infos ?rest] assms(2,3) 3 b len yss skip[of 1] by simp
    ultimately show ?thesis unfolding L b(2) by (simp add: source_def)
  qed
qed

subsection \<open>Signatures of methods fit\<close>

lemma cc_supported:
  "getLLVMCallingConv (getNormalizedCallingConvention cc) = (CC_C, cc = CORINFO_CALLCONV_DEFAULT)"
  by (cases cc) (simp_all add: getLLVMCallingConv_def getNormalizedCallingConvention_def)

lemma abi_types_nth:
  assumes "abi_types getType as = Inr ts"
  shows "length ts = length as"
    and "i < length as \<Longrightarrow> TheType (ts ! i) = getType (CorType (as ! i)) (Class (as ! i))"
  using assms by (induction as arbitrary: ts i) (auto simp: rbind_eq_Inr_iff abi_type_def nth_Cons split: nat.splits)

lemma ABISignature_new_args:
  assumes "ABISignature_new getType info s = Inr a"
  shows "\<exists>managed r ts. abi_types getType (ArgumentTypes s) = Inr ts
     \<and> computeSignatureInfo info CC_C managed r ts = Inr (Result a, Args a)"
  using assms by (auto simp: ABISignature_new_def rbind_eq_Inr_iff cc_supported) blast

lemma num_slots_length: "num_slots info = length (passed_types (Passed info))"
  by (auto simp: num_slots_def split: Passing.splits)

lemma classified_slots_bound:
  assumes "computeSignatureInfo info cc managed r args = Inr (ri, infos)" "i < length args"
  shows "num_slots (infos ! i) \<le> 255"
proof -
  have one: "num_slots x \<le> 255" if "\<not> isExpand x" for x
    using that by (auto simp: num_slots_def isExpand_def split: Passing.splits)
  have sysv: "num_slots x \<le> 255" if x: "SysV_classifyArgument env m a = Inr (x, req)" for x env m a req
  proof (cases "isExpand x")
    case True
    have agg: "isAggregateType (TheType a) \<or> isVectorTy (TheType a)"
      using SysV_classify_regs(3)[of env m a x "fst req" "snd req"] x True by (simp add: SysV_classifyArgument_def)
    with x True obtain D where "eightbyte_loop D 0 0 0 [] = Inr (x, fst req, snd req)"
      by (auto simp: SysV_classifyArgument_def SysV_classify_def Let_def rbind_eq_Inr_iff split: option.splits if_splits)
    from eightbyte_loop_counts[OF this] obtain es where "x = getExpand es" "length es = unat (eightByteCount D)" by auto
    then show ?thesis using unat_bound_u8[of "eightByteCount D"] by (simp add: num_slots_def getExpand_def)
  qed (rule one)
  show ?thesis
  proof (cases "isExpand (infos ! i)")
    case True
    have "\<not> isExpand (infos ! i)" if "Win64_computeSignatureInfo (TheEnv info) managed r args = Inr (ri, infos)"
      using that assms(2) Win64_classify_shape(1)
      by (auto simp: Win64_computeSignatureInfo_def rbind_eq_Inr_iff Win64_arguments_classify)
    with True assms(1) have s: "SysV_computeSignatureInfo (TheEnv info) managed r args = Inr (ri, infos)"
      by (auto simp: computeSignatureInfo_def Let_def split: if_splits)
    from SysV_infos(2)[OF s assms(2)] True sysv show ?thesis
      by (auto simp: assigned_def split: if_splits)
  qed (rule one)
qed

lemma sum_list_bounded: "\<forall>x \<in> set xs. f x \<le> b \<Longrightarrow> sum_list (map f xs) \<le> length xs * (b :: nat)"
  by (induction xs) auto

lemma signature_slots_fit:
  assumes "initMethodInfo EE si secret = Inr Signature" "unat (numArgs si) < 2 ^ 16"
    and "ABISignature_new getType info Signature = Inr s" "scalar_this getType"
  shows "slots_fit (HasThis Signature) s" "length (Args s) = length (ArgumentTypes Signature)"
proof -
  obtain managed r ts where c: "abi_types getType (ArgumentTypes Signature) = Inr ts"
    "computeSignatureInfo info CC_C managed r ts = Inr (Result s, Args s)"
    using ABISignature_new_args[OF assms(3)] by blast
  have len: "length (Args s) = length (ArgumentTypes Signature)"
    using x64.one_info_per_argument[OF c(2)] abi_types_nth(1)[OF c(1)] by simp
  then show "length (Args s) = length (ArgumentTypes Signature)" .
  have "length (special_types EE si secret) \<le> 4" by (simp add: special_types_def)
  moreover have args: "ArgumentTypes Signature = special_types EE si secret @ metadata_types EE (sig_args si) (unat (numArgs si))"
    using assms(1) by (auto simp: initMethodInfo_eq[OF assms(2)])
  ultimately have n: "length (ArgumentTypes Signature) \<le> 4 + 2 ^ 16" using assms(2) by simp
  have "\<forall>a \<in> set (Args s). num_slots a \<le> 255"
    using classified_slots_bound[OF c(2)] x64.one_info_per_argument[OF c(2)] by (auto simp: in_set_conv_nth)
  then have "sum_list (map num_slots (Args s)) \<le> length (Args s) * 255"
    by (rule sum_list_bounded)
  then have small: "sum_list (map num_slots (Args s)) + 3 < 2 ^ 32" using n len by simp
  have "Args s \<noteq> [] \<and> num_slots (hd (Args s)) = 1" if "HasThis Signature"
  proof -
    have has_this: "sig_hasThis si" using assms(1) that by (auto simp: initMethodInfo_eq[OF assms(2)])
    have "\<exists>t rest. special_types EE si secret = t # rest
        \<and> CorType t \<in> {CORINFO_TYPE_CLASS, CORINFO_TYPE_BYREF, CORINFO_TYPE_NATIVEINT}"
      using has_this by (cases secret) (simp_all add: special_types_def)
    then have first: "ArgumentTypes Signature \<noteq> []"
        "CorType (ArgumentTypes Signature ! 0) \<in> {CORINFO_TYPE_CLASS, CORINFO_TYPE_BYREF, CORINFO_TYPE_NATIVEINT}"
      using args by auto
    then have "\<not> isAggregateType (TheType (ts ! 0)) \<and> \<not> isVectorTy (TheType (ts ! 0))"
      using abi_types_nth(2)[OF c(1), of 0] assms(4) by (auto simp: scalar_this_def)
    then have "num_slots (Args s ! 0) = 1"
      using x64.scalar_single_slot[OF c(2), of 0] first(1) abi_types_nth(1)[OF c(1)] by (simp add: num_slots_length)
    moreover have "Args s \<noteq> []" using first(1) len by auto
    ultimately show ?thesis by (simp add: hd_conv_nth)
  qed
  then show "slots_fit (HasThis Signature) s" using small by (simp add: slots_fit_def)
qed

lemma call_create_slots:
  assumes "homeable (fst a)" "\<not> isIndirect (fst a)"
  shows "call_slots j J a = create_slots J (fst a)"
  using assms by (auto simp: call_slots_def create_slots_def call_direct_slot_def direct_slot_def homeable_def
      isIndirect_def Let_def split: Passing.splits)

lemma call_create_sources:
  assumes "homeable (fst a)"
  shows "map source (call_slots j J a) = map source (create_slots J (fst a))"
    and "map (fst \<circ> snd) (call_slots j J a) = map (fst \<circ> snd) (create_slots J (fst a))"
  using assms by (auto simp: call_slots_def create_slots_def call_direct_slot_def direct_slot_def homeable_def source_def
      Let_def split: Passing.splits)

lemma layout_map: "map f (layout pos x xss) = layout pos (f x) (map (map f) xss)"
  by (cases pos) (simp_all add: layout_def flip: map_concat take_map drop_map)

lemma slots_map_eq:
  assumes "\<forall>a \<in> set (Args s). homeable a" "length args = length (Args s)"
    and "\<And>J a. homeable (fst a) \<Longrightarrow> map f (call_slots j J a) = map f (create_slots J (fst a))"
  shows "map (map f) (caller_slots j s args) = map (map f) (callee_slots s)"
  using assms(1,2)
  by (auto intro!: nth_equalityI simp: caller_slots_def callee_slots_def nth_enumerate_eq assms(3))

subsection \<open>Properties\<close>


lemma sample_method_eq:
  "initMethodInfo sample_EE sample_sig False = Inr sample_method"
  "HasThis sample_method" "CallingConvention sample_method = CORINFO_CALLCONV_DEFAULT"
  "ResultType sample_method = \<lparr>CorType = CORINFO_TYPE_VOID, Class = None\<rparr>"
  "ArgumentTypes sample_method = [\<lparr>CorType = CORINFO_TYPE_BYREF, Class = Some 7\<rparr>,
     \<lparr>CorType = CORINFO_TYPE_INT, Class = None\<rparr>, \<lparr>CorType = CORINFO_TYPE_VALUECLASS, Class = Some 1\<rparr>]"
proof -
  have n: "unat (numArgs sample_sig) = Suc (Suc 0)" by (simp add: sample_sig_def)
  have e: "initMethodInfo sample_EE sample_sig False =
    Inr \<lparr>HasThis = True, CallingConvention = CORINFO_CALLCONV_DEFAULT,
      ResultType = \<lparr>CorType = CORINFO_TYPE_VOID, Class = None\<rparr>,
      ArgumentTypes = [\<lparr>CorType = CORINFO_TYPE_BYREF, Class = Some 7\<rparr>,
        \<lparr>CorType = CORINFO_TYPE_INT, Class = None\<rparr>, \<lparr>CorType = CORINFO_TYPE_VALUECLASS, Class = Some 1\<rparr>],
      IsVarArg = False, HasTypeArg = False, HasSecretParameter = False\<rparr>"
    by (subst initMethodInfo_eq, simp_all add: n)
      (simp add: sample_EE_def sample_sig_def special_types_def argListNext_def)
  show "initMethodInfo sample_EE sample_sig False = Inr sample_method" by (simp add: sample_method_def e)
  show "HasThis sample_method" "CallingConvention sample_method = CORINFO_CALLCONV_DEFAULT"
    "ResultType sample_method = \<lparr>CorType = CORINFO_TYPE_VOID, Class = None\<rparr>"
    "ArgumentTypes sample_method = [\<lparr>CorType = CORINFO_TYPE_BYREF, Class = Some 7\<rparr>,
     \<lparr>CorType = CORINFO_TYPE_INT, Class = None\<rparr>, \<lparr>CorType = CORINFO_TYPE_VALUECLASS, Class = Some 1\<rparr>]"
    by (simp_all add: sample_method_def e)
qed

lemma sample_abi_eq: "ABISignature_new sample_getType sample_target sample_method = Inr sample_abi"
  by (simp add: ABISignature_new_def sample_method_eq abi_type_def isSignedIntegralType_def isSigned_def sample_getType_def
      cc_supported computeSignatureInfo_def sample_target_def SysV_computeSignatureInfo_def SysV_classifyResult_def
      SysV_classifyArgument_def SysV_classify_def Let_def sample_env_def eightbyte_loop.simps eightbyte_def extend_small_def
      sample_abi_def)
    (simp add: getDirect_def)

lemma sample_abi_ok: "slots_fit True sample_abi" "slots_fit False sample_abi" "\<forall>a \<in> set (Args sample_abi). homeable a"
  by (simp_all add: sample_abi_def slots_fit_def num_slots_def homeable_def constructor_defs isIndirect_def)



lemma passed_same:
  assumes "map Passed (Args s') = map Passed (Args s)" "Passed (Result s') = Passed (Result s)"
  shows "callee_layout t s' = callee_layout t s" "slots_fit t s' = slots_fit t s" "result_pos t s' = result_pos t s"
    "(\<forall>a \<in> set (Args s'). homeable a) \<longleftrightarrow> (\<forall>a \<in> set (Args s). homeable a)"
proof -
  have len: "length (Args s') = length (Args s)" using assms(1) by (metis length_map)
  have nth: "Passed (Args s' ! i) = Passed (Args s ! i)" if "i < length (Args s)" for i
    using assms(1) that len by (metis nth_map)
  have ind: "isIndirect (Result s') = isIndirect (Result s)" using assms(2) by (simp add: isIndirect_def)
  have slots: "callee_slots s' = callee_slots s"
    using len nth by (auto intro!: nth_equalityI simp: callee_slots_def nth_enumerate_eq create_slots_def)
  have num: "map num_slots (Args s') = map num_slots (Args s)"
    using len nth by (auto intro!: nth_equalityI simp: num_slots_def)
  then have hd: "num_slots (hd (Args s')) = num_slots (hd (Args s))" if "Args s \<noteq> []"
    using that len by (cases "Args s"; cases "Args s'") auto
  have ne: "Args s' = [] \<longleftrightarrow> Args s = []" using len by (metis length_0_conv)
  show pos: "result_pos t s' = result_pos t s" using ind by (simp add: result_pos_def)
  show "callee_layout t s' = callee_layout t s"
    using slots pos assms(2) by (simp add: callee_layout_def result_type_def)
  show "slots_fit t s' = slots_fit t s"
    using num hd ind ne by (auto simp: slots_fit_def)
  show "(\<forall>a \<in> set (Args s'). homeable a) \<longleftrightarrow> (\<forall>a \<in> set (Args s). homeable a)"
    using len nth by (simp add: all_set_conv_all_nth homeable_def)
qed




text \<open>A vector passed directly (System V, not in registers) breaks the agreement: \<open>emitCall\<close> passes
  a pointer to a copy with the \<open>byval\<close> attribute, but \<open>createFunction\<close> declares the slot with the
  vector type itself, and the homing loop then fails its assertion that the slot is a
  pointer.\<close>

theorem direct_vector_mismatch:
  assumes "slots_fit False s" "\<not> HasThis Signature" "\<not> isIndirect (Result s)" "Args s = v # infos"
    and "Passed v = Direct (VectorTy n t)"
  shows "\<exists>f s'. createFunction Signature s = Inr (f, s')
     \<and> fn_slots f ! 0 = Some (VectorTy n t, [], Part 0 0)
     \<and> call_slots False 0 (v, a) = [(PointerTy (VectorTy n t) 0, [ByVal], Part 0 0)]
     \<and> home_loop None (Args s') 0 0 (map the (fn_slots f)) = Inl (AssertFailed ''ArgI->getType() == ArgInfo.getType()*'')"
proof -
  obtain f s' where f: "createFunction Signature s = Inr (f, s')" "fn_slots f = map Some (callee_layout False s)"
    "map Passed (Args s') = map Passed (Args s)"
    using createFunction_eq[of Signature s] assms(1,2) by auto
  obtain rest where rest: "callee_layout False s = (VectorTy n t, [], Part 0 0) # rest"
    using assms(3-5) by (simp add: callee_layout_def layout_def result_pos_def callee_slots_def create_slots_def direct_slot_def)
  obtain v' infos' where "Args s' = v' # infos'" "Passed v' = Direct (VectorTy n t)"
    using f(3) assms(4,5) by (cases "Args s'") auto
  then have "home_loop None (Args s') 0 0 (map the (fn_slots f)) = Inl (AssertFailed ''ArgI->getType() == ArgInfo.getType()*'')"
    by (subst home_loop.simps) (simp add: f(2) rest o_def)
  moreover have "call_slots False 0 (v, a) = [(PointerTy (VectorTy n t) 0, [ByVal], Part 0 0)]"
    using assms(5) by (simp add: call_slots_def call_direct_slot_def)
  ultimately show ?thesis using f(1,2) rest by auto
qed

theorem direct_vector_mismatch_witness:
  "\<exists>f s'. createFunction (sample_method\<lparr>HasThis := False\<rparr>) (sample_abi\<lparr>Args := [getDirect (VectorTy 4 FloatTy)]\<rparr>) = Inr (f, s')
     \<and> home_loop None (Args s') 0 0 (map the (fn_slots f)) = Inl (AssertFailed ''ArgI->getType() == ArgInfo.getType()*'')"
  using direct_vector_mismatch[of "sample_abi\<lparr>Args := [getDirect (VectorTy 4 FloatTy)]\<rparr>" "sample_method\<lparr>HasThis := False\<rparr>"
      "getDirect (VectorTy 4 FloatTy)" "[]" 4 FloatTy]
  by (simp add: slots_fit_def num_slots_def sample_abi_def) (force simp: getDirect_def)

text \<open>In an IL stub that takes a secret parameter, has no \<open>this\<close> and returns its result indirectly,
  the secret parameter is declared in slot 1, behind the result pointer, but \<open>secretParam\<close> reads
  slot 0 and so yields the result pointer.\<close>

theorem secret_parameter_displaced:
  assumes "slots_fit False s" "\<not> HasThis Signature" "HasSecretParameter Signature" "isIndirect (Result s)"
    and "Args s = p # infos" "Passed p = Direct (IntegerTy 64)"
  shows "\<exists>f s'. createFunction Signature s = Inr (f, s')
     \<and> fn_slots f ! 1 = Some (IntegerTy 64, [], Part 0 0)
     \<and> secretParam_slot Signature f = Inr (Some (getManagedPointerType (result_type s), [], ResultBuffer))"
proof -
  obtain f s' where f: "createFunction Signature s = Inr (f, s')" "fn_slots f = map Some (callee_layout False s)"
    using createFunction_eq[of Signature s] assms(1,2) by auto
  obtain rest where "callee_layout False s =
      (getManagedPointerType (result_type s), [], ResultBuffer) # (IntegerTy 64, [], Part 0 0) # rest"
    using assms(4-6) by (simp add: callee_layout_def layout_def result_pos_def callee_slots_def create_slots_def direct_slot_def)
  then show ?thesis using f assms(3) by (auto simp: secretParam_slot_def getSecretParameterIndex_def)
qed

theorem secret_parameter_displaced_witness:
  "\<exists>f s'. createFunction (sample_method\<lparr>HasThis := False, HasSecretParameter := True\<rparr>)
       (sample_abi\<lparr>Result := getIndirect (StructTy ''Big'' []), Args := [getDirect (IntegerTy 64)]\<rparr>) = Inr (f, s')
     \<and> fn_slots f ! 1 = Some (IntegerTy 64, [], Part 0 0)"
  using secret_parameter_displaced[of "sample_abi\<lparr>Result := getIndirect (StructTy ''Big'' []), Args := [getDirect (IntegerTy 64)]\<rparr>"
      "sample_method\<lparr>HasThis := False, HasSecretParameter := True\<rparr>" "getDirect (IntegerTy 64)" "[]"]
  by (simp add: slots_fit_def num_slots_def) (force simp: getDirect_def)

end
