(* ===== verification/EHRegion.thy ===== *)
theory EHRegion
  imports Prelude "HOL-Library.Multiset"
begin

section \<open>The tree of exception-handling regions\<close>

text \<open>
  \<open>ReaderBase::rgnCreateRegionTree\<close> and the functions around it (lib/Reader/reader.cpp), with the
  region objects of lib/Reader/readerir.cpp. Regions are mutable objects that point at each
  other, so the model has a heap: the list of the allocated regions, a pointer to a region being
  its position. A region is allocated behind its parent, so the recursive searches end
  within as many calls as there are regions, which is the fuel the callers give them; a search
  that runs out of fuel yields \<open>None\<close>.
\<close>

subsection \<open>Data\<close>

datatype RegionKind = RGN_Root | RGN_Try | RGN_Fault | RGN_Finally | RGN_Filter | RGN_MExcept | RGN_MCatch

type_synonym region_ptr = nat

record EHRegion =
  Parent :: "region_ptr option"
  Children :: "region_ptr list"
  StartMsilOffset :: u32
  EndMsilOffset :: u32
  EntryRegion :: "region_ptr option"     \<comment> \<open>only for try regions\<close>
  CatchClassToken :: u32                 \<comment> \<open>only for catch regions\<close>
  HandlerRegion :: "region_ptr option"   \<comment> \<open>only for filter regions\<close>
  Kind :: RegionKind

type_synonym heap = "EHRegion list"

text \<open>An exception clause as \<open>JitInfo->getEHinfo\<close> reports it; the class token and the offset of the
  filter share a field.\<close>

record CORINFO_EH_CLAUSE =
  FlagFilter :: bool
  FlagFinally :: bool
  FlagFault :: bool
  TryOffset :: u32
  TryLength :: u32
  HandlerOffset :: u32
  HandlerLength :: u32
  ClassTokenOrFilterOffset :: u32

text \<open>Memory from \<open>rgnAllocateRegion\<close> is cleared.\<close>

definition cleared_region :: EHRegion where
  "cleared_region = \<lparr>Parent = None, Children = [], StartMsilOffset = 0, EndMsilOffset = 0, EntryRegion = None,
     CatchClassToken = 0, HandlerRegion = None, Kind = RGN_Root\<rparr>"

subsection \<open>Queries\<close>

definition rgnIsOutsideParent :: "heap \<Rightarrow> region_ptr \<Rightarrow> bool" where
  "rgnIsOutsideParent h r = (Kind (h ! r) \<in> {RGN_Fault, RGN_Finally, RGN_Filter, RGN_MExcept, RGN_MCatch})"

definition rgnGetEnclosingAncestor :: "heap \<Rightarrow> region_ptr \<Rightarrow> region_ptr option" where
  "rgnGetEnclosingAncestor h r =
     (let OuterRegion = Parent (h ! r) in
      if rgnIsOutsideParent h r then (case OuterRegion of Some p \<Rightarrow> Parent (h ! p) | None \<Rightarrow> None) else OuterRegion)"

definition rgnRangeIsEnclosedInRegion :: "u32 \<Rightarrow> u32 \<Rightarrow> EHRegion \<Rightarrow> bool" where
  "rgnRangeIsEnclosedInRegion StartOffset EndOffset Region =
     (StartMsilOffset Region \<le> StartOffset \<and> EndOffset - 1 < EndMsilOffset Region)"

text \<open>
  The loop of \<open>rgnFindLowestEnclosingRegion\<close> over the children of a region: a try region that
  encloses the range ends it; of any other try region the handlers are searched, and the loop
  goes on. \<open>search\<close> is the recursive call.
\<close>

fun search_children ::
    "(region_ptr \<Rightarrow> region_ptr option) \<Rightarrow> heap \<Rightarrow> u32 \<Rightarrow> u32 \<Rightarrow> region_ptr list \<Rightarrow> region_ptr option \<Rightarrow>
     region_ptr option option" where
  "search_children search h s e [] RetVal = Some RetVal"
| "search_children search h s e (TryChild # List) RetVal =
     (if Kind (h ! TryChild) = RGN_Try \<and> rgnRangeIsEnclosedInRegion s e (h ! TryChild)
      then map_option Some (search TryChild)
      else if Kind (h ! TryChild) = RGN_Try
      then (case find (\<lambda>c. Kind (h ! c) \<noteq> RGN_Try \<and> rgnRangeIsEnclosedInRegion s e (h ! c)) (Children (h ! TryChild)) of
              Some HandlerChild \<Rightarrow>
                (case search HandlerChild of
                   None \<Rightarrow> None
                 | Some r \<Rightarrow> search_children search h s e List (Some r))
            | None \<Rightarrow> search_children search h s e List RetVal)
      else search_children search h s e List RetVal)"

fun rgnFindLowestEnclosingRegion :: "nat \<Rightarrow> heap \<Rightarrow> u32 \<Rightarrow> u32 \<Rightarrow> region_ptr \<Rightarrow> region_ptr option" where
  "rgnFindLowestEnclosingRegion 0 h s e RegionTree = None"
| "rgnFindLowestEnclosingRegion (Suc fuel) h s e RegionTree =
     (case search_children (rgnFindLowestEnclosingRegion fuel h s e) h s e (Children (h ! RegionTree)) None of
        None \<Rightarrow> None
      | Some None \<Rightarrow> Some RegionTree
      | Some (Some r) \<Rightarrow> Some r)"

subsection \<open>Building the tree\<close>

definition rgnPushRegionChild :: "region_ptr \<Rightarrow> region_ptr \<Rightarrow> heap \<Rightarrow> heap" where
  "rgnPushRegionChild p c h = h[p := (h ! p)\<lparr>Children := c # Children (h ! p)\<rparr>]"

text \<open>
  A new region goes to the end of the heap. The list \<open>AllRegionList\<close>, on which each new region
  is pushed, is therefore the heap from its end to its start.
\<close>

definition rgnMakeRegion :: "RegionKind \<Rightarrow> region_ptr option \<Rightarrow> heap \<Rightarrow> heap \<times> region_ptr" where
  "rgnMakeRegion Type parent h =
     (let Result = length h; h1 = h @ [cleared_region\<lparr>Kind := Type, Parent := parent, Children := []\<rparr>] in
      (case parent of Some p \<Rightarrow> rgnPushRegionChild p Result h1 | None \<Rightarrow> h1, Result))"

definition AllRegionList :: "heap \<Rightarrow> region_ptr list" where
  "AllRegionList h = rev [0..<length h]"

definition set_range :: "region_ptr \<Rightarrow> u32 \<Rightarrow> u32 \<Rightarrow> heap \<Rightarrow> heap" where
  "set_range r s e h = h[r := (h ! r)\<lparr>StartMsilOffset := s, EndMsilOffset := e\<rparr>]"

definition rgnSetEntryRegion :: "region_ptr \<Rightarrow> region_ptr \<Rightarrow> heap \<Rightarrow> heap" where
  "rgnSetEntryRegion t e h = h[t := (h ! t)\<lparr>EntryRegion := Some e\<rparr>]"

definition rgnSetFilterHandlerRegion :: "region_ptr \<Rightarrow> region_ptr \<Rightarrow> heap \<Rightarrow> heap" where
  "rgnSetFilterHandlerRegion f handler h = h[f := (h ! f)\<lparr>HandlerRegion := Some handler\<rparr>]"

definition rgnSetCatchClassToken :: "region_ptr \<Rightarrow> u32 \<Rightarrow> heap \<Rightarrow> heap" where
  "rgnSetCatchClassToken c t h = h[c := (h ! c)\<lparr>CatchClassToken := t\<rparr>]"

definition clauseXInsideY :: "CORINFO_EH_CLAUSE \<Rightarrow> CORINFO_EH_CLAUSE \<Rightarrow> bool" where
  "clauseXInsideY X Y =
     ((TryOffset Y \<le> TryOffset X \<and> TryOffset X + TryLength X \<le> TryOffset Y + TryLength Y
         \<and> TryLength X \<noteq> TryLength Y)
      \<or> (HandlerOffset Y \<le> TryOffset X \<and> TryOffset X + TryLength X \<le> HandlerOffset Y + HandlerLength Y
         \<and> TryLength X \<noteq> HandlerLength Y))"

definition clauseLessThan :: "CORINFO_EH_CLAUSE \<Rightarrow> CORINFO_EH_CLAUSE \<Rightarrow> bool" where
  "clauseLessThan Lhs Rhs = clauseXInsideY Lhs Rhs"

text \<open>
  The insertion sort: the key moves in front of the first clause of the sorted prefix it is
  inside of.
\<close>

fun insert_clause :: "CORINFO_EH_CLAUSE \<Rightarrow> CORINFO_EH_CLAUSE list \<Rightarrow> CORINFO_EH_CLAUSE list" where
  "insert_clause Key [] = [Key]"
| "insert_clause Key (c # cs) = (if clauseLessThan Key c then Key # c # cs else c # insert_clause Key cs)"

definition sort_clauses :: "CORINFO_EH_CLAUSE list \<Rightarrow> CORINFO_EH_CLAUSE list" where
  "sort_clauses cs = foldl (\<lambda>sorted Key. insert_clause Key sorted) [] cs"

text \<open>The check behind the sort: \<open>clauseSortFunction\<close> answers -1 for every pair in order.\<close>

fun clauses_in_order :: "CORINFO_EH_CLAUSE list \<Rightarrow> bool" where
  "clauses_in_order [] = True"
| "clauses_in_order (c # cs) =
     (list_all (\<lambda>d. clauseXInsideY c d \<or> \<not> clauseXInsideY d c) cs \<and> clauses_in_order cs)"

text \<open>The handler of a clause: its region and the region to compare with the entry of the try.\<close>

definition add_handler :: "region_ptr \<Rightarrow> CORINFO_EH_CLAUSE \<Rightarrow> heap \<Rightarrow> heap \<times> region_ptr \<times> region_ptr" where
  "add_handler RegionTry c h =
     (if FlagFilter c then
        (case rgnMakeRegion RGN_MExcept (Some RegionTry) h of (h1, RegionHandler) \<Rightarrow>
         case rgnMakeRegion RGN_Filter (Some RegionTry) h1 of (h2, RegionFilter) \<Rightarrow>
           (set_range RegionFilter (ClassTokenOrFilterOffset c) (HandlerOffset c)
              (rgnSetFilterHandlerRegion RegionFilter RegionHandler h2), RegionHandler, RegionFilter))
      else if FlagFinally c then
        (case rgnMakeRegion RGN_Finally (Some RegionTry) h of (h1, RegionHandler) \<Rightarrow> (h1, RegionHandler, RegionHandler))
      else if FlagFault c then
        (case rgnMakeRegion RGN_Fault (Some RegionTry) h of (h1, RegionHandler) \<Rightarrow> (h1, RegionHandler, RegionHandler))
      else
        (case rgnMakeRegion RGN_MCatch (Some RegionTry) h of (h1, RegionHandler) \<Rightarrow>
           (rgnSetCatchClassToken RegionHandler (ClassTokenOrFilterOffset c) h1, RegionHandler, RegionHandler)))"

text \<open>The try region of a clause: an existing one with the same range, or a new one.\<close>

definition find_or_make_try :: "region_ptr \<Rightarrow> CORINFO_EH_CLAUSE \<Rightarrow> heap \<Rightarrow> heap \<times> region_ptr" where
  "find_or_make_try EnclosingRegion c h =
     (let e = h ! EnclosingRegion in
      if Kind e = RGN_Try \<and> TryOffset c = StartMsilOffset e \<and> TryOffset c + TryLength c = EndMsilOffset e
      then (h, EnclosingRegion)
      else case rgnMakeRegion RGN_Try (Some EnclosingRegion) h of (h1, RegionTry) \<Rightarrow>
        (rgnSetEntryRegion RegionTry RegionTry (set_range RegionTry (TryOffset c) (TryOffset c + TryLength c) h1), RegionTry))"

text \<open>One round of the loop over the clauses.\<close>

definition add_clause :: "CORINFO_EH_CLAUSE \<Rightarrow> heap \<Rightarrow> heap option" where
  "add_clause c h =
     (case rgnFindLowestEnclosingRegion (length h) h (TryOffset c) (TryOffset c + TryLength c) 0 of
        None \<Rightarrow> None
      | Some EnclosingRegion \<Rightarrow>
          (case find_or_make_try EnclosingRegion c h of (h1, RegionTry) \<Rightarrow>
           case add_handler RegionTry c h1 of (h2, RegionHandler, CheckEntryRegion) \<Rightarrow>
           let h3 = set_range RegionHandler (HandlerOffset c) (HandlerOffset c + HandlerLength c) h2 in
           case EntryRegion (h3 ! RegionTry) of
             None \<Rightarrow> None
           | Some entry \<Rightarrow>
               Some (if StartMsilOffset (h3 ! CheckEntryRegion) < StartMsilOffset (h3 ! entry)
                     then rgnSetEntryRegion RegionTry CheckEntryRegion h3 else h3)))"

fun add_clauses :: "CORINFO_EH_CLAUSE list \<Rightarrow> heap \<Rightarrow> heap option" where
  "add_clauses [] h = Some h"
| "add_clauses (c # cs) h = (case add_clause c h of None \<Rightarrow> None | Some h' \<Rightarrow> add_clauses cs h')"

definition root_heap :: "u32 \<Rightarrow> heap" where
  "root_heap ILCodeSize = (let h = fst (rgnMakeRegion RGN_Root None []) in h[0 := (h ! 0)\<lparr>EndMsilOffset := ILCodeSize\<rparr>])"

text \<open>
  \<open>rgnCreateRegionTree\<close>: no clauses, no tree (the empty heap); otherwise the clauses are sorted and
  added from the last to the first, below the root at address 0.
\<close>

definition rgnCreateRegionTree :: "u32 \<Rightarrow> CORINFO_EH_CLAUSE list \<Rightarrow> heap option" where
  "rgnCreateRegionTree ILCodeSize clauses =
     (if clauses = [] then Some [] else add_clauses (rev (sort_clauses clauses)) (root_heap ILCodeSize))"

subsection \<open>Using the tree\<close>

definition contains_offset :: "EHRegion \<Rightarrow> u32 \<Rightarrow> bool" where
  "contains_offset r Offset = (Offset < EndMsilOffset r \<and> StartMsilOffset r \<le> Offset)"

fun inner_enclosing :: "heap \<Rightarrow> u32 \<Rightarrow> region_ptr list \<Rightarrow> region_ptr option" where
  "inner_enclosing h Offset [] = None"
| "inner_enclosing h Offset (Child # List) =
     (if contains_offset (h ! Child) Offset then Some Child
      else if Kind (h ! Child) = RGN_Try
      then (case find (\<lambda>g. contains_offset (h ! g) Offset) (Children (h ! Child)) of
              Some Grandchild \<Rightarrow> Some Grandchild
            | None \<Rightarrow> inner_enclosing h Offset List)
      else inner_enclosing h Offset List)"

definition getInnerEnclosingRegion :: "heap \<Rightarrow> region_ptr \<Rightarrow> u32 \<Rightarrow> region_ptr option" where
  "getInnerEnclosingRegion h OuterRegion Offset = inner_enclosing h Offset (Children (h ! OuterRegion))"

text \<open>The walk from the root inwards; the outer option is the fuel.\<close>

fun innermost_walk :: "nat \<Rightarrow> heap \<Rightarrow> u32 \<Rightarrow> region_ptr option \<Rightarrow> region_ptr option \<Rightarrow> region_ptr option option" where
  "innermost_walk 0 h Offset TestRegion Innermost = None"
| "innermost_walk (Suc fuel) h Offset TestRegion Innermost =
     (case TestRegion of
        None \<Rightarrow> Some Innermost
      | Some r \<Rightarrow>
          innermost_walk fuel h Offset (getInnerEnclosingRegion h r Offset)
            (if Kind (h ! r) = RGN_Fault \<or> Kind (h ! r) = RGN_Finally then Some r else Innermost))"

definition getInnermostFaultOrFinallyRegion :: "heap \<Rightarrow> u32 \<Rightarrow> region_ptr option option" where
  "getInnermostFaultOrFinallyRegion h Offset =
     innermost_walk (length h + 1) h Offset (if h = [] then None else Some 0) None"

text \<open>The scan of all regions for the smallest one that contains an offset.\<close>

fun smallest_region :: "heap \<Rightarrow> u32 \<Rightarrow> region_ptr list \<Rightarrow> region_ptr option \<Rightarrow> u32 \<Rightarrow> region_ptr option" where
  "smallest_region h Offset [] CandidateRegion CandidateRegionSize = CandidateRegion"
| "smallest_region h Offset (Region # List) CandidateRegion CandidateRegionSize =
     (let StartOffset = StartMsilOffset (h ! Region); EndOffset = EndMsilOffset (h ! Region);
          RegionSize = EndOffset - StartOffset in
      if StartOffset \<le> Offset \<and> Offset < EndOffset \<and> RegionSize \<le> CandidateRegionSize
      then smallest_region h Offset List (Some Region) RegionSize
      else smallest_region h Offset List CandidateRegion CandidateRegionSize)"

definition fgGetRegionFromMSILOffset :: "heap \<Rightarrow> u32 \<Rightarrow> region_ptr option" where
  "fgGetRegionFromMSILOffset h Offset =
     smallest_region h Offset (AllRegionList h) (if h = [] then None else Some 0) (- 1)"

definition getFinallyRegion :: "heap \<Rightarrow> region_ptr \<Rightarrow> region_ptr option" where
  "getFinallyRegion h TryRegion = find (\<lambda>c. Kind (h ! c) = RGN_Finally) (Children (h ! TryRegion))"

text \<open>
  \<open>updateLeaveOffset\<close>: the target of a \<open>leave\<close> at \<open>LeaveOffset\<close> for \<open>TargetOffset\<close>. For every finally the
  \<open>leave\<close> runs, the continuation stored for it is recorded, the innermost finally first. The
  result is the immediate target and \<open>IsInHandler\<close>.
\<close>

fun updateLeaveOffset ::
    "nat \<Rightarrow> heap \<Rightarrow> bool \<Rightarrow> u32 \<Rightarrow> region_ptr \<Rightarrow> u32 \<Rightarrow> (u32 \<times> bool \<times> (region_ptr \<times> u32) list) option" where
  "updateLeaveOffset 0 h SuppressExceptionHandlers LeaveOffset Region TargetOffset = None"
| "updateLeaveOffset (Suc fuel) h SuppressExceptionHandlers LeaveOffset Region TargetOffset =
     (let kind = Kind (h ! Region) in
      if SuppressExceptionHandlers \<and> kind \<in> {RGN_MCatch, RGN_Fault, RGN_Filter, RGN_MExcept}
      then Some (TargetOffset, True, [])
      else
        let FinallyRegion =
              (if kind = RGN_Try \<and> (TargetOffset < StartMsilOffset (h ! Region) \<or> EndMsilOffset (h ! Region) \<le> TargetOffset)
               then getFinallyRegion h Region else None);
            ChildTargetOffset = (case FinallyRegion of Some f \<Rightarrow> StartMsilOffset (h ! f) | None \<Rightarrow> TargetOffset) in
        case (case getInnerEnclosingRegion h Region LeaveOffset of
                Some ChildRegion \<Rightarrow> updateLeaveOffset fuel h SuppressExceptionHandlers LeaveOffset ChildRegion ChildTargetOffset
              | None \<Rightarrow> Some (ChildTargetOffset, False, [])) of
          None \<Rightarrow> None
        | Some (InnermostTargetOffset, IsInHandler, stores) \<Rightarrow>
            if IsInHandler then Some (TargetOffset, True, stores)
            else (case FinallyRegion of
                    None \<Rightarrow> Some (InnermostTargetOffset, False, stores)
                  | Some f \<Rightarrow>
                      Some (if InnermostTargetOffset = ChildTargetOffset then StartMsilOffset (h ! f) else InnermostTargetOffset,
                            False, stores @ [(f, TargetOffset)])))"

definition leave_target :: "heap \<Rightarrow> bool \<Rightarrow> u32 \<Rightarrow> u32 \<Rightarrow> (u32 \<times> (region_ptr \<times> u32) list) option" where
  "leave_target h SuppressExceptionHandlers LeaveOffset TargetOffset =
     (if h = [] then Some (TargetOffset, [])
      else map_option (\<lambda>(off, _, stores). (off, stores))
             (updateLeaveOffset (length h) h SuppressExceptionHandlers LeaveOffset 0 TargetOffset))"

text \<open>
  \<open>fgSwitchRegion\<close>: the region of \<open>Offset\<close> when the scan comes from \<open>OldRegion\<close>, the next offset at
  which the region may change, and the try regions that were entered (\<open>fgEnterRegion\<close>). First
  the loop over the grandchildren, which may stop at one of them, then the loop over the
  children.
\<close>

datatype switch_step = Continue u32 | Enter region_ptr "region_ptr list"

fun switch_grandchildren :: "heap \<Rightarrow> u32 \<Rightarrow> region_ptr \<Rightarrow> region_ptr list \<Rightarrow> u32 \<Rightarrow> switch_step" where
  "switch_grandchildren h Offset ChildRegion [] TransitionOffset = Continue TransitionOffset"
| "switch_grandchildren h Offset ChildRegion (Grandchild # List) TransitionOffset =
     (let GrandchildStartOffset = StartMsilOffset (h ! Grandchild) in
      if Offset < GrandchildStartOffset
      then switch_grandchildren h Offset ChildRegion List
             (if GrandchildStartOffset < TransitionOffset then GrandchildStartOffset else TransitionOffset)
      else if Offset < EndMsilOffset (h ! Grandchild)
      then Enter Grandchild (if EntryRegion (h ! ChildRegion) = Some Grandchild then [ChildRegion] else [])
      else switch_grandchildren h Offset ChildRegion List TransitionOffset)"

fun switch_children :: "heap \<Rightarrow> u32 \<Rightarrow> region_ptr list \<Rightarrow> u32 \<Rightarrow> switch_step result" where
  "switch_children h Offset [] TransitionOffset = Inr (Continue TransitionOffset)"
| "switch_children h Offset (ChildRegion # List) TransitionOffset =
     (let ChildStartOffset = StartMsilOffset (h ! ChildRegion) in
      if \<not> Offset < ChildStartOffset \<and> Offset < EndMsilOffset (h ! ChildRegion)
      then rbind (rassert ''TryRegion->Kind == RGN_Try'' (Kind (h ! ChildRegion) = RGN_Try)) (\<lambda>_.
           Inr (Enter ChildRegion (if EntryRegion (h ! ChildRegion) = Some ChildRegion then [ChildRegion] else [])))
      else
        let T = (if Offset < ChildStartOffset \<and> ChildStartOffset < TransitionOffset then ChildStartOffset else TransitionOffset) in
        if Kind (h ! ChildRegion) = RGN_Try
        then (case switch_grandchildren h Offset ChildRegion (Children (h ! ChildRegion)) T of
                Enter g es \<Rightarrow> Inr (Enter g es)
              | Continue T' \<Rightarrow> switch_children h Offset List T')
        else switch_children h Offset List T)"

text \<open>The outer option is the fuel.\<close>

fun fgSwitchRegion :: "nat \<Rightarrow> heap \<Rightarrow> region_ptr \<Rightarrow> u32 \<Rightarrow> (region_ptr \<times> u32 \<times> region_ptr list) result option" where
  "fgSwitchRegion 0 h OldRegion Offset = None"
| "fgSwitchRegion (Suc fuel) h OldRegion Offset =
     (let TransitionOffset = EndMsilOffset (h ! OldRegion) in
      if TransitionOffset \<le> Offset then
        if Offset \<noteq> TransitionOffset then Some (Inl (AssertFailed ''over-stepped region end''))
        else (case rgnGetEnclosingAncestor h OldRegion of
                None \<Rightarrow> Some (Inl (OutOfBounds ''nullptr region'' 0))
              | Some ParentRegion \<Rightarrow> fgSwitchRegion fuel h ParentRegion Offset)
      else case switch_children h Offset (Children (h ! OldRegion)) TransitionOffset of
        Inl e \<Rightarrow> Some (Inl e)
      | Inr (Continue NextOffset) \<Rightarrow> Some (Inr (OldRegion, NextOffset, []))
      | Inr (Enter r entered) \<Rightarrow>
          (case fgSwitchRegion fuel h r Offset of
             None \<Rightarrow> None
           | Some (Inl e) \<Rightarrow> Some (Inl e)
           | Some (Inr (r', NextOffset, es)) \<Rightarrow> Some (Inr (r', NextOffset, entered @ es))))"

subsection \<open>Specification and samples\<close>

definition entry_ok :: "heap \<Rightarrow> region_ptr \<Rightarrow> region_ptr option \<Rightarrow> bool" where
  "entry_ok h t entry \<longleftrightarrow> (\<exists>e. entry = Some e \<and> e < length h \<and> (e = t \<or> Parent (h ! e) = Some t))"

text \<open>The invariant of a region: its children, its parent and, for a try region, its entry.\<close>

definition region_ok :: "heap \<Rightarrow> region_ptr \<Rightarrow> bool" where
  "region_ok h r \<longleftrightarrow>
     (\<forall>c \<in> set (Children (h ! r)). r < c \<and> c < length h \<and> Parent (h ! c) = Some r)
     \<and> distinct (Children (h ! r))
     \<and> (if r = 0 then Kind (h ! r) = RGN_Root \<and> Parent (h ! r) = None
        else Kind (h ! r) \<noteq> RGN_Root \<and> (\<exists>p < r. Parent (h ! r) = Some p \<and> r \<in> set (Children (h ! p))
          \<and> (Kind (h ! r) \<noteq> RGN_Try \<longrightarrow> Kind (h ! p) = RGN_Try)
          \<and> (Kind (h ! r) = RGN_Try \<longrightarrow>
               p = 0 \<or> rgnRangeIsEnclosedInRegion (StartMsilOffset (h ! r)) (EndMsilOffset (h ! r)) (h ! p))))
     \<and> (Kind (h ! r) = RGN_Try \<longrightarrow> entry_ok h r (EntryRegion (h ! r)))"

definition heap_ok :: "heap \<Rightarrow> bool" where
  "heap_ok h \<longleftrightarrow> h \<noteq> [] \<and> (\<forall>r < length h. region_ok h r)"

definition same_region :: "EHRegion \<Rightarrow> EHRegion \<Rightarrow> bool" where
  "same_region x y \<longleftrightarrow> Kind y = Kind x \<and> Parent y = Parent x
     \<and> StartMsilOffset y = StartMsilOffset x \<and> EndMsilOffset y = EndMsilOffset x
     \<and> CatchClassToken y = CatchClassToken x \<and> HandlerRegion y = HandlerRegion x
     \<and> set (Children x) \<subseteq> set (Children y)"

text \<open>Later heaps keep the regions of earlier ones; only children are added.\<close>

definition extends :: "heap \<Rightarrow> heap \<Rightarrow> bool" where
  "extends h h' \<longleftrightarrow> length h \<le> length h' \<and> (\<forall>r < length h. same_region (h ! r) (h' ! r))"

text \<open>Adding a region below another one.\<close>

definition add_region :: "region_ptr \<Rightarrow> EHRegion \<Rightarrow> heap \<Rightarrow> heap" where
  "add_region p x h = h[p := (h ! p)\<lparr>Children := length h # Children (h ! p)\<rparr>] @ [x]"

definition handler_kind :: "CORINFO_EH_CLAUSE \<Rightarrow> RegionKind" where
  "handler_kind c = (if FlagFilter c then RGN_MExcept else if FlagFinally c then RGN_Finally
     else if FlagFault c then RGN_Fault else RGN_MCatch)"

text \<open>A clause is found in the tree: the try region, the handler and the filter.\<close>

definition clause_represented :: "heap \<Rightarrow> CORINFO_EH_CLAUSE \<Rightarrow> bool" where
  "clause_represented h c \<longleftrightarrow>
     (\<exists>t < length h. Kind (h ! t) = RGN_Try
        \<and> StartMsilOffset (h ! t) = TryOffset c \<and> EndMsilOffset (h ! t) = TryOffset c + TryLength c
        \<and> (\<exists>hr \<in> set (Children (h ! t)). hr < length h \<and> Kind (h ! hr) = handler_kind c
             \<and> StartMsilOffset (h ! hr) = HandlerOffset c \<and> EndMsilOffset (h ! hr) = HandlerOffset c + HandlerLength c
             \<and> (handler_kind c = RGN_MCatch \<longrightarrow> CatchClassToken (h ! hr) = ClassTokenOrFilterOffset c)
             \<and> (FlagFilter c \<longrightarrow> (\<exists>f \<in> set (Children (h ! t)). f < length h \<and> Kind (h ! f) = RGN_Filter
                  \<and> HandlerRegion (h ! f) = Some hr
                  \<and> StartMsilOffset (h ! f) = ClassTokenOrFilterOffset c \<and> EndMsilOffset (h ! f) = HandlerOffset c))))"

definition range_in :: "u32 \<Rightarrow> u32 \<Rightarrow> u32 \<Rightarrow> u32 \<Rightarrow> bool" where
  "range_in s l s' l' \<longleftrightarrow> s' \<le> s \<and> s + l \<le> s' + l'"

definition clause_fits :: "CORINFO_EH_CLAUSE \<Rightarrow> bool" where
  "clause_fits c \<longleftrightarrow> unat (TryOffset c) + unat (TryLength c) < 2 ^ 32 \<and> unat (HandlerOffset c) + unat (HandlerLength c) < 2 ^ 32"

text \<open>The nesting rules of the clause table: a clause whose try is inside another try or handler lies there with its handler too.\<close>

definition well_nested :: "CORINFO_EH_CLAUSE list \<Rightarrow> bool" where
  "well_nested cs \<longleftrightarrow>
     (\<forall>Y \<in> set cs. clause_fits Y \<and>
        (\<forall>Z \<in> set cs.
           (range_in (TryOffset Y) (TryLength Y) (TryOffset Z) (TryLength Z) \<and> TryLength Y \<noteq> TryLength Z \<longrightarrow>
              range_in (HandlerOffset Y) (HandlerLength Y) (TryOffset Z) (TryLength Z)) \<and>
           (range_in (TryOffset Y) (TryLength Y) (HandlerOffset Z) (HandlerLength Z) \<and> TryLength Y \<noteq> HandlerLength Z \<longrightarrow>
              range_in (HandlerOffset Y) (HandlerLength Y) (HandlerOffset Z) (HandlerLength Z))))"

definition region_size :: "EHRegion \<Rightarrow> u32" where
  "region_size r = EndMsilOffset r - StartMsilOffset r"

text \<open>The chain of finally blocks a \<open>leave\<close> runs.\<close>

fun leave_chain :: "heap \<Rightarrow> u32 \<Rightarrow> (region_ptr \<times> u32) list \<Rightarrow> u32 \<Rightarrow> bool" where
  "leave_chain h off [] target = (off = target)"
| "leave_chain h off ((f, next) # stores) target = (off = StartMsilOffset (h ! f) \<and> leave_chain h next stores target)"

definition exited_finally :: "heap \<Rightarrow> region_ptr \<Rightarrow> u32 \<Rightarrow> region_ptr option" where
  "exited_finally h r target =
     (if Kind (h ! r) = RGN_Try \<and> (target < StartMsilOffset (h ! r) \<or> EndMsilOffset (h ! r) \<le> target)
      then getFinallyRegion h r else None)"

definition child_target :: "heap \<Rightarrow> region_ptr \<Rightarrow> u32 \<Rightarrow> u32" where
  "child_target h r target = (case exited_finally h r target of Some f \<Rightarrow> StartMsilOffset (h ! f) | None \<Rightarrow> target)"

text \<open>A try-finally around a try-catch.\<close>

definition sample_clauses :: "CORINFO_EH_CLAUSE list" where
  "sample_clauses =
     [\<lparr>FlagFilter = False, FlagFinally = True, FlagFault = False, TryOffset = 0, TryLength = 40, HandlerOffset = 40, HandlerLength = 5,
       ClassTokenOrFilterOffset = 0\<rparr>,
      \<lparr>FlagFilter = False, FlagFinally = False, FlagFault = False, TryOffset = 4, TryLength = 10, HandlerOffset = 14, HandlerLength = 6,
       ClassTokenOrFilterOffset = 77\<rparr>]"

subsection \<open>Lemmas\<close>

lemma heap_ok_region: "heap_ok h \<Longrightarrow> r < length h \<Longrightarrow> region_ok h r"
  by (simp add: heap_ok_def)

lemma heap_ok_child: "heap_ok h \<Longrightarrow> r < length h \<Longrightarrow> c \<in> set (Children (h ! r)) \<Longrightarrow>
    r < c \<and> c < length h \<and> Parent (h ! c) = Some r"
  using heap_ok_region[of h r] unfolding region_ok_def by blast

lemma extends_refl: "extends h h"
  by (simp add: extends_def same_region_def)

lemma same_region_trans: "same_region x y \<Longrightarrow> same_region y z \<Longrightarrow> same_region x z"
  unfolding same_region_def by auto

lemma extends_trans: "extends h1 h2 \<Longrightarrow> extends h2 h3 \<Longrightarrow> extends h1 h3"
  unfolding extends_def using same_region_trans by (meson le_trans order_less_le_trans)

text \<open>Writing a field of one region.\<close>

lemma heap_ok_update:
  assumes "heap_ok h" "r < length h" "Parent x = Parent (h ! r)" "Children x = Children (h ! r)" "Kind x = Kind (h ! r)"
    and "Kind x = RGN_Try \<Longrightarrow> entry_ok h r (EntryRegion x)"
    and "StartMsilOffset x = StartMsilOffset (h ! r) \<and> EndMsilOffset x = EndMsilOffset (h ! r)
         \<or> Children x = [] \<and> Kind x \<noteq> RGN_Try"
  shows "heap_ok (h[r := x])"
proof -
  have same: "Parent (h[r := x] ! i) = Parent (h ! i)" "Children (h[r := x] ! i) = Children (h ! i)"
    "Kind (h[r := x] ! i) = Kind (h ! i)" for i
    using assms(2-5) by (cases "i = r"; simp)+
  have entry: "entry_ok (h[r := x]) i e \<longleftrightarrow> entry_ok h i e" for i e by (simp add: entry_ok_def same)
  have "region_ok (h[r := x]) i" if i: "i < length h" for i
  proof -
    have ok: "region_ok h i" using heap_ok_region[OF assms(1) i] .
    have E: "Kind (h ! i) = RGN_Try \<longrightarrow> entry_ok h i (EntryRegion (h[r := x] ! i))"
      using ok assms(2,5,6) by (cases "i = r") (auto simp: region_ok_def)
    have N: "rgnRangeIsEnclosedInRegion (StartMsilOffset (h[r := x] ! i)) (EndMsilOffset (h[r := x] ! i)) (h[r := x] ! p)"
      if "i \<noteq> 0" "Kind (h ! i) = RGN_Try" "i \<in> set (Children (h ! p))"
        "rgnRangeIsEnclosedInRegion (StartMsilOffset (h ! i)) (EndMsilOffset (h ! i)) (h ! p)" for p
      using that assms(2,4,5,7) by (cases "i = r"; cases "p = r") (auto simp: rgnRangeIsEnclosedInRegion_def)
    show ?thesis using ok E N unfolding region_ok_def same length_list_update entry by auto
  qed
  then show ?thesis using assms(1) by (simp add: heap_ok_def)
qed

lemma extends_update:
  assumes "extends h0 h" "length h0 \<le> r \<or> same_region (h ! r) x"
  shows "extends h0 (h[r := x])"
proof -
  have "same_region (h0 ! i) (h[r := x] ! i)" if "i < length h0" for i
  proof (cases "i = r")
    case True
    then show ?thesis using that assms same_region_trans[of "h0 ! i" "h ! i" x] unfolding extends_def
      by (metis leD nth_list_update_eq order_less_le_trans)
  next
    case False
    then show ?thesis using that assms by (simp add: extends_def)
  qed
  then show ?thesis using assms(1) by (simp add: extends_def)
qed

lemma add_region_simps [simp]:
  "length (add_region p x h) = Suc (length h)"
  "add_region p x h ! length h = x"
  "i < length h \<Longrightarrow> Parent (add_region p x h ! i) = Parent (h ! i)"
  "i < length h \<Longrightarrow> Kind (add_region p x h ! i) = Kind (h ! i)"
  "i < length h \<Longrightarrow> StartMsilOffset (add_region p x h ! i) = StartMsilOffset (h ! i)"
  "i < length h \<Longrightarrow> EndMsilOffset (add_region p x h ! i) = EndMsilOffset (h ! i)"
  "i < length h \<Longrightarrow> EntryRegion (add_region p x h ! i) = EntryRegion (h ! i)"
  "i < length h \<Longrightarrow> Children (add_region p x h ! i) = (if i = p then length h # Children (h ! i) else Children (h ! i))"
  by (cases "i = p"; simp add: add_region_def nth_append)+

lemma rgnMakeRegion_eq:
  assumes "p < length h"
  shows "rgnMakeRegion K (Some p) h = (add_region p (cleared_region\<lparr>Kind := K, Parent := Some p\<rparr>) h, length h)"
  using assms by (simp add: rgnMakeRegion_def rgnPushRegionChild_def add_region_def Let_def nth_append list_update_append
      cleared_region_def)

lemma extends_add_region: "p < length h \<Longrightarrow> extends h (add_region p x h)"
  by (auto simp: extends_def same_region_def add_region_def nth_append nth_list_update)

lemma heap_ok_add_region:
  assumes "heap_ok h" "p < length h" "Children x = []" "Parent x = Some p" "Kind x \<noteq> RGN_Root"
    and "Kind x \<noteq> RGN_Try \<longrightarrow> Kind (h ! p) = RGN_Try"
    and "Kind x = RGN_Try \<longrightarrow> EntryRegion x = Some (length h)
      \<and> (p = 0 \<or> rgnRangeIsEnclosedInRegion (StartMsilOffset x) (EndMsilOffset x) (h ! p))"
  shows "heap_ok (add_region p x h)"
proof -
  let ?h = "add_region p x h"
  have entry: "entry_ok h i e \<Longrightarrow> entry_ok ?h i e" for i e by (auto simp: entry_ok_def)
  have encl: "i < length h \<Longrightarrow> rgnRangeIsEnclosedInRegion s e (?h ! i) = rgnRangeIsEnclosedInRegion s e (h ! i)" for s e i
    by (simp add: rgnRangeIsEnclosedInRegion_def)
  have old: "region_ok ?h i" if i: "i < length h" for i
  proof -
    have ok: "region_ok h i" by (rule heap_ok_region[OF assms(1) i])
    have kids: "\<forall>c \<in> set (Children (?h ! i)). i < c \<and> c < length ?h \<and> Parent (?h ! c) = Some i"
      using heap_ok_child[OF assms(1) i] i assms(4) by (auto simp: less_Suc_eq)
    have dist: "distinct (Children (?h ! i))"
      using ok heap_ok_child[OF assms(1) i] i by (auto simp: region_ok_def)
    have up: "if i = 0 then Kind (?h ! i) = RGN_Root \<and> Parent (?h ! i) = None
        else Kind (?h ! i) \<noteq> RGN_Root \<and> (\<exists>q < i. Parent (?h ! i) = Some q \<and> i \<in> set (Children (?h ! q))
          \<and> (Kind (?h ! i) \<noteq> RGN_Try \<longrightarrow> Kind (?h ! q) = RGN_Try)
          \<and> (Kind (?h ! i) = RGN_Try \<longrightarrow>
               q = 0 \<or> rgnRangeIsEnclosedInRegion (StartMsilOffset (?h ! i)) (EndMsilOffset (?h ! i)) (?h ! q)))"
    proof (cases "i = 0")
      case False
      then obtain q where "q < i" "Parent (h ! i) = Some q" "i \<in> set (Children (h ! q))" "Kind (h ! i) \<noteq> RGN_Root"
        "Kind (h ! i) \<noteq> RGN_Try \<longrightarrow> Kind (h ! q) = RGN_Try"
        "Kind (h ! i) = RGN_Try \<longrightarrow> q = 0 \<or> rgnRangeIsEnclosedInRegion (StartMsilOffset (h ! i)) (EndMsilOffset (h ! i)) (h ! q)"
        using ok unfolding region_ok_def by auto
      then show ?thesis using i False by (auto simp: encl intro!: exI[of _ q])
    qed (use ok i in \<open>simp add: region_ok_def\<close>)
    show ?thesis
      using kids dist up ok i entry unfolding region_ok_def by simp
  qed
  have "0 < length h" using assms(1) by (simp add: heap_ok_def)
  then have new: "region_ok ?h (length h)"
    using assms unfolding region_ok_def by (auto simp: encl entry_ok_def)
  have "?h \<noteq> []" by (simp add: add_region_def)
  then show ?thesis using old new by (auto simp: heap_ok_def less_Suc_eq)
qed

text \<open>The search ends within the fuel and finds a region that encloses the range, or its start.\<close>

lemma search_children_spec:
  assumes "\<And>c. c \<in> set cs \<Longrightarrow> c < length h"
    and "\<And>c. c \<in> set cs \<Longrightarrow> rgnRangeIsEnclosedInRegion s e (h ! c) \<Longrightarrow> \<exists>x. search c = Some x \<and> Q x"
    and "\<And>c g. c \<in> set cs \<Longrightarrow> g \<in> set (Children (h ! c)) \<Longrightarrow> rgnRangeIsEnclosedInRegion s e (h ! g) \<Longrightarrow> \<exists>x. search g = Some x \<and> Q x"
    and "\<forall>x. RetVal = Some x \<longrightarrow> Q x"
  shows "\<exists>res. search_children search h s e cs RetVal = Some res \<and> (\<forall>x. res = Some x \<longrightarrow> Q x)"
  using assms
proof (induction cs arbitrary: RetVal)
  case (Cons c cs)
  let ?P = "\<lambda>g. Kind (h ! g) \<noteq> RGN_Try \<and> rgnRangeIsEnclosedInRegion s e (h ! g)"
  have IH: "\<forall>x. R = Some x \<longrightarrow> Q x \<Longrightarrow> \<exists>res. search_children search h s e cs R = Some res \<and> (\<forall>x. res = Some x \<longrightarrow> Q x)" for R
  proof (rule Cons.IH)
    show "\<And>d g. d \<in> set cs \<Longrightarrow> g \<in> set (Children (h ! d)) \<Longrightarrow> rgnRangeIsEnclosedInRegion s e (h ! g) \<Longrightarrow> \<exists>x. search g = Some x \<and> Q x"
      using Cons.prems(3) by (meson list.set_intros(2))
  qed (use Cons.prems(1,2) in simp_all)
  show ?case
  proof (cases "find ?P (Children (h ! c))")
    case None
    then show ?thesis using IH[OF Cons.prems(4)] Cons.prems(2)[of c] by auto
  next
    case (Some g)
    then have "g \<in> set (Children (h ! c))" "?P g" by (auto simp: find_Some_iff)
    then obtain x where "search g = Some x" "Q x" using Cons.prems(3)[of c g] by auto
    then show ?thesis using Some IH[OF Cons.prems(4)] IH[of "Some x"] Cons.prems(2)[of c] by auto
  qed
qed simp

lemma rgnFind_spec:
  assumes "heap_ok h" "r < length h" "length h \<le> r + fuel"
  shows "\<exists>x. rgnFindLowestEnclosingRegion fuel h s e r = Some x \<and> x < length h
    \<and> (x = r \<or> rgnRangeIsEnclosedInRegion s e (h ! x))"
  using assms(2,3)
proof (induction fuel arbitrary: r)
  case (Suc fuel)
  let ?Q = "\<lambda>x. x < length h \<and> rgnRangeIsEnclosedInRegion s e (h ! x)"
  have kid: "\<exists>x. rgnFindLowestEnclosingRegion fuel h s e c = Some x \<and> ?Q x"
    if "r < c" "c < length h" "rgnRangeIsEnclosedInRegion s e (h ! c)" for c
    using Suc.IH[of c] that Suc.prems by auto
  have "\<exists>res. search_children (rgnFindLowestEnclosingRegion fuel h s e) h s e (Children (h ! r)) None = Some res
      \<and> (\<forall>x. res = Some x \<longrightarrow> ?Q x)"
  proof (rule search_children_spec)
    fix c assume c: "c \<in> set (Children (h ! r))"
    note cr = heap_ok_child[OF assms(1) Suc.prems(1) c]
    then show "c < length h" by simp
    show "rgnRangeIsEnclosedInRegion s e (h ! c) \<Longrightarrow> \<exists>x. rgnFindLowestEnclosingRegion fuel h s e c = Some x \<and> ?Q x"
      using kid cr by simp
    fix g assume "g \<in> set (Children (h ! c))"
    then have "c < g" "g < length h" using heap_ok_child[OF assms(1), of c g] cr by simp_all
    then show "rgnRangeIsEnclosedInRegion s e (h ! g) \<Longrightarrow> \<exists>x. rgnFindLowestEnclosingRegion fuel h s e g = Some x \<and> ?Q x"
      using kid cr by simp
  qed simp
  then obtain res where res: "search_children (rgnFindLowestEnclosingRegion fuel h s e) h s e (Children (h ! r)) None = Some res"
    "\<forall>x. res = Some x \<longrightarrow> ?Q x" by metis
  show ?case using res Suc.prems(1) by (cases res) simp_all
qed simp

lemma find_or_make_try_spec:
  assumes "heap_ok h" "r < length h" "r = 0 \<or> rgnRangeIsEnclosedInRegion (TryOffset c) (TryOffset c + TryLength c) (h ! r)"
  shows "\<exists>h' t. find_or_make_try r c h = (h', t) \<and> heap_ok h' \<and> extends h h' \<and> t < length h' \<and> Kind (h' ! t) = RGN_Try
    \<and> StartMsilOffset (h' ! t) = TryOffset c \<and> EndMsilOffset (h' ! t) = TryOffset c + TryLength c"
proof (cases "Kind (h ! r) = RGN_Try \<and> TryOffset c = StartMsilOffset (h ! r) \<and> TryOffset c + TryLength c = EndMsilOffset (h ! r)")
  case True
  then show ?thesis using assms by (auto simp: find_or_make_try_def Let_def extends_refl)
next
  case False
  let ?x = "cleared_region\<lparr>Kind := RGN_Try, Parent := Some r, StartMsilOffset := TryOffset c,
     EndMsilOffset := TryOffset c + TryLength c, EntryRegion := Some (length h)\<rparr>"
  have "find_or_make_try r c h = (add_region r ?x h, length h)"
    using False assms(2)
    by (auto simp: find_or_make_try_def Let_def rgnMakeRegion_eq rgnSetEntryRegion_def set_range_def)
      (simp_all add: add_region_def list_update_append nth_append)
  moreover have "heap_ok (add_region r ?x h)"
    by (rule heap_ok_add_region) (use assms in \<open>auto simp: cleared_region_def\<close>)
  ultimately show ?thesis using extends_add_region[OF assms(2)] by (simp add: cleared_region_def)
qed

lemma extends_same: "extends h h' \<Longrightarrow> r < length h \<Longrightarrow> same_region (h ! r) (h' ! r) \<and> r < length h'"
  by (simp add: extends_def)

lemma clause_represented_extends:
  assumes "clause_represented h c" "extends h h'"
  shows "clause_represented h' c"
proof -
  from assms(1) obtain t hr where t: "t < length h" "Kind (h ! t) = RGN_Try" "StartMsilOffset (h ! t) = TryOffset c"
      "EndMsilOffset (h ! t) = TryOffset c + TryLength c"
    and hr: "hr \<in> set (Children (h ! t))" "hr < length h" "Kind (h ! hr) = handler_kind c"
      "StartMsilOffset (h ! hr) = HandlerOffset c" "EndMsilOffset (h ! hr) = HandlerOffset c + HandlerLength c"
      "handler_kind c = RGN_MCatch \<longrightarrow> CatchClassToken (h ! hr) = ClassTokenOrFilterOffset c"
    and f: "FlagFilter c \<longrightarrow> (\<exists>f \<in> set (Children (h ! t)). f < length h \<and> Kind (h ! f) = RGN_Filter
                  \<and> HandlerRegion (h ! f) = Some hr
                  \<and> StartMsilOffset (h ! f) = ClassTokenOrFilterOffset c \<and> EndMsilOffset (h ! f) = HandlerOffset c)"
    unfolding clause_represented_def by blast
  have s: "same_region (h ! r) (h' ! r)" "r < length h'" if "r < length h" for r
    using extends_same[OF assms(2) that] by auto
  have T: "set (Children (h ! t)) \<subseteq> set (Children (h' ! t))" "Kind (h' ! t) = RGN_Try"
      "StartMsilOffset (h' ! t) = TryOffset c" "EndMsilOffset (h' ! t) = TryOffset c + TryLength c" "t < length h'"
    using s[OF t(1)] t by (auto simp: same_region_def)
  have H: "hr \<in> set (Children (h' ! t))" "hr < length h'" "Kind (h' ! hr) = handler_kind c"
      "StartMsilOffset (h' ! hr) = HandlerOffset c" "EndMsilOffset (h' ! hr) = HandlerOffset c + HandlerLength c"
      "handler_kind c = RGN_MCatch \<longrightarrow> CatchClassToken (h' ! hr) = ClassTokenOrFilterOffset c"
    using s[OF hr(2)] hr T(1) by (auto simp: same_region_def)
  have F: "\<exists>f \<in> set (Children (h' ! t)). f < length h' \<and> Kind (h' ! f) = RGN_Filter \<and> HandlerRegion (h' ! f) = Some hr
     \<and> StartMsilOffset (h' ! f) = ClassTokenOrFilterOffset c \<and> EndMsilOffset (h' ! f) = HandlerOffset c" if "FlagFilter c"
  proof -
    note flag = that
    obtain g where g: "g \<in> set (Children (h ! t))" "g < length h" "Kind (h ! g) = RGN_Filter" "HandlerRegion (h ! g) = Some hr"
      "StartMsilOffset (h ! g) = ClassTokenOrFilterOffset c" "EndMsilOffset (h ! g) = HandlerOffset c"
      using f flag by blast
    then show ?thesis using s[OF g(2)] T(1) by (intro bexI[of _ g]) (auto simp: same_region_def)
  qed
  show ?thesis unfolding clause_represented_def using T H F by blast
qed

lemma add_handler_spec:
  assumes "heap_ok h" "t < length h" "Kind (h ! t) = RGN_Try"
  shows "\<exists>h2 hr ce. add_handler t c h = (h2, hr, ce) \<and> heap_ok h2 \<and> extends h h2
     \<and> length h \<le> hr \<and> hr < length h2 \<and> ce < length h2 \<and> Parent (h2 ! ce) = Some t
     \<and> hr \<in> set (Children (h2 ! t)) \<and> Children (h2 ! hr) = [] \<and> Kind (h2 ! hr) = handler_kind c
     \<and> (handler_kind c = RGN_MCatch \<longrightarrow> CatchClassToken (h2 ! hr) = ClassTokenOrFilterOffset c)
     \<and> (FlagFilter c \<longrightarrow> ce \<in> set (Children (h2 ! t)) \<and> hr \<noteq> ce \<and> Kind (h2 ! ce) = RGN_Filter
          \<and> HandlerRegion (h2 ! ce) = Some hr
          \<and> StartMsilOffset (h2 ! ce) = ClassTokenOrFilterOffset c \<and> EndMsilOffset (h2 ! ce) = HandlerOffset c)"
proof -
  let ?n = "length h"
  let ?new = "\<lambda>K. cleared_region\<lparr>Kind := K, Parent := Some t\<rparr>"
  have ok: "heap_ok (add_region t x h)" if "Kind x \<notin> {RGN_Root, RGN_Try}" "Children x = []" "Parent x = Some t" for x
    using heap_ok_add_region[OF assms(1,2)] that assms(3) by auto
  show ?thesis
  proof (cases "FlagFilter c")
    case True
    let ?h1 = "add_region t (?new RGN_MExcept) h"
    let ?f = "?new RGN_Filter\<lparr>HandlerRegion := Some ?n, StartMsilOffset := ClassTokenOrFilterOffset c, EndMsilOffset := HandlerOffset c\<rparr>"
    have "add_handler t c h = (add_region t ?f ?h1, ?n, Suc ?n)"
      using True assms(2) by (simp add: add_handler_def rgnMakeRegion_eq rgnSetFilterHandlerRegion_def set_range_def)
        (simp add: add_region_def list_update_append nth_append)
    moreover have h1: "heap_ok ?h1" by (rule ok) (simp_all add: cleared_region_def)
    moreover have "heap_ok (add_region t ?f ?h1)"
      using heap_ok_add_region[OF h1, of t ?f] assms by (simp add: cleared_region_def)
    moreover have "extends h (add_region t ?f ?h1)"
      using extends_trans[OF extends_add_region extends_add_region] assms(2) by simp
    moreover have "add_region t ?f ?h1 ! ?n = ?new RGN_MExcept" "add_region t ?f ?h1 ! Suc ?n = ?f"
      using assms(2) by (simp_all add: add_region_def nth_append)
    ultimately show ?thesis using assms(2) True by (simp add: cleared_region_def handler_kind_def)
  next
    case False
    let ?x = "if FlagFinally c then ?new RGN_Finally else if FlagFault c then ?new RGN_Fault
      else ?new RGN_MCatch\<lparr>CatchClassToken := ClassTokenOrFilterOffset c\<rparr>"
    have "add_handler t c h = (add_region t ?x h, ?n, ?n)"
      using False assms(2) by (auto simp: add_handler_def rgnMakeRegion_eq rgnSetCatchClassToken_def)
        (simp_all add: add_region_def list_update_append nth_append)
    moreover have "heap_ok (add_region t ?x h)" by (rule ok) (auto simp: cleared_region_def)
    ultimately show ?thesis using extends_add_region[OF assms(2)] assms(2) False
      by (auto simp: cleared_region_def handler_kind_def)
  qed
qed

lemma add_clause_spec:
  assumes "heap_ok h"
  shows "\<exists>h'. add_clause c h = Some h' \<and> heap_ok h' \<and> extends h h' \<and> clause_represented h' c"
proof -
  have n: "0 < length h" using assms by (simp add: heap_ok_def)
  obtain r where r: "rgnFindLowestEnclosingRegion (length h) h (TryOffset c) (TryOffset c + TryLength c) 0 = Some r"
    "r < length h" "r = 0 \<or> rgnRangeIsEnclosedInRegion (TryOffset c) (TryOffset c + TryLength c) (h ! r)"
    using rgnFind_spec[OF assms n, of "length h"] by auto
  obtain h1 t where t: "find_or_make_try r c h = (h1, t)" "heap_ok h1" "extends h h1" "t < length h1" "Kind (h1 ! t) = RGN_Try"
      "StartMsilOffset (h1 ! t) = TryOffset c" "EndMsilOffset (h1 ! t) = TryOffset c + TryLength c"
    using find_or_make_try_spec[OF assms r(2,3)] by blast
  obtain h2 hr ce where a: "add_handler t c h1 = (h2, hr, ce)" "heap_ok h2" "extends h1 h2" "length h1 \<le> hr" "hr < length h2"
      "ce < length h2" "Parent (h2 ! ce) = Some t" "hr \<in> set (Children (h2 ! t))" "Children (h2 ! hr) = []"
      "Kind (h2 ! hr) = handler_kind c"
      "handler_kind c = RGN_MCatch \<longrightarrow> CatchClassToken (h2 ! hr) = ClassTokenOrFilterOffset c"
    and filt: "FlagFilter c \<longrightarrow> ce \<in> set (Children (h2 ! t)) \<and> hr \<noteq> ce \<and> Kind (h2 ! ce) = RGN_Filter
          \<and> HandlerRegion (h2 ! ce) = Some hr
          \<and> StartMsilOffset (h2 ! ce) = ClassTokenOrFilterOffset c \<and> EndMsilOffset (h2 ! ce) = HandlerOffset c"
    using add_handler_spec[OF t(2,4,5), of c] by blast
  define h3 where "h3 = set_range hr (HandlerOffset c) (HandlerOffset c + HandlerLength c) h2"
  have hk: "handler_kind c \<noteq> RGN_Try" by (simp add: handler_kind_def)
  have h3_ok: "heap_ok h3" unfolding h3_def set_range_def
    by (rule heap_ok_update[OF a(2,5)]) (use a(9,10) hk in auto)
  have h13: "extends h1 h3" unfolding h3_def set_range_def
    by (rule extends_update[OF a(3)]) (use a(4) in simp)
  have th: "t \<noteq> hr" "t < length h3" using t(4) a(4,5) by (auto simp: h3_def set_range_def)
  have len: "length h3 = length h2" by (simp add: h3_def set_range_def)
  have t3: "same_region (h1 ! t) (h3 ! t)" using extends_same[OF h13 t(4)] by simp
  then have kt: "Kind (h3 ! t) = RGN_Try" using t(5) by (simp add: same_region_def)
  have F: "FlagFilter c \<longrightarrow> (\<exists>f \<in> set (Children (h3 ! t)). f < length h3 \<and> Kind (h3 ! f) = RGN_Filter \<and> HandlerRegion (h3 ! f) = Some hr
        \<and> StartMsilOffset (h3 ! f) = ClassTokenOrFilterOffset c \<and> EndMsilOffset (h3 ! f) = HandlerOffset c)"
    using filt a(6) th by (auto simp: h3_def set_range_def intro!: bexI[of _ ce])
  have T: "StartMsilOffset (h3 ! t) = TryOffset c" "EndMsilOffset (h3 ! t) = TryOffset c + TryLength c"
    using t3 t(6,7) by (simp_all add: same_region_def)
  have H: "hr \<in> set (Children (h3 ! t))" "hr < length h3" "Kind (h3 ! hr) = handler_kind c"
      "StartMsilOffset (h3 ! hr) = HandlerOffset c" "EndMsilOffset (h3 ! hr) = HandlerOffset c + HandlerLength c"
      "handler_kind c = RGN_MCatch \<longrightarrow> CatchClassToken (h3 ! hr) = ClassTokenOrFilterOffset c"
    using a th by (auto simp: h3_def set_range_def)
  have rep3: "clause_represented h3 c"
    unfolding clause_represented_def using th(2) kt T H F by blast
  obtain entry where entry: "EntryRegion (h3 ! t) = Some entry"
    using heap_ok_region[OF h3_ok th(2)] kt by (auto simp: region_ok_def entry_ok_def)
  have pce: "Parent (h3 ! ce) = Some t" using a(5,7) by (cases "ce = hr") (auto simp: h3_def set_range_def)
  have final: "heap_ok (rgnSetEntryRegion t ce h3) \<and> extends h3 (rgnSetEntryRegion t ce h3)"
    unfolding rgnSetEntryRegion_def
  proof
    show "heap_ok (h3[t := (h3 ! t)\<lparr>EntryRegion := Some ce\<rparr>])"
      by (rule heap_ok_update[OF h3_ok th(2)]) (use pce a(6) len in \<open>auto simp: entry_ok_def\<close>)
    show "extends h3 (h3[t := (h3 ! t)\<lparr>EntryRegion := Some ce\<rparr>])"
      by (rule extends_update[OF extends_refl]) (simp add: same_region_def)
  qed
  have "add_clause c h = Some (if StartMsilOffset (h3 ! ce) < StartMsilOffset (h3 ! entry) then rgnSetEntryRegion t ce h3 else h3)"
    using r(1) t(1) a(1) entry by (simp add: add_clause_def h3_def Let_def)
  then show ?thesis
    using h3_ok final rep3 clause_represented_extends[OF rep3] extends_trans[OF t(3) h13] extends_trans by auto
qed

lemma inside_def:
  "clauseXInsideY X Y \<longleftrightarrow>
     range_in (TryOffset X) (TryLength X) (TryOffset Y) (TryLength Y) \<and> TryLength X \<noteq> TryLength Y
     \<or> range_in (TryOffset X) (TryLength X) (HandlerOffset Y) (HandlerLength Y) \<and> TryLength X \<noteq> HandlerLength Y"
  by (auto simp: clauseXInsideY_def range_in_def)

lemma range_in_trans:
  assumes "range_in s l s1 l1" "l \<noteq> l1" "range_in s1 l1 s2 l2"
    and "unat s + unat l < 2 ^ 32" "unat s1 + unat l1 < 2 ^ 32" "unat s2 + unat l2 < 2 ^ 32"
  shows "range_in s l s2 l2 \<and> l \<noteq> l2"
proof -
  have add: "unat (a + b) = unat a + unat b" if "unat a + unat b < 2 ^ 32" for a b :: u32
    using that by (intro unat_add_no_wrap) simp
  have "unat s1 \<le> unat s" "unat s + unat l \<le> unat s1 + unat l1" "unat l \<noteq> unat l1"
      "unat s2 \<le> unat s1" "unat s1 + unat l1 \<le> unat s2 + unat l2"
    using assms by (auto simp: range_in_def unat_simps add)
  then have "unat s2 \<le> unat s" "unat s + unat l \<le> unat s2 + unat l2" "unat l < unat l2" by linarith+
  then show ?thesis using assms by (auto simp: range_in_def unat_simps add)
qed

lemma inside_trans:
  assumes "well_nested cs" "X \<in> set cs" "Y \<in> set cs" "Z \<in> set cs" "clauseXInsideY X Y" "clauseXInsideY Y Z"
  shows "clauseXInsideY X Z"
proof -
  have fits: "clause_fits X" "clause_fits Y" "clause_fits Z" using assms(1-4) by (simp_all add: well_nested_def)
  have "range_in (TryOffset X) (TryLength X) (TryOffset Z) (TryLength Z) \<and> TryLength X \<noteq> TryLength Z"
    if *: "range_in (TryOffset Y) (TryLength Y) (TryOffset Z) (TryLength Z)" "TryLength Y \<noteq> TryLength Z"
  proof -
    have "range_in (HandlerOffset Y) (HandlerLength Y) (TryOffset Z) (TryLength Z)"
      using assms(1,3,4) * by (auto simp: well_nested_def)
    with * assms(5) fits show ?thesis unfolding inside_def clause_fits_def using range_in_trans by blast
  qed
  moreover have "range_in (TryOffset X) (TryLength X) (HandlerOffset Z) (HandlerLength Z) \<and> TryLength X \<noteq> HandlerLength Z"
    if *: "range_in (TryOffset Y) (TryLength Y) (HandlerOffset Z) (HandlerLength Z)" "TryLength Y \<noteq> HandlerLength Z"
  proof -
    have "range_in (HandlerOffset Y) (HandlerLength Y) (HandlerOffset Z) (HandlerLength Z)"
      using assms(1,3,4) * by (auto simp: well_nested_def)
    with * assms(5) fits show ?thesis unfolding inside_def clause_fits_def using range_in_trans by blast
  qed
  ultimately show ?thesis using assms(6) unfolding inside_def by blast
qed

lemma mset_insert_clause: "mset (insert_clause k cs) = add_mset k (mset cs)"
  by (induction cs) auto

lemma set_insert_clause [simp]: "set (insert_clause k cs) = insert k (set cs)"
  using mset_insert_clause[of k cs] by (metis set_mset_add_mset_insert set_mset_mset)

lemma insert_clause_in_order:
  assumes "well_nested us" "insert k (set cs) \<subseteq> set us" "clauses_in_order cs"
  shows "clauses_in_order (insert_clause k cs)"
  using assms(2,3)
proof (induction cs)
  case (Cons c cs)
  show ?case
  proof (cases "clauseXInsideY k c")
    case True
    have "clauseXInsideY k d \<or> \<not> clauseXInsideY d k" if "d \<in> set cs" for d
      using that True Cons.prems inside_trans[OF assms(1), of d k c] inside_trans[OF assms(1), of k c d]
      by (auto simp: list_all_iff)
    then show ?thesis using True Cons.prems by (auto simp: clauseLessThan_def list_all_iff)
  next
    case False
    then show ?thesis using Cons by (auto simp: clauseLessThan_def list_all_iff)
  qed
qed simp

lemma sort_clauses_spec:
  "mset (foldl (\<lambda>sorted Key. insert_clause Key sorted) acc cs) = mset acc + mset cs"
  "well_nested us \<Longrightarrow> set acc \<union> set cs \<subseteq> set us \<Longrightarrow> clauses_in_order acc \<Longrightarrow>
     clauses_in_order (foldl (\<lambda>sorted Key. insert_clause Key sorted) acc cs)"
  by (induction cs arbitrary: acc) (auto simp: mset_insert_clause insert_clause_in_order)

lemma add_clauses_spec:
  assumes "heap_ok h"
  shows "\<exists>h'. add_clauses cs h = Some h' \<and> heap_ok h' \<and> extends h h' \<and> (\<forall>c \<in> set cs. clause_represented h' c)"
  using assms
proof (induction cs arbitrary: h)
  case (Cons c cs)
  obtain h1 where h1: "add_clause c h = Some h1" "heap_ok h1" "extends h h1" "clause_represented h1 c"
    using add_clause_spec[OF Cons.prems] by blast
  obtain h2 where "add_clauses cs h1 = Some h2" "heap_ok h2" "extends h1 h2" "\<forall>c \<in> set cs. clause_represented h2 c"
    using Cons.IH[OF h1(2)] by blast
  then show ?case using h1 clause_represented_extends extends_trans by fastforce
qed (simp add: extends_refl)

lemma root_heap_ok: "heap_ok (root_heap n)"
  by (simp add: root_heap_def rgnMakeRegion_def cleared_region_def heap_ok_def region_ok_def Let_def)

lemma smallest_region_spec:
  "smallest_region h Offset rs cand sz = cand \<and>
     (\<forall>q \<in> set rs. contains_offset (h ! q) Offset \<longrightarrow> \<not> region_size (h ! q) \<le> sz)
   \<or> (\<exists>r \<in> set rs. smallest_region h Offset rs cand sz = Some r \<and> contains_offset (h ! r) Offset
        \<and> region_size (h ! r) \<le> sz
        \<and> (\<forall>q \<in> set rs. contains_offset (h ! q) Offset \<longrightarrow> region_size (h ! r) \<le> region_size (h ! q)))"
proof (induction rs arbitrary: cand sz)
  case (Cons r rs)
  show ?case
  proof (cases "contains_offset (h ! r) Offset \<and> region_size (h ! r) \<le> sz")
    case True
    then have "smallest_region h Offset (r # rs) cand sz = smallest_region h Offset rs (Some r) (region_size (h ! r))"
      by (simp add: contains_offset_def region_size_def)
    then show ?thesis using Cons.IH[of "Some r" "region_size (h ! r)"] True by auto
  next
    case False
    then have "smallest_region h Offset (r # rs) cand sz = smallest_region h Offset rs cand sz"
      by (auto simp: contains_offset_def region_size_def Let_def)
    then show ?thesis using Cons.IH[of cand sz] False by auto
  qed
qed simp

lemma inner_enclosing_spec:
  assumes "inner_enclosing h Offset cs = Some x"
  shows "contains_offset (h ! x) Offset \<and> (x \<in> set cs \<or> (\<exists>c \<in> set cs. x \<in> set (Children (h ! c))))"
  using assms by (induction cs) (auto simp: find_Some_iff split: if_splits option.splits)

lemma getInnerEnclosingRegion_spec:
  assumes "heap_ok h" "r < length h" "getInnerEnclosingRegion h r Offset = Some x"
  shows "r < x" "x < length h" "contains_offset (h ! x) Offset"
proof -
  note i = inner_enclosing_spec[OF assms(3)[unfolded getInnerEnclosingRegion_def]]
  show "contains_offset (h ! x) Offset" using i by simp
  have "r < x \<and> x < length h"
  proof (cases "x \<in> set (Children (h ! r))")
    case False
    then obtain c where "c \<in> set (Children (h ! r))" "x \<in> set (Children (h ! c))" using i by blast
    then show ?thesis using heap_ok_child[OF assms(1,2)] heap_ok_child[OF assms(1), of c x] by fastforce
  qed (use heap_ok_child[OF assms(1,2)] in blast)
  then show "r < x" "x < length h" by simp_all
qed

lemma innermost_walk_total:
  assumes "heap_ok h" "r < length h" "length h < r + fuel"
  shows "innermost_walk fuel h Offset (Some r) best \<noteq> None"
  using assms(2,3)
proof (induction fuel arbitrary: r best)
  case (Suc fuel)
  show ?case
  proof (cases "getInnerEnclosingRegion h r Offset")
    case None
    then show ?thesis using Suc.prems by (cases fuel) auto
  next
    case (Some x)
    note x = getInnerEnclosingRegion_spec[OF assms(1) Suc.prems(1) Some]
    then show ?thesis using Suc.IH[of x] Suc.prems Some by auto
  qed
qed simp

lemma leave_chain_append:
  "leave_chain h off (stores @ [(f, t)]) target \<longleftrightarrow> leave_chain h off stores (StartMsilOffset (h ! f)) \<and> t = target"
  by (induction stores arbitrary: off) auto

lemma updateLeaveOffset_step:
  "updateLeaveOffset (Suc fuel) h supp leave r target =
    (if supp \<and> Kind (h ! r) \<in> {RGN_MCatch, RGN_Fault, RGN_Filter, RGN_MExcept} then Some (target, True, [])
     else case (case getInnerEnclosingRegion h r leave of
                Some c \<Rightarrow> updateLeaveOffset fuel h supp leave c (child_target h r target)
              | None \<Rightarrow> Some (child_target h r target, False, [])) of
          None \<Rightarrow> None
        | Some (io, ih, st) \<Rightarrow> if ih then Some (target, True, st)
            else (case exited_finally h r target of
                    None \<Rightarrow> Some (io, False, st)
                  | Some f \<Rightarrow> Some (io, False, st @ [(f, target)])))"
proof -
  have "(if io = child_target h r target then StartMsilOffset (h ! f) else io) = io" if "exited_finally h r target = Some f" for io f
    using that by (simp add: child_target_def)
  then show ?thesis
    by (simp add: Let_def exited_finally_def[symmetric] child_target_def[symmetric] cong: option.case_cong if_cong)
qed

declare updateLeaveOffset.simps(2) [simp del]

lemma updateLeaveOffset_chain:
  assumes "updateLeaveOffset fuel h supp leave r target = Some (off, inHandler, stores)"
  shows "(inHandler \<longrightarrow> off = target \<and> stores = []) \<and> (\<not> inHandler \<longrightarrow> leave_chain h off stores target)
    \<and> (\<forall>(f, t) \<in> set stores. Kind (h ! f) = RGN_Finally)"
  using assms
proof (induction fuel arbitrary: r target off inHandler stores)
  case (Suc fuel)
  show ?case
  proof (cases "supp \<and> Kind (h ! r) \<in> {RGN_MCatch, RGN_Fault, RGN_Filter, RGN_MExcept}")
    case True
    then show ?thesis using Suc.prems by (simp add: updateLeaveOffset_step)
  next
    case False
    let ?T = "child_target h r target"
    let ?sub = "case getInnerEnclosingRegion h r leave of
                Some c \<Rightarrow> updateLeaveOffset fuel h supp leave c ?T | None \<Rightarrow> Some (?T, False, [])"
    have kf: "exited_finally h r target = Some f \<Longrightarrow> Kind (h ! f) = RGN_Finally" for f
      by (auto simp: exited_finally_def getFinallyRegion_def find_Some_iff split: if_splits)
    have "?sub \<noteq> None"
    proof
      assume none: "?sub = None"
      show False using Suc.prems unfolding updateLeaveOffset_step if_not_P[OF False] none by simp
    qed
    then obtain io ih st where sub: "?sub = Some (io, ih, st)" by (metis option.exhaust prod_cases3)
    have IH: "(ih \<longrightarrow> io = ?T \<and> st = []) \<and> (\<not> ih \<longrightarrow> leave_chain h io st ?T) \<and> (\<forall>(f, t) \<in> set st. Kind (h ! f) = RGN_Finally)"
      using sub Suc.IH[of _ ?T io ih st] by (cases "getInnerEnclosingRegion h r leave") auto
    have eq: "(off, inHandler, stores) = (if ih then (target, True, st) else
       case exited_finally h r target of None \<Rightarrow> (io, False, st) | Some f \<Rightarrow> (io, False, st @ [(f, target)]))"
      using Suc.prems unfolding updateLeaveOffset_step if_not_P[OF False] sub by (auto split: if_splits option.splits)
    show ?thesis
    proof (cases "exited_finally h r target")
      case None
      then show ?thesis using IH eq by (auto simp: child_target_def split: if_splits)
    next
      case (Some f)
      then show ?thesis using IH eq kf by (auto simp: child_target_def leave_chain_append split: if_splits)
    qed
  qed
qed simp

lemma updateLeaveOffset_total:
  assumes "heap_ok h" "r < length h" "length h \<le> r + fuel"
  shows "\<exists>x. updateLeaveOffset fuel h supp leave r target = Some x"
  using assms(2,3)
proof (induction fuel arbitrary: r target)
  case (Suc fuel)
  have sub: "\<exists>y. updateLeaveOffset fuel h supp leave x t = Some y" if "getInnerEnclosingRegion h r leave = Some x" for x t
    using getInnerEnclosingRegion_spec(1,2)[OF assms(1) Suc.prems(1) that] Suc.IH[of x t] Suc.prems by simp
  show ?case
  proof (cases "getInnerEnclosingRegion h r leave")
    case None
    then show ?thesis by (auto simp: updateLeaveOffset_step split: option.split)
  next
    case (Some x)
    obtain io ih st where "updateLeaveOffset fuel h supp leave x (child_target h r target) = Some (io, ih, st)"
      using sub[OF Some] by (metis prod_cases3)
    then show ?thesis using Some by (auto simp: updateLeaveOffset_step split: option.split)
  qed
qed simp

lemma switch_grandchildren_spec:
  assumes "Offset < T"
  shows "case switch_grandchildren h Offset c gs T of
      Continue T' \<Rightarrow> Offset < T' \<and> T' \<le> T
    | Enter g es \<Rightarrow> g \<in> set gs \<and> contains_offset (h ! g) Offset"
  using assms
proof (induction gs arbitrary: T)
  case (Cons g gs)
  let ?S = "StartMsilOffset (h ! g)"
  have "case switch_grandchildren h Offset c gs (if ?S < T then ?S else T) of
      Continue T' \<Rightarrow> Offset < T' \<and> T' \<le> (if ?S < T then ?S else T)
    | Enter g es \<Rightarrow> g \<in> set gs \<and> contains_offset (h ! g) Offset" if "Offset < ?S"
    using Cons.IH[of "if ?S < T then ?S else T"] Cons.prems that by simp
  then show ?case using Cons.IH[OF Cons.prems]
    by (auto simp: contains_offset_def Let_def not_less split: switch_step.splits if_splits)
qed simp

lemma switch_children_spec:
  assumes "Offset < T" "switch_children h Offset cs T = Inr st"
  shows "case st of Continue T' \<Rightarrow> Offset < T' \<and> T' \<le> T
    | Enter r es \<Rightarrow> contains_offset (h ! r) Offset \<and> (r \<in> set cs \<or> (\<exists>c \<in> set cs. r \<in> set (Children (h ! c))))"
  using assms
proof (induction cs arbitrary: T)
  case (Cons c cs)
  let ?S = "StartMsilOffset (h ! c)"
  define T1 where "T1 = (if Offset < ?S \<and> ?S < T then ?S else T)"
  have T1: "Offset < T1" "T1 \<le> T" using Cons.prems(1) by (auto simp: T1_def)
  have weaken: "case st of Continue T' \<Rightarrow> Offset < T' \<and> T' \<le> T
      | Enter r es \<Rightarrow> contains_offset (h ! r) Offset \<and> (r \<in> set (c # cs) \<or> (\<exists>d \<in> set (c # cs). r \<in> set (Children (h ! d))))"
    if "switch_children h Offset cs T2 = Inr st" "Offset < T2" "T2 \<le> T" for T2
    using Cons.IH[OF that(2,1)] that(3) by (auto split: switch_step.splits)
  show ?case
  proof (cases "\<not> Offset < ?S \<and> Offset < EndMsilOffset (h ! c)")
    case True
    then show ?thesis using Cons.prems(2) by (auto simp: Let_def rbind_eq_Inr_iff contains_offset_def not_less)
  next
    case False
    note step = Cons.prems(2)[unfolded switch_children.simps Let_def if_not_P[OF False] T1_def[symmetric]]
    show ?thesis
    proof (cases "Kind (h ! c) = RGN_Try")
      case True
      then show ?thesis using step weaken T1 switch_grandchildren_spec[OF T1(1), where h = h and c = c and gs = "Children (h ! c)"]
        by (cases "switch_grandchildren h Offset c (Children (h ! c)) T1") (auto dest: order_trans)
    next
      case False
      then show ?thesis using step weaken[OF _ T1] by simp
    qed
  qed
qed auto

lemma fgSwitchRegion_step:
  assumes "Offset < EndMsilOffset (h ! old)"
  shows "fgSwitchRegion (Suc fuel) h old Offset =
    (case switch_children h Offset (Children (h ! old)) (EndMsilOffset (h ! old)) of
        Inl e \<Rightarrow> Some (Inl e)
      | Inr (Continue NextOffset) \<Rightarrow> Some (Inr (old, NextOffset, []))
      | Inr (Enter r entered) \<Rightarrow>
          (case fgSwitchRegion fuel h r Offset of
             None \<Rightarrow> None
           | Some (Inl e) \<Rightarrow> Some (Inl e)
           | Some (Inr (r', NextOffset, es)) \<Rightarrow> Some (Inr (r', NextOffset, entered @ es))))"
  using assms by (simp add: Let_def not_le[symmetric] fgSwitchRegion.simps(2))

declare fgSwitchRegion.simps(2) [simp del]

lemma switch_target:
  assumes "heap_ok h" "r < length h" "switch_children h Offset (Children (h ! r)) T = Inr (Enter x es)" "Offset < T"
  shows "r < x" "x < length h" "contains_offset (h ! x) Offset"
proof -
  note s = switch_children_spec[OF assms(4,3)]
  show "contains_offset (h ! x) Offset" using s by simp
  have "r < x \<and> x < length h"
  proof (cases "x \<in> set (Children (h ! r))")
    case False
    then obtain c where "c \<in> set (Children (h ! r))" "x \<in> set (Children (h ! c))" using s by auto
    then show ?thesis using heap_ok_child[OF assms(1,2)] heap_ok_child[OF assms(1), of c x] by fastforce
  qed (use heap_ok_child[OF assms(1,2)] in blast)
  then show "r < x" "x < length h" by simp_all
qed

text \<open>Entering regions: the addresses grow.\<close>

lemma fgSwitchRegion_enter:
  assumes "heap_ok h" "r < length h" "length h \<le> r + fuel" "Offset < EndMsilOffset (h ! r)"
  shows "\<exists>res. fgSwitchRegion fuel h r Offset = Some res \<and>
     (\<forall>r' n es. res = Inr (r', n, es) \<longrightarrow> r' < length h \<and> Offset < n \<and> n \<le> EndMsilOffset (h ! r') \<and>
        (StartMsilOffset (h ! r) \<le> Offset \<longrightarrow> StartMsilOffset (h ! r') \<le> Offset))"
  using assms(2-4)
proof (induction fuel arbitrary: r)
  case (Suc fuel)
  let ?sw = "switch_children h Offset (Children (h ! r)) (EndMsilOffset (h ! r))"
  consider e where "?sw = Inl e" | n where "?sw = Inr (Continue n)" | x es where "?sw = Inr (Enter x es)"
    by (cases ?sw) (auto, metis switch_step.exhaust)
  then show ?case
  proof cases
    case 2
    then show ?thesis using switch_children_spec[OF Suc.prems(3) 2] Suc.prems by (simp add: fgSwitchRegion_step)
  next
    case (3 x es)
    note x = switch_target[OF assms(1) Suc.prems(1) 3 Suc.prems(3)]
    obtain res where "fgSwitchRegion fuel h x Offset = Some res"
      "\<forall>r' n es. res = Inr (r', n, es) \<longrightarrow> r' < length h \<and> Offset < n \<and> n \<le> EndMsilOffset (h ! r') \<and>
        (StartMsilOffset (h ! x) \<le> Offset \<longrightarrow> StartMsilOffset (h ! r') \<le> Offset)"
      using Suc.IH[of x] x Suc.prems by (auto simp: contains_offset_def)
    then show ?thesis using 3 x(3) Suc.prems(3)
      by (cases res) (auto simp: fgSwitchRegion_step contains_offset_def)
  qed (use Suc.prems in \<open>simp add: fgSwitchRegion_step\<close>)
qed simp

lemma enclosing_ancestor_smaller:
  assumes "heap_ok h" "r < length h" "rgnGetEnclosingAncestor h r = Some q"
  shows "q < r"
proof -
  have up: "p < x" if "x < length h" "Parent (h ! x) = Some p" for x p
    using heap_ok_region[OF assms(1) that(1)] that(2) by (auto simp: region_ok_def split: if_splits)
  show ?thesis
  proof (cases "rgnIsOutsideParent h r")
    case True
    then obtain p where "Parent (h ! r) = Some p" "Parent (h ! p) = Some q"
      using assms(3) by (auto simp: rgnGetEnclosingAncestor_def split: option.splits)
    then show ?thesis using up[OF assms(2)] up[of p q] assms(2) by fastforce
  next
    case False
    then show ?thesis using assms up by (simp add: rgnGetEnclosingAncestor_def)
  qed
qed

lemma fgSwitchRegion_spec:
  assumes "heap_ok h" "r < length h" "length h + r < fuel"
  shows "\<exists>res. fgSwitchRegion fuel h r Offset = Some res \<and>
     (\<forall>r' n es. res = Inr (r', n, es) \<longrightarrow> r' < length h \<and> Offset < n \<and> n \<le> EndMsilOffset (h ! r'))"
  using assms(2,3)
proof (induction r arbitrary: fuel rule: less_induct)
  case (less r)
  then obtain fuel' where fuel: "fuel = Suc fuel'" by (cases fuel) auto
  show ?case
  proof (cases "Offset < EndMsilOffset (h ! r)")
    case True
    then show ?thesis using fgSwitchRegion_enter[OF assms(1) less.prems(1), of fuel Offset] less.prems by fastforce
  next
    case False
    show ?thesis
    proof (cases "rgnGetEnclosingAncestor h r")
      case None
      then show ?thesis using False by (auto simp: fuel fgSwitchRegion.simps(2) Let_def)
    next
      case (Some q)
      have "q < r" by (rule enclosing_ancestor_smaller[OF assms(1) less.prems(1) Some])
      then have "\<exists>res. fgSwitchRegion fuel' h q Offset = Some res \<and>
         (\<forall>r' n es. res = Inr (r', n, es) \<longrightarrow> r' < length h \<and> Offset < n \<and> n \<le> EndMsilOffset (h ! r'))"
        using less.IH[of q fuel'] less.prems fuel by simp
      then show ?thesis using Some False by (auto simp: fuel fgSwitchRegion.simps(2) Let_def)
    qed
  qed
qed

subsection \<open>Properties\<close>



text \<open>The insertion sort of the clauses keeps all of them and, for a table that obeys the nesting
  rules, satisfies the check behind it: no clause stands behind one it is nested inside of, unless
  the nesting is mutual.\<close>

theorem clauses_sorted:
  assumes "well_nested clauses"
  shows "mset (sort_clauses clauses) = mset clauses \<and> clauses_in_order (sort_clauses clauses)"
  using sort_clauses_spec(1)[of "[]" clauses] sort_clauses_spec(2)[OF assms, of "[]" clauses]
  by (simp add: sort_clauses_def)

theorem clauses_sorted_witness:
  "mset (sort_clauses sample_clauses) = mset sample_clauses \<and> clauses_in_order (sort_clauses sample_clauses)"
  by (rule clauses_sorted)
    (simp add: sample_clauses_def well_nested_def clause_fits_def range_in_def word_le_nat_alt)

text \<open>C35: \<open>fgGetRegionFromMSILOffset\<close> yields the smallest region that contains the offset, or the root when
  none does.\<close>

theorem region_from_offset_smallest:
  "(\<exists>r < length h. fgGetRegionFromMSILOffset h Offset = Some r \<and> contains_offset (h ! r) Offset
      \<and> (\<forall>q < length h. contains_offset (h ! q) Offset \<longrightarrow> region_size (h ! r) \<le> region_size (h ! q)))
   \<or> ((\<forall>r < length h. \<not> contains_offset (h ! r) Offset) \<and>
      fgGetRegionFromMSILOffset h Offset = (if h = [] then None else Some 0))"
proof -
  have all: "set (AllRegionList h) = {r. r < length h}" by (auto simp: AllRegionList_def)
  have max: "x \<le> (- 1 :: u32)" for x by (rule word_n1_ge)
  show ?thesis
    using smallest_region_spec[of h Offset "AllRegionList h" "if h = [] then None else Some 0" "- 1"]
    unfolding fgGetRegionFromMSILOffset_def[symmetric] all using max by blast
qed

theorem region_from_offset_smallest_witness:
  "fgGetRegionFromMSILOffset (root_heap 50) 3 = Some 0"
  using region_from_offset_smallest[of "root_heap 50" 3]
  by (auto simp: root_heap_def rgnMakeRegion_def cleared_region_def contains_offset_def)

lemma created_heap_ok:
  assumes "rgnCreateRegionTree n clauses = Some h" "h \<noteq> []"
  shows "heap_ok h"
  using assms add_clauses_spec[OF root_heap_ok, of "rev (sort_clauses clauses)" n]
  by (auto simp: rgnCreateRegionTree_def split: if_splits)



text \<open>C34: \<open>fgSwitchRegion\<close> ends on every tree built by \<open>rgnCreateRegionTree\<close>, and where it finds the region
  for an offset, the next offset it reports lies behind that offset and not behind the end of the
  region, so the scan of the byte codes makes progress.\<close>

theorem switch_region_progress:
  assumes "rgnCreateRegionTree ILCodeSize clauses = Some h" "r < length h"
  shows "\<exists>res. fgSwitchRegion (Suc (length h + r)) h r Offset = Some res \<and>
     (\<forall>r' n es. res = Inr (r', n, es) \<longrightarrow> r' < length h \<and> Offset < n \<and> n \<le> EndMsilOffset (h ! r'))"
proof -
  have "h \<noteq> []" using assms(2) by auto
  from fgSwitchRegion_spec[OF created_heap_ok[OF assms(1) this] assms(2), of "Suc (length h + r)" Offset] show ?thesis by simp
qed

theorem switch_region_progress_witness:
  "\<exists>h res. rgnCreateRegionTree 50 sample_clauses = Some h \<and> fgSwitchRegion (Suc (length h + 0)) h 0 8 = Some res \<and>
     (\<forall>r' n es. res = Inr (r', n, es) \<longrightarrow> r' < length h \<and> 8 < n \<and> n \<le> EndMsilOffset (h ! r'))"
proof -
  obtain h where h: "rgnCreateRegionTree 50 sample_clauses = Some h" "heap_ok h"
    using add_clauses_spec[OF root_heap_ok, of "rev (sort_clauses sample_clauses)" 50]
    by (auto simp: rgnCreateRegionTree_def sample_clauses_def)
  then have "0 < length h" by (simp add: heap_ok_def)
  from switch_region_progress[OF h(1) this, of 8] h(1) show ?thesis by blast
qed

end
