(* ===== verification/NodeOffsets.thy ===== *)
theory NodeOffsets
  imports Prelude
begin

section \<open>Tables of MSIL offsets\<close>

text \<open>
  Two tables indexed by MSIL offsets that the flow graph builder of lib/Reader/reader.cpp keeps: the
  ordered list of the offsets that are branch targets, cut into buckets of 32 offsets
  (\<open>NodeOffsetListArray\<close>), and the bit vector of the offsets that are legal targets
  (\<open>ReaderBitVector\<close>). What their users rely on is stated as two locales, \<open>label_table\<close> and \<open>bit_set\<close>,
  which are interpreted on the code's representations.
\<close>

subsection \<open>The list of branch targets\<close>

type_synonym node = nat

record FlowGraphNodeOffsetList =
  Offset :: u32
  Node :: node

type_synonym label_array = "FlowGraphNodeOffsetList list list"

definition FLOW_GRAPH_NODE_LIST_ARRAY_STRIDE :: u32 where
  "FLOW_GRAPH_NODE_LIST_ARRAY_STRIDE = 32"

definition NodeOffsetListArraySize :: "u32 \<Rightarrow> u32" where
  "NodeOffsetListArraySize ILCodeSize = ILCodeSize div FLOW_GRAPH_NODE_LIST_ARRAY_STRIDE + 1"

text \<open>Temporary memory is cleared: the array starts with empty lists.\<close>

definition empty_labels :: "u32 \<Rightarrow> label_array" where
  "empty_labels ILCodeSize = replicate (unat (NodeOffsetListArraySize ILCodeSize)) []"

definition bucket_index :: "u32 \<Rightarrow> nat" where
  "bucket_index TargetOffset = unat (TargetOffset div FLOW_GRAPH_NODE_LIST_ARRAY_STRIDE)"

text \<open>
  The walk over one list: it stops at the element with the offset, or before the first element with
  a larger one. The result is the element found and the list split at the stop.
\<close>

fun bucket_walk ::
    "u32 \<Rightarrow> FlowGraphNodeOffsetList list \<Rightarrow> FlowGraphNodeOffsetList list \<Rightarrow>
     FlowGraphNodeOffsetList option \<times> FlowGraphNodeOffsetList list \<times> FlowGraphNodeOffsetList list" where
  "bucket_walk TargetOffset passed [] = (None, passed, [])"
| "bucket_walk TargetOffset passed (Element # List) =
     (if Offset Element = TargetOffset then (Some Element, passed, Element # List)
      else if Offset Element > TargetOffset then (None, passed, Element # List)
      else bucket_walk TargetOffset (passed @ [Element]) List)"

text \<open>\<open>fgAddNodeMSILOffset\<close> on the array: the node the offset has, if it has one.\<close>

definition find_label :: "label_array \<Rightarrow> u32 \<Rightarrow> node option result" where
  "find_label labels TargetOffset =
     rbind (array_get ''NodeOffsetListArray'' labels (bucket_index TargetOffset)) (\<lambda>bucket.
     Inr (map_option Node (fst (bucket_walk TargetOffset [] bucket))))"

text \<open>And the new element, linked in where the walk stopped.\<close>

definition insert_label :: "u32 \<Rightarrow> node \<Rightarrow> label_array \<Rightarrow> label_array" where
  "insert_label TargetOffset n labels =
     (let Index = bucket_index TargetOffset; (_, before, after) = bucket_walk TargetOffset [] (labels ! Index) in
      labels[Index := before @ \<lparr>Offset = TargetOffset, Node = n\<rparr> # after])"

subsection \<open>The bit vector\<close>

definition ElementSize :: u32 where
  "ElementSize = 8"

record ReaderBitVector =
  BitVector :: "u8 list"
  BitVectorLength :: u32
  NumBits :: u32

definition allocateBitVector :: "u32 \<Rightarrow> ReaderBitVector" where
  "allocateBitVector Size =
     (let Length = (Size + ElementSize - 1) div ElementSize in
      \<lparr>BitVector = replicate (unat Length) 0, BitVectorLength = Length, NumBits = Size\<rparr>)"

definition bit_mask :: "u32 \<Rightarrow> u8" where
  "bit_mask BitNum = push_bit (unat (BitNum mod ElementSize)) 1"

text \<open>The three operations assert that the bit and its element exist before they touch the array.\<close>

definition bit_element :: "ReaderBitVector \<Rightarrow> u32 \<Rightarrow> nat result" where
  "bit_element v BitNum =
     rbind (rassert ''BitNum < NumBits'' (BitNum < NumBits v)) (\<lambda>_.
     let Elem = BitNum div ElementSize in
     rbind (rassert ''Elem < BitVectorLength'' (Elem < BitVectorLength v)) (\<lambda>_. Inr (unat Elem)))"

definition setBit :: "u32 \<Rightarrow> ReaderBitVector \<Rightarrow> ReaderBitVector result" where
  "setBit BitNum v =
     rbind (bit_element v BitNum) (\<lambda>Elem.
     rbind (array_get ''BitVector'' (BitVector v) Elem) (\<lambda>w.
     rbind (array_put ''BitVector'' (BitVector v) Elem (or w (bit_mask BitNum))) (\<lambda>ws.
     Inr (v\<lparr>BitVector := ws\<rparr>))))"

definition getBit :: "u32 \<Rightarrow> ReaderBitVector \<Rightarrow> bool result" where
  "getBit BitNum v =
     rbind (bit_element v BitNum) (\<lambda>Elem.
     rbind (array_get ''BitVector'' (BitVector v) Elem) (\<lambda>w.
     Inr (and w (bit_mask BitNum) \<noteq> 0)))"

definition clrBit :: "u32 \<Rightarrow> ReaderBitVector \<Rightarrow> ReaderBitVector result" where
  "clrBit BitNum v =
     rbind (bit_element v BitNum) (\<lambda>Elem.
     rbind (array_get ''BitVector'' (BitVector v) Elem) (\<lambda>w.
     rbind (array_put ''BitVector'' (BitVector v) Elem (and w (not (bit_mask BitNum)))) (\<lambda>ws.
     Inr (v\<lparr>BitVector := ws\<rparr>))))"

subsection \<open>Specification\<close>

text \<open>The labels in the order of the array; a bucket holds the offsets of its range, in order.\<close>

definition labels_of :: "label_array \<Rightarrow> FlowGraphNodeOffsetList list" where
  "labels_of labels = concat labels"

definition labels_ok :: "label_array \<Rightarrow> bool" where
  "labels_ok labels \<longleftrightarrow>
     (\<forall>i < length labels. sorted_wrt (<) (map Offset (labels ! i))
        \<and> (\<forall>e \<in> set (labels ! i). bucket_index (Offset e) = i))"

definition label_map :: "label_array \<Rightarrow> u32 \<Rightarrow> node option" where
  "label_map labels off = map_of (map (\<lambda>e. (Offset e, Node e)) (labels_of labels)) off"

definition in_labels :: "label_array \<Rightarrow> u32 \<Rightarrow> bool" where
  "in_labels labels off \<longleftrightarrow> bucket_index off < length labels"

text \<open>
  The contract of a table of labels: what a lookup finds after a label was added. \<open>content\<close> is the
  map the table stands for, \<open>ok\<close> its representation invariant and \<open>inside\<close> the offsets it has room for.
\<close>

locale label_table =
  fixes ok :: "'t \<Rightarrow> bool"
    and inside :: "'t \<Rightarrow> u32 \<Rightarrow> bool"
    and content :: "'t \<Rightarrow> u32 \<Rightarrow> node option"
    and look :: "'t \<Rightarrow> u32 \<Rightarrow> node option result"
    and add :: "u32 \<Rightarrow> node \<Rightarrow> 't \<Rightarrow> 't"
  assumes look_content: "ok t \<Longrightarrow> inside t off \<Longrightarrow> look t off = Inr (content t off)"
    and add_ok: "ok t \<Longrightarrow> inside t off \<Longrightarrow> content t off = None \<Longrightarrow> ok (add off n t)"
    and add_inside: "inside (add off n t) off' = inside t off'"
    and add_content: "ok t \<Longrightarrow> inside t off \<Longrightarrow> content t off = None \<Longrightarrow>
      content (add off n t) = (content t)(off \<mapsto> n)"
begin

text \<open>Find an offset or add it with a given node.\<close>

definition ensure :: "u32 \<Rightarrow> node \<Rightarrow> 't \<Rightarrow> 't" where
  "ensure off n t = (case content t off of Some _ \<Rightarrow> t | None \<Rightarrow> add off n t)"

lemma ensure_ok: "ok t \<Longrightarrow> inside t off \<Longrightarrow> ok (ensure off n t)"
  by (auto simp: ensure_def add_ok split: option.split)

lemma ensure_found: "ok t \<Longrightarrow> inside t off \<Longrightarrow> \<exists>n'. content (ensure off n t) off = Some n'"
  by (auto simp: ensure_def add_content split: option.split)

lemma ensure_keeps: "ok t \<Longrightarrow> inside t off \<Longrightarrow> content t off' = Some n' \<Longrightarrow> content (ensure off n t) off' = Some n'"
  by (auto simp: ensure_def add_content split: option.split)

lemma ensure_dom: "ok t \<Longrightarrow> inside t off \<Longrightarrow> dom (content (ensure off n t)) = insert off (dom (content t))"
  by (auto simp: ensure_def add_content split: option.split if_splits)

text \<open>A sequence of offsets: all of them are found at the end, with the nodes found before.\<close>

lemma ensure_all:
  assumes "ok t" and "\<forall>(off, n) \<in> set ls. inside t off"
  shows "ok (fold (\<lambda>(off, n). ensure off n) ls t)
    \<and> dom (content (fold (\<lambda>(off, n). ensure off n) ls t)) = fst ` set ls \<union> dom (content t)
    \<and> (\<forall>off n. content t off = Some n \<longrightarrow> content (fold (\<lambda>(off, n). ensure off n) ls t) off = Some n)"
  using assms
proof (induction ls arbitrary: t)
  case Nil
  then show ?case by simp
next
  case (Cons l ls)
  obtain off n where l: "l = (off, n)" by (cases l)
  have i: "inside t off" using Cons.prems l by auto
  have "inside (ensure off n t) = inside t" by (auto simp: ensure_def add_inside split: option.split)
  then have p: "ok (ensure off n t)" "\<forall>(off', n') \<in> set ls. inside (ensure off n t) off'"
    using Cons.prems ensure_ok[OF Cons.prems(1) i] by auto
  show ?case using Cons.IH[OF p] ensure_dom[OF Cons.prems(1) i] ensure_keeps[OF Cons.prems(1) i]
    by (auto simp: l)
qed

end

text \<open>The contract of a set of bits below a bound.\<close>

locale bit_set =
  fixes members :: "'v \<Rightarrow> u32 set"
    and bound :: "'v \<Rightarrow> u32"
    and wf :: "'v \<Rightarrow> bool"
    and fresh :: "u32 \<Rightarrow> 'v"
    and put :: "u32 \<Rightarrow> 'v \<Rightarrow> 'v result"
    and test :: "u32 \<Rightarrow> 'v \<Rightarrow> bool result"
    and del :: "u32 \<Rightarrow> 'v \<Rightarrow> 'v result"
    and fits :: "u32 \<Rightarrow> bool"
  assumes fresh: "fits n \<Longrightarrow> wf (fresh n) \<and> bound (fresh n) = n \<and> members (fresh n) = {}"
    and test: "wf v \<Longrightarrow> i < bound v \<Longrightarrow> test i v = Inr (i \<in> members v)"
    and put: "wf v \<Longrightarrow> i < bound v \<Longrightarrow> \<exists>v'. put i v = Inr v' \<and> wf v' \<and> bound v' = bound v \<and> members v' = insert i (members v)"
    and del: "wf v \<Longrightarrow> i < bound v \<Longrightarrow> \<exists>v'. del i v = Inr v' \<and> wf v' \<and> bound v' = bound v \<and> members v' = members v - {i}"
begin

fun put_all :: "u32 list \<Rightarrow> 'v \<Rightarrow> 'v result" where
  "put_all [] v = Inr v"
| "put_all (i # is) v = rbind (put i v) (put_all is)"

lemma put_all_members:
  assumes "wf v" and "\<forall>i \<in> set is. i < bound v"
  shows "\<exists>v'. put_all is v = Inr v' \<and> wf v' \<and> bound v' = bound v \<and> members v' = set is \<union> members v"
  using assms
proof (induction "is" arbitrary: v)
  case Nil
  then show ?case by simp
next
  case (Cons i "is")
  then obtain v' where v': "put i v = Inr v'" "wf v'" "bound v' = bound v" "members v' = insert i (members v)"
    using put[of v i] by auto
  with Cons.prems have "\<forall>i \<in> set is. i < bound v'" by auto
  from Cons.IH[OF v'(2) this] show ?case by (auto simp: v')
qed

end

subsection \<open>Lemmas\<close>

lemma bucket_walk_spec:
  assumes "sorted_wrt (<) (map Offset bs)" and "bucket_walk T passed bs = (found, before, after)"
  shows "\<exists>pre. before = passed @ pre \<and> bs = pre @ after \<and> (\<forall>e \<in> set pre. Offset e < T)
     \<and> (case found of Some e \<Rightarrow> Offset e = T \<and> (\<exists>es. after = e # es) | None \<Rightarrow> \<forall>e \<in> set after. T < Offset e)"
  using assms
proof (induction bs arbitrary: passed)
  case Nil
  then show ?case by auto
next
  case (Cons e bs)
  consider "Offset e = T" | "T < Offset e" | "Offset e < T" by (meson not_less_iff_gr_or_eq)
  then show ?case
  proof cases
    case 1
    with Cons.prems show ?thesis by auto
  next
    case 2
    with Cons.prems have "before = passed" "after = e # bs" "found = None" by (auto split: if_splits)
    with 2 Cons.prems(1) show ?thesis by (auto dest: less_trans)
  next
    case 3
    with Cons.prems have "bucket_walk T (passed @ [e]) bs = (found, before, after)" "sorted_wrt (<) (map Offset bs)"
      by (auto split: if_splits)
    from Cons.IH[OF this(2) this(1)] 3 show ?thesis by (auto split: option.splits)
  qed
qed

lemma sorted_wrt_concat:
  assumes "\<forall>i < length xss. sorted_wrt R (xss ! i)"
    and "\<forall>i j. i < j \<longrightarrow> j < length xss \<longrightarrow> (\<forall>x \<in> set (xss ! i). \<forall>y \<in> set (xss ! j). R x y)"
  shows "sorted_wrt R (concat xss)"
  using assms
proof (induction xss)
  case Nil
  then show ?case by simp
next
  case (Cons xs xss)
  have "sorted_wrt R (concat xss)"
  proof (rule Cons.IH)
    show "\<forall>i < length xss. sorted_wrt R (xss ! i)" using Cons.prems(1) by fastforce
    show "\<forall>i j. i < j \<longrightarrow> j < length xss \<longrightarrow> (\<forall>x \<in> set (xss ! i). \<forall>y \<in> set (xss ! j). R x y)"
    proof (intro allI impI)
      fix i j assume "i < j" "j < length xss"
      then show "\<forall>x \<in> set (xss ! i). \<forall>y \<in> set (xss ! j). R x y"
        using Cons.prems(2)[rule_format, of "Suc i" "Suc j"] by auto
    qed
  qed
  moreover have "sorted_wrt R xs" using Cons.prems(1) by fastforce
  moreover have "R x y" if "x \<in> set xs" "y \<in> set (concat xss)" for x y
  proof -
    from that(2) obtain j where "j < length xss" "y \<in> set (xss ! j)" by (metis concat_eq_Nil_conv UN_E in_set_conv_nth set_concat)
    then show ?thesis using Cons.prems(2)[rule_format, of 0 "Suc j"] that(1) by auto
  qed
  ultimately show ?case by (auto simp: sorted_wrt_append)
qed

lemma bucket_index_mono: "bucket_index a < bucket_index b \<Longrightarrow> a < b"
proof (rule ccontr)
  assume l: "bucket_index a < bucket_index b" and "\<not> a < b"
  then have "unat b \<le> unat a" by (simp add: word_less_nat_alt)
  then have "unat b div 32 \<le> unat a div 32" by (rule div_le_mono)
  with l show False
    by (simp add: bucket_index_def FLOW_GRAPH_NODE_LIST_ARRAY_STRIDE_def unat_div)
qed

lemma labels_sorted:
  assumes "labels_ok labels"
  shows "sorted_wrt (<) (map Offset (labels_of labels))"
  unfolding labels_of_def map_concat
proof (rule sorted_wrt_concat)
  show "\<forall>i < length (map (map Offset) labels). sorted_wrt (<) (map (map Offset) labels ! i)"
    using assms by (simp add: labels_ok_def)
  show "\<forall>i j. i < j \<longrightarrow> j < length (map (map Offset) labels) \<longrightarrow>
      (\<forall>x \<in> set (map (map Offset) labels ! i). \<forall>y \<in> set (map (map Offset) labels ! j). x < y)"
  proof (intro allI impI ballI)
    fix i j x y
    assume ij: "i < j" "j < length (map (map Offset) labels)"
      and "x \<in> set (map (map Offset) labels ! i)" "y \<in> set (map (map Offset) labels ! j)"
    then have "bucket_index x = i" "bucket_index y = j" using assms by (auto simp: labels_ok_def)
    then show "x < y" using ij(1) by (intro bucket_index_mono) simp
  qed
qed

lemma labels_distinct: "labels_ok labels \<Longrightarrow> distinct (map Offset (labels_of labels))"
  by (drule labels_sorted) (auto simp: strict_sorted_iff)

lemma label_map_Some:
  assumes "labels_ok labels"
  shows "label_map labels off = Some n \<longleftrightarrow> (\<exists>e \<in> set (labels_of labels). Offset e = off \<and> Node e = n)"
proof -
  have "distinct (map fst (map (\<lambda>e. (Offset e, Node e)) (labels_of labels)))"
    using labels_distinct[OF assms] by (simp add: comp_def)
  then show ?thesis unfolding label_map_def by (subst map_of_eq_Some_iff) auto
qed

lemma label_map_None: "label_map labels off = None \<longleftrightarrow> off \<notin> Offset ` set (labels_of labels)"
  by (simp add: label_map_def map_of_eq_None_iff image_image)

lemma label_in_bucket:
  assumes "labels_ok labels" and "in_labels labels off"
  shows "(e \<in> set (labels_of labels) \<and> Offset e = off) \<longleftrightarrow> (e \<in> set (labels ! bucket_index off) \<and> Offset e = off)"
proof
  assume e: "e \<in> set (labels_of labels) \<and> Offset e = off"
  then obtain i where "i < length labels" "e \<in> set (labels ! i)" by (metis labels_of_def UN_E in_set_conv_nth set_concat)
  with assms(1) e show "e \<in> set (labels ! bucket_index off) \<and> Offset e = off" by (auto simp: labels_ok_def)
next
  assume "e \<in> set (labels ! bucket_index off) \<and> Offset e = off"
  then show "e \<in> set (labels_of labels) \<and> Offset e = off"
    using assms(2) by (auto simp: labels_of_def in_labels_def)
qed

lemma find_label_content:
  assumes "labels_ok labels" and "in_labels labels off"
  shows "find_label labels off = Inr (label_map labels off)"
proof -
  let ?b = "labels ! bucket_index off"
  obtain found before after where w: "bucket_walk off [] ?b = (found, before, after)" by (metis prod_cases3)
  have s: "sorted_wrt (<) (map Offset ?b)" using assms by (simp add: labels_ok_def in_labels_def)
  from bucket_walk_spec[OF s w] have b: "?b = before @ after" "\<forall>e \<in> set before. Offset e < off"
    "case found of Some e \<Rightarrow> Offset e = off \<and> (\<exists>es. after = e # es) | None \<Rightarrow> \<forall>e \<in> set after. off < Offset e" by auto
  have "label_map labels off = map_option Node found"
  proof (cases found)
    case None
    then have "off \<notin> Offset ` set ?b" using b by (auto dest!: bspec)
    then have "off \<notin> Offset ` set (labels_of labels)" using label_in_bucket[OF assms] by auto
    with None show ?thesis by (simp add: label_map_None[THEN iffD2])
  next
    case (Some e)
    then have "e \<in> set ?b" "Offset e = off" using b by auto
    then have "e \<in> set (labels_of labels)" using label_in_bucket[OF assms] by blast
    then show ?thesis using Some \<open>Offset e = off\<close> by (auto simp: label_map_Some[OF assms(1)])
  qed
  with w assms(2) show ?thesis by (simp add: find_label_def in_labels_def)
qed

lemma insert_label_spec:
  assumes "labels_ok labels" and "in_labels labels off" and "label_map labels off = None"
  shows "labels_ok (insert_label off n labels)
     \<and> set (labels_of (insert_label off n labels)) = insert \<lparr>Offset = off, Node = n\<rparr> (set (labels_of labels))"
proof -
  let ?i = "bucket_index off" and ?new = "\<lparr>Offset = off, Node = n\<rparr>"
  have i: "?i < length labels" using assms(2) by (simp add: in_labels_def)
  obtain found before after where w: "bucket_walk off [] (labels ! ?i) = (found, before, after)" by (metis prod_cases3)
  have s: "sorted_wrt (<) (map Offset (labels ! ?i))" using assms(1) i by (simp add: labels_ok_def)
  have "map_option Node found = None"
    using find_label_content[OF assms(1,2)] assms(3) w i by (simp add: find_label_def)
  with bucket_walk_spec[OF s w] have b: "labels ! ?i = before @ after" "\<forall>e \<in> set before. Offset e < off"
    "\<forall>e \<in> set after. off < Offset e" by auto
  have ins: "insert_label off n labels = labels[?i := before @ ?new # after]" by (simp add: insert_label_def w)
  have "sorted_wrt (<) (map Offset (before @ ?new # after))" using s b by (auto simp: sorted_wrt_append)
  moreover have "\<forall>e \<in> set (before @ ?new # after). bucket_index (Offset e) = ?i"
    using assms(1) i b(1) by (auto simp: labels_ok_def)
  ultimately have "labels_ok (insert_label off n labels)"
    using assms(1) i unfolding ins labels_ok_def length_list_update by (metis nth_list_update)
  moreover have "set (labels_of (insert_label off n labels)) = insert ?new (set (labels_of labels))"
  proof -
    have "labels = take ?i labels @ (before @ after) # drop (Suc ?i) labels" using i b(1) by (metis id_take_nth_drop)
    then have "set (concat labels) = set (concat (take ?i labels @ (before @ after) # drop (Suc ?i) labels))" by simp
    then show ?thesis unfolding ins labels_of_def by (auto simp: upd_conv_take_nth_drop[OF i])
  qed
  ultimately show ?thesis by simp
qed

lemma insert_label_content:
  assumes "labels_ok labels" and "in_labels labels off" and "label_map labels off = None"
  shows "label_map (insert_label off n labels) = (label_map labels)(off \<mapsto> n)"
proof
  fix k
  note sp = insert_label_spec[OF assms, of n]
  have "label_map (insert_label off n labels) k = Some m \<longleftrightarrow> ((label_map labels)(off \<mapsto> n)) k = Some m" for m
    using sp assms(3) by (auto simp: label_map_Some label_map_Some[OF assms(1)] label_map_None)
  then show "label_map (insert_label off n labels) k = ((label_map labels)(off \<mapsto> n)) k" by (metis not_None_eq)
qed

lemma in_labels_insert: "in_labels (insert_label off n labels) off' = in_labels labels off'"
  by (simp add: in_labels_def insert_label_def Let_def split: prod.split)

interpretation lab: label_table labels_ok in_labels label_map find_label insert_label
  by unfold_locales
    (auto simp: find_label_content insert_label_spec insert_label_content in_labels_insert)

lemma empty_labels_ok: "labels_ok (empty_labels n) \<and> label_map (empty_labels n) = (\<lambda>_. None)"
  by (auto simp: labels_ok_def empty_labels_def label_map_def labels_of_def fun_eq_iff)

lemma in_labels_iff:
  assumes "length labels = unat (NodeOffsetListArraySize n)"
  shows "in_labels labels off \<longleftrightarrow> unat off div 32 \<le> unat n div 32"
proof -
  have "unat (n div 32 + 1) = unat n div 32 + 1"
    by (subst unat_add_no_wrap) (use unat_bound_u32[of n] in \<open>auto simp: unat_div\<close>)
  then show ?thesis
    by (simp add: in_labels_def assms NodeOffsetListArraySize_def bucket_index_def
        FLOW_GRAPH_NODE_LIST_ARRAY_STRIDE_def unat_div less_Suc_eq_le)
qed

subsection \<open>Specification and samples\<close>

definition bit_members :: "ReaderBitVector \<Rightarrow> u32 set" where
  "bit_members v = {i. i < NumBits v \<and> bit (BitVector v ! unat (i div ElementSize)) (unat (i mod ElementSize))}"

definition bits_ok :: "ReaderBitVector \<Rightarrow> bool" where
  "bits_ok v \<longleftrightarrow> length (BitVector v) = unat (BitVectorLength v) \<and> unat (NumBits v) \<le> 8 * unat (BitVectorLength v)"

definition bits_fit :: "u32 \<Rightarrow> bool" where
  "bits_fit n \<longleftrightarrow> unat n + 7 < 2 ^ 32"

subsection \<open>Lemmas\<close>

lemma bit_position: "unat (i div ElementSize) = unat i div 8" "unat (i mod ElementSize) = unat i mod 8"
  by (simp_all add: ElementSize_def unat_div unat_mod)

lemma bit_element_ok:
  assumes "bits_ok v" and "i < NumBits v"
  shows "bit_element v i = Inr (unat i div 8) \<and> unat i div 8 < length (BitVector v)"
proof -
  have "unat i < 8 * unat (BitVectorLength v)" using assms by (simp add: bits_ok_def word_less_nat_alt)
  then have "unat i div 8 < unat (BitVectorLength v)" by (simp add: less_mult_imp_div_less mult.commute)
  with assms show ?thesis
    by (simp add: bit_element_def bits_ok_def word_less_nat_alt bit_position Let_def)
qed

lemma bit_mask_bit: "bit (bit_mask i) k \<longleftrightarrow> k = unat i mod 8"
  by (auto simp: bit_mask_def bit_position bit_simps)

lemma getBit_members:
  assumes "bits_ok v" and "i < NumBits v"
  shows "getBit i v = Inr (i \<in> bit_members v)"
proof -
  let ?w = "BitVector v ! (unat i div 8)"
  have "and ?w (bit_mask i) \<noteq> 0 \<longleftrightarrow> bit ?w (unat i mod 8)"
    by (auto simp: bit_eq_iff[of "and _ _"] bit_and_iff bit_mask_bit)
  then show ?thesis
    using bit_element_ok[OF assms] assms(2) by (simp add: getBit_def bit_members_def bit_position)
qed

text \<open>Changing one bit of one element changes one member.\<close>

lemma bit_members_update:
  assumes "bits_ok v" and "i < NumBits v"
    and w: "\<And>k. k < 8 \<Longrightarrow> bit w k \<longleftrightarrow> (if k = unat i mod 8 then b else bit (BitVector v ! (unat i div 8)) k)"
  shows "bit_members (v\<lparr>BitVector := (BitVector v)[unat i div 8 := w]\<rparr>)
     = (if b then insert i (bit_members v) else bit_members v - {i})"
proof -
  have e: "unat i div 8 < length (BitVector v)" using bit_element_ok[OF assms(1,2)] by simp
  have eq: "j = i" if "unat j div 8 = unat i div 8" "unat j mod 8 = unat i mod 8" for j
    using that by (metis div_mult_mod_eq unsigned_word_eqI)
  have "j \<in> bit_members (v\<lparr>BitVector := (BitVector v)[unat i div 8 := w]\<rparr>)
     \<longleftrightarrow> (if j = i then b else j \<in> bit_members v)" for j
  proof (cases "unat j div 8 = unat i div 8")
    case True
    show ?thesis
    proof (cases "j = i")
      case True
      then show ?thesis using e w[of "unat i mod 8"] assms(2) by (simp add: bit_members_def bit_position)
    next
      case False
      then have "unat j mod 8 \<noteq> unat i mod 8" using eq \<open>unat j div 8 = unat i div 8\<close> by blast
      then show ?thesis using False \<open>unat j div 8 = unat i div 8\<close> e w[of "unat j mod 8"]
        by (simp add: bit_members_def bit_position)
    qed
  next
    case False
    then show ?thesis by (auto simp: bit_members_def bit_position)
  qed
  then show ?thesis by (intro set_eqI) (simp del: set_eq_iff)
qed

lemma setBit_members:
  assumes "bits_ok v" and "i < NumBits v"
  shows "\<exists>v'. setBit i v = Inr v' \<and> bits_ok v' \<and> NumBits v' = NumBits v \<and> bit_members v' = insert i (bit_members v)"
proof -
  have "bit_members (v\<lparr>BitVector := (BitVector v)[unat i div 8 := or (BitVector v ! (unat i div 8)) (bit_mask i)]\<rparr>)
      = insert i (bit_members v)"
    by (subst bit_members_update[OF assms, where b = True]) (auto simp: bit_or_iff bit_mask_bit)
  then show ?thesis using bit_element_ok[OF assms] assms(1) by (simp add: setBit_def bits_ok_def)
qed

lemma clrBit_members:
  assumes "bits_ok v" and "i < NumBits v"
  shows "\<exists>v'. clrBit i v = Inr v' \<and> bits_ok v' \<and> NumBits v' = NumBits v \<and> bit_members v' = bit_members v - {i}"
proof -
  have "bit_members (v\<lparr>BitVector := (BitVector v)[unat i div 8 := and (BitVector v ! (unat i div 8)) (not (bit_mask i))]\<rparr>)
      = bit_members v - {i}"
    by (subst bit_members_update[OF assms, where b = False]) (auto simp: bit_and_iff bit_not_iff bit_mask_bit)
  then show ?thesis using bit_element_ok[OF assms] assms(1) by (simp add: clrBit_def bits_ok_def)
qed

lemma allocateBitVector_empty:
  assumes "bits_fit n"
  shows "bits_ok (allocateBitVector n) \<and> NumBits (allocateBitVector n) = n \<and> bit_members (allocateBitVector n) = {}"
proof -
  have "unat (n + 8 - 1) = unat n + 7"
    using assms unat_add_no_wrap[of n 7] by (simp add: bits_fit_def add_diff_eq[symmetric])
  then have l: "unat ((n + 8 - 1) div 8) = (unat n + 7) div 8" by (simp add: unat_div)
  then have b: "bits_ok (allocateBitVector n)" by (simp add: bits_ok_def allocateBitVector_def ElementSize_def)
  have "i \<notin> bit_members (allocateBitVector n)" for i
  proof
    assume i: "i \<in> bit_members (allocateBitVector n)"
    then have "i < NumBits (allocateBitVector n)" by (simp add: bit_members_def)
    with b have "unat i div 8 < length (BitVector (allocateBitVector n))" by (rule bit_element_ok[THEN conjunct2])
    with i show False by (simp add: bit_members_def allocateBitVector_def bit_position Let_def)
  qed
  with b show ?thesis by (auto simp: allocateBitVector_def Let_def)
qed

interpretation bv: bit_set bit_members NumBits bits_ok allocateBitVector setBit getBit clrBit bits_fit
  by unfold_locales (auto simp: getBit_members setBit_members clrBit_members allocateBitVector_empty)

subsection \<open>Specification and samples\<close>

definition set_bits_of :: "u32 list \<Rightarrow> ReaderBitVector \<Rightarrow> ReaderBitVector result" where
  "set_bits_of offsets v = fold (\<lambda>i r. rbind r (setBit i)) offsets (Inr v)"

subsection \<open>Lemmas\<close>

lemma set_bits_of_put_all: "set_bits_of offsets v = bv.put_all offsets v"
proof -
  have e: "fold (\<lambda>i r. rbind r (setBit i)) xs (Inl e) = Inl e" for xs and e :: fault
    by (induction xs) auto
  have "fold (\<lambda>i r. rbind r (setBit i)) offsets (Inr v) = bv.put_all offsets v"
  proof (induction offsets arbitrary: v)
    case (Cons i offsets)
    then show ?case by (cases "setBit i v") (auto simp: e)
  qed simp
  then show ?thesis by (simp add: set_bits_of_def)
qed

subsection \<open>Properties\<close>

text \<open>A bit vector for \<open>n\<close> offsets in which a sequence of offsets below \<open>n\<close> is set reads back as
  exactly the set of these offsets, and clearing one of them afterwards removes exactly that one;
  none of the operations indexes outside the vector.\<close>

theorem bit_vector_is_a_set:
  assumes "bits_fit n" and "\<forall>i \<in> set offsets. i < n" and "k < n"
  shows "\<exists>v v'. set_bits_of offsets (allocateBitVector n) = Inr v \<and> clrBit k v = Inr v'
     \<and> (\<forall>j < n. getBit j v = Inr (j \<in> set offsets) \<and> getBit j v' = Inr (j \<in> set offsets - {k}))"
proof -
  note a = bv.fresh[OF assms(1)]
  from bv.put_all_members[of "allocateBitVector n" offsets] a assms(2) obtain v
    where v: "set_bits_of offsets (allocateBitVector n) = Inr v" "bits_ok v" "NumBits v = n" "bit_members v = set offsets"
    by (auto simp: set_bits_of_put_all)
  from bv.del[OF v(2), of k] v assms(3) obtain v'
    where "clrBit k v = Inr v'" "bits_ok v'" "NumBits v' = n" "bit_members v' = set offsets - {k}" by auto
  with v show ?thesis by (auto simp: bv.test)
qed

theorem bit_vector_is_a_set_witness:
  "\<exists>v v'. set_bits_of [3, 17] (allocateBitVector 20) = Inr v \<and> clrBit 3 v = Inr v'
     \<and> (\<forall>j < 20. getBit j v = Inr (j \<in> set [3, 17]) \<and> getBit j v' = Inr (j \<in> set [3, 17] - {3}))"
  by (rule bit_vector_is_a_set) (simp_all add: bits_fit_def)

end
