(* ===== verification/FlowGraph.thy ===== *)
theory FlowGraph
  imports ILDecode EHRegion NodeOffsets
begin

section \<open>Building the flow graph\<close>

text \<open>
  \<open>ReaderBase::fgBuildBasicBlocksFromBytes\<close> (lib/Reader/reader.cpp) with the block operations of
  \<open>GenIR\<close> (lib/Reader/readerir.cpp). The first phase reads the instructions of the method and cuts it
  into blocks behind the instructions that end one; a branch is made to a temporary node for its
  target offset. The second phase goes over the target offsets in ascending order, cuts the block
  an offset lies in if it does not start there, and replaces the temporary node by the block.

  A node is its position in the list \<open>Nodes\<close>. \<open>Chain\<close> is the list of the blocks that hold MSIL, in
  the order of the function; the temporary nodes and the point blocks (blocks of an empty range, for
  pads and dispatches) stay outside of it. The searches of the second phase pass over those: their
  range is empty. \<open>VerificationNeeded\<close> is never set (the constructor clears the reader), so the
  parts of the loop it guards are left out, and with them the prefix flags, which only they use.
\<close>

subsection \<open>Data\<close>

text \<open>The token operand of a pad: none, or the pad of a handler, which may not exist yet.\<close>

datatype parent_pad = TokenNone | PadOf "node option"

datatype EHPad =
    NoPad
  | CatchSwitchPad parent_pad nat
  | CatchPadInst parent_pad "u32 option"     \<comment> \<open>the class token; none for a filter\<close>
  | CleanupPadInst parent_pad bool           \<comment> \<open>whether it is a fault\<close>

datatype Terminator =
    NoTerm
  | Br node
  | CondBr node "node option"                \<comment> \<open>the false successor is set when the block is split\<close>
  | SwitchBr node "(u32 \<times> node) list"
  | UnreachableInst
  | FinallySwitch region_ptr                 \<comment> \<open>the switch object is \<open>EndFinallySwitch\<close> of the region\<close>
  | CatchSwitchBr "node list" "node option"
  | CleanupRet "node option" "node option"

record FlowGraphNode =
  StartMSILOffset :: u32
  EndMSILOffset :: u32
  Region :: "region_ptr option"
  PropagatesOperandStack :: bool
  Stores :: "(region_ptr \<times> u32) list"      \<comment> \<open>stores to continuation selectors\<close>
  Pad :: EHPad
  Term :: Terminator

record FinallyDispatch =
  Cases :: "(u32 \<times> node) list"
  DispatchBlock :: "node option"             \<comment> \<open>the parent of the switch instruction\<close>

record RegionPads =
  HandlerEHPad :: "node option"
  CatchPad :: "node option"
  CleanupPad :: "node option"
  EndFinallySwitch :: "FinallyDispatch option"

record FlowGraph =
  Nodes :: "FlowGraphNode list"
  Chain :: "node list"
  PointBlocks :: "node list"
  NodeOffsetListArray :: label_array
  Pads :: "RegionPads list"
  UnreachableContinuationBlock :: "node option"
  ContinuationStoreMap :: "u32 list"
  CurrentRegion :: "region_ptr option"
  HasLocAlloc :: bool
  HasAddressTaken :: bool

text \<open>The method: its code, the operand kinds of the opcodes and its region tree.\<close>

record Method =
  ILCode :: "u8 list"
  ILCodeSize :: u32
  Opargs :: "OPCODE \<Rightarrow> InlineKind"
  Regions :: heap
  NeedSequencePoints :: bool

definition new_node :: FlowGraphNode where
  "new_node = \<lparr>StartMSILOffset = 0, EndMSILOffset = 0, Region = None, PropagatesOperandStack = True,
     Stores = [], Pad = NoPad, Term = NoTerm\<rparr>"

definition no_pads :: RegionPads where
  "no_pads = \<lparr>HandlerEHPad = None, CatchPad = None, CleanupPad = None, EndFinallySwitch = None\<rparr>"

subsection \<open>Nodes\<close>

definition update_node :: "node \<Rightarrow> (FlowGraphNode \<Rightarrow> FlowGraphNode) \<Rightarrow> FlowGraph \<Rightarrow> FlowGraph" where
  "update_node n f s = s\<lparr>Nodes := (Nodes s)[n := f (Nodes s ! n)]\<rparr>"

definition fgNodeSetStartMSILOffset :: "node \<Rightarrow> u32 \<Rightarrow> FlowGraph \<Rightarrow> FlowGraph" where
  "fgNodeSetStartMSILOffset n off = update_node n (\<lambda>b. b\<lparr>StartMSILOffset := off\<rparr>)"

definition fgNodeSetEndMSILOffset :: "node \<Rightarrow> u32 \<Rightarrow> FlowGraph \<Rightarrow> FlowGraph" where
  "fgNodeSetEndMSILOffset n off = update_node n (\<lambda>b. b\<lparr>EndMSILOffset := off\<rparr>)"

definition fgNodeChangeRegion :: "node \<Rightarrow> region_ptr option \<Rightarrow> FlowGraph \<Rightarrow> FlowGraph" where
  "fgNodeChangeRegion n r = update_node n (\<lambda>b. b\<lparr>Region := r\<rparr>)"

text \<open>A terminator is appended to a block.\<close>

definition set_term :: "node \<Rightarrow> Terminator \<Rightarrow> FlowGraph \<Rightarrow> FlowGraph" where
  "set_term n t = update_node n (\<lambda>b. b\<lparr>Term := t\<rparr>)"

definition add_store :: "node \<Rightarrow> region_ptr \<Rightarrow> u32 \<Rightarrow> FlowGraph \<Rightarrow> FlowGraph" where
  "add_store n f v = update_node n (\<lambda>b. b\<lparr>Stores := Stores b @ [(f, v)]\<rparr>)"

definition create_block :: "FlowGraphNode \<Rightarrow> FlowGraph \<Rightarrow> node \<times> FlowGraph" where
  "create_block b s = (length (Nodes s), s\<lparr>Nodes := Nodes s @ [b]\<rparr>)"

fun insert_after :: "node \<Rightarrow> node \<Rightarrow> node list \<Rightarrow> node list" where
  "insert_after b n [] = [n]"
| "insert_after b n (x # xs) = (if x = b then x # n # xs else x # insert_after b n xs)"

text \<open>Without a previous node the new one goes to the end of the function, outside the chain.\<close>

definition makeFlowGraphNode :: "u32 \<Rightarrow> node option \<Rightarrow> FlowGraph \<Rightarrow> node \<times> FlowGraph" where
  "makeFlowGraphNode TargetOffset PreviousNode s =
     (let (n, s1) = create_block (new_node\<lparr>StartMSILOffset := TargetOffset\<rparr>) s in
      (n, case PreviousNode of None \<Rightarrow> s1 | Some p \<Rightarrow> s1\<lparr>Chain := insert_after p n (Chain s1)\<rparr>))"

text \<open>
  The instruction a block is split at: none, the first continuation store, or the terminator.
\<close>

datatype insert_point = NullInst | FirstStore | AtTerminator

definition fgNodeGetEndInsertIRNode :: "node \<Rightarrow> FlowGraph \<Rightarrow> insert_point" where
  "fgNodeGetEndInsertIRNode b s =
     (if EndMSILOffset (Nodes s ! b) \<in> set (ContinuationStoreMap s) then FirstStore
      else if Term (Nodes s ! b) \<noteq> NoTerm then AtTerminator else NullInst)"

text \<open>
  \<open>GenIR::fgSplitBlock\<close>. Without an instruction the new block is empty, and the old one falls through
  to it unless it has a terminator; the open successor of a conditional branch and the default
  successor of a switch become the new block. Otherwise the new block takes the instructions from
  the given one on.
\<close>

definition close_term :: "Terminator \<Rightarrow> node \<Rightarrow> Terminator result" where
  "close_term t n =
     (case t of
        NoTerm \<Rightarrow> Inr (Br n)
      | UnreachableInst \<Rightarrow> Inr t
      | Br _ \<Rightarrow> Inr t
      | CondBr x _ \<Rightarrow> Inr (CondBr x (Some n))
      | SwitchBr _ cs \<Rightarrow> Inr (SwitchBr n cs)
      | _ \<Rightarrow> Inl (AssertFailed ''cast<SwitchInst>''))"

definition fgSplitBlock_IR :: "node \<Rightarrow> insert_point \<Rightarrow> FlowGraph \<Rightarrow> (node \<times> FlowGraph) result" where
  "fgSplitBlock_IR b Inst s =
     (let old = Nodes s ! b;
          empty = new_node\<lparr>PropagatesOperandStack := PropagatesOperandStack old\<rparr>;
          s1 = s\<lparr>Chain := insert_after b (length (Nodes s)) (Chain s)\<rparr> in
      case Inst of
        NullInst \<Rightarrow>
          (let (n, s2) = create_block empty s1 in
           rbind (close_term (Term old) n) (\<lambda>t. Inr (n, set_term b t s2)))
      | FirstStore \<Rightarrow>
          (let (n, s2) = create_block (empty\<lparr>Stores := Stores old, Term := Term old\<rparr>) s1 in
           Inr (n, set_term b (Br n) (update_node b (\<lambda>x. x\<lparr>Stores := []\<rparr>) s2)))
      | AtTerminator \<Rightarrow>
          (let (n, s2) = create_block (empty\<lparr>Term := Term old\<rparr>) s1 in
           Inr (n, set_term b (Br n) s2)))"

definition fgSplitBlock :: "Method \<Rightarrow> node \<Rightarrow> u32 \<Rightarrow> insert_point \<Rightarrow> FlowGraph \<Rightarrow> (node \<times> FlowGraph) result" where
  "fgSplitBlock m b CurrentOffset Inst s =
     (let OldEndOffset = EndMSILOffset (Nodes s ! b); s1 = fgNodeSetEndMSILOffset b CurrentOffset s in
      if Inst = NullInst \<and> CurrentOffset = ILCodeSize m then Inr (b, s1)
      else rbind (fgSplitBlock_IR b Inst s1) (\<lambda>(n, s2).
        Inr (n, fgNodeChangeRegion n (Region (Nodes s2 ! b))
               (fgNodeSetEndMSILOffset n OldEndOffset (fgNodeSetStartMSILOffset n CurrentOffset s2)))))"

subsection \<open>Labels and point blocks\<close>

text \<open>\<open>fgAddNodeMSILOffset\<close>: the node of an offset, made on its first use.\<close>

definition fgAddNodeMSILOffset :: "node option \<Rightarrow> u32 \<Rightarrow> FlowGraph \<Rightarrow> (node \<times> FlowGraph) result" where
  "fgAddNodeMSILOffset given TargetOffset s =
     rbind (find_label (NodeOffsetListArray s) TargetOffset) (\<lambda>found.
     case found of
       Some n \<Rightarrow> Inr (n, s)
     | None \<Rightarrow>
         (let (n, s1) = (case given of None \<Rightarrow> makeFlowGraphNode TargetOffset None s | Some n \<Rightarrow> (n, s)) in
          Inr (n, s1\<lparr>NodeOffsetListArray := insert_label TargetOffset n (NodeOffsetListArray s1)\<rparr>)))"

text \<open>A point block asks for a split at its offset, unless that is the end of the method.\<close>

definition createPointBlock :: "Method \<Rightarrow> u32 \<Rightarrow> FlowGraph \<Rightarrow> (node \<times> FlowGraph) result" where
  "createPointBlock m PointOffset s =
     (let (n, s1) = create_block (new_node\<lparr>StartMSILOffset := PointOffset, EndMSILOffset := PointOffset,
                       Region := CurrentRegion s, PropagatesOperandStack := False\<rparr>) s;
          s2 = s1\<lparr>PointBlocks := PointBlocks s1 @ [n]\<rparr> in
      if PointOffset = ILCodeSize m then Inr (n, s2)
      else rbind (fgAddNodeMSILOffset None PointOffset s2) (\<lambda>(_, s3). Inr (n, s3)))"

subsection \<open>Pads\<close>

definition update_pads :: "region_ptr \<Rightarrow> (RegionPads \<Rightarrow> RegionPads) \<Rightarrow> FlowGraph \<Rightarrow> FlowGraph" where
  "update_pads r f s = s\<lparr>Pads := (Pads s)[r := f (Pads s ! r)]\<rparr>"

definition nullptr :: "string \<Rightarrow> fault" where
  "nullptr what = OutOfBounds what 0"

text \<open>The block of a pad: it holds the pad and goes to the code of the handler.\<close>

definition pad_block :: "Method \<Rightarrow> u32 \<Rightarrow> EHPad \<Rightarrow> node \<Rightarrow> FlowGraph \<Rightarrow> (node \<times> FlowGraph) result" where
  "pad_block m off pad HandlerCodeBlock s =
     rbind (createPointBlock m off s) (\<lambda>(PadBlock, s1).
     Inr (PadBlock, set_term PadBlock (Br HandlerCodeBlock) (update_node PadBlock (\<lambda>b. b\<lparr>Pad := pad\<rparr>) s1)))"

definition createEHPad :: "Method \<Rightarrow> region_ptr \<Rightarrow> parent_pad \<Rightarrow> FlowGraph \<Rightarrow> (node \<times> FlowGraph) result" where
  "createEHPad m Handler EnclosingPad s =
     (let h = Regions m; off = StartMsilOffset (h ! Handler) in
      rbind (fgAddNodeMSILOffset None off s) (\<lambda>(HandlerCodeBlock, s1).
      if NeedSequencePoints m then Inl (NYI ''Handler sequence point'')
      else case Kind (h ! Handler) of
        RGN_Filter \<Rightarrow>
          rbind (pad_block m off (CatchPadInst EnclosingPad None) HandlerCodeBlock s1) (\<lambda>(p, s2).
          case HandlerRegion (h ! Handler) of
            None \<Rightarrow> Inl (nullptr ''HandlerRegion'')
          | Some fh \<Rightarrow>
              Inr (p, update_pads fh (\<lambda>q. q\<lparr>CatchPad := Some p, HandlerEHPad := HandlerEHPad (Pads s2 ! Handler)\<rparr>)
                     (update_pads Handler (\<lambda>q. q\<lparr>CatchPad := Some p\<rparr>)
                       (update_node p (\<lambda>b. b\<lparr>PropagatesOperandStack := True\<rparr>) s2))))
      | RGN_MCatch \<Rightarrow>
          rbind (pad_block m off (CatchPadInst EnclosingPad (Some (CatchClassToken (h ! Handler)))) HandlerCodeBlock s1) (\<lambda>(p, s2).
          Inr (p, update_pads Handler (\<lambda>q. q\<lparr>CatchPad := Some p\<rparr>)
                    (update_node p (\<lambda>b. b\<lparr>PropagatesOperandStack := True\<rparr>) s2)))
      | RGN_Finally \<Rightarrow>
          rbind (pad_block m off (CleanupPadInst EnclosingPad False) HandlerCodeBlock s1) (\<lambda>(p, s2).
          Inr (p, update_pads Handler (\<lambda>q. q\<lparr>CleanupPad := Some p\<rparr>) s2))
      | RGN_Fault \<Rightarrow>
          rbind (pad_block m off (CleanupPadInst EnclosingPad True) HandlerCodeBlock s1) (\<lambda>(p, s2).
          Inr (p, update_pads Handler (\<lambda>q. q\<lparr>CleanupPad := Some p\<rparr>) s2))
      | _ \<Rightarrow> Inl (Unreachable ''Unexpected handler type'')))"

text \<open>The nearest ancestor that is not a try region; the fuel is the number of regions.\<close>

fun enclosing_handler :: "nat \<Rightarrow> heap \<Rightarrow> region_ptr \<Rightarrow> region_ptr result" where
  "enclosing_handler 0 h r = Inl (nullptr ''EnclosingHandler'')"
| "enclosing_handler (Suc fuel) h r =
     (if Kind (h ! r) = RGN_Try
      then (case Parent (h ! r) of None \<Rightarrow> Inl (nullptr ''EnclosingHandler'') | Some p \<Rightarrow> enclosing_handler fuel h p)
      else Inr r)"

definition enclosing_pad :: "heap \<Rightarrow> region_ptr \<Rightarrow> FlowGraph \<Rightarrow> parent_pad result" where
  "enclosing_pad h e s =
     (case Kind (h ! e) of
        RGN_Root \<Rightarrow> Inr TokenNone
      | RGN_MCatch \<Rightarrow> Inr (PadOf (CatchPad (Pads s ! e)))
      | RGN_MExcept \<Rightarrow> Inr (PadOf (CatchPad (Pads s ! e)))
      | RGN_Finally \<Rightarrow> Inr (PadOf (CleanupPad (Pads s ! e)))
      | RGN_Fault \<Rightarrow> Inr (PadOf (CleanupPad (Pads s ! e)))
      | RGN_Filter \<Rightarrow>
          (case HandlerRegion (h ! e) of
             None \<Rightarrow> Inl (nullptr ''HandlerRegion'')
           | Some fh \<Rightarrow> Inr (PadOf (CatchPad (Pads s ! fh))))
      | RGN_Try \<Rightarrow> Inl (Unreachable ''Unexpected region kind''))"

text \<open>
  The loop of \<open>fgEnterRegion\<close> over the children of a try region: the catch handlers and filters are
  the handlers of one catch switch, made for the first of them; a finally or fault handler has a
  cleanup pad of its own and must be alone.
\<close>

definition make_catch_switch ::
    "Method \<Rightarrow> region_ptr \<Rightarrow> region_ptr \<Rightarrow> parent_pad \<Rightarrow> region_ptr list \<Rightarrow> node option \<Rightarrow> FlowGraph \<Rightarrow>
     (node \<times> FlowGraph) result" where
  "make_catch_switch m r parent EnclosingPad rest NewPad s =
     (let h = Regions m in
      rbind (rassert ''try with finally/fault cannot also have catch/filter'' (NewPad = None)) (\<lambda>_.
      rbind (createPointBlock m (EndMsilOffset (h ! r)) s) (\<lambda>(SwitchBlock, s1).
      let others = filter (\<lambda>c. Kind (h ! c) \<noteq> RGN_MExcept) rest in
      rbind (rassert ''Kind == RGN_MCatch || Kind == RGN_Filter''
              (\<forall>c \<in> set others. Kind (h ! c) = RGN_MCatch \<or> Kind (h ! c) = RGN_Filter)) (\<lambda>_.
      Inr (SwitchBlock, set_term SwitchBlock (CatchSwitchBr [] (HandlerEHPad (Pads s1 ! parent)))
             (update_node SwitchBlock (\<lambda>b. b\<lparr>Pad := CatchSwitchPad EnclosingPad (1 + length others)\<rparr>) s1))))))"

definition add_handler_block :: "node \<Rightarrow> node \<Rightarrow> FlowGraph \<Rightarrow> FlowGraph" where
  "add_handler_block CatchSwitch p =
     update_node CatchSwitch (\<lambda>b. case Term b of CatchSwitchBr hs u \<Rightarrow> b\<lparr>Term := CatchSwitchBr (hs @ [p]) u\<rparr> | _ \<Rightarrow> b)"

fun enter_children ::
    "Method \<Rightarrow> region_ptr \<Rightarrow> region_ptr \<Rightarrow> parent_pad \<Rightarrow> region_ptr list \<Rightarrow> node option \<Rightarrow> node option \<Rightarrow> FlowGraph \<Rightarrow>
     (node option \<times> FlowGraph) result" where
  "enter_children m r parent EnclosingPad [] CatchSwitch NewPad s = Inr (NewPad, s)"
| "enter_children m r parent EnclosingPad (Child # rest) CatchSwitch NewPad s =
     (let kind = Kind (Regions m ! Child);
          inherit = (\<lambda>st. update_pads Child (\<lambda>q. q\<lparr>HandlerEHPad := HandlerEHPad (Pads st ! parent)\<rparr>) st) in
      if kind = RGN_Try \<or> kind = RGN_MExcept
      then enter_children m r parent EnclosingPad rest CatchSwitch NewPad s
      else if kind = RGN_MCatch \<or> kind = RGN_Filter
      then
        rbind (case CatchSwitch of Some sw \<Rightarrow> Inr (sw, s)
               | None \<Rightarrow> make_catch_switch m r parent EnclosingPad rest NewPad s) (\<lambda>(sw, s1).
        rbind (createEHPad m Child (PadOf (Some sw)) (inherit s1)) (\<lambda>(p, s2).
        enter_children m r parent EnclosingPad rest (Some sw)
          (if CatchSwitch = None then Some sw else NewPad) (add_handler_block sw p s2)))
      else if kind = RGN_Finally \<or> kind = RGN_Fault
      then
        rbind (rassert ''try with finally/fault cannot have multiple handlers'' (NewPad = None)) (\<lambda>_.
        rbind (createEHPad m Child EnclosingPad (inherit s)) (\<lambda>(p, s1).
        enter_children m r parent EnclosingPad rest CatchSwitch (Some p) s1))
      else Inl (Unreachable ''Unexpected region kind''))"

definition fgEnterRegion :: "Method \<Rightarrow> region_ptr \<Rightarrow> FlowGraph \<Rightarrow> FlowGraph result" where
  "fgEnterRegion m r s =
     (let h = Regions m in
      if Kind (h ! r) \<noteq> RGN_Try then Inr s
      else case Parent (h ! r) of
        None \<Rightarrow> Inl (nullptr ''Parent'')
      | Some parent \<Rightarrow>
          rbind (enclosing_handler (length h) h parent) (\<lambda>e.
          rbind (enclosing_pad h e s) (\<lambda>EnclosingPad.
          rbind (enter_children m r parent EnclosingPad (Children (h ! r)) None None s) (\<lambda>(NewPad, s1).
          Inr (update_pads r (\<lambda>q. q\<lparr>HandlerEHPad := NewPad\<rparr>) s1)))))"

fun enter_regions :: "Method \<Rightarrow> region_ptr list \<Rightarrow> FlowGraph \<Rightarrow> FlowGraph result" where
  "enter_regions m [] s = Inr s"
| "enter_regions m (r # rs) s = rbind (fgEnterRegion m r s) (enter_regions m rs)"

subsection \<open>Finally dispatch\<close>

text \<open>
  \<open>createFinallyDispatch\<close>: the switch at the end of a finally, with no case yet; its default is one
  unreachable block per function.
\<close>

definition createFinallyDispatch :: "Method \<Rightarrow> region_ptr \<Rightarrow> FlowGraph \<Rightarrow> FlowGraph result" where
  "createFinallyDispatch m f s =
     rbind (case UnreachableContinuationBlock s of
              Some _ \<Rightarrow> Inr s
            | None \<Rightarrow>
                rbind (createPointBlock m (ILCodeSize m) s) (\<lambda>(n, s1).
                Inr ((set_term n UnreachableInst s1)\<lparr>UnreachableContinuationBlock := Some n\<rparr>))) (\<lambda>s2.
     Inr (update_pads f (\<lambda>q. q\<lparr>EndFinallySwitch := Some \<lparr>Cases = [], DispatchBlock = None\<rparr>\<rparr>) s2))"

definition finally_dispatch :: "Method \<Rightarrow> region_ptr \<Rightarrow> FlowGraph \<Rightarrow> (FinallyDispatch \<times> FlowGraph) result" where
  "finally_dispatch m f s =
     (case EndFinallySwitch (Pads s ! f) of
        Some d \<Rightarrow> Inr (d, s)
      | None \<Rightarrow>
          rbind (createFinallyDispatch m f s) (\<lambda>s1.
          case EndFinallySwitch (Pads s1 ! f) of
            Some d \<Rightarrow> Inr (d, s1)
          | None \<Rightarrow> Inl (nullptr ''EndFinallySwitch'')))"

definition set_dispatch :: "region_ptr \<Rightarrow> FinallyDispatch \<Rightarrow> FlowGraph \<Rightarrow> FlowGraph" where
  "set_dispatch f d = update_pads f (\<lambda>q. q\<lparr>EndFinallySwitch := Some d\<rparr>)"

text \<open>
  One continuation of a \<open>leave\<close> (the end of \<open>updateLeaveOffset\<close>): the case of the target in the switch
  of the finally, added with the next selector if it is not there, and the store of the selector.
\<close>

definition select_continuation :: "node \<Rightarrow> FinallyDispatch \<Rightarrow> u32 \<times> FinallyDispatch" where
  "select_continuation TargetBlock d =
     (case find (\<lambda>(v, n). n = TargetBlock) (Cases d) of
        Some (v, _) \<Rightarrow> (v, d)
      | None \<Rightarrow> (let v = word_of_nat (length (Cases d)) + 1 in (v, d\<lparr>Cases := Cases d @ [(v, TargetBlock)]\<rparr>)))"

definition store_continuation :: "Method \<Rightarrow> node \<Rightarrow> region_ptr \<times> u32 \<Rightarrow> FlowGraph \<Rightarrow> FlowGraph result" where
  "store_continuation m LeaveBlock store s =
     (case store of (f, TargetOffset) \<Rightarrow>
        rbind (fgAddNodeMSILOffset None TargetOffset s) (\<lambda>(TargetBlock, s1).
        rbind (finally_dispatch m f s1) (\<lambda>(d, s2).
        let (v, d') = select_continuation TargetBlock d in
        Inr (add_store LeaveBlock f v (set_dispatch f d' s2)))))"

fun store_continuations :: "Method \<Rightarrow> node \<Rightarrow> (region_ptr \<times> u32) list \<Rightarrow> FlowGraph \<Rightarrow> FlowGraph result" where
  "store_continuations m LeaveBlock [] s = Inr s"
| "store_continuations m LeaveBlock (st # sts) s =
     rbind (store_continuation m LeaveBlock st s) (store_continuations m LeaveBlock sts)"

text \<open>The whole of \<open>updateLeaveOffset\<close>; the map remembers that the block ends in stores.\<close>

definition fgUpdateLeaveOffset :: "Method \<Rightarrow> u32 \<Rightarrow> u32 \<Rightarrow> node \<Rightarrow> u32 \<Rightarrow> FlowGraph \<Rightarrow> (u32 \<times> FlowGraph) result" where
  "fgUpdateLeaveOffset m LeaveOffset NextOffset LeaveBlock TargetOffset s =
     (case leave_target (Regions m) False LeaveOffset TargetOffset of
        None \<Rightarrow> Inl (nullptr ''ChildRegion'')
      | Some (off, stores) \<Rightarrow>
          rbind (store_continuations m LeaveBlock stores s) (\<lambda>s1.
          Inr (off, if stores = [] then s1
                    else s1\<lparr>ContinuationStoreMap := NextOffset # ContinuationStoreMap s1\<rparr>)))"

text \<open>
  \<open>fgMakeEndFinally\<close>: the first \<open>endfinally\<close> of a finally makes the block of the switch, and the
  block for the exceptional continuation, which has the selector 0.
\<close>

definition fgMakeEndFinally :: "Method \<Rightarrow> node \<Rightarrow> region_ptr \<Rightarrow> FlowGraph \<Rightarrow> FlowGraph result" where
  "fgMakeEndFinally m b f s =
     (let off = EndMsilOffset (Regions m ! f) in
      rbind (finally_dispatch m f s) (\<lambda>(d, s1).
      case DispatchBlock d of
        Some t \<Rightarrow> Inr (set_term b (Br t) s1)
      | None \<Rightarrow>
          rbind (createPointBlock m off s1) (\<lambda>(TargetBlock, s2).
          rbind (createPointBlock m off (set_term TargetBlock (FinallySwitch f) s2)) (\<lambda>(ExitBlock, s3).
          let s4 = set_term ExitBlock (CleanupRet (CleanupPad (Pads s3 ! f)) (HandlerEHPad (Pads s3 ! f))) s3;
              s5 = set_dispatch f \<lparr>Cases = Cases d @ [(0, ExitBlock)], DispatchBlock = Some TargetBlock\<rparr> s4 in
          case CleanupPad (Pads s5 ! f) of
            None \<Rightarrow> Inl (nullptr ''CleanupPad'')
          | Some p \<Rightarrow> Inr (set_term b (Br TargetBlock) (add_store p f 0 s5))))))"

subsection \<open>Phase 1\<close>

definition short_branches :: "OPCODE list" where
  "short_branches = [CEE_BEQ_S, CEE_BGE_S, CEE_BGE_UN_S, CEE_BGT_S, CEE_BGT_UN_S, CEE_BLE_S, CEE_BLE_UN_S, CEE_BLT_S,
     CEE_BLT_UN_S, CEE_BNE_UN_S, CEE_BRFALSE_S, CEE_BRTRUE_S, CEE_BR_S, CEE_LEAVE_S]"

definition long_branches :: "OPCODE list" where
  "long_branches = [CEE_BEQ, CEE_BGE, CEE_BGE_UN, CEE_BGT, CEE_BLE, CEE_BLT, CEE_BGT_UN, CEE_BLE_UN, CEE_BLT_UN,
     CEE_BNE_UN, CEE_BRFALSE, CEE_BRTRUE, CEE_BR, CEE_LEAVE]"

definition is_leave :: "OPCODE \<Rightarrow> bool" where
  "is_leave op \<longleftrightarrow> op = CEE_LEAVE \<or> op = CEE_LEAVE_S"

definition is_conditional :: "OPCODE \<Rightarrow> bool" where
  "is_conditional op \<longleftrightarrow> op \<noteq> CEE_BR \<and> op \<noteq> CEE_LEAVE \<and> op \<noteq> CEE_BR_S \<and> op \<noteq> CEE_LEAVE_S"

definition read_branch :: "Method \<Rightarrow> ParseResult \<Rightarrow> u32 result" where
  "read_branch m r =
     (case operand r of
        None \<Rightarrow> Inl (nullptr ''Operand'')
      | Some cur \<Rightarrow>
          rbind (if opcode r \<in> set short_branches then readValue_i8 (ILCode m) cur else readValue_i32 (ILCode m) cur)
            (\<lambda>BranchOffset. Inr (next_offset r + word_of_int BranchOffset)))"

text \<open>End the current block at an offset and go on in the next one.\<close>

definition end_block :: "Method \<Rightarrow> node \<Rightarrow> u32 \<Rightarrow> FlowGraph \<Rightarrow> (node \<times> FlowGraph) result" where
  "end_block m b NextOffset s = fgSplitBlock m b NextOffset NullInst (fgNodeSetEndMSILOffset b NextOffset s)"

definition phase1_branch :: "Method \<Rightarrow> u32 \<Rightarrow> ParseResult \<Rightarrow> node \<Rightarrow> FlowGraph \<Rightarrow> (node \<times> FlowGraph) result" where
  "phase1_branch m CurrentOffset r b s =
     rbind (read_branch m r) (\<lambda>t.
     rbind (if is_leave (opcode r) then fgUpdateLeaveOffset m CurrentOffset (next_offset r) b t s else Inr (t, s))
       (\<lambda>(TargetOffset, s1).
     rbind (fgAddNodeMSILOffset None TargetOffset s1) (\<lambda>(GraphNode, s2).
     end_block m b (next_offset r)
       (set_term b (if is_conditional (opcode r) then CondBr GraphNode None else Br GraphNode) s2))))"

text \<open>The cases of a switch, numbered from \<open>I\<close>, are added to the switch at the end of block \<open>b\<close>.\<close>

definition add_case :: "node \<Rightarrow> u32 \<Rightarrow> node \<Rightarrow> FlowGraph \<Rightarrow> FlowGraph" where
  "add_case b I n = update_node b (\<lambda>x. case Term x of SwitchBr d cs \<Rightarrow> x\<lparr>Term := SwitchBr d (cs @ [(I, n)])\<rparr> | _ \<Rightarrow> x)"

fun switch_cases :: "Method \<Rightarrow> nat \<Rightarrow> u32 \<Rightarrow> u32 \<Rightarrow> u32 \<Rightarrow> node \<Rightarrow> FlowGraph \<Rightarrow> FlowGraph result" where
  "switch_cases m 0 NextOffset I cursor b s = Inr s"
| "switch_cases m (Suc k) NextOffset I cursor b s =
     rbind (readSwitchCase (ILCode m) cursor) (\<lambda>(BranchOffset, cursor').
     rbind (fgAddNodeMSILOffset None (NextOffset + word_of_int BranchOffset) s) (\<lambda>(GraphNode, s1).
     switch_cases m k NextOffset (I + 1) cursor' b (add_case b I GraphNode s1)))"

definition phase1_switch :: "Method \<Rightarrow> ParseResult \<Rightarrow> node \<Rightarrow> FlowGraph \<Rightarrow> (node \<times> FlowGraph) result" where
  "phase1_switch m r b s =
     (case operand r of
        None \<Rightarrow> Inl (nullptr ''Operand'')
      | Some cur \<Rightarrow>
          rbind (readNumberOfSwitchCases (ILCode m) cur) (\<lambda>(NumCases, cursor).
          if NumCases = 0 then Inr (b, s)
          else
            rbind (fgAddNodeMSILOffset None (next_offset r) s) (\<lambda>(GraphNode, s1).
            rbind (end_block m b (next_offset r) (set_term b (SwitchBr GraphNode []) s1)) (\<lambda>(b', s2).
            rbind (switch_cases m (unat NumCases) (next_offset r) 0 cursor b s2) (\<lambda>s3.
            Inr (b', s3))))))"

definition phase1_endfinally :: "Method \<Rightarrow> u32 \<Rightarrow> ParseResult \<Rightarrow> node \<Rightarrow> FlowGraph \<Rightarrow> (node \<times> FlowGraph) result" where
  "phase1_endfinally m CurrentOffset r b s =
     (case getInnermostFaultOrFinallyRegion (Regions m) CurrentOffset of
        Some (Some f) \<Rightarrow>
          rbind (if Kind (Regions m ! f) = RGN_Finally then fgMakeEndFinally m b f s
                 else Inr (set_term b UnreachableInst s)) (\<lambda>s1.
          end_block m b (next_offset r) s1)
      | _ \<Rightarrow> Inl (nullptr ''HandlerRegion''))"

text \<open>Behind \<open>ret\<close> and \<open>jmp\<close> a new node starts, unless the method ends there.\<close>

definition start_block :: "Method \<Rightarrow> node \<Rightarrow> u32 \<Rightarrow> FlowGraph \<Rightarrow> node \<times> FlowGraph" where
  "start_block m b NextOffset s =
     (let s1 = fgNodeSetEndMSILOffset b NextOffset s in
      if NextOffset < ILCodeSize m then makeFlowGraphNode NextOffset (Some b) s1 else (b, s1))"

definition phase1_instr :: "Method \<Rightarrow> u32 \<Rightarrow> ParseResult \<Rightarrow> node \<Rightarrow> FlowGraph \<Rightarrow> (node \<times> FlowGraph) result" where
  "phase1_instr m CurrentOffset r b s =
     (let op = opcode r; NextOffset = next_offset r in
      if op \<in> set short_branches \<or> op \<in> set long_branches then phase1_branch m CurrentOffset r b s
      else if op = CEE_SWITCH then phase1_switch m r b s
      else if op = CEE_THROW \<or> op = CEE_RETHROW then end_block m b NextOffset (set_term b UnreachableInst s)
      else if op = CEE_ENDFILTER then
        rbind (fgAddNodeMSILOffset None NextOffset s) (\<lambda>(GraphNode, s1).
        end_block m b NextOffset (set_term b (Br GraphNode) s1))
      else if op = CEE_ENDFINALLY then phase1_endfinally m CurrentOffset r b s
      else if op = CEE_JMP then Inr (start_block m b NextOffset s)
      else if op = CEE_RET then Inr (start_block m b NextOffset (set_term b UnreachableInst s))
      else if op = CEE_LOCALLOC then Inr (b, s\<lparr>HasLocAlloc := True\<rparr>)
      else if op \<in> set [CEE_LDLOCA, CEE_LDLOCA_S, CEE_LDARGA, CEE_LDARGA_S, CEE_ARGLIST]
      then Inr (b, s\<lparr>HasAddressTaken := True\<rparr>)
      else Inr (b, s))"

text \<open>The start of an iteration: at a region transition the region changes, on a new block.\<close>

definition phase1_region :: "Method \<Rightarrow> u32 \<Rightarrow> node \<Rightarrow> u32 \<Rightarrow> FlowGraph \<Rightarrow> (node \<times> u32 \<times> FlowGraph) result" where
  "phase1_region m CurrentOffset b NextRegionTransitionOffset s =
     (if Regions m \<noteq> [] \<and> CurrentOffset = NextRegionTransitionOffset
      then
        case CurrentRegion s of None \<Rightarrow> Inl (nullptr ''OldRegion'') | Some old \<Rightarrow>
        case fgSwitchRegion (2 * length (Regions m) + 1) (Regions m) old CurrentOffset of
          None \<Rightarrow> Inl (nullptr ''OldRegion'')
        | Some (Inl e) \<Rightarrow> Inl e
        | Some (Inr (new, transition, entered)) \<Rightarrow>
            rbind (enter_regions m entered s) (\<lambda>s1.
            let s2 = s1\<lparr>CurrentRegion := Some new\<rparr> in
            rbind (if StartMSILOffset (Nodes s2 ! b) \<noteq> CurrentOffset then fgSplitBlock m b CurrentOffset NullInst s2
                   else Inr (b, s2)) (\<lambda>(b', s3).
            Inr (b', transition, fgNodeChangeRegion b' (Some new) s3)))
      else Inr (b, NextRegionTransitionOffset, s))"

text \<open>The loop; \<open>None\<close> is a loop that goes on.\<close>

fun fgBuildPhase1_loop :: "nat \<Rightarrow> Method \<Rightarrow> u32 \<Rightarrow> node \<Rightarrow> u32 \<Rightarrow> FlowGraph \<Rightarrow> (node \<times> u32 \<times> FlowGraph) result option" where
  "fgBuildPhase1_loop 0 m CurrentOffset b transition s = None"
| "fgBuildPhase1_loop (Suc fuel) m CurrentOffset b transition s =
     (if CurrentOffset < ILCodeSize m then
        case rbind (phase1_region m CurrentOffset b transition s) (\<lambda>(b1, transition1, s1).
             rbind (parseILOpcode (Opargs m) (ILCode m) CurrentOffset (ILCodeSize m) True) (\<lambda>r.
             rbind (phase1_instr m CurrentOffset r b1 s1) (\<lambda>(b2, s2).
             Inr (next_offset r, b2, transition1, s2)))) of
          Inl e \<Rightarrow> Some (Inl e)
        | Inr (NextOffset, b2, transition1, s2) \<Rightarrow> fgBuildPhase1_loop fuel m NextOffset b2 transition1 s2
      else Some (Inr (b, CurrentOffset, s)))"

definition fgBuildPhase1 :: "nat \<Rightarrow> Method \<Rightarrow> node \<Rightarrow> FlowGraph \<Rightarrow> FlowGraph result option" where
  "fgBuildPhase1 fuel m b s =
     (case fgBuildPhase1_loop fuel m 0 b 0 (s\<lparr>HasLocAlloc := False, HasAddressTaken := False\<rparr>) of
        None \<Rightarrow> None
      | Some (Inl e) \<Rightarrow> Some (Inl e)
      | Some (Inr (b', CurrentOffset, s')) \<Rightarrow> Some (Inr (fgNodeSetEndMSILOffset b' CurrentOffset s')))"

subsection \<open>Phase 2\<close>

definition rename :: "node \<Rightarrow> node \<Rightarrow> node \<Rightarrow> node" where
  "rename old new n = (if n = old then new else n)"

fun map_targets :: "(node \<Rightarrow> node) \<Rightarrow> Terminator \<Rightarrow> Terminator" where
  "map_targets f (Br n) = Br (f n)"
| "map_targets f (CondBr n k) = CondBr (f n) (map_option f k)"
| "map_targets f (SwitchBr d cs) = SwitchBr (f d) (map (\<lambda>(v, n). (v, f n)) cs)"
| "map_targets f (CatchSwitchBr hs u) = CatchSwitchBr (map f hs) (map_option f u)"
| "map_targets f (CleanupRet p u) = CleanupRet p (map_option f u)"
| "map_targets f t = t"

definition map_dispatch :: "(node \<Rightarrow> node) \<Rightarrow> RegionPads \<Rightarrow> RegionPads" where
  "map_dispatch f q = q\<lparr>EndFinallySwitch := map_option (\<lambda>d. d\<lparr>Cases := map (\<lambda>(v, n). (v, f n)) (Cases d)\<rparr>) (EndFinallySwitch q)\<rparr>"

text \<open>\<open>replaceAllUsesWith\<close>: in the terminators and in the switches of the finallys.\<close>

definition replaceFlowGraphNodeUses :: "node \<Rightarrow> node \<Rightarrow> FlowGraph \<Rightarrow> FlowGraph" where
  "replaceFlowGraphNodeUses OldNode NewNode s =
     s\<lparr>Nodes := map (\<lambda>b. b\<lparr>Term := map_targets (rename OldNode NewNode) (Term b)\<rparr>) (Nodes s),
       Pads := map (map_dispatch (rename OldNode NewNode)) (Pads s)\<rparr>"

fun find_block :: "FlowGraph \<Rightarrow> u32 \<Rightarrow> node list \<Rightarrow> node option" where
  "find_block s off [] = None"
| "find_block s off (b # bs) =
     (if StartMSILOffset (Nodes s ! b) \<le> off \<and> off < EndMSILOffset (Nodes s ! b) then Some b else find_block s off bs)"

definition fgReplaceBranchTarget :: "Method \<Rightarrow> u32 \<Rightarrow> node \<Rightarrow> node option \<Rightarrow> FlowGraph \<Rightarrow> (node \<times> FlowGraph) result" where
  "fgReplaceBranchTarget m off TempBranchTarget StartBlock s =
     (let rest = (case StartBlock of None \<Rightarrow> Chain s | Some b \<Rightarrow> dropWhile (\<lambda>x. x \<noteq> b) (Chain s)) in
      case find_block s off rest of
        None \<Rightarrow> Inl (AssertFailed ''FoundTargetBlock'')
      | Some b \<Rightarrow>
          rbind (if off \<noteq> StartMSILOffset (Nodes s ! b)
                 then fgSplitBlock m b off (fgNodeGetEndInsertIRNode b s) s else Inr (b, s)) (\<lambda>(b', s1).
          Inr (b', replaceFlowGraphNodeUses TempBranchTarget b' s1)))"

fun replace_labels :: "Method \<Rightarrow> FlowGraphNodeOffsetList list \<Rightarrow> node option \<Rightarrow> FlowGraph \<Rightarrow> FlowGraph result" where
  "replace_labels m [] b s = Inr s"
| "replace_labels m (e # es) b s =
     rbind (fgReplaceBranchTarget m (Offset e) (Node e) b s) (\<lambda>(b', s'). replace_labels m es (Some b') s')"

definition fgReplaceBranchTargets :: "Method \<Rightarrow> FlowGraph \<Rightarrow> FlowGraph result" where
  "fgReplaceBranchTargets m s = replace_labels m (concat (NodeOffsetListArray s)) None s"

subsection \<open>The whole construction\<close>

text \<open>The state before the first phase: the first MSIL block, empty and without a terminator.\<close>

definition initial_graph :: "Method \<Rightarrow> FlowGraph" where
  "initial_graph m = \<lparr>Nodes = [new_node], Chain = [0], PointBlocks = [],
     NodeOffsetListArray = empty_labels (ILCodeSize m), Pads = replicate (length (Regions m)) no_pads,
     UnreachableContinuationBlock = None, ContinuationStoreMap = [],
     CurrentRegion = (if Regions m = [] then None else Some 0), HasLocAlloc = False, HasAddressTaken = False\<rparr>"

definition fgBuildBasicBlocksFromBytes :: "nat \<Rightarrow> Method \<Rightarrow> FlowGraph result option" where
  "fgBuildBasicBlocksFromBytes fuel m =
     (case fgBuildPhase1 fuel m 0 (initial_graph m) of
        None \<Rightarrow> None
      | Some (Inl e) \<Rightarrow> Some (Inl e)
      | Some (Inr s) \<Rightarrow> Some (fgReplaceBranchTargets m s))"

end
