(* ===== verification/FlowGraphShape.thy ===== *)
theory FlowGraphShape
  imports FlowGraph
begin

section \<open>The flow graph: well-formedness\<close>

text \<open>
  The invariant \<open>fg_ok\<close> of the state of the flow graph builder and the relation \<open>grows\<close> between two
  states of which the later one has more labels, point blocks and pads but the same blocks. All
  operations on labels, pads and finally dispatches keep the first and are steps of the second; the
  proofs about the two phases use only that.
\<close>

subsection \<open>Specification\<close>

fun targets :: "Terminator \<Rightarrow> node set" where
  "targets (Br n) = {n}"
| "targets (CondBr n k) = insert n (set_option k)"
| "targets (SwitchBr d cs) = insert d (snd ` set cs)"
| "targets (CatchSwitchBr hs u) = set hs \<union> set_option u"
| "targets (CleanupRet p u) = set_option u"
| "targets t = {}"

definition label_nodes :: "FlowGraph \<Rightarrow> node set" where
  "label_nodes s = Node ` set (labels_of (NodeOffsetListArray s))"

definition known :: "FlowGraph \<Rightarrow> node set" where
  "known s = set (Chain s) \<union> set (PointBlocks s) \<union> label_nodes s"

definition dispatch_ok :: "FlowGraph \<Rightarrow> FinallyDispatch \<Rightarrow> bool" where
  "dispatch_ok s d \<longleftrightarrow> snd ` set (Cases d) \<subseteq> known s \<and> set_option (DispatchBlock d) \<subseteq> set (PointBlocks s)"

definition pads_ok :: "FlowGraph \<Rightarrow> RegionPads \<Rightarrow> bool" where
  "pads_ok s q \<longleftrightarrow> set_option (HandlerEHPad q) \<union> set_option (CatchPad q) \<union> set_option (CleanupPad q) \<subseteq> set (PointBlocks s)
     \<and> (\<forall>d. EndFinallySwitch q = Some d \<longrightarrow> dispatch_ok s d)"

text \<open>A label is a node of its own, which starts at the offset.\<close>

definition label_ok :: "FlowGraph \<Rightarrow> FlowGraphNodeOffsetList \<Rightarrow> bool" where
  "label_ok s e \<longleftrightarrow> Node e < length (Nodes s) \<and> StartMSILOffset (Nodes s ! Node e) = Offset e
     \<and> Node e \<notin> set (Chain s) \<and> Node e \<notin> set (PointBlocks s)"

definition fg_ok :: "Method \<Rightarrow> FlowGraph \<Rightarrow> bool" where
  "fg_ok m s \<longleftrightarrow>
     labels_ok (NodeOffsetListArray s) \<and> length (NodeOffsetListArray s) = unat (NodeOffsetListArraySize (ILCodeSize m))
     \<and> (\<forall>e \<in> set (labels_of (NodeOffsetListArray s)). label_ok s e)
     \<and> distinct (Chain s) \<and> (\<forall>n \<in> set (Chain s). n < length (Nodes s))
     \<and> (\<forall>n \<in> set (PointBlocks s). n < length (Nodes s) \<and> n \<notin> set (Chain s))
     \<and> (\<forall>b \<in> set (Nodes s). targets (Term b) \<subseteq> known s)
     \<and> (\<forall>q \<in> set (Pads s). pads_ok s q) \<and> length (Pads s) = length (Regions m)"

definition dispatch_block :: "FlowGraph \<Rightarrow> region_ptr \<Rightarrow> node option" where
  "dispatch_block s f = (case EndFinallySwitch (Pads s ! f) of None \<Rightarrow> None | Some d \<Rightarrow> DispatchBlock d)"

definition same_block :: "FlowGraphNode \<Rightarrow> FlowGraphNode \<Rightarrow> bool" where
  "same_block x y \<longleftrightarrow> StartMSILOffset y = StartMSILOffset x \<and> EndMSILOffset y = EndMSILOffset x
     \<and> Term y = Term x \<and> Region y = Region x"

definition grows :: "FlowGraph \<Rightarrow> FlowGraph \<Rightarrow> bool" where
  "grows s s' \<longleftrightarrow>
     Chain s' = Chain s \<and> CurrentRegion s' = CurrentRegion s \<and> length (Nodes s) \<le> length (Nodes s')
     \<and> (\<forall>n < length (Nodes s). StartMSILOffset (Nodes s' ! n) = StartMSILOffset (Nodes s ! n))
     \<and> (\<forall>n \<in> set (Chain s). same_block (Nodes s ! n) (Nodes s' ! n))
     \<and> set (PointBlocks s) \<subseteq> set (PointBlocks s')
     \<and> label_map (NodeOffsetListArray s) \<subseteq>\<^sub>m label_map (NodeOffsetListArray s')
     \<and> (\<forall>f n. f < length (Pads s) \<longrightarrow> dispatch_block s f = Some n \<longrightarrow> dispatch_block s' f = Some n)"

subsection \<open>Lemmas\<close>

lemmas fg_defs = label_ok_def pads_ok_def dispatch_ok_def

lemma grows_refl: "grows s s"
  by (simp add: grows_def same_block_def)

lemma grows_trans:
  assumes "grows s1 s2" and "grows s2 s3" and "length (Pads s1) = length (Pads s2)"
  shows "grows s1 s3"
  using assms unfolding grows_def same_block_def
  by (auto intro: map_le_trans)

lemma fg_ok_label:
  assumes "fg_ok m s" and "label_map (NodeOffsetListArray s) off = Some n"
  shows "n < length (Nodes s)" and "StartMSILOffset (Nodes s ! n) = off" and "n \<in> known s"
    and "n \<notin> set (Chain s)" and "n \<notin> set (PointBlocks s)"
proof -
  from assms obtain e where "e \<in> set (labels_of (NodeOffsetListArray s))" "Offset e = off" "Node e = n"
    by (auto simp: fg_ok_def label_map_Some)
  with assms(1) show "n < length (Nodes s)" "StartMSILOffset (Nodes s ! n) = off" "n \<in> known s"
    "n \<notin> set (Chain s)" "n \<notin> set (PointBlocks s)"
    by (auto simp: fg_ok_def label_ok_def known_def label_nodes_def)
qed

lemma known_less: "fg_ok m s \<Longrightarrow> n \<in> known s \<Longrightarrow> n < length (Nodes s)"
  by (auto simp: fg_ok_def known_def label_nodes_def label_ok_def)

lemma fg_ok_pads: "fg_ok m s \<Longrightarrow> f < length (Regions m) \<Longrightarrow> pads_ok s (Pads s ! f)"
  by (simp add: fg_ok_def)

lemma fg_ok_term: "fg_ok m s \<Longrightarrow> n < length (Nodes s) \<Longrightarrow> targets (Term (Nodes s ! n)) \<subseteq> known s"
  by (simp add: fg_ok_def)

lemma fg_ok_terms: "fg_ok m s \<Longrightarrow> b \<in> set (Nodes s) \<Longrightarrow> targets (Term b) \<subseteq> known s"
  by (simp add: fg_ok_def)

text \<open>More nodes, point blocks and labels keep what refers to the old ones.\<close>

lemma pads_ok_mono: "pads_ok s q \<Longrightarrow> known s \<subseteq> known s' \<Longrightarrow> set (PointBlocks s) \<subseteq> set (PointBlocks s') \<Longrightarrow> pads_ok s' q"
  by (fastforce simp: pads_ok_def dispatch_ok_def)

subsubsection \<open>Changing a node\<close>

lemma update_node_simps [simp]:
  "Chain (update_node n f s) = Chain s" "PointBlocks (update_node n f s) = PointBlocks s"
  "NodeOffsetListArray (update_node n f s) = NodeOffsetListArray s" "Pads (update_node n f s) = Pads s"
  "length (Nodes (update_node n f s)) = length (Nodes s)" "CurrentRegion (update_node n f s) = CurrentRegion s"
  "ContinuationStoreMap (update_node n f s) = ContinuationStoreMap s"
  "known (update_node n f s) = known s" "dispatch_block (update_node n f s) = dispatch_block s"
  by (auto simp: update_node_def known_def label_nodes_def dispatch_block_def)

lemma update_node_nth:
  "k < length (Nodes s) \<Longrightarrow> Nodes (update_node n f s) ! k = (if k = n then f (Nodes s ! k) else Nodes s ! k)"
  by (simp add: update_node_def nth_list_update)

lemma fg_ok_update_node:
  assumes "fg_ok m s" and "n < length (Nodes s)"
    and "StartMSILOffset (f (Nodes s ! n)) = StartMSILOffset (Nodes s ! n) \<or> n \<notin> label_nodes s"
    and "targets (Term (f (Nodes s ! n))) \<subseteq> known s"
  shows "fg_ok m (update_node n f s)"
proof -
  have "label_ok (update_node n f s) e" if "e \<in> set (labels_of (NodeOffsetListArray s))" for e
  proof -
    have "label_ok s e" "Node e \<in> label_nodes s" using assms(1) that by (auto simp: fg_ok_def label_nodes_def)
    then show ?thesis using assms(3) by (auto simp: label_ok_def update_node_nth)
  qed
  moreover have "pads_ok (update_node n f s) q" if "q \<in> set (Pads s)" for q
    by (rule pads_ok_mono[of s]) (use assms(1) that in \<open>simp_all add: fg_ok_def\<close>)
  moreover have "targets (Term b) \<subseteq> known s" if "b \<in> set (Nodes (update_node n f s))" for b
  proof -
    from that have "b \<in> set ((Nodes s)[n := f (Nodes s ! n)])" by (simp add: update_node_def)
    then have "b \<in> insert (f (Nodes s ! n)) (set (Nodes s))" by (rule subsetD[OF set_update_subset_insert])
    then show ?thesis using assms(4) fg_ok_terms[OF assms(1)] by blast
  qed
  ultimately show ?thesis using assms(1) by (simp add: fg_ok_def)
qed

lemma grows_update_node:
  assumes "n < length (Nodes s)" and "StartMSILOffset (f (Nodes s ! n)) = StartMSILOffset (Nodes s ! n)"
    and "n \<in> set (Chain s) \<Longrightarrow> same_block (Nodes s ! n) (f (Nodes s ! n))"
    and "\<forall>c \<in> set (Chain s). c < length (Nodes s)"
  shows "grows s (update_node n f s)"
  using assms by (auto simp: grows_def update_node_nth same_block_def)

subsubsection \<open>New nodes\<close>

lemma create_block_eq: "create_block b s = (n, s') \<longleftrightarrow> n = length (Nodes s) \<and> s' = s\<lparr>Nodes := Nodes s @ [b]\<rparr>"
  by (auto simp: create_block_def)

text \<open>A new node that is not on the chain, perhaps a point block.\<close>

definition with_node :: "FlowGraphNode \<Rightarrow> bool \<Rightarrow> FlowGraph \<Rightarrow> FlowGraph" where
  "with_node b point s = s\<lparr>Nodes := Nodes s @ [b], PointBlocks := PointBlocks s @ (if point then [length (Nodes s)] else [])\<rparr>"

lemma with_node_simps [simp]:
  "Chain (with_node b p s) = Chain s" "Pads (with_node b p s) = Pads s" "Nodes (with_node b p s) = Nodes s @ [b]"
  "NodeOffsetListArray (with_node b p s) = NodeOffsetListArray s" "CurrentRegion (with_node b p s) = CurrentRegion s"
  "PointBlocks (with_node b p s) = PointBlocks s @ (if p then [length (Nodes s)] else [])"
  "label_nodes (with_node b p s) = label_nodes s" "dispatch_block (with_node b p s) = dispatch_block s"
  by (auto simp: with_node_def label_nodes_def dispatch_block_def)

lemma fg_ok_with_node:
  assumes "fg_ok m s" and "targets (Term b) = {}"
  shows "fg_ok m (with_node b p s)"
proof -
  have k: "known s \<subseteq> known (with_node b p s)" by (auto simp: known_def)
  have "label_ok (with_node b p s) e" if "label_ok s e" for e
    using that by (auto simp: label_ok_def nth_append)
  moreover have "pads_ok (with_node b p s) q" if "pads_ok s q" for q
    using pads_ok_mono[OF that k] by auto
  moreover have "targets (Term x) \<subseteq> known (with_node b p s)" if "x \<in> set (Nodes (with_node b p s))" for x
    using that assms(2) fg_ok_terms[OF assms(1)] k by auto
  moreover have "n < length (Nodes (with_node b p s)) \<and> n \<notin> set (Chain s)" if "n \<in> set (PointBlocks (with_node b p s))" for n
    using that assms(1) by (auto simp: fg_ok_def less_Suc_eq split: if_splits)
  ultimately show ?thesis using assms(1) by (simp add: fg_ok_def less_SucI)
qed

lemma grows_with_node: "\<forall>c \<in> set (Chain s). c < length (Nodes s) \<Longrightarrow> grows s (with_node b p s)"
  by (auto simp: grows_def nth_append same_block_def)

subsection \<open>Specification and samples\<close>

definition ok_step :: "Method \<Rightarrow> FlowGraph \<Rightarrow> FlowGraph \<Rightarrow> bool" where
  "ok_step m s s' \<longleftrightarrow> fg_ok m s' \<and> grows s s'"

subsection \<open>Lemmas\<close>

lemma ok_step_refl: "fg_ok m s \<Longrightarrow> ok_step m s s"
  by (simp add: ok_step_def grows_refl)

lemma ok_step_trans:
  assumes "fg_ok m s1" and "ok_step m s1 s2" and "ok_step m s2 s3"
  shows "ok_step m s1 s3"
proof -
  have "length (Pads s1) = length (Pads s2)" using assms by (simp add: ok_step_def fg_ok_def)
  then show ?thesis using assms grows_trans[of s1 s2 s3] by (simp add: ok_step_def)
qed

lemma ok_step_ok: "ok_step m s s' \<Longrightarrow> fg_ok m s'"
  by (simp add: ok_step_def)

lemma fg_ok_chain: "fg_ok m s \<Longrightarrow> \<forall>c \<in> set (Chain s). c < length (Nodes s)"
  by (simp add: fg_ok_def)

lemma ok_step_update_node:
  assumes "fg_ok m s" and "n < length (Nodes s)" and "StartMSILOffset (f (Nodes s ! n)) = StartMSILOffset (Nodes s ! n)"
    and "targets (Term (f (Nodes s ! n))) \<subseteq> known s"
    and "n \<in> set (Chain s) \<Longrightarrow> same_block (Nodes s ! n) (f (Nodes s ! n))"
  shows "ok_step m s (update_node n f s)"
proof -
  have "fg_ok m (update_node n f s)" by (rule fg_ok_update_node[OF assms(1,2)]) (use assms(3,4) in auto)
  moreover have "grows s (update_node n f s)" by (rule grows_update_node) (use assms fg_ok_chain in auto)
  ultimately show ?thesis by (simp add: ok_step_def)
qed

lemma ok_step_with_node: "fg_ok m s \<Longrightarrow> targets (Term b) = {} \<Longrightarrow> ok_step m s (with_node b p s)"
  by (simp add: ok_step_def fg_ok_with_node grows_with_node fg_ok_chain)

text \<open>Adding the label of a node that is new.\<close>

lemma fg_ok_insert_label:
  assumes ok: "fg_ok m s" and out: "label_map (NodeOffsetListArray s) off = None" "in_labels (NodeOffsetListArray s) off"
    and n: "n < length (Nodes s)" "StartMSILOffset (Nodes s ! n) = off" "n \<notin> set (Chain s)" "n \<notin> set (PointBlocks s)"
  shows "ok_step m s (s\<lparr>NodeOffsetListArray := insert_label off n (NodeOffsetListArray s)\<rparr>)"
proof -
  let ?s = "s\<lparr>NodeOffsetListArray := insert_label off n (NodeOffsetListArray s)\<rparr>"
  have l: "labels_ok (NodeOffsetListArray s)" using ok by (simp add: fg_ok_def)
  note sp = insert_label_spec[OF l out(2,1), of n]
  have k: "known s \<subseteq> known ?s" using sp by (auto simp: known_def label_nodes_def)
  have "label_ok ?s e" if "e \<in> set (labels_of (NodeOffsetListArray ?s))" for e
    using that sp n ok by (auto simp: label_ok_def fg_ok_def)
  moreover have "pads_ok ?s q" if "q \<in> set (Pads s)" for q
    by (rule pads_ok_mono[of s]) (use ok that k in \<open>simp_all add: fg_ok_def\<close>)
  moreover have "targets (Term b) \<subseteq> known ?s" if "b \<in> set (Nodes s)" for b
    using fg_ok_terms[OF ok that] k by blast
  moreover have "length (insert_label off n (NodeOffsetListArray s)) = length (NodeOffsetListArray s)"
    by (simp add: insert_label_def Let_def split: prod.split)
  ultimately have "fg_ok m ?s" using ok sp by (simp add: fg_ok_def)
  moreover have "label_map (NodeOffsetListArray s) \<subseteq>\<^sub>m label_map (NodeOffsetListArray ?s)"
    using insert_label_content[OF l out(2,1), of n] out(1) by (auto simp: map_le_def dom_def)
  then have "grows s ?s" by (simp add: grows_def same_block_def dispatch_block_def)
  ultimately show ?thesis by (simp add: ok_step_def)
qed

lemma find_label_inside: "find_label labels off = Inr found \<Longrightarrow> in_labels labels off"
  by (auto simp: find_label_def in_labels_def array_get_def split: if_splits)

lemma makeFlowGraphNode_label:
  "makeFlowGraphNode off None s = (length (Nodes s), with_node (new_node\<lparr>StartMSILOffset := off\<rparr>) False s)"
  by (simp add: makeFlowGraphNode_def create_block_def with_node_def)

lemma fgAddNode_step:
  assumes ok: "fg_ok m s" and r: "fgAddNodeMSILOffset None off s = Inr (n, s')"
  shows "ok_step m s s' \<and> label_map (NodeOffsetListArray s') off = Some n"
proof -
  let ?L = "NodeOffsetListArray s"
  have l: "labels_ok ?L" using ok by (simp add: fg_ok_def)
  from r obtain found where f: "find_label ?L off = Inr found" by (auto simp: fgAddNodeMSILOffset_def rbind_eq_Inr_iff)
  note i = find_label_inside[OF f]
  have found: "label_map ?L off = found" using f lab.look_content[OF l i] by simp
  show ?thesis
  proof (cases found)
    case (Some n')
    with r f found ok show ?thesis by (simp add: fgAddNodeMSILOffset_def ok_step_refl)
  next
    case None
    let ?s1 = "with_node (new_node\<lparr>StartMSILOffset := off\<rparr>) False s"
    have step: "ok_step m s ?s1" by (rule ok_step_with_node[OF ok]) (simp add: new_node_def)
    from r f None have n: "n = length (Nodes s)"
      and s': "s' = ?s1\<lparr>NodeOffsetListArray := insert_label off n (NodeOffsetListArray ?s1)\<rparr>"
      by (auto simp: fgAddNodeMSILOffset_def makeFlowGraphNode_label)
    have fresh: "n \<notin> set (Chain s)" "n \<notin> set (PointBlocks s)" using ok n by (auto simp: fg_ok_def)
    have "ok_step m ?s1 s'" unfolding s'
      by (rule fg_ok_insert_label[OF ok_step_ok[OF step]]) (use None found i fresh n in \<open>simp_all add: new_node_def\<close>)
    moreover have "label_map (NodeOffsetListArray s') off = Some n"
      using lab.add_content[OF l i] None found by (simp add: s')
    ultimately show ?thesis using ok_step_trans[OF ok step] by blast
  qed
qed

lemma fgAddNode_total:
  assumes "fg_ok m s" and "in_labels (NodeOffsetListArray s) off"
  shows "\<exists>n s'. fgAddNodeMSILOffset None off s = Inr (n, s')"
  using lab.look_content[of "NodeOffsetListArray s" off] assms
  by (auto simp: fgAddNodeMSILOffset_def fg_ok_def makeFlowGraphNode_label split: option.split)

lemma createPointBlock_step:
  assumes ok: "fg_ok m s" and r: "createPointBlock m off s = Inr (n, s')"
  shows "ok_step m s s' \<and> n \<in> set (PointBlocks s') \<and> n < length (Nodes s') \<and> n \<notin> set (Chain s')"
proof -
  let ?b = "new_node\<lparr>StartMSILOffset := off, EndMSILOffset := off, Region := CurrentRegion s, PropagatesOperandStack := False\<rparr>"
  let ?s1 = "with_node ?b True s"
  have step: "ok_step m s ?s1" by (rule ok_step_with_node[OF ok]) (simp add: new_node_def)
  have n: "n = length (Nodes s)"
    using r by (auto simp: createPointBlock_def create_block_def rbind_eq_Inr_iff Let_def split: if_splits)
  have s': "s' = ?s1 \<or> (\<exists>k. fgAddNodeMSILOffset None off ?s1 = Inr (k, s'))"
    using r by (auto simp: createPointBlock_def create_block_def rbind_eq_Inr_iff with_node_def Let_def split: if_splits)
  have "ok_step m ?s1 s'"
    using s' fgAddNode_step[OF ok_step_ok[OF step]] ok_step_refl[OF ok_step_ok[OF step]] by blast
  moreover have "n \<in> set (PointBlocks ?s1)" by (simp add: n)
  ultimately have "ok_step m s s'" "n \<in> set (PointBlocks s')" "fg_ok m s'"
    using ok_step_trans[OF ok step] by (auto simp: ok_step_def grows_def)
  then show ?thesis by (auto simp: fg_ok_def)
qed

subsection \<open>Specification and samples\<close>

definition switch_block :: "RegionPads \<Rightarrow> node option" where
  "switch_block q = (case EndFinallySwitch q of None \<Rightarrow> None | Some d \<Rightarrow> DispatchBlock d)"

subsubsection \<open>Pads\<close>

subsection \<open>Lemmas\<close>

lemma update_pads_simps [simp]:
  "Chain (update_pads r f s) = Chain s" "PointBlocks (update_pads r f s) = PointBlocks s" "Nodes (update_pads r f s) = Nodes s"
  "NodeOffsetListArray (update_pads r f s) = NodeOffsetListArray s" "length (Pads (update_pads r f s)) = length (Pads s)"
  "CurrentRegion (update_pads r f s) = CurrentRegion s" "known (update_pads r f s) = known s"
  "UnreachableContinuationBlock (update_pads r f s) = UnreachableContinuationBlock s"
  by (auto simp: update_pads_def known_def label_nodes_def)

lemma ok_step_update_pads:
  assumes ok: "fg_ok m s" and new: "r < length (Regions m) \<Longrightarrow> pads_ok s (f (Pads s ! r))"
    and sw: "\<And>n. switch_block (Pads s ! r) = Some n \<Longrightarrow> switch_block (f (Pads s ! r)) = Some n"
  shows "ok_step m s (update_pads r f s)"
proof -
  let ?s = "update_pads r f s"
  have len: "length (Pads s) = length (Regions m)" using ok by (simp add: fg_ok_def)
  have p: "pads_ok ?s q" if "pads_ok s q" for q using pads_ok_mono[OF that] by simp
  have "pads_ok ?s (Pads ?s ! k)" if "k < length (Pads s)" for k
  proof (cases "k = r")
    case True
    then show ?thesis using p[OF new] that len by (simp add: update_pads_def)
  next
    case False
    then show ?thesis using p[OF fg_ok_pads[OF ok, of k]] that len by (simp add: update_pads_def)
  qed
  then have "\<forall>q \<in> set (Pads ?s). pads_ok ?s q" by (simp add: all_set_conv_all_nth)
  then have "fg_ok m ?s" using ok by (simp add: fg_ok_def label_ok_def)
  moreover have "dispatch_block ?s k = Some n" if "k < length (Pads s)" "dispatch_block s k = Some n" for k n
    using that sw[of n] by (cases "k = r") (auto simp: dispatch_block_def switch_block_def update_pads_def)
  then have "grows s ?s" by (simp add: grows_def same_block_def)
  ultimately show ?thesis by (simp add: ok_step_def)
qed

lemma set_term_step:
  assumes "fg_ok m s" and "n < length (Nodes s)" and "targets t \<subseteq> known s" and "n \<notin> set (Chain s)"
  shows "ok_step m s (set_term n t s)"
  unfolding set_term_def by (rule ok_step_update_node) (use assms in auto)

lemma set_term_simps [simp]:
  "Chain (set_term n t s) = Chain s" "PointBlocks (set_term n t s) = PointBlocks s"
  "NodeOffsetListArray (set_term n t s) = NodeOffsetListArray s" "Pads (set_term n t s) = Pads s"
  "length (Nodes (set_term n t s)) = length (Nodes s)" "known (set_term n t s) = known s"
  "CurrentRegion (set_term n t s) = CurrentRegion s" "dispatch_block (set_term n t s) = dispatch_block s"
  by (simp_all add: set_term_def)

text \<open>Changes of a node that concern neither its range nor its terminator.\<close>

lemma ok_step_attribute:
  assumes "fg_ok m s" and "n < length (Nodes s)" and "\<And>b. same_block b (f b)"
  shows "ok_step m s (update_node n f s)"
  by (rule ok_step_update_node)
    (use assms(3)[of "Nodes s ! n"] assms fg_ok_term[OF assms(1,2)] in \<open>auto simp: same_block_def\<close>)

lemma known_mono: "ok_step m s s' \<Longrightarrow> fg_ok m s \<Longrightarrow> known s \<subseteq> known s'"
proof
  fix n assume st: "ok_step m s s'" and ok: "fg_ok m s" and n: "n \<in> known s"
  have l: "labels_ok (NodeOffsetListArray s)" "labels_ok (NodeOffsetListArray s')" using st ok by (auto simp: ok_step_def fg_ok_def)
  have "n \<in> label_nodes s'" if "n \<in> label_nodes s"
  proof -
    from that obtain off where "label_map (NodeOffsetListArray s) off = Some n"
      using l(1) by (auto simp: label_nodes_def label_map_Some)
    then have "label_map (NodeOffsetListArray s') off = Some n" using st by (auto simp: ok_step_def grows_def map_le_def dom_def)
    then show ?thesis using l(2) by (auto simp: label_nodes_def label_map_Some)
  qed
  then show "n \<in> known s'" using n st by (auto simp: known_def ok_step_def grows_def)
qed

lemma points_mono: "ok_step m s s' \<Longrightarrow> set (PointBlocks s) \<subseteq> set (PointBlocks s')"
  by (simp add: ok_step_def grows_def)

lemma ok_step_point:
  assumes "ok_step m s s'" and "n \<in> set (PointBlocks s)"
  shows "n \<in> set (PointBlocks s') \<and> n < length (Nodes s') \<and> n \<notin> set (Chain s')"
  using assms points_mono[OF assms(1)] by (auto simp: ok_step_def fg_ok_def)

lemma pad_block_step:
  assumes ok: "fg_ok m s" and target: "k \<in> known s" and r: "pad_block m off pad k s = Inr (n, s')"
  shows "ok_step m s s' \<and> n \<in> set (PointBlocks s')"
proof -
  from r obtain s1 where c: "createPointBlock m off s = Inr (n, s1)"
    and s': "s' = set_term n (Br k) (update_node n (\<lambda>b. b\<lparr>Pad := pad\<rparr>) s1)"
    by (auto simp: pad_block_def rbind_eq_Inr_iff)
  note c1 = createPointBlock_step[OF ok c]
  let ?s2 = "update_node n (\<lambda>b. b\<lparr>Pad := pad\<rparr>) s1"
  have s2: "ok_step m s1 ?s2" using c1 by (intro ok_step_attribute) (auto simp: same_block_def ok_step_def)
  have s12: "ok_step m s ?s2" by (rule ok_step_trans[OF ok _ s2]) (use c1 in simp)
  have "k \<in> known ?s2" using target known_mono[OF s12 ok] by blast
  then have "ok_step m ?s2 s'"
    unfolding s' using c1 ok_step_ok[OF s12] by (intro set_term_step) auto
  then show ?thesis using ok_step_trans[OF ok s12] c1 by (simp add: s')
qed

subsection \<open>Lemmas\<close>

lemma ok_step_transI:
  "fg_ok m s1 \<Longrightarrow> ok_step m s1 s2 \<Longrightarrow> (fg_ok m s2 \<Longrightarrow> ok_step m s2 s3) \<Longrightarrow> ok_step m s1 s3"
  using ok_step_trans ok_step_ok by blast

lemma update_pads_step:
  assumes ok: "fg_ok m s" and p: "set_option p \<subseteq> set (PointBlocks s)"
  shows "ok_step m s (update_pads r (\<lambda>q. q\<lparr>CatchPad := p\<rparr>) s)" "ok_step m s (update_pads r (\<lambda>q. q\<lparr>CleanupPad := p\<rparr>) s)"
    "ok_step m s (update_pads r (\<lambda>q. q\<lparr>HandlerEHPad := p\<rparr>) s)"
proof -
  note q = fg_ok_pads[OF ok, of r] p
  show "ok_step m s (update_pads r (\<lambda>q. q\<lparr>CatchPad := p\<rparr>) s)" "ok_step m s (update_pads r (\<lambda>q. q\<lparr>CleanupPad := p\<rparr>) s)"
    "ok_step m s (update_pads r (\<lambda>q. q\<lparr>HandlerEHPad := p\<rparr>) s)"
    by (rule ok_step_update_pads[OF ok]; use q in \<open>simp add: pads_ok_def switch_block_def\<close>)+
qed

lemma handler_pad_point:
  "fg_ok m s \<Longrightarrow> r < length (Regions m) \<Longrightarrow>
     set_option (HandlerEHPad (Pads s ! r)) \<subseteq> set (PointBlocks s) \<and> set_option (CleanupPad (Pads s ! r)) \<subseteq> set (PointBlocks s)"
  using fg_ok_pads[of m s r] by (auto simp: pads_ok_def)

lemma update_pads_comp: "update_pads r (\<lambda>q. g (f q)) s = update_pads r g (update_pads r f s)"
  by (cases "r < length (Pads s)") (simp_all add: update_pads_def list_update_beyond)

text \<open>What a region needs of the tree: a filter has a handler inside the tree.\<close>

lemma createEHPad_step:
  assumes ok: "fg_ok m s" and H: "H < length (Regions m)" and r: "createEHPad m H P s = Inr (p, s')"
  shows "ok_step m s s' \<and> p \<in> set (PointBlocks s')"
proof -
  let ?h = "Regions m" and ?off = "StartMsilOffset (Regions m ! H)"
  from r obtain k s1 where add: "fgAddNodeMSILOffset None ?off s = Inr (k, s1)"
    by (auto simp: createEHPad_def Let_def rbind_eq_Inr_iff)
  note a = fgAddNode_step[OF ok add]
  have ok1: "fg_ok m s1" using a by (simp add: ok_step_def)
  have k: "k \<in> known s1" using fg_ok_label(3)[OF ok1] a by blast
  have sq: "\<not> NeedSequencePoints m" using r add by (auto simp: createEHPad_def)
  obtain pad s2 where pb: "pad_block m ?off pad k s1 = Inr (p, s2)"
    and s': "s' \<in> {update_pads H (\<lambda>q. q\<lparr>CleanupPad := Some p\<rparr>) s2,
        update_pads H (\<lambda>q. q\<lparr>CatchPad := Some p\<rparr>) (update_node p (\<lambda>b. b\<lparr>PropagatesOperandStack := True\<rparr>) s2)}
      \<or> (\<exists>fh. s' = update_pads fh (\<lambda>q. q\<lparr>CatchPad := Some p, HandlerEHPad := HandlerEHPad (Pads s2 ! H)\<rparr>)
          (update_pads H (\<lambda>q. q\<lparr>CatchPad := Some p\<rparr>) (update_node p (\<lambda>b. b\<lparr>PropagatesOperandStack := True\<rparr>) s2)))"
    using r add sq by (auto simp: createEHPad_def Let_def rbind_eq_Inr_iff split: RegionKind.splits option.splits)
  note b = pad_block_step[OF ok1 k pb]
  have s12: "ok_step m s s2" using ok_step_trans[OF ok] a b by blast
  have ok2: "fg_ok m s2" using b by (simp add: ok_step_def)
  have p2: "set_option (Some p) \<subseteq> set (PointBlocks s2)" using b by simp
  let ?s3 = "update_node p (\<lambda>b. b\<lparr>PropagatesOperandStack := True\<rparr>) s2"
  let ?s4 = "update_pads H (\<lambda>q. q\<lparr>CatchPad := Some p\<rparr>) ?s3"
  have ok3: "ok_step m s2 ?s3" using ok_step_point[OF s12] b ok2 
    by (intro ok_step_attribute) (auto simp: same_block_def fg_ok_def)
  have ok4: "ok_step m ?s3 ?s4" using update_pads_step(1)[OF ok_step_ok[OF ok3]] p2 by simp
  have "ok_step m s2 s'"
    using s'
  proof
    assume "s' \<in> {update_pads H (\<lambda>q. q\<lparr>CleanupPad := Some p\<rparr>) s2, ?s4}"
    then show ?thesis using update_pads_step(2)[OF ok2 p2] ok_step_trans[OF ok2 ok3 ok4] by auto
  next
    assume "\<exists>fh. s' = update_pads fh (\<lambda>q. q\<lparr>CatchPad := Some p, HandlerEHPad := HandlerEHPad (Pads s2 ! H)\<rparr>) ?s4"
    then obtain fh where "s' = update_pads fh (\<lambda>q. (q\<lparr>CatchPad := Some p\<rparr>)\<lparr>HandlerEHPad := HandlerEHPad (Pads s2 ! H)\<rparr>) ?s4" by auto
    then have s': "s' = update_pads fh (\<lambda>q. q\<lparr>HandlerEHPad := HandlerEHPad (Pads s2 ! H)\<rparr>) (update_pads fh (\<lambda>q. q\<lparr>CatchPad := Some p\<rparr>) ?s4)"
      by (simp only: update_pads_comp)
    have 5: "ok_step m ?s4 (update_pads fh (\<lambda>q. q\<lparr>CatchPad := Some p\<rparr>) ?s4)"
      using update_pads_step(1)[OF ok_step_ok[OF ok4]] p2 by simp
    have 6: "ok_step m (update_pads fh (\<lambda>q. q\<lparr>CatchPad := Some p\<rparr>) ?s4) s'"
      unfolding s' using update_pads_step(3)[OF ok_step_ok[OF 5]] handler_pad_point[OF ok2 H] by simp
    show ?thesis using ok_step_trans[OF ok2 ok_step_trans[OF ok2 ok_step_trans[OF ok2 ok3 ok4] 5] 6] .
  qed
  then show ?thesis using ok_step_trans[OF ok s12] ok_step_point[of m s2 s' p] b by blast
qed

subsection \<open>Specification and samples\<close>

definition regions_ok :: "Method \<Rightarrow> bool" where
  "regions_ok m \<longleftrightarrow> Regions m = [] \<or> heap_ok (Regions m)"

subsection \<open>Lemmas\<close>

text \<open>The regions a switch enters are regions of the tree.\<close>

lemma switch_grandchildren_entered:
  "switch_grandchildren h off c gs T = Enter g es \<Longrightarrow> set es \<subseteq> {c}"
  by (induction gs arbitrary: T) (auto simp: Let_def split: if_splits)

lemma switch_children_entered:
  "switch_children h off cs T = Inr (Enter r es) \<Longrightarrow> set es \<subseteq> set cs"
proof (induction cs arbitrary: T)
  case (Cons c cs)
  then show ?case
    by (auto simp: Let_def rbind_eq_Inr_iff dest!: switch_grandchildren_entered split: if_splits switch_step.splits)
qed simp

lemma fgSwitchRegion_entered:
  assumes "heap_ok h" "r < length h" "fgSwitchRegion fuel h r off = Some (Inr (r', n, es))"
  shows "\<forall>e \<in> set es. e < length h"
  using assms(2,3)
proof (induction fuel arbitrary: r r' n es)
  case (Suc fuel)
  show ?case
  proof (cases "off < EndMsilOffset (h ! r)")
    case True
    let ?sw = "switch_children h off (Children (h ! r)) (EndMsilOffset (h ! r))"
    show ?thesis
    proof (cases "\<exists>x xs. ?sw = Inr (Enter x xs)")
      case t: True
      then obtain x xs where sw: "?sw = Inr (Enter x xs)" by blast
      then obtain es' where "fgSwitchRegion fuel h x off = Some (Inr (r', n, es'))" "es = xs @ es'"
        using Suc.prems(2) by (auto simp: fgSwitchRegion_step[OF True] split: option.splits sum.splits)
      moreover have "x < length h" by (rule switch_target(2)[OF assms(1) Suc.prems(1) sw True])
      moreover have "\<forall>e \<in> set xs. e < length h"
        using switch_children_entered[OF sw] heap_ok_child[OF assms(1) Suc.prems(1)] by blast
      ultimately show ?thesis using Suc.IH by auto
    next
      case False
      then show ?thesis using Suc.prems(2) by (auto simp: fgSwitchRegion_step[OF True] split: sum.splits switch_step.splits)
    qed
  next
    case False
    then obtain q where "rgnGetEnclosingAncestor h r = Some q" "fgSwitchRegion fuel h q off = Some (Inr (r', n, es))"
      using Suc.prems(2) by (auto simp: fgSwitchRegion.simps(2) Let_def not_less split: if_splits option.splits)
    then show ?thesis using Suc.IH enclosing_ancestor_smaller[OF assms(1) Suc.prems(1)] Suc.prems(1) by (meson less_trans)
  qed
qed simp

lemma make_catch_switch_step:
  assumes ok: "fg_ok m s" and p: "parent < length (Regions m)"
    and r: "make_catch_switch m r parent E rest NewPad s = Inr (sw, s')"
  shows "ok_step m s s' \<and> sw \<in> set (PointBlocks s')"
proof -
  from r obtain s1 k where c: "createPointBlock m (EndMsilOffset (Regions m ! r)) s = Inr (sw, s1)"
    and s': "s' = set_term sw (CatchSwitchBr [] (HandlerEHPad (Pads s1 ! parent)))
             (update_node sw (\<lambda>b. b\<lparr>Pad := CatchSwitchPad E k\<rparr>) s1)"
    by (auto simp: make_catch_switch_def Let_def rbind_eq_Inr_iff)
  note c1 = createPointBlock_step[OF ok c]
  let ?s2 = "update_node sw (\<lambda>b. b\<lparr>Pad := CatchSwitchPad E k\<rparr>) s1"
  have s2: "ok_step m s1 ?s2" using c1 by (intro ok_step_attribute) (auto simp: same_block_def ok_step_def)
  have "set_option (HandlerEHPad (Pads s1 ! parent)) \<subseteq> set (PointBlocks s1)"
    using handler_pad_point[OF _ p, of s1] c1 by (simp add: ok_step_def)
  then have "ok_step m ?s2 s'"
    unfolding s' using c1 ok_step_ok[OF s2] by (intro set_term_step) (auto simp: known_def)
  then show ?thesis using ok_step_trans[OF ok ok_step_trans[OF ok _ s2]] c1 by (simp add: s')
qed

lemma add_handler_block_step:
  assumes ok: "fg_ok m s" and sw: "sw \<in> set (PointBlocks s)" and p: "p \<in> set (PointBlocks s)"
  shows "ok_step m s (add_handler_block sw p s)"
proof -
  have l: "sw < length (Nodes s)" "sw \<notin> set (Chain s)" using ok sw by (auto simp: fg_ok_def)
  have "p \<in> known s" using p by (simp add: known_def)
  then show ?thesis unfolding add_handler_block_def
    using fg_ok_term[OF ok l(1)] l
    by (intro ok_step_update_node[OF ok l(1)]; cases "Term (Nodes s ! sw)") simp_all
qed

lemma enter_children_step:
  assumes "fg_ok m s" and "parent < length (Regions m)" and "\<forall>c \<in> set cs. c < length (Regions m)"
    and "set_option CatchSwitch \<union> set_option NewPad \<subseteq> set (PointBlocks s)"
    and "enter_children m r parent E cs CatchSwitch NewPad s = Inr (P, s')"
  shows "ok_step m s s' \<and> set_option P \<subseteq> set (PointBlocks s')"
  using assms
proof (induction cs arbitrary: CatchSwitch NewPad s)
  case Nil
  then show ?case by (simp add: ok_step_refl)
next
  case (Cons c cs)
  let ?k = "Kind (Regions m ! c)"
  let ?inh = "\<lambda>st. update_pads c (\<lambda>q. q\<lparr>HandlerEHPad := HandlerEHPad (Pads st ! parent)\<rparr>) st"
  have inh: "ok_step m st (?inh st)" if "fg_ok m st" for st
    using update_pads_step(3)[OF that] handler_pad_point[OF that Cons.prems(2)] by blast
  note ok = Cons.prems(1) and par = Cons.prems(2)
  have c: "c < length (Regions m)" and cs: "\<forall>c \<in> set cs. c < length (Regions m)" using Cons.prems(3) by auto
  consider "?k = RGN_Try \<or> ?k = RGN_MExcept" | "?k = RGN_MCatch \<or> ?k = RGN_Filter" | "?k = RGN_Finally \<or> ?k = RGN_Fault"
    using Cons.prems(5) by (cases ?k) auto
  then show ?case
  proof cases
    case 1
    then have "enter_children m r parent E cs CatchSwitch NewPad s = Inr (P, s')" using Cons.prems(5) by auto
    then show ?thesis by (rule Cons.IH[OF ok par cs Cons.prems(4)])
  next
    case 2
    then obtain sw s1 p s2 where sw: "(case CatchSwitch of Some sw \<Rightarrow> Inr (sw, s)
           | None \<Rightarrow> make_catch_switch m r parent E cs NewPad s) = Inr (sw, s1)"
      and p: "createEHPad m c (PadOf (Some sw)) (?inh s1) = Inr (p, s2)"
      and rest: "enter_children m r parent E cs (Some sw) (if CatchSwitch = None then Some sw else NewPad) (add_handler_block sw p s2) = Inr (P, s')"
      using Cons.prems(5) by (auto simp: Let_def rbind_eq_Inr_iff)
    have 1: "ok_step m s s1 \<and> sw \<in> set (PointBlocks s1)"
      using sw make_catch_switch_step[OF ok par] Cons.prems(4) ok_step_refl[OF ok] by (cases CatchSwitch) auto
    have i: "ok_step m s1 (?inh s1)" using inh 1 by (simp add: ok_step_def)
    have s1i: "ok_step m s (?inh s1)" using 1 by (intro ok_step_trans[OF ok _ i]) simp
    note e = createEHPad_step[OF ok_step_ok[OF i] c p]
    have s2: "ok_step m s s2" using e by (intro ok_step_trans[OF ok s1i]) simp
    have sw2: "sw \<in> set (PointBlocks s2)" using 1 ok_step_point[of m "?inh s1" s2 sw] e by simp
    have h: "ok_step m s2 (add_handler_block sw p s2)"
      using e sw2 by (intro add_handler_block_step) (auto simp: ok_step_def)
    have s3: "ok_step m s (add_handler_block sw p s2)" by (rule ok_step_trans[OF ok s2 h])
    have "set_option (Some sw) \<union> set_option (if CatchSwitch = None then Some sw else NewPad) \<subseteq> set (PointBlocks (add_handler_block sw p s2))"
      using sw2 Cons.prems(4) points_mono[OF s2] points_mono[OF h] by (auto split: if_splits)
    from Cons.IH[OF ok_step_ok[OF h] par cs this rest] show ?thesis using ok_step_trans[OF ok s3] by blast
  next
    case 3
    then obtain p s1 where p: "createEHPad m c E (?inh s) = Inr (p, s1)"
      and rest: "enter_children m r parent E cs CatchSwitch (Some p) s1 = Inr (P, s')"
      using Cons.prems(5) by (auto simp: Let_def rbind_eq_Inr_iff)
    note i = inh[OF ok]
    note e = createEHPad_step[OF ok_step_ok[OF i] c p]
    have s1: "ok_step m s s1" using e by (intro ok_step_trans[OF ok i]) simp
    have "set_option CatchSwitch \<union> set_option (Some p) \<subseteq> set (PointBlocks s1)"
      using e Cons.prems(4) points_mono[OF s1] by auto
    from Cons.IH[OF ok_step_ok[OF s1] par cs this rest] show ?thesis using ok_step_trans[OF ok s1] by blast
  qed
qed

lemma fgEnterRegion_step:
  assumes ok: "fg_ok m s" and t: "heap_ok (Regions m)" "r < length (Regions m)" and e: "fgEnterRegion m r s = Inr s'"
  shows "ok_step m s s'"
proof (cases "Kind (Regions m ! r) = RGN_Try")
  case False
  then show ?thesis using e ok_step_refl[OF ok] by (simp add: fgEnterRegion_def)
next
  case True
  then obtain parent E P s1 where par: "Parent (Regions m ! r) = Some parent"
    and c: "enter_children m r parent E (Children (Regions m ! r)) None None s = Inr (P, s1)"
    and s': "s' = update_pads r (\<lambda>q. q\<lparr>HandlerEHPad := P\<rparr>) s1"
    using e by (auto simp: fgEnterRegion_def Let_def rbind_eq_Inr_iff split: option.splits)
  have "parent < length (Regions m)"
    using heap_ok_region[OF t] par t(2) by (auto simp: region_ok_def split: if_splits)
  note st = enter_children_step[OF ok this _ _ c]
  have 1: "ok_step m s s1 \<and> set_option P \<subseteq> set (PointBlocks s1)"
    using heap_ok_child[OF t] by (intro st) auto
  then have "ok_step m s1 s'" unfolding s' by (intro update_pads_step) (auto simp: ok_step_def)
  then show ?thesis using ok_step_trans[OF ok] 1 by blast
qed

lemma enter_regions_step:
  assumes "fg_ok m s" and "heap_ok (Regions m)" and "\<forall>r \<in> set rs. r < length (Regions m)" and "enter_regions m rs s = Inr s'"
  shows "ok_step m s s'"
  using assms
proof (induction rs arbitrary: s)
  case Nil
  then show ?case by (simp add: ok_step_refl)
next
  case (Cons r rs)
  then obtain s1 where "fgEnterRegion m r s = Inr s1" "enter_regions m rs s1 = Inr s'" by (auto simp: rbind_eq_Inr_iff)
  with Cons.prems Cons.IH[of s1] show ?case
    using fgEnterRegion_step[of m s r s1] ok_step_trans[of m s s1 s'] by (auto simp: ok_step_def)
qed

subsection \<open>Lemmas\<close>

subsubsection \<open>Finally dispatch\<close>

lemma updateLeaveOffset_stores:
  assumes "heap_ok h" "r < length h" "updateLeaveOffset fuel h supp leave r target = Some (off, ih, stores)"
  shows "\<forall>(f, t) \<in> set stores. f < length h"
  using assms(2,3)
proof (induction fuel arbitrary: r target off ih stores)
  case (Suc fuel)
  have kf: "f < length h" if "exited_finally h r target = Some f" for f
    using that heap_ok_child[OF assms(1) Suc.prems(1), of f]
    by (auto simp: exited_finally_def getFinallyRegion_def find_Some_iff split: if_splits)
  show ?case
  proof (cases "getInnerEnclosingRegion h r leave")
    case None
    then show ?thesis using Suc.prems kf by (auto simp: updateLeaveOffset_step split: if_splits option.splits)
  next
    case (Some x)
    note x = getInnerEnclosingRegion_spec(2)[OF assms(1) Suc.prems(1) Some]
    show ?thesis using Suc.prems kf Some Suc.IH[OF x]
      by (fastforce simp: updateLeaveOffset_step split: if_splits option.splits)
  qed
qed simp

lemma leave_target_stores:
  assumes "regions_ok m" and "leave_target (Regions m) supp leave target = Some (off, stores)"
  shows "\<forall>(f, t) \<in> set stores. f < length (Regions m)"
proof (cases "Regions m = []")
  case True
  then show ?thesis using assms(2) by (simp add: leave_target_def)
next
  case False
  then have "heap_ok (Regions m)" "0 < length (Regions m)" using assms(1) by (auto simp: regions_ok_def)
  note st = updateLeaveOffset_stores[OF this]
  from assms(2) False obtain ih where "updateLeaveOffset (length (Regions m)) (Regions m) supp leave 0 target = Some (off, ih, stores)"
    by (auto simp: leave_target_def)
  from st[OF this] show ?thesis .
qed

lemma getFinally_region:
  assumes "regions_ok m" and "getInnermostFaultOrFinallyRegion (Regions m) off = Some (Some f)"
  shows "f < length (Regions m)"
proof -
  let ?h = "Regions m"
  have ne: "?h \<noteq> []" using assms(2) by (auto simp: getInnermostFaultOrFinallyRegion_def)
  then have h: "heap_ok ?h" using assms(1) by (simp add: regions_ok_def)
  have "innermost_walk fuel ?h off t best = Some (Some f) \<Longrightarrow> set_option t \<subseteq> {..<length ?h} \<Longrightarrow>
      set_option best \<subseteq> {..<length ?h} \<Longrightarrow> f < length ?h" for fuel t best
  proof (induction fuel arbitrary: t best)
    case (Suc fuel)
    show ?case
    proof (cases t)
      case None
      then show ?thesis using Suc.prems by auto
    next
      case (Some r)
      have "set_option (getInnerEnclosingRegion ?h r off) \<subseteq> {..<length ?h}"
        using getInnerEnclosingRegion_spec(2)[OF h, of r off] Suc.prems(2) Some
        by (cases "getInnerEnclosingRegion ?h r off") auto
      then show ?thesis using Suc Some by (auto split: if_splits)
    qed
  qed simp
  from this[of "length ?h + 1" "Some 0" None] assms(2) ne show ?thesis
    by (simp add: getInnermostFaultOrFinallyRegion_def)
qed

lemma ok_step_other:
  assumes "fg_ok m s" and "Nodes s' = Nodes s" "Chain s' = Chain s" "PointBlocks s' = PointBlocks s"
    "NodeOffsetListArray s' = NodeOffsetListArray s" "Pads s' = Pads s" "CurrentRegion s' = CurrentRegion s"
  shows "ok_step m s s'"
proof -
  have k: "known s' = known s" using assms by (simp add: known_def label_nodes_def)
  have "pads_ok s' = pads_ok s" "label_ok s' = label_ok s"
    using assms k by (auto simp: pads_ok_def dispatch_ok_def label_ok_def fun_eq_iff)
  then show ?thesis using assms k by (simp add: ok_step_def fg_ok_def grows_def same_block_def dispatch_block_def)
qed

lemma fg_ok_other:
  assumes "fg_ok m s" and "Nodes s' = Nodes s" "Chain s' = Chain s" "PointBlocks s' = PointBlocks s"
    "NodeOffsetListArray s' = NodeOffsetListArray s" "Pads s' = Pads s"
  shows "fg_ok m s'"
proof -
  have k: "known s' = known s" using assms by (simp add: known_def label_nodes_def)
  have "pads_ok s' = pads_ok s" "label_ok s' = label_ok s"
    using assms k by (auto simp: pads_ok_def dispatch_ok_def label_ok_def fun_eq_iff)
  then show ?thesis using assms k by (simp add: fg_ok_def)
qed

lemma fgAddNode_pads:
  assumes "fgAddNodeMSILOffset None off s = Inr (n, s')"
  shows "Pads s' = Pads s"
proof -
  from assms obtain found where "find_label (NodeOffsetListArray s) off = Inr found"
    by (auto simp: fgAddNodeMSILOffset_def rbind_eq_Inr_iff)
  then show ?thesis using assms by (cases found) (auto simp: fgAddNodeMSILOffset_def makeFlowGraphNode_label)
qed

lemma createPointBlock_pads: "createPointBlock m off s = Inr (n, s') \<Longrightarrow> Pads s' = Pads s"
  by (cases "off = ILCodeSize m") (auto simp: createPointBlock_def create_block_def Let_def rbind_eq_Inr_iff dest: fgAddNode_pads)

lemma createFinallyDispatch_step:
  assumes ok: "fg_ok m s" and none: "EndFinallySwitch (Pads s ! f) = None" and f: "f < length (Regions m)"
    and r: "createFinallyDispatch m f s = Inr s'"
  shows "ok_step m s s' \<and> EndFinallySwitch (Pads s' ! f) = Some \<lparr>Cases = [], DispatchBlock = None\<rparr>"
proof -
  obtain s1 where s1: "ok_step m s s1" "Pads s1 = Pads s"
    and s': "s' = update_pads f (\<lambda>q. q\<lparr>EndFinallySwitch := Some \<lparr>Cases = [], DispatchBlock = None\<rparr>\<rparr>) s1"
  proof (cases "UnreachableContinuationBlock s")
    case (Some u)
    then show ?thesis using that[OF ok_step_refl[OF ok]] r by (simp add: createFinallyDispatch_def)
  next
    case None
    obtain n s0 where c: "createPointBlock m (ILCodeSize m) s = Inr (n, s0)"
      using r None by (cases "createPointBlock m (ILCodeSize m) s") (auto simp: createFinallyDispatch_def)
    have s': "s' = update_pads f (\<lambda>q. q\<lparr>EndFinallySwitch := Some \<lparr>Cases = [], DispatchBlock = None\<rparr>\<rparr>)
           ((set_term n UnreachableInst s0)\<lparr>UnreachableContinuationBlock := Some n\<rparr>)"
      using r None c by (simp add: createFinallyDispatch_def)
    note c1 = createPointBlock_step[OF ok c]
    have "ok_step m s0 (set_term n UnreachableInst s0)" using c1 by (intro set_term_step) (auto simp: ok_step_def)
    then have "ok_step m s (set_term n UnreachableInst s0)" using c1 ok_step_trans[OF ok] by blast
    then have "ok_step m s ((set_term n UnreachableInst s0)\<lparr>UnreachableContinuationBlock := Some n\<rparr>)"
      by (rule ok_step_transI[OF ok]) (rule ok_step_other, auto)
    moreover note createPointBlock_pads[OF c]
    ultimately show ?thesis using that s' by simp
  qed
  have "ok_step m s1 s'" unfolding s' using none f s1 fg_ok_pads[OF ok f]
    by (intro ok_step_update_pads) (auto simp: switch_block_def ok_step_def pads_ok_def dispatch_ok_def grows_def)
  moreover have "f < length (Pads s1)" using s1 ok f by (simp add: fg_ok_def)
  ultimately show ?thesis using s1 ok_step_trans[OF ok] by (auto simp: s' update_pads_def)
qed

lemma finally_dispatch_step:
  assumes ok: "fg_ok m s" and f: "f < length (Regions m)" and r: "finally_dispatch m f s = Inr (d, s')"
  shows "ok_step m s s' \<and> EndFinallySwitch (Pads s' ! f) = Some d \<and> dispatch_ok s' d"
proof -
  have 1: "ok_step m s s' \<and> EndFinallySwitch (Pads s' ! f) = Some d"
  proof (cases "EndFinallySwitch (Pads s ! f)")
    case None
    then show ?thesis using r createFinallyDispatch_step[OF ok None f]
      by (auto simp: finally_dispatch_def rbind_eq_Inr_iff split: option.splits)
  next
    case (Some d')
    then show ?thesis using r ok_step_refl[OF ok] by (simp add: finally_dispatch_def)
  qed
  then show ?thesis using fg_ok_pads[OF _ f, of s'] by (simp add: ok_step_def pads_ok_def)
qed

lemma set_dispatch_step:
  assumes ok: "fg_ok m s" and d: "f < length (Regions m)" "dispatch_ok s d"
    and same: "\<And>n. dispatch_block s f = Some n \<Longrightarrow> DispatchBlock d = Some n"
  shows "ok_step m s (set_dispatch f d s)"
  unfolding set_dispatch_def using fg_ok_pads[OF ok d(1)] d same
  by (intro ok_step_update_pads[OF ok]) (auto simp: pads_ok_def switch_block_def dispatch_block_def)

lemma set_dispatch_pads: "f < length (Pads s) \<Longrightarrow> EndFinallySwitch (Pads (set_dispatch f d s) ! f) = Some d"
  by (simp add: set_dispatch_def update_pads_def)

lemma select_continuation_cases:
  "select_continuation n d = (v, d') \<Longrightarrow> DispatchBlock d' = DispatchBlock d \<and> snd ` set (Cases d') \<subseteq> insert n (snd ` set (Cases d))"
  by (auto simp: select_continuation_def Let_def split: option.splits)

lemma store_continuation_step:
  assumes ok: "fg_ok m s" and f: "f < length (Regions m)" and b: "b < length (Nodes s)"
    and r: "store_continuation m b (f, t) s = Inr s'"
  shows "ok_step m s s'"
proof -
  from r obtain n s1 d s2 where a: "fgAddNodeMSILOffset None t s = Inr (n, s1)"
    and fd: "finally_dispatch m f s1 = Inr (d, s2)"
    by (auto simp: store_continuation_def rbind_eq_Inr_iff)
  obtain v d' where sel: "select_continuation n d = (v, d')" by fastforce
  with r a fd have s': "s' = add_store b f v (set_dispatch f d' s2)" by (simp add: store_continuation_def)
  note a1 = fgAddNode_step[OF ok a]
  have ok1: "fg_ok m s1" using a1 by (simp add: ok_step_def)
  note d1 = finally_dispatch_step[OF ok1 f fd]
  have s02: "ok_step m s s2" using a1 d1 ok_step_trans[OF ok] by blast
  have "n \<in> known s2" using fg_ok_label(3)[OF ok1] a1 known_mono[OF _ ok1] d1 by blast
  then have dd: "dispatch_ok s2 d'" using select_continuation_cases[OF sel] d1 by (auto simp: dispatch_ok_def)
  have s3: "ok_step m s2 (set_dispatch f d' s2)"
    using select_continuation_cases[OF sel] d1 dd f
    by (intro set_dispatch_step) (auto simp: ok_step_def dispatch_block_def)
  have "b < length (Nodes (set_dispatch f d' s2))" using b s02 by (auto simp: set_dispatch_def ok_step_def grows_def)
  then have "ok_step m (set_dispatch f d' s2) s'" unfolding s' add_store_def
    using s3 by (intro ok_step_attribute) (auto simp: same_block_def ok_step_def)
  then show ?thesis using ok_step_trans[OF ok ok_step_trans[OF ok s02 s3]] by blast
qed

lemma ok_step_length: "ok_step m s s' \<Longrightarrow> length (Nodes s) \<le> length (Nodes s')"
  by (simp add: ok_step_def grows_def)

lemma store_continuations_step:
  assumes "fg_ok m s" and "\<forall>(f, t) \<in> set sts. f < length (Regions m)" and "b < length (Nodes s)"
    and "store_continuations m b sts s = Inr s'"
  shows "ok_step m s s'"
  using assms
proof (induction sts arbitrary: s)
  case Nil
  then show ?case by (simp add: ok_step_refl)
next
  case (Cons st sts)
  then obtain s1 where 1: "store_continuation m b st s = Inr s1" "store_continuations m b sts s1 = Inr s'"
    by (auto simp: rbind_eq_Inr_iff)
  have "ok_step m s s1" using store_continuation_step[OF Cons.prems(1) _ Cons.prems(3)] 1(1) Cons.prems(2) by (cases st) auto
  moreover from this have "ok_step m s1 s'"
    using Cons.IH[OF _ _ _ 1(2)] Cons.prems ok_step_length[of m s s1] by (auto simp: ok_step_def)
  ultimately show ?case using ok_step_trans[OF Cons.prems(1)] by blast
qed

lemma fgUpdateLeaveOffset_step:
  assumes ok: "fg_ok m s" and reg: "regions_ok m" and b: "b < length (Nodes s)"
    and r: "fgUpdateLeaveOffset m leave nxt b target s = Inr (off, s')"
  shows "ok_step m s s' \<and> (\<exists>stores. leave_target (Regions m) False leave target = Some (off, stores))"
proof -
  from r obtain stores s1 where l: "leave_target (Regions m) False leave target = Some (off, stores)"
    and st: "store_continuations m b stores s = Inr s1"
    and s': "s' = (if stores = [] then s1 else s1\<lparr>ContinuationStoreMap := nxt # ContinuationStoreMap s1\<rparr>)"
    by (auto simp: fgUpdateLeaveOffset_def rbind_eq_Inr_iff split: option.splits)
  have 1: "ok_step m s s1" by (rule store_continuations_step[OF ok leave_target_stores[OF reg l] b st])
  have "ok_step m s1 s'" unfolding s' by (rule ok_step_other[OF ok_step_ok[OF 1]]) auto
  then show ?thesis using ok_step_trans[OF ok 1] l by blast
qed

lemma fgMakeEndFinally_step:
  assumes ok: "fg_ok m s" and f: "f < length (Regions m)" and r: "fgMakeEndFinally m b f s = Inr s'"
  shows "\<exists>s1 t. ok_step m s s1 \<and> s' = set_term b (Br t) s1 \<and> dispatch_block s1 f = Some t \<and> t \<in> set (PointBlocks s1)"
proof -
  let ?off = "EndMsilOffset (Regions m ! f)"
  from r obtain d s1 where fd: "finally_dispatch m f s = Inr (d, s1)" by (auto simp: fgMakeEndFinally_def Let_def rbind_eq_Inr_iff)
  note d1 = finally_dispatch_step[OF ok f fd]
  have ok1: "fg_ok m s1" using d1 by (simp add: ok_step_def)
  show ?thesis
  proof (cases "DispatchBlock d")
    case (Some t)
    then show ?thesis using r fd d1 by (auto simp: fgMakeEndFinally_def dispatch_block_def dispatch_ok_def)
  next
    case None
    let ?dsp = "\<lambda>t e s3. set_dispatch f \<lparr>Cases = Cases d @ [(0, e)], DispatchBlock = Some t\<rparr>
          (set_term e (CleanupRet (CleanupPad (Pads s3 ! f)) (HandlerEHPad (Pads s3 ! f))) s3)"
    from None r fd obtain t s2 e s3 p where t: "createPointBlock m ?off s1 = Inr (t, s2)"
      and e: "createPointBlock m ?off (set_term t (FinallySwitch f) s2) = Inr (e, s3)"
      and p: "CleanupPad (Pads (?dsp t e s3) ! f) = Some p" and s': "s' = set_term b (Br t) (add_store p f 0 (?dsp t e s3))"
      by (auto simp: fgMakeEndFinally_def Let_def rbind_eq_Inr_iff split: option.splits)
    note t1 = createPointBlock_step[OF ok1 t]
    have 2: "ok_step m s2 (set_term t (FinallySwitch f) s2)" using t1 by (intro set_term_step) (auto simp: ok_step_def)
    note e1 = createPointBlock_step[OF ok_step_ok[OF 2] e]
    have s13: "ok_step m s1 s3" using ok_step_trans[OF ok1 ok_step_trans[OF ok1 _ 2]] t1 e1 by blast
    have ok3: "fg_ok m s3" using e1 by (simp add: ok_step_def)
    let ?s4 = "set_term e (CleanupRet (CleanupPad (Pads s3 ! f)) (HandlerEHPad (Pads s3 ! f))) s3"
    have 4: "ok_step m s3 ?s4"
      using e1 handler_pad_point[OF ok3 f] ok3 by (intro set_term_step) (auto simp: known_def)
    have s14: "ok_step m s1 ?s4" by (rule ok_step_trans[OF ok1 s13 4])
    have t4: "t \<in> set (PointBlocks ?s4)" using t1 points_mono[of m "set_term t (FinallySwitch f) s2" s3] e1 by auto
    have e4: "e \<in> set (PointBlocks ?s4)" using e1 by simp
    have dd: "dispatch_ok ?s4 \<lparr>Cases = Cases d @ [(0, e)], DispatchBlock = Some t\<rparr>"
      using d1 known_mono[OF s14 ok1] t4 e4 by (auto simp: dispatch_ok_def known_def)
    let ?s5 = "?dsp t e s3"
    have "Pads ?s4 = Pads s1" using createPointBlock_pads[OF t] createPointBlock_pads[OF e] by simp
    then have none: "dispatch_block ?s4 f = None" using d1 None by (simp add: dispatch_block_def)
    have 5: "ok_step m ?s4 ?s5" by (rule set_dispatch_step[OF ok_step_ok[OF 4] f dd]) (use none in simp)
    have s05: "ok_step m s ?s5" using ok_step_trans[OF ok ok_step_trans[OF ok _ s14] 5] d1 by blast
    have "p \<in> set (PointBlocks ?s5)" using handler_pad_point[OF ok_step_ok[OF 5] f] p by simp
    then have "p < length (Nodes ?s5)" using ok_step_ok[OF 5] by (simp add: fg_ok_def)
    then have 6: "ok_step m ?s5 (add_store p f 0 ?s5)" unfolding add_store_def
      using ok_step_ok[OF 5] by (intro ok_step_attribute) (simp_all add: same_block_def)
    have "f < length (Pads ?s4)" using ok_step_ok[OF 4] f by (simp add: fg_ok_def)
    then have "dispatch_block (add_store p f 0 ?s5) f = Some t"
      using set_dispatch_pads[of f ?s4] by (simp add: add_store_def dispatch_block_def[of ?s5])
    moreover have "t \<in> set (PointBlocks (add_store p f 0 ?s5))" using t4 by (simp add: add_store_def set_dispatch_def)
    ultimately show ?thesis using ok_step_trans[OF ok s05 6] s' by blast
  qed
qed

end
