(* ===== verification/FlowGraphCorrect.thy ===== *)
theory FlowGraphCorrect
  imports FlowGraphShape
begin

section \<open>The flow graph: correctness\<close>

text \<open>
  What the finished flow graph is: its blocks tile the code of the method, and the block that ends
  behind an instruction has the terminator the instruction asks for, with the blocks at the target
  offsets as successors. The first phase establishes this with temporary nodes as successors, the
  second one replaces them.
\<close>

subsection \<open>Specification\<close>

text \<open>Where control goes behind an instruction; \<open>None\<close> for an instruction that does not end a block.\<close>

datatype Flow = Jump u32 | Cond u32 u32 | Multi u32 "u32 list" | Halt | Away | ToDispatch region_ptr

definition branch_flow :: "Method \<Rightarrow> u32 \<Rightarrow> ParseResult \<Rightarrow> Flow option result" where
  "branch_flow m off r =
     rbind (read_branch m r) (\<lambda>t.
     case (if is_leave (opcode r) then map_option fst (leave_target (Regions m) False off t) else Some t) of
       None \<Rightarrow> Inl (nullptr ''ChildRegion'')
     | Some t' \<Rightarrow> Inr (Some (if is_conditional (opcode r) then Cond t' (next_offset r) else Jump t')))"

definition switch_flow :: "Method \<Rightarrow> ParseResult \<Rightarrow> Flow option result" where
  "switch_flow m r =
     (case operand r of
        None \<Rightarrow> Inl (nullptr ''Operand'')
      | Some cur \<Rightarrow>
          rbind (readNumberOfSwitchCases (ILCode m) cur) (\<lambda>(n, cursor).
          if n = 0 then Inr None
          else rbind (read_cases (unat n) (ILCode m) cursor) (\<lambda>vs.
               Inr (Some (Multi (next_offset r) (map (\<lambda>v. next_offset r + word_of_int v) vs))))))"

definition flow_of :: "Method \<Rightarrow> u32 \<Rightarrow> ParseResult \<Rightarrow> Flow option result" where
  "flow_of m off r =
     (let op = opcode r in
      if op \<in> set short_branches \<or> op \<in> set long_branches then branch_flow m off r
      else if op = CEE_SWITCH then switch_flow m r
      else if op = CEE_THROW \<or> op = CEE_RETHROW \<or> op = CEE_RET then Inr (Some Halt)
      else if op = CEE_ENDFILTER then Inr (Some (Jump (next_offset r)))
      else if op = CEE_ENDFINALLY then
        (case getInnermostFaultOrFinallyRegion (Regions m) off of
           Some (Some f) \<Rightarrow> Inr (Some (if Kind (Regions m ! f) = RGN_Finally then ToDispatch f else Halt))
         | _ \<Rightarrow> Inl (nullptr ''HandlerRegion''))
      else if op = CEE_JMP then Inr (Some Away)
      else Inr None)"

text \<open>A terminator goes where an instruction asks it to.\<close>

abbreviation start :: "FlowGraph \<Rightarrow> node \<Rightarrow> u32" where
  "start s n \<equiv> StartMSILOffset (Nodes s ! n)"

fun fulfils :: "Method \<Rightarrow> FlowGraph \<Rightarrow> Terminator \<Rightarrow> Flow \<Rightarrow> bool" where
  "fulfils m s t (Jump x) \<longleftrightarrow> (\<exists>n. t = Br n \<and> start s n = x)"
| "fulfils m s t (Cond x y) \<longleftrightarrow> (\<exists>n k. t = CondBr n k \<and> start s n = x
     \<and> (case k of Some n' \<Rightarrow> start s n' = y | None \<Rightarrow> y = ILCodeSize m))"
| "fulfils m s t (Multi y xs) \<longleftrightarrow> (\<exists>d cs. t = SwitchBr d cs \<and> start s d = y
     \<and> map fst cs = map word_of_nat [0..<length xs] \<and> map (\<lambda>(v, n). start s n) cs = xs)"
| "fulfils m s t Halt \<longleftrightarrow> t = UnreachableInst"
| "fulfils m s t Away \<longleftrightarrow> t = NoTerm"
| "fulfils m s t (ToDispatch f) \<longleftrightarrow> f < length (Regions m) \<and> (\<exists>n. t = Br n \<and> dispatch_block s f = Some n)"

text \<open>The blocks cover the code between two offsets, in order and without gaps.\<close>

fun tiles :: "FlowGraphNode list \<Rightarrow> u32 \<Rightarrow> node list \<Rightarrow> u32 \<Rightarrow> bool" where
  "tiles N off [] e \<longleftrightarrow> off = e"
| "tiles N off (b # bs) e \<longleftrightarrow> StartMSILOffset (N ! b) = off \<and> off < EndMSILOffset (N ! b) \<and> tiles N (EndMSILOffset (N ! b)) bs e"

text \<open>The instructions of a stretch of code.\<close>

type_synonym listing = "(u32 \<times> ParseResult) list"

fun decodes :: "Method \<Rightarrow> u32 \<Rightarrow> listing \<Rightarrow> u32 \<Rightarrow> bool" where
  "decodes m off [] e \<longleftrightarrow> off = e"
| "decodes m off ((o1, r) # ps) e \<longleftrightarrow> o1 = off \<and> off < ILCodeSize m
     \<and> parseILOpcode (Opargs m) (ILCode m) off (ILCodeSize m) True = Inr r \<and> decodes m (next_offset r) ps e"

text \<open>Why a block ends: an instruction ends it, or it falls through to the block that follows.\<close>

definition closed :: "Method \<Rightarrow> listing \<Rightarrow> FlowGraph \<Rightarrow> node \<Rightarrow> bool" where
  "closed m ps s b \<longleftrightarrow>
     (\<exists>(o1, r) \<in> set ps. next_offset r = EndMSILOffset (Nodes s ! b) \<and> (\<exists>fl. flow_of m o1 r = Inr (Some fl)))
     \<or> (\<exists>n. Term (Nodes s ! b) = Br n \<and> start s n = EndMSILOffset (Nodes s ! b))"

text \<open>
  The state of phase 1 at offset \<open>c\<close> with the current block \<open>b\<close>: \<open>ps\<close> are the instructions read,
  \<open>qs\<close> those of them whose block is finished.
\<close>

definition ended :: "Method \<Rightarrow> listing \<Rightarrow> u32 \<Rightarrow> node \<Rightarrow> FlowGraph \<Rightarrow> bool" where
  "ended m qs c b s \<longleftrightarrow>
     (\<forall>(o1, r) \<in> set qs. \<forall>fl. flow_of m o1 r = Inr (Some fl) \<longrightarrow>
        (\<exists>b' \<in> set (Chain s). (b' \<noteq> b \<or> next_offset r = c \<and> \<not> c < ILCodeSize m)
           \<and> EndMSILOffset (Nodes s ! b') = next_offset r \<and> fulfils m s (Term (Nodes s ! b')) fl))"

definition p1_inv :: "Method \<Rightarrow> listing \<Rightarrow> listing \<Rightarrow> u32 \<Rightarrow> node \<Rightarrow> FlowGraph \<Rightarrow> bool" where
  "p1_inv m ps qs c b s \<longleftrightarrow>
     fg_ok m s \<and> (\<exists>bs. Chain s = bs @ [b] \<and> tiles (Nodes s) 0 bs (start s b) \<and> (\<forall>b' \<in> set bs. closed m ps s b'))
     \<and> start s b \<le> c \<and> (start s b < ILCodeSize m \<or> ILCodeSize m = 0)
     \<and> (Regions m \<noteq> [] \<longrightarrow> (\<exists>q < length (Regions m). CurrentRegion s = Some q))
     \<and> (c < ILCodeSize m \<longrightarrow> Term (Nodes s ! b) = NoTerm)
     \<and> (\<not> c < ILCodeSize m \<longrightarrow> Term (Nodes s ! b) = NoTerm \<or> (EndMSILOffset (Nodes s ! b) = c \<and> closed m ps s b))
     \<and> ended m qs c b s"

subsection \<open>Lemmas\<close>

lemma tiles_append: "tiles N off (xs @ ys) e \<longleftrightarrow> (\<exists>k. tiles N off xs k \<and> tiles N k ys e)"
  by (induction xs arbitrary: off) auto

lemma tiles_cong:
  "(\<And>b. b \<in> set bs \<Longrightarrow> StartMSILOffset (N' ! b) = StartMSILOffset (N ! b) \<and> EndMSILOffset (N' ! b) = EndMSILOffset (N ! b)) \<Longrightarrow>
   tiles N' off bs e = tiles N off bs e"
  by (induction bs arbitrary: off) auto

lemma decodes_append: "decodes m off (ps @ qs) e \<longleftrightarrow> (\<exists>k. decodes m off ps k \<and> decodes m k qs e)"
  by (induction ps arbitrary: off) auto

text \<open>The successors of a terminator keep their starts, so it goes where it went.\<close>

lemma fulfils_mono:
  assumes "fulfils m s t fl" and "\<And>n. n \<in> targets t \<Longrightarrow> start s' n = start s n"
    and "\<And>f n. f < length (Regions m) \<Longrightarrow> dispatch_block s f = Some n \<Longrightarrow> dispatch_block s' f = Some n"
  shows "fulfils m s' t fl"
proof (cases fl)
  case (Cond x y)
  then obtain n k where t: "t = CondBr n k" "start s n = x" "case k of Some n' \<Rightarrow> start s n' = y | None \<Rightarrow> y = ILCodeSize m"
    using assms(1) by auto
  then show ?thesis using assms(2) Cond by (cases k) auto
next
  case (Multi y xs)
  then obtain d cs where t: "t = SwitchBr d cs" "start s d = y" "map fst cs = map word_of_nat [0..<length xs]"
    "map (\<lambda>(v, n). start s n) cs = xs"
    using assms(1) by auto
  have "map (\<lambda>(v, n). start s' n) cs = map (\<lambda>(v, n). start s n) cs"
  proof (rule map_cong[OF refl])
    fix x assume "x \<in> set cs"
    then have "snd x \<in> targets t" by (auto simp: t(1))
    then show "(case x of (v, n) \<Rightarrow> start s' n) = (case x of (v, n) \<Rightarrow> start s n)" using assms(2) by (cases x) simp
  qed
  then show ?thesis using assms(2) t Multi by auto
qed (use assms in auto)

lemma closed_mono:
  assumes "closed m ps s b" and "set ps \<subseteq> set ps'" and "EndMSILOffset (Nodes s' ! b) = EndMSILOffset (Nodes s ! b)"
    and "\<And>n. Term (Nodes s ! b) = Br n \<Longrightarrow> start s n = EndMSILOffset (Nodes s ! b) \<Longrightarrow> Term (Nodes s' ! b) = Br n \<and> start s' n = start s n"
  shows "closed m ps' s' b"
  using assms unfolding closed_def by fastforce

lemma grows_start: "grows s s' \<Longrightarrow> n < length (Nodes s) \<Longrightarrow> start s' n = start s n"
  by (simp add: grows_def)

lemma grows_chain: "grows s s' \<Longrightarrow> n \<in> set (Chain s) \<Longrightarrow> same_block (Nodes s ! n) (Nodes s' ! n)"
  by (simp add: grows_def)

lemma chain_target_less: "fg_ok m s \<Longrightarrow> b \<in> set (Chain s) \<Longrightarrow> n \<in> targets (Term (Nodes s ! b)) \<Longrightarrow> n < length (Nodes s)"
  using fg_ok_term known_less fg_ok_chain by blast

lemma ended_grows:
  assumes "fg_ok m s" "grows s s'" "ended m qs c b s"
  shows "ended m qs c b s'"
  unfolding ended_def
proof (clarify)
  fix o1 r fl assume "(o1, r) \<in> set qs" "flow_of m o1 r = Inr (Some fl)"
  then obtain b' where b': "b' \<in> set (Chain s)" "b' \<noteq> b \<or> next_offset r = c \<and> \<not> c < ILCodeSize m"
    "EndMSILOffset (Nodes s ! b') = next_offset r" "fulfils m s (Term (Nodes s ! b')) fl"
    using assms(3) unfolding ended_def by blast
  have len: "length (Pads s) = length (Regions m)" using assms(1) by (simp add: fg_ok_def)
  have "fulfils m s' (Term (Nodes s ! b')) fl"
    by (rule fulfils_mono[OF b'(4)])
      (use assms(2) grows_start[OF assms(2)] chain_target_less[OF assms(1) b'(1)] len in \<open>auto simp: grows_def\<close>)
  then show "\<exists>b' \<in> set (Chain s'). (b' \<noteq> b \<or> next_offset r = c \<and> \<not> c < ILCodeSize m)
           \<and> EndMSILOffset (Nodes s' ! b') = next_offset r \<and> fulfils m s' (Term (Nodes s' ! b')) fl"
    using b' grows_chain[OF assms(2) b'(1)] assms(2) by (auto simp: grows_def same_block_def)
qed

lemma closed_grows:
  assumes "fg_ok m s" "grows s s'" "b \<in> set (Chain s)" "closed m ps s b"
  shows "closed m ps s' b"
proof (rule closed_mono[OF assms(4) subset_refl])
  show "EndMSILOffset (Nodes s' ! b) = EndMSILOffset (Nodes s ! b)"
    using grows_chain[OF assms(2,3)] by (simp add: same_block_def)
  show "Term (Nodes s' ! b) = Br n \<and> start s' n = start s n" if "Term (Nodes s ! b) = Br n" for n
    using grows_chain[OF assms(2,3)] grows_start[OF assms(2)] chain_target_less[OF assms(1,3)] that by (simp add: same_block_def)
qed

lemma p1_step:
  assumes inv: "p1_inv m ps qs c b s" and st: "ok_step m s s'"
  shows "p1_inv m ps qs c b s'"
proof -
  have ok: "fg_ok m s" and g: "grows s s'" and ok': "fg_ok m s'" using inv st by (auto simp: p1_inv_def ok_step_def)
  from inv obtain bs where bs: "Chain s = bs @ [b]" "tiles (Nodes s) 0 bs (start s b)" "\<forall>b' \<in> set bs. closed m ps s b'"
    unfolding p1_inv_def by blast
  have sb: "same_block (Nodes s ! n) (Nodes s' ! n)" if "n \<in> set (bs @ [b])" for n
    using grows_chain[OF g] that bs(1) by simp
  have "tiles (Nodes s') 0 bs (start s' b)"
    using bs(2) sb[of b] sb tiles_cong[of bs "Nodes s'" "Nodes s" 0 "start s b"] by (auto simp: same_block_def)
  moreover have "\<forall>b' \<in> set bs. closed m ps s' b'" using closed_grows[OF ok g] bs by simp
  moreover have "closed m ps s b \<Longrightarrow> closed m ps s' b" using closed_grows[OF ok g] bs by simp
  moreover have "Chain s' = bs @ [b]" "CurrentRegion s' = CurrentRegion s" using g bs(1) by (auto simp: grows_def)
  moreover note ended_grows[OF ok g, of qs c b]
  ultimately show ?thesis using inv ok' sb[of b] unfolding p1_inv_def same_block_def by auto
qed


subsubsection \<open>Cutting a block\<close>

text \<open>
  The effect of a cut of block \<open>b\<close> at \<open>off\<close>: a new block follows it on the chain, \<open>t\<close> is the terminator
  of the old block, \<open>e\<close> and \<open>t'\<close> are the end and the terminator of the new one.
\<close>

definition cut :: "node \<Rightarrow> u32 \<Rightarrow> Terminator \<Rightarrow> u32 \<Rightarrow> Terminator \<Rightarrow> FlowGraph \<Rightarrow> FlowGraph \<Rightarrow> bool" where
  "cut b off t e t' s s' \<longleftrightarrow>
     length (Nodes s') = Suc (length (Nodes s)) \<and> (\<forall>k < length (Nodes s). k \<noteq> b \<longrightarrow> Nodes s' ! k = Nodes s ! k)
     \<and> start s' b = start s b \<and> EndMSILOffset (Nodes s' ! b) = off \<and> Term (Nodes s' ! b) = t
     \<and> start s' (length (Nodes s)) = off \<and> EndMSILOffset (Nodes s' ! length (Nodes s)) = e
     \<and> Term (Nodes s' ! length (Nodes s)) = t'
     \<and> Chain s' = insert_after b (length (Nodes s)) (Chain s) \<and> PointBlocks s' = PointBlocks s
     \<and> NodeOffsetListArray s' = NodeOffsetListArray s \<and> Pads s' = Pads s \<and> CurrentRegion s' = CurrentRegion s"

lemma insert_after_append: "b \<notin> set xs \<Longrightarrow> insert_after b n (xs @ b # ys) = xs @ b # n # ys"
  by (induction xs) auto

lemma set_insert_after [simp]: "set (insert_after b n xs) = insert n (set xs)"
  by (induction xs) auto

lemma distinct_insert_after: "distinct xs \<Longrightarrow> n \<notin> set xs \<Longrightarrow> distinct (insert_after b n xs)"
  by (induction xs) auto

lemma cut_nth:
  assumes "cut b off t e t' s s'" and "k < length (Nodes s)"
  shows "start s' k = start s k" and "k \<noteq> b \<Longrightarrow> Nodes s' ! k = Nodes s ! k"
  using assms by (cases "k = b"; simp add: cut_def)+

lemma cut_known: "cut b off t e t' s s' \<Longrightarrow> known s' = insert (length (Nodes s)) (known s)"
  by (auto simp: cut_def known_def label_nodes_def)

lemma fg_ok_cut:
  assumes ok: "fg_ok m s" and c: "cut b off t e t' s s'" and b: "b \<in> set (Chain s)"
    and t: "targets t \<union> targets t' \<subseteq> insert (length (Nodes s)) (known s)"
  shows "fg_ok m s'"
proof -
  let ?n = "length (Nodes s)"
  have lt: "k < ?n" if "k \<in> known s" for k using known_less[OF ok that] .
  have nodes: "targets (Term x) \<subseteq> known s'" if "x \<in> set (Nodes s')" for x
  proof -
    from that obtain k where k: "k < Suc ?n" "x = Nodes s' ! k" using c by (auto simp: cut_def in_set_conv_nth)
    then consider "k = ?n" | "k = b" | "k < ?n" "k \<noteq> b" by linarith
    then show ?thesis
    proof cases
      case 3
      then show ?thesis using k cut_nth(2)[OF c] fg_ok_term[OF ok, of k] cut_known[OF c] by auto
    qed (use k t c cut_known[OF c] in \<open>auto simp: cut_def\<close>)
  qed
  have lab: "label_ok s' x" if "x \<in> set (labels_of (NodeOffsetListArray s'))" for x
  proof -
    have x: "label_ok s x" using that c ok by (auto simp: cut_def fg_ok_def)
    then have "Node x < ?n" by (simp add: label_ok_def)
    then show ?thesis using x cut_nth(1)[OF c] c by (auto simp: label_ok_def cut_def)
  qed
  have "pads_ok s' q" if "q \<in> set (Pads s')" for q
    by (rule pads_ok_mono[of s]) (use that ok c cut_known[OF c] in \<open>auto simp: cut_def fg_ok_def\<close>)
  moreover have "distinct (Chain s')" "\<forall>k \<in> set (Chain s'). k < length (Nodes s')"
    using ok c lt by (auto simp: cut_def fg_ok_def less_SucI intro!: distinct_insert_after)
  moreover have "\<forall>k \<in> set (PointBlocks s'). k < length (Nodes s') \<and> k \<notin> set (Chain s')"
    using ok c by (auto simp: cut_def fg_ok_def)
  ultimately show ?thesis using ok c nodes lab by (auto simp: cut_def fg_ok_def)
qed

lemma cut_dispatch: "cut b off t e t' s s' \<Longrightarrow> dispatch_block s' = dispatch_block s"
  by (simp add: cut_def dispatch_block_def fun_eq_iff)

text \<open>What a change of block \<open>b\<close> keeps of the other blocks.\<close>

definition kept :: "node \<Rightarrow> FlowGraph \<Rightarrow> FlowGraph \<Rightarrow> bool" where
  "kept b s s' \<longleftrightarrow> (\<forall>k < length (Nodes s). start s' k = start s k \<and> (k \<noteq> b \<longrightarrow> Nodes s' ! k = Nodes s ! k))
     \<and> dispatch_block s' = dispatch_block s"

lemma kept_cut: "cut b off t e t' s s' \<Longrightarrow> kept b s s'"
  by (simp add: kept_def cut_nth cut_dispatch)

lemma kept_update_node:
  "(\<And>x. StartMSILOffset (f x) = StartMSILOffset x) \<Longrightarrow> kept b s (update_node b f s)"
  by (simp add: kept_def update_node_nth)

lemma fulfils_kept:
  assumes "fg_ok m s" "kept b s s'" "targets t \<subseteq> known s" "fulfils m s t fl"
  shows "fulfils m s' t fl"
  by (rule fulfils_mono[OF assms(4)]) (use assms(2,3) known_less[OF assms(1)] in \<open>auto simp: kept_def\<close>)

lemma closed_kept:
  assumes ok: "fg_ok m s" and k: "kept b s s'" "b' \<in> set (Chain s)" "b' \<noteq> b" and c: "closed m ps s b'" "set ps \<subseteq> set ps'"
  shows "closed m ps' s' b'"
proof (rule closed_mono[OF c])
  have lt: "b' < length (Nodes s)" using fg_ok_chain[OF ok] k(2) by blast
  show "EndMSILOffset (Nodes s' ! b') = EndMSILOffset (Nodes s ! b')" using k lt by (simp add: kept_def)
  show "Term (Nodes s' ! b') = Br n \<and> start s' n = start s n" if "Term (Nodes s ! b') = Br n" for n
    using k lt that chain_target_less[OF ok k(2), of n] by (simp add: kept_def)
qed

lemma ended_kept:
  assumes ok: "fg_ok m s" and k: "kept b s s'" and c: "c < ILCodeSize m" "ended m qs c b s"
    and q: "(o1, r) \<in> set qs" "flow_of m o1 r = Inr (Some fl)"
  shows "\<exists>b' \<in> set (Chain s). b' \<noteq> b \<and> EndMSILOffset (Nodes s' ! b') = next_offset r \<and> fulfils m s' (Term (Nodes s' ! b')) fl"
proof -
  obtain b' where b': "b' \<in> set (Chain s)" "b' \<noteq> b"
    "EndMSILOffset (Nodes s ! b') = next_offset r" "fulfils m s (Term (Nodes s ! b')) fl"
    using c q unfolding ended_def by blast
  have lt: "b' < length (Nodes s)" using fg_ok_chain[OF ok] b'(1) by blast
  have "fulfils m s' (Term (Nodes s ! b')) fl" by (rule fulfils_kept[OF ok k fg_ok_term[OF ok lt] b'(4)])
  then show ?thesis using b' lt k by (auto simp: kept_def)
qed

lemma tiles_kept:
  assumes "fg_ok m s" "kept b s s'" "set bs \<subseteq> set (Chain s)" "b \<notin> set bs"
  shows "tiles (Nodes s') off bs e = tiles (Nodes s) off bs e"
proof (rule tiles_cong)
  fix x assume "x \<in> set bs"
  then have "x < length (Nodes s)" "x \<noteq> b" using assms(3,4) fg_ok_chain[OF assms(1)] by auto
  then show "start s' x = start s x \<and> EndMSILOffset (Nodes s' ! x) = EndMSILOffset (Nodes s ! x)"
    using assms(2) by (simp add: kept_def)
qed

text \<open>A cut of the current block of phase 1, with what has been read by then.\<close>

lemma p1_cut:
  assumes inv: "p1_inv m ps qs c b s" and cut: "cut b off t e NoTerm s s'"
    and t: "targets t \<subseteq> insert (length (Nodes s)) (known s)"
    and off: "start s b < off" "off < ILCodeSize m" "c < ILCodeSize m"
    and ps: "set ps \<subseteq> set ps'" "closed m ps' s' b"
    and qs: "\<And>x. x \<in> set qs' \<Longrightarrow> x \<notin> set qs \<Longrightarrow> (case x of (o1, r) \<Rightarrow> \<forall>fl. flow_of m o1 r = Inr (Some fl) \<longrightarrow>
        next_offset r = off \<and> fulfils m s' t fl)"
  shows "p1_inv m ps' qs' off (length (Nodes s)) s'"
proof -
  let ?n = "length (Nodes s)"
  have ok: "fg_ok m s" using inv by (simp add: p1_inv_def)
  from inv obtain bs where bs: "Chain s = bs @ [b]" "tiles (Nodes s) 0 bs (start s b)" "\<forall>b' \<in> set bs. closed m ps s b'"
    unfolding p1_inv_def by blast
  have lt: "k < ?n" if "k \<in> set (Chain s)" for k using fg_ok_chain[OF ok] that by blast
  have bb: "b \<in> set (Chain s)" "b \<notin> set bs" using bs(1) ok by (auto simp: fg_ok_def)
  have ok': "fg_ok m s'" using fg_ok_cut[OF ok cut bb(1)] t by simp
  have chain: "Chain s' = (bs @ [b]) @ [?n]" using cut bs(1) bb(2) insert_after_append[of b bs ?n "[]"] by (simp add: cut_def)
  note k = kept_cut[OF cut]
  have "tiles (Nodes s') 0 bs (start s b)" using bs(1,2) bb(2) tiles_kept[OF ok k, of bs] by auto
  then have tl: "tiles (Nodes s') 0 (bs @ [b]) (start s' ?n)" using cut off by (simp add: tiles_append cut_def)
  have closed: "closed m ps' s' x" if "x \<in> set bs" for x
    by (rule closed_kept[OF ok k _ _ _ ps(1)]) (use bs bb(2) that in auto)
  have "ended m qs' off ?n s'"
    unfolding ended_def
  proof (clarify)
    fix o1 r fl assume q: "(o1, r) \<in> set qs'" "flow_of m o1 r = Inr (Some fl)"
    show "\<exists>b' \<in> set (Chain s'). (b' \<noteq> ?n \<or> next_offset r = off \<and> \<not> off < ILCodeSize m)
        \<and> EndMSILOffset (Nodes s' ! b') = next_offset r \<and> fulfils m s' (Term (Nodes s' ! b')) fl"
    proof (cases "(o1, r) \<in> set qs")
      case False
      then show ?thesis using qs[OF q(1)] q(2) cut chain lt[OF bb(1)] bb(1) by (intro bexI[of _ b]) (auto simp: cut_def)
    next
      case True
      have "ended m qs c b s" using inv by (simp add: p1_inv_def)
      from ended_kept[OF ok k off(3) this True q(2)] show ?thesis using lt chain bs(1) by fastforce
    qed
  qed
  moreover have "CurrentRegion s' = CurrentRegion s" "start s' ?n = off" "Term (Nodes s' ! ?n) = NoTerm"
    using cut by (auto simp: cut_def)
  ultimately show ?thesis
    using inv ok' chain tl closed ps(2) off unfolding p1_inv_def by auto
qed


text \<open>The last block of the method ends without a cut.\<close>

definition finish :: "node \<Rightarrow> u32 \<Rightarrow> Terminator \<Rightarrow> FlowGraph \<Rightarrow> FlowGraph \<Rightarrow> bool" where
  "finish b off t s s' \<longleftrightarrow> s' = update_node b (\<lambda>x. x\<lparr>Term := t, EndMSILOffset := off\<rparr>) s"

lemma p1_finish:
  assumes inv: "p1_inv m ps qs c b s" and f: "finish b off t s s'" and t: "targets t \<subseteq> known s"
    and off: "c < ILCodeSize m" "\<not> off < ILCodeSize m" "c \<le> off"
    and ps: "set ps \<subseteq> set ps'" "closed m ps' s' b"
    and qs: "\<And>x. x \<in> set qs' \<Longrightarrow> x \<notin> set qs \<Longrightarrow> (case x of (o1, r) \<Rightarrow> \<forall>fl. flow_of m o1 r = Inr (Some fl) \<longrightarrow>
        next_offset r = off \<and> fulfils m s' t fl)"
  shows "p1_inv m ps' qs' off b s'"
proof -
  have ok: "fg_ok m s" using inv by (simp add: p1_inv_def)
  from inv obtain bs where bs: "Chain s = bs @ [b]" "tiles (Nodes s) 0 bs (start s b)" "\<forall>b' \<in> set bs. closed m ps s b'"
    unfolding p1_inv_def by blast
  have lt: "k < length (Nodes s)" if "k \<in> set (Chain s)" for k using fg_ok_chain[OF ok] that by blast
  have bb: "b \<in> set (Chain s)" "b \<notin> set bs" using bs(1) ok by (auto simp: fg_ok_def)
  have s': "s' = update_node b (\<lambda>x. x\<lparr>Term := t, EndMSILOffset := off\<rparr>) s" using f by (simp add: finish_def)
  have ok': "fg_ok m s'" unfolding s' by (rule fg_ok_update_node[OF ok lt[OF bb(1)]]) (use t in auto)
  have k: "kept b s s'" unfolding s' by (rule kept_update_node) simp
  have b: "Term (Nodes s' ! b) = t" "EndMSILOffset (Nodes s' ! b) = off" "start s' b = start s b"
    using lt[OF bb(1)] by (simp_all add: s' update_node_nth)
  have tl: "tiles (Nodes s') 0 bs (start s' b)" using bs(1,2) bb(2) tiles_kept[OF ok k, of bs] b by auto
  have closed: "closed m ps' s' x" if "x \<in> set bs" for x
    by (rule closed_kept[OF ok k _ _ _ ps(1)]) (use bs bb(2) that in auto)
  have "ended m qs' off b s'"
    unfolding ended_def
  proof (clarify)
    fix o1 r fl assume q: "(o1, r) \<in> set qs'" "flow_of m o1 r = Inr (Some fl)"
    show "\<exists>b' \<in> set (Chain s'). (b' \<noteq> b \<or> next_offset r = off \<and> \<not> off < ILCodeSize m)
        \<and> EndMSILOffset (Nodes s' ! b') = next_offset r \<and> fulfils m s' (Term (Nodes s' ! b')) fl"
    proof (cases "(o1, r) \<in> set qs")
      case False
      then show ?thesis using qs[OF q(1)] q(2) b bb(1) off(2) by (intro bexI[of _ b]) (auto simp: s')
    next
      case True
      have "ended m qs c b s" using inv by (simp add: p1_inv_def)
      from ended_kept[OF ok k off(1) this True q(2)] show ?thesis by (auto simp: s')
    qed
  qed
  moreover have "Chain s' = bs @ [b]" "CurrentRegion s' = CurrentRegion s" by (simp_all add: s' bs(1))
  ultimately show ?thesis
    using inv ok' tl closed ps(2) off b unfolding p1_inv_def by auto
qed

text \<open>An instruction that does not end the block.\<close>

lemma p1_pass:
  assumes inv: "p1_inv m ps ps c b s" and c: "c < ILCodeSize m" "c \<le> off" and fl: "flow_of m c r = Inr None"
  shows "p1_inv m (ps @ [(c, r)]) (ps @ [(c, r)]) off b s"
proof -
  have "closed m (ps @ [(c, r)]) s k" if "closed m ps s k" for k
    using that by (auto simp: closed_def)
  moreover have "ended m (ps @ [(c, r)]) off b s"
    using inv c(1) fl unfolding p1_inv_def ended_def by fastforce
  ultimately show ?thesis using inv c unfolding p1_inv_def by auto
qed

subsubsection \<open>The block operations as cuts\<close>

text \<open>Splitting a block at no instruction, as phase 1 does.\<close>

lemma fgSplitBlock_cut:
  assumes b: "b < length (Nodes s)" and off: "off \<noteq> ILCodeSize m" and r: "fgSplitBlock m b off NullInst s = Inr (n, s')"
  shows "n = length (Nodes s) \<and> (\<exists>t. close_term (Term (Nodes s ! b)) n = Inr t
     \<and> cut b off t (EndMSILOffset (Nodes s ! b)) NoTerm s s')"
proof -
  obtain t where t: "close_term (Term (Nodes s ! b)) (length (Nodes s)) = Inr t"
    using r b off by (cases "close_term (Term (Nodes s ! b)) (length (Nodes s))")
      (auto simp: fgSplitBlock_def fgSplitBlock_IR_def create_block_def Let_def fgNodeSetEndMSILOffset_def update_node_nth update_node_def)
  have s': "n = length (Nodes s)"
    "s' = fgNodeChangeRegion n (Region (Nodes s ! b)) (fgNodeSetEndMSILOffset n (EndMSILOffset (Nodes s ! b))
        (fgNodeSetStartMSILOffset n off (set_term b t
          ((fgNodeSetEndMSILOffset b off s)\<lparr>Chain := insert_after b n (Chain s),
            Nodes := Nodes (fgNodeSetEndMSILOffset b off s) @ [new_node\<lparr>PropagatesOperandStack := PropagatesOperandStack (Nodes s ! b)\<rparr>]\<rparr>))))"
    using r b off t
    by (auto simp: fgSplitBlock_def fgSplitBlock_IR_def create_block_def Let_def fgNodeSetEndMSILOffset_def set_term_def
        update_node_def nth_append)
  have "cut b off t (EndMSILOffset (Nodes s ! b)) NoTerm s s'"
    unfolding cut_def s' using b
    by (auto simp: set_term_def fgNodeSetEndMSILOffset_def fgNodeSetStartMSILOffset_def fgNodeChangeRegion_def update_node_def
        nth_append nth_list_update new_node_def)
  with t s'(1) show ?thesis by blast
qed


lemma cut_update_node:
  assumes "cut b off t e t' (update_node b f s) s'" and "b < length (Nodes s)"
    and "\<And>x. StartMSILOffset (f x) = StartMSILOffset x"
  shows "cut b off t e t' s s'"
  using assms by (auto simp: cut_def update_node_nth)

lemma close_term_targets: "close_term t n = Inr t' \<Longrightarrow> targets t' \<subseteq> insert n (targets t)"
  by (cases t) (auto simp: close_term_def)

text \<open>A terminator is put at the end of the current block, and the block ends.\<close>

lemma end_block_cases:
  assumes b: "b < length (Nodes s)" and r: "end_block m b off (set_term b t s) = Inr (n, s')"
  obtains (cut) t' where "off \<noteq> ILCodeSize m" "n = length (Nodes s)" "close_term t n = Inr t'" "cut b off t' off NoTerm s s'"
  | (last) "off = ILCodeSize m" "n = b" "finish b off t s s'"
proof (cases "off = ILCodeSize m")
  case True
  have "n = b" "s' = fgNodeSetEndMSILOffset b off (fgNodeSetEndMSILOffset b off (set_term b t s))"
    using r True by (auto simp: end_block_def fgSplitBlock_def Let_def)
  moreover from this b have "finish b off t s s'"
    by (simp add: finish_def fgNodeSetEndMSILOffset_def set_term_def update_node_def)
  ultimately show ?thesis using last True by blast
next
  case False
  let ?s1 = "fgNodeSetEndMSILOffset b off (set_term b t s)"
  have s1: "?s1 = update_node b (\<lambda>x. x\<lparr>Term := t, EndMSILOffset := off\<rparr>) s"
    using b by (simp add: fgNodeSetEndMSILOffset_def set_term_def update_node_def)
  have "b < length (Nodes ?s1)" using b by (simp add: s1)
  from fgSplitBlock_cut[OF this False] r obtain t' where "n = length (Nodes s)" "close_term (Term (Nodes ?s1 ! b)) n = Inr t'"
    "cut b off t' (EndMSILOffset (Nodes ?s1 ! b)) NoTerm ?s1 s'"
    by (auto simp: end_block_def s1)
  moreover have "Term (Nodes ?s1 ! b) = t" "EndMSILOffset (Nodes ?s1 ! b) = off" using b by (simp_all add: s1 update_node_nth)
  ultimately show ?thesis using that(1)[OF False] cut_update_node[OF _ b, of off t' off NoTerm _ s'] unfolding s1 by auto
qed

lemma p1_start_less:
  assumes "p1_inv m ps qs c b s" "c < nx" shows "start s b < nx"
  using assms by (auto simp: p1_inv_def)

lemma p1_current: "p1_inv m ps qs c b s \<Longrightarrow> b \<in> set (Chain s) \<and> b < length (Nodes s) \<and> fg_ok m s"
  by (auto simp: p1_inv_def fg_ok_def)

lemma closed_flow: "(c, r) \<in> set ps \<Longrightarrow> flow_of m c r = Inr (Some fl) \<Longrightarrow> EndMSILOffset (Nodes s ! b) = next_offset r \<Longrightarrow> closed m ps s b"
  unfolding closed_def by fastforce

lemma finish_end: "finish b off t s s' \<Longrightarrow> b < length (Nodes s) \<Longrightarrow>
    EndMSILOffset (Nodes s' ! b) = off \<and> Term (Nodes s' ! b) = t \<and> kept b s s'"
  by (simp add: finish_def update_node_nth kept_update_node)

lemma p1_end:
  assumes inv: "p1_inv m ps ps c b s" and c: "c < ILCodeSize m" "c < next_offset r" "next_offset r \<le> ILCodeSize m"
    and t: "targets t \<subseteq> known s" and e: "end_block m b (next_offset r) (set_term b t s) = Inr (b2, s2)"
    and fl: "flow_of m c r = Inr (Some fl)" and qs: "set qs \<subseteq> insert (c, r) (set ps)"
    and last: "\<And>s'. (c, r) \<in> set qs \<Longrightarrow> next_offset r = ILCodeSize m \<Longrightarrow> kept b s s' \<Longrightarrow> fulfils m s' t fl"
    and cut: "\<And>s' n t'. (c, r) \<in> set qs \<Longrightarrow> close_term t n = Inr t' \<Longrightarrow> kept b s s' \<Longrightarrow> start s' n = next_offset r \<Longrightarrow> fulfils m s' t' fl"
  shows "p1_inv m (ps @ [(c, r)]) qs (next_offset r) b2 s2"
proof -
  note b = p1_current[OF inv]
  show ?thesis
    using e
  proof (cases rule: end_block_cases[OF conjunct1[OF conjunct2[OF b]], consumes 1, case_names Cut Last])
    case (Cut t')
    have k: "kept b s s2" by (rule kept_cut[OF Cut(4)])
    have "start s2 b2 = next_offset r" using Cut(2,4) by (simp add: cut_def)
    then have ful: "(c, r) \<in> set qs \<Longrightarrow> fulfils m s2 t' fl" using cut[OF _ Cut(3) k] by blast
    have "next_offset r < ILCodeSize m" using c(3) Cut(1) by simp
    then show ?thesis unfolding Cut(2)
      using close_term_targets[OF Cut(3)] t Cut(2,4) c fl ful qs
      by (intro p1_cut[OF inv Cut(4) _ p1_start_less[OF inv c(2)]])
        (auto simp: cut_def intro!: closed_flow[of c r _ m fl])
  next
    case Last
    note f = finish_end[OF Last(3) conjunct1[OF conjunct2[OF b]]]
    then have ful: "(c, r) \<in> set qs \<Longrightarrow> fulfils m s2 t fl" using last Last(1) by blast
    show ?thesis unfolding Last(2)
      using t c fl ful qs f Last(1)
      by (intro p1_finish[OF inv Last(3)]) (auto intro!: closed_flow[of c r _ m fl])
  qed
qed


subsubsection \<open>The instructions of phase 1\<close>

lemma kept_start: "kept b s s' \<Longrightarrow> n < length (Nodes s) \<Longrightarrow> start s' n = start s n"
  by (simp add: kept_def)

lemma p1_label:
  assumes inv: "p1_inv m ps qs c b s" and a: "fgAddNodeMSILOffset None off s = Inr (n, s')"
  shows "p1_inv m ps qs c b s'" "n \<in> known s'" "start s' n = off" "n < length (Nodes s')"
proof -
  note st = fgAddNode_step[OF conjunct2[OF conjunct2[OF p1_current[OF inv]]] a]
  show "p1_inv m ps qs c b s'" using p1_step[OF inv] st by blast
  then have ok: "fg_ok m s'" by (simp add: p1_inv_def)
  show "n \<in> known s'" "start s' n = off" "n < length (Nodes s')" using fg_ok_label(1-3)[OF ok] st by blast+
qed

text \<open>What phase 1 knows when it reads the instruction at \<open>c\<close>.\<close>

definition at_instr :: "Method \<Rightarrow> listing \<Rightarrow> u32 \<Rightarrow> ParseResult \<Rightarrow> node \<Rightarrow> FlowGraph \<Rightarrow> bool" where
  "at_instr m ps c r b s \<longleftrightarrow> p1_inv m ps ps c b s \<and> regions_ok m \<and> c < ILCodeSize m \<and> c < next_offset r \<and> next_offset r \<le> ILCodeSize m"

definition past_instr :: "Method \<Rightarrow> listing \<Rightarrow> u32 \<Rightarrow> ParseResult \<Rightarrow> node \<Rightarrow> FlowGraph \<Rightarrow> bool" where
  "past_instr m ps c r b s \<longleftrightarrow> (\<exists>fo. flow_of m c r = Inr fo) \<and> p1_inv m (ps @ [(c, r)]) (ps @ [(c, r)]) (next_offset r) b s"

lemma p1_end_instr:
  assumes at: "at_instr m ps c r b s" and t: "targets t \<subseteq> known s"
    and e: "end_block m b (next_offset r) (set_term b t s) = Inr (b2, s2)" and fl: "flow_of m c r = Inr (Some fl)"
    and last: "\<And>s'. next_offset r = ILCodeSize m \<Longrightarrow> kept b s s' \<Longrightarrow> fulfils m s' t fl"
    and cut: "\<And>s' n t'. close_term t n = Inr t' \<Longrightarrow> kept b s s' \<Longrightarrow> start s' n = next_offset r \<Longrightarrow> fulfils m s' t' fl"
  shows "past_instr m ps c r b2 s2"
  unfolding past_instr_def
proof
  show "p1_inv m (ps @ [(c, r)]) (ps @ [(c, r)]) (next_offset r) b2 s2"
    using at unfolding at_instr_def by (intro p1_end[OF _ _ _ _ t e fl]) (auto intro: last cut)
qed (use fl in auto)

lemma phase1_branch_step:
  assumes at: "at_instr m ps c r b s" and op: "opcode r \<in> set short_branches \<or> opcode r \<in> set long_branches"
    and p: "phase1_branch m c r b s = Inr (b2, s2)"
  shows "past_instr m ps c r b2 s2"
proof -
  have inv: "p1_inv m ps ps c b s" and reg: "regions_ok m" using at by (auto simp: at_instr_def)
  note b = p1_current[OF inv]
  from p obtain t where t: "read_branch m r = Inr t" by (auto simp: phase1_branch_def rbind_eq_Inr_iff)
  from p t obtain off s1 where u: "(if is_leave (opcode r) then fgUpdateLeaveOffset m c (next_offset r) b t s else Inr (t, s)) = Inr (off, s1)"
    by (auto simp: phase1_branch_def rbind_eq_Inr_iff)
  from p t u obtain n s1' where a: "fgAddNodeMSILOffset None off s1 = Inr (n, s1')"
    and e: "end_block m b (next_offset r) (set_term b (if is_conditional (opcode r) then CondBr n None else Br n) s1') = Inr (b2, s2)"
    by (auto simp: phase1_branch_def rbind_eq_Inr_iff)
  have 1: "ok_step m s s1 \<and> (if is_leave (opcode r) then map_option fst (leave_target (Regions m) False c t) else Some t) = Some off"
    using u fgUpdateLeaveOffset_step[of m s b c "next_offset r" t off s1] b reg ok_step_refl[of m s]
    by (cases "is_leave (opcode r)") auto
  then have inv1: "p1_inv m ps ps c b s1" using p1_step[OF inv] by blast
  note l = p1_label[OF inv1 a]
  have fl: "flow_of m c r = Inr (Some (if is_conditional (opcode r) then Cond off (next_offset r) else Jump off))"
    using op 1 by (auto simp: flow_of_def branch_flow_def t Let_def)
  show ?thesis
    by (rule p1_end_instr[OF _ _ e fl])
      (use at l kept_start in \<open>auto simp: at_instr_def close_term_def split: if_splits\<close>)
qed

lemma flow_of_simple:
  assumes "\<not> (opcode r \<in> set short_branches \<or> opcode r \<in> set long_branches)" "opcode r \<noteq> CEE_SWITCH"
  shows "opcode r = CEE_THROW \<or> opcode r = CEE_RETHROW \<or> opcode r = CEE_RET \<Longrightarrow> flow_of m c r = Inr (Some Halt)"
    and "opcode r = CEE_ENDFILTER \<Longrightarrow> flow_of m c r = Inr (Some (Jump (next_offset r)))"
    and "opcode r = CEE_JMP \<Longrightarrow> flow_of m c r = Inr (Some Away)"
    and "opcode r \<notin> {CEE_THROW, CEE_RETHROW, CEE_RET, CEE_ENDFILTER, CEE_ENDFINALLY, CEE_JMP} \<Longrightarrow> flow_of m c r = Inr None"
  using assms by (auto simp: flow_of_def)

lemma phase1_throw_step:
  assumes at: "at_instr m ps c r b s" and fl: "flow_of m c r = Inr (Some Halt)"
    and p: "end_block m b (next_offset r) (set_term b UnreachableInst s) = Inr (b2, s2)"
  shows "past_instr m ps c r b2 s2"
  by (rule p1_end_instr[OF at _ p fl]) (auto simp: close_term_def)

lemma phase1_endfilter_step:
  assumes at: "at_instr m ps c r b s" and fl: "flow_of m c r = Inr (Some (Jump (next_offset r)))"
    and a: "fgAddNodeMSILOffset None (next_offset r) s = Inr (n, s1)"
    and p: "end_block m b (next_offset r) (set_term b (Br n) s1) = Inr (b2, s2)"
  shows "past_instr m ps c r b2 s2"
proof -
  have inv: "p1_inv m ps ps c b s" using at by (simp add: at_instr_def)
  note l = p1_label[OF inv a]
  show ?thesis by (rule p1_end_instr[OF _ _ p fl]) (use at l kept_start in \<open>auto simp: at_instr_def close_term_def\<close>)
qed

lemma phase1_endfinally_step:
  assumes at: "at_instr m ps c r b s" and op: "opcode r = CEE_ENDFINALLY"
    "\<not> (opcode r \<in> set short_branches \<or> opcode r \<in> set long_branches)"
    and p: "phase1_endfinally m c r b s = Inr (b2, s2)"
  shows "past_instr m ps c r b2 s2"
proof -
  have inv: "p1_inv m ps ps c b s" and reg: "regions_ok m" using at by (auto simp: at_instr_def)
  note b = p1_current[OF inv]
  from p obtain f where f: "getInnermostFaultOrFinallyRegion (Regions m) c = Some (Some f)"
    by (auto simp: phase1_endfinally_def split: option.splits)
  note fr = getFinally_region[OF reg f]
  show ?thesis
  proof (cases "Kind (Regions m ! f) = RGN_Finally")
    case False
    then have "flow_of m c r = Inr (Some Halt)" using op f by (simp add: flow_of_def)
    from phase1_throw_step[OF at this] p f False show ?thesis by (simp add: phase1_endfinally_def)
  next
    case True
    then have fl: "flow_of m c r = Inr (Some (ToDispatch f))" using op f by (simp add: flow_of_def)
    from p f True obtain s1 where "fgMakeEndFinally m b f s = Inr s1" and e: "end_block m b (next_offset r) s1 = Inr (b2, s2)"
      by (auto simp: phase1_endfinally_def rbind_eq_Inr_iff)
    from fgMakeEndFinally_step[OF _ fr this(1)] b obtain s0 t where s0: "ok_step m s s0" "s1 = set_term b (Br t) s0"
      "dispatch_block s0 f = Some t" "t \<in> set (PointBlocks s0)" by blast
    have "p1_inv m ps ps c b s0" by (rule p1_step[OF inv s0(1)])
    then show ?thesis using s0 fr at
      by (intro p1_end_instr[OF _ _ e[unfolded s0(2)] fl]) (auto simp: at_instr_def close_term_def known_def kept_def)
  qed
qed


lemma start_block_step:
  assumes at: "at_instr m ps c r b s" and fl: "flow_of m c r = Inr (Some fl)"
    and t: "targets t = {}" "\<And>s'. fulfils m s' t fl"
    and p: "start_block m b (next_offset r) (set_term b t s) = (b2, s2)"
  shows "past_instr m ps c r b2 s2"
proof -
  have inv: "p1_inv m ps ps c b s" using at by (simp add: at_instr_def)
  have b: "b < length (Nodes s)" using p1_current[OF inv] by simp
  have c: "c < ILCodeSize m" "c < next_offset r" "next_offset r \<le> ILCodeSize m" using at by (auto simp: at_instr_def)
  let ?s1 = "fgNodeSetEndMSILOffset b (next_offset r) (set_term b t s)"
  have s1: "?s1 = update_node b (\<lambda>x. x\<lparr>Term := t, EndMSILOffset := next_offset r\<rparr>) s"
    using b by (simp add: fgNodeSetEndMSILOffset_def set_term_def update_node_def)
  have "p1_inv m (ps @ [(c, r)]) (ps @ [(c, r)]) (next_offset r) b2 s2"
  proof (cases "next_offset r < ILCodeSize m")
    case True
    then have n: "b2 = length (Nodes s)"
      and s2: "s2 = ?s1\<lparr>Nodes := Nodes ?s1 @ [new_node\<lparr>StartMSILOffset := next_offset r\<rparr>], Chain := insert_after b (length (Nodes s)) (Chain s)\<rparr>"
      using p by (auto simp: start_block_def makeFlowGraphNode_def create_block_def Let_def s1)
    have cut: "cut b (next_offset r) t 0 NoTerm s s2"
      unfolding s2 s1 using b by (auto simp: cut_def update_node_def nth_append new_node_def)
    show ?thesis unfolding n
      using t fl True c by (intro p1_cut[OF inv cut _ p1_start_less[OF inv c(2)]]) (use cut in \<open>auto simp: cut_def intro!: closed_flow[of c r _ m fl]\<close>)
  next
    case False
    then have b2: "b2 = b" and f: "finish b (next_offset r) t s s2"
      using p by (auto simp: start_block_def finish_def s1)
    show ?thesis unfolding b2
      using t fl False c finish_end[OF f b] by (intro p1_finish[OF inv f]) (auto intro!: closed_flow[of c r _ m fl])
  qed
  then show ?thesis using fl by (simp add: past_instr_def)
qed

text \<open>Changing the terminator of a block that some instruction ended.\<close>

lemma p1_change_term:
  assumes inv: "p1_inv m ps qs c b2 s" and b: "b \<in> set (Chain s)" and old: "Term (Nodes s ! b) \<noteq> NoTerm" "\<And>n. Term (Nodes s ! b) \<noteq> Br n"
    and t: "targets t \<subseteq> known s" and qs: "\<forall>(o1, r) \<in> set qs. next_offset r \<noteq> EndMSILOffset (Nodes s ! b)"
  shows "p1_inv m ps qs c b2 (set_term b t s)"
proof -
  let ?s = "set_term b t s"
  have ok: "fg_ok m s" using inv by (simp add: p1_inv_def)
  have lt: "b < length (Nodes s)" using fg_ok_chain[OF ok] b by blast
  have ok': "fg_ok m ?s" unfolding set_term_def by (rule fg_ok_update_node[OF ok lt]) (use t in auto)
  have k: "kept b s ?s" unfolding set_term_def by (rule kept_update_node) simp
  have nd: "Nodes ?s ! k = (if k = b then (Nodes s ! k)\<lparr>Term := t\<rparr> else Nodes s ! k)" if "k < length (Nodes s)" for k
    using that by (simp add: set_term_def update_node_nth)
  have closed: "closed m ps ?s x" if "closed m ps s x" "x \<in> set (Chain s)" for x
  proof (cases "x = b")
    case True
    then show ?thesis using that old lt by (auto simp: closed_def nd)
  next
    case False
    then show ?thesis using closed_kept[OF ok k that(2) _ that(1)] by blast
  qed
  have "ended m qs c b2 ?s"
    unfolding ended_def
  proof (clarify)
    fix o1 r fl assume q: "(o1, r) \<in> set qs" "flow_of m o1 r = Inr (Some fl)"
    from inv q obtain b' where b': "b' \<in> set (Chain s)" "b' \<noteq> b2 \<or> next_offset r = c \<and> \<not> c < ILCodeSize m"
      "EndMSILOffset (Nodes s ! b') = next_offset r" "fulfils m s (Term (Nodes s ! b')) fl"
      unfolding p1_inv_def ended_def by blast
    have l': "b' < length (Nodes s)" using fg_ok_chain[OF ok] b'(1) by blast
    have "b' \<noteq> b" using qs q(1) b'(3) by auto
    then show "\<exists>b' \<in> set (Chain ?s). (b' \<noteq> b2 \<or> next_offset r = c \<and> \<not> c < ILCodeSize m)
        \<and> EndMSILOffset (Nodes ?s ! b') = next_offset r \<and> fulfils m ?s (Term (Nodes ?s ! b')) fl"
      using b' fulfils_kept[OF ok k fg_ok_term[OF ok l'] b'(4)] by (intro bexI[of _ b']) (auto simp: nd[OF l'])
  qed
  moreover from inv obtain bs where bs: "Chain s = bs @ [b2]" "tiles (Nodes s) 0 bs (start s b2)" "\<forall>b' \<in> set bs. closed m ps s b'"
    unfolding p1_inv_def by blast
  have "tiles (Nodes ?s) 0 bs (start s b2) = tiles (Nodes s) 0 bs (start s b2)"
    by (rule tiles_cong) (use bs(1) fg_ok_chain[OF ok] in \<open>auto simp: nd\<close>)
  then have "tiles (Nodes ?s) 0 bs (start s b2)" using bs(2) by simp
  moreover have "b2 \<in> set (Chain s)" "b2 < length (Nodes s)" using p1_current[OF inv] by auto
  moreover have "start ?s b2 = start s b2" "EndMSILOffset (Nodes ?s ! b2) = EndMSILOffset (Nodes s ! b2)"
    "Term (Nodes ?s ! b2) = (if b2 = b then t else Term (Nodes s ! b2))" using \<open>b2 < length (Nodes s)\<close> by (auto simp: nd)
  ultimately show ?thesis
    using inv ok' closed old bs unfolding p1_inv_def by (auto split: if_splits)
qed


lemma add_case_set_term:
  assumes "b < length (Nodes s)" "Term (Nodes s ! b) = SwitchBr d cs"
  shows "add_case b I n s = set_term b (SwitchBr d (cs @ [(I, n)])) s"
  using assms by (simp add: add_case_def set_term_def update_node_def)

lemma switch_cases_step:
  assumes "p1_inv m ps qs c b2 s" and "b \<in> set (Chain s)" and "Term (Nodes s ! b) = SwitchBr d cs"
    and "\<forall>(o1, r) \<in> set qs. next_offset r \<noteq> EndMSILOffset (Nodes s ! b)"
    and "switch_cases m k nx I cursor b s = Inr s'"
  shows "\<exists>vs cs'. read_cases k (ILCode m) cursor = Inr vs \<and> p1_inv m ps qs c b2 s'
     \<and> Term (Nodes s' ! b) = SwitchBr d (cs @ cs') \<and> map fst cs' = map (\<lambda>i. I + word_of_nat i) [0..<k]
     \<and> map (\<lambda>(v, n). start s' n) cs' = map (\<lambda>v. nx + word_of_int v) vs \<and> length vs = k
     \<and> EndMSILOffset (Nodes s' ! b) = EndMSILOffset (Nodes s ! b) \<and> Chain s' = Chain s
     \<and> (\<forall>n < length (Nodes s). start s' n = start s n)"
  using assms
proof (induction k arbitrary: I cursor s cs)
  case 0
  then show ?case by simp
next
  case (Suc k)
  note inv = Suc.prems(1)
  from Suc.prems(5) obtain v cursor' n s1 where v: "readSwitchCase (ILCode m) cursor = Inr (v, cursor')"
    and a: "fgAddNodeMSILOffset None (nx + word_of_int v) s = Inr (n, s1)"
    and rest: "switch_cases m k nx (I + 1) cursor' b (add_case b I n s1) = Inr s'"
    by (auto simp: rbind_eq_Inr_iff)
  have ok: "fg_ok m s" using inv by (simp add: p1_inv_def)
  have st: "ok_step m s s1" using fgAddNode_step[OF ok a] by blast
  note l = p1_label[OF inv a]
  have same: "same_block (Nodes s ! b) (Nodes s1 ! b)" and chain: "Chain s1 = Chain s"
    and starts: "\<forall>n < length (Nodes s). start s1 n = start s n" and len: "length (Nodes s) \<le> length (Nodes s1)"
    using st Suc.prems(2) by (auto simp: ok_step_def grows_def)
  have b1: "b \<in> set (Chain s1)" "b < length (Nodes s1)" using chain Suc.prems(2) fg_ok_chain[of m s1] l(1) by (auto simp: p1_inv_def)
  have t1: "Term (Nodes s1 ! b) = SwitchBr d cs" using same Suc.prems(3) by (simp add: same_block_def)
  have e1: "EndMSILOffset (Nodes s1 ! b) = EndMSILOffset (Nodes s ! b)" using same by (simp add: same_block_def)
  let ?s2 = "set_term b (SwitchBr d (cs @ [(I, n)])) s1"
  have s2: "add_case b I n s1 = ?s2" by (rule add_case_set_term[OF b1(2) t1])
  have tg: "targets (SwitchBr d (cs @ [(I, n)])) \<subseteq> known s1"
    using fg_ok_term[of m s1 b] l(1,2) b1(2) t1 by (auto simp: p1_inv_def)
  have inv2: "p1_inv m ps qs c b2 ?s2"
    by (rule p1_change_term[OF l(1) b1(1) _ _ tg]) (use t1 e1 Suc.prems(4) in auto)
  have nd: "Nodes ?s2 ! b = (Nodes s1 ! b)\<lparr>Term := SwitchBr d (cs @ [(I, n)])\<rparr>" "\<forall>k < length (Nodes s1). start ?s2 k = start s1 k"
    using b1(2) by (auto simp: set_term_def update_node_nth)
  from Suc.IH[OF inv2 _ _ _ rest[unfolded s2]] nd b1(1) e1 Suc.prems(4)
  obtain vs cs' where ih: "read_cases k (ILCode m) cursor' = Inr vs" "p1_inv m ps qs c b2 s'"
     "Term (Nodes s' ! b) = SwitchBr d ((cs @ [(I, n)]) @ cs')" "map fst cs' = map (\<lambda>i. I + 1 + word_of_nat i) [0..<k]"
     "map (\<lambda>(v, n). start s' n) cs' = map (\<lambda>v. nx + word_of_int v) vs" "length vs = k"
     "EndMSILOffset (Nodes s' ! b) = EndMSILOffset (Nodes s1 ! b)" "Chain s' = Chain s1"
     "\<forall>n < length (Nodes s1). start s' n = start s1 n"
    by auto
  have "map (\<lambda>i. I + word_of_nat i) [0..<Suc k] = I # map (\<lambda>i. I + 1 + word_of_nat i) [0..<k]"
    by (simp add: upt_conv_Cons map_Suc_upt[symmetric] del: upt_Suc map_Suc_upt) 
  then show ?case using ih v l starts e1 chain len
    by (intro exI[of _ "v # vs"] exI[of _ "(I, n) # cs'"]) auto
qed

lemma switch_cases_read:
  "switch_cases m k nx I cursor b s = Inr s' \<Longrightarrow> \<exists>vs. read_cases k (ILCode m) cursor = Inr vs"
proof (induction k arbitrary: I cursor s)
  case (Suc k)
  then show ?case by (fastforce simp: rbind_eq_Inr_iff)
qed simp

lemma phase1_switch_step:
  assumes at: "at_instr m ps c r b s" and op: "opcode r = CEE_SWITCH"
    "\<not> (opcode r \<in> set short_branches \<or> opcode r \<in> set long_branches)"
    and ps: "\<forall>(o1, r1) \<in> set ps. next_offset r1 \<le> c"
    and p: "phase1_switch m r b s = Inr (b2, s2)"
  shows "past_instr m ps c r b2 s2"
proof -
  have inv: "p1_inv m ps ps c b s" and c: "c < ILCodeSize m" "c < next_offset r" "next_offset r \<le> ILCodeSize m"
    using at by (auto simp: at_instr_def)
  from p obtain cur N cursor where o: "operand r = Some cur" and N: "readNumberOfSwitchCases (ILCode m) cur = Inr (N, cursor)"
    by (auto simp: phase1_switch_def rbind_eq_Inr_iff split: option.splits)
  show ?thesis
  proof (cases "N = 0")
    case True
    then have "flow_of m c r = Inr None" using op o N by (simp add: flow_of_def switch_flow_def)
    moreover from this have "p1_inv m (ps @ [(c, r)]) (ps @ [(c, r)]) (next_offset r) b s"
      using c by (intro p1_pass[OF inv]) auto
    ultimately show ?thesis using p o N True by (simp add: past_instr_def phase1_switch_def)
  next
    case False
    with p o N obtain n s1 s1' where a: "fgAddNodeMSILOffset None (next_offset r) s = Inr (n, s1)"
      and e: "end_block m b (next_offset r) (set_term b (SwitchBr n []) s1) = Inr (b2, s1')"
      and sc: "switch_cases m (unat N) (next_offset r) 0 cursor b s1' = Inr s2"
      by (auto simp: phase1_switch_def rbind_eq_Inr_iff)
    note l = p1_label[OF inv a]
    obtain vs where vs: "read_cases (unat N) (ILCode m) cursor = Inr vs" using switch_cases_read[OF sc] by blast
    let ?fl = "Multi (next_offset r) (map (\<lambda>v. next_offset r + word_of_int v) vs)"
    have fl: "flow_of m c r = Inr (Some ?fl)" using op o N False vs by (simp add: flow_of_def switch_flow_def)
    have inv1: "p1_inv m (ps @ [(c, r)]) ps (next_offset r) b2 s1'"
      using l ps c by (intro p1_end[OF l(1) c _ e fl]) auto
    obtain d where b': "b \<in> set (Chain s1')" "Term (Nodes s1' ! b) = SwitchBr d []" "EndMSILOffset (Nodes s1' ! b) = next_offset r"
      "start s1' d = next_offset r" "d < length (Nodes s1')" "b \<noteq> b2 \<or> \<not> next_offset r < ILCodeSize m"
    proof -
      have b: "b \<in> set (Chain s1)" "b < length (Nodes s1)" using p1_current[OF l(1)] by auto
      show ?thesis
        using e
      proof (cases rule: end_block_cases[OF b(2), consumes 1, case_names Cut Last])
        case (Cut t')
        then show ?thesis using b that[of b2] by (auto simp: close_term_def cut_def)
      next
        case Last
        have "Nodes s1' ! b = (Nodes s1 ! b)\<lparr>Term := SwitchBr n [], EndMSILOffset := next_offset r\<rparr>" "start s1' n = start s1 n"
          using Last(3) b(2) l(4) by (auto simp: finish_def update_node_nth)
        then show ?thesis using b that[of n] Last l by (simp add: finish_def)
      qed
    qed
    have "\<forall>(o1, r1) \<in> set ps. next_offset r1 \<noteq> EndMSILOffset (Nodes s1' ! b)" using ps c(2) b'(3) by auto
    from switch_cases_step[OF inv1 b'(1,2) this sc] vs b'(3-5) obtain cs where cs: "p1_inv m (ps @ [(c, r)]) ps (next_offset r) b2 s2"
      "Term (Nodes s2 ! b) = SwitchBr d cs" "map fst cs = map word_of_nat [0..<unat N]" "length vs = unat N"
      "map (\<lambda>(v, n). start s2 n) cs = map (\<lambda>v. next_offset r + word_of_int v) vs"
      "EndMSILOffset (Nodes s2 ! b) = next_offset r" "Chain s2 = Chain s1'" "start s2 d = next_offset r"
      by auto
    then have "fulfils m s2 (Term (Nodes s2 ! b)) ?fl" by simp
    then have "ended m (ps @ [(c, r)]) (next_offset r) b2 s2"
      using cs(1,6,7) b'(1,6) fl unfolding p1_inv_def ended_def by fastforce
    then show ?thesis using cs(1) fl unfolding past_instr_def p1_inv_def by auto
  qed
qed

subsection \<open>Lemmas\<close>

lemma phase1_instr_step:
  assumes at: "at_instr m ps c r b s" and ps: "\<forall>(o1, r1) \<in> set ps. next_offset r1 \<le> c"
    and p: "phase1_instr m c r b s = Inr (b2, s2)"
  shows "past_instr m ps c r b2 s2"
proof (cases "opcode r \<in> set short_branches \<or> opcode r \<in> set long_branches")
  case True
  then show ?thesis using phase1_branch_step[OF at True] p by (simp add: phase1_instr_def)
next
  case nb: False
  have inv: "p1_inv m ps ps c b s" and c: "c < ILCodeSize m" "c < next_offset r" using at by (auto simp: at_instr_def)
  have b: "b < length (Nodes s)" "Term (Nodes s ! b) = NoTerm" using p1_current[OF inv] inv c(1) by (auto simp: p1_inv_def)
  consider (switch) "opcode r = CEE_SWITCH" | (throw) "opcode r = CEE_THROW \<or> opcode r = CEE_RETHROW"
    | (endfilter) "opcode r = CEE_ENDFILTER" | (endfinally) "opcode r = CEE_ENDFINALLY"
    | (jmp) "opcode r = CEE_JMP" | (ret) "opcode r = CEE_RET"
    | (other) "opcode r \<notin> {CEE_SWITCH, CEE_THROW, CEE_RETHROW, CEE_RET, CEE_ENDFILTER, CEE_ENDFINALLY, CEE_JMP}" by blast
  then show ?thesis
  proof cases
    case switch
    then show ?thesis using phase1_switch_step[OF at switch nb ps] p nb by (simp add: phase1_instr_def)
  next
    case throw
    then have "opcode r \<noteq> CEE_SWITCH" by auto
    from throw phase1_throw_step[OF at flow_of_simple(1)[OF nb this]] p nb this show ?thesis by (auto simp: phase1_instr_def)
  next
    case endfilter
    then have ns: "opcode r \<noteq> CEE_SWITCH" by auto
    from p nb endfilter obtain n s1 where "fgAddNodeMSILOffset None (next_offset r) s = Inr (n, s1)"
      "end_block m b (next_offset r) (set_term b (Br n) s1) = Inr (b2, s2)"
      by (auto simp: phase1_instr_def Let_def rbind_eq_Inr_iff)
    then show ?thesis by (rule phase1_endfilter_step[OF at flow_of_simple(2)[OF nb ns endfilter]])
  next
    case endfinally
    then show ?thesis using phase1_endfinally_step[OF at endfinally nb] p nb by (simp add: phase1_instr_def)
  next
    case jmp
    then have ns: "opcode r \<noteq> CEE_SWITCH" by auto
    have "(Nodes s ! b)\<lparr>Term := NoTerm\<rparr> = Nodes s ! b" using b(2) by (cases "Nodes s ! b") simp
    then have "set_term b NoTerm s = s" by (simp add: set_term_def update_node_def)
    with p nb jmp have "start_block m b (next_offset r) (set_term b NoTerm s) = (b2, s2)" by (simp add: phase1_instr_def)
    then show ?thesis by (rule start_block_step[OF at flow_of_simple(3)[OF nb ns jmp], rotated 2]) simp_all
  next
    case ret
    then have ns: "opcode r \<noteq> CEE_SWITCH" by auto
    from p nb ret have "start_block m b (next_offset r) (set_term b UnreachableInst s) = (b2, s2)" by (simp add: phase1_instr_def)
    then show ?thesis by (rule start_block_step[OF at flow_of_simple(1)[OF nb ns], rotated 3]) (simp_all add: ret)
  next
    case other
    then have fl: "flow_of m c r = Inr None" using flow_of_simple(4)[OF nb] by simp
    have "b2 = b \<and> (s2 = s \<or> s2 = s\<lparr>HasLocAlloc := True\<rparr> \<or> s2 = s\<lparr>HasAddressTaken := True\<rparr>)"
      using p nb other by (auto simp: phase1_instr_def Let_def split: if_splits)
    moreover have "p1_inv m ps ps c b s2" if "s2 = s \<or> s2 = s\<lparr>HasLocAlloc := True\<rparr> \<or> s2 = s\<lparr>HasAddressTaken := True\<rparr>"
      by (rule p1_step[OF inv ok_step_other]) (use that p1_current[OF inv] in auto)
    ultimately show ?thesis using p1_pass[OF _ c(1) _ fl, of ps b s2 "next_offset r"] c fl by (auto simp: past_instr_def)
  qed
qed

subsubsection \<open>Regions\<close>

text \<open>Two states that differ in what the properties of the blocks do not mention.\<close>

lemma p1_alike:
  assumes inv: "p1_inv m ps qs c b s" and ok: "fg_ok m s'" and chain: "Chain s' = Chain s"
    and nodes: "\<And>k. k < length (Nodes s) \<Longrightarrow> start s' k = start s k \<and> EndMSILOffset (Nodes s' ! k) = EndMSILOffset (Nodes s ! k)
      \<and> Term (Nodes s' ! k) = Term (Nodes s ! k)"
    and disp: "dispatch_block s' = dispatch_block s" and reg: "Regions m \<noteq> [] \<Longrightarrow> \<exists>q < length (Regions m). CurrentRegion s' = Some q"
  shows "p1_inv m ps qs c b s'"
proof -
  have ok0: "fg_ok m s" using inv by (simp add: p1_inv_def)
  have lt: "k < length (Nodes s)" if "k \<in> set (Chain s)" for k using fg_ok_chain[OF ok0] that by blast
  from inv obtain bs where bs: "Chain s = bs @ [b]" "tiles (Nodes s) 0 bs (start s b)" "\<forall>b' \<in> set bs. closed m ps s b'"
    unfolding p1_inv_def by blast
  have closed: "closed m ps s' x" if "closed m ps s x" "x \<in> set (Chain s)" for x
    by (rule closed_mono[OF that(1) subset_refl]) (use nodes lt[OF that(2)] chain_target_less[OF ok0 that(2)] in auto)
  have ful: "fulfils m s' (Term (Nodes s' ! x)) fl" if "fulfils m s (Term (Nodes s ! x)) fl" "x \<in> set (Chain s)" for x fl
    using fulfils_mono[OF that(1), of s'] nodes lt[OF that(2)] chain_target_less[OF ok0 that(2)] disp by auto
  have "ended m qs c b s'"
    unfolding ended_def
  proof (clarify)
    fix o1 r fl assume q: "(o1, r) \<in> set qs" "flow_of m o1 r = Inr (Some fl)"
    from inv q obtain x where x: "x \<in> set (Chain s)" "x \<noteq> b \<or> next_offset r = c \<and> \<not> c < ILCodeSize m"
      "EndMSILOffset (Nodes s ! x) = next_offset r" "fulfils m s (Term (Nodes s ! x)) fl"
      unfolding p1_inv_def ended_def by blast
    then show "\<exists>b' \<in> set (Chain s'). (b' \<noteq> b \<or> next_offset r = c \<and> \<not> c < ILCodeSize m)
        \<and> EndMSILOffset (Nodes s' ! b') = next_offset r \<and> fulfils m s' (Term (Nodes s' ! b')) fl"
      using ful nodes lt by (intro bexI[of _ x]) (auto simp: chain)
  qed
  moreover have "tiles (Nodes s') 0 bs (start s b) = tiles (Nodes s) 0 bs (start s b)"
    by (rule tiles_cong) (use bs(1) lt nodes in auto)
  moreover have "start s' b = start s b" "EndMSILOffset (Nodes s' ! b) = EndMSILOffset (Nodes s ! b)" "Term (Nodes s' ! b) = Term (Nodes s ! b)"
    using nodes[of b] lt[of b] bs(1) by auto
  ultimately show ?thesis using inv ok bs closed reg unfolding p1_inv_def by (auto simp: chain)
qed

lemma p1_set_region:
  assumes inv: "p1_inv m ps qs c b s" and r: "q < length (Regions m)"
  shows "p1_inv m ps qs c b (s\<lparr>CurrentRegion := Some q\<rparr>)"
  by (rule p1_alike[OF inv]) (use p1_current[OF inv] r in \<open>auto simp: dispatch_block_def fun_eq_iff intro!: fg_ok_other[of m s]\<close>)

lemma p1_node_region:
  assumes inv: "p1_inv m ps qs c b s"
  shows "p1_inv m ps qs c b (fgNodeChangeRegion b r s)"
proof -
  note b = p1_current[OF inv]
  have "fg_ok m (fgNodeChangeRegion b r s)" unfolding fgNodeChangeRegion_def
    by (rule fg_ok_update_node) (use b fg_ok_term[of m s b] in auto)
  then show ?thesis
    by (rule p1_alike[OF inv]) (use inv in \<open>auto simp: fgNodeChangeRegion_def update_node_nth p1_inv_def\<close>)
qed

lemma phase1_region_step:
  assumes inv: "p1_inv m ps ps c b s" and reg: "regions_ok m" and c: "c < ILCodeSize m"
    and p: "phase1_region m c b transition s = Inr (b1, transition1, s1)"
  shows "p1_inv m ps ps c b1 s1"
proof (cases "Regions m \<noteq> [] \<and> c = transition")
  case False
  then show ?thesis using p inv by (auto simp: phase1_region_def)
next
  case True
  then have h: "heap_ok (Regions m)" using reg by (simp add: regions_ok_def)
  from inv True obtain old where old: "CurrentRegion s = Some old" "old < length (Regions m)" by (auto simp: p1_inv_def)
  from p True old obtain new entered where sw: "fgSwitchRegion (2 * length (Regions m) + 1) (Regions m) old c = Some (Inr (new, transition1, entered))"
    by (auto simp: phase1_region_def rbind_eq_Inr_iff Let_def split: option.splits sum.splits)
  have "length (Regions m) + old < 2 * length (Regions m) + 1" using old(2) by simp
  from fgSwitchRegion_spec[OF h old(2) this, of c] sw have new: "new < length (Regions m)" by auto
  from p True old sw obtain s0 where e: "enter_regions m entered s = Inr s0"
    by (auto simp: phase1_region_def rbind_eq_Inr_iff)
  let ?s2 = "s0\<lparr>CurrentRegion := Some new\<rparr>"
  from p True old sw e obtain s3 where
    split: "(if start ?s2 b \<noteq> c then fgSplitBlock m b c NullInst ?s2 else Inr (b, ?s2)) = Inr (b1, s3)"
    and s1: "s1 = fgNodeChangeRegion b1 (Some new) s3"
    by (auto simp: phase1_region_def rbind_eq_Inr_iff Let_def)
  have "ok_step m s s0"
    by (rule enter_regions_step[OF _ h fgSwitchRegion_entered[OF h old(2) sw] e]) (use p1_current[OF inv] in simp)
  then have inv2: "p1_inv m ps ps c b ?s2" using p1_set_region[OF p1_step[OF inv] new] by blast
  have "p1_inv m ps ps c b1 s3"
  proof (cases "start ?s2 b = c")
    case True
    then show ?thesis using split inv2 by simp
  next
    case False
    then have "fgSplitBlock m b c NullInst ?s2 = Inr (b1, s3)" using split by simp
    from fgSplitBlock_cut[OF _ _ this] p1_current[OF inv2] c obtain t e where n: "b1 = length (Nodes ?s2)"
      and t: "close_term (Term (Nodes ?s2 ! b)) b1 = Inr t" and cut: "cut b c t e NoTerm ?s2 s3" by fastforce
    have "t = Br b1" using t inv2 c by (simp add: p1_inv_def close_term_def)
    then have "closed m ps s3 b" using cut n by (auto simp: closed_def cut_def)
    moreover have "start ?s2 b < c" using inv2 False by (auto simp: p1_inv_def)
    ultimately show ?thesis unfolding n using \<open>t = Br b1\<close> n c by (intro p1_cut[OF inv2 cut]) auto
  qed
  then show ?thesis unfolding s1 by (rule p1_node_region)
qed

subsection \<open>Specification and samples\<close>

text \<open>The methods the properties are about: the operand table and the region tree are well-formed, the
  code fits the address space and no switch table wraps around.\<close>

definition method_ok :: "Method \<Rightarrow> bool" where
  "method_ok m \<longleftrightarrow> opargs_wf (Opargs m) \<and> length (ILCode m) = unat (ILCodeSize m) \<and> unat (ILCodeSize m) + 8 < 2 ^ 32
     \<and> switches_fit (Opargs m) (ILCode m) \<and> regions_ok m"

text \<open>The state between the phases and behind them: the blocks tile the code, every block ends for a
  reason and every instruction that transfers control has its block.\<close>

definition built :: "Method \<Rightarrow> listing \<Rightarrow> FlowGraph \<Rightarrow> bool" where
  "built m ps s \<longleftrightarrow> fg_ok m s \<and> tiles (Nodes s) 0 (Chain s) (ILCodeSize m)
     \<and> (\<forall>b \<in> set (Chain s). closed m ps s b \<or> EndMSILOffset (Nodes s ! b) = ILCodeSize m \<and> Term (Nodes s ! b) = NoTerm)
     \<and> (\<forall>(o1, r) \<in> set ps. \<forall>fl. flow_of m o1 r = Inr (Some fl) \<longrightarrow>
          (\<exists>b \<in> set (Chain s). EndMSILOffset (Nodes s ! b) = next_offset r \<and> fulfils m s (Term (Nodes s ! b)) fl))"

subsection \<open>Lemmas\<close>

lemma method_progress:
  assumes "method_ok m" "c < ILCodeSize m" "parseILOpcode (Opargs m) (ILCode m) c (ILCodeSize m) True = Inr r"
  shows "c < next_offset r \<and> next_offset r \<le> ILCodeSize m"
proof -
  have len: "length (ILCode m) = unat (ILCodeSize m)" using assms(1) by (simp add: method_ok_def)
  have "switch_fits (ILCode m) r"
    by (rule switches_fitD[OF _ len assms(2,3)]) (use assms(1) in \<open>simp add: method_ok_def\<close>)
  from parseILOpcode_progress[OF _ len _ assms(3,2) this] assms(1) len show ?thesis
    by (simp add: method_ok_def word_less_nat_alt word_le_nat_alt)
qed

lemma fgBuildPhase1_loop_correct:
  assumes m: "method_ok m" and "p1_inv m ps ps c b s" "decodes m 0 ps c" "c \<le> ILCodeSize m"
    and "\<forall>(o1, r) \<in> set ps. next_offset r \<le> c \<and> (\<exists>fo. flow_of m o1 r = Inr fo)"
    and "fgBuildPhase1_loop fuel m c b transition s = Some (Inr (b', c', s'))"
  shows "\<exists>ps'. p1_inv m ps' ps' (ILCodeSize m) b' s' \<and> decodes m 0 ps' (ILCodeSize m) \<and> c' = ILCodeSize m
     \<and> (\<forall>(o1, r) \<in> set ps'. \<exists>fo. flow_of m o1 r = Inr fo)"
  using assms(2-6)
proof (induction fuel arbitrary: ps c b transition s)
  case (Suc fuel)
  show ?case
  proof (cases "c < ILCodeSize m")
    case False
    then have "c = ILCodeSize m" using Suc.prems(3) by simp
    then show ?thesis using Suc.prems by auto
  next
    case True
    with Suc.prems(5) obtain b1 tr s1 r b2 s2 where
      reg: "phase1_region m c b transition s = Inr (b1, tr, s1)"
      and r: "parseILOpcode (Opargs m) (ILCode m) c (ILCodeSize m) True = Inr r"
      and i: "phase1_instr m c r b1 s1 = Inr (b2, s2)"
      and rest: "fgBuildPhase1_loop fuel m (next_offset r) b2 tr s2 = Some (Inr (b', c', s'))"
      by (auto simp: rbind_def split: sum.splits)
    note pr = method_progress[OF m True r]
    have inv1: "p1_inv m ps ps c b1 s1"
      using m by (intro phase1_region_step[OF Suc.prems(1) _ True reg]) (simp add: method_ok_def)
    have "past_instr m ps c r b2 s2"
      by (rule phase1_instr_step[OF _ _ i]) (use inv1 m pr True Suc.prems(4) in \<open>auto simp: at_instr_def method_ok_def\<close>)
    then have inv2: "p1_inv m (ps @ [(c, r)]) (ps @ [(c, r)]) (next_offset r) b2 s2" "\<exists>fo. flow_of m c r = Inr fo"
      by (auto simp: past_instr_def)
    have "decodes m 0 (ps @ [(c, r)]) (next_offset r)" using Suc.prems(2) True r by (auto simp: decodes_append)
    moreover have "\<forall>(o1, r1) \<in> set (ps @ [(c, r)]). next_offset r1 \<le> next_offset r \<and> (\<exists>fo. flow_of m o1 r1 = Inr fo)"
      using Suc.prems(4) pr inv2(2) by fastforce
    ultimately show ?thesis using Suc.IH[OF inv2(1) _ _ _ rest] pr by blast
  qed
qed simp

lemma initial_inv:
  assumes "0 < ILCodeSize m" "method_ok m"
  shows "p1_inv m [] [] 0 0 (initial_graph m)"
proof -
  have "fg_ok m (initial_graph m)"
    using empty_labels_ok[of "ILCodeSize m"]
    by (auto simp: fg_ok_def initial_graph_def new_node_def no_pads_def pads_ok_def empty_labels_def labels_of_def)
  then show ?thesis
    using assms by (simp add: p1_inv_def initial_graph_def new_node_def ended_def)
qed

lemma phase1_built:
  assumes m: "method_ok m" "0 < ILCodeSize m" and r: "fgBuildPhase1 fuel m 0 (initial_graph m) = Some (Inr s)"
  shows "\<exists>ps. decodes m 0 ps (ILCodeSize m) \<and> built m ps s \<and> (\<forall>(o1, r) \<in> set ps. \<exists>fo. flow_of m o1 r = Inr fo)"
proof -
  have i: "(initial_graph m)\<lparr>HasLocAlloc := False, HasAddressTaken := False\<rparr> = initial_graph m" by (simp add: initial_graph_def)
  from r obtain b c s1 where l: "fgBuildPhase1_loop fuel m 0 0 0 (initial_graph m) = Some (Inr (b, c, s1))"
    and s: "s = fgNodeSetEndMSILOffset b c s1"
    by (auto simp: fgBuildPhase1_def i split: option.splits sum.splits)
  from fgBuildPhase1_loop_correct[OF m(1) initial_inv[OF m(2,1)] _ _ _ l] obtain ps where
    inv: "p1_inv m ps ps (ILCodeSize m) b s1" and d: "decodes m 0 ps (ILCodeSize m)" and c: "c = ILCodeSize m"
    and fo: "\<forall>(o1, r) \<in> set ps. \<exists>fo. flow_of m o1 r = Inr fo" by auto
  note b = p1_current[OF inv]
  have ok: "fg_ok m s1" using b by simp
  from inv obtain bs where bs: "Chain s1 = bs @ [b]" "tiles (Nodes s1) 0 bs (start s1 b)" "\<forall>b' \<in> set bs. closed m ps s1 b'"
    unfolding p1_inv_def by blast
  have nb: "b \<notin> set bs" using ok bs(1) by (simp add: fg_ok_def)
  have s': "s = update_node b (\<lambda>x. x\<lparr>EndMSILOffset := ILCodeSize m\<rparr>) s1" by (simp add: s c fgNodeSetEndMSILOffset_def)
  have k: "kept b s1 s" unfolding s' by (rule kept_update_node) simp
  have nd: "EndMSILOffset (Nodes s ! b) = ILCodeSize m" "Term (Nodes s ! b) = Term (Nodes s1 ! b)" "start s b = start s1 b"
    using b by (simp_all add: s' update_node_nth)
  have "fg_ok m s" unfolding s' by (rule fg_ok_update_node[OF ok]) (use b fg_ok_term[OF ok, of b] in auto)
  moreover have "tiles (Nodes s) 0 (Chain s) (ILCodeSize m)"
  proof -
    have "tiles (Nodes s) 0 bs (start s b)" using bs(1,2) nb tiles_kept[OF ok k, of bs] nd by auto
    then show ?thesis using inv m(2) nd by (auto simp: s' bs(1) tiles_append p1_inv_def)
  qed
  moreover have "closed m ps s b' \<or> EndMSILOffset (Nodes s ! b') = ILCodeSize m \<and> Term (Nodes s ! b') = NoTerm"
    if "b' \<in> set (Chain s)" for b'
  proof (cases "b' = b")
    case True
    have "Term (Nodes s1 ! b) = NoTerm \<or> EndMSILOffset (Nodes s1 ! b) = ILCodeSize m \<and> closed m ps s1 b"
      using inv by (simp add: p1_inv_def)
    then show ?thesis
    proof
      assume "EndMSILOffset (Nodes s1 ! b) = ILCodeSize m \<and> closed m ps s1 b"
      then have e: "EndMSILOffset (Nodes s1 ! b) = ILCodeSize m" and cl: "closed m ps s1 b" by auto
      have "closed m ps s b"
        by (rule closed_mono[OF cl]) (use e nd kept_start[OF k] b chain_target_less[OF ok, of b] in auto)
      then show ?thesis using True by simp
    qed (use True nd in simp)
  next
    case False
    then show ?thesis using that bs closed_kept[OF ok k _ False, of ps ps] by (auto simp: s')
  qed
  moreover have "\<exists>b' \<in> set (Chain s). EndMSILOffset (Nodes s ! b') = next_offset r \<and> fulfils m s (Term (Nodes s ! b')) fl"
    if "(o1, r) \<in> set ps" "flow_of m o1 r = Inr (Some fl)" for o1 r fl
  proof -
    from inv that obtain b' where b': "b' \<in> set (Chain s1)" "b' \<noteq> b \<or> next_offset r = ILCodeSize m"
      "EndMSILOffset (Nodes s1 ! b') = next_offset r" "fulfils m s1 (Term (Nodes s1 ! b')) fl"
      unfolding p1_inv_def ended_def by blast
    have lt: "b' < length (Nodes s1)" using fg_ok_chain[OF ok] b'(1) by blast
    have "fulfils m s (Term (Nodes s1 ! b')) fl" by (rule fulfils_kept[OF ok k fg_ok_term[OF ok lt] b'(4)])
    then show ?thesis using b' nd k lt by (intro bexI[of _ b']) (auto simp: kept_def s' update_node_nth)
  qed
  ultimately have "built m ps s" by (auto simp: built_def)
  then show ?thesis using d fo by blast
qed

subsection \<open>Lemmas\<close>

subsubsection \<open>Phase 2\<close>

lemma find_block_Some: "find_block s off bs = Some b \<Longrightarrow> b \<in> set bs \<and> start s b \<le> off \<and> off < EndMSILOffset (Nodes s ! b)"
  by (induction bs) (auto split: if_splits)

lemma find_block_tiles:
  "tiles (Nodes s) lo bs e \<Longrightarrow> lo \<le> off \<Longrightarrow> off < e \<Longrightarrow> \<exists>b. find_block s off bs = Some b"
  by (induction bs arbitrary: lo) (auto simp: not_less)

text \<open>Splitting a block in front of its terminator, as phase 2 does.\<close>

lemma fgSplitBlock_cut2:
  assumes b: "b < length (Nodes s)" and off: "off \<noteq> ILCodeSize m"
    and r: "fgSplitBlock m b off (fgNodeGetEndInsertIRNode b s) s = Inr (n, s')"
  shows "n = length (Nodes s) \<and> cut b off (Br n) (EndMSILOffset (Nodes s ! b)) (Term (Nodes s ! b)) s s'"
proof (cases "fgNodeGetEndInsertIRNode b s")
  case NullInst
  then have "Term (Nodes s ! b) = NoTerm" by (auto simp: fgNodeGetEndInsertIRNode_def split: if_splits)
  then show ?thesis using fgSplitBlock_cut[OF b off r[unfolded NullInst]] by (auto simp: close_term_def)
next
  case FirstStore
  then show ?thesis using r b unfolding cut_def
    by (auto simp: fgSplitBlock_def fgSplitBlock_IR_def create_block_def Let_def set_term_def fgNodeSetEndMSILOffset_def
        fgNodeSetStartMSILOffset_def fgNodeChangeRegion_def update_node_def nth_append nth_list_update new_node_def)
next
  case AtTerminator
  then show ?thesis using r b unfolding cut_def
    by (auto simp: fgSplitBlock_def fgSplitBlock_IR_def create_block_def Let_def set_term_def fgNodeSetEndMSILOffset_def
        fgNodeSetStartMSILOffset_def fgNodeChangeRegion_def update_node_def nth_append nth_list_update new_node_def)
qed

lemma built_cut:
  assumes bu: "built m ps s" and cut: "cut b off (Br (length (Nodes s))) (EndMSILOffset (Nodes s ! b)) (Term (Nodes s ! b)) s s'"
    and b: "b \<in> set (Chain s)" and off: "start s b < off" "off < EndMSILOffset (Nodes s ! b)"
  shows "built m ps s'"
proof -
  let ?n = "length (Nodes s)"
  have ok: "fg_ok m s" using bu by (simp add: built_def)
  have lt: "k < ?n" if "k \<in> set (Chain s)" for k using fg_ok_chain[OF ok] that by blast
  note k = kept_cut[OF cut]
  have old: "targets (Term (Nodes s ! b)) \<subseteq> known s" by (rule fg_ok_term[OF ok lt[OF b]])
  have ok': "fg_ok m s'" by (rule fg_ok_cut[OF ok cut b]) (use old in auto)
  from b obtain xs ys where ch: "Chain s = xs @ b # ys" by (meson split_list)
  have nb: "b \<notin> set xs" "b \<notin> set ys" using ok ch by (auto simp: fg_ok_def)
  have ch': "Chain s' = xs @ b # ?n # ys" using cut ch nb by (simp add: cut_def insert_after_append)
  have nd: "start s' b = start s b" "EndMSILOffset (Nodes s' ! b) = off" "Term (Nodes s' ! b) = Br ?n"
    "start s' ?n = off" "EndMSILOffset (Nodes s' ! ?n) = EndMSILOffset (Nodes s ! b)" "Term (Nodes s' ! ?n) = Term (Nodes s ! b)"
    using cut by (auto simp: cut_def)
  have "tiles (Nodes s') lo xs e = tiles (Nodes s) lo xs e" "tiles (Nodes s') lo ys e = tiles (Nodes s) lo ys e" for lo e
    using tiles_kept[OF ok k, of xs] tiles_kept[OF ok k, of ys] ch nb by auto
  then have "tiles (Nodes s') 0 (Chain s') (ILCodeSize m)"
    using bu off by (auto simp: built_def ch ch' tiles_append nd)
  moreover have "closed m ps s' x \<or> EndMSILOffset (Nodes s' ! x) = ILCodeSize m \<and> Term (Nodes s' ! x) = NoTerm"
    if x: "x \<in> set (Chain s')" for x
  proof -
    consider "x = b" | "x = ?n" | "x \<in> set (Chain s)" "x \<noteq> b" using x ch ch' by auto
    then show ?thesis
    proof cases
      case 1
      then show ?thesis by (auto simp: closed_def nd)
    next
      case 2
      have "closed m ps s b \<or> EndMSILOffset (Nodes s ! b) = ILCodeSize m \<and> Term (Nodes s ! b) = NoTerm" using bu b by (simp add: built_def)
      moreover have "closed m ps s' ?n" if "closed m ps s b"
        using that old kept_start[OF k] known_less[OF ok] by (auto simp: closed_def nd)
      ultimately show ?thesis using 2 by (auto simp: nd)
    next
      case 3
      then have "closed m ps s x \<or> EndMSILOffset (Nodes s ! x) = ILCodeSize m \<and> Term (Nodes s ! x) = NoTerm" using bu by (simp add: built_def)
      then show ?thesis using closed_kept[OF ok k 3, of ps ps] k lt[OF 3(1)] 3(2) by (auto simp: kept_def)
    qed
  qed
  moreover have "\<exists>x \<in> set (Chain s'). EndMSILOffset (Nodes s' ! x) = next_offset r \<and> fulfils m s' (Term (Nodes s' ! x)) fl"
    if "(o1, r) \<in> set ps" "flow_of m o1 r = Inr (Some fl)" for o1 r fl
  proof -
    from bu that obtain x where x: "x \<in> set (Chain s)" "EndMSILOffset (Nodes s ! x) = next_offset r" "fulfils m s (Term (Nodes s ! x)) fl"
      unfolding built_def by blast
    have f: "fulfils m s' (Term (Nodes s ! x)) fl" by (rule fulfils_kept[OF ok k fg_ok_term[OF ok lt[OF x(1)]] x(3)])
    show ?thesis
    proof (cases "x = b")
      case True
      then show ?thesis using x f ch' by (intro bexI[of _ ?n]) (auto simp: nd)
    next
      case False
      then show ?thesis using x f k lt[OF x(1)] ch ch' by (intro bexI[of _ x]) (auto simp: kept_def)
    qed
  qed
  ultimately show ?thesis using ok' by (auto simp: built_def)
qed

subsubsection \<open>Replacing a temporary node\<close>

lemma targets_map: "targets (map_targets f t) = f ` targets t"
  by (cases t) (auto simp: image_image option.set_map case_prod_unfold)

lemma fulfils_rename:
  assumes f: "fulfils m s t fl" and st: "\<And>n. n \<in> targets t \<Longrightarrow> start s' (g n) = start s n"
    and d: "\<And>r. r < length (Regions m) \<Longrightarrow> dispatch_block s' r = dispatch_block s r" and g: "\<And>r n. r < length (Regions m) \<Longrightarrow> dispatch_block s r = Some n \<Longrightarrow> g n = n"
  shows "fulfils m s' (map_targets g t) fl"
proof (cases fl)
  case (Cond x y)
  then obtain n k where t: "t = CondBr n k" "start s n = x" "case k of Some n' \<Rightarrow> start s n' = y | None \<Rightarrow> y = ILCodeSize m"
    using f by auto
  then show ?thesis using st Cond by (cases k) auto
next
  case (Multi y xs)
  then obtain dd cs where t: "t = SwitchBr dd cs" "start s dd = y" "map fst cs = map word_of_nat [0..<length xs]"
    "map (\<lambda>(v, n). start s n) cs = xs"
    using f by auto
  have "map (\<lambda>(v, n). start s' n) (map (\<lambda>(v, n). (v, g n)) cs) = map (\<lambda>(v, n). start s n) cs"
    unfolding map_map
  proof (rule map_cong[OF refl])
    fix x assume "x \<in> set cs"
    then have "snd x \<in> targets t" by (auto simp: t(1))
    then show "((\<lambda>(v, n). start s' n) \<circ> (\<lambda>(v, n). (v, g n))) x = (case x of (v, n) \<Rightarrow> start s n)" using st by (cases x) simp
  qed
  moreover have "map fst (map (\<lambda>(v, n). (v, g n)) cs) = map fst cs" by (auto simp: comp_def split: prod.splits)
  ultimately show ?thesis using st t Multi by auto
qed (use assms in auto)

lemma replace_simps [simp]:
  "Chain (replaceFlowGraphNodeUses x y s) = Chain s" "PointBlocks (replaceFlowGraphNodeUses x y s) = PointBlocks s"
  "NodeOffsetListArray (replaceFlowGraphNodeUses x y s) = NodeOffsetListArray s"
  "length (Nodes (replaceFlowGraphNodeUses x y s)) = length (Nodes s)" "length (Pads (replaceFlowGraphNodeUses x y s)) = length (Pads s)"
  "known (replaceFlowGraphNodeUses x y s) = known s"
  by (simp_all add: replaceFlowGraphNodeUses_def known_def label_nodes_def)

lemma replace_nth:
  assumes "k < length (Nodes s)"
  shows "start (replaceFlowGraphNodeUses x y s) k = start s k"
    "EndMSILOffset (Nodes (replaceFlowGraphNodeUses x y s) ! k) = EndMSILOffset (Nodes s ! k)"
    "Term (Nodes (replaceFlowGraphNodeUses x y s) ! k) = map_targets (rename x y) (Term (Nodes s ! k))"
  using assms by (simp_all add: replaceFlowGraphNodeUses_def)

lemma replace_dispatch:
  "f < length (Pads s) \<Longrightarrow> dispatch_block (replaceFlowGraphNodeUses x y s) f = dispatch_block s f"
  by (auto simp: dispatch_block_def replaceFlowGraphNodeUses_def map_dispatch_def split: option.splits)

lemma rename_known: "y \<in> A \<Longrightarrow> T \<subseteq> A \<Longrightarrow> rename x y ` T \<subseteq> A"
  by (auto simp: rename_def)

lemma map_dispatch_ok:
  assumes "pads_ok s q" "y \<in> known s" "known s' = known s" "PointBlocks s' = PointBlocks s"
  shows "pads_ok s' (map_dispatch (rename x y) q)"
proof (cases "EndFinallySwitch q")
  case (Some d)
  have "snd ` set (map (\<lambda>(v, n). (v, rename x y n)) (Cases d)) = rename x y ` snd ` set (Cases d)"
    by (auto simp: image_image case_prod_unfold)
  then show ?thesis using assms Some rename_known[of y "known s" "snd ` set (Cases d)" x]
    by (simp add: pads_ok_def map_dispatch_def dispatch_ok_def)
qed (use assms in \<open>simp add: pads_ok_def map_dispatch_def\<close>)

lemma fg_ok_replace:
  assumes ok: "fg_ok m s" and y: "y \<in> known s"
  shows "fg_ok m (replaceFlowGraphNodeUses x y s)"
proof -
  let ?s = "replaceFlowGraphNodeUses x y s"
  have "label_ok ?s e" if "label_ok s e" for e using that by (auto simp: label_ok_def replace_nth)
  moreover have "targets (Term b) \<subseteq> known s" if "b \<in> set (Nodes ?s)" for b
  proof -
    from that obtain b0 where "b0 \<in> set (Nodes s)" "Term b = map_targets (rename x y) (Term b0)"
      by (auto simp: replaceFlowGraphNodeUses_def)
    then show ?thesis using rename_known[OF y fg_ok_terms[OF ok]] by (simp add: targets_map)
  qed
  moreover have "pads_ok ?s q" if "q \<in> set (Pads ?s)" for q
  proof -
    from that obtain q0 where "q0 \<in> set (Pads s)" "q = map_dispatch (rename x y) q0" by (auto simp: replaceFlowGraphNodeUses_def)
    then show ?thesis using map_dispatch_ok[OF _ y, of q0 ?s] ok by (simp add: fg_ok_def)
  qed
  ultimately show ?thesis using ok by (simp add: fg_ok_def)
qed

lemma built_replace:
  assumes bu: "built m ps s" and x: "x \<notin> set (PointBlocks s)" and y: "y \<in> set (Chain s)" "start s y = start s x"
  shows "built m ps (replaceFlowGraphNodeUses x y s)"
proof -
  let ?s = "replaceFlowGraphNodeUses x y s"
  have ok: "fg_ok m s" using bu by (simp add: built_def)
  have yk: "y \<in> known s" using y(1) by (simp add: known_def)
  have lt: "k < length (Nodes s)" if "k \<in> set (Chain s)" for k using fg_ok_chain[OF ok] that by blast
  have st: "start ?s (rename x y n) = start s n" if "n < length (Nodes s)" for n
    using that y lt[OF y(1)] by (simp add: rename_def replace_nth)
  have tl: "n < length (Nodes s)" if "n \<in> targets (Term (Nodes s ! k))" "k \<in> set (Chain s)" for n k
    using chain_target_less[OF ok that(2,1)] .
  have disp: "dispatch_block ?s r = dispatch_block s r" "dispatch_block s r = Some n \<Longrightarrow> rename x y n = n" if "r < length (Regions m)" for r n
  proof -
    show "dispatch_block ?s r = dispatch_block s r" using that ok by (intro replace_dispatch) (simp add: fg_ok_def)
    assume "dispatch_block s r = Some n"
    then have "n \<in> set (PointBlocks s)" using fg_ok_pads[OF ok that]
      by (auto simp: dispatch_block_def pads_ok_def dispatch_ok_def split: option.splits)
    then show "rename x y n = n" using x by (auto simp: rename_def)
  qed
  have ful: "fulfils m ?s (Term (Nodes ?s ! k)) fl" if "fulfils m s (Term (Nodes s ! k)) fl" "k \<in> set (Chain s)" for k fl
    unfolding replace_nth(3)[OF lt[OF that(2)]]
    by (rule fulfils_rename[OF that(1)]) (use st tl[OF _ that(2)] disp in auto)
  have "closed m ps ?s k \<or> EndMSILOffset (Nodes ?s ! k) = ILCodeSize m \<and> Term (Nodes ?s ! k) = NoTerm" if k: "k \<in> set (Chain ?s)" for k
  proof -
    have kc: "k \<in> set (Chain s)" using k by simp
    have "closed m ps ?s k" if "closed m ps s k"
      using that st tl[OF _ kc] by (auto simp: closed_def replace_nth[OF lt[OF kc]])
    then show ?thesis using bu kc by (auto simp: built_def replace_nth[OF lt[OF kc]])
  qed
  moreover have "tiles (Nodes ?s) 0 (Chain s) (ILCodeSize m)"
    using bu tiles_cong[of "Chain s" "Nodes ?s" "Nodes s"] lt by (simp add: built_def replace_nth)
  moreover have "\<exists>b \<in> set (Chain ?s). EndMSILOffset (Nodes ?s ! b) = next_offset r \<and> fulfils m ?s (Term (Nodes ?s ! b)) fl"
    if "(o1, r) \<in> set ps" "flow_of m o1 r = Inr (Some fl)" for o1 r fl
  proof -
    from bu that obtain k where "k \<in> set (Chain s)" "EndMSILOffset (Nodes s ! k) = next_offset r" "fulfils m s (Term (Nodes s ! k)) fl"
      unfolding built_def by blast
    then show ?thesis using ful replace_nth(2)[OF lt] by (intro bexI[of _ k]) auto
  qed
  ultimately show ?thesis using fg_ok_replace[OF ok yk, of x] by (auto simp: built_def)
qed

subsection \<open>Specification and samples\<close>

text \<open>The nodes that terminators and dispatches still refer to while the labels \<open>rest\<close> are pending.\<close>

definition within :: "FlowGraphNodeOffsetList list \<Rightarrow> FlowGraph \<Rightarrow> node set" where
  "within rest s = set (Chain s) \<union> set (PointBlocks s) \<union> Node ` set rest"

definition uses :: "FlowGraphNodeOffsetList list \<Rightarrow> FlowGraph \<Rightarrow> bool" where
  "uses rest s \<longleftrightarrow> (\<forall>b \<in> set (Nodes s). targets (Term b) \<subseteq> within rest s)
     \<and> (\<forall>q \<in> set (Pads s). \<forall>d. EndFinallySwitch q = Some d \<longrightarrow> snd ` set (Cases d) \<subseteq> within rest s)"

text \<open>The block a search may start from: none, or a block that starts at or before the offset.\<close>

definition search_from :: "FlowGraph \<Rightarrow> u32 \<Rightarrow> node option \<Rightarrow> bool" where
  "search_from s off sb \<longleftrightarrow> (\<forall>b. sb = Some b \<longrightarrow> b \<in> set (Chain s) \<and> start s b \<le> off)"

subsection \<open>Lemmas\<close>

lemma uses_all: "fg_ok m s \<Longrightarrow> uses (labels_of (NodeOffsetListArray s)) s"
  by (auto simp: uses_def within_def fg_ok_def known_def label_nodes_def pads_ok_def dispatch_ok_def)

lemma uses_cut:
  assumes u: "uses rest s" and cut: "cut b off (Br (length (Nodes s))) e (Term (Nodes s ! b)) s s'" and b: "b < length (Nodes s)"
  shows "uses rest s'"
proof -
  have w: "within rest s' = insert (length (Nodes s)) (within rest s)" using cut by (auto simp: within_def cut_def)
  have "targets (Term x) \<subseteq> within rest s'" if "x \<in> set (Nodes s')" for x
  proof -
    from that obtain k where k: "k < Suc (length (Nodes s))" "x = Nodes s' ! k" using cut by (auto simp: cut_def in_set_conv_nth)
    then consider "k = length (Nodes s)" | "k = b" | "k < length (Nodes s)" "k \<noteq> b" by linarith
    then show ?thesis
    proof cases
      case 3
      then have "x \<in> set (Nodes s)" using k cut_nth(2)[OF cut] by simp
      then show ?thesis using u w by (auto simp: uses_def)
    next
      case 1
      have "Nodes s ! b \<in> set (Nodes s)" using b by simp
      then have "targets (Term (Nodes s ! b)) \<subseteq> within rest s" using u unfolding uses_def by blast
      then show ?thesis using k 1 cut w by (auto simp: cut_def)
    qed (use k cut w in \<open>auto simp: cut_def\<close>)
  qed
  moreover have "Pads s' = Pads s" using cut by (simp add: cut_def)
  ultimately show ?thesis using u w unfolding uses_def by (metis subset_insertI2)
qed

lemma uses_replace:
  assumes u: "uses (e # rest) s" and y: "y \<in> set (Chain s)"
  shows "uses rest (replaceFlowGraphNodeUses (Node e) y s)"
proof -
  let ?s = "replaceFlowGraphNodeUses (Node e) y s" and ?g = "rename (Node e) y"
  have w: "?g ` T \<subseteq> within rest ?s" if "T \<subseteq> within (e # rest) s" for T
    using that y by (auto simp: within_def rename_def)
  have "targets (Term b) \<subseteq> within rest ?s" if "b \<in> set (Nodes ?s)" for b
  proof -
    from that obtain b0 where "b0 \<in> set (Nodes s)" "Term b = map_targets ?g (Term b0)" by (auto simp: replaceFlowGraphNodeUses_def)
    then show ?thesis using w u by (simp add: targets_map uses_def)
  qed
  moreover have "snd ` set (Cases d) \<subseteq> within rest ?s" if q: "q \<in> set (Pads ?s)" "EndFinallySwitch q = Some d" for q d
  proof -
    from q obtain q0 d0 where "q0 \<in> set (Pads s)" "EndFinallySwitch q0 = Some d0" "Cases d = map (\<lambda>(v, n). (v, ?g n)) (Cases d0)"
      by (auto simp: replaceFlowGraphNodeUses_def map_dispatch_def)
    moreover have "snd ` set (map (\<lambda>(v, n). (v, ?g n)) (Cases d0)) = ?g ` snd ` set (Cases d0)"
      by (auto simp: image_image case_prod_unfold)
    ultimately show ?thesis using w[of "snd ` set (Cases d0)"] u unfolding uses_def by metis
  qed
  ultimately show ?thesis by (simp add: uses_def)
qed

lemma tiles_bounds: "tiles N lo bs e \<Longrightarrow> lo \<le> e \<and> (\<forall>b \<in> set bs. lo \<le> StartMSILOffset (N ! b) \<and> EndMSILOffset (N ! b) \<le> e)"
  by (induction bs arbitrary: lo) fastforce+

lemma fgReplaceBranchTarget_total:
  assumes bu: "built m ps s" and off: "off < ILCodeSize m" and sb: "search_from s off sb"
  shows "\<exists>b' s'. fgReplaceBranchTarget m off n sb s = Inr (b', s')"
proof -
  have ok: "fg_ok m s" and tl: "tiles (Nodes s) 0 (Chain s) (ILCodeSize m)" using bu by (auto simp: built_def)
  have "\<exists>b. find_block s off (case sb of None \<Rightarrow> Chain s | Some b \<Rightarrow> dropWhile (\<lambda>x. x \<noteq> b) (Chain s)) = Some b"
  proof (cases sb)
    case None
    then show ?thesis using find_block_tiles[OF tl _ off] by simp
  next
    case (Some b)
    then have b: "b \<in> set (Chain s)" "start s b \<le> off" using sb by (auto simp: search_from_def)
    then obtain xs ys where ch: "Chain s = xs @ b # ys" by (meson split_list)
    then have "b \<notin> set xs" using ok by (auto simp: fg_ok_def)
    then have "dropWhile (\<lambda>x. x \<noteq> b) (Chain s) = b # ys" by (auto simp: ch dropWhile_append dropWhile_eq_Nil_conv)
    moreover have "tiles (Nodes s) (start s b) (b # ys) (ILCodeSize m)" using tl by (auto simp: ch tiles_append)
    ultimately show ?thesis using find_block_tiles[OF _ b(2) off, of s "b # ys"] Some by (simp only: option.case)
  qed
  then obtain b where fb: "find_block s off (case sb of None \<Rightarrow> Chain s | Some b \<Rightarrow> dropWhile (\<lambda>x. x \<noteq> b) (Chain s)) = Some b" by blast
  have "b \<in> set (Chain s)" using find_block_Some[OF fb] by (auto split: option.splits dest: set_dropWhileD)
  then have "b < length (Nodes s)" using fg_ok_chain[OF ok] by blast
  then have "\<exists>x. fgSplitBlock m b off (fgNodeGetEndInsertIRNode b s) s = Inr x"
    using off
    by (auto simp: fgSplitBlock_def fgNodeGetEndInsertIRNode_def fgSplitBlock_IR_def create_block_def Let_def close_term_def
        fgNodeSetEndMSILOffset_def update_node_def nth_list_update)
  then show ?thesis using fb by (auto simp: fgReplaceBranchTarget_def)
qed

lemma fgReplaceBranchTarget_step:
  assumes bu: "built m ps s" and e: "e \<in> set (labels_of (NodeOffsetListArray s))" and u: "uses (e # rest) s"
    and r: "fgReplaceBranchTarget m (Offset e) (Node e) sb s = Inr (b', s')"
  shows "built m ps s' \<and> uses rest s' \<and> b' \<in> set (Chain s') \<and> start s' b' = Offset e \<and> NodeOffsetListArray s' = NodeOffsetListArray s"
proof -
  have ok: "fg_ok m s" and tl: "tiles (Nodes s) 0 (Chain s) (ILCodeSize m)" using bu by (auto simp: built_def)
  from r obtain b s1 where fb: "find_block s (Offset e) (case sb of None \<Rightarrow> Chain s | Some b \<Rightarrow> dropWhile (\<lambda>x. x \<noteq> b) (Chain s)) = Some b"
    and sp: "(if Offset e \<noteq> start s b then fgSplitBlock m b (Offset e) (fgNodeGetEndInsertIRNode b s) s else Inr (b, s)) = Inr (b', s1)"
    and s': "s' = replaceFlowGraphNodeUses (Node e) b' s1"
    by (auto simp: fgReplaceBranchTarget_def Let_def rbind_eq_Inr_iff split: option.splits)
  have b: "b \<in> set (Chain s)" "start s b \<le> Offset e" "Offset e < EndMSILOffset (Nodes s ! b)"
    using find_block_Some[OF fb] by (auto split: option.splits dest: set_dropWhileD)
  have lt: "b < length (Nodes s)" using fg_ok_chain[OF ok] b(1) by blast
  have le: "label_ok s e" using ok e by (simp add: fg_ok_def)
  have 1: "built m ps s1 \<and> uses (e # rest) s1 \<and> b' \<in> set (Chain s1) \<and> start s1 b' = Offset e
      \<and> NodeOffsetListArray s1 = NodeOffsetListArray s \<and> start s1 (Node e) = Offset e \<and> Node e \<notin> set (PointBlocks s1)"
  proof (cases "Offset e = start s b")
    case True
    then show ?thesis using sp bu u b le by (auto simp: label_ok_def)
  next
    case False
    have "Offset e \<noteq> ILCodeSize m" using b(1,3) tiles_bounds[OF tl] by fastforce
    from fgSplitBlock_cut2[OF lt this] sp False have n: "b' = length (Nodes s)"
      and cut: "cut b (Offset e) (Br (length (Nodes s))) (EndMSILOffset (Nodes s ! b)) (Term (Nodes s ! b)) s s1" by auto
    have "start s b < Offset e" using b(2) False by simp
    from built_cut[OF bu cut b(1) this b(3)] uses_cut[OF u cut lt] show ?thesis
      using cut n le cut_nth(1)[OF cut, of "Node e"] by (auto simp: cut_def label_ok_def)
  qed
  then have "built m ps s'" unfolding s' by (intro built_replace) auto
  moreover have "uses rest s'" unfolding s' using 1 by (intro uses_replace) auto
  moreover have "b' < length (Nodes s1)" using 1 by (auto simp: built_def fg_ok_def)
  ultimately show ?thesis using 1 by (simp add: s' replace_nth)
qed

lemma replace_labels_step:
  assumes "built m ps s" and "set es \<subseteq> set (labels_of (NodeOffsetListArray s))" and "uses es s" and "replace_labels m es sb s = Inr s'"
  shows "built m ps s' \<and> uses [] s'"
  using assms
proof (induction es arbitrary: sb s)
  case Nil
  then show ?case by simp
next
  case (Cons e es)
  then obtain b' s1 where 1: "fgReplaceBranchTarget m (Offset e) (Node e) sb s = Inr (b', s1)" "replace_labels m es (Some b') s1 = Inr s'"
    by (auto simp: rbind_eq_Inr_iff)
  from fgReplaceBranchTarget_step[OF Cons.prems(1) _ Cons.prems(3) 1(1)] Cons.prems(2) show ?case
    using Cons.IH[OF _ _ _ 1(2)] by auto
qed

lemma replace_labels_total:
  assumes "built m ps s" and "set es \<subseteq> set (labels_of (NodeOffsetListArray s))" and "uses es s"
    and "sorted_wrt (<) (map Offset es)" and "\<forall>e \<in> set es. Offset e < ILCodeSize m \<and> search_from s (Offset e) sb"
  shows "\<exists>s'. replace_labels m es sb s = Inr s'"
  using assms
proof (induction es arbitrary: sb s)
  case Nil
  then show ?case by simp
next
  case (Cons e es)
  obtain b' s1 where 1: "fgReplaceBranchTarget m (Offset e) (Node e) sb s = Inr (b', s1)"
    using fgReplaceBranchTarget_total[OF Cons.prems(1), of "Offset e" sb "Node e"] Cons.prems(5) by auto
  from fgReplaceBranchTarget_step[OF Cons.prems(1) _ Cons.prems(3) 1] Cons.prems(2)
  have 2: "built m ps s1" "uses es s1" "b' \<in> set (Chain s1)" "start s1 b' = Offset e" "NodeOffsetListArray s1 = NodeOffsetListArray s" by auto
  have "\<exists>s'. replace_labels m es (Some b') s1 = Inr s'"
    using 2 Cons.prems by (intro Cons.IH) (auto simp: search_from_def)
  then show ?case using 1 by auto
qed

end
