(* ===== verification/FlowGraphProperties.thy ===== *)
theory FlowGraphProperties
  imports FlowGraphCorrect
begin

section \<open>The flow graph: properties\<close>

text \<open>
  The properties of the flow graph builder of lib/Reader/reader.cpp: what a finished graph is, that
  the construction of a graph for a method without exception regions succeeds, and what happens on a
  branch target outside the method.
\<close>

subsection \<open>Specification and samples\<close>

text \<open>The targets an instruction asks for.\<close>

fun flow_targets :: "Flow \<Rightarrow> u32 set" where
  "flow_targets (Jump x) = {x}"
| "flow_targets (Cond x y) = {x}"
| "flow_targets (Multi y xs) = insert y (set xs)"
| "flow_targets fl = {}"

definition flow_inside :: "Method \<Rightarrow> u32 \<Rightarrow> ParseResult \<Rightarrow> bool" where
  "flow_inside m off r \<longleftrightarrow> (\<exists>fo. flow_of m off r = Inr fo \<and> (\<forall>fl. fo = Some fl \<longrightarrow> (\<forall>x \<in> flow_targets fl. x < ILCodeSize m)))"

definition labels_inside :: "Method \<Rightarrow> FlowGraph \<Rightarrow> bool" where
  "labels_inside m s \<longleftrightarrow> (\<forall>e \<in> set (labels_of (NodeOffsetListArray s)). Offset e < ILCodeSize m)"

definition sample_operands :: "OPCODE \<Rightarrow> InlineKind" where
  "sample_operands op = (if op \<in> set short_branches then ShortInlineBrTarget else if op \<in> set long_branches then InlineBrTarget
     else if op = CEE_SWITCH then InlineSwitch else InlineNone)"

text \<open>\<open>ldarg.0; brfalse.s L; ldc.i4.1; ret; L: ldc.i4.0; ret\<close>\<close>

definition sample_method :: Method where
  "sample_method = \<lparr>ILCode = [0x02, 0x2C, 0x02, 0x17, 0x2A, 0x16, 0x2A], ILCodeSize = 7, Opargs = sample_operands,
     Regions = [], NeedSequencePoints = False\<rparr>"

text \<open>Its instructions, and a method of the single instruction \<open>br\<close> to the offset \<open>0x1005\<close>.\<close>

definition sample_instrs :: "(u32 \<times> ParseResult) list" where
  "sample_instrs = map (\<lambda>(off, nx, op). (off, \<lparr>next_offset = nx, opcode = op, operand = Some (off + 1), report = None\<rparr>))
     [(0, 1, CEE_LDARG_0), (1, 3, CEE_BRFALSE_S), (3, 4, CEE_LDC_I4_1), (4, 5, CEE_RET), (5, 6, CEE_LDC_I4_0), (6, 7, CEE_RET)]"

definition wild_branch :: Method where
  "wild_branch = \<lparr>ILCode = [0x38, 0, 0x10, 0, 0], ILCodeSize = 5, Opargs = sample_operands, Regions = [], NeedSequencePoints = False\<rparr>"

subsection \<open>Lemmas\<close>

lemma built_final:
  assumes "method_ok m" "0 < ILCodeSize m" "fgBuildBasicBlocksFromBytes fuel m = Some (Inr s)"
  shows "\<exists>ps. decodes m 0 ps (ILCodeSize m) \<and> (\<forall>(o1, r) \<in> set ps. \<exists>fo. flow_of m o1 r = Inr fo) \<and> built m ps s \<and> uses [] s"
proof -
  from assms(3) obtain s1 where 1: "fgBuildPhase1 fuel m 0 (initial_graph m) = Some (Inr s1)" and 2: "fgReplaceBranchTargets m s1 = Inr s"
    by (auto simp: fgBuildBasicBlocksFromBytes_def split: option.splits sum.splits)
  from phase1_built[OF assms(1,2) 1] obtain ps where ps: "decodes m 0 ps (ILCodeSize m)" "built m ps s1"
    "\<forall>(o1, r) \<in> set ps. \<exists>fo. flow_of m o1 r = Inr fo" by blast
  have "uses (labels_of (NodeOffsetListArray s1)) s1" using ps(2) uses_all by (auto simp: built_def)
  from replace_labels_step[OF ps(2) subset_refl this] 2 ps show ?thesis
    by (auto simp: fgReplaceBranchTargets_def labels_of_def)
qed

lemma label_inside: "fg_ok m s \<Longrightarrow> off \<le> ILCodeSize m \<Longrightarrow> in_labels (NodeOffsetListArray s) off"
  by (simp add: fg_ok_def in_labels_iff word_le_nat_alt div_le_mono)

lemma fgAddNode_inside:
  assumes ok: "fg_ok m s" and l: "labels_inside m s" and off: "off < ILCodeSize m"
  shows "\<exists>n s'. fgAddNodeMSILOffset None off s = Inr (n, s') \<and> labels_inside m s'"
proof -
  let ?L = "NodeOffsetListArray s"
  have i: "in_labels ?L off" by (rule label_inside[OF ok]) (use off in simp)
  have lo: "labels_ok ?L" using ok by (simp add: fg_ok_def)
  show ?thesis
  proof (cases "label_map ?L off")
    case None
    then show ?thesis using l off lab.look_content[OF lo i] insert_label_spec[OF lo i None]
      by (auto simp: fgAddNodeMSILOffset_def makeFlowGraphNode_label labels_inside_def)
  next
    case (Some n)
    then show ?thesis using l lab.look_content[OF lo i] by (auto simp: fgAddNodeMSILOffset_def)
  qed
qed

lemma end_block_total:
  assumes "b < length (Nodes s)" and "close_term t (length (Nodes s)) = Inr t'"
  shows "\<exists>b' s'. end_block m b off (set_term b t s) = Inr (b', s') \<and> NodeOffsetListArray s' = NodeOffsetListArray s"
  using assms
  by (auto simp: end_block_def fgSplitBlock_def fgSplitBlock_IR_def create_block_def Let_def fgNodeSetEndMSILOffset_def
      fgNodeSetStartMSILOffset_def fgNodeChangeRegion_def set_term_def update_node_def)

lemma switch_cases_inside:
  assumes "read_cases k (ILCode m) cursor = Inr vs" "\<forall>v \<in> set vs. nx + word_of_int v < ILCodeSize m"
    and "fg_ok m s" "labels_inside m s" "b \<in> set (Chain s)" "Term (Nodes s ! b) = SwitchBr d cs"
  shows "\<exists>s'. switch_cases m k nx I cursor b s = Inr s' \<and> labels_inside m s'"
  using assms
proof (induction k arbitrary: I cursor vs s cs)
  case 0
  then show ?case by simp
next
  case (Suc k)
  from Suc.prems(1) obtain v cursor' vs' where v: "readSwitchCase (ILCode m) cursor = Inr (v, cursor')"
    "read_cases k (ILCode m) cursor' = Inr vs'" "vs = v # vs'"
    by (auto simp: rbind_eq_Inr_iff)
  have "nx + word_of_int v < ILCodeSize m" using Suc.prems(2) v(3) by simp
  from fgAddNode_inside[OF Suc.prems(3,4) this] obtain n s1
    where a: "fgAddNodeMSILOffset None (nx + word_of_int v) s = Inr (n, s1)" "labels_inside m s1" by blast
  note st = fgAddNode_step[OF Suc.prems(3) a(1)]
  have ok1: "fg_ok m s1" and g: "grows s s1" using st by (auto simp: ok_step_def)
  have b1: "b \<in> set (Chain s1)" using g Suc.prems(5) by (simp add: grows_def)
  have lt: "b < length (Nodes s1)" using fg_ok_chain[OF ok1] b1 by blast
  have t1: "Term (Nodes s1 ! b) = SwitchBr d cs" using grows_chain[OF g Suc.prems(5)] Suc.prems(6) by (simp add: same_block_def)
  let ?s2 = "set_term b (SwitchBr d (cs @ [(I, n)])) s1"
  have "fg_ok m ?s2" unfolding set_term_def
    by (rule fg_ok_update_node[OF ok1 lt]) (use fg_ok_term[OF ok1 lt] fg_ok_label(3)[OF ok1] st t1 in auto)
  then have "\<exists>s'. switch_cases m k nx (I + 1) cursor' b ?s2 = Inr s' \<and> labels_inside m s'"
    using Suc.prems(2) v a(2) b1 lt
    by (intro Suc.IH[where cs = "cs @ [(I, n)]"]) (auto simp: labels_inside_def set_term_def update_node_nth)
  then show ?case using v a(1) by (simp add: add_case_set_term[OF lt t1])
qed

lemma phase1_switch_inside:
  assumes at: "at_instr m ps c r b s" and l: "labels_inside m s" and fl: "switch_flow m r = Inr fo"
    and t: "\<And>fl. fo = Some fl \<Longrightarrow> \<forall>x \<in> flow_targets fl. x < ILCodeSize m"
  shows "\<exists>b2 s2. phase1_switch m r b s = Inr (b2, s2) \<and> labels_inside m s2"
proof -
  have inv: "p1_inv m ps ps c b s" using at by (simp add: at_instr_def)
  from fl obtain cur N cursor where o: "operand r = Some cur" and N: "readNumberOfSwitchCases (ILCode m) cur = Inr (N, cursor)"
    by (auto simp: switch_flow_def rbind_eq_Inr_iff split: option.splits)
  show ?thesis
  proof (cases "N = 0")
    case True
    then show ?thesis using o N l by (simp add: phase1_switch_def)
  next
    case False
    with fl o N obtain vs where vs: "read_cases (unat N) (ILCode m) cursor = Inr vs"
      and fo: "fo = Some (Multi (next_offset r) (map (\<lambda>v. next_offset r + word_of_int v) vs))"
      by (auto simp: switch_flow_def rbind_eq_Inr_iff)
    have "next_offset r < ILCodeSize m" using t[OF fo] by simp
    from fgAddNode_inside[OF _ l this] p1_current[OF inv] obtain n s1
      where a: "fgAddNodeMSILOffset None (next_offset r) s = Inr (n, s1)" "labels_inside m s1" by blast
    note inv1 = p1_label[OF inv a(1)]
    have b: "b < length (Nodes s1)" "b \<in> set (Chain s1)" "fg_ok m s1" using p1_current[OF inv1(1)] by auto
    obtain b2 s2 where e: "end_block m b (next_offset r) (set_term b (SwitchBr n []) s1) = Inr (b2, s2)"
      "NodeOffsetListArray s2 = NodeOffsetListArray s1"
      using end_block_total[OF b(1), of "SwitchBr n []" _ m "next_offset r"] unfolding close_term_def Terminator.case by blast
    from e(1) have "fg_ok m s2 \<and> b \<in> set (Chain s2) \<and> (\<exists>d. Term (Nodes s2 ! b) = SwitchBr d [])"
    proof (cases rule: end_block_cases[OF b(1), consumes 1, case_names Cut Last])
      case (Cut t')
      then have "fg_ok m s2" using inv1 by (intro fg_ok_cut[OF b(3) Cut(4) b(2)]) (auto simp: close_term_def)
      then show ?thesis using Cut b by (auto simp: cut_def close_term_def)
    next
      case Last
      then show ?thesis using \<open>next_offset r < ILCodeSize m\<close> by simp
    qed
    then obtain d where "fg_ok m s2" "b \<in> set (Chain s2)" "Term (Nodes s2 ! b) = SwitchBr d []" by blast
    from switch_cases_inside[OF vs _ this(1) _ this(2,3)] t[OF fo] a(2) e(2)
    have "\<exists>s'. switch_cases m (unat N) (next_offset r) 0 cursor b s2 = Inr s' \<and> labels_inside m s'" by (auto simp: labels_inside_def)
    then show ?thesis using o N False a(1) e(1) by (auto simp: phase1_switch_def)
  qed
qed

lemma end_instr_total:
  assumes "b < length (Nodes s)" "labels_inside m s" "\<And>n. \<exists>t'. close_term t n = Inr t'"
  shows "\<exists>b2 s2. end_block m b nx (set_term b t s) = Inr (b2, s2) \<and> labels_inside m s2"
  using end_block_total[OF assms(1)] assms(2,3) by (metis labels_inside_def)

lemma phase1_instr_inside:
  assumes at: "at_instr m ps c r b s" and l: "labels_inside m s" and reg: "Regions m = []" and fi: "flow_inside m c r"
  shows "\<exists>b2 s2. phase1_instr m c r b s = Inr (b2, s2) \<and> labels_inside m s2"
proof -
  have inv: "p1_inv m ps ps c b s" using at by (simp add: at_instr_def)
  have b: "b < length (Nodes s)" "fg_ok m s" using p1_current[OF inv] by auto
  from fi obtain fo where fo: "flow_of m c r = Inr fo" "\<And>fl. fo = Some fl \<Longrightarrow> \<forall>x \<in> flow_targets fl. x < ILCodeSize m"
    by (auto simp: flow_inside_def)
  consider (br) "opcode r \<in> set short_branches \<or> opcode r \<in> set long_branches"
    | (sw) "\<not> (opcode r \<in> set short_branches \<or> opcode r \<in> set long_branches)" "opcode r = CEE_SWITCH"
    | (other) "\<not> (opcode r \<in> set short_branches \<or> opcode r \<in> set long_branches)" "opcode r \<noteq> CEE_SWITCH" by blast
  then show ?thesis
  proof cases
    case br
    then obtain t where t: "read_branch m r = Inr t" "fo = Some (if is_conditional (opcode r) then Cond t (next_offset r) else Jump t)"
      using fo(1) by (auto simp: flow_of_def branch_flow_def leave_target_def reg rbind_eq_Inr_iff Let_def split: if_splits)
    have "t < ILCodeSize m" using fo(2)[OF t(2)] by (auto split: if_splits)
    from fgAddNode_inside[OF b(2) l this] obtain n s1 where a: "fgAddNodeMSILOffset None t s = Inr (n, s1)" "labels_inside m s1" by blast
    have "b < length (Nodes s1)" using p1_current[OF p1_label(1)[OF inv a(1)]] by simp
    from end_instr_total[OF this a(2), of "if is_conditional (opcode r) then CondBr n None else Br n" "next_offset r"]
    have "\<exists>b2 s2. end_block m b (next_offset r) (set_term b (if is_conditional (opcode r) then CondBr n None else Br n) s1) = Inr (b2, s2)
        \<and> labels_inside m s2" by (simp add: close_term_def)
    moreover have "(if is_leave (opcode r) then fgUpdateLeaveOffset m c (next_offset r) b t s else Inr (t, s)) = Inr (t, s)"
      by (simp add: fgUpdateLeaveOffset_def leave_target_def reg)
    ultimately show ?thesis using br t(1) a(1) by (simp add: phase1_instr_def phase1_branch_def)
  next
    case sw
    then have "switch_flow m r = Inr fo" using fo(1) by (simp add: flow_of_def)
    then show ?thesis using phase1_switch_inside[OF at l _ fo(2)] sw by (simp add: phase1_instr_def)
  next
    case other
    consider "opcode r = CEE_THROW \<or> opcode r = CEE_RETHROW" | "opcode r = CEE_ENDFILTER" | "opcode r = CEE_ENDFINALLY"
      | "opcode r \<notin> {CEE_THROW, CEE_RETHROW, CEE_ENDFILTER, CEE_ENDFINALLY}" by blast
    then show ?thesis
    proof cases
      case 1
      then show ?thesis using other end_instr_total[OF b(1) l, of UnreachableInst "next_offset r"]
        by (auto simp: phase1_instr_def close_term_def)
    next
      case 2
      then have "next_offset r < ILCodeSize m" using fo flow_of_simple(2)[OF other] by auto
      from fgAddNode_inside[OF b(2) l this] obtain n s1
        where a: "fgAddNodeMSILOffset None (next_offset r) s = Inr (n, s1)" "labels_inside m s1" by blast
      have "b < length (Nodes s1)" using p1_current[OF p1_label(1)[OF inv a(1)]] by simp
      from end_instr_total[OF this a(2), of "Br n" "next_offset r"] show ?thesis
        using 2 other a(1) by (auto simp: phase1_instr_def close_term_def)
    next
      case 3
      then have "flow_of m c r = Inl (nullptr ''HandlerRegion'')"
        using other by (simp add: flow_of_def getInnermostFaultOrFinallyRegion_def reg)
      then show ?thesis using fo(1) by simp
    next
      case 4
      then show ?thesis using other l
        by (auto simp: phase1_instr_def labels_inside_def start_block_def makeFlowGraphNode_def create_block_def Let_def
            fgNodeSetEndMSILOffset_def set_term_def update_node_def)
    qed
  qed
qed


lemma fgBuildPhase1_loop_total:
  assumes m: "method_ok m" and reg: "Regions m = []"
    and "p1_inv m ps ps c b s" "labels_inside m s" "\<forall>(o1, r) \<in> set ps. next_offset r \<le> c"
    and "decodes m c qs (ILCodeSize m)" "\<forall>(o1, r) \<in> set qs. flow_inside m o1 r" "length qs < fuel"
  shows "\<exists>b' s'. fgBuildPhase1_loop fuel m c b transition s = Some (Inr (b', ILCodeSize m, s')) \<and> labels_inside m s'"
  using assms(3-8)
proof (induction qs arbitrary: fuel ps c b s)
  case Nil
  then show ?case by (cases fuel) auto
next
  case (Cons q qs)
  obtain o1 r where q: "q = (o1, r)" by (cases q)
  then have c: "o1 = c" "c < ILCodeSize m" "parseILOpcode (Opargs m) (ILCode m) c (ILCodeSize m) True = Inr r"
    "decodes m (next_offset r) qs (ILCodeSize m)" using Cons.prems(4) by auto
  obtain f where f: "fuel = Suc f" using Cons.prems(6) by (cases fuel) auto
  note pr = method_progress[OF m c(2,3)]
  have at: "at_instr m ps c r b s" using Cons.prems(1) m c(2) pr by (simp add: at_instr_def method_ok_def)
  have "flow_inside m c r" using Cons.prems(5) q c(1) by simp
  from phase1_instr_inside[OF at Cons.prems(2) reg this] obtain b2 s2
    where i: "phase1_instr m c r b s = Inr (b2, s2)" "labels_inside m s2" by blast
  have "past_instr m ps c r b2 s2" by (rule phase1_instr_step[OF at Cons.prems(3) i(1)])
  then have inv2: "p1_inv m (ps @ [(c, r)]) (ps @ [(c, r)]) (next_offset r) b2 s2" by (simp add: past_instr_def)
  have le: "\<forall>(o1, r1) \<in> set (ps @ [(c, r)]). next_offset r1 \<le> next_offset r" using Cons.prems(3) pr by fastforce
  have fi: "\<forall>(o1, r) \<in> set qs. flow_inside m o1 r" and len: "length qs < f" using Cons.prems(5,6) f by auto
  from Cons.IH[OF inv2 i(2) le c(4) fi len] show ?case using c i(1) by (simp add: f phase1_region_def reg)
qed

lemma labels_initial: "labels_inside m (initial_graph m)"
  by (simp add: labels_inside_def initial_graph_def empty_labels_def labels_of_def)

lemma decodes_length:
  assumes "method_ok m" shows "decodes m c ps (ILCodeSize m) \<Longrightarrow> unat c + length ps \<le> unat (ILCodeSize m)"
proof (induction ps arbitrary: c)
  case (Cons p ps)
  obtain o1 r where p: "p = (o1, r)" by (cases p)
  with Cons.prems have "c < ILCodeSize m" "parseILOpcode (Opargs m) (ILCode m) c (ILCodeSize m) True = Inr r"
    "decodes m (next_offset r) ps (ILCodeSize m)" by auto
  with method_progress[OF assms this(1,2)] Cons.IH[of "next_offset r"] show ?case by (simp add: word_less_nat_alt)
qed simp

lemma tiles_end_unique:
  assumes "tiles N lo bs e" "b \<in> set bs" "b' \<in> set bs" "EndMSILOffset (N ! b) = EndMSILOffset (N ! b')"
  shows "b = b'"
  using assms
proof (induction bs arbitrary: lo)
  case (Cons x bs)
  have gt: "EndMSILOffset (N ! x) < EndMSILOffset (N ! y)" if "y \<in> set bs" for y
  proof -
    from that obtain us vs where "bs = us @ y # vs" by (meson split_list)
    with Cons.prems(1) obtain k where k: "tiles N (EndMSILOffset (N ! x)) us k" "StartMSILOffset (N ! y) = k" "k < EndMSILOffset (N ! y)"
      by (auto simp: tiles_append)
    have "EndMSILOffset (N ! x) \<le> k" using tiles_bounds[OF k(1)] by simp
    then show ?thesis using k(3) by (rule le_less_trans)
  qed
  show ?case
  proof (cases "b = x \<or> b' = x")
    case True
    then show ?thesis using Cons.prems(2-4) gt[of b] gt[of b'] by auto
  next
    case False
    then show ?thesis using Cons by auto
  qed
qed simp

lemma sample_method_ok: "method_ok sample_method"
proof -
  have "CEE_SWITCH \<notin> set short_branches" "CEE_SWITCH \<notin> set long_branches" by code_simp+
  then have "opargs_wf sample_operands" by (auto simp: opargs_wf_def sample_operands_def)
  moreover have "switches_fit sample_operands [0x02, 0x2C, 0x02, 0x17, 0x2A, 0x16, 0x2A]"
    by (simp add: switches_fit_def upt_rec parse_eval switch_fits_def sample_operands_def short_branches_def long_branches_def)
  ultimately show ?thesis by (simp add: method_ok_def sample_method_def regions_ok_def)
qed

lemma sample_method_built: "\<exists>s. fgBuildBasicBlocksFromBytes 8 sample_method = Some (Inr s)"
proof -
  have "(case fgBuildBasicBlocksFromBytes 8 sample_method of Some (Inr s) \<Rightarrow> True | _ \<Rightarrow> False)" by code_simp
  then show ?thesis by (auto split: option.splits sum.splits)
qed

lemma sample_instrs_decode: "decodes sample_method 0 sample_instrs (ILCodeSize sample_method)"
  by (simp add: sample_instrs_def sample_method_def parse_eval sample_operands_def short_branches_def long_branches_def word_le_nat_alt)

lemma sample_instrs_inside: "\<forall>(off, r) \<in> set sample_instrs. flow_inside sample_method off r"
proof -
  have "list_all (\<lambda>(off, r). case flow_of sample_method off r of Inr None \<Rightarrow> True
      | Inr (Some (Cond t u)) \<Rightarrow> t < 7 | Inr (Some Halt) \<Rightarrow> True | _ \<Rightarrow> False) sample_instrs" by code_simp
  then have ok: "case flow_of sample_method off r of Inr None \<Rightarrow> True | Inr (Some (Cond t u)) \<Rightarrow> t < 7 | Inr (Some Halt) \<Rightarrow> True | _ \<Rightarrow> False"
    if "(off, r) \<in> set sample_instrs" for off r using that by (fastforce simp: list_all_iff)
  have "flow_inside sample_method off r" if i: "(off, r) \<in> set sample_instrs" for off r
  proof -
    obtain fo where fo: "flow_of sample_method off r = Inr fo" using ok[OF i] by (cases "flow_of sample_method off r") auto
    have "ILCodeSize sample_method = 7" by (simp add: sample_method_def)
    then show ?thesis using ok[OF i] unfolding flow_inside_def fo by (auto split: option.splits Flow.splits)
  qed
  then show ?thesis by blast
qed

subsection \<open>Properties\<close>

text \<open>C1: the flow graph that \<open>fgBuildBasicBlocksFromBytes\<close> returns has the control flow of the
  instructions. The code decodes into a sequence of instructions; for each instruction that
  transfers control there is exactly one block that ends behind it, and its terminator leads to the
  blocks that start at the target offsets of the instruction (a \<open>leave\<close> to the innermost finally it
  has to run, an \<open>endfinally\<close> to the dispatch block of its finally); every other block falls through
  to the block that starts where it ends, except that the last one may end open at the end of the
  code.\<close>

theorem flow_graph_correct:
  assumes "method_ok m" "0 < ILCodeSize m" "fgBuildBasicBlocksFromBytes fuel m = Some (Inr s)"
  shows "\<exists>ps. decodes m 0 ps (ILCodeSize m)
     \<and> (\<forall>(off, r) \<in> set ps. \<exists>fo. flow_of m off r = Inr fo \<and> (\<forall>fl. fo = Some fl \<longrightarrow>
          (\<exists>!b. b \<in> set (Chain s) \<and> EndMSILOffset (Nodes s ! b) = next_offset r)
          \<and> (\<exists>b \<in> set (Chain s). EndMSILOffset (Nodes s ! b) = next_offset r \<and> fulfils m s (Term (Nodes s ! b)) fl)))
     \<and> (\<forall>b \<in> set (Chain s). closed m ps s b \<or> EndMSILOffset (Nodes s ! b) = ILCodeSize m \<and> Term (Nodes s ! b) = NoTerm)"
proof -
  from built_final[OF assms] obtain ps where d: "decodes m 0 ps (ILCodeSize m)" and fo: "\<forall>(o1, r) \<in> set ps. \<exists>fo. flow_of m o1 r = Inr fo"
    and b: "built m ps s" by blast
  have t: "tiles (Nodes s) 0 (Chain s) (ILCodeSize m)" using b by (simp add: built_def)
  have 1: "\<exists>b \<in> set (Chain s). EndMSILOffset (Nodes s ! b) = next_offset r \<and> fulfils m s (Term (Nodes s ! b)) fl"
    if "(off, r) \<in> set ps" "flow_of m off r = Inr (Some fl)" for off r fl using b that unfolding built_def by blast
  have "\<exists>fo. flow_of m off r = Inr fo \<and> (\<forall>fl. fo = Some fl \<longrightarrow>
          (\<exists>!b. b \<in> set (Chain s) \<and> EndMSILOffset (Nodes s ! b) = next_offset r)
          \<and> (\<exists>b \<in> set (Chain s). EndMSILOffset (Nodes s ! b) = next_offset r \<and> fulfils m s (Term (Nodes s ! b)) fl))"
    if p: "(off, r) \<in> set ps" for off r
  proof -
    from fo p obtain fo' where fo': "flow_of m off r = Inr fo'" by blast
    show ?thesis
    proof (intro exI conjI allI impI)
      show "flow_of m off r = Inr fo'" by (rule fo')
      fix fl assume fl: "fo' = Some fl"
      then show ex: "\<exists>b \<in> set (Chain s). EndMSILOffset (Nodes s ! b) = next_offset r \<and> fulfils m s (Term (Nodes s ! b)) fl"
        using 1[OF p] fo' by simp
      then show "\<exists>!b. b \<in> set (Chain s) \<and> EndMSILOffset (Nodes s ! b) = next_offset r" using tiles_end_unique[OF t] by metis
    qed
  qed
  then show ?thesis using d b by (intro exI[of _ ps]) (auto simp: built_def)
qed

theorem flow_graph_correct_witness:
  "\<exists>s ps. fgBuildBasicBlocksFromBytes 8 sample_method = Some (Inr s) \<and> decodes sample_method 0 ps (ILCodeSize sample_method)"
proof -
  obtain s where s: "fgBuildBasicBlocksFromBytes 8 sample_method = Some (Inr s)" using sample_method_built by blast
  have "0 < ILCodeSize sample_method" by (simp add: sample_method_def)
  from flow_graph_correct[OF sample_method_ok this s] s show ?thesis by blast
qed

text \<open>C4: the blocks of the finished graph tile the code from its first byte to its last, in order, without
  gaps and without empty blocks, and no temporary node is left: every successor of a block is a
  block of code or a point block, and so is every continuation in the dispatch of a finally.\<close>

theorem flow_graph_wellformed:
  assumes "method_ok m" "0 < ILCodeSize m" "fgBuildBasicBlocksFromBytes fuel m = Some (Inr s)"
  shows "tiles (Nodes s) 0 (Chain s) (ILCodeSize m) \<and> distinct (Chain s)
     \<and> (\<forall>b \<in> set (Chain s) \<union> set (PointBlocks s). b < length (Nodes s)
          \<and> targets (Term (Nodes s ! b)) \<subseteq> set (Chain s) \<union> set (PointBlocks s))
     \<and> (\<forall>q \<in> set (Pads s). \<forall>d. EndFinallySwitch q = Some d \<longrightarrow> snd ` set (Cases d) \<subseteq> set (Chain s) \<union> set (PointBlocks s))"
proof -
  from built_final[OF assms] obtain ps where b: "built m ps s" and u: "uses [] s" by blast
  have "targets (Term (Nodes s ! b)) \<subseteq> set (Chain s) \<union> set (PointBlocks s)" if "b < length (Nodes s)" for b
    using u that by (auto simp: uses_def within_def)
  then show ?thesis using b u by (auto simp: built_def fg_ok_def uses_def within_def)
qed

theorem flow_graph_wellformed_witness:
  "\<exists>s. fgBuildBasicBlocksFromBytes 8 sample_method = Some (Inr s) \<and> tiles (Nodes s) 0 (Chain s) (ILCodeSize sample_method)"
proof -
  obtain s where s: "fgBuildBasicBlocksFromBytes 8 sample_method = Some (Inr s)" using sample_method_built by blast
  have "0 < ILCodeSize sample_method" by (simp add: sample_method_def)
  from flow_graph_wellformed[OF sample_method_ok this s] s show ?thesis by blast
qed

text \<open>C21: for a method without exception regions whose instructions decode up to the end of the code and
  whose branch targets lie inside the code, the construction succeeds: one unit of fuel for each byte
  and one more is enough, no array is indexed outside its bounds and no assertion fails.\<close>

theorem flow_graph_total:
  assumes "method_ok m" "0 < ILCodeSize m" "Regions m = []"
    and "decodes m 0 ps (ILCodeSize m)" "\<forall>(off, r) \<in> set ps. flow_inside m off r"
  shows "\<exists>s. fgBuildBasicBlocksFromBytes (unat (ILCodeSize m) + 1) m = Some (Inr s)"
proof -
  let ?f = "unat (ILCodeSize m) + 1"
  have i: "(initial_graph m)\<lparr>HasLocAlloc := False, HasAddressTaken := False\<rparr> = initial_graph m" by (simp add: initial_graph_def)
  have len: "length ps < ?f" using decodes_length[OF assms(1,4)] by simp
  from fgBuildPhase1_loop_total[OF assms(1,3) initial_inv[OF assms(2,1)] labels_initial _ assms(4,5) len, of 0]
  obtain b s1 where "fgBuildPhase1_loop ?f m 0 0 0 (initial_graph m) = Some (Inr (b, ILCodeSize m, s1))" "labels_inside m s1" by auto
  then obtain s2 where p1: "fgBuildPhase1 ?f m 0 (initial_graph m) = Some (Inr s2)" and l: "labels_inside m s2"
    by (auto simp: fgBuildPhase1_def i fgNodeSetEndMSILOffset_def labels_inside_def)
  from phase1_built[OF assms(1,2) p1] obtain qs where b: "built m qs s2" by blast
  have "\<exists>s. replace_labels m (labels_of (NodeOffsetListArray s2)) None s2 = Inr s"
    using b l uses_all[of m s2] labels_sorted[of "NodeOffsetListArray s2"]
    by (intro replace_labels_total[OF b]) (auto simp: built_def fg_ok_def labels_inside_def search_from_def)
  then show ?thesis using p1 by (simp add: fgBuildBasicBlocksFromBytes_def fgReplaceBranchTargets_def labels_of_def)
qed

theorem flow_graph_total_witness: "\<exists>s. fgBuildBasicBlocksFromBytes 8 sample_method = Some (Inr s)"
  using flow_graph_total[OF sample_method_ok _ _ sample_instrs_decode sample_instrs_inside] by (simp add: sample_method_def)

text \<open>C38: a branch whose target lies beyond the last bucket of the label array indexes the array outside
  its bounds: \<open>verGlobalError\<close>, which the range check of the target calls, returns in this build.\<close>

theorem bad_branch_overruns:
  assumes "fg_ok m s" "opcode r \<in> set short_branches \<or> opcode r \<in> set long_branches" "\<not> is_leave (opcode r)"
    and "read_branch m r = Inr t" "unat (ILCodeSize m) div 32 < unat t div 32"
  shows "phase1_instr m c r b s = Inl (OutOfBounds ''NodeOffsetListArray'' (unat t div 32))"
proof -
  have i: "bucket_index t = unat t div 32" by (simp add: bucket_index_def FLOW_GRAPH_NODE_LIST_ARRAY_STRIDE_def unat_div)
  have "\<not> in_labels (NodeOffsetListArray s) t" using assms(1,5) by (simp add: fg_ok_def in_labels_iff)
  then have "fgAddNodeMSILOffset None t s = Inl (OutOfBounds ''NodeOffsetListArray'' (unat t div 32))"
    by (simp add: fgAddNodeMSILOffset_def find_label_def array_get_def in_labels_def i)
  then show ?thesis using assms(2-4) by (simp add: phase1_instr_def phase1_branch_def)
qed

theorem bad_branch_overruns_witness:
  "phase1_instr wild_branch 0 \<lparr>next_offset = 5, opcode = CEE_BR, operand = Some 1, report = None\<rparr> 0 (initial_graph wild_branch)
     = Inl (OutOfBounds ''NodeOffsetListArray'' (0x1005 div 32))"
proof -
  let ?r = "\<lparr>next_offset = 5, opcode = CEE_BR, operand = Some 1, report = None\<rparr> :: ParseResult"
  have "method_ok wild_branch"
    using sample_method_ok
    by (simp add: method_ok_def wild_branch_def sample_method_def regions_ok_def switches_fit_def upt_rec parse_eval switch_fits_def
        sample_operands_def short_branches_def long_branches_def)
  from initial_inv[OF _ this] have "fg_ok wild_branch (initial_graph wild_branch)" by (simp add: p1_inv_def wild_branch_def)
  moreover have "CEE_BR \<in> set long_branches" "\<not> is_leave CEE_BR" "read_branch wild_branch ?r = Inr 0x1005" by code_simp+
  ultimately show ?thesis
    using bad_branch_overruns[of wild_branch "initial_graph wild_branch" ?r "0x1005" 0 0] by (simp add: wild_branch_def)
qed

end
