(* ===== verification/GcSort.thy ===== *)
theory GcSort
  imports Prelude "HOL-Library.Multiset"
begin

section \<open>The sort of the GC info library\<close>

text \<open>
  \<open>CQuickSort\<close> of include/GcInfo/GcInfoUtil.h, the in-place sort of the GC info library: an array is a
  list, an index a signed integer, and an access outside the array a fault. \<open>Compare\<close> is virtual: it is
  an argument of the sort, and the locale \<open>strict_weak_order\<close> says what the sort needs of it. The locale
  is interpreted on the default comparison, \<open>memcmp\<close>.
\<close>

subsection \<open>The algorithm\<close>

definition at :: "'a list \<Rightarrow> int \<Rightarrow> 'a result" where
  "at xs i = (if 0 \<le> i then array_get ''m_pBase'' xs (nat i) else Inl (AssertFailed ''negative index''))"

definition Swap :: "int \<Rightarrow> int \<Rightarrow> 'a list \<Rightarrow> 'a list result" where
  "Swap iFirst iSecond xs = (if iFirst = iSecond then Inr xs
     else rbind (at xs iFirst) (\<lambda>sTemp. rbind (at xs iSecond) (\<lambda>second. Inr (xs[nat iFirst := second, nat iSecond := sTemp]))))"

function partition_loop :: "('a \<Rightarrow> 'a \<Rightarrow> int) \<Rightarrow> int \<Rightarrow> int \<Rightarrow> int \<Rightarrow> int \<Rightarrow> 'a list \<Rightarrow> (int \<times> 'a list) result" where
  "partition_loop Compare iLeft iRight i iLast xs = (if i \<le> iRight then
     rbind (at xs i) (\<lambda>item. rbind (at xs iLeft) (\<lambda>pivot.
       if Compare item pivot < 0 then rbind (Swap i (iLast + 1) xs) (partition_loop Compare iLeft iRight (i + 1) (iLast + 1))
       else partition_loop Compare iLeft iRight (i + 1) iLast xs))
     else Inr (iLast, xs))"
  by pat_completeness auto
termination by (relation "measure (\<lambda>(c, iLeft, iRight, i, iLast, xs). nat (iRight + 1 - i))") auto

declare partition_loop.simps [simp del]

lemma partition_loop_range:
  "partition_loop c iLeft iRight i iLast xs = Inr (p, ys) \<Longrightarrow> iLast \<le> p \<and> (iLast \<le> i - 1 \<longrightarrow> p \<le> max iLast (max (i - 1) iRight))"
proof (induction c iLeft iRight i iLast xs rule: partition_loop.induct)
  case (1 c iLeft iRight i iLast xs)
  show ?case
  proof (cases "i \<le> iRight")
    case True
    with 1 show ?thesis
      apply (subst (asm) (3) partition_loop.simps)
      apply (auto simp: rbind_eq_Inr_iff split: if_splits)
      apply fastforce+
      done
  next
    case False
    with 1 show ?thesis by (subst (asm) (3) partition_loop.simps) auto
  qed
qed


definition partition_range :: "('a \<Rightarrow> 'a \<Rightarrow> int) \<Rightarrow> int \<Rightarrow> int \<Rightarrow> 'a list \<Rightarrow> (int \<times> 'a list) result" where
  "partition_range Compare iLeft iRight xs =
     rbind (Swap iLeft ((iLeft + iRight) div 2) xs) (\<lambda>xs.
     rbind (partition_loop Compare iLeft iRight (iLeft + 1) iLeft xs) (\<lambda>(iLast, xs).
     rbind (Swap iLeft iLast xs) (\<lambda>xs. Inr (iLast, xs))))"

lemma partition_range_bounds:
  "partition_range c iLeft iRight xs = Inr (p, ys) \<Longrightarrow> iLeft < iRight \<Longrightarrow> iLeft \<le> p \<and> p \<le> iRight"
  by (fastforce simp: partition_range_def rbind_eq_Inr_iff dest: partition_loop_range)

function SortRange :: "('a \<Rightarrow> 'a \<Rightarrow> int) \<Rightarrow> int \<Rightarrow> int \<Rightarrow> int \<Rightarrow> 'a list \<Rightarrow> 'a list result" where
  "SortRange Compare m_iCount iLeft iRight xs = (if iLeft \<ge> iRight then Inr xs else
     rbind (rassert ''iLeft'' (0 \<le> iLeft \<and> iLeft < m_iCount)) (\<lambda>_.
     rbind (rassert ''iRight'' (0 \<le> iRight \<and> iRight < m_iCount)) (\<lambda>_.
     rbind (partition_range Compare iLeft iRight xs) (\<lambda>(iLast, xs).
       if iLast - 1 - iLeft < iRight - (iLast + 1)
       then rbind (SortRange Compare m_iCount iLeft (iLast - 1) xs) (SortRange Compare m_iCount (iLast + 1) iRight)
       else rbind (SortRange Compare m_iCount (iLast + 1) iRight xs) (SortRange Compare m_iCount iLeft (iLast - 1))))))"
  by pat_completeness auto
termination
  by (relation "measure (\<lambda>(c, n, iLeft, iRight, xs). nat (iRight + 1 - iLeft))")
    (auto dest: partition_range_bounds)

definition Sort :: "('a \<Rightarrow> 'a \<Rightarrow> int) \<Rightarrow> 'a list \<Rightarrow> 'a list result" where
  "Sort Compare xs = SortRange Compare (int (length xs)) 0 (int (length xs) - 1) xs"

text \<open>The default \<open>Compare\<close>: \<open>memcmp\<close> of the bytes of the two elements, which have the same
  number of bytes; on byte strings of different length a missing byte comes first.\<close>

fun memcmp :: "u8 list \<Rightarrow> u8 list \<Rightarrow> int" where
  "memcmp (a # as) (b # bs) = (if a < b then -1 else if b < a then 1 else memcmp as bs)"
| "memcmp [] [] = 0"
| "memcmp [] (b # bs) = -1"
| "memcmp (a # as) [] = 1"

declare SortRange.simps [simp del]

text \<open>What \<open>Compare\<close> has to be: \<open>Compare a b < 0\<close> is a strict weak order.\<close>

locale strict_weak_order =
  fixes Compare :: "'a \<Rightarrow> 'a \<Rightarrow> int"
  assumes less_asym: "Compare a b < 0 \<Longrightarrow> \<not> Compare b a < 0"
    and not_less_trans: "\<not> Compare b a < 0 \<Longrightarrow> \<not> Compare c b < 0 \<Longrightarrow> \<not> Compare c a < 0"
begin

definition not_after :: "'a \<Rightarrow> 'a \<Rightarrow> bool" where
  "not_after a b \<longleftrightarrow> \<not> Compare b a < 0"

end

text \<open>\<open>shuffles l r xs ys\<close>: \<open>ys\<close> is \<open>xs\<close> with the elements at the indices \<open>l\<close> to \<open>r\<close> permuted.\<close>

definition shuffles :: "int \<Rightarrow> int \<Rightarrow> 'a list \<Rightarrow> 'a list \<Rightarrow> bool" where
  "shuffles l r xs ys \<longleftrightarrow> length ys = length xs \<and> mset ys = mset xs
     \<and> (\<forall>k. 0 \<le> k \<longrightarrow> k < int (length xs) \<longrightarrow> k < l \<or> r < k \<longrightarrow> ys ! nat k = xs ! nat k)
     \<and> (\<forall>k. l \<le> k \<longrightarrow> k \<le> r \<longrightarrow> (\<exists>j. l \<le> j \<and> j \<le> r \<and> ys ! nat k = xs ! nat j))"

lemma shuffles_refl [simp]: "shuffles l r xs xs" by (auto simp: shuffles_def)

lemma shuffles_trans: "shuffles l r xs ys \<Longrightarrow> shuffles l r ys zs \<Longrightarrow> shuffles l r xs zs"
  unfolding shuffles_def by (metis (no_types, lifting))

lemma shuffles_mono:
  assumes "shuffles l r xs ys" "l' \<le> l" "r \<le> r'" "0 \<le> l'" "r' < int (length xs)" shows "shuffles l' r' xs ys"
proof -
  have "\<exists>j. l' \<le> j \<and> j \<le> r' \<and> ys ! nat k = xs ! nat j" if "l' \<le> k" "k \<le> r'" for k
  proof (cases "l \<le> k \<and> k \<le> r")
    case True
    then obtain j where "l \<le> j" "j \<le> r" "ys ! nat k = xs ! nat j" using assms(1) unfolding shuffles_def by blast
    then show ?thesis using assms(2,3) by (intro exI[of _ j]) auto
  next
    case False
    then have "ys ! nat k = xs ! nat k" using assms that unfolding shuffles_def by auto
    then show ?thesis using that by blast
  qed
  then show ?thesis using assms unfolding shuffles_def by auto
qed

lemma shuffles_all:
  assumes "shuffles l r xs ys" "\<And>k. l \<le> k \<Longrightarrow> k \<le> r \<Longrightarrow> P (xs ! nat k)" "l \<le> k" "k \<le> r" shows "P (ys ! nat k)"
  using assms unfolding shuffles_def by metis

lemma at_inside: "0 \<le> i \<Longrightarrow> i < int (length xs) \<Longrightarrow> at xs i = Inr (xs ! nat i)"
  by (simp add: at_def nat_less_iff)

lemma mset_swap_nth: "i < length xs \<Longrightarrow> j < length xs \<Longrightarrow> mset (xs[i := xs ! j, j := xs ! i]) = mset xs"
  by (rule mset_swap)

lemma Swap_inside:
  assumes "l \<le> i" "i \<le> r" "l \<le> j" "j \<le> r" "0 \<le> l" "r < int (length xs)"
  shows "\<exists>ys. Swap i j xs = Inr ys \<and> shuffles l r xs ys \<and> ys ! nat i = xs ! nat j \<and> ys ! nat j = xs ! nat i
     \<and> (\<forall>k. 0 \<le> k \<longrightarrow> k \<noteq> i \<longrightarrow> k \<noteq> j \<longrightarrow> ys ! nat k = xs ! nat k)"
proof (cases "i = j")
  case True
  then show ?thesis by (simp add: Swap_def)
next
  case False
  let ?ys = "xs[nat i := xs ! nat j, nat j := xs ! nat i]"
  have ij: "nat i < length xs" "nat j < length xs" "nat i \<noteq> nat j" using assms False by auto
  have s: "Swap i j xs = Inr ?ys" using assms False by (simp add: Swap_def at_inside)
  have n: "?ys ! nat k = (if k = i then xs ! nat j else if k = j then xs ! nat i else xs ! nat k)" if "0 \<le> k" for k
    using that assms ij by (auto simp: nth_list_update)
  have "shuffles l r xs ?ys" unfolding shuffles_def
  proof (intro conjI allI impI)
    show "mset ?ys = mset xs" using ij by (rule_tac mset_swap)
    show "?ys ! nat k = xs ! nat k" if "0 \<le> k" "k < l \<or> r < k" for k using n[OF that(1)] that assms by auto
    show "\<exists>j'. l \<le> j' \<and> j' \<le> r \<and> ?ys ! nat k = xs ! nat j'" if "l \<le> k" "k \<le> r" for k
      using n[of k] that assms by (cases "k = i"; cases "k = j") auto
  qed simp
  then show ?thesis using s n assms by (intro exI[of _ ?ys]) auto
qed


lemma partition_loop_correct:
  assumes "0 \<le> l" "l \<le> m" "m < i" "i \<le> r + 1" "r < int (length xs)"
    and "\<And>k. l < k \<Longrightarrow> k \<le> m \<Longrightarrow> Compare (xs ! nat k) (xs ! nat l) < 0"
    and "\<And>k. m < k \<Longrightarrow> k < i \<Longrightarrow> \<not> Compare (xs ! nat k) (xs ! nat l) < 0"
  shows "\<exists>p ys. partition_loop Compare l r i m xs = Inr (p, ys) \<and> l \<le> p \<and> p \<le> r \<and> shuffles (l + 1) r xs ys
     \<and> ys ! nat l = xs ! nat l
     \<and> (\<forall>k. l < k \<longrightarrow> k \<le> p \<longrightarrow> Compare (ys ! nat k) (xs ! nat l) < 0)
     \<and> (\<forall>k. p < k \<longrightarrow> k \<le> r \<longrightarrow> \<not> Compare (ys ! nat k) (xs ! nat l) < 0)"
  using assms
proof (induction Compare l r i m xs rule: partition_loop.induct)
  case (1 Compare l r i m xs)
  note IH = "1.IH" and prems = "1.prems"
  show ?case
  proof (cases "i \<le> r")
    case False
    then have "partition_loop Compare l r i m xs = Inr (m, xs)" by (simp add: partition_loop.simps)
    then show ?thesis using prems False by auto
  next
    case True
    have at: "at xs i = Inr (xs ! nat i)" "at xs l = Inr (xs ! nat l)" using prems True by (simp_all add: at_inside)
    show ?thesis
    proof (cases "Compare (xs ! nat i) (xs ! nat l) < 0")
      case False
      then have "partition_loop Compare l r i m xs = partition_loop Compare l r (i + 1) m xs"
        using True at by (subst partition_loop.simps) simp
      moreover have "\<not> Compare (xs ! nat k) (xs ! nat l) < 0" if "m < k" "k < i + 1" for k
        using prems(7)[of k] that False by (cases "k = i") auto
      ultimately show ?thesis using IH(2)[OF True at False] prems True by (simp add: prems(6))
    next
      case less: True
      have "l + 1 \<le> m + 1" "m + 1 \<le> r" "l + 1 \<le> i" "0 \<le> l + 1" using prems True by auto
      with Swap_inside[of "l + 1" i r "m + 1" xs] prems(5) True obtain ys where
        ys: "Swap i (m + 1) xs = Inr ys" "shuffles (l + 1) r xs ys" "ys ! nat i = xs ! nat (m + 1)"
          "ys ! nat (m + 1) = xs ! nat i" "\<And>k. 0 \<le> k \<Longrightarrow> k \<noteq> i \<Longrightarrow> k \<noteq> m + 1 \<Longrightarrow> ys ! nat k = xs ! nat k" by auto
      have len: "length ys = length xs" using ys(2) by (simp add: shuffles_def)
      have piv: "ys ! nat l = xs ! nat l" using ys(5)[of l] prems by auto
      have lo: "Compare (ys ! nat k) (ys ! nat l) < 0" if "l < k" "k \<le> m + 1" for k
        using that prems(1,3,6) ys(4,5) less piv by (cases "k = m + 1") auto
      have hi: "\<not> Compare (ys ! nat k) (ys ! nat l) < 0" if "m + 1 < k" "k < i + 1" for k
        using that prems(1,2,7) ys(3,5) piv by (cases "k = i") auto
      have e: "partition_loop Compare l r i m xs = partition_loop Compare l r (i + 1) (m + 1) ys"
        using True at less ys(1) by (subst partition_loop.simps) simp
      from IH(1)[OF True at less ys(1)] lo hi prems True len obtain p zs where
        "partition_loop Compare l r (i + 1) (m + 1) ys = Inr (p, zs)" "l \<le> p" "p \<le> r" "shuffles (l + 1) r ys zs"
        "zs ! nat l = ys ! nat l" "\<forall>k. l < k \<longrightarrow> k \<le> p \<longrightarrow> Compare (zs ! nat k) (ys ! nat l) < 0"
        "\<forall>k. p < k \<longrightarrow> k \<le> r \<longrightarrow> \<not> Compare (zs ! nat k) (ys ! nat l) < 0" by auto
      then show ?thesis using e piv shuffles_trans[OF ys(2)] by auto
    qed
  qed
qed

lemma partition_range_correct:
  assumes "0 \<le> l" "l < r" "r < int (length xs)"
  shows "\<exists>p ys. partition_range Compare l r xs = Inr (p, ys) \<and> l \<le> p \<and> p \<le> r \<and> shuffles l r xs ys
     \<and> (\<forall>k. l \<le> k \<longrightarrow> k < p \<longrightarrow> Compare (ys ! nat k) (ys ! nat p) < 0)
     \<and> (\<forall>k. p < k \<longrightarrow> k \<le> r \<longrightarrow> \<not> Compare (ys ! nat k) (ys ! nat p) < 0)"
proof -
  have "l \<le> (l + r) div 2" "(l + r) div 2 \<le> r" using assms by auto
  with Swap_inside[of l l r "(l + r) div 2" xs] assms obtain xs1 where
    1: "Swap l ((l + r) div 2) xs = Inr xs1" "shuffles l r xs xs1" by auto
  have len: "length xs1 = length xs" using 1(2) by (simp add: shuffles_def)
  from partition_loop_correct[of l l "l + 1" r xs1 Compare] assms len obtain p xs2 where
    2: "partition_loop Compare l r (l + 1) l xs1 = Inr (p, xs2)" "l \<le> p" "p \<le> r" "shuffles (l + 1) r xs1 xs2"
      "xs2 ! nat l = xs1 ! nat l" "\<And>k. l < k \<Longrightarrow> k \<le> p \<Longrightarrow> Compare (xs2 ! nat k) (xs1 ! nat l) < 0"
      "\<And>k. p < k \<Longrightarrow> k \<le> r \<Longrightarrow> \<not> Compare (xs2 ! nat k) (xs1 ! nat l) < 0" by auto
  have len2: "length xs2 = length xs" using 2(4) len by (simp add: shuffles_def)
  from Swap_inside[of l l r p xs2] assms 2(2,3) len2 obtain ys where
    3: "Swap l p xs2 = Inr ys" "shuffles l r xs2 ys" "ys ! nat l = xs2 ! nat p" "ys ! nat p = xs2 ! nat l"
      "\<And>k. 0 \<le> k \<Longrightarrow> k \<noteq> l \<Longrightarrow> k \<noteq> p \<Longrightarrow> ys ! nat k = xs2 ! nat k" by auto
  have "shuffles l r xs ys"
    using 1(2) shuffles_mono[OF 2(4), of l r] 3(2) assms len by (auto intro: shuffles_trans)
  moreover have "Compare (ys ! nat k) (ys ! nat p) < 0" if "l \<le> k" "k < p" for k
    using that 2(5,6) 3(3,4,5) assms(1) by (cases "k = l") auto
  moreover have "\<not> Compare (ys ! nat k) (ys ! nat p) < 0" if "p < k" "k \<le> r" for k
    using that 2(2,5,7) 3(4,5) assms(1) by auto
  ultimately show ?thesis using 1(1) 2(1-3) 3(1) by (auto simp: partition_range_def)
qed

text \<open>Two sorted parts on the two sides of a pivot are sorted as a whole.\<close>

context strict_weak_order
begin

definition sorted_range :: "int \<Rightarrow> int \<Rightarrow> 'a list \<Rightarrow> bool" where
  "sorted_range l r xs \<longleftrightarrow> (\<forall>i j. l \<le> i \<longrightarrow> i < j \<longrightarrow> j \<le> r \<longrightarrow> not_after (xs ! nat i) (xs ! nat j))"

definition split_at :: "int \<Rightarrow> int \<Rightarrow> int \<Rightarrow> 'a list \<Rightarrow> bool" where
  "split_at l p r xs \<longleftrightarrow> (\<forall>k. l \<le> k \<longrightarrow> k < p \<longrightarrow> not_after (xs ! nat k) (xs ! nat p))
     \<and> (\<forall>k. p < k \<longrightarrow> k \<le> r \<longrightarrow> not_after (xs ! nat p) (xs ! nat k))"

lemma sorted_range_join:
  assumes "split_at l p r xs" "sorted_range l (p - 1) xs" "sorted_range (p + 1) r xs"
  shows "sorted_range l r xs"
  unfolding sorted_range_def
proof (intro allI impI)
  fix i j assume ij: "l \<le> i" "i < j" "j \<le> r"
  consider "j < p" | "j = p" | "p < i" | "i = p" | "i < p" "p < j" by linarith
  then show "not_after (xs ! nat i) (xs ! nat j)"
  proof cases
    case 5
    then have "not_after (xs ! nat i) (xs ! nat p)" "not_after (xs ! nat p) (xs ! nat j)" using assms(1) ij by (auto simp: split_at_def)
    then show ?thesis using not_less_trans unfolding not_after_def by blast
  qed (use assms ij in \<open>auto simp: split_at_def sorted_range_def\<close>)
qed

lemma split_at_shuffle:
  assumes "split_at l p r xs" "shuffles l' r' xs ys" "0 \<le> l" "l \<le> p" "p \<le> r" "r < int (length xs)"
    "l' = l \<and> r' = p - 1 \<or> l' = p + 1 \<and> r' = r"
  shows "split_at l p r ys"
proof -
  have out: "ys ! nat k = xs ! nat k" if "0 \<le> k" "k < int (length xs)" "k < l' \<or> r' < k" for k
    using assms(2) that by (auto simp: shuffles_def)
  have p: "ys ! nat p = xs ! nat p" using out[of p] assms by auto
  have "not_after (ys ! nat k) (ys ! nat p)" if "l \<le> k" "k < p" for k
  proof (cases "l' = l \<and> r' = p - 1")
    case True
    then show ?thesis using shuffles_all[OF assms(2), of "\<lambda>x. not_after x (xs ! nat p)" k] assms(1) that p by (simp add: split_at_def)
  next
    case False
    then show ?thesis using out[of k] p assms that by (auto simp: split_at_def)
  qed
  moreover have "not_after (ys ! nat p) (ys ! nat k)" if "p < k" "k \<le> r" for k
  proof (cases "l' = p + 1 \<and> r' = r")
    case True
    then show ?thesis using shuffles_all[OF assms(2), of "\<lambda>x. not_after (xs ! nat p) x" k] assms(1) that p by (simp add: split_at_def)
  next
    case False
    then show ?thesis using out[of k] p assms that by (auto simp: split_at_def)
  qed
  ultimately show ?thesis by (simp add: split_at_def)
qed

lemma sorted_range_outside:
  assumes "sorted_range l r xs" "shuffles l' r' xs ys" "r < l' \<or> r' < l" "0 \<le> l" "r < int (length xs)"
  shows "sorted_range l r ys"
proof -
  have "ys ! nat k = xs ! nat k" if "l \<le> k" "k \<le> r" for k using assms(2-5) that by (auto simp: shuffles_def)
  then show ?thesis using assms(1) by (auto simp: sorted_range_def)
qed

lemma SortRange_correct:
  assumes "0 \<le> l" "r < int (length xs)" "n = int (length xs)"
  shows "\<exists>ys. SortRange Compare n l r xs = Inr ys \<and> shuffles l r xs ys \<and> sorted_range l r ys"
  using assms
proof (induction "nat (r + 1 - l)" arbitrary: l r xs rule: less_induct)
  case less
  note prems = less.prems
  show ?case
  proof (cases "l < r")
    case False
    then have "SortRange Compare n l r xs = Inr xs" by (simp add: SortRange.simps)
    then show ?thesis using False by (auto simp: sorted_range_def)
  next
    case True
    from partition_range_correct[of l r xs Compare] prems True obtain p xs1 where
      1: "partition_range Compare l r xs = Inr (p, xs1)" "l \<le> p" "p \<le> r" "shuffles l r xs xs1"
      "\<forall>k. l \<le> k \<longrightarrow> k < p \<longrightarrow> Compare (xs1 ! nat k) (xs1 ! nat p) < 0"
      "\<forall>k. p < k \<longrightarrow> k \<le> r \<longrightarrow> \<not> Compare (xs1 ! nat k) (xs1 ! nat p) < 0" by auto
    have len: "length xs1 = length xs" using 1(4) by (simp add: shuffles_def)
    have sp: "split_at l p r xs1" using 1(5,6) less_asym by (auto simp: split_at_def not_after_def)
    have parts: "\<exists>ys zs. SortRange Compare n l1 r1 xs1 = Inr ys \<and> SortRange Compare n l2 r2 ys = Inr zs
        \<and> shuffles l r xs1 zs \<and> sorted_range l r zs"
      if lr: "l1 = l \<and> r1 = p - 1 \<and> l2 = p + 1 \<and> r2 = r \<or> l1 = p + 1 \<and> r1 = r \<and> l2 = l \<and> r2 = p - 1" for l1 r1 l2 r2
    proof -
      have b: "0 \<le> l1" "r1 < int (length xs1)" "0 \<le> l2" "r2 < int (length xs1)" "l \<le> l1" "r1 \<le> r" "l \<le> l2" "r2 \<le> r"
        "nat (r1 + 1 - l1) < nat (r + 1 - l)" "nat (r2 + 1 - l2) < nat (r + 1 - l)" "r1 < l2 \<or> r2 < l1"
        using lr prems True 1(2,3) len by auto
      from less.hyps[OF b(9,1,2)] prems(3) len obtain ys where
        ys: "SortRange Compare n l1 r1 xs1 = Inr ys" "shuffles l1 r1 xs1 ys" "sorted_range l1 r1 ys" by auto
      have leny: "length ys = length xs1" using ys(2) by (simp add: shuffles_def)
      from less.hyps[OF b(10,3), of ys] b(4) prems(3) len leny obtain zs where
        zs: "SortRange Compare n l2 r2 ys = Inr zs" "shuffles l2 r2 ys zs" "sorted_range l2 r2 zs" by auto
      have sh: "shuffles l r xs1 zs"
        using shuffles_mono[OF ys(2), of l r] shuffles_mono[OF zs(2), of l r] b prems leny len by (auto intro: shuffles_trans)
      have s1: "sorted_range l1 r1 zs" using sorted_range_outside[OF ys(3) zs(2)] b leny by auto
      have "split_at l p r ys" using split_at_shuffle[OF sp ys(2)] lr prems 1(2,3) len by auto
      then have "split_at l p r zs" using split_at_shuffle[OF _ zs(2)] lr prems 1(2,3) len leny by auto
      then have "sorted_range l r zs" using sorted_range_join lr s1 zs(3) by blast
      then show ?thesis using ys(1) zs(1) sh by blast
    qed
    have e: "SortRange Compare n l r xs =
       (if p - 1 - l < r - (p + 1) then rbind (SortRange Compare n l (p - 1) xs1) (SortRange Compare n (p + 1) r)
        else rbind (SortRange Compare n (p + 1) r xs1) (SortRange Compare n l (p - 1)))"
      using True prems 1(1) by (subst SortRange.simps) simp
    show ?thesis
      using parts[of l "p - 1" "p + 1" r] parts[of "p + 1" r l "p - 1"] e 1(4) by (auto intro: shuffles_trans)
  qed
qed

lemma Sort_sorts: "\<exists>ys. Sort Compare xs = Inr ys \<and> mset ys = mset xs \<and> sorted_wrt not_after ys"
proof -
  obtain ys where ys: "Sort Compare xs = Inr ys" "shuffles 0 (int (length xs) - 1) xs ys" "sorted_range 0 (int (length xs) - 1) ys"
    using SortRange_correct[of 0 "int (length xs) - 1" xs "int (length xs)"] by (auto simp: Sort_def)
  have len: "length ys = length xs" using ys(2) by (simp add: shuffles_def)
  have "not_after (ys ! i) (ys ! j)" if "i < j" "j < length ys" for i j
    using ys(3)[unfolded sorted_range_def, rule_format, of "int i" "int j"] that len by simp
  then show ?thesis using ys(1,2) by (auto simp: shuffles_def sorted_wrt_iff_nth_less)
qed

end

lemma memcmp_less_asym: "memcmp a b < 0 \<Longrightarrow> \<not> memcmp b a < 0"
  by (induction a b rule: memcmp.induct) (auto split: if_splits)

lemma memcmp_not_less_trans: "\<not> memcmp b a < 0 \<Longrightarrow> \<not> memcmp c b < 0 \<Longrightarrow> \<not> memcmp c a < 0"
proof (induction a b arbitrary: c rule: memcmp.induct)
  case (1 a as b bs)
  then show ?case by (cases c) (auto split: if_splits)
next
  case (3 b bs)
  then show ?case by (cases c) (auto split: if_splits)
qed (cases c, auto)+

interpretation bytewise: strict_weak_order memcmp
  by unfold_locales (rule memcmp_less_asym memcmp_not_less_trans; assumption)+

subsection \<open>Properties\<close>

text \<open>C35: \<open>CQuickSort::Sort\<close> sorts: for a comparison that is a strict weak order it returns, no index
  assertion fails, the result is a permutation of the array and no element comes before one that is
  smaller.\<close>

theorem quicksort_sorts:
  assumes "strict_weak_order Compare"
  shows "\<exists>ys. Sort Compare xs = Inr ys \<and> mset ys = mset xs \<and> sorted_wrt (\<lambda>a b. \<not> Compare b a < 0) ys"
proof -
  have "strict_weak_order.not_after Compare = (\<lambda>a b. \<not> Compare b a < 0)"
    by (intro ext) (simp add: strict_weak_order.not_after_def[OF assms])
  then show ?thesis using strict_weak_order.Sort_sorts[OF assms, of xs] by simp
qed

theorem quicksort_sorts_witness:
  "\<exists>ys. Sort memcmp [[3, 1], [1, 2], [2, 9]] = Inr ys \<and> mset ys = mset [[3, 1], [1, 2], [2, 9]]
     \<and> sorted_wrt (\<lambda>a b. \<not> memcmp b a < 0) ys"
  using quicksort_sorts[OF bytewise.strict_weak_order_axioms] .

end
