(* ===== verification/GcContainers.thy ===== *)
theory GcContainers
  imports Prelude
begin

unbundle bit_operations_syntax

section \<open>The containers of the GC info library\<close>

text \<open>
  The utilities of include/GcInfo/GcInfoUtil.h and lib/GcInfo/GcInfoUtil.cpp on which the encoder of the
  GC information rests: the intrusive singly linked list \<open>SList\<close> over an explicit store of links, the
  chunked \<open>StructArrayList\<close> with its growth and its clamping of chunk sizes in 64-bit arithmetic, the
  perfect hash \<open>BitPosition\<close>, the alignment helpers and the conversion check \<open>FitsIn\<close>. The properties
  are refinements: the linked list implements a queue, the chunked list implements a list.
\<close>

subsection \<open>SList\<close>

text \<open>A link is the sentinel inside the list or the link field of an object.\<close>

datatype SLinkPtr = Sentinel | LinkOf nat

record SList =
  m_pNext :: "SLinkPtr \<Rightarrow> SLinkPtr option"
  m_pHead :: SLinkPtr
  m_pTail :: SLinkPtr

definition SList_new :: "(SLinkPtr \<Rightarrow> SLinkPtr option) \<Rightarrow> SList" where
  "SList_new links = \<lparr>m_pNext = links(Sentinel := None), m_pHead = Sentinel, m_pTail = Sentinel\<rparr>"

definition GetObject :: "SLinkPtr option \<Rightarrow> nat option" where
  "GetObject pLink = (case pLink of Some (LinkOf x) \<Rightarrow> Some x | _ \<Rightarrow> None)"

definition IsEmpty :: "SList \<Rightarrow> bool" where
  "IsEmpty s = (m_pNext s (m_pHead s) = None)"

definition InsertTail :: "nat \<Rightarrow> SList \<Rightarrow> SList" where
  "InsertTail pObj s = s\<lparr>m_pNext := (m_pNext s)(m_pTail s := Some (LinkOf pObj)), m_pTail := LinkOf pObj\<rparr>"

definition RemoveHead :: "SList \<Rightarrow> nat option \<times> SList" where
  "RemoveHead s = (let pLink = m_pNext s (m_pHead s);
      s1 = (case pLink of None \<Rightarrow> s | Some l \<Rightarrow> s\<lparr>m_pNext := (m_pNext s)(m_pHead s := m_pNext s l)\<rparr>);
      s2 = (if Some (m_pTail s1) = pLink then s1\<lparr>m_pTail := m_pHead s1\<rparr> else s1)
    in (GetObject pLink, s2))"

definition GetHead :: "SList \<Rightarrow> nat option" where
  "GetHead s = GetObject (m_pNext s (m_pHead s))"

definition GetNext :: "nat \<Rightarrow> SList \<Rightarrow> nat option" where
  "GetNext pObj s = GetObject (m_pNext s (LinkOf pObj))"

definition InsertAfter :: "SLinkPtr \<Rightarrow> SLinkPtr \<Rightarrow> SList \<Rightarrow> SList result" where
  "InsertAfter this pLinkToInsert s = rbind (rassert ''m_pNext'' (m_pNext s pLinkToInsert = None)) (\<lambda>_.
     let pTemp = m_pNext s this in Inr (s\<lparr>m_pNext := (m_pNext s)(this := Some pLinkToInsert, pLinkToInsert := pTemp)\<rparr>))"

text \<open>The objects from a link on.\<close>

fun chain :: "(SLinkPtr \<Rightarrow> SLinkPtr option) \<Rightarrow> SLinkPtr \<Rightarrow> nat list \<Rightarrow> bool" where
  "chain next p [] \<longleftrightarrow> next p = None"
| "chain next p (x # xs) \<longleftrightarrow> next p = Some (LinkOf x) \<and> chain next (LinkOf x) xs"

definition tail_link :: "nat list \<Rightarrow> SLinkPtr" where
  "tail_link xs = (if xs = [] then Sentinel else LinkOf (last xs))"

definition represents :: "SList \<Rightarrow> nat list \<Rightarrow> bool" where
  "represents s xs \<longleftrightarrow> m_pHead s = Sentinel \<and> m_pTail s = tail_link xs \<and> chain (m_pNext s) Sentinel xs \<and> distinct xs"

text \<open>The contract: a first-in first-out queue, into which an object goes that is not in it and whose
  link is null.\<close>

datatype QueueOp = Insert nat | Remove

fun run_slist :: "QueueOp list \<Rightarrow> SList \<Rightarrow> nat option list \<times> SList" where
  "run_slist [] s = ([], s)"
| "run_slist (Insert x # ops) s = run_slist ops (InsertTail x s)"
| "run_slist (Remove # ops) s = (let (x, s1) = RemoveHead s; (xs, s2) = run_slist ops s1 in (x # xs, s2))"

fun run_queue :: "QueueOp list \<Rightarrow> nat list \<Rightarrow> nat option list \<times> nat list" where
  "run_queue [] q = ([], q)"
| "run_queue (Insert x # ops) q = run_queue ops (q @ [x])"
| "run_queue (Remove # ops) [] = (let (xs, q) = run_queue ops [] in (None # xs, q))"
| "run_queue (Remove # ops) (y # q) = (let (xs, q) = run_queue ops q in (Some y # xs, q))"

definition inserted :: "QueueOp list \<Rightarrow> nat list" where
  "inserted ops = concat (map (\<lambda>op. case op of Insert x \<Rightarrow> [x] | Remove \<Rightarrow> []) ops)"

lemma inserted_simps [simp]: "inserted [] = []" "inserted (Insert x # ops) = x # inserted ops" "inserted (Remove # ops) = inserted ops"
  by (simp_all add: inserted_def)

lemma chain_frame: "chain next p xs \<Longrightarrow> q \<noteq> p \<Longrightarrow> q \<notin> LinkOf ` set xs \<Longrightarrow> chain (next(q := v)) p xs"
  by (induction xs arbitrary: p) auto

lemma chain_snoc:
  assumes "chain next p xs" "distinct xs" "x \<notin> set xs" "next (LinkOf x) = None" "p \<notin> LinkOf ` set xs" "p \<noteq> LinkOf x"
  shows "chain (next((if xs = [] then p else LinkOf (last xs)) := Some (LinkOf x))) p (xs @ [x])"
  using assms
proof (induction xs arbitrary: p)
  case (Cons y ys)
  have "LinkOf y \<notin> LinkOf ` set ys" "LinkOf y \<noteq> LinkOf x" using Cons.prems(2,3) by auto
  then have IH: "chain (next((if ys = [] then LinkOf y else LinkOf (last ys)) := Some (LinkOf x))) (LinkOf y) (ys @ [x])"
    using Cons.prems by (intro Cons.IH) auto
  have "p \<noteq> (if ys = [] then LinkOf y else LinkOf (last ys))" using Cons.prems(5) by auto
  then show ?case using Cons.prems(1) IH by (cases "ys = []") (simp_all add: fun_upd_def)
qed simp

lemma represents_new: "represents (SList_new links) []"
  by (simp add: represents_def SList_new_def tail_link_def)

lemma represents_insert:
  assumes "represents s xs" "x \<notin> set xs" "m_pNext s (LinkOf x) = None"
  shows "represents (InsertTail x s) (xs @ [x])"
  using assms chain_snoc[of "m_pNext s" Sentinel xs x]
  by (simp add: represents_def InsertTail_def tail_link_def image_iff)

lemma represents_remove_empty: "represents s [] \<Longrightarrow> RemoveHead s = (None, s)"
  by (simp add: represents_def RemoveHead_def GetObject_def tail_link_def)

lemma represents_remove:
  assumes "represents s (x # xs)"
  shows "fst (RemoveHead s) = Some x \<and> represents (snd (RemoveHead s)) xs"
proof -
  have n: "m_pHead s = Sentinel" "m_pNext s Sentinel = Some (LinkOf x)" "chain (m_pNext s) (LinkOf x) xs" "distinct xs" "x \<notin> set xs"
    "m_pTail s = LinkOf (last (x # xs))"
    using assms by (auto simp: represents_def tail_link_def)
  have "chain ((m_pNext s)(Sentinel := m_pNext s (LinkOf x))) Sentinel xs"
    using n(3) chain_frame[of "m_pNext s"] by (cases xs) (auto intro: chain_frame)
  moreover have "last xs \<noteq> x" if "xs \<noteq> []" using that n(5) by (metis last_in_set)
  ultimately show ?thesis using n by (auto simp: RemoveHead_def Let_def GetObject_def represents_def tail_link_def)
qed

lemma remove_links: "m_pNext (snd (RemoveHead s)) (LinkOf y) = m_pNext s (LinkOf y) \<or> m_pHead s = LinkOf y"
  by (auto simp: RemoveHead_def Let_def split: option.splits)

lemma insert_links: "m_pTail s \<noteq> LinkOf y \<Longrightarrow> m_pNext (InsertTail x s) (LinkOf y) = m_pNext s (LinkOf y)"
  by (simp add: InsertTail_def)

lemma run_slist_queue:
  assumes "represents s q" "distinct (inserted ops)" "set q \<inter> set (inserted ops) = {}"
    "\<forall>x \<in> set (inserted ops). m_pNext s (LinkOf x) = None"
  shows "fst (run_slist ops s) = fst (run_queue ops q) \<and> represents (snd (run_slist ops s)) (snd (run_queue ops q))"
  using assms
proof (induction ops q arbitrary: s rule: run_queue.induct)
  case (2 x ops q)
  have "represents (InsertTail x s) (q @ [x])" using 2(2-5) by (intro represents_insert) auto
  moreover have "\<forall>y \<in> set (inserted ops). m_pNext (InsertTail x s) (LinkOf y) = None"
  proof
    fix y assume y: "y \<in> set (inserted ops)"
    have "last q \<notin> set (inserted ops)" if "q \<noteq> []" using last_in_set[OF that] 2(4) by auto
    then have "m_pTail s \<noteq> LinkOf y" using 2(2) y by (auto simp: represents_def tail_link_def)
    then show "m_pNext (InsertTail x s) (LinkOf y) = None" using 2(5) y by (simp add: insert_links)
  qed
  ultimately show ?case using 2 by auto
next
  case (3 ops)
  then show ?case using 3(1)[OF 3(2)] by (simp add: represents_remove_empty case_prod_beta)
next
  case (4 ops y q)
  have r: "fst (RemoveHead s) = Some y" "represents (snd (RemoveHead s)) q" using represents_remove[OF 4(2)] by auto
  have "m_pHead s = Sentinel" using 4(2) by (simp add: represents_def)
  then have "\<forall>x \<in> set (inserted ops). m_pNext (snd (RemoveHead s)) (LinkOf x) = None" using remove_links[of s] 4(5) by auto
  then show ?case using 4(1)[OF r(2)] 4(3,4) r(1) by (auto split: prod.splits)
qed simp

lemma slist_reinsert_cycle:
  assumes "a \<noteq> b"
  defines "s \<equiv> snd (run_slist [Insert a, Insert b, Remove, Insert a] (SList_new (\<lambda>_. None)))"
  shows "GetHead s = Some b \<and> GetNext b s = Some a \<and> GetNext a s = Some b"
  using assms by (simp add: SList_new_def InsertTail_def RemoveHead_def GetHead_def GetNext_def GetObject_def)

subsection \<open>StructArrayList\<close>

definition IS_ALIGNED :: "u64 \<Rightarrow> u64 \<Rightarrow> bool result" where
  "IS_ALIGNED val alignment = rbind (rassert ''alignment'' (alignment AND (alignment - 1) = 0)) (\<lambda>_. Inr (val AND (alignment - 1) = 0))"

definition roundUp :: "u64 \<Rightarrow> u64 \<Rightarrow> u64 result" where
  "roundUp sz mult = rbind (rassert ''mult'' (mult \<noteq> 0 \<and> mult AND (mult - 1) = 0)) (\<lambda>_.
     Inr ((sz + (mult - 1)) AND NOT (mult - 1)))"

record ArrayListParams =
  INITIAL_CHUNK_LENGTH :: nat
  CHUNK_LENGTH_GROWTH_FACTOR :: nat
  sizeof_element :: nat
  alignof_element :: u64

text \<open>The chunks in the order of the list; \<open>None\<close> is an element that has not been written.\<close>

record 'a ArrayList =
  chunks :: "'a option list list"
  m_nItemsInLastChunk :: nat
  m_nTotalItems :: nat
  m_nLastChunkCapacity :: nat

definition ArrayList_new :: "'a ArrayList" where
  "ArrayList_new = \<lparr>chunks = [], m_nItemsInLastChunk = 0, m_nTotalItems = 0, m_nLastChunkCapacity = 0\<rparr>"

definition max_chunk_capacity :: "u64 \<Rightarrow> nat \<Rightarrow> nat" where
  "max_chunk_capacity cbBaseSize cbElement = (2 ^ 64 - 1 - unat cbBaseSize) div cbElement"

definition CreateNewChunk :: "ArrayListParams \<Rightarrow> 'a ArrayList \<Rightarrow> 'a ArrayList result" where
  "CreateNewChunk P s =
     rbind (rassert ''InitialChunkLength'' (INITIAL_CHUNK_LENGTH P > 0)) (\<lambda>_.
     rbind (rassert ''ChunkLengthGrowthFactor'' (CHUNK_LENGTH_GROWTH_FACTOR P > 0)) (\<lambda>_.
     rbind (rassert ''cbElement'' (sizeof_element P > 0)) (\<lambda>_.
     rbind (roundUp 8 (alignof_element P)) (\<lambda>cbBaseSize.
     let maxChunkCapacity = max_chunk_capacity cbBaseSize (sizeof_element P) in
     rbind (rassert ''maxChunkCapacity'' (maxChunkCapacity > 0)) (\<lambda>_.
     let n = (if chunks s = [] then INITIAL_CHUNK_LENGTH P else (m_nLastChunkCapacity s * CHUNK_LENGTH_GROWTH_FACTOR P) mod 2 ^ 64);
         nChunkCapacity = (if n > maxChunkCapacity then maxChunkCapacity else n)
     in Inr (s\<lparr>chunks := chunks s @ [replicate nChunkCapacity None], m_nItemsInLastChunk := 0, m_nLastChunkCapacity := nChunkCapacity\<rparr>))))))"

definition AppendThrowing :: "ArrayListParams \<Rightarrow> 'a ArrayList \<Rightarrow> ((nat \<times> nat) \<times> 'a ArrayList) result" where
  "AppendThrowing P s =
     rbind (if chunks s = [] \<or> m_nItemsInLastChunk s = m_nLastChunkCapacity s then CreateNewChunk P s else Inr s) (\<lambda>s.
       Inr ((length (chunks s) - 1, m_nItemsInLastChunk s),
         s\<lparr>m_nTotalItems := m_nTotalItems s + 1, m_nItemsInLastChunk := m_nItemsInLastChunk s + 1\<rparr>))"

text \<open>The caller's store through the pointer that \<open>AppendThrowing\<close> returns.\<close>

definition store_element :: "nat \<times> nat \<Rightarrow> 'a \<Rightarrow> 'a ArrayList \<Rightarrow> 'a ArrayList result" where
  "store_element p v s = rbind (array_get ''chunk'' (chunks s) (fst p)) (\<lambda>c.
     rbind (array_put ''rgItems'' c (snd p) (Some v)) (\<lambda>c'. Inr (s\<lparr>chunks := (chunks s)[fst p := c']\<rparr>)))"

definition Append :: "ArrayListParams \<Rightarrow> 'a \<Rightarrow> 'a ArrayList \<Rightarrow> 'a ArrayList result" where
  "Append P v s = rbind (AppendThrowing P s) (\<lambda>(p, s). store_element p v s)"

fun append_all :: "ArrayListParams \<Rightarrow> 'a list \<Rightarrow> 'a ArrayList \<Rightarrow> 'a ArrayList result" where
  "append_all P [] s = Inr s"
| "append_all P (v # vs) s = rbind (Append P v s) (append_all P vs)"

definition Count :: "'a ArrayList \<Rightarrow> nat" where
  "Count s = m_nTotalItems s"

text \<open>The pairs that the calls of \<open>ArrayIterator::GetNext\<close> return: each chunk with the number of its
  items. The capacity of a chunk is not stored in it: the iterator computes it again.\<close>

fun iterate :: "nat \<Rightarrow> nat \<Rightarrow> nat \<Rightarrow> 'a option list list \<Rightarrow> ('a option list \<times> nat) list" where
  "iterate growth itemsInLast capacity [] = []"
| "iterate growth itemsInLast capacity (c # cs) =
     (c, if cs = [] then itemsInLast else capacity) # iterate growth itemsInLast ((capacity * growth) mod 2 ^ 64) cs"

definition ArrayIterator :: "ArrayListParams \<Rightarrow> 'a ArrayList \<Rightarrow> ('a option list \<times> nat) list" where
  "ArrayIterator P s = iterate (CHUNK_LENGTH_GROWTH_FACTOR P) (m_nItemsInLastChunk s) (INITIAL_CHUNK_LENGTH P) (chunks s)"

fun copy_chunks :: "('a option list \<times> nat) list \<Rightarrow> 'a option list result" where
  "copy_chunks [] = Inr []"
| "copy_chunks ((pSrc, nSrc) # it) = (if nSrc \<le> length pSrc then rbind (copy_chunks it) (\<lambda>rest. Inr (take nSrc pSrc @ rest))
     else Inl (OutOfBounds ''rgItems'' nSrc))"

definition CopyTo :: "ArrayListParams \<Rightarrow> 'a ArrayList \<Rightarrow> 'a option list result" where
  "CopyTo P s = copy_chunks (ArrayIterator P s)"

fun index_chunks :: "nat \<Rightarrow> nat \<Rightarrow> ('a option list \<times> nat) list \<Rightarrow> 'a option result" where
  "index_chunks index chunkBaseIndex [] = Inl (AssertFailed ''Should never reach here'')"
| "index_chunks index chunkBaseIndex ((chunk, count) # it) =
     (if chunkBaseIndex + count > index then array_get ''rgItems'' chunk (index - chunkBaseIndex)
      else index_chunks index (chunkBaseIndex + count) it)"

definition GetIndex :: "ArrayListParams \<Rightarrow> nat \<Rightarrow> 'a ArrayList \<Rightarrow> 'a option result" where
  "GetIndex P index s = index_chunks index 0 (ArrayIterator P s)"

definition maxChunkCapacity :: "ArrayListParams \<Rightarrow> nat" where
  "maxChunkCapacity P = max_chunk_capacity ((8 + (alignof_element P - 1)) AND NOT (alignof_element P - 1)) (sizeof_element P)"

definition params_ok :: "ArrayListParams \<Rightarrow> bool" where
  "params_ok P \<longleftrightarrow> INITIAL_CHUNK_LENGTH P > 0 \<and> CHUNK_LENGTH_GROWTH_FACTOR P > 0 \<and> sizeof_element P > 0
     \<and> alignof_element P \<noteq> 0 \<and> alignof_element P AND (alignof_element P - 1) = 0 \<and> INITIAL_CHUNK_LENGTH P \<le> maxChunkCapacity P"

fun chunked :: "nat \<Rightarrow> nat \<Rightarrow> nat \<Rightarrow> 'a option list list \<Rightarrow> 'a list \<Rightarrow> bool" where
  "chunked G cap n [] vs \<longleftrightarrow> vs = []"
| "chunked G cap n [c] vs \<longleftrightarrow> length c = cap \<and> n \<le> cap \<and> take n c = map Some vs"
| "chunked G cap n (c # cs) vs \<longleftrightarrow> length c = cap \<and> cap \<le> length vs \<and> c = map Some (take cap vs) \<and> chunked G (cap * G) n cs (drop cap vs)"

definition contains_items :: "ArrayListParams \<Rightarrow> 'a ArrayList \<Rightarrow> 'a list \<Rightarrow> bool" where
  "contains_items P s vs \<longleftrightarrow> m_nTotalItems s = length vs
     \<and> chunked (CHUNK_LENGTH_GROWTH_FACTOR P) (INITIAL_CHUNK_LENGTH P) (m_nItemsInLastChunk s) (chunks s) vs
     \<and> (\<forall>c \<in> set (chunks s). 0 < length c \<and> length c \<le> maxChunkCapacity P)
     \<and> (chunks s \<noteq> [] \<longrightarrow> m_nLastChunkCapacity s = length (last (chunks s)))"

definition sample_params :: ArrayListParams where
  "sample_params = \<lparr>INITIAL_CHUNK_LENGTH = 2, CHUNK_LENGTH_GROWTH_FACTOR = 2, sizeof_element = 4, alignof_element = 4\<rparr>"

lemma maxChunkCapacity_bound: "sizeof_element P > 0 \<Longrightarrow> maxChunkCapacity P < 2 ^ 64"
proof -
  have "maxChunkCapacity P \<le> 2 ^ 64 - 1" unfolding maxChunkCapacity_def max_chunk_capacity_def by (rule order_trans[OF div_le_dividend]) simp
  then show ?thesis by simp
qed

lemma CreateNewChunk_ok:
  assumes "params_ok P" "chunks s \<noteq> [] \<Longrightarrow> m_nLastChunkCapacity s * CHUNK_LENGTH_GROWTH_FACTOR P \<le> maxChunkCapacity P"
  shows "CreateNewChunk P s = (let n = (if chunks s = [] then INITIAL_CHUNK_LENGTH P else m_nLastChunkCapacity s * CHUNK_LENGTH_GROWTH_FACTOR P)
     in Inr (s\<lparr>chunks := chunks s @ [replicate n None], m_nItemsInLastChunk := 0, m_nLastChunkCapacity := n\<rparr>))"
proof -
  have r: "roundUp 8 (alignof_element P) = Inr ((8 + (alignof_element P - 1)) AND NOT (alignof_element P - 1))"
    using assms(1) by (simp add: params_ok_def roundUp_def)
  have m: "max_chunk_capacity ((8 + (alignof_element P - 1)) AND NOT (alignof_element P - 1)) (sizeof_element P) = maxChunkCapacity P"
    by (simp add: maxChunkCapacity_def)
  have b: "maxChunkCapacity P < 2 ^ 64" "0 < maxChunkCapacity P" "INITIAL_CHUNK_LENGTH P \<le> maxChunkCapacity P"
    using maxChunkCapacity_bound assms(1) by (auto simp: params_ok_def)
  have nw: "(m_nLastChunkCapacity s * CHUNK_LENGTH_GROWTH_FACTOR P) mod 2 ^ 64 = m_nLastChunkCapacity s * CHUNK_LENGTH_GROWTH_FACTOR P"
    if "chunks s \<noteq> []" using assms(2)[OF that] b(1) by (intro mod_less) linarith
  have p: "INITIAL_CHUNK_LENGTH P > 0" "CHUNK_LENGTH_GROWTH_FACTOR P > 0" "sizeof_element P > 0" using assms(1) by (auto simp: params_ok_def)
  show ?thesis unfolding CreateNewChunk_def r rbind_simps m Let_def using b p assms(2) nw by (cases "chunks s = []") (simp_all add: not_less)
qed

lemma chunked_grow:
  "chunked G cap n cs vs \<Longrightarrow> cs \<noteq> [] \<Longrightarrow> n = length (last cs) \<Longrightarrow> chunked G cap 0 (cs @ [replicate (length (last cs) * G) None]) vs"
proof (induction G cap n cs vs rule: chunked.induct)
  case (2 G cap n c vs)
  then have "c = map Some vs" by simp
  then show ?case using 2 by simp
qed auto

lemma chunked_store:
  "chunked G cap n cs vs \<Longrightarrow> cs \<noteq> [] \<Longrightarrow> n < length (last cs) \<Longrightarrow>
    chunked G cap (n + 1) (cs[length cs - 1 := (last cs)[n := Some v]]) (vs @ [v])"
proof (induction G cap n cs vs rule: chunked.induct)
  case (2 G cap n c vs)
  then show ?case by (auto simp: take_Suc_conv_app_nth)
next
  case (3 G cap n c c2 cs vs)
  then show ?case by (cases "(c2 # cs)[length cs := (last (c2 # cs))[n := Some v]]") auto
qed auto

lemma chunked_last_length:
  "chunked G cap n cs vs \<Longrightarrow> cs \<noteq> [] \<Longrightarrow> n \<le> length (last cs) \<and> n \<le> length vs"
proof (induction G cap n cs vs rule: chunked.induct)
  case (2 G cap n c vs)
  then have "length (take n c) = length vs" by simp
  then show ?case using 2 by auto
qed auto

lemma chunked_copy:
  "chunked G cap n cs vs \<Longrightarrow> \<forall>c \<in> set cs. length c < 2 ^ 64 \<Longrightarrow> copy_chunks (iterate G n cap cs) = Inr (map Some vs)"
proof (induction G cap n cs vs rule: chunked.induct)
  case (3 G cap n c c2 cs vs)
  have l: "length c2 = cap * G" using 3(2) by (cases cs) auto
  then have "(cap * G) mod 2 ^ 64 = cap * G" using 3(3) by auto
  then show ?case using 3 by (auto simp: take_map[symmetric] drop_map[symmetric])
qed auto

lemma chunked_index:
  "chunked G cap n cs vs \<Longrightarrow> \<forall>c \<in> set cs. length c < 2 ^ 64 \<Longrightarrow> i < length vs \<Longrightarrow>
    index_chunks (base + i) base (iterate G n cap cs) = Inr (Some (vs ! i))"
proof (induction G cap n cs vs arbitrary: i base rule: chunked.induct)
  case (2 G cap n c vs)
  then have "length vs = n" by (metis chunked.simps(2) length_map length_take min.absorb2)
  moreover have "c ! i = Some (vs ! i)" using 2 \<open>length vs = n\<close> by (metis chunked.simps(2) nth_map nth_take)
  ultimately show ?case using 2 by simp
next
  case (3 G cap n c c2 cs vs)
  have l: "length c2 = cap * G" using 3(2) by (cases cs) auto
  then have nw: "(cap * G) mod 2 ^ 64 = cap * G" using 3(3) by auto
  show ?case
  proof (cases "i < cap")
    case True
    then show ?thesis using 3(2) by auto
  next
    case False
    then show ?thesis using 3(1)[of "i - cap" "base + cap"] 3(2-4) nw by (auto simp: add.commute)
  qed
qed auto

lemma Append_ok:
  assumes "params_ok P" "contains_items P s vs" "length vs * CHUNK_LENGTH_GROWTH_FACTOR P \<le> maxChunkCapacity P"
  shows "\<exists>s'. Append P v s = Inr s' \<and> contains_items P s' (vs @ [v])"
proof -
  let ?G = "CHUNK_LENGTH_GROWTH_FACTOR P" and ?full = "chunks s = [] \<or> m_nItemsInLastChunk s = m_nLastChunkCapacity s"
  have pos: "0 < INITIAL_CHUNK_LENGTH P" "0 < ?G" "INITIAL_CHUNK_LENGTH P \<le> maxChunkCapacity P" using assms(1) by (auto simp: params_ok_def)
  obtain s1 where s1: "(if ?full then CreateNewChunk P s else Inr s) = Inr s1" "contains_items P s1 vs" "chunks s1 \<noteq> []"
    "m_nItemsInLastChunk s1 < length (last (chunks s1))"
  proof (cases ?full)
    case False
    then have "m_nItemsInLastChunk s < length (last (chunks s))"
      using assms(2) chunked_last_length[of ?G "INITIAL_CHUNK_LENGTH P" "m_nItemsInLastChunk s" "chunks s" vs] by (simp add: contains_items_def)
    then show ?thesis using that[of s] assms(2) False by simp
  next
    case True
    have le: "m_nLastChunkCapacity s \<le> length vs" if "chunks s \<noteq> []"
      using True that assms(2) chunked_last_length[of ?G _ "m_nItemsInLastChunk s" "chunks s" vs] by (auto simp: contains_items_def)
    then have cap: "m_nLastChunkCapacity s * ?G \<le> maxChunkCapacity P" if "chunks s \<noteq> []"
      using that assms(3) by (meson mult_le_mono1 order_trans)
    have lp: "0 < m_nLastChunkCapacity s" if "chunks s \<noteq> []" using that assms(2) by (auto simp: contains_items_def)
    show ?thesis
    proof (cases "chunks s = []")
      case empty: True
      let ?s = "s\<lparr>chunks := [replicate (INITIAL_CHUNK_LENGTH P) None], m_nItemsInLastChunk := 0, m_nLastChunkCapacity := INITIAL_CHUNK_LENGTH P\<rparr>"
      have "CreateNewChunk P s = Inr ?s" using CreateNewChunk_ok[OF assms(1), of s] empty by (simp add: Let_def)
      moreover have "contains_items P ?s vs" using assms(2) empty pos by (simp add: contains_items_def)
      ultimately show ?thesis using that[of ?s] empty pos by simp
    next
      case False
      let ?n = "m_nLastChunkCapacity s * ?G"
      let ?s = "s\<lparr>chunks := chunks s @ [replicate ?n None], m_nItemsInLastChunk := 0, m_nLastChunkCapacity := ?n\<rparr>"
      have "CreateNewChunk P s = Inr ?s" using CreateNewChunk_ok[OF assms(1) cap] False by (simp add: Let_def)
      moreover have "contains_items P ?s vs"
        using assms(2) False True cap[OF False] lp[OF False] pos
          chunked_grow[of ?G "INITIAL_CHUNK_LENGTH P" "m_nItemsInLastChunk s" "chunks s" vs]
        by (auto simp: contains_items_def)
      ultimately show ?thesis using that[of ?s] True lp[OF False] pos by simp
    qed
  qed
  let ?c = "(last (chunks s1))[m_nItemsInLastChunk s1 := Some v]"
  let ?s = "s1\<lparr>m_nTotalItems := m_nTotalItems s1 + 1, m_nItemsInLastChunk := m_nItemsInLastChunk s1 + 1,
     chunks := (chunks s1)[length (chunks s1) - 1 := ?c]\<rparr>"
  have "Append P v s = Inr ?s" using s1
    by (simp add: Append_def AppendThrowing_def store_element_def last_conv_nth)
  moreover have "contains_items P ?s (vs @ [v])"
  proof -
    have "chunked ?G (INITIAL_CHUNK_LENGTH P) (m_nItemsInLastChunk s1 + 1) ((chunks s1)[length (chunks s1) - 1 := ?c]) (vs @ [v])"
      using s1 by (intro chunked_store) (auto simp: contains_items_def)
    moreover have "\<forall>c \<in> insert ?c (set (chunks s1)). 0 < length c \<and> length c \<le> maxChunkCapacity P"
      using s1(2) last_in_set[OF s1(3)] unfolding contains_items_def by simp
    then have "\<forall>c \<in> set ((chunks s1)[length (chunks s1) - 1 := ?c]). 0 < length c \<and> length c \<le> maxChunkCapacity P"
      using set_update_subset_insert[of "chunks s1" "length (chunks s1) - 1" ?c] by blast
    moreover have "last ((chunks s1)[length (chunks s1) - 1 := ?c]) = ?c" using s1(3) by (simp add: last_conv_nth)
    ultimately show ?thesis using s1 by (simp add: contains_items_def)
  qed
  ultimately show ?thesis by blast
qed

lemma append_all_ok:
  assumes "params_ok P" "contains_items P s us" "length (us @ vs) * CHUNK_LENGTH_GROWTH_FACTOR P \<le> maxChunkCapacity P"
  shows "\<exists>s'. append_all P vs s = Inr s' \<and> contains_items P s' (us @ vs)"
  using assms(2,3)
proof (induction vs arbitrary: s us)
  case (Cons v vs)
  have "length us * CHUNK_LENGTH_GROWTH_FACTOR P \<le> maxChunkCapacity P" using Cons.prems(2) by (simp add: algebra_simps)
  from Append_ok[OF assms(1) Cons.prems(1) this, of v] obtain s1 where "Append P v s = Inr s1" "contains_items P s1 (us @ [v])" by blast
  with Cons.IH[of s1 "us @ [v]"] Cons.prems(2) show ?case by simp
qed simp

lemma contains_items_reads:
  assumes "params_ok P" "contains_items P s vs"
  shows "Count s = length vs" "CopyTo P s = Inr (map Some vs)" "i < length vs \<Longrightarrow> GetIndex P i s = Inr (Some (vs ! i))"
proof -
  have b: "\<forall>c \<in> set (chunks s). length c < 2 ^ 64" using assms maxChunkCapacity_bound[of P] by (fastforce simp: contains_items_def params_ok_def)
  show "Count s = length vs" using assms by (simp add: Count_def contains_items_def)
  show "CopyTo P s = Inr (map Some vs)" using assms chunked_copy[OF _ b] by (simp add: CopyTo_def ArrayIterator_def contains_items_def)
  show "GetIndex P i s = Inr (Some (vs ! i))" if "i < length vs"
    using assms chunked_index[OF _ b that, of _ _ _ 0] by (simp add: GetIndex_def ArrayIterator_def contains_items_def)
qed

lemma contains_items_new: "contains_items P ArrayList_new []"
  by (simp add: contains_items_def ArrayList_new_def)

lemma array_list_clamp_mismatch:
  "(case append_all \<lparr>INITIAL_CHUNK_LENGTH = 2, CHUNK_LENGTH_GROWTH_FACTOR = 2, sizeof_element = 2 ^ 62, alignof_element = 8\<rparr> [1, 2, 3, 4, 5, 6 :: nat] ArrayList_new of
   Inr s \<Rightarrow> CopyTo \<lparr>INITIAL_CHUNK_LENGTH = 2, CHUNK_LENGTH_GROWTH_FACTOR = 2, sizeof_element = 2 ^ 62, alignof_element = 8\<rparr> s) = Inl (OutOfBounds ''rgItems'' 4)"
  by (simp add: append_all.simps Append_def AppendThrowing_def CreateNewChunk_def roundUp_def ArrayList_new_def store_element_def max_chunk_capacity_def
    CopyTo_def ArrayIterator_def)

subsection \<open>Bits and integer conversions\<close>

definition hashTable :: "int list" where
  "hashTable = [-1, 0, 1, 26, 2, 23, 27, -1, 3, 16, 24, 30, 28, 11, -1, 13, 4, 7, 17,
     -1, 25, 22, 31, 15, 29, 10, 12, 6, -1, 21, 14, 9, 5, 20, 8, 19, 18]"

definition BitPosition :: "u32 \<Rightarrow> nat result" where
  "BitPosition val = rbind (rassert ''value'' (val \<noteq> 0 \<and> val AND (val - 1) = 0)) (\<lambda>_.
     rbind (array_get ''hashTable'' hashTable (unat val mod 37)) (\<lambda>index.
     rbind (rassert ''index'' (index \<noteq> -1)) (\<lambda>_. Inr (nat index))))"

text \<open>Template arguments: whether the source and the destination type are signed, and their widths.\<close>

definition type_cast :: "bool \<Rightarrow> nat \<Rightarrow> int \<Rightarrow> int" where
  "type_cast is_signed n val = (if is_signed then signed_take_bit (n - 1) val else take_bit n val)"

definition FitsIn :: "bool \<Rightarrow> nat \<Rightarrow> bool \<Rightarrow> nat \<Rightarrow> int \<Rightarrow> bool" where
  "FitsIn dst_signed dst src_signed src val =
    (if src_signed = dst_signed then (if src \<le> dst then True else val = type_cast src_signed src (type_cast dst_signed dst val))
     else if src_signed then
       (if val < 0 then False else if src \<le> dst then True else val = type_cast src_signed src (type_cast dst_signed dst val))
     else if src < dst then True
     else type_cast dst_signed dst val \<ge> 0 \<and> val = type_cast src_signed src (type_cast dst_signed dst val))"

definition representable :: "bool \<Rightarrow> nat \<Rightarrow> int \<Rightarrow> bool" where
  "representable is_signed n val \<longleftrightarrow> (if is_signed then - (2 ^ (n - 1)) \<le> val \<and> val < 2 ^ (n - 1) else 0 \<le> val \<and> val < 2 ^ n)"

lemma type_cast_id_iff: "0 < n \<Longrightarrow> type_cast sg n v = v \<longleftrightarrow> representable sg n v"
  by (auto simp: type_cast_def representable_def take_bit_int_eq_self_iff signed_take_bit_int_eq_self_iff)

lemma type_cast_representable: "0 < n \<Longrightarrow> representable sg n (type_cast sg n v)"
  by (auto simp: type_cast_def representable_def signed_take_bit_int_less_exp signed_take_bit_int_greater_eq_minus_exp)

lemma representable_mono:
  assumes "representable sg n v" "n \<le> k" shows "representable sg k v"
proof -
  have "(2 :: int) ^ (n - 1) \<le> 2 ^ (k - 1)" "(2 :: int) ^ n \<le> 2 ^ k" using assms(2) by (auto intro: power_increasing)
  then show ?thesis using assms(1) unfolding representable_def by (cases sg; (simp only: if_True if_False)?; linarith)
qed

lemma representable_switch:
  assumes "0 \<le> v" "0 < n" shows "representable True n v \<Longrightarrow> representable False n v" "n < k \<Longrightarrow> representable False n v \<Longrightarrow> representable True k v"
proof -
  have "(2 :: int) ^ (n - 1) \<le> 2 ^ n" by (rule power_increasing) auto
  then show "representable True n v \<Longrightarrow> representable False n v" using assms unfolding representable_def if_True if_False by linarith
  assume k: "n < k"
  then have "(2 :: int) ^ n \<le> 2 ^ (k - 1)" by (intro power_increasing) auto
  then show "representable False n v \<Longrightarrow> representable True k v" using assms unfolding representable_def if_True if_False by linarith
qed

lemma FitsIn_iff:
  assumes "0 < src" "0 < dst" "representable ss src v"
  shows "FitsIn ds dst ss src v \<longleftrightarrow> representable ds dst v"
proof -
  note id = type_cast_id_iff[OF assms(2), of ds v]
  note src_id = type_cast_id_iff[OF assms(1), of ss]
  have bk: "v = type_cast ss src (type_cast ds dst v)" if "representable ds dst v" using that assms id src_id by metis
  have nonneg: "0 \<le> w" if "representable False n w" for n w using that by (simp add: representable_def)
  consider (same) "ss = ds" | (s2u) "ss" "\<not> ds" | (u2s) "\<not> ss" "ds" by auto
  then show ?thesis
  proof cases
    case same
    have "representable ds dst v" if "dst < src" "v = type_cast ss src (type_cast ds dst v)"
    proof -
      have "representable ds src (type_cast ds dst v)"
        by (rule representable_mono[OF type_cast_representable[OF assms(2)]]) (use that(1) in simp)
      then have "type_cast ss src (type_cast ds dst v) = type_cast ds dst v" using same src_id by simp
      then have "type_cast ds dst v = v" using that(2) by simp
      then show ?thesis using id by simp
    qed
    then show ?thesis using same assms bk representable_mono[of ds src v dst] by (auto simp: FitsIn_def)
  next
    case s2u
    have "representable ds dst v" if "dst < src" "0 \<le> v" "v = type_cast ss src (type_cast ds dst v)"
    proof -
      have "representable True src (type_cast ds dst v)"
        using s2u type_cast_representable[OF assms(2), of False v] nonneg that(1) assms(2) by (auto intro: representable_switch(2))
      then have "type_cast ss src (type_cast ds dst v) = type_cast ds dst v" using s2u src_id by simp
      then have "type_cast ds dst v = v" using that(3) by simp
      then show ?thesis using id by simp
    qed
    moreover have "representable ds dst v" if "0 \<le> v" "src \<le> dst"
      using s2u assms that representable_switch(1)[of v src] representable_mono by auto
    moreover have "\<not> v < 0" if "representable ds dst v" using that s2u nonneg[of dst v] by auto
    moreover obtain w where w: "w = type_cast ss src (type_cast ds dst v)" by simp
    ultimately show ?thesis using s2u bk unfolding FitsIn_def w[symmetric] by auto
  next
    case u2s
    have "0 \<le> v" using assms(3) u2s nonneg by auto
    moreover have "representable ds dst v" if "dst \<le> src" "0 \<le> type_cast ds dst v" "v = type_cast ss src (type_cast ds dst v)"
    proof -
      have "representable True dst (type_cast ds dst v)" using u2s type_cast_representable[OF assms(2), of True v] by simp
      then have "representable False src (type_cast ds dst v)"
        using representable_switch(1)[OF that(2) assms(2)] representable_mono that(1) by blast
      then have "type_cast ss src (type_cast ds dst v) = type_cast ds dst v" using u2s src_id by simp
      then have "type_cast ds dst v = v" using that(3) by simp
      then show ?thesis using id by simp
    qed
    ultimately show ?thesis using u2s bk assms id representable_switch(2)[of v src dst] by (auto simp: FitsIn_def)
  qed
qed

lemma unat_exp: "n < LENGTH('a::len) \<Longrightarrow> unat (2 ^ n :: 'a word) = 2 ^ n"
  using unsigned_of_nat[of "2 ^ n", where ?'b = 'a and ?'a = nat] by (simp add: take_bit_nat_eq_self)

lemma and_pred_power:
  fixes v :: "'a::len word"
  assumes "v \<noteq> 0" "v AND (v - 1) = 0"
  shows "\<exists>n < LENGTH('a). v = 2 ^ n"
proof -
  have u: "0 < unat v" "unat (v - 1) = unat v - 1" using assms(1) by (auto simp: unat_gt_0 unat_minus_one)
  obtain n where n: "2 ^ n \<le> unat v" "unat v < 2 ^ (n + 1)" using ex_power_ivl1[of 2 "unat v"] u(1) by auto
  have lt: "n < LENGTH('a)"
  proof (rule ccontr)
    assume "\<not> n < LENGTH('a)"
    then have "(2 :: nat) ^ LENGTH('a) \<le> 2 ^ n" by simp
    moreover have "unat v < 2 ^ LENGTH('a)" by (rule unsigned_less)
    ultimately show False using n(1) by linarith
  qed
  have bitn: "bit w n" if "2 ^ n \<le> unat w" "unat w < 2 ^ (n + 1)" for w :: "'a word"
  proof -
    have "unat w div 2 ^ n = 1" using that by (simp add: div_nat_eqI)
    then have "bit (unat w) n" by (simp add: bit_iff_odd)
    then show ?thesis by (simp add: bit_unsigned_iff)
  qed
  have "unat v = 2 ^ n"
  proof (rule ccontr)
    assume "unat v \<noteq> 2 ^ n"
    then have "2 ^ n \<le> unat (v - 1)" "unat (v - 1) < 2 ^ (n + 1)" using n u by auto
    then have "bit (v AND (v - 1)) n" using bitn[of v] bitn[of "v - 1"] n by (simp add: bit_and_iff)
    then show False using assms(2) by simp
  qed
  then have "v = 2 ^ n" using lt by (simp add: word_unat_eq_iff unat_exp)
  then show ?thesis using lt by blast
qed

lemma BitPosition_power: "n < 32 \<Longrightarrow> BitPosition (2 ^ n) = Inr n"
proof -
  have "\<forall>n \<in> {..<32::nat}. BitPosition (2 ^ n) = Inr n"
    by (simp add: BitPosition_def hashTable_def lessThan_nat_numeral lessThan_Suc array_get_def)
  then show "n < 32 \<Longrightarrow> BitPosition (2 ^ n) = Inr n" by simp
qed

lemma BitPosition_iff: "BitPosition v = Inr n \<longleftrightarrow> n < 32 \<and> v = 2 ^ n"
proof
  assume b: "BitPosition v = Inr n"
  then have "v \<noteq> 0" "v AND (v - 1) = 0" by (auto simp: BitPosition_def rbind_eq_Inr_iff)
  then obtain k where "k < 32" "v = 2 ^ k" using and_pred_power[of v] by auto
  then show "n < 32 \<and> v = 2 ^ n" using b BitPosition_power[of k] by simp
qed (simp add: BitPosition_power)

lemma roundUp_spec:
  assumes "unat sz + 2 ^ k \<le> 2 ^ 64" "k < 64"
  shows "\<exists>r. roundUp sz (2 ^ k) = Inr r \<and> 2 ^ k dvd unat r \<and> unat sz \<le> unat r \<and> unat r < unat sz + 2 ^ k"
proof -
  have p: "(2 ^ k :: u64) - 1 = mask k" by (simp add: mask_eq_exp_minus_1)
  have a: "(2 ^ k :: u64) AND (2 ^ k - 1) = 0" unfolding p by (rule bit_word_eqI) (auto simp: bit_and_iff bit_exp_iff bit_mask_iff)
  have nz: "(2 ^ k :: u64) \<noteq> 0" using assms(2) by simp
  let ?x = "sz + (2 ^ k - 1)"
  have ux: "unat ?x = unat sz + (2 ^ k - 1)"
  proof -
    have "unat ((2 ^ k :: u64) - 1) = 2 ^ k - 1" using assms(2) by (simp add: unat_minus_one unat_exp)
    moreover have "unat sz + (2 ^ k - 1) < 2 ^ 64" using assms(1) by (simp add: less_le_trans)
    ultimately show ?thesis by (simp add: unat_add_no_wrap)
  qed
  have m: "?x AND NOT (mask k) = push_bit k (drop_bit k ?x)" by (rule bit_word_eqI) (auto simp: bit_simps)
  have u: "unat (push_bit k (drop_bit k ?x)) = unat ?x div 2 ^ k * 2 ^ k"
  proof -
    have "unat ?x div 2 ^ k * 2 ^ k < 2 ^ 64" by (rule le_less_trans[OF div_times_less_eq_dividend]) (use unsigned_less[of ?x, where ?'a = nat] in simp)
    moreover have "take_bit 64 (unat ?x) = unat ?x" using unsigned_less[of ?x, where ?'a = nat] by (simp add: take_bit_nat_eq_self)
    ultimately show ?thesis
      by (simp add: unsigned_push_bit_eq unsigned_drop_bit_eq take_bit_nat_eq_self push_bit_nat_def drop_bit_nat_def
          del: push_bit_eq_mult drop_bit_eq_div)
  qed
  have r: "roundUp sz (2 ^ k) = Inr (push_bit k (drop_bit k ?x))" using a nz m p by (simp add: roundUp_def)
  have lt: "unat ?x div 2 ^ k * 2 ^ k \<le> unat ?x" "unat ?x < unat ?x div 2 ^ k * 2 ^ k + 2 ^ k"
    by (auto simp: div_times_less_eq_dividend) (metis add.commute dividend_less_div_times mult.commute zero_less_numeral zero_less_power)
  have e: "unat sz + 2 ^ k = unat ?x + 1" using ux by auto
  show ?thesis
  proof (intro exI conjI)
    show "roundUp sz (2 ^ k) = Inr (push_bit k (drop_bit k ?x))" by (rule r)
    show "2 ^ k dvd unat (push_bit k (drop_bit k ?x))" unfolding u by simp
    show "unat sz \<le> unat (push_bit k (drop_bit k ?x))" unfolding u using lt e by linarith
    show "unat (push_bit k (drop_bit k ?x)) < unat sz + 2 ^ k" unfolding u using lt e by linarith
  qed
qed


subsection \<open>Properties\<close>

text \<open>The intrusive list is a queue: for every sequence of \<open>InsertTail\<close> and \<open>RemoveHead\<close> in which no
  object goes in twice, on a list whose objects have null links, the objects that come out are those
  of a first-in first-out queue, and at the end the links from the sentinel on are the queue.\<close>

theorem slist_refines_queue:
  assumes "distinct (inserted ops)" "\<forall>x \<in> set (inserted ops). links (LinkOf x) = None"
  shows "fst (run_slist ops (SList_new links)) = fst (run_queue ops [])
     \<and> represents (snd (run_slist ops (SList_new links))) (snd (run_queue ops []))"
  using run_slist_queue[OF represents_new assms(1), of links] assms(2) by (simp add: SList_new_def)

theorem slist_refines_queue_witness:
  "fst (run_slist [Insert 4, Insert 7, Remove, Remove, Remove, Insert 9] (SList_new (\<lambda>_. None))) = [Some 4, Some 7, None]"
  using slist_refines_queue[of "[Insert 4, Insert 7, Remove, Remove, Remove, Insert 9]" "\<lambda>_. None"] by simp

text \<open>The chunked list is a list: after appending the elements of a list one by one to an empty
  \<open>StructArrayList\<close> the count is its length, \<open>CopyTo\<close> gives its elements in order and \<open>GetIndex i\<close> its
  element \<open>i\<close>, as long as the size of a chunk does not have to be clamped.\<close>

theorem array_list_refines_list:
  assumes "params_ok P" "length vs * CHUNK_LENGTH_GROWTH_FACTOR P \<le> maxChunkCapacity P"
  shows "\<exists>s. append_all P vs ArrayList_new = Inr s \<and> Count s = length vs \<and> CopyTo P s = Inr (map Some vs)
     \<and> (\<forall>i < length vs. GetIndex P i s = Inr (Some (vs ! i)))"
  using append_all_ok[OF assms(1) contains_items_new, of vs] assms contains_items_reads[OF assms(1)] by fastforce

theorem array_list_refines_list_witness:
  "\<exists>s. append_all sample_params [5, 6, 7 :: nat] ArrayList_new = Inr s \<and> Count s = 3 \<and> CopyTo sample_params s = Inr [Some 5, Some 6, Some 7]
     \<and> GetIndex sample_params 2 s = Inr (Some 7)"
proof -
  have "params_ok sample_params" "length [5, 6, 7 :: nat] * CHUNK_LENGTH_GROWTH_FACTOR sample_params \<le> maxChunkCapacity sample_params"
    by (simp_all add: params_ok_def sample_params_def maxChunkCapacity_def max_chunk_capacity_def)
  from array_list_refines_list[OF this] show ?thesis by (fastforce simp: eval_nat_numeral)
qed

end
