(* ===== verification/GcInfo.thy ===== *)
theory GcInfo
  imports Prelude
begin

unbundle bit_operations_syntax

section \<open>GC information\<close>

text \<open>
  lib/GcInfo/GcInfo.cpp and include/GcInfo/GcInfo.h: which types hold GC pointers and where, the record
  of the stack allocations of a function, and the emitter, which translates the live pointers of LLVM's
  stack map into the slots and the births and deaths of slots that the encoder of the runtime wants.

  LLVM's types are the datatype \<open>LType\<close>, without what the code does not look at; the layout of a
  struct, the frame and the stack map come from LLVM and are arguments. The encoder belongs to the
  runtime: the model keeps the calls it gets, in their order, and its answer to \<open>GetStackSlotId\<close> is an
  argument of the definitions.
\<close>

subsection \<open>Types and layouts\<close>

datatype LType = PointerType nat | VectorType LType | ArrayType LType | StructType "LType list" | OtherType nat

definition ManagedAddressSpace :: nat where
  "ManagedAddressSpace = 1"

definition InvalidPointerOffset :: int where
  "InvalidPointerOffset = -1"

definition isGcPointer :: "LType \<Rightarrow> bool" where
  "isGcPointer t = (case t of PointerType a \<Rightarrow> a = ManagedAddressSpace | _ \<Rightarrow> False)"

fun isGcAggregate :: "LType \<Rightarrow> bool" where
  "isGcAggregate (VectorType t) = isGcPointer t"
| "isGcAggregate (ArrayType t) = isGcPointer t"
| "isGcAggregate (StructType ts) = (\<exists>t \<in> set ts. isGcPointer t \<or> isGcAggregate t)"
| "isGcAggregate _ = False"

definition isGcType :: "LType \<Rightarrow> bool" where
  "isGcType t = (isGcPointer t \<or> isGcAggregate t)"

definition isUnmanagedPointer :: "LType \<Rightarrow> bool" where
  "isUnmanagedPointer t = ((case t of PointerType a \<Rightarrow> True | _ \<Rightarrow> False) \<and> \<not> isGcPointer t)"

text \<open>LLVM's \<open>DataLayout\<close> and \<open>StructLayout\<close>.\<close>

record DataLayout =
  getPointerSize :: nat
  getTypeStoreSize :: "LType \<Rightarrow> nat"
  getElementOffset :: "LType list \<Rightarrow> nat \<Rightarrow> nat"
  getElementContainingOffset :: "LType list \<Rightarrow> nat \<Rightarrow> nat"

text \<open>The loop that dives into nested structs until it reaches a field that is not a struct.\<close>

function dive :: "DataLayout \<Rightarrow> LType \<Rightarrow> LType list \<Rightarrow> nat \<Rightarrow> nat \<Rightarrow> LType result" where
  "dive L FieldTy OuterFields OuterOffset OuterIndex = (case FieldTy of
     StructType InnerFields \<Rightarrow>
       (let InnerBaseOffset = getElementOffset L OuterFields OuterIndex in
        rbind (rassert ''InnerBaseOffset'' (InnerBaseOffset \<le> OuterOffset)) (\<lambda>_.
        let InnerOffset = OuterOffset - InnerBaseOffset;
            InnerIndex = getElementContainingOffset L InnerFields InnerOffset in
        rbind (array_get ''getStructElementType'' InnerFields InnerIndex) (\<lambda>t. dive L t InnerFields InnerOffset InnerIndex)))
   | _ \<Rightarrow> Inr FieldTy)"
  by pat_completeness auto
termination
  by (relation "measure (\<lambda>(L, t, fs, off, i). size t)") (auto simp: less_Suc_eq_le intro!: size_list_estimation' [OF nth_mem])

definition gc_pointer_at :: "DataLayout \<Rightarrow> LType list \<Rightarrow> nat \<Rightarrow> bool result" where
  "gc_pointer_at L elems GcOffset =
     (let FieldIndex = getElementContainingOffset L elems GcOffset in
      rbind (array_get ''getStructElementType'' elems FieldIndex) (\<lambda>FieldTy.
      rbind (dive L FieldTy elems GcOffset FieldIndex) (\<lambda>FieldTy. Inr (isGcPointer FieldTy))))"

function gc_pointers_from :: "DataLayout \<Rightarrow> LType list \<Rightarrow> nat \<Rightarrow> nat \<Rightarrow> nat list result" where
  "gc_pointers_from L elems TypeSize GcOffset = (if GcOffset < TypeSize \<and> 0 < getPointerSize L then
     rbind (gc_pointer_at L elems GcOffset) (\<lambda>b.
     rbind (gc_pointers_from L elems TypeSize (GcOffset + getPointerSize L)) (\<lambda>Pointers.
       Inr (if b then GcOffset # Pointers else Pointers)))
     else Inr [])"
  by pat_completeness auto
termination by (relation "measure (\<lambda>(L, fs, n, off). n - off)") auto

definition getGcPointers :: "DataLayout \<Rightarrow> LType list \<Rightarrow> nat list result" where
  "getGcPointers L elems = gc_pointers_from L elems (getTypeStoreSize L (StructType elems)) 0"

subsection \<open>GcFuncInfo: the stack allocations of a function\<close>

type_synonym AllocaFlags = u32

definition NoFlags :: AllocaFlags where "NoFlags = 0"
definition GcPointer :: AllocaFlags where "GcPointer = 1"
definition GcAggregate :: AllocaFlags where "GcAggregate = 2"
definition GcValue :: AllocaFlags where "GcValue = GcPointer OR GcAggregate"
definition Pinned :: AllocaFlags where "Pinned = 4"
definition GsCookie :: AllocaFlags where "GsCookie = 8"
definition SecurityObject :: AllocaFlags where "SecurityObject = 0x10"
definition GenericsContext :: AllocaFlags where "GenericsContext = 0x20"

record AllocaInfo =
  AllocaOffset :: int
  Flags :: AllocaFlags

definition info_isGcPointer :: "AllocaInfo \<Rightarrow> bool" where
  "info_isGcPointer i = (Flags i AND GcPointer \<noteq> 0)"
definition info_isGcAggregate :: "AllocaInfo \<Rightarrow> bool" where
  "info_isGcAggregate i = (Flags i AND GcAggregate \<noteq> 0)"
definition info_isGcValue :: "AllocaInfo \<Rightarrow> bool" where
  "info_isGcValue i = (Flags i AND GcValue \<noteq> 0)"
definition info_isPinned :: "AllocaInfo \<Rightarrow> bool" where
  "info_isPinned i = (Flags i AND Pinned \<noteq> 0)"

definition getAllocTypeString :: "AllocaInfo \<Rightarrow> string result" where
  "getAllocTypeString i =
    (if Flags i AND GsCookie \<noteq> 0 then Inr ''GS Cookie''
     else if Flags i AND GenericsContext \<noteq> 0 then
       (if Flags i AND GcPointer \<noteq> 0 then Inr ''GenericsContextThis'' else Inr ''GenericsContextTypeArg'')
     else if Flags i AND SecurityObject \<noteq> 0 then Inr ''SecurityObject''
     else if Flags i AND GcPointer \<noteq> 0 then Inr ''GcPointer''
     else if Flags i AND GcAggregate \<noteq> 0 then Inr ''GcAggregate''
     else Inl (Unreachable ''Unexpected Flags Combination''))"

text \<open>An alloca instruction: its identity and the type it allocates.\<close>

record AllocaInst =
  alloca_id :: nat
  getAllocatedType :: LType

datatype GENERIC_CONTEXTPARAM_TYPE = GENERIC_CONTEXTPARAM_NONE | GENERIC_CONTEXTPARAM_THIS | GENERIC_CONTEXTPARAM_MT | GENERIC_CONTEXTPARAM_MD

record GcFuncInfo =
  AllocaMap :: "(AllocaInst \<times> AllocaInfo) list"
  GsCkValidRangeStart :: u32
  GsCkValidRangeEnd :: u32
  GenericsContextParamType :: GENERIC_CONTEXTPARAM_TYPE
  PSPSymOffset :: u32
  HasFunclets :: bool

definition GcFuncInfo_new :: GcFuncInfo where
  "GcFuncInfo_new = \<lparr>AllocaMap = [], GsCkValidRangeStart = 0, GsCkValidRangeEnd = 0,
     GenericsContextParamType = GENERIC_CONTEXTPARAM_NONE, PSPSymOffset = 0, HasFunclets = False\<rparr>"

definition isGcAllocation :: "AllocaInst \<Rightarrow> bool" where
  "isGcAllocation a = isGcType (getAllocatedType a)"

definition hasRecord :: "AllocaInst \<Rightarrow> GcFuncInfo \<Rightarrow> bool" where
  "hasRecord a s = (map_of (AllocaMap s) a \<noteq> None)"

fun map_put :: "'k \<Rightarrow> 'v \<Rightarrow> ('k \<times> 'v) list \<Rightarrow> ('k \<times> 'v) list" where
  "map_put k v [] = [(k, v)]"
| "map_put k v ((k', v') # m) = (if k' = k then (k, v) # m else (k', v') # map_put k v m)"

text \<open>The records of the functions of a module.\<close>

definition getGcInfo :: "nat \<Rightarrow> (nat \<times> GcFuncInfo) list \<Rightarrow> GcFuncInfo option" where
  "getGcInfo F GcInfoMap = map_of GcInfoMap F"

definition newGcInfo :: "nat \<Rightarrow> (nat \<times> GcFuncInfo) list \<Rightarrow> (GcFuncInfo \<times> (nat \<times> GcFuncInfo) list) result" where
  "newGcInfo F GcInfoMap = rbind (rassert ''Duplicate GcInfo'' (getGcInfo F GcInfoMap = None)) (\<lambda>_.
     Inr (GcFuncInfo_new, map_put F GcFuncInfo_new GcInfoMap))"

definition alloca_flags :: "LType \<Rightarrow> AllocaFlags" where
  "alloca_flags t = (if isGcPointer t then GcPointer else if isGcAggregate t then GcAggregate else NoFlags)"

definition recordAlloca :: "AllocaInst \<Rightarrow> GcFuncInfo \<Rightarrow> GcFuncInfo result" where
  "recordAlloca a s = rbind (rassert ''Duplicate Allocation'' (\<not> hasRecord a s)) (\<lambda>_.
     Inr (s\<lparr>AllocaMap := map_put a \<lparr>AllocaOffset = InvalidPointerOffset, Flags = alloca_flags (getAllocatedType a)\<rparr> (AllocaMap s)\<rparr>))"

definition alloca_info :: "AllocaInst \<Rightarrow> GcFuncInfo \<Rightarrow> AllocaInfo result" where
  "alloca_info a s = (case map_of (AllocaMap s) a of Some i \<Rightarrow> Inr i | None \<Rightarrow> Inl (AssertFailed ''Missing Alloca recorded''))"

definition recordGcAlloca :: "AllocaInst \<Rightarrow> GcFuncInfo \<Rightarrow> GcFuncInfo result" where
  "recordGcAlloca a s = rbind (recordAlloca a s) (\<lambda>s. rbind (alloca_info a s) (\<lambda>i.
     rbind (rassert ''Expected GcValue'' (info_isGcValue i)) (\<lambda>_. Inr s)))"

definition mark_alloca :: "bool \<Rightarrow> AllocaInst \<Rightarrow> AllocaFlags \<Rightarrow> GcFuncInfo \<Rightarrow> GcFuncInfo result" where
  "mark_alloca gc a fl s = rbind (rassert ''isGcAllocation'' (isGcAllocation a = gc)) (\<lambda>_.
     rbind (alloca_info a s) (\<lambda>i.
     rbind (rassert ''recorded incorrectly'' (info_isGcValue i = gc)) (\<lambda>_.
     rbind (rassert ''Changing annotation after GcInfoRecorder'' (AllocaOffset i = InvalidPointerOffset)) (\<lambda>_.
     Inr (s\<lparr>AllocaMap := map_put a (i\<lparr>Flags := Flags i OR fl\<rparr>) (AllocaMap s)\<rparr>)))))"

definition markGcAlloca :: "AllocaInst \<Rightarrow> AllocaFlags \<Rightarrow> GcFuncInfo \<Rightarrow> GcFuncInfo result" where
  "markGcAlloca = mark_alloca True"

definition markNonGcAlloca :: "AllocaInst \<Rightarrow> AllocaFlags \<Rightarrow> GcFuncInfo \<Rightarrow> GcFuncInfo result" where
  "markNonGcAlloca = mark_alloca False"

definition recordPinned :: "AllocaInst \<Rightarrow> GcFuncInfo \<Rightarrow> GcFuncInfo result" where
  "recordPinned a = markGcAlloca a Pinned"

definition recordSecurityObject :: "AllocaInst \<Rightarrow> GcFuncInfo \<Rightarrow> GcFuncInfo result" where
  "recordSecurityObject a = markGcAlloca a SecurityObject"

definition recordGenericsContext :: "AllocaInst \<Rightarrow> GENERIC_CONTEXTPARAM_TYPE \<Rightarrow> GcFuncInfo \<Rightarrow> GcFuncInfo result" where
  "recordGenericsContext a ParamType s =
     rbind (if ParamType = GENERIC_CONTEXTPARAM_THIS then markGcAlloca a GenericsContext s
            else rbind (recordAlloca a s) (markNonGcAlloca a GenericsContext)) (\<lambda>s.
     Inr (s\<lparr>GenericsContextParamType := ParamType\<rparr>))"

definition recordGsCookie :: "AllocaInst \<Rightarrow> u32 \<Rightarrow> u32 \<Rightarrow> GcFuncInfo \<Rightarrow> GcFuncInfo result" where
  "recordGsCookie a ValidRangeStart ValidRangeEnd s = rbind (rassert ''UnTested'' False) (\<lambda>_.
     rbind (recordAlloca a s) (\<lambda>s. rbind (markNonGcAlloca a SecurityObject s) (\<lambda>s.
     Inr (s\<lparr>GsCkValidRangeStart := ValidRangeStart, GsCkValidRangeEnd := ValidRangeEnd\<rparr>))))"

definition getEscapingLocations :: "GcFuncInfo \<Rightarrow> AllocaInst list" where
  "getEscapingLocations s = map fst (AllocaMap s)"

subsection \<open>GcInfoRecorder: the frame offsets of the allocations\<close>

text \<open>LLVM's frame: each stack object with its alloca, if it has one, and its offset from the incoming
  stack pointer; the size of the frame; the offset of the PSP symbol, if the function has funclets.\<close>

record FrameObject =
  getObjectAllocation :: "AllocaInst option"
  getObjectOffset :: int
  isWinEHSpillSlot :: bool

record MachineFrame =
  FrameObjects :: "FrameObject list"
  getStackSize :: int
  StackPointerSize :: int
  PSPSymSlot :: "int option"

definition slot_offset :: "MachineFrame \<Rightarrow> FrameObject \<Rightarrow> int" where
  "slot_offset F obj = signed_take_bit 31 (getStackSize F + StackPointerSize F + getObjectOffset obj)"

definition check_alloca_type :: "AllocaInst \<Rightarrow> AllocaInfo \<Rightarrow> bool" where
  "check_alloca_type a i = (if info_isGcAggregate i then (case getAllocatedType a of StructType ts \<Rightarrow> True | _ \<Rightarrow> False)
     else if info_isGcPointer i then isGcPointer (getAllocatedType a) else \<not> isGcAllocation a)"

definition record_object :: "bool \<Rightarrow> MachineFrame \<Rightarrow> FrameObject \<Rightarrow> GcFuncInfo \<Rightarrow> GcFuncInfo result" where
  "record_object handlers_precise F obj s = (case getObjectAllocation obj of None \<Rightarrow> Inr s | Some a \<Rightarrow>
     (case map_of (AllocaMap s) a of
        Some i \<Rightarrow>
          rbind (rassert ''SlotOffset'' (slot_offset F obj \<ge> 0)) (\<lambda>_.
          rbind (rassert ''Two slots for the same alloca!'' (AllocaOffset i = InvalidPointerOffset)) (\<lambda>_.
          rbind (rassert ''Unhandled Type'' (check_alloca_type a i)) (\<lambda>_.
          Inr (s\<lparr>AllocaMap := map_put a (i\<lparr>AllocaOffset := slot_offset F obj\<rparr>) (AllocaMap s)\<rparr>))))
      | None \<Rightarrow>
          rbind (rassert ''Gc Allocation Record missing'' (isGcAllocation a \<longrightarrow>
            isWinEHSpillSlot obj \<and> \<not> isGcAggregate (getAllocatedType a) \<and> \<not> handlers_precise)) (\<lambda>_. Inr s)))"

fun record_objects :: "bool \<Rightarrow> MachineFrame \<Rightarrow> FrameObject list \<Rightarrow> GcFuncInfo \<Rightarrow> GcFuncInfo result" where
  "record_objects hp F [] s = Inr s"
| "record_objects hp F (obj # objs) s = rbind (record_object hp F obj s) (record_objects hp F objs)"

definition runOnMachineFunction :: "bool \<Rightarrow> MachineFrame \<Rightarrow> GcFuncInfo \<Rightarrow> GcFuncInfo result" where
  "runOnMachineFunction handlers_precise F s = rbind (record_objects handlers_precise F (FrameObjects F) s) (\<lambda>s.
     (case PSPSymSlot F of None \<Rightarrow> Inr s | Some PSPOffset \<Rightarrow>
       rbind (rassert ''PSPOffset'' (PSPOffset \<ge> 0)) (\<lambda>_. Inr (s\<lparr>HasFunclets := True, PSPSymOffset := word_of_int PSPOffset\<rparr>))))"

subsection \<open>GcInfoEmitter: slots\<close>

datatype GcSlotFlag = GC_SLOT_INTERIOR | GC_SLOT_PINNED | GC_SLOT_UNTRACKED

text \<open>The calls of the encoder of the runtime.\<close>

datatype EncoderCall =
    SetWantsReportOnlyLeaf
  | SetPSPSymStackSlot u32
  | SetCodeLength u64
  | SetStackBaseRegister
  | SetIsVarArg
  | SetSizeOfStackOutgoingAndScratchArea nat
  | GetStackSlotId int "GcSlotFlag list"
  | SetSlotState u32 nat bool
  | FinalizeSlotIds
  | DefineCallSites "(u32 \<times> nat) list"
  | Build
  | Emit

text \<open>The answer of the encoder to \<open>GetStackSlotId\<close> after the calls so far.\<close>

type_synonym SlotIds = "EncoderCall list \<Rightarrow> nat"

record Emitter =
  Encoder :: "EncoderCall list"
  SlotMap :: "(int \<times> nat) list"
  FirstTrackedSlot :: nat
  NumTrackedSlots :: nat
  CallSites :: "(u32 \<times> nat) list option"

definition Emitter_new :: Emitter where
  "Emitter_new = \<lparr>Encoder = [], SlotMap = [], FirstTrackedSlot = 0, NumTrackedSlots = 0, CallSites = None\<rparr>"

definition encoder_call :: "EncoderCall \<Rightarrow> Emitter \<Rightarrow> Emitter" where
  "encoder_call c e = e\<lparr>Encoder := Encoder e @ [c]\<rparr>"

definition hasSlot :: "int \<Rightarrow> Emitter \<Rightarrow> bool" where
  "hasSlot off e = (map_of (SlotMap e) off \<noteq> None)"

definition isTrackedSlot :: "nat \<Rightarrow> Emitter \<Rightarrow> bool" where
  "isTrackedSlot SlotID e = (NumTrackedSlots e > 0 \<and> SlotID \<ge> FirstTrackedSlot e \<and> SlotID < FirstTrackedSlot e + NumTrackedSlots e)"

definition getSlot :: "SlotIds \<Rightarrow> int \<Rightarrow> GcSlotFlag list \<Rightarrow> Emitter \<Rightarrow> (nat \<times> Emitter) result" where
  "getSlot ids off fl e =
     rbind (rassert ''Invalid Slot Offset'' (off \<noteq> InvalidPointerOffset)) (\<lambda>_.
     rbind (rassert ''Slot already allocated'' (\<not> hasSlot off e)) (\<lambda>_.
     let SlotID = ids (Encoder e);
         e = encoder_call (GetStackSlotId off fl) e\<lparr>SlotMap := map_put off SlotID (SlotMap e)\<rparr> in
     rbind (rassert ''SlotIDs dis-contiguous'' (SlotID = length (SlotMap e) - 1)) (\<lambda>_. Inr (SlotID, e))))"

definition getTrackedSlot :: "SlotIds \<Rightarrow> int \<Rightarrow> Emitter \<Rightarrow> (nat \<times> Emitter) result" where
  "getTrackedSlot ids off e = rbind (getSlot ids off [GC_SLOT_INTERIOR] e) (\<lambda>(SlotID, e).
     let e = e\<lparr>NumTrackedSlots := NumTrackedSlots e + 1\<rparr> in
     Inr (SlotID, if NumTrackedSlots e = 1 then e\<lparr>FirstTrackedSlot := SlotID\<rparr> else e))"

definition untracked_flags :: "bool \<Rightarrow> bool \<Rightarrow> GcSlotFlag list" where
  "untracked_flags IsPinned IsObjectRef = (if IsPinned then [GC_SLOT_UNTRACKED, GC_SLOT_PINNED]
     else if \<not> IsObjectRef then [GC_SLOT_UNTRACKED, GC_SLOT_INTERIOR] else [GC_SLOT_UNTRACKED])"

definition getUntrackedSlot :: "SlotIds \<Rightarrow> int \<Rightarrow> bool \<Rightarrow> bool \<Rightarrow> Emitter \<Rightarrow> Emitter result" where
  "getUntrackedSlot ids off IsPinned IsObjectRef e =
     rbind (getSlot ids off (untracked_flags IsPinned IsObjectRef) e) (\<lambda>(SlotID, e). Inr e)"

subsection \<open>GcInfoEmitter: tracked pointers\<close>

datatype Location = LocRegister nat | LocDirect nat int | LocIndirect nat int | LocConstant int | LocConstantIndex nat

record StackMapRecord =
  getInstructionOffset :: u32
  locations :: "Location list"

record LiveSets =
  LiveBitSetSize :: nat
  OldLiveSet :: "bool list"
  NewLiveSet :: "bool list"

definition DW_STACK_POINTER :: nat where
  "DW_STACK_POINTER = 7"

definition CallSiteSize :: nat where
  "CallSiteSize = 2"

definition InstructionOffset :: "StackMapRecord \<Rightarrow> u32" where
  "InstructionOffset R = getInstructionOffset R - of_nat CallSiteSize"

definition bits_resize :: "nat \<Rightarrow> bool list \<Rightarrow> bool list" where
  "bits_resize n bs = take n bs @ replicate (n - length bs) False"

definition new_tracked_slot :: "SlotIds \<Rightarrow> int \<Rightarrow> Emitter \<Rightarrow> LiveSets \<Rightarrow> (nat \<times> Emitter \<times> LiveSets) result" where
  "new_tracked_slot ids off e ls = rbind (getTrackedSlot ids off e) (\<lambda>(SlotID, e).
     if length (SlotMap e) > LiveBitSetSize ls then
       let n = LiveBitSetSize ls + LiveBitSetSize ls in
       rbind (rassert ''Overflow -- Too many live pointers'' (n > length (OldLiveSet ls))) (\<lambda>_.
         Inr (SlotID, e, \<lparr>LiveBitSetSize = n, OldLiveSet = bits_resize n (OldLiveSet ls), NewLiveSet = bits_resize n (NewLiveSet ls)\<rparr>))
     else Inr (SlotID, e, ls))"

definition encode_location :: "SlotIds \<Rightarrow> Location \<Rightarrow> Emitter \<times> LiveSets \<Rightarrow> (Emitter \<times> LiveSets) result" where
  "encode_location ids loc = (\<lambda>(e, ls). case loc of
     LocConstant c \<Rightarrow> Inr (e, ls)
   | LocConstantIndex i \<Rightarrow> Inr (e, ls)
   | LocRegister r \<Rightarrow> Inl (AssertFailed ''GC-Pointer Live in Register'')
   | LocIndirect reg off \<Rightarrow>
       rbind (rassert ''Expect Stack Pointer to be the base'' (reg = DW_STACK_POINTER)) (\<lambda>_.
       rbind (case map_of (SlotMap e) off of None \<Rightarrow> new_tracked_slot ids off e ls | Some SlotID \<Rightarrow> Inr (SlotID, e, ls)) (\<lambda>(SlotID, e, ls).
       rbind (rassert ''Tracked and Untracked slots must be disjoint'' (isTrackedSlot SlotID e)) (\<lambda>_.
       rbind (array_put ''NewLiveSet'' (NewLiveSet ls) SlotID True) (\<lambda>bs. Inr (e, ls\<lparr>NewLiveSet := bs\<rparr>)))))
   | LocDirect reg off \<Rightarrow> Inl (AssertFailed ''Unexpected Location Type''))"

fun encode_locations :: "SlotIds \<Rightarrow> Location list \<Rightarrow> Emitter \<times> LiveSets \<Rightarrow> (Emitter \<times> LiveSets) result" where
  "encode_locations ids [] st = Inr st"
| "encode_locations ids (loc # locs) st = rbind (encode_location ids loc st) (encode_locations ids locs)"

definition slot_transition :: "u32 \<Rightarrow> nat \<Rightarrow> Emitter \<times> LiveSets \<Rightarrow> (Emitter \<times> LiveSets) result" where
  "slot_transition off SlotID = (\<lambda>(e, ls).
     rbind (array_get ''OldLiveSet'' (OldLiveSet ls) SlotID) (\<lambda>old. rbind (array_get ''NewLiveSet'' (NewLiveSet ls) SlotID) (\<lambda>new.
     let e = (if \<not> old \<and> new then encoder_call (SetSlotState off SlotID True) e
              else if old \<and> \<not> new then encoder_call (SetSlotState off SlotID False) e else e) in
     Inr (e, ls\<lparr>OldLiveSet := (OldLiveSet ls)[SlotID := new], NewLiveSet := (NewLiveSet ls)[SlotID := False]\<rparr>))))"

fun slot_transitions :: "u32 \<Rightarrow> nat list \<Rightarrow> Emitter \<times> LiveSets \<Rightarrow> (Emitter \<times> LiveSets) result" where
  "slot_transitions off [] st = Inr st"
| "slot_transitions off (SlotID # SlotIDs) st = rbind (slot_transition off SlotID st) (slot_transitions off SlotIDs)"

definition add_call_site :: "u32 \<Rightarrow> Emitter \<Rightarrow> Emitter" where
  "add_call_site off e = e\<lparr>CallSites := map_option (\<lambda>cs. cs @ [(off, CallSiteSize)]) (CallSites e)\<rparr>"

definition encode_record :: "SlotIds \<Rightarrow> StackMapRecord \<Rightarrow> Emitter \<times> LiveSets \<Rightarrow> (Emitter \<times> LiveSets) result" where
  "encode_record ids R = (\<lambda>(e, ls).
     rbind (encode_locations ids (locations R) (add_call_site (InstructionOffset R) e, ls)) (\<lambda>(e, ls).
     slot_transitions (InstructionOffset R) [0..<length (SlotMap e)] (e, ls)))"

fun encode_records :: "SlotIds \<Rightarrow> StackMapRecord list \<Rightarrow> Emitter \<times> LiveSets \<Rightarrow> (Emitter \<times> LiveSets) result" where
  "encode_records ids [] st = Inr st"
| "encode_records ids (R # Rs) st = rbind (encode_record ids R st) (encode_records ids Rs)"

record StackMap =
  getNumFunctions :: nat
  records :: "StackMapRecord list"

definition encodeTrackedPointers :: "SlotIds \<Rightarrow> StackMap \<Rightarrow> Emitter \<Rightarrow> Emitter result" where
  "encodeTrackedPointers ids sm e =
     rbind (rassert ''Expect only one function with GcInfo in the module'' (getNumFunctions sm = 1)) (\<lambda>_.
     rbind (encode_records ids (records sm) (e\<lparr>CallSites := Some []\<rparr>,
       \<lparr>LiveBitSetSize = 25, OldLiveSet = replicate 25 False, NewLiveSet = replicate 25 False\<rparr>)) (\<lambda>(e, ls). Inr e))"

subsection \<open>GcInfoEmitter: untracked pointers and the whole encoding\<close>

fun encode_pointers :: "SlotIds \<Rightarrow> int \<Rightarrow> bool \<Rightarrow> nat list \<Rightarrow> Emitter \<Rightarrow> Emitter result" where
  "encode_pointers ids AggregateOffset IsPinned [] e = Inr e"
| "encode_pointers ids AggregateOffset IsPinned (GcPtrOffset # offs) e =
     rbind (getUntrackedSlot ids (signed_take_bit 31 (AggregateOffset + int GcPtrOffset)) IsPinned True e)
       (encode_pointers ids AggregateOffset IsPinned offs)"

definition encodeGcAggregate :: "SlotIds \<Rightarrow> DataLayout \<Rightarrow> AllocaInst \<Rightarrow> AllocaInfo \<Rightarrow> Emitter \<Rightarrow> Emitter result" where
  "encodeGcAggregate ids L a i e = (case getAllocatedType a of
     StructType elems \<Rightarrow> rbind (getGcPointers L elems) (\<lambda>GcPtrOffsets.
       rbind (rassert ''GC Aggregate without GC pointers!'' (length GcPtrOffsets > 0)) (\<lambda>_.
         encode_pointers ids (AllocaOffset i) (info_isPinned i) GcPtrOffsets e))
   | _ \<Rightarrow> Inl (AssertFailed ''cast<StructType>''))"

definition encode_alloca :: "SlotIds \<Rightarrow> DataLayout \<Rightarrow> AllocaInst \<times> AllocaInfo \<Rightarrow> Emitter \<Rightarrow> Emitter result" where
  "encode_alloca ids L = (\<lambda>(a, i) e. rbind (rassert ''Invalid Offset for Alloca Record'' (AllocaOffset i \<noteq> InvalidPointerOffset)) (\<lambda>_.
     if info_isGcAggregate i then encodeGcAggregate ids L a i e
     else if info_isGcPointer i then getUntrackedSlot ids (AllocaOffset i) (info_isPinned i) False e
     else Inr e))"

fun encode_allocas :: "SlotIds \<Rightarrow> DataLayout \<Rightarrow> (AllocaInst \<times> AllocaInfo) list \<Rightarrow> Emitter \<Rightarrow> Emitter result" where
  "encode_allocas ids L [] e = Inr e"
| "encode_allocas ids L (x # xs) e = rbind (encode_alloca ids L x e) (encode_allocas ids L xs)"

definition encodeUntrackedPointers :: "SlotIds \<Rightarrow> DataLayout \<Rightarrow> GcFuncInfo \<Rightarrow> Emitter \<Rightarrow> Emitter result" where
  "encodeUntrackedPointers ids L f = encode_allocas ids L (AllocaMap f)"

record GcFunction =
  isDeclaration :: bool
  isGcFunction :: bool
  isFPBasedFunction :: bool
  isVarArg :: bool
  Info :: GcFuncInfo

definition encodeHeader :: "u64 \<Rightarrow> GcFunction \<Rightarrow> Emitter \<Rightarrow> Emitter" where
  "encodeHeader HotCodeSize F e = e\<lparr>Encoder := Encoder e
     @ (if HasFunclets (Info F) then [SetWantsReportOnlyLeaf, SetPSPSymStackSlot (PSPSymOffset (Info F))] else [])
     @ [SetCodeLength HotCodeSize]
     @ (if isFPBasedFunction F then [SetStackBaseRegister] else [])
     @ (if isVarArg F then [SetIsVarArg] else [])
     @ [SetSizeOfStackOutgoingAndScratchArea 0]\<rparr>"

definition finalizeEncoding :: "Emitter \<Rightarrow> Emitter result" where
  "finalizeEncoding e = (case CallSites e of
     None \<Rightarrow> Inl (AssertFailed ''CallSites'')
   | Some cs \<Rightarrow> rbind (rassert ''NumCallSites'' (length cs > 0)) (\<lambda>_.
       Inr (encoder_call (DefineCallSites cs) (encoder_call FinalizeSlotIds e))))"

definition emitEncoding :: "Emitter \<Rightarrow> Emitter" where
  "emitEncoding e = encoder_call Emit (encoder_call Build e)"

definition needsPointerReporting :: "bool \<Rightarrow> StackMap option \<Rightarrow> bool" where
  "needsPointerReporting DoInsertStatepoints sm = (DoInsertStatepoints \<and> sm \<noteq> None)"

definition needsGCInfo :: "GcFunction \<Rightarrow> bool" where
  "needsGCInfo F = (\<not> isDeclaration F \<and> isGcFunction F)"

definition emitGCInfo_function :: "SlotIds \<Rightarrow> DataLayout \<Rightarrow> u64 \<Rightarrow> bool \<Rightarrow> StackMap option \<Rightarrow> GcFunction \<Rightarrow> Emitter \<Rightarrow> Emitter result" where
  "emitGCInfo_function ids L HotCodeSize DoInsertStatepoints sm F e =
     (let e = encodeHeader HotCodeSize F e in
      rbind (if needsPointerReporting DoInsertStatepoints sm then
          rbind (encodeTrackedPointers ids (the sm) e) (\<lambda>e.
          rbind (encodeUntrackedPointers ids L (Info F) e) finalizeEncoding)
        else Inr e) (\<lambda>e. Inr (emitEncoding e)))"

fun emitGCInfo :: "SlotIds \<Rightarrow> DataLayout \<Rightarrow> u64 \<Rightarrow> bool \<Rightarrow> StackMap option \<Rightarrow> GcFunction list \<Rightarrow> Emitter \<Rightarrow> Emitter result" where
  "emitGCInfo ids L HotCodeSize DoInsertStatepoints sm [] e = Inr e"
| "emitGCInfo ids L HotCodeSize DoInsertStatepoints sm (F # Fs) e =
     rbind (if needsGCInfo F then emitGCInfo_function ids L HotCodeSize DoInsertStatepoints sm F e else Inr e)
       (emitGCInfo ids L HotCodeSize DoInsertStatepoints sm Fs)"

subsection \<open>Specification and samples\<close>

fun slot_offsets :: "EncoderCall list \<Rightarrow> int list" where
  "slot_offsets [] = []"
| "slot_offsets (GetStackSlotId off fl # cs) = off # slot_offsets cs"
| "slot_offsets (c # cs) = slot_offsets cs"

fun transitions :: "EncoderCall list \<Rightarrow> (u32 \<times> nat \<times> bool) list" where
  "transitions [] = []"
| "transitions (SetSlotState off i b # cs) = (off, i, b) # transitions cs"
| "transitions (c # cs) = transitions cs"

fun replay :: "(u32 \<times> nat \<times> bool) list \<Rightarrow> nat set \<Rightarrow> nat set" where
  "replay [] live = live"
| "replay ((off, i, b) # ts) live = replay ts (if b then insert i live else live - {i})"

text \<open>The stack offsets that hold live pointers at a code offset: the slots whose last transition up to
  there is a birth.\<close>

definition decode_live :: "EncoderCall list \<Rightarrow> u32 \<Rightarrow> int set" where
  "decode_live cs off = (\<lambda>i. slot_offsets cs ! i) ` replay (filter (\<lambda>(o1, i, b). o1 \<le> off) (transitions cs)) {}"

definition live_offsets :: "StackMapRecord \<Rightarrow> int set" where
  "live_offsets R = {off. \<exists>reg. LocIndirect reg off \<in> set (locations R)}"

text \<open>The encoder hands out slot ids in sequence.\<close>

definition sequential_ids :: "SlotIds \<Rightarrow> bool" where
  "sequential_ids ids \<longleftrightarrow> (\<forall>cs. ids cs = length (slot_offsets cs))"

definition encodable :: "Location \<Rightarrow> bool" where
  "encodable loc = (case loc of LocConstant c \<Rightarrow> True | LocConstantIndex i \<Rightarrow> True
     | LocIndirect reg off \<Rightarrow> reg = DW_STACK_POINTER \<and> off \<noteq> InvalidPointerOffset | _ \<Rightarrow> False)"

text \<open>While the tracked pointers are encoded all slots are tracked, and their ids are their positions.\<close>

definition slots_ok :: "Emitter \<Rightarrow> bool" where
  "slots_ok e \<longleftrightarrow> map fst (SlotMap e) = slot_offsets (Encoder e) \<and> map snd (SlotMap e) = [0..<length (SlotMap e)]
     \<and> distinct (map fst (SlotMap e)) \<and> NumTrackedSlots e = length (SlotMap e) \<and> FirstTrackedSlot e = 0"

definition live_bits :: "bool list \<Rightarrow> nat set" where
  "live_bits bs = {i. i < length bs \<and> bs ! i}"

definition sets_ok :: "Emitter \<Rightarrow> LiveSets \<Rightarrow> bool" where
  "sets_ok e ls \<longleftrightarrow> length (OldLiveSet ls) = LiveBitSetSize ls \<and> length (NewLiveSet ls) = LiveBitSetSize ls
     \<and> length (SlotMap e) \<le> LiveBitSetSize ls \<and> 0 < LiveBitSetSize ls
     \<and> live_bits (OldLiveSet ls) \<subseteq> {..<length (SlotMap e)} \<and> live_bits (NewLiveSet ls) \<subseteq> {..<length (SlotMap e)}
     \<and> live_bits (OldLiveSet ls) = replay (transitions (Encoder e)) {}"

definition ids_of :: "(int \<times> nat) list \<Rightarrow> int set \<Rightarrow> nat set" where
  "ids_of m offs = {i. \<exists>off \<in> offs. map_of m off = Some i}"

text \<open>One location: the slot of the offset is there and marked, and nothing else changes.\<close>

definition marks :: "int set \<Rightarrow> Emitter \<times> LiveSets \<Rightarrow> Emitter \<times> LiveSets \<Rightarrow> bool" where
  "marks offs = (\<lambda>(e, ls) (e', ls'). slots_ok e' \<and> sets_ok e' ls' \<and> (\<exists>xs. SlotMap e' = SlotMap e @ xs)
     \<and> transitions (Encoder e') = transitions (Encoder e) \<and> CallSites e' = CallSites e
     \<and> live_bits (OldLiveSet ls') = live_bits (OldLiveSet ls)
     \<and> offs \<subseteq> fst ` set (SlotMap e')
     \<and> live_bits (NewLiveSet ls') = live_bits (NewLiveSet ls) \<union> ids_of (SlotMap e') offs)"

text \<open>One record: afterwards the old live set, which the transitions so far give, is that of the record.\<close>

definition between_records :: "Emitter \<Rightarrow> LiveSets \<Rightarrow> bool" where
  "between_records e ls \<longleftrightarrow> slots_ok e \<and> sets_ok e ls \<and> live_bits (NewLiveSet ls) = {}"

definition offsets_increase :: "StackMapRecord list \<Rightarrow> bool" where
  "offsets_increase Rs = sorted_wrt (\<lambda>R S. InstructionOffset R < InstructionOffset S) Rs"

subsection \<open>What the calls mean to the runtime\<close>

lemma slot_offsets_append [simp]: "slot_offsets (cs @ ds) = slot_offsets cs @ slot_offsets ds"
  by (induction cs rule: slot_offsets.induct) auto

lemma transitions_append [simp]: "transitions (cs @ ds) = transitions cs @ transitions ds"
  by (induction cs rule: transitions.induct) auto

lemma replay_append [simp]: "replay (ts @ us) live = replay us (replay ts live)"
  by (induction ts live rule: replay.induct) auto

lemma map_put_new: "map_of m k = None \<Longrightarrow> map_put k v m = m @ [(k, v)]"
  by (induction m) (auto split: if_splits)

lemma live_bits_update: "i < length bs \<Longrightarrow> live_bits (bs[i := b]) = (if b then insert i (live_bits bs) else live_bits bs - {i})"
  by (auto simp: live_bits_def nth_list_update)

lemma live_bits_resize: "length bs \<le> n \<Longrightarrow> live_bits (bits_resize n bs) = live_bits bs"
proof -
  assume n: "length bs \<le> n"
  then have "bits_resize n bs ! i = (i < length bs \<and> bs ! i)" if "i < n" for i
    using that by (cases "i < length bs") (auto simp: bits_resize_def nth_append)
  then show ?thesis using n by (auto simp: live_bits_def bits_resize_def)
qed

lemma slots_ok_id: "slots_ok e \<Longrightarrow> map_of (SlotMap e) off = Some i \<Longrightarrow> i < length (SlotMap e) \<and> slot_offsets (Encoder e) ! i = off"
proof -
  assume ok: "slots_ok e" and "map_of (SlotMap e) off = Some i"
  then have "(off, i) \<in> set (SlotMap e)" by (simp add: map_of_SomeD)
  then obtain k where k: "k < length (SlotMap e)" "SlotMap e ! k = (off, i)" by (auto simp: in_set_conv_nth)
  have "map snd (SlotMap e) ! k = [0..<length (SlotMap e)] ! k" "map fst (SlotMap e) ! k = slot_offsets (Encoder e) ! k" using ok by (auto simp: slots_ok_def)
  then show ?thesis using k by simp
qed

lemma getTrackedSlot_ok:
  assumes "sequential_ids ids" "slots_ok e" "map_of (SlotMap e) off = None" "off \<noteq> InvalidPointerOffset"
  shows "\<exists>e'. getTrackedSlot ids off e = Inr (length (SlotMap e), e') \<and> slots_ok e' \<and> SlotMap e' = SlotMap e @ [(off, length (SlotMap e))]
     \<and> Encoder e' = Encoder e @ [GetStackSlotId off [GC_SLOT_INTERIOR]] \<and> CallSites e' = CallSites e"
proof -
  have n: "length (slot_offsets (Encoder e)) = length (SlotMap e)" using assms(2) by (metis length_map slots_ok_def)
  have d: "off \<notin> set (slot_offsets (Encoder e))" using assms(2,3) by (metis map_of_eq_None_iff list.set_map slots_ok_def)
  show ?thesis using assms n d
    by (auto simp: getTrackedSlot_def getSlot_def hasSlot_def sequential_ids_def encoder_call_def map_put_new slots_ok_def Let_def)
qed

lemma ids_of_simps [simp]: "ids_of m {} = {}" "ids_of m (A \<union> B) = ids_of m A \<union> ids_of m B"
  "ids_of m {off} = (case map_of m off of None \<Rightarrow> {} | Some i \<Rightarrow> {i})"
  by (auto simp: ids_of_def split: option.splits)

lemma marks_none: "slots_ok e \<Longrightarrow> sets_ok e ls \<Longrightarrow> marks {} (e, ls) (e, ls)"
  by (simp add: marks_def)

lemma map_of_extend: "distinct (map fst (xs @ ys)) \<Longrightarrow> k \<in> fst ` set xs \<Longrightarrow> map_of (xs @ ys) k = map_of xs k"
  by (auto simp: map_add_def map_of_eq_None_iff split: option.splits)

lemma marks_trans:
  assumes "marks A st1 st2" "marks B st2 st3" shows "marks (A \<union> B) st1 st3"
proof -
  obtain e1 l1 e2 l2 e3 l3 where st: "st1 = (e1, l1)" "st2 = (e2, l2)" "st3 = (e3, l3)" by (metis surj_pair)
  from assms(2) st obtain xs where xs: "SlotMap e3 = SlotMap e2 @ xs" by (auto simp: marks_def)
  have "distinct (map fst (SlotMap e3))" using assms(2) unfolding st marks_def slots_ok_def by blast
  then have dist: "distinct (map fst (SlotMap e2 @ xs))" unfolding xs .
  have "A \<subseteq> fst ` set (SlotMap e2)" using assms(1) unfolding st marks_def by blast
  then have "map_of (SlotMap e3) off = map_of (SlotMap e2) off" if "off \<in> A" for off
    using that map_of_extend[OF dist, of off] unfolding xs by blast
  then have "ids_of (SlotMap e3) A = ids_of (SlotMap e2) A" by (simp add: ids_of_def)
  moreover have "fst ` set (SlotMap e2) \<subseteq> fst ` set (SlotMap e3)" unfolding xs by auto
  moreover obtain ys where "SlotMap e2 = SlotMap e1 @ ys" using assms(1) unfolding st marks_def by blast
  then have "SlotMap e3 = SlotMap e1 @ (ys @ xs)" unfolding xs by simp
  ultimately have "A \<union> B \<subseteq> fst ` set (SlotMap e3)" "\<exists>zs. SlotMap e3 = SlotMap e1 @ zs"
    "live_bits (NewLiveSet l3) = live_bits (NewLiveSet l1) \<union> ids_of (SlotMap e3) (A \<union> B)"
    using assms unfolding st marks_def prod.case by auto
  then show ?thesis using assms unfolding st marks_def prod.case by metis
qed

lemma encode_location_ok:
  assumes "sequential_ids ids" "slots_ok e" "sets_ok e ls" "encodable loc"
  shows "\<exists>st'. encode_location ids loc (e, ls) = Inr st' \<and> marks {off. \<exists>reg. loc = LocIndirect reg off} (e, ls) st'"
proof (cases loc)
  case (LocIndirect reg off)
  then have off: "reg = DW_STACK_POINTER" "off \<noteq> InvalidPointerOffset" using assms(4) by (auto simp: encodable_def)
  have S: "{off'. \<exists>reg. loc = LocIndirect reg off'} = {off}" using LocIndirect by auto
  obtain i e1 ls1 where step: "(case map_of (SlotMap e) off of None \<Rightarrow> new_tracked_slot ids off e ls | Some SlotID \<Rightarrow> Inr (SlotID, e, ls)) = Inr (i, e1, ls1)"
    and m: "marks {} (e, ls) (e1, ls1)" "map_of (SlotMap e1) off = Some i"
  proof (cases "map_of (SlotMap e) off")
    case (Some i)
    then show ?thesis using that[of i e ls] marks_none[OF assms(2,3)] by simp
  next
    case None
    from getTrackedSlot_ok[OF assms(1,2) None off(2)] obtain e1 where e1:
      "getTrackedSlot ids off e = Inr (length (SlotMap e), e1)" "slots_ok e1" "SlotMap e1 = SlotMap e @ [(off, length (SlotMap e))]"
      "Encoder e1 = Encoder e @ [GetStackSlotId off [GC_SLOT_INTERIOR]]" "CallSites e1 = CallSites e" by blast
    let ?n = "LiveBitSetSize ls + LiveBitSetSize ls"
    let ?ls = "if length (SlotMap e1) > LiveBitSetSize ls then
       \<lparr>LiveBitSetSize = ?n, OldLiveSet = bits_resize ?n (OldLiveSet ls), NewLiveSet = bits_resize ?n (NewLiveSet ls)\<rparr> else ls"
    have "new_tracked_slot ids off e ls = Inr (length (SlotMap e), e1, ?ls)"
      using e1(1) assms(3) by (auto simp: new_tracked_slot_def sets_ok_def Let_def)
    moreover have "live_bits (OldLiveSet ?ls) = live_bits (OldLiveSet ls)" "live_bits (NewLiveSet ?ls) = live_bits (NewLiveSet ls)"
      using assms(3) by (auto simp: live_bits_resize sets_ok_def)
    moreover have "sets_ok e1 ?ls"
    proof -
      have len: "length (OldLiveSet ?ls) = LiveBitSetSize ?ls" "length (NewLiveSet ?ls) = LiveBitSetSize ?ls" "length (SlotMap e1) \<le> LiveBitSetSize ?ls"
        "0 < LiveBitSetSize ?ls" using assms(3) e1(3) by (auto simp: sets_ok_def bits_resize_def)
      have "{..<length (SlotMap e)} \<subseteq> {..<length (SlotMap e1)}" "transitions (Encoder e1) = transitions (Encoder e)" using e1(3,4) by auto
      then show ?thesis using len assms(3) unfolding sets_ok_def calculation(2,3) by auto
    qed
    moreover have "map_of (SlotMap e1) off = Some (length (SlotMap e))" using None e1(3) by (simp add: map_add_def)
    ultimately show ?thesis using that[of "length (SlotMap e)" e1 ?ls] None e1 by (auto simp: marks_def)
  qed
  have ok1: "slots_ok e1" "sets_ok e1 ls1" using m(1) by (auto simp: marks_def)
  have i: "i < length (SlotMap e1)" using slots_ok_id[OF ok1(1) m(2)] by simp
  then have il: "i < length (NewLiveSet ls1)" using ok1(2) by (simp add: sets_ok_def)
  let ?ls = "ls1\<lparr>NewLiveSet := (NewLiveSet ls1)[i := True]\<rparr>"
  have "encode_location ids loc (e, ls) = Inr (e1, ?ls)"
    using LocIndirect off(1) step ok1(1) i il by (auto simp: encode_location_def isTrackedSlot_def slots_ok_def rassert_def)
  moreover have "marks {off} (e1, ls1) (e1, ?ls)"
  proof -
    have "off \<in> fst ` set (SlotMap e1)" using m(2) by (force dest: map_of_SomeD)
    then show ?thesis using ok1 m(2) i il by (auto simp: marks_def sets_ok_def live_bits_update)
  qed
  ultimately show ?thesis unfolding S using marks_trans[OF m(1)] by fastforce
qed (use assms marks_none in \<open>auto simp: encode_location_def encodable_def\<close>)

lemma encode_locations_ok:
  assumes "sequential_ids ids" "slots_ok e" "sets_ok e ls" "\<forall>loc \<in> set locs. encodable loc"
  shows "\<exists>st'. encode_locations ids locs (e, ls) = Inr st' \<and> marks {off. \<exists>reg. LocIndirect reg off \<in> set locs} (e, ls) st'"
  using assms(2-4)
proof (induction locs arbitrary: e ls)
  case Nil
  then show ?case using marks_none by simp
next
  case (Cons loc locs)
  from encode_location_ok[OF assms(1) Cons.prems(1,2), of loc] Cons.prems(3) obtain e1 ls1 where
    1: "encode_location ids loc (e, ls) = Inr (e1, ls1)" "marks {off. \<exists>reg. loc = LocIndirect reg off} (e, ls) (e1, ls1)" by auto
  then have "slots_ok e1" "sets_ok e1 ls1" by (auto simp: marks_def)
  from Cons.IH[OF this] Cons.prems(3) obtain st' where
    2: "encode_locations ids locs (e1, ls1) = Inr st'" "marks {off. \<exists>reg. LocIndirect reg off \<in> set locs} (e1, ls1) st'" by auto
  have "{off. \<exists>reg. LocIndirect reg off \<in> set (loc # locs)} = {off. \<exists>reg. loc = LocIndirect reg off} \<union> {off. \<exists>reg. LocIndirect reg off \<in> set locs}" by auto
  then show ?case using 1(1) 2(1) marks_trans[OF 1(2) 2(2)] by simp
qed

text \<open>The transitions of one record bring the old live set to the new one.\<close>

lemma slot_transitions_ok:
  assumes "\<forall>i \<in> set is. i < length (OldLiveSet ls)" "length (OldLiveSet ls) = length (NewLiveSet ls)" "distinct is"
  shows "\<exists>e' ls' cs. slot_transitions off is (e, ls) = Inr (e', ls') \<and> SlotMap e' = SlotMap e \<and> CallSites e' = CallSites e
     \<and> NumTrackedSlots e' = NumTrackedSlots e \<and> FirstTrackedSlot e' = FirstTrackedSlot e
     \<and> Encoder e' = Encoder e @ cs \<and> slot_offsets cs = [] \<and> (\<forall>t \<in> set (transitions cs). fst t = off)
     \<and> replay (transitions cs) (live_bits (OldLiveSet ls)) = live_bits (OldLiveSet ls')
     \<and> LiveBitSetSize ls' = LiveBitSetSize ls \<and> length (OldLiveSet ls') = length (OldLiveSet ls) \<and> length (NewLiveSet ls') = length (NewLiveSet ls)
     \<and> live_bits (OldLiveSet ls') = (live_bits (OldLiveSet ls) - set is) \<union> (live_bits (NewLiveSet ls) \<inter> set is)
     \<and> live_bits (NewLiveSet ls') = live_bits (NewLiveSet ls) - set is"
  using assms
proof (induction "is" arbitrary: e ls)
  case Nil
  then show ?case by (intro exI[of _ e] exI[of _ ls] exI[of _ "[]"]) simp
next
  case (Cons i "is")
  let ?old = "OldLiveSet ls ! i" and ?new = "NewLiveSet ls ! i"
  define cs0 where "cs0 = (if \<not> ?old \<and> ?new then [SetSlotState off i True] else if ?old \<and> \<not> ?new then [SetSlotState off i False] else [])"
  let ?e = "e\<lparr>Encoder := Encoder e @ cs0\<rparr>"
  let ?ls = "ls\<lparr>OldLiveSet := (OldLiveSet ls)[i := ?new], NewLiveSet := (NewLiveSet ls)[i := False]\<rparr>"
  have i: "i < length (OldLiveSet ls)" "i < length (NewLiveSet ls)" using Cons.prems by auto
  have step: "slot_transition off i (e, ls) = Inr (?e, ?ls)" using i by (simp add: slot_transition_def encoder_call_def cs0_def)
  have "(i \<in> live_bits (OldLiveSet ls)) = ?old" "(i \<in> live_bits (NewLiveSet ls)) = ?new" using i by (simp_all add: live_bits_def)
  note mem = this
  have r: "replay (transitions cs0) (live_bits (OldLiveSet ls)) = live_bits ((OldLiveSet ls)[i := ?new])"
    using i mem by (auto simp: live_bits_update cs0_def)
  have "\<forall>i \<in> set is. i < length (OldLiveSet ?ls)" "length (OldLiveSet ?ls) = length (NewLiveSet ?ls)" "distinct is" using Cons.prems by auto
  from Cons.IH[OF this, of ?e] obtain e' ls' cs where
    IH: "slot_transitions off is (?e, ?ls) = Inr (e', ls')" "SlotMap e' = SlotMap ?e" "CallSites e' = CallSites ?e"
     "NumTrackedSlots e' = NumTrackedSlots ?e" "FirstTrackedSlot e' = FirstTrackedSlot ?e"
     "Encoder e' = Encoder ?e @ cs" "slot_offsets cs = []" "\<forall>t \<in> set (transitions cs). fst t = off"
     "replay (transitions cs) (live_bits (OldLiveSet ?ls)) = live_bits (OldLiveSet ls')"
     "LiveBitSetSize ls' = LiveBitSetSize ?ls" "length (OldLiveSet ls') = length (OldLiveSet ?ls)" "length (NewLiveSet ls') = length (NewLiveSet ?ls)"
     "live_bits (OldLiveSet ls') = (live_bits (OldLiveSet ?ls) - set is) \<union> (live_bits (NewLiveSet ?ls) \<inter> set is)"
     "live_bits (NewLiveSet ls') = live_bits (NewLiveSet ?ls) - set is" by blast
  have old: "live_bits (OldLiveSet ls') = (live_bits (OldLiveSet ls) - set (i # is)) \<union> (live_bits (NewLiveSet ls) \<inter> set (i # is))"
    using IH(13) i mem Cons.prems(3) by (auto simp: live_bits_update)
  have new: "live_bits (NewLiveSet ls') = live_bits (NewLiveSet ls) - set (i # is)" using IH(14) i by (simp add: live_bits_update) blast
  have "slot_transitions off (i # is) (e, ls) = Inr (e', ls')" using step IH(1) by simp
  moreover have "slot_offsets (cs0 @ cs) = []" "\<forall>t \<in> set (transitions (cs0 @ cs)). fst t = off" using IH(7,8) by (auto simp: cs0_def)
  moreover have "replay (transitions (cs0 @ cs)) (live_bits (OldLiveSet ls)) = live_bits (OldLiveSet ls')" using r IH(9) by simp
  ultimately show ?case using IH(2-6,10-12) old new by (intro exI[of _ e'] exI[of _ ls'] exI[of _ "cs0 @ cs"] conjI) simp_all
qed

lemma encode_record_ok:
  assumes "sequential_ids ids" "between_records e ls" "\<forall>loc \<in> set (locations R). encodable loc"
  shows "\<exists>e' ls' ts. encode_record ids R (e, ls) = Inr (e', ls') \<and> between_records e' ls' \<and> (\<exists>xs. SlotMap e' = SlotMap e @ xs)
     \<and> transitions (Encoder e') = transitions (Encoder e) @ ts \<and> (\<forall>t \<in> set ts. fst t = InstructionOffset R)
     \<and> live_offsets R \<subseteq> fst ` set (SlotMap e') \<and> replay (transitions (Encoder e')) {} = ids_of (SlotMap e') (live_offsets R)
     \<and> CallSites e' = map_option (\<lambda>cs. cs @ [(InstructionOffset R, CallSiteSize)]) (CallSites e)"
proof -
  let ?e = "add_call_site (InstructionOffset R) e"
  have "slots_ok ?e" "sets_ok ?e ls" using assms(2) by (auto simp: between_records_def add_call_site_def slots_ok_def sets_ok_def)
  from encode_locations_ok[OF assms(1) this assms(3)] obtain e1 ls1 where
    1: "encode_locations ids (locations R) (?e, ls) = Inr (e1, ls1)" "marks (live_offsets R) (?e, ls) (e1, ls1)" by (auto simp: live_offsets_def)
  have ok1: "slots_ok e1" "sets_ok e1 ls1" and new1: "live_bits (NewLiveSet ls1) = ids_of (SlotMap e1) (live_offsets R)"
    and sm: "\<exists>xs. SlotMap e1 = SlotMap e @ xs" and tr: "transitions (Encoder e1) = transitions (Encoder e)"
    and sub: "live_offsets R \<subseteq> fst ` set (SlotMap e1)"
    and cs: "CallSites e1 = map_option (\<lambda>cs. cs @ [(InstructionOffset R, CallSiteSize)]) (CallSites e)"
    using 1(2) assms(2) by (auto simp: marks_def between_records_def add_call_site_def)
  have "\<forall>i \<in> set [0..<length (SlotMap e1)]. i < length (OldLiveSet ls1)" "length (OldLiveSet ls1) = length (NewLiveSet ls1)"
    using ok1(2) by (auto simp: sets_ok_def)
  from slot_transitions_ok[OF this, of "InstructionOffset R" e1] obtain e2 ls2 cs2 where
    2: "slot_transitions (InstructionOffset R) [0..<length (SlotMap e1)] (e1, ls1) = Inr (e2, ls2)" "SlotMap e2 = SlotMap e1"
     "CallSites e2 = CallSites e1" "NumTrackedSlots e2 = NumTrackedSlots e1" "FirstTrackedSlot e2 = FirstTrackedSlot e1"
     "Encoder e2 = Encoder e1 @ cs2" "slot_offsets cs2 = []" "\<forall>t \<in> set (transitions cs2). fst t = InstructionOffset R"
     "replay (transitions cs2) (live_bits (OldLiveSet ls1)) = live_bits (OldLiveSet ls2)"
     "LiveBitSetSize ls2 = LiveBitSetSize ls1" "length (OldLiveSet ls2) = length (OldLiveSet ls1)" "length (NewLiveSet ls2) = length (NewLiveSet ls1)"
     "live_bits (OldLiveSet ls2) = (live_bits (OldLiveSet ls1) - {0..<length (SlotMap e1)}) \<union> (live_bits (NewLiveSet ls1) \<inter> {0..<length (SlotMap e1)})"
     "live_bits (NewLiveSet ls2) = live_bits (NewLiveSet ls1) - {0..<length (SlotMap e1)}" by auto
  have inside: "live_bits (OldLiveSet ls1) \<subseteq> {0..<length (SlotMap e1)}" "live_bits (NewLiveSet ls1) \<subseteq> {0..<length (SlotMap e1)}"
    using ok1(2) by (auto simp: sets_ok_def)
  have old2: "live_bits (OldLiveSet ls2) = live_bits (NewLiveSet ls1)" and new2: "live_bits (NewLiveSet ls2) = {}"
    using 2(13,14) inside by auto
  have rep: "replay (transitions (Encoder e2)) {} = live_bits (OldLiveSet ls2)" using 2(6,9) ok1(2) by (simp add: sets_ok_def)
  have "slots_ok e2" using ok1(1) 2(2,4-7) by (auto simp: slots_ok_def)
  moreover have "sets_ok e2 ls2" using ok1(2) 2(2,10-12) inside old2 new2 rep by (auto simp: sets_ok_def)
  ultimately have "between_records e2 ls2" using new2 by (simp add: between_records_def)
  moreover have "encode_record ids R (e, ls) = Inr (e2, ls2)" using 1(1) 2(1) by (simp add: encode_record_def)
  moreover have "transitions (Encoder e2) = transitions (Encoder e) @ transitions cs2" using 2(6) tr by simp
  ultimately show ?thesis using sm sub cs 2(2,3,8) rep old2 new1
    by (intro exI[of _ e2] exI[of _ ls2] exI[of _ "transitions cs2"]) simp
qed

lemma ids_of_extend:
  assumes "slots_ok e'" "SlotMap e' = SlotMap e @ xs" "A \<subseteq> fst ` set (SlotMap e)"
  shows "ids_of (SlotMap e') A = ids_of (SlotMap e) A"
proof -
  have "distinct (map fst (SlotMap e'))" using assms(1) unfolding slots_ok_def by blast
  then have "distinct (map fst (SlotMap e @ xs))" unfolding assms(2) .
  then have "map_of (SlotMap e') off = map_of (SlotMap e) off" if "off \<in> A" for off
    using map_of_extend[of "SlotMap e" xs off] that assms(3) unfolding assms(2) by blast
  then show ?thesis by (simp add: ids_of_def)
qed

lemma encode_records_ok:
  assumes "sequential_ids ids" "between_records e ls" "\<forall>R \<in> set Rs. \<forall>loc \<in> set (locations R). encodable loc" "offsets_increase Rs"
    and "\<forall>t \<in> set (transitions (Encoder e)). \<forall>R \<in> set Rs. fst t < InstructionOffset R"
  shows "\<exists>e' ls' ts. encode_records ids Rs (e, ls) = Inr (e', ls') \<and> between_records e' ls' \<and> (\<exists>xs. SlotMap e' = SlotMap e @ xs)
     \<and> transitions (Encoder e') = transitions (Encoder e) @ ts \<and> fst ` set ts \<subseteq> InstructionOffset ` set Rs
     \<and> (\<forall>R \<in> set Rs. live_offsets R \<subseteq> fst ` set (SlotMap e')
          \<and> replay (filter (\<lambda>(o1, i, b). o1 \<le> InstructionOffset R) (transitions (Encoder e'))) {} = ids_of (SlotMap e') (live_offsets R))
     \<and> CallSites e' = map_option (\<lambda>cs. cs @ map (\<lambda>R. (InstructionOffset R, CallSiteSize)) Rs) (CallSites e)"
  using assms(2-5)
proof (induction Rs arbitrary: e ls)
  case Nil
  then show ?case by (intro exI[of _ e] exI[of _ ls] exI[of _ "[]"]) (simp add: option.map_ident)
next
  case (Cons R Rs)
  from encode_record_ok[OF assms(1) Cons.prems(1), of R] Cons.prems(2) obtain e1 ls1 ts1 where
    1: "encode_record ids R (e, ls) = Inr (e1, ls1)" "between_records e1 ls1" "\<exists>xs. SlotMap e1 = SlotMap e @ xs"
     "transitions (Encoder e1) = transitions (Encoder e) @ ts1" "\<forall>t \<in> set ts1. fst t = InstructionOffset R"
     "live_offsets R \<subseteq> fst ` set (SlotMap e1)" "replay (transitions (Encoder e1)) {} = ids_of (SlotMap e1) (live_offsets R)"
     "CallSites e1 = map_option (\<lambda>cs. cs @ [(InstructionOffset R, CallSiteSize)]) (CallSites e)" by auto
  have inc: "\<forall>S \<in> set Rs. InstructionOffset R < InstructionOffset S" "offsets_increase Rs" using Cons.prems(3) by (auto simp: offsets_increase_def)
  have lt: "\<forall>t \<in> set (transitions (Encoder e1)). \<forall>S \<in> set Rs. fst t < InstructionOffset S" using 1(4,5) Cons.prems(4) inc(1) by auto
  have enc: "\<forall>R \<in> set Rs. \<forall>loc \<in> set (locations R). encodable loc" using Cons.prems(2) by simp
  from Cons.IH[OF 1(2) enc inc(2) lt] obtain e2 ls2 ts2 where
    2: "encode_records ids Rs (e1, ls1) = Inr (e2, ls2)" "between_records e2 ls2" "\<exists>xs. SlotMap e2 = SlotMap e1 @ xs"
     "transitions (Encoder e2) = transitions (Encoder e1) @ ts2" "fst ` set ts2 \<subseteq> InstructionOffset ` set Rs"
     "\<forall>S \<in> set Rs. live_offsets S \<subseteq> fst ` set (SlotMap e2)
          \<and> replay (filter (\<lambda>(o1, i, b). o1 \<le> InstructionOffset S) (transitions (Encoder e2))) {} = ids_of (SlotMap e2) (live_offsets S)"
     "CallSites e2 = map_option (\<lambda>cs. cs @ map (\<lambda>R. (InstructionOffset R, CallSiteSize)) Rs) (CallSites e1)" by blast
  obtain xs where xs: "SlotMap e2 = SlotMap e1 @ xs" using 2(3) by blast
  have "filter (\<lambda>(o1, i, b). o1 \<le> InstructionOffset R) (transitions (Encoder e1)) = transitions (Encoder e1)"
    using 1(4,5) Cons.prems(4) by (intro filter_True) (force dest: order.strict_implies_order)
  moreover have "filter (\<lambda>(o1, i, b). o1 \<le> InstructionOffset R) ts2 = []"
    using 2(5) inc(1) by (intro filter_False) (fastforce simp: not_le)
  ultimately have "replay (filter (\<lambda>(o1, i, b). o1 \<le> InstructionOffset R) (transitions (Encoder e2))) {} = ids_of (SlotMap e2) (live_offsets R)"
    using 2(2,4) 1(7) ids_of_extend[OF _ xs 1(6)] by (simp add: between_records_def)
  moreover have "live_offsets R \<subseteq> fst ` set (SlotMap e2)" using 1(6) xs by auto
  ultimately have "\<forall>S \<in> set (R # Rs). live_offsets S \<subseteq> fst ` set (SlotMap e2)
       \<and> replay (filter (\<lambda>(o1, i, b). o1 \<le> InstructionOffset S) (transitions (Encoder e2))) {} = ids_of (SlotMap e2) (live_offsets S)"
    using 2(6) by simp
  moreover have "encode_records ids (R # Rs) (e, ls) = Inr (e2, ls2)" using 1(1) 2(1) by simp
  moreover have "fst ` set (ts1 @ ts2) \<subseteq> InstructionOffset ` set (R # Rs)" using 1(5) 2(5) by auto
  moreover have "transitions (Encoder e2) = transitions (Encoder e) @ (ts1 @ ts2)" using 1(4) 2(4) by simp
  moreover have "CallSites e2 = map_option (\<lambda>cs. cs @ map (\<lambda>R. (InstructionOffset R, CallSiteSize)) (R # Rs)) (CallSites e)"
    using 1(8) 2(7) by (simp add: option.map_comp comp_def)
  moreover have "\<exists>ys. SlotMap e2 = SlotMap e @ ys" using 1(3) xs by auto
  ultimately show ?case using 2(2) by blast
qed

lemma ids_of_offsets:
  assumes "slots_ok e" "A \<subseteq> fst ` set (SlotMap e)"
  shows "(\<lambda>i. slot_offsets (Encoder e) ! i) ` ids_of (SlotMap e) A = A"
proof
  show "(\<lambda>i. slot_offsets (Encoder e) ! i) ` ids_of (SlotMap e) A \<subseteq> A" using slots_ok_id[OF assms(1)] by (auto simp: ids_of_def)
  show "A \<subseteq> (\<lambda>i. slot_offsets (Encoder e) ! i) ` ids_of (SlotMap e) A"
  proof
    fix off assume off: "off \<in> A"
    then obtain i where "map_of (SlotMap e) off = Some i" using assms(2) by (metis (no_types, lifting) image_iff map_of_eq_None_iff not_None_eq subsetD)
    then show "off \<in> (\<lambda>i. slot_offsets (Encoder e) ! i) ` ids_of (SlotMap e) A"
      using slots_ok_id[OF assms(1)] off by (auto simp: ids_of_def image_iff)
  qed
qed

lemma encodeTrackedPointers_ok:
  assumes "sequential_ids ids" "getNumFunctions sm = 1" "offsets_increase (records sm)"
    and "\<forall>R \<in> set (records sm). \<forall>loc \<in> set (locations R). encodable loc"
    and "SlotMap e = []" "NumTrackedSlots e = 0" "FirstTrackedSlot e = 0" "slot_offsets (Encoder e) = []" "transitions (Encoder e) = []"
  shows "\<exists>e'. encodeTrackedPointers ids sm e = Inr e' \<and> slots_ok e'
     \<and> CallSites e' = Some (map (\<lambda>R. (InstructionOffset R, CallSiteSize)) (records sm))
     \<and> (\<forall>R \<in> set (records sm). decode_live (Encoder e') (InstructionOffset R) = live_offsets R
          \<and> replay (filter (\<lambda>(o1, i, b). o1 \<le> InstructionOffset R) (transitions (Encoder e'))) {} \<subseteq> {..<length (slot_offsets (Encoder e'))})"
proof -
  let ?e = "e\<lparr>CallSites := Some []\<rparr>"
  let ?ls = "\<lparr>LiveBitSetSize = 25, OldLiveSet = replicate 25 False, NewLiveSet = replicate 25 False\<rparr>"
  have z: "live_bits (replicate 25 False) = {}" by (simp add: live_bits_def)
  then have "between_records ?e ?ls" using assms(5-9) unfolding between_records_def by (simp add: slots_ok_def sets_ok_def)
  from encode_records_ok[OF assms(1) this assms(4,3)] assms(9) obtain e' ls' where
    e': "encode_records ids (records sm) (?e, ?ls) = Inr (e', ls')" "between_records e' ls'"
     "\<forall>R \<in> set (records sm). live_offsets R \<subseteq> fst ` set (SlotMap e')
          \<and> replay (filter (\<lambda>(o1, i, b). o1 \<le> InstructionOffset R) (transitions (Encoder e'))) {} = ids_of (SlotMap e') (live_offsets R)"
     "CallSites e' = Some (map (\<lambda>R. (InstructionOffset R, CallSiteSize)) (records sm))" by auto
  have ok: "slots_ok e'" using e'(2) by (simp add: between_records_def)
  have "encodeTrackedPointers ids sm e = Inr e'" using assms(2) e'(1) by (simp add: encodeTrackedPointers_def)
  moreover have "ids_of (SlotMap e') A \<subseteq> {..<length (slot_offsets (Encoder e'))}" for A
  proof -
    have "length (slot_offsets (Encoder e')) = length (SlotMap e')" using ok by (metis length_map slots_ok_def)
    then show ?thesis using slots_ok_id[OF ok] by (auto simp: ids_of_def)
  qed
  ultimately show ?thesis using ok e'(3,4) ids_of_offsets[OF ok] by (auto simp: decode_live_def)
qed

subsection \<open>Specification and samples\<close>

text \<open>Where a type holds GC pointers: a GC pointer at offset 0 of itself, a struct where its fields do.\<close>

inductive gc_pointer_in :: "DataLayout \<Rightarrow> LType \<Rightarrow> nat \<Rightarrow> bool" for L where
  gc_leaf: "isGcPointer t \<Longrightarrow> gc_pointer_in L t 0"
| gc_field: "i < length ts \<Longrightarrow> gc_pointer_in L (ts ! i) off \<Longrightarrow> gc_pointer_in L (StructType ts) (getElementOffset L ts i + off)"

text \<open>What LLVM promises of the layout of a struct without padding: every offset inside lies in the
  field that \<open>getElementContainingOffset\<close> names, and only in that one.\<close>

definition layout_ok :: "DataLayout \<Rightarrow> bool" where
  "layout_ok L \<longleftrightarrow> 0 < getPointerSize L \<and> (\<forall>a. getTypeStoreSize L (PointerType a) = getPointerSize L)
     \<and> (\<forall>ts off. off < getTypeStoreSize L (StructType ts) \<longrightarrow>
          (let i = getElementContainingOffset L ts off in i < length ts \<and> getElementOffset L ts i \<le> off
             \<and> off < getElementOffset L ts i + getTypeStoreSize L (ts ! i)))
     \<and> (\<forall>ts i off. i < length ts \<longrightarrow> getElementOffset L ts i \<le> off \<longrightarrow> off < getElementOffset L ts i + getTypeStoreSize L (ts ! i) \<longrightarrow>
          off < getTypeStoreSize L (StructType ts) \<and> getElementContainingOffset L ts off = i)"

definition pointers_aligned :: "DataLayout \<Rightarrow> LType list \<Rightarrow> bool" where
  "pointers_aligned L ts \<longleftrightarrow> (\<forall>off. gc_pointer_in L (StructType ts) off \<longrightarrow> getPointerSize L dvd off)"

definition covered :: "DataLayout \<Rightarrow> LType \<Rightarrow> nat \<Rightarrow> bool" where
  "covered L t rel \<longleftrightarrow> (\<exists>p. gc_pointer_in L t p \<and> p \<le> rel \<and> rel < p + getPointerSize L)"

text \<open>An invariant of the record of a function: the flags say what the types are.\<close>

definition flags_match :: "AllocaInst \<Rightarrow> AllocaInfo \<Rightarrow> bool" where
  "flags_match a i \<longleftrightarrow> (info_isGcPointer i \<longleftrightarrow> isGcPointer (getAllocatedType a))
     \<and> (info_isGcAggregate i \<longleftrightarrow> \<not> isGcPointer (getAllocatedType a) \<and> isGcAggregate (getAllocatedType a))"

definition info_ok :: "GcFuncInfo \<Rightarrow> bool" where
  "info_ok s \<longleftrightarrow> distinct (map fst (AllocaMap s)) \<and> (\<forall>(a, i) \<in> set (AllocaMap s). flags_match a i)"

definition untracked_slots :: "EncoderCall list \<Rightarrow> (int \<times> GcSlotFlag list) list" where
  "untracked_slots cs = concat (map (\<lambda>c. case c of GetStackSlotId off fl \<Rightarrow> if GC_SLOT_UNTRACKED \<in> set fl then [(off, fl)] else [] | _ \<Rightarrow> []) cs)"

definition untracked_offsets :: "EncoderCall list \<Rightarrow> int set" where
  "untracked_offsets cs = fst ` set (untracked_slots cs)"

definition slots_distinct :: "Emitter \<Rightarrow> bool" where
  "slots_distinct e \<longleftrightarrow> map fst (SlotMap e) = slot_offsets (Encoder e) \<and> distinct (slot_offsets (Encoder e))"

text \<open>The encoder gets only new untracked slots, at the given offsets.\<close>

definition adds_untracked :: "int set \<Rightarrow> Emitter \<Rightarrow> Emitter \<Rightarrow> bool" where
  "adds_untracked offs e e' \<longleftrightarrow> slots_distinct e' \<and> CallSites e' = CallSites e
     \<and> (\<exists>cs. Encoder e' = Encoder e @ cs \<and> transitions cs = [] \<and> untracked_offsets cs = offs \<and> offs = set (slot_offsets cs))"

definition pointer_slots :: "DataLayout \<Rightarrow> AllocaInst \<times> AllocaInfo \<Rightarrow> int set" where
  "pointer_slots L = (\<lambda>(a, i). {AllocaOffset i + int off | off. gc_pointer_in L (getAllocatedType a) off})"

definition frame_ok :: "DataLayout \<Rightarrow> AllocaInst \<times> AllocaInfo \<Rightarrow> bool" where
  "frame_ok L = (\<lambda>(a, i). (\<forall>ts. getAllocatedType a = StructType ts \<longrightarrow> pointers_aligned L ts)
     \<and> (\<forall>off. gc_pointer_in L (getAllocatedType a) off \<longrightarrow> 0 \<le> AllocaOffset i + int off \<and> AllocaOffset i + int off < 2 ^ 31))"

subsection \<open>Lemmas\<close>

inductive_cases gc_pointer_in_struct: "gc_pointer_in L (StructType ts) off"

lemma gc_pointer_in_leaf: "\<not> (\<exists>ts. t = StructType ts) \<Longrightarrow> gc_pointer_in L t off \<longleftrightarrow> isGcPointer t \<and> off = 0"
  by (auto elim: gc_pointer_in.cases intro: gc_pointer_in.intros)

lemma gc_pointer_in_struct_iff:
  "gc_pointer_in L (StructType ts) off \<longleftrightarrow> (\<exists>i q. i < length ts \<and> gc_pointer_in L (ts ! i) q \<and> off = getElementOffset L ts i + q)"
  by (auto elim!: gc_pointer_in_struct intro: gc_pointer_in.intros simp: isGcPointer_def)

lemma layout_field:
  assumes "layout_ok L" "i < length ts" "getElementOffset L ts i \<le> off" "off < getElementOffset L ts i + getTypeStoreSize L (ts ! i)"
  shows "off < getTypeStoreSize L (StructType ts)" "getElementContainingOffset L ts off = i"
  using assms unfolding layout_ok_def by blast+

lemma layout_containing:
  assumes "layout_ok L" "off < getTypeStoreSize L (StructType ts)"
  shows "getElementContainingOffset L ts off < length ts" "getElementOffset L ts (getElementContainingOffset L ts off) \<le> off"
    "off < getElementOffset L ts (getElementContainingOffset L ts off) + getTypeStoreSize L (ts ! getElementContainingOffset L ts off)"
  using assms unfolding layout_ok_def Let_def by blast+

lemma gc_pointer_inside:
  assumes "layout_ok L" shows "gc_pointer_in L t q \<Longrightarrow> q + getPointerSize L \<le> getTypeStoreSize L t"
proof (induction rule: gc_pointer_in.induct)
  case (gc_leaf t)
  then show ?case using assms by (auto simp: isGcPointer_def layout_ok_def split: LType.splits)
next
  case (gc_field i ts off)
  have "0 < getPointerSize L" using assms by (simp add: layout_ok_def)
  then have "getElementOffset L ts i + off + getPointerSize L - 1 < getTypeStoreSize L (StructType ts)"
    using gc_field by (intro layout_field(1)[OF assms, of i]) auto
  then show ?case using \<open>0 < getPointerSize L\<close> by linarith
qed

lemma covered_struct:
  assumes L: "layout_ok L" and off: "off < getTypeStoreSize L (StructType ts)" and i: "i = getElementContainingOffset L ts off"
  shows "covered L (StructType ts) off \<longleftrightarrow> covered L (ts ! i) (off - getElementOffset L ts i)"
proof
  assume "covered L (StructType ts) off"
  then obtain j q where j: "j < length ts" "gc_pointer_in L (ts ! j) q" "getElementOffset L ts j + q \<le> off" "off < getElementOffset L ts j + q + getPointerSize L"
    by (auto simp: covered_def gc_pointer_in_struct_iff)
  have "j = i" using layout_field(2)[OF L j(1), of off] gc_pointer_inside[OF L j(2)] j(3,4) i by simp
  then show "covered L (ts ! i) (off - getElementOffset L ts i)" using j by (auto simp: covered_def intro!: exI[of _ q])
next
  note c = layout_containing[OF L off]
  assume "covered L (ts ! i) (off - getElementOffset L ts i)"
  then obtain q where "gc_pointer_in L (ts ! i) q" "q \<le> off - getElementOffset L ts i" "off - getElementOffset L ts i < q + getPointerSize L" by (auto simp: covered_def)
  then show "covered L (StructType ts) off" using c i unfolding covered_def gc_pointer_in_struct_iff
    by (intro exI[of _ "getElementOffset L ts i + q"]) auto
qed

declare dive.simps [simp del] gc_pointers_from.simps [simp del]

lemma dive_covered:
  assumes "layout_ok L" "getElementOffset L fs i \<le> off" "off < getElementOffset L fs i + getTypeStoreSize L t"
  shows "\<exists>t'. dive L t fs off i = Inr t' \<and> isGcPointer t' = covered L t (off - getElementOffset L fs i)"
  using assms(2,3)
proof (induction "size t" arbitrary: t fs off i rule: less_induct)
  case less
  show ?case
  proof (cases "\<exists>ts. t = StructType ts")
    case False
    then have "dive L t fs off i = Inr t" by (cases t) (simp_all add: dive.simps)
    moreover have "isGcPointer t \<Longrightarrow> getTypeStoreSize L t = getPointerSize L" using assms(1) by (auto simp: isGcPointer_def layout_ok_def split: LType.splits)
    then have "covered L t (off - getElementOffset L fs i) \<longleftrightarrow> isGcPointer t"
      using less.prems unfolding covered_def gc_pointer_in_leaf[OF False] by auto
    ultimately show ?thesis by simp
  next
    case True
    then obtain ts where t: "t = StructType ts" by blast
    let ?rel = "off - getElementOffset L fs i" and ?j = "getElementContainingOffset L ts (off - getElementOffset L fs i)"
    have rel: "?rel < getTypeStoreSize L (StructType ts)" using less.prems t by simp
    note c = layout_containing[OF assms(1) rel]
    have sz: "size (ts ! ?j) < size t" using c(1) t by (auto simp: less_Suc_eq_le intro!: size_list_estimation' [OF nth_mem])
    have "dive L t fs off i = dive L (ts ! ?j) ts ?rel ?j" using less.prems(1) c(1) t by (subst dive.simps) (simp add: Let_def)
    then show ?thesis using less.hyps[OF sz c(2,3)] covered_struct[OF assms(1) rel refl] t by simp
  qed
qed

lemma gc_pointer_at_iff:
  assumes "layout_ok L" "pointers_aligned L ts" "off < getTypeStoreSize L (StructType ts)" "getPointerSize L dvd off"
  shows "gc_pointer_at L ts off = Inr (gc_pointer_in L (StructType ts) off)"
proof -
  let ?i = "getElementContainingOffset L ts off"
  note c = layout_containing[OF assms(1,3)]
  have ps: "0 < getPointerSize L" using assms(1) by (simp add: layout_ok_def)
  from dive_covered[OF assms(1) c(2,3)] obtain t' where t': "dive L (ts ! ?i) ts off ?i = Inr t'"
    "isGcPointer t' = covered L (StructType ts) off" using covered_struct[OF assms(1,3) refl] by auto
  have "covered L (StructType ts) off \<longleftrightarrow> gc_pointer_in L (StructType ts) off"
  proof
    assume "covered L (StructType ts) off"
    then obtain p where p: "gc_pointer_in L (StructType ts) p" "p \<le> off" "off < p + getPointerSize L" by (auto simp: covered_def)
    then have "getPointerSize L dvd off - p" using assms(2,4) by (simp add: pointers_aligned_def)
    then have "\<not> 0 < off - p" using dvd_imp_le[of "getPointerSize L" "off - p"] p(3) by linarith
    then show "gc_pointer_in L (StructType ts) off" using p by simp
  qed (use ps in \<open>auto simp: covered_def\<close>)
  then show ?thesis using t' c(1) by (simp add: gc_pointer_at_def)
qed

lemma gc_pointers_from_ok:
  assumes "layout_ok L" "pointers_aligned L ts"
  shows "getPointerSize L dvd off \<Longrightarrow> \<exists>ps. gc_pointers_from L ts (getTypeStoreSize L (StructType ts)) off = Inr ps
     \<and> sorted_wrt (<) ps \<and> set ps = {p. off \<le> p \<and> gc_pointer_in L (StructType ts) p}"
proof (induction "getTypeStoreSize L (StructType ts) - off" arbitrary: off rule: less_induct)
  case less
  let ?n = "getTypeStoreSize L (StructType ts)" and ?ps = "getPointerSize L"
  have pos: "0 < ?ps" using assms(1) by (simp add: layout_ok_def)
  show ?case
  proof (cases "off < ?n")
    case False
    then have "gc_pointers_from L ts ?n off = Inr []" by (subst gc_pointers_from.simps) simp
    moreover have "\<not> gc_pointer_in L (StructType ts) p" if "off \<le> p" for p
      using gc_pointer_inside[OF assms(1), of "StructType ts" p] that False pos by auto
    ultimately show ?thesis by auto
  next
    case True
    have "?n - (off + ?ps) < ?n - off" "?ps dvd off + ?ps" using True pos less.prems by auto
    from less.hyps[OF this] obtain ps where ps: "gc_pointers_from L ts ?n (off + ?ps) = Inr ps" "sorted_wrt (<) ps"
      "set ps = {p. off + ?ps \<le> p \<and> gc_pointer_in L (StructType ts) p}" by blast
    have here: "p = off \<or> off + ?ps \<le> p" if "off \<le> p" "gc_pointer_in L (StructType ts) p" for p
    proof -
      have "?ps dvd p - off" using that less.prems assms(2) by (simp add: pointers_aligned_def)
      then show ?thesis using dvd_imp_le[of ?ps "p - off"] that(1) by linarith
    qed
    have "gc_pointers_from L ts ?n off = Inr (if gc_pointer_in L (StructType ts) off then off # ps else ps)"
      using True pos ps(1) gc_pointer_at_iff[OF assms True less.prems] by (subst gc_pointers_from.simps) simp
    then show ?thesis using ps(2,3) here pos by auto
  qed
qed

lemma map_put_keys: "fst ` set (map_put k v m) = insert k (fst ` set m)"
  by (induction k v m rule: map_put.induct) auto

lemma map_put_set: "set (map_put k v m) \<subseteq> insert (k, v) (set m)"
  by (induction m) (auto split: if_splits)

lemma map_put_distinct: "distinct (map fst m) \<Longrightarrow> distinct (map fst (map_put k v m))"
  by (induction k v m rule: map_put.induct) (auto simp: map_put_keys)

lemma info_ok_put: "info_ok s \<Longrightarrow> flags_match a i \<Longrightarrow> info_ok (s\<lparr>AllocaMap := map_put a i (AllocaMap s)\<rparr>)"
  using map_put_set[of a i "AllocaMap s"] by (auto simp: info_ok_def map_put_distinct)

lemma flags_match_new: "flags_match a \<lparr>AllocaOffset = off, Flags = alloca_flags (getAllocatedType a)\<rparr>"
  by (simp add: flags_match_def alloca_flags_def info_isGcPointer_def info_isGcAggregate_def GcPointer_def GcAggregate_def NoFlags_def)

lemma flags_match_mark:
  assumes "flags_match a i" "fl AND GcValue = 0" shows "flags_match a (i\<lparr>Flags := Flags i OR fl\<rparr>)"
proof -
  have "fl AND GcPointer = 0" "fl AND GcAggregate = 0"
    using assms(2) by (auto simp: GcValue_def bit.conj_disj_distrib or_eq_0_iff)
  then show ?thesis using assms(1) by (simp add: flags_match_def info_isGcPointer_def info_isGcAggregate_def word_ao_dist)
qed

lemma info_ok_lookup: "info_ok s \<Longrightarrow> map_of (AllocaMap s) a = Some i \<Longrightarrow> flags_match a i"
  by (auto simp: info_ok_def dest: map_of_SomeD)

lemma info_ok_record: "info_ok s \<Longrightarrow> recordAlloca a s = Inr s' \<Longrightarrow> info_ok s'"
  by (auto simp: recordAlloca_def rbind_eq_Inr_iff intro: info_ok_put flags_match_new)

lemma info_ok_mark: "info_ok s \<Longrightarrow> fl AND GcValue = 0 \<Longrightarrow> mark_alloca gc a fl s = Inr s' \<Longrightarrow> info_ok s'"
  by (auto simp: mark_alloca_def alloca_info_def rbind_eq_Inr_iff split: option.splits intro: info_ok_put[OF _ flags_match_mark] dest: info_ok_lookup)

lemma flags_match_offset [simp]: "flags_match a (i\<lparr>AllocaOffset := off\<rparr>) = flags_match a i"
  by (simp add: flags_match_def info_isGcPointer_def info_isGcAggregate_def)

lemma info_ok_object: "info_ok s \<Longrightarrow> record_object hp F obj s = Inr s' \<Longrightarrow> info_ok s'"
  by (auto simp: record_object_def rbind_eq_Inr_iff split: option.splits intro!: info_ok_put simp: info_ok_lookup)

lemma info_ok_objects: "info_ok s \<Longrightarrow> record_objects hp F objs s = Inr s' \<Longrightarrow> info_ok s'"
  by (induction objs arbitrary: s) (auto simp: rbind_eq_Inr_iff dest: info_ok_object)

lemma info_ok_fields [simp]:
  "info_ok (s\<lparr>GenericsContextParamType := x\<rparr>) = info_ok s" "info_ok (s\<lparr>HasFunclets := y, PSPSymOffset := z\<rparr>) = info_ok s"
  by (simp_all add: info_ok_def)

subsection \<open>Untracked slots\<close>

lemma untracked_offsets_append [simp]: "untracked_offsets (cs @ ds) = untracked_offsets cs \<union> untracked_offsets ds"
  by (simp add: untracked_offsets_def untracked_slots_def image_Un)

lemma adds_untracked_refl: "slots_distinct e \<Longrightarrow> adds_untracked {} e e"
  unfolding adds_untracked_def by (intro conjI exI[of _ "[]"]) (simp_all add: untracked_offsets_def untracked_slots_def)

lemma adds_untracked_trans:
  assumes "adds_untracked A e e1" "adds_untracked B e1 e2" shows "adds_untracked (A \<union> B) e e2"
proof -
  obtain cs ds where "Encoder e1 = Encoder e @ cs" "transitions cs = []" "untracked_offsets cs = A" "A = set (slot_offsets cs)"
    "Encoder e2 = Encoder e1 @ ds" "transitions ds = []" "untracked_offsets ds = B" "B = set (slot_offsets ds)"
    using assms by (auto simp: adds_untracked_def)
  then show ?thesis using assms unfolding adds_untracked_def by (intro conjI exI[of _ "cs @ ds"]) auto
qed

lemma getUntrackedSlot_adds:
  assumes "slots_distinct e" "getUntrackedSlot ids off p o1 e = Inr e'" shows "adds_untracked {off} e e'"
proof -
  have e': "e' = e\<lparr>Encoder := Encoder e @ [GetStackSlotId off (untracked_flags p o1)], SlotMap := SlotMap e @ [(off, ids (Encoder e))]\<rparr>"
    and n: "map_of (SlotMap e) off = None"
    using assms(2) by (auto simp: getUntrackedSlot_def getSlot_def encoder_call_def hasSlot_def rbind_eq_Inr_iff Let_def map_put_new)
  have "off \<notin> set (slot_offsets (Encoder e))" using assms(1) n by (metis map_of_eq_None_iff list.set_map slots_distinct_def)
  moreover have "GC_SLOT_UNTRACKED \<in> set (untracked_flags p o1)" by (simp add: untracked_flags_def)
  ultimately show ?thesis using assms(1) unfolding e' adds_untracked_def
    by (intro conjI exI[of _ "[GetStackSlotId off (untracked_flags p o1)]"]) (auto simp: slots_distinct_def untracked_offsets_def untracked_slots_def)
qed

lemma adds_untracked_distinct: "adds_untracked A e e' \<Longrightarrow> slots_distinct e'"
  by (simp add: adds_untracked_def)

lemma encode_pointers_adds:
  "slots_distinct e \<Longrightarrow> encode_pointers ids agg p offs e = Inr e' \<Longrightarrow> adds_untracked ((\<lambda>off. signed_take_bit 31 (agg + int off)) ` set offs) e e'"
proof (induction offs arbitrary: e)
  case Nil
  then show ?case by (simp add: adds_untracked_refl)
next
  case (Cons off offs)
  from Cons.prems(2) obtain e1 where 1: "getUntrackedSlot ids (signed_take_bit 31 (agg + int off)) p True e = Inr e1" "encode_pointers ids agg p offs e1 = Inr e'"
    by (auto simp: rbind_eq_Inr_iff)
  note a = getUntrackedSlot_adds[OF Cons.prems(1) 1(1)]
  show ?case using adds_untracked_trans[OF a Cons.IH[OF adds_untracked_distinct[OF a] 1(2)]] by simp
qed

lemma gc_pointer_in_type: "gc_pointer_in L t off \<Longrightarrow> isGcType t"
  by (induction rule: gc_pointer_in.induct) (auto simp: isGcType_def intro: nth_mem)

lemma encode_alloca_adds:
  assumes L: "layout_ok L" and "slots_distinct e" "flags_match a i" "frame_ok L (a, i)" "encode_alloca ids L (a, i) e = Inr e'"
  shows "adds_untracked (pointer_slots L (a, i)) e e'"
proof -
  let ?t = "getAllocatedType a"
  consider (agg) "info_isGcAggregate i" | (ptr) "\<not> info_isGcAggregate i" "info_isGcPointer i" | (none) "\<not> info_isGcAggregate i" "\<not> info_isGcPointer i" by blast
  then show ?thesis
  proof cases
    case agg
    then obtain ts offs where ts: "?t = StructType ts" "getGcPointers L ts = Inr offs" "encode_pointers ids (AllocaOffset i) (info_isPinned i) offs e = Inr e'"
      using assms(5) by (auto simp: encode_alloca_def encodeGcAggregate_def rbind_eq_Inr_iff split: LType.splits)
    have al: "pointers_aligned L ts" using assms(4) ts(1) by (simp add: frame_ok_def)
    have set: "set offs = {p. gc_pointer_in L ?t p}" using gc_pointers_from_ok[OF L al, of 0] ts(1,2) by (auto simp: getGcPointers_def)
    have "signed_take_bit 31 (AllocaOffset i + int off) = AllocaOffset i + int off" if "off \<in> set offs" for off
      using that set assms(4) by (intro signed_take_bit_int_eq_self) (auto simp: frame_ok_def dest!: spec[of _ off])
    then have "(\<lambda>off. signed_take_bit 31 (AllocaOffset i + int off)) ` set offs = pointer_slots L (a, i)"
      using set by (auto simp: pointer_slots_def)
    then show ?thesis using encode_pointers_adds[OF assms(2) ts(3)] by simp
  next
    case ptr
    then have p: "isGcPointer ?t" using assms(3) by (simp add: flags_match_def)
    then have "\<not> (\<exists>ts. ?t = StructType ts)" by (auto simp: isGcPointer_def)
    then have "pointer_slots L (a, i) = {AllocaOffset i}" using p gc_pointer_in_leaf[of ?t L] by (auto simp: pointer_slots_def)
    then show ?thesis using ptr assms(5) getUntrackedSlot_adds[OF assms(2)] by (auto simp: encode_alloca_def rbind_eq_Inr_iff)
  next
    case none
    then have "\<not> isGcType ?t" using assms(3) by (auto simp: flags_match_def isGcType_def)
    then have "pointer_slots L (a, i) = {}" using gc_pointer_in_type[of L ?t] by (auto simp: pointer_slots_def)
    then show ?thesis using none assms(2,5) by (auto simp: encode_alloca_def rbind_eq_Inr_iff adds_untracked_refl)
  qed
qed

lemma encode_allocas_adds:
  assumes L: "layout_ok L"
  shows "slots_distinct e \<Longrightarrow> \<forall>(a, i) \<in> set xs. flags_match a i \<and> frame_ok L (a, i) \<Longrightarrow> encode_allocas ids L xs e = Inr e' \<Longrightarrow>
    adds_untracked (\<Union> (pointer_slots L ` set xs)) e e'"
proof (induction xs arbitrary: e)
  case Nil
  then show ?case by (simp add: adds_untracked_refl)
next
  case (Cons x xs)
  obtain a i where x: "x = (a, i)" by (cases x)
  from Cons.prems(3) obtain e1 where 1: "encode_alloca ids L (a, i) e = Inr e1" "encode_allocas ids L xs e1 = Inr e'" by (auto simp: rbind_eq_Inr_iff x)
  have ai: "flags_match a i" "frame_ok L (a, i)" and r: "\<forall>(a, i) \<in> set xs. flags_match a i \<and> frame_ok L (a, i)" using Cons.prems(2) x by auto
  note ad = encode_alloca_adds[OF L Cons.prems(1) ai 1(1)]
  show ?case using adds_untracked_trans[OF ad Cons.IH[OF adds_untracked_distinct[OF ad] r 1(2)]] by (simp add: x)
qed

end
