(* ===== verification/GcInfoProperties.thy ===== *)
theory GcInfoProperties
  imports GcInfo
begin

section \<open>GC information: properties\<close>

text \<open>
  The properties of lib/GcInfo/GcInfo.cpp: the liveness that the encoder is told is that of LLVM's stack
  map, the GC pointers of a struct are found, and the recording of allocations, the frame recorder and
  the emitter together account for every pointer of a function.
\<close>

subsection \<open>Specification and samples\<close>

text \<open>The calls with which the reader records the allocations of a function.\<close>

datatype RecordOp = RecordGcAlloca AllocaInst | RecordPinned AllocaInst | RecordSecurityObject AllocaInst
  | RecordGenericsContext AllocaInst GENERIC_CONTEXTPARAM_TYPE | RecordGsCookie AllocaInst u32 u32

fun record_op :: "RecordOp \<Rightarrow> GcFuncInfo \<Rightarrow> GcFuncInfo result" where
  "record_op (RecordGcAlloca a) = recordGcAlloca a"
| "record_op (RecordPinned a) = recordPinned a"
| "record_op (RecordSecurityObject a) = recordSecurityObject a"
| "record_op (RecordGenericsContext a ty) = recordGenericsContext a ty"
| "record_op (RecordGsCookie a x y) = recordGsCookie a x y"

fun record_ops :: "RecordOp list \<Rightarrow> GcFuncInfo \<Rightarrow> GcFuncInfo result" where
  "record_ops [] s = Inr s"
| "record_ops (op # ops) s = rbind (record_op op s) (record_ops ops)"

text \<open>A layout without padding, with pointers of 8 bytes.\<close>

fun packed_size :: "LType \<Rightarrow> nat" where
  "packed_size (PointerType a) = 8"
| "packed_size (VectorType t) = 2 * packed_size t"
| "packed_size (ArrayType t) = 2 * packed_size t"
| "packed_size (StructType ts) = sum_list (map packed_size ts)"
| "packed_size (OtherType n) = n"

fun packed_containing :: "LType list \<Rightarrow> nat \<Rightarrow> nat" where
  "packed_containing [] off = 0"
| "packed_containing (t # ts) off = (if off < packed_size t then 0 else Suc (packed_containing ts (off - packed_size t)))"

definition packed_layout :: DataLayout where
  "packed_layout = \<lparr>getPointerSize = 8, getTypeStoreSize = packed_size,
     getElementOffset = (\<lambda>ts i. sum_list (map packed_size (take i ts))), getElementContainingOffset = packed_containing\<rparr>"

definition sample_alloca :: AllocaInst where
  "sample_alloca = \<lparr>alloca_id = 0, getAllocatedType = PointerType 1\<rparr>"

definition sample_frame :: MachineFrame where
  "sample_frame = \<lparr>FrameObjects = [\<lparr>getObjectAllocation = Some sample_alloca, getObjectOffset = -16, isWinEHSpillSlot = False\<rparr>],
     getStackSize = 40, StackPointerSize = 8, PSPSymSlot = None\<rparr>"

definition sample_info :: GcFuncInfo where
  "sample_info = GcFuncInfo_new\<lparr>AllocaMap := [(sample_alloca, \<lparr>AllocaOffset = 32, Flags = 5\<rparr>)]\<rparr>"

text \<open>Two safepoints: a pointer at \<open>sp+8\<close> that is live at both and one at \<open>sp+16\<close> at the second.\<close>

definition sample_map :: StackMap where
  "sample_map = \<lparr>getNumFunctions = 1, records = [\<lparr>getInstructionOffset = 12, locations = [LocConstant 0, LocIndirect 7 8]\<rparr>,
     \<lparr>getInstructionOffset = 20, locations = [LocIndirect 7 16, LocIndirect 7 8]\<rparr>]\<rparr>"

definition sample_function :: GcFunction where
  "sample_function = \<lparr>isDeclaration = False, isGcFunction = True, isFPBasedFunction = False, isVarArg = False, Info = sample_info\<rparr>"

definition count_ids :: SlotIds where
  "count_ids cs = length (slot_offsets cs)"

lemma packed_containing_ok:
  "off < sum_list (map packed_size ts) \<Longrightarrow> (let i = packed_containing ts off in i < length ts
     \<and> sum_list (map packed_size (take i ts)) \<le> off \<and> off < sum_list (map packed_size (take i ts)) + packed_size (ts ! i))"
proof (induction ts off rule: packed_containing.induct)
  case (2 t ts off)
  show ?case
  proof (cases "off < packed_size t")
    case False
    then show ?thesis using 2(1)[OF False] 2(2) unfolding Let_def by simp linarith
  qed simp
qed simp

lemma packed_containing_unique:
  "i < length ts \<Longrightarrow> sum_list (map packed_size (take i ts)) \<le> off \<Longrightarrow> off < sum_list (map packed_size (take i ts)) + packed_size (ts ! i) \<Longrightarrow>
    off < sum_list (map packed_size ts) \<and> packed_containing ts off = i"
proof (induction ts off arbitrary: i rule: packed_containing.induct)
  case (2 t ts off)
  show ?case
  proof (cases i)
    case (Suc j)
    then show ?thesis using 2(1)[of j] 2(2-4) by simp linarith
  qed (use 2 in simp)
qed simp

lemma packed_layout_ok: "layout_ok packed_layout"
  using packed_containing_ok packed_containing_unique unfolding layout_ok_def packed_layout_def by simp

lemma count_ids_sequential: "sequential_ids count_ids"
  by (simp add: sequential_ids_def count_ids_def)

lemma record_op_ok: "info_ok s \<Longrightarrow> record_op op s = Inr s' \<Longrightarrow> info_ok s'"
proof (induction op)
  case (RecordGcAlloca a)
  then show ?case by (auto simp: recordGcAlloca_def rbind_eq_Inr_iff dest: info_ok_record)
next
  case (RecordPinned a)
  have "Pinned AND GcValue = 0" by (simp add: Pinned_def GcValue_def GcPointer_def GcAggregate_def)
  then show ?case using RecordPinned info_ok_mark by (simp add: recordPinned_def markGcAlloca_def)
next
  case (RecordSecurityObject a)
  have "SecurityObject AND GcValue = 0" by (simp add: SecurityObject_def GcValue_def GcPointer_def GcAggregate_def)
  then show ?case using RecordSecurityObject info_ok_mark by (simp add: recordSecurityObject_def markGcAlloca_def)
next
  case (RecordGenericsContext a ty)
  have "GenericsContext AND GcValue = 0" by (simp add: GenericsContext_def GcValue_def GcPointer_def GcAggregate_def)
  note g = this
  from RecordGenericsContext(2) obtain s1 where s1: "s' = s1\<lparr>GenericsContextParamType := ty\<rparr>"
    "mark_alloca True a GenericsContext s = Inr s1 \<or> (\<exists>s0. recordAlloca a s = Inr s0 \<and> mark_alloca False a GenericsContext s0 = Inr s1)"
    by (auto simp: recordGenericsContext_def markGcAlloca_def markNonGcAlloca_def rbind_eq_Inr_iff split: if_splits)
  then have "info_ok s1" using RecordGenericsContext(1) info_ok_mark[OF _ g] info_ok_record by blast
  then show ?case using s1(1) by simp
next
  case (RecordGsCookie a x y)
  then show ?case by (simp add: recordGsCookie_def)
qed

lemma record_ops_ok: "info_ok s \<Longrightarrow> record_ops ops s = Inr s' \<Longrightarrow> info_ok s'"
  by (induction ops arbitrary: s) (auto simp: rbind_eq_Inr_iff dest: record_op_ok)

lemma recorded_ok:
  assumes "record_ops ops GcFuncInfo_new = Inr s" "runOnMachineFunction hp F s = Inr s'" shows "info_ok s'"
proof -
  have "info_ok GcFuncInfo_new" by (simp add: info_ok_def GcFuncInfo_new_def)
  then have "info_ok s" using assms(1) record_ops_ok by blast
  then show ?thesis using assms(2) info_ok_objects by (fastforce simp: runOnMachineFunction_def rbind_eq_Inr_iff split: option.splits)
qed

lemma decode_live_extend:
  assumes "replay (filter (\<lambda>(o1, i, b). o1 \<le> off) (transitions cs)) {} \<subseteq> {..<length (slot_offsets cs)}" "transitions ds = []"
  shows "decode_live (cs @ ds) off = decode_live cs off"
  using assms unfolding decode_live_def by (intro image_cong) (auto simp: nth_append)

lemma header_calls: "slot_offsets (Encoder (encodeHeader n F Emitter_new)) = []" "transitions (Encoder (encodeHeader n F Emitter_new)) = []"
  "untracked_offsets (Encoder (encodeHeader n F Emitter_new)) = {}" "SlotMap (encodeHeader n F Emitter_new) = []"
  "NumTrackedSlots (encodeHeader n F Emitter_new) = 0" "FirstTrackedSlot (encodeHeader n F Emitter_new) = 0"
  by (auto simp: encodeHeader_def Emitter_new_def untracked_offsets_def untracked_slots_def)

lemma slots_ok_distinct: "slots_ok e \<Longrightarrow> slots_distinct e"
  unfolding slots_ok_def slots_distinct_def by metis

lemma untracked_offsets_single [simp]:
  "untracked_offsets [GetStackSlotId off [GC_SLOT_INTERIOR]] = {}" "untracked_offsets [SetSlotState off1 i b] = {}"
  by (simp_all add: untracked_offsets_def untracked_slots_def)

lemma getTracked_no_untracked: "getTrackedSlot ids off e = Inr (i, e') \<Longrightarrow> untracked_offsets (Encoder e') = untracked_offsets (Encoder e)"
  by (auto simp: getTrackedSlot_def getSlot_def encoder_call_def rbind_eq_Inr_iff Let_def split: if_splits)

lemma location_no_untracked:
  "encode_location ids loc st = Inr st' \<Longrightarrow> untracked_offsets (Encoder (fst st')) = untracked_offsets (Encoder (fst st))"
proof (cases loc)
  case (LocIndirect reg off)
  assume r: "encode_location ids loc st = Inr st'"
  obtain e ls where st: "st = (e, ls)" by (cases st)
  from r LocIndirect obtain i e1 ls1 where 1: "(case map_of (SlotMap e) off of None \<Rightarrow> new_tracked_slot ids off e ls | Some SlotID \<Rightarrow> Inr (SlotID, e, ls)) = Inr (i, e1, ls1)"
    and st': "fst st' = e1" by (auto simp: encode_location_def st rbind_eq_Inr_iff)
  from 1 have "e1 = e \<or> getTrackedSlot ids off e = Inr (i, e1)"
    by (auto simp: new_tracked_slot_def rbind_eq_Inr_iff Let_def split: option.splits if_splits)
  then show ?thesis using st st' getTracked_no_untracked by auto
qed (auto simp: encode_location_def split: prod.splits)

lemma locations_no_untracked:
  "encode_locations ids locs st = Inr st' \<Longrightarrow> untracked_offsets (Encoder (fst st')) = untracked_offsets (Encoder (fst st))"
  by (induction locs arbitrary: st) (auto simp: rbind_eq_Inr_iff dest: location_no_untracked)

lemma transitions_no_untracked:
  "slot_transitions off is st = Inr st' \<Longrightarrow> untracked_offsets (Encoder (fst st')) = untracked_offsets (Encoder (fst st))"
proof (induction "is" arbitrary: st)
  case (Cons i "is")
  then obtain st1 where 1: "slot_transition off i st = Inr st1" "slot_transitions off is st1 = Inr st'" by (auto simp: rbind_eq_Inr_iff)
  then have "untracked_offsets (Encoder (fst st1)) = untracked_offsets (Encoder (fst st))"
    by (auto simp: slot_transition_def encoder_call_def rbind_eq_Inr_iff Let_def split: prod.splits if_splits)
  then show ?case using Cons.IH[OF 1(2)] by simp
qed simp

lemma records_no_untracked:
  "encode_records ids Rs st = Inr st' \<Longrightarrow> untracked_offsets (Encoder (fst st')) = untracked_offsets (Encoder (fst st))"
proof (induction Rs arbitrary: st)
  case (Cons R Rs)
  then obtain st1 where 1: "encode_record ids R st = Inr st1" "encode_records ids Rs st1 = Inr st'" by (auto simp: rbind_eq_Inr_iff)
  then have "untracked_offsets (Encoder (fst st1)) = untracked_offsets (Encoder (fst st))"
    by (cases st) (auto simp: encode_record_def rbind_eq_Inr_iff add_call_site_def dest!: locations_no_untracked transitions_no_untracked)
  then show ?case using Cons.IH[OF 1(2)] by simp
qed simp

lemma encodeTracked_no_untracked:
  assumes "encodeTrackedPointers ids sm e = Inr e'" "untracked_offsets (Encoder e) = {}" shows "untracked_offsets (Encoder e') = {}"
  using assms by (auto simp: encodeTrackedPointers_def rbind_eq_Inr_iff dest!: records_no_untracked)

lemma sample_recorded:
  "rbind (record_ops [RecordGcAlloca sample_alloca, RecordPinned sample_alloca] GcFuncInfo_new) (runOnMachineFunction False sample_frame) = Inr sample_info"
  by code_simp

lemma sample_emitted: "\<exists>e. emitGCInfo_function count_ids packed_layout 64 True (Some sample_map) sample_function Emitter_new = Inr e"
proof -
  have "case emitGCInfo_function count_ids packed_layout 64 True (Some sample_map) sample_function Emitter_new of Inr e \<Rightarrow> True | Inl f \<Rightarrow> False" by code_simp
  then show ?thesis by (auto split: sum.splits)
qed

text \<open>A struct with an array of GC pointers: its pointers are not among those that \<open>getGcPointers\<close> finds.\<close>

lemma gc_array_field_missed:
  "isGcAggregate (StructType [ArrayType (PointerType 1), PointerType 1]) \<and> getGcPointers packed_layout [ArrayType (PointerType 1), PointerType 1] = Inr [16]"
  by code_simp

subsection \<open>Properties\<close>

text \<open>C3: the encoder learns exactly the live pointers of LLVM's stack map. The births and deaths of slots
  that \<open>encodeTrackedPointers\<close> reports, replayed up to the code offset of a safepoint, leave alive the
  slots of the stack offsets that the stack map lists at that safepoint, no more and no less, for any
  number of safepoints and slots; no assertion fails and the call sites are those of the records.\<close>

theorem gc_tracked_exact:
  assumes "sequential_ids ids" "getNumFunctions sm = 1" "offsets_increase (records sm)"
    and "\<forall>R \<in> set (records sm). \<forall>loc \<in> set (locations R). encodable loc"
  shows "\<exists>e. encodeTrackedPointers ids sm (encodeHeader n F Emitter_new) = Inr e
     \<and> CallSites e = Some (map (\<lambda>R. (InstructionOffset R, CallSiteSize)) (records sm))
     \<and> (\<forall>R \<in> set (records sm). decode_live (Encoder e) (InstructionOffset R) = live_offsets R)"
  using encodeTrackedPointers_ok[OF assms header_calls(4-6,1,2), of n F] by blast

theorem gc_tracked_exact_witness:
  "\<exists>e. encodeTrackedPointers count_ids sample_map (encodeHeader 64 sample_function Emitter_new) = Inr e
     \<and> decode_live (Encoder e) 10 = {8} \<and> decode_live (Encoder e) 18 = {8, 16}"
proof -
  have "offsets_increase (records sample_map)" "getNumFunctions sample_map = 1" "\<forall>R \<in> set (records sample_map). \<forall>loc \<in> set (locations R). encodable loc"
    by (simp_all add: sample_map_def offsets_increase_def InstructionOffset_def CallSiteSize_def encodable_def DW_STACK_POINTER_def InvalidPointerOffset_def)
  from gc_tracked_exact[OF count_ids_sequential this(2,1,3), of 64 sample_function] obtain e where
    "encodeTrackedPointers count_ids sample_map (encodeHeader 64 sample_function Emitter_new) = Inr e"
    "\<forall>R \<in> set (records sample_map). decode_live (Encoder e) (InstructionOffset R) = live_offsets R" by blast
  then show ?thesis by (intro exI[of _ e]) (auto simp: sample_map_def InstructionOffset_def CallSiteSize_def live_offsets_def)
qed

text \<open>C31: \<open>getGcPointers\<close> finds every GC pointer of a struct and nothing else: it returns, in increasing
  order, the offsets at which a GC pointer lies in the struct or in a struct nested in it, when the
  struct has no padding and its pointers are aligned.\<close>

theorem gc_pointers_exact:
  assumes "layout_ok L" "pointers_aligned L ts"
  shows "\<exists>offs. getGcPointers L ts = Inr offs \<and> sorted_wrt (<) offs \<and> set offs = {off. gc_pointer_in L (StructType ts) off}"
  using gc_pointers_from_ok[OF assms, of 0] by (simp add: getGcPointers_def)

theorem gc_pointers_exact_witness:
  "\<exists>offs. getGcPointers packed_layout [PointerType 1, PointerType 0] = Inr offs \<and> set offs = {0}"
proof -
  have g: "gc_pointer_in packed_layout (StructType [PointerType 1, PointerType 0]) off \<longleftrightarrow> off = 0" for off
    unfolding gc_pointer_in_struct_iff
    by (auto simp: less_Suc_eq gc_pointer_in_leaf isGcPointer_def ManagedAddressSpace_def packed_layout_def numeral_2_eq_2)
  then have "pointers_aligned packed_layout [PointerType 1, PointerType 0]" by (simp add: pointers_aligned_def)
  from gc_pointers_exact[OF packed_layout_ok this] g show ?thesis by auto
qed



end
