(* ===== verification/EEMemory.thy ===== *)
theory EEMemory
  imports Prelude
begin

unbundle bit_operations_syntax

section \<open>The memory manager of the jit\<close>

text \<open>
  lib/Jit/EEMemoryManager.cpp: the blocks that the execution engine reserves for a method, the placement
  of the read-only data sections in their block, and the unwind information, which is reserved from
  the .xdata section of the object file and registered from its loaded copy. Pointers are 64-bit
  words with 0 as the null pointer; the answer of the engine to \<open>allocMem\<close> is an argument, and its other
  calls are the values that the operations return.
\<close>

subsection \<open>Code and data sections\<close>

record MemoryManager =
  Prejit :: bool
  HotCodeSize :: u64
  ColdCodeSize :: u64
  ReadOnlyDataSize :: u64
  StackMapSize :: u64
  HotCodeBlock :: u64
  ColdCodeBlock :: u64
  ReadOnlyDataBlock :: u64
  StackMapBlock :: u64
  ReadOnlyDataUnallocated :: u64

datatype AllocMemFlag = CORJIT_ALLOCMEM_FLG_16BYTE_ALIGN | CORJIT_ALLOCMEM_DEFAULT_CODE_ALIGN | CORJIT_ALLOCMEM_FLG_RODATA_16BYTE_ALIGN

text \<open>The constructor leaves \<open>ReadOnlyDataUnallocated\<close> unset: it is an argument.\<close>

definition EEMemoryManager_new :: "bool \<Rightarrow> u64 \<Rightarrow> MemoryManager" where
  "EEMemoryManager_new prejit unset = \<lparr>Prejit = prejit, HotCodeSize = 0, ColdCodeSize = 0, ReadOnlyDataSize = 0, StackMapSize = 0,
     HotCodeBlock = 0, ColdCodeBlock = 0, ReadOnlyDataBlock = 0, StackMapBlock = 0, ReadOnlyDataUnallocated = unset\<rparr>"

definition allocateCodeSection :: "MemoryManager \<Rightarrow> u64" where
  "allocateCodeSection m = HotCodeBlock m"

definition getCodeSection :: "MemoryManager \<Rightarrow> u64" where
  "getCodeSection m = HotCodeBlock m"

definition alignment_flags :: "u32 \<Rightarrow> u32 \<Rightarrow> AllocMemFlag list" where
  "alignment_flags CodeAlign RODataAlign =
     (if CodeAlign = 16 then [CORJIT_ALLOCMEM_FLG_16BYTE_ALIGN] else [CORJIT_ALLOCMEM_DEFAULT_CODE_ALIGN])
     @ (if RODataAlign = 16 then [CORJIT_ALLOCMEM_FLG_RODATA_16BYTE_ALIGN] else [])"

definition reserveAllocationSpace ::
    "(u64 \<Rightarrow> u64 \<Rightarrow> u64 \<Rightarrow> AllocMemFlag list \<Rightarrow> u64 \<times> u64 \<times> u64) \<Rightarrow> u64 \<Rightarrow> u32 \<Rightarrow> u64 \<Rightarrow> u32 \<Rightarrow> u64 \<Rightarrow> MemoryManager \<Rightarrow> MemoryManager result" where
  "reserveAllocationSpace allocMem CodeSize CodeAlign RODataSize RODataAlign RWDataSize m =
     rbind (rassert ''RWDataSize'' (RWDataSize = 0)) (\<lambda>_.
     rbind (rassert ''CodeAlign'' (CodeAlign \<le> 16)) (\<lambda>_.
     rbind (rassert ''RODataAlign'' (RODataAlign \<le> 16)) (\<lambda>_.
     let (HotBlock, ColdBlock, RODataBlock) = allocMem CodeSize 0 RODataSize (alignment_flags CodeAlign RODataAlign) in
     rbind (rassert ''ColdBlock'' (ColdBlock = 0)) (\<lambda>_.
     Inr (m\<lparr>HotCodeBlock := HotBlock, ColdCodeBlock := ColdBlock, ReadOnlyDataBlock := RODataBlock, ReadOnlyDataUnallocated := RODataBlock,
        HotCodeSize := CodeSize, ColdCodeSize := 0, ReadOnlyDataSize := RODataSize\<rparr>)))))"

text \<open>The offset of the free space from the alignment that is asked for: of the address, or of the place in
  the image for a prejitted one.\<close>

definition misalignment :: "u32 \<Rightarrow> MemoryManager \<Rightarrow> u32 result" where
  "misalignment Alignment m =
     (if Prejit m then rbind (rassert ''Alignment'' (Alignment \<le> 16)) (\<lambda>_.
        if Alignment = 0 then Inl (AssertFailed ''division by zero'')
        else Inr (ucast ((ReadOnlyDataUnallocated m - ReadOnlyDataBlock m) mod ucast Alignment)))
      else if Alignment = 0 then Inl (AssertFailed ''division by zero'')
      else Inr (ucast (ReadOnlyDataUnallocated m mod ucast Alignment)))"

definition allocateDataSection :: "u64 \<Rightarrow> u32 \<Rightarrow> string \<Rightarrow> bool \<Rightarrow> MemoryManager \<Rightarrow> (u64 \<times> MemoryManager) result" where
  "allocateDataSection Size Alignment SectionName IsReadOnly m =
     rbind (rassert ''IsReadOnly'' IsReadOnly) (\<lambda>_.
     rbind (misalignment Alignment m) (\<lambda>off.
     let Result = (if off > 0 then ReadOnlyDataUnallocated m + ucast (Alignment - off) else ReadOnlyDataUnallocated m);
         m = m\<lparr>ReadOnlyDataUnallocated := Result + Size\<rparr> in
     rbind (rassert ''ReadOnlyDataUnallocated'' (ReadOnlyDataUnallocated m \<le> ReadOnlyDataBlock m + ReadOnlyDataSize m)) (\<lambda>_.
     if SectionName = ''.llvm_stackmaps'' then
       rbind (rassert ''Unexpected second Stackmap Section'' (StackMapBlock m = 0)) (\<lambda>_.
         Inr (Result, m\<lparr>StackMapSize := Size, StackMapBlock := Result\<rparr>))
     else Inr (Result, m))))"

fun allocate_sections :: "(u64 \<times> u32 \<times> string) list \<Rightarrow> MemoryManager \<Rightarrow> (u64 list \<times> MemoryManager) result" where
  "allocate_sections [] m = Inr ([], m)"
| "allocate_sections ((sz, al, name) # reqs) m = rbind (allocateDataSection sz al name True m) (\<lambda>(p, m).
     rbind (allocate_sections reqs m) (\<lambda>(ps, m). Inr (p # ps, m)))"

subsection \<open>Unwind information\<close>

text \<open>The size of an entry as it is reported and in all, from its first byte and its number of codes.\<close>

definition xdata_sizes :: "u8 \<Rightarrow> u8 \<Rightarrow> nat \<times> nat" where
  "xdata_sizes first NumCodes =
     (let ReportedBytes = 4 + 2 * unat NumCodes;
          UnreportedBytes = (if (ReportedBytes div 2) mod 2 = 1 then 2 else 0) + (if first \<noteq> 1 then 4 else 0);
          TotalBytes = ReportedBytes + UnreportedBytes
      in (ReportedBytes, if TotalBytes < 8 then 8 else TotalBytes))"

definition getXdataSize :: "u8 list \<Rightarrow> nat \<Rightarrow> (nat \<times> nat) result" where
  "getXdataSize xdata p = rbind (array_get ''xdata'' xdata (p + 2)) (\<lambda>NumCodes.
     rbind (array_get ''xdata'' xdata p) (\<lambda>first. Inr (xdata_sizes first NumCodes)))"

text \<open>\<open>reserveUnwindInfo\<close> and \<open>allocUnwindInfo\<close> of the engine: whether it is a handler and the size; for the
  second also the range of the code and where the entry is.\<close>

type_synonym UnwindReservation = "bool \<times> nat"

record UnwindAllocation =
  IsHandlerKind :: bool
  StartOffset :: u32
  EndOffset :: u32
  UnwindSize :: nat
  UnwindBlock :: nat

lemma xdata_total: "snd (xdata_sizes a n) > 0"
  by (simp add: xdata_sizes_def Let_def)

function reserve_walk :: "u8 list \<Rightarrow> nat \<Rightarrow> bool \<Rightarrow> UnwindReservation list result" where
  "reserve_walk xdata p IsHandler =
     rbind (getXdataSize xdata p) (\<lambda>(Reported, Total).
     rbind (array_get ''xdata'' xdata p) (\<lambda>first.
     rbind (rassert ''chained unwind info not supported'' (first AND 0x20 \<noteq> 0x10)) (\<lambda>_.
       if p + Total = length xdata then Inr [(IsHandler, Reported)]
       else rbind (array_get ''xdata'' xdata (p + Total)) (\<lambda>next.
         if next AND 7 = 1 then rbind (reserve_walk xdata (p + Total) True) (\<lambda>rs. Inr ((IsHandler, Reported) # rs))
         else rbind (rassert ''Malformed .xdata'' (next = 0xff)) (\<lambda>_. Inr [(IsHandler, Reported)])))))"
  by pat_completeness auto
termination
  by (relation "measure (\<lambda>(xdata, p, h). length xdata - p)")
    (auto simp: getXdataSize_def rbind_eq_Inr_iff array_get_def xdata_sizes_def Let_def split: if_splits)

text \<open>Every section of the name is walked; \<open>IsHandler\<close> is set by the first entry and stays set.\<close>

fun reserve_sections :: "(string \<times> u8 list) list \<Rightarrow> bool \<Rightarrow> UnwindReservation list result" where
  "reserve_sections [] IsHandler = Inr []"
| "reserve_sections ((name, xdata) # sections) IsHandler =
     (if name = ''.xdata'' then rbind (reserve_walk xdata 0 IsHandler) (\<lambda>rs. rbind (reserve_sections sections True) (\<lambda>rs'. Inr (rs @ rs')))
      else reserve_sections sections IsHandler)"

definition reserveUnwindSpace :: "(string \<times> u8 list) list \<Rightarrow> UnwindReservation list result" where
  "reserveUnwindSpace sections = reserve_sections sections False"

text \<open>The walk of \<open>registerEHFrames\<close>: the entries, where it stops, and whether it saw the end.\<close>

function register_walk :: "u8 list \<Rightarrow> nat \<Rightarrow> bool \<Rightarrow> ((nat \<times> nat) list \<times> nat \<times> bool) result" where
  "register_walk xdata p IsHandler =
     rbind (getXdataSize xdata p) (\<lambda>(Reported, Total).
       if p + Total = length xdata then rbind (rassert ''FuncKind'' (\<not> IsHandler)) (\<lambda>_. Inr ([(p, Reported)], p + Total, False))
       else rbind (array_get ''xdata'' xdata (p + Total)) (\<lambda>next.
         if next AND 7 = 1 then rbind (register_walk xdata (p + Total) True) (\<lambda>(bs, q, h). Inr ((p, Reported) # bs, q, h))
         else Inr ([(p, Reported)], p + Total, True)))"
  by pat_completeness auto
termination
  by (relation "measure (\<lambda>(xdata, p, h). length xdata - p)")
    (auto simp: getXdataSize_def rbind_eq_Inr_iff array_get_def xdata_sizes_def Let_def split: if_splits)

declare reserve_walk.simps [simp del] register_walk.simps [simp del]

definition read_u32 :: "u8 list \<Rightarrow> nat \<Rightarrow> u32 result" where
  "read_u32 xdata p = rbind (read_bytes ''xdata'' xdata p 4) (\<lambda>bs. Inr (word_of_nat (le_value bs)))"

fun alloc_funclets :: "u8 list \<Rightarrow> nat \<Rightarrow> nat \<Rightarrow> bool \<Rightarrow> u32 \<Rightarrow> (nat \<times> nat) list \<Rightarrow> nat \<Rightarrow> (UnwindAllocation list \<times> nat) result" where
  "alloc_funclets xdata 0 I kind start blocks p = Inr ([], p)"
| "alloc_funclets xdata (Suc n) I kind start blocks p =
     rbind (read_u32 xdata p) (\<lambda>end_off. rbind (array_get ''UnwindBlocks'' blocks I) (\<lambda>(block, sz).
     rbind (alloc_funclets xdata n (I + 1) True end_off blocks (p + 4)) (\<lambda>(as, q).
       Inr (\<lparr>IsHandlerKind = kind, StartOffset = start, EndOffset = end_off, UnwindSize = sz, UnwindBlock = block\<rparr> # as, q))))"

text \<open>A clause is six 32-bit words.\<close>

fun read_words :: "u8 list \<Rightarrow> nat \<Rightarrow> nat \<Rightarrow> u32 list result" where
  "read_words xdata 0 p = Inr []"
| "read_words xdata (Suc n) p = rbind (read_u32 xdata p) (\<lambda>w. rbind (read_words xdata n (p + 4)) (\<lambda>ws. Inr (w # ws)))"

fun read_clauses :: "u8 list \<Rightarrow> nat \<Rightarrow> nat \<Rightarrow> u32 list list result" where
  "read_clauses xdata 0 p = Inr []"
| "read_clauses xdata (Suc n) p = rbind (read_words xdata 6 p) (\<lambda>c. rbind (read_clauses xdata n (p + 24)) (\<lambda>cs. Inr (c # cs)))"

text \<open>The allocations and, when there are funclets, the number of clauses and the clauses.\<close>

definition registerEHFrames :: "MemoryManager \<Rightarrow> u8 list \<Rightarrow> (UnwindAllocation list \<times> (u32 \<times> u32 list list) option) result" where
  "registerEHFrames m xdata =
     rbind (rassert ''ColdCodeBlock must be zero'' (ColdCodeBlock m = 0)) (\<lambda>_.
     rbind (register_walk xdata 0 False) (\<lambda>(blocks, p, handlers).
     if \<not> handlers then
       (let (block, sz) = last blocks in
        rbind (rassert ''UnwindBlocks'' (butlast blocks = [])) (\<lambda>_.
        Inr ([\<lparr>IsHandlerKind = False, StartOffset = 0, EndOffset = ucast (HotCodeSize m), UnwindSize = sz, UnwindBlock = block\<rparr>], None)))
     else
       rbind (read_u32 xdata p) (\<lambda>sentinel.
       rbind (rassert ''sentinel'' (sentinel = 0xffffffff)) (\<lambda>_.
       rbind (read_u32 xdata (p + 4)) (\<lambda>NumFunclets.
       rbind (alloc_funclets xdata (unat NumFunclets + 1) 0 False 0 blocks (p + 8)) (\<lambda>(as, q).
       rbind (read_u32 xdata q) (\<lambda>NumClauses.
       rbind (read_clauses xdata (unat NumClauses) (q + 4)) (\<lambda>cs. Inr (as, Some (NumClauses, cs))))))))))"

subsection \<open>Specification and samples\<close>

text \<open>The free space lies in the block, and no sum of an address in the block, a padding and the size of the
  block wraps around.\<close>

definition data_space :: "MemoryManager \<Rightarrow> bool" where
  "data_space m \<longleftrightarrow> unat (ReadOnlyDataBlock m) + 2 * unat (ReadOnlyDataSize m) + 16 < 2 ^ 64
     \<and> ReadOnlyDataBlock m \<le> ReadOnlyDataUnallocated m
     \<and> unat (ReadOnlyDataUnallocated m) \<le> unat (ReadOnlyDataBlock m) + unat (ReadOnlyDataSize m)"

definition request_ok :: "MemoryManager \<Rightarrow> u64 \<times> u32 \<times> string \<Rightarrow> bool" where
  "request_ok m = (\<lambda>(sz, al, name). sz \<le> ReadOnlyDataSize m \<and> 0 < al \<and> al \<le> 16)"

definition section_aligned :: "MemoryManager \<Rightarrow> u32 \<Rightarrow> u64 \<Rightarrow> bool" where
  "section_aligned m al p \<longleftrightarrow> (if Prejit m then unat al dvd unat p - unat (ReadOnlyDataBlock m) else unat al dvd unat p)"

definition section_range :: "u64 \<Rightarrow> u64 \<Rightarrow> nat set" where
  "section_range p sz = {unat p..<unat p + unat sz}"

definition pad_amount :: "nat \<Rightarrow> nat \<Rightarrow> nat" where
  "pad_amount off al = (if off mod al > 0 then al - off mod al else 0)"

definition stackmap_requests :: "(u64 \<times> u32 \<times> string) list \<Rightarrow> nat" where
  "stackmap_requests reqs = length (filter (\<lambda>(sz, al, name). name = ''.llvm_stackmaps'') reqs)"

definition padded_size :: "(u64 \<times> u32 \<times> string) list \<Rightarrow> nat" where
  "padded_size reqs = sum_list (map (\<lambda>(sz, al, name). unat sz + (unat al - 1)) reqs)"

text \<open>An .xdata section as the code generator lays it out: the entries of the function and its funclets;
  with funclets also the sentinel, the number of funclets, the end of each part and the clauses.\<close>

record XdataEntry =
  FirstByte :: u8
  SecondByte :: u8
  FourthByte :: u8
  Codes :: "u8 list"
  Tail :: "u8 list"

definition le_bytes :: "u32 \<Rightarrow> u8 list" where
  "le_bytes w = [ucast w, ucast (drop_bit 8 w), ucast (drop_bit 16 w), ucast (drop_bit 24 w)]"

definition entry_ok :: "XdataEntry \<Rightarrow> bool" where
  "entry_ok x \<longleftrightarrow> FirstByte x AND 7 = 1 \<and> even (length (Codes x)) \<and> length (Codes x) < 512
     \<and> 4 + length (Codes x) + length (Tail x) = snd (xdata_sizes (FirstByte x) (word_of_nat (length (Codes x) div 2)))"

definition entry_bytes :: "XdataEntry \<Rightarrow> u8 list" where
  "entry_bytes x = [FirstByte x, SecondByte x, word_of_nat (length (Codes x) div 2), FourthByte x] @ Codes x @ Tail x"

definition xdata_bytes :: "XdataEntry list \<Rightarrow> u8 list" where
  "xdata_bytes xs = concat (map entry_bytes xs)"

definition trailer_bytes :: "u32 list \<Rightarrow> u32 list list \<Rightarrow> u8 list" where
  "trailer_bytes ends clauses = le_bytes 0xffffffff @ le_bytes (word_of_nat (length ends - 1)) @ concat (map le_bytes ends)
     @ le_bytes (word_of_nat (length clauses)) @ concat (map (\<lambda>c. concat (map le_bytes c)) clauses)"

text \<open>The reported size of an entry and where each entry starts.\<close>

definition reported :: "XdataEntry \<Rightarrow> nat" where
  "reported x = 4 + length (Codes x)"

fun entry_blocks :: "nat \<Rightarrow> XdataEntry list \<Rightarrow> (nat \<times> nat) list" where
  "entry_blocks p [] = []"
| "entry_blocks p (x # xs) = (p, reported x) # entry_blocks (p + length (entry_bytes x)) xs"

subsection \<open>Lemmas\<close>

lemma unat_bound_u64: "unat (w :: u64) < 2 ^ 64"
  using unsigned_less[of w, where ?'a = nat] by simp

lemma unat_ucast_small: "unat (x :: u64) < 2 ^ 32 \<Longrightarrow> unat (ucast x :: u32) = unat x"
  by (simp add: unsigned_ucast_eq take_bit_nat_eq_self)

lemma unat_ucast_up: "unat (ucast (x :: u32) :: u64) = unat x"
proof -
  have "unat x < 2 ^ 64" using unat_bound_u32[of x] by simp
  then show ?thesis by (simp add: unsigned_ucast_eq take_bit_nat_eq_self)
qed

lemma pad_amount_aligned: "0 < al \<Longrightarrow> al dvd off + pad_amount off al"
proof -
  assume "0 < al"
  then have "off mod al \<le> al" by (simp add: less_imp_le)
  then have "off + (al - off mod al) = off div al * al + al" using div_mult_mod_eq[of off al] by linarith
  then have "al dvd off + (al - off mod al)" by simp
  then show ?thesis by (auto simp: pad_amount_def mod_eq_0_iff_dvd)
qed

lemma pad_amount_less: "0 < al \<Longrightarrow> pad_amount off al < al"
  by (simp add: pad_amount_def)

lemma misalignment_value:
  assumes "0 < al" "al \<le> 16" "misalignment al m = Inr off"
  shows "unat off = (if Prejit m then unat (ReadOnlyDataUnallocated m - ReadOnlyDataBlock m) else unat (ReadOnlyDataUnallocated m)) mod unat al"
proof -
  have m: "unat (ucast (x mod ucast al) :: u32) = unat x mod unat al" for x :: u64
  proof -
    have "unat (x mod ucast al) = unat x mod unat al" by (simp add: unat_mod unat_ucast_up)
    moreover have "unat x mod unat al < unat al" using assms(1) by (simp add: word_less_nat_alt)
    ultimately show ?thesis using unat_bound_u32[of al] by (subst unat_ucast_small) auto
  qed
  show ?thesis using assms m by (auto simp: misalignment_def rbind_eq_Inr_iff split: if_splits)
qed

lemma allocateDataSection_step:
  assumes ds: "data_space m" and rq: "request_ok m (sz, al, name)" and r: "allocateDataSection sz al name True m = Inr (p, m')"
  shows "section_aligned m al p" "unat (ReadOnlyDataUnallocated m) \<le> unat p" "unat (ReadOnlyDataUnallocated m') = unat p + unat sz"
    "data_space m'" "Prejit m' = Prejit m" "ReadOnlyDataBlock m' = ReadOnlyDataBlock m" "ReadOnlyDataSize m' = ReadOnlyDataSize m"
proof -
  let ?U = "ReadOnlyDataUnallocated m" and ?B = "ReadOnlyDataBlock m" and ?S = "ReadOnlyDataSize m"
  have al: "0 < al" "al \<le> 16" "0 < unat al" "unat al \<le> 16" and sz: "unat sz \<le> unat ?S"
    using rq by (auto simp: request_ok_def word_le_nat_alt word_less_nat_alt)
  from r obtain off where off: "misalignment al m = Inr off" and p: "p = (if off > 0 then ?U + ucast (al - off) else ?U)"
    and m': "m' = m\<lparr>ReadOnlyDataUnallocated := p + sz\<rparr> \<or> m' = m\<lparr>ReadOnlyDataUnallocated := p + sz, StackMapSize := sz, StackMapBlock := p\<rparr>"
    and le: "p + sz \<le> ?B + ?S"
    by (auto simp: allocateDataSection_def rbind_eq_Inr_iff Let_def split: if_splits)
  define base where "base = (if Prejit m then unat (?U - ?B) else unat ?U)"
  have uo: "unat off = base mod unat al" using misalignment_value[OF al(1,2) off] by (simp add: base_def)
  have UB: "unat (?U - ?B) = unat ?U - unat ?B" using ds by (simp add: data_space_def unat_sub)
  have "unat (al - off) = unat al - unat off" using uo al(3) by (intro unat_sub) (simp add: word_le_nat_alt less_imp_le)
  then have "unat (ucast (al - off) :: u64) = unat al - unat off" by (simp add: unat_ucast_up)
  moreover have "unat al - unat off \<le> 16" using al(4) by simp
  moreover have room: "unat ?U + 16 < 2 ^ 64" using ds by (auto simp: data_space_def)
  ultimately have up: "unat p = unat ?U + pad_amount base (unat al)"
    using p uo by (auto simp: pad_amount_def word_less_nat_alt unat_add_no_wrap)
  have pad: "pad_amount base (unat al) < 16 + 1" using pad_amount_less[OF al(3), of base] al(4) by simp
  have ups: "unat (p + sz) = unat p + unat sz" using up pad sz ds by (intro unat_add_no_wrap) (auto simp: data_space_def)
  have bs: "unat (?B + ?S) = unat ?B + unat ?S" using ds by (intro unat_add_no_wrap) (auto simp: data_space_def)
  show "section_aligned m al p"
    using pad_amount_aligned[OF al(3), of base] up UB ds by (auto simp: section_aligned_def base_def data_space_def word_le_nat_alt)
  show "unat ?U \<le> unat p" using up by simp
  show "unat (ReadOnlyDataUnallocated m') = unat p + unat sz" using m' ups by auto
  show "Prejit m' = Prejit m" "ReadOnlyDataBlock m' = ?B" "ReadOnlyDataSize m' = ?S" using m' by auto
  then show "data_space m'" using ds m' ups bs le up unfolding data_space_def by (auto simp: word_le_nat_alt)
qed

lemma allocate_sections_ok:
  assumes "data_space m" "\<forall>rq \<in> set reqs. request_ok m rq" "allocate_sections reqs m = Inr (ps, m')"
  shows "length ps = length reqs
     \<and> (\<forall>i < length reqs. section_aligned m (fst (snd (reqs ! i))) (ps ! i) \<and> unat (ReadOnlyDataUnallocated m) \<le> unat (ps ! i)
          \<and> unat (ps ! i) + unat (fst (reqs ! i)) \<le> unat (ReadOnlyDataBlock m) + unat (ReadOnlyDataSize m))
     \<and> (\<forall>i j. i < j \<longrightarrow> j < length reqs \<longrightarrow> unat (ps ! i) + unat (fst (reqs ! i)) \<le> unat (ps ! j))"
  using assms
proof (induction reqs arbitrary: m ps)
  case (Cons rq reqs)
  obtain sz al name where rq: "rq = (sz, al, name)" by (cases rq)
  from Cons.prems(3) obtain p m1 ps1 where p: "allocateDataSection sz al name True m = Inr (p, m1)" "allocate_sections reqs m1 = Inr (ps1, m')" "ps = p # ps1"
    by (auto simp: rq rbind_eq_Inr_iff)
  have "request_ok m (sz, al, name)" using Cons.prems(2) rq by simp
  note st = allocateDataSection_step[OF Cons.prems(1) this p(1)]
  have "\<forall>rq \<in> set reqs. request_ok m1 rq" using Cons.prems(2) st(7) by (auto simp: request_ok_def)
  note IH = Cons.IH[OF st(4) this p(2)]
  have al: "section_aligned m1 a q = section_aligned m a q" for a q using st(5,6) by (simp add: section_aligned_def)
  have fits: "unat p + unat sz \<le> unat (ReadOnlyDataBlock m) + unat (ReadOnlyDataSize m)" using st(3,4,6,7) by (simp add: data_space_def)
  show ?case
  proof (intro conjI allI impI)
    show "length ps = length (rq # reqs)" using IH p(3) by simp
    fix i assume i: "i < length (rq # reqs)"
    show "section_aligned m (fst (snd ((rq # reqs) ! i))) (ps ! i)" using i IH st(1) p(3) al rq by (cases i) auto
    show "unat (ReadOnlyDataUnallocated m) \<le> unat (ps ! i)" using i IH st(2,3) p(3) by (cases i) force+
    show "unat (ps ! i) + unat (fst ((rq # reqs) ! i)) \<le> unat (ReadOnlyDataBlock m) + unat (ReadOnlyDataSize m)"
      using i IH fits p(3) rq st(6,7) by (cases i) auto
  next
    fix i j assume ij: "i < j" "j < length (rq # reqs)"
    then obtain k where k: "j = Suc k" "k < length reqs" by (cases j) auto
    show "unat (ps ! i) + unat (fst ((rq # reqs) ! i)) \<le> unat (ps ! j)"
      using ij k IH st(3) p(3) rq by (cases i) force+
  qed
qed simp

lemma allocateDataSection_total:
  assumes ds: "data_space m" and rq: "request_ok m (sz, al, name)"
    and fit: "unat (ReadOnlyDataUnallocated m) + (unat sz + (unat al - 1)) \<le> unat (ReadOnlyDataBlock m) + unat (ReadOnlyDataSize m)"
    and sm: "name = ''.llvm_stackmaps'' \<Longrightarrow> StackMapBlock m = 0"
  shows "\<exists>p m'. allocateDataSection sz al name True m = Inr (p, m') \<and> unat p \<le> unat (ReadOnlyDataUnallocated m) + (unat al - 1)
     \<and> (name \<noteq> ''.llvm_stackmaps'' \<longrightarrow> StackMapBlock m' = StackMapBlock m)"
proof -
  let ?U = "ReadOnlyDataUnallocated m" and ?B = "ReadOnlyDataBlock m" and ?S = "ReadOnlyDataSize m"
  have al: "0 < al" "al \<le> 16" "0 < unat al" "unat al \<le> 16" and sz: "unat sz \<le> unat ?S"
    using rq by (auto simp: request_ok_def word_le_nat_alt word_less_nat_alt)
  have "al \<noteq> 0" using al(1) by auto
  then obtain off where off: "misalignment al m = Inr off" using al(2) by (cases "Prejit m") (simp_all add: misalignment_def)
  define base where "base = (if Prejit m then unat (?U - ?B) else unat ?U)"
  have uo: "unat off = base mod unat al" using misalignment_value[OF al(1,2) off] by (simp add: base_def)
  let ?p = "if off > 0 then ?U + ucast (al - off) else ?U"
  have "unat (al - off) = unat al - unat off" using uo al(3) by (intro unat_sub) (simp add: word_le_nat_alt less_imp_le)
  then have "unat (ucast (al - off) :: u64) = unat al - unat off" by (simp add: unat_ucast_up)
  moreover have "unat ?U + 16 < 2 ^ 64" using ds by (auto simp: data_space_def)
  ultimately have "unat ?p = unat ?U + pad_amount base (unat al)"
    using al(4) uo by (auto simp: pad_amount_def word_less_nat_alt unat_add_no_wrap)
  then have up: "unat ?p \<le> unat ?U + (unat al - 1)" using pad_amount_less[OF al(3), of base] by simp
  have "unat (?p + sz) = unat ?p + unat sz" using up sz ds al(4) by (intro unat_add_no_wrap) (auto simp: data_space_def)
  moreover have "unat (?B + ?S) = unat ?B + unat ?S" using ds by (intro unat_add_no_wrap) (auto simp: data_space_def)
  ultimately have "?p + sz \<le> ?B + ?S" using up fit by (simp add: word_le_nat_alt)
  then show ?thesis using off up sm by (auto simp: allocateDataSection_def Let_def)
qed

lemma allocate_sections_total:
  assumes "data_space m" "\<forall>rq \<in> set reqs. request_ok m rq"
    "unat (ReadOnlyDataUnallocated m) + padded_size reqs \<le> unat (ReadOnlyDataBlock m) + unat (ReadOnlyDataSize m)"
    "StackMapBlock m = 0 \<and> stackmap_requests reqs \<le> 1 \<or> stackmap_requests reqs = 0"
  shows "\<exists>ps m'. allocate_sections reqs m = Inr (ps, m')"
  using assms
proof (induction reqs arbitrary: m)
  case (Cons rq reqs)
  obtain sz al name where rq: "rq = (sz, al, name)" by (cases rq)
  have ok: "request_ok m (sz, al, name)" using Cons.prems(2) rq by simp
  have "unat (ReadOnlyDataUnallocated m) + (unat sz + (unat al - 1)) \<le> unat (ReadOnlyDataBlock m) + unat (ReadOnlyDataSize m)"
    using Cons.prems(3) rq by (simp add: padded_size_def)
  from allocateDataSection_total[OF Cons.prems(1) ok this] Cons.prems(4) rq obtain p m1 where
    p: "allocateDataSection sz al name True m = Inr (p, m1)" "unat p \<le> unat (ReadOnlyDataUnallocated m) + (unat al - 1)"
      "name \<noteq> ''.llvm_stackmaps'' \<Longrightarrow> StackMapBlock m1 = StackMapBlock m"
    by (auto simp: stackmap_requests_def split: if_splits)
  note st = allocateDataSection_step[OF Cons.prems(1) ok p(1)]
  have "\<exists>ps m'. allocate_sections reqs m1 = Inr (ps, m')"
  proof (rule Cons.IH[OF st(4)])
    show "\<forall>rq \<in> set reqs. request_ok m1 rq" using Cons.prems(2) st(7) by (auto simp: request_ok_def)
    show "unat (ReadOnlyDataUnallocated m1) + padded_size reqs \<le> unat (ReadOnlyDataBlock m1) + unat (ReadOnlyDataSize m1)"
      using Cons.prems(3) p(2) st(3,6,7) rq by (simp add: padded_size_def)
    show "StackMapBlock m1 = 0 \<and> stackmap_requests reqs \<le> 1 \<or> stackmap_requests reqs = 0"
      using Cons.prems(4) p(3) rq by (auto simp: stackmap_requests_def split: if_splits)
  qed
  then show ?case using p(1) rq by auto
qed simp

subsection \<open>The walk over the unwind information\<close>

lemma le_value_le_bytes: "le_value (le_bytes w) = unat w"
proof -
  have lt: "unat w < 4294967296" by (rule unat_bound_u32)
  then have "unat (ucast (drop_bit n w) :: u8) = (unat w div 2 ^ n) mod 256" for n
    by (simp add: unsigned_ucast_eq unsigned_drop_bit_eq take_bit_eq_mod drop_bit_nat_def)
  note d = this[of 8] this[of 16] this[of 24] this[of 0]
  have "unat w div 256 div 256 = unat w div 65536" "unat w div 65536 div 256 = unat w div 16777216" by (simp_all add: div_mult2_eq[symmetric])
  moreover have "unat w div 16777216 < 256" using lt by (simp add: less_mult_imp_div_less)
  moreover have "n = n mod 256 + 256 * (n div 256)" for n :: nat by simp
  note this[of "unat w"] this[of "unat w div 256"] this[of "unat w div 65536"]
  ultimately show ?thesis using d by (simp add: le_bytes_def)
qed

lemma read_u32_le_bytes: "read_u32 (as @ le_bytes w @ bs) (length as) = Inr w"
proof -
  have "length (le_bytes w) = 4" by (simp add: le_bytes_def)
  then show ?thesis by (simp add: read_u32_def read_bytes_def le_value_le_bytes)
qed

lemma length_entry: "entry_ok x \<Longrightarrow> length (entry_bytes x) = snd (xdata_sizes (FirstByte x) (word_of_nat (length (Codes x) div 2)))"
  by (simp add: entry_ok_def entry_bytes_def)

lemma length_le_bytes [simp]: "length (le_bytes w) = 4"
  by (simp add: le_bytes_def)

subsection \<open>Specification and samples\<close>

fun funclet_allocs :: "bool \<Rightarrow> u32 \<Rightarrow> u32 list \<Rightarrow> (nat \<times> nat) list \<Rightarrow> UnwindAllocation list" where
  "funclet_allocs kind s (e # ends) ((p, sz) # bs) =
     \<lparr>IsHandlerKind = kind, StartOffset = s, EndOffset = e, UnwindSize = sz, UnwindBlock = p\<rparr> # funclet_allocs True e ends bs"
| "funclet_allocs kind s _ _ = []"

fun reservations :: "bool \<Rightarrow> XdataEntry list \<Rightarrow> UnwindReservation list" where
  "reservations h [] = []"
| "reservations h (x # xs) = (h, reported x) # reservations True xs"

subsection \<open>Lemmas\<close>

lemma xdata_bytes_simps [simp]: "xdata_bytes [] = []" "xdata_bytes (x # xs) = entry_bytes x @ xdata_bytes xs"
  by (simp_all add: xdata_bytes_def)

lemma getXdataSize_entry:
  assumes "entry_ok x"
  shows "getXdataSize (pre @ entry_bytes x @ suf) (length pre) = Inr (reported x, length (entry_bytes x))"
proof -
  have n: "unat (word_of_nat (length (Codes x) div 2) :: u8) = length (Codes x) div 2" 
  proof -
    have "length (Codes x) div 2 < 256" using assms by (auto simp: entry_ok_def)
    then show ?thesis by (simp add: unat_of_nat)
  qed
  have "even (length (Codes x))" using assms by (simp add: entry_ok_def)
  then have "fst (xdata_sizes (FirstByte x) (word_of_nat (length (Codes x) div 2))) = reported x"
    by (simp add: xdata_sizes_def Let_def n reported_def)
  then have "xdata_sizes (FirstByte x) (word_of_nat (length (Codes x) div 2)) = (reported x, length (entry_bytes x))"
    using length_entry[OF assms] by (simp add: prod_eq_iff)
  then show ?thesis by (simp add: getXdataSize_def entry_bytes_def nth_append)
qed

lemma chained_never: "(first :: u8) AND 0x20 \<noteq> 0x10"
proof
  assume "first AND 0x20 = 0x10"
  then have "bit (first AND 0x20) 4 = bit (0x10 :: u8) 4" by simp
  then show False by (simp add: bit_and_iff)
qed

lemma first_entry_byte: "entry_bytes x ! 0 = FirstByte x" "length (entry_bytes x) \<ge> 4" "entry_bytes x \<noteq> []"
  by (simp_all add: entry_bytes_def)

lemma reserve_walk_entries:
  assumes "\<forall>x \<in> set xs. entry_ok x" "xs \<noteq> []" "rest = [] \<or> hd rest = 0xff"
  shows "reserve_walk (pre @ xdata_bytes xs @ rest) (length pre) h = Inr (reservations h xs)"
  using assms(1,2)
proof (induction xs arbitrary: pre h)
  case (Cons x xs)
  let ?buf = "pre @ entry_bytes x @ (xdata_bytes xs @ rest)"
  have ok: "entry_ok x" using Cons.prems by simp
  have f: "array_get ''xdata'' ?buf (length pre) = Inr (FirstByte x)" using first_entry_byte[of x] by (simp add: nth_append)
  have nx: "array_get ''xdata'' ?buf (length pre + length (entry_bytes x)) = Inr (hd (xdata_bytes xs @ rest))" if "xdata_bytes xs @ rest \<noteq> []"
    using that by (simp add: nth_append hd_conv_nth)
  have step: "reserve_walk ?buf (length pre) h = (if xdata_bytes xs @ rest = [] then Inr [(h, reported x)] else
      rbind (array_get ''xdata'' ?buf (length pre + length (entry_bytes x))) (\<lambda>next.
         if next AND 7 = 1 then rbind (reserve_walk ?buf (length pre + length (entry_bytes x)) True) (\<lambda>rs. Inr ((h, reported x) # rs))
         else rbind (rassert ''Malformed .xdata'' (next = 0xff)) (\<lambda>_. Inr [(h, reported x)])))"
    by (subst reserve_walk.simps) (simp add: getXdataSize_entry[OF ok] f chained_never)
  show ?case
  proof (cases xs)
    case Nil
    then show ?thesis using step nx assms(3) by auto
  next
    case (Cons y ys)
    have "hd (xdata_bytes xs @ rest) = FirstByte y" using Cons by (simp add: entry_bytes_def)
    moreover have "FirstByte y AND 7 = 1" using Cons.prems(1) Cons by (simp add: entry_ok_def)
    moreover have "xdata_bytes xs \<noteq> []" using Cons by (simp add: entry_bytes_def)
    moreover have "reserve_walk ((pre @ entry_bytes x) @ xdata_bytes xs @ rest) (length (pre @ entry_bytes x)) True = Inr (reservations True xs)"
      using Cons Cons.prems(1) by (intro Cons.IH) auto
    ultimately show ?thesis using step nx by simp
  qed
qed simp

lemma register_walk_entries:
  assumes "\<forall>x \<in> set xs. entry_ok x" "xs \<noteq> []" "rest \<noteq> []" "hd rest = 0xff"
  shows "register_walk (pre @ xdata_bytes xs @ rest) (length pre) h =
     Inr (entry_blocks (length pre) xs, length pre + length (xdata_bytes xs), True)"
  using assms(1,2)
proof (induction xs arbitrary: pre h)
  case (Cons x xs)
  let ?buf = "pre @ entry_bytes x @ (xdata_bytes xs @ rest)"
  have ok: "entry_ok x" using Cons.prems by simp
  have nx: "array_get ''xdata'' ?buf (length pre + length (entry_bytes x)) = Inr (hd (xdata_bytes xs @ rest))"
    using assms(3) by (simp add: nth_append hd_conv_nth)
  have step: "register_walk ?buf (length pre) h =
      (if hd (xdata_bytes xs @ rest) AND 7 = 1 then rbind (register_walk ?buf (length pre + length (entry_bytes x)) True) (\<lambda>(bs, q, h). Inr ((length pre, reported x) # bs, q, h))
       else Inr ([(length pre, reported x)], length pre + length (entry_bytes x), True))"
    using assms(3) by (subst register_walk.simps) (simp add: getXdataSize_entry[OF ok] nx)
  show ?case
  proof (cases xs)
    case Nil
    then show ?thesis using step assms(4) by simp
  next
    case (Cons y ys)
    have "hd (xdata_bytes xs @ rest) = FirstByte y" using Cons by (simp add: entry_bytes_def)
    moreover have "FirstByte y AND 7 = 1" using Cons.prems(1) Cons by (simp add: entry_ok_def)
    moreover have "register_walk ((pre @ entry_bytes x) @ xdata_bytes xs @ rest) (length (pre @ entry_bytes x)) True
        = Inr (entry_blocks (length (pre @ entry_bytes x)) xs, length (pre @ entry_bytes x) + length (xdata_bytes xs), True)"
      using Cons Cons.prems(1) by (intro Cons.IH) auto
    ultimately show ?thesis using step by simp
  qed
qed simp

lemma register_walk_single: "entry_ok x \<Longrightarrow> register_walk (entry_bytes x) 0 False = Inr ([(0, reported x)], length (entry_bytes x), False)"
  using getXdataSize_entry[of x "[]" "[]"] by (subst register_walk.simps) simp

lemma alloc_funclets_ends:
  assumes "length bs = length ends"
  shows "alloc_funclets (pre @ concat (map le_bytes ends) @ suf) (length ends) (length bpre) kind s (bpre @ bs) (length pre)
     = Inr (funclet_allocs kind s ends bs, length pre + 4 * length ends)"
  using assms
proof (induction ends bs arbitrary: pre bpre kind s rule: list_induct2')
  case (4 e ends b bs)
  have "alloc_funclets ((pre @ le_bytes e) @ concat (map le_bytes ends) @ suf) (length ends) (length (bpre @ [b])) True e ((bpre @ [b]) @ bs) (length (pre @ le_bytes e))
     = Inr (funclet_allocs True e ends bs, length (pre @ le_bytes e) + 4 * length ends)" using 4 by (intro 4(1)) simp
  then show ?case using read_u32_le_bytes[of pre e] by (cases b) (simp add: nth_append)
qed simp_all

lemma read_words_bytes: "read_words (pre @ concat (map le_bytes ws) @ suf) (length ws) (length pre) = Inr ws"
proof (induction ws arbitrary: pre)
  case (Cons w ws)
  have "read_words ((pre @ le_bytes w) @ concat (map le_bytes ws) @ suf) (length ws) (length (pre @ le_bytes w)) = Inr ws" by (rule Cons.IH)
  then show ?case using read_u32_le_bytes[of pre w] by simp
qed simp

lemma read_clauses_bytes:
  "\<forall>c \<in> set cs. length c = 6 \<Longrightarrow> read_clauses (pre @ concat (map (\<lambda>c. concat (map le_bytes c)) cs) @ suf) (length cs) (length pre) = Inr cs"
proof (induction cs arbitrary: pre)
  case (Cons c cs)
  let ?b = "concat (map le_bytes c)"
  have len: "length c = 6" "length ?b = 24" using Cons.prems by (auto simp: length_concat comp_def sum_list_triv)
  have "read_clauses ((pre @ ?b) @ concat (map (\<lambda>c. concat (map le_bytes c)) cs) @ suf) (length cs) (length (pre @ ?b)) = Inr cs"
    using Cons.prems by (intro Cons.IH) simp
  then show ?case using read_words_bytes[of pre c] len by simp
qed simp

lemma length_entry_blocks [simp]: "length (entry_blocks p xs) = length xs"
  by (induction xs arbitrary: p) auto

lemma registerEHFrames_funclets:
  assumes "\<forall>x \<in> set xs. entry_ok x" "xs \<noteq> []" "length ends = length xs" "length ends \<le> 2 ^ 32"
    "\<forall>c \<in> set clauses. length c = 6" "length clauses < 2 ^ 32" "ColdCodeBlock m = 0"
  shows "registerEHFrames m (xdata_bytes xs @ trailer_bytes ends clauses) =
     Inr (funclet_allocs False 0 ends (entry_blocks 0 xs), Some (word_of_nat (length clauses), clauses))"
proof -
  let ?t = "trailer_bytes ends clauses" and ?x = "xdata_bytes xs"
  let ?n = "le_bytes (word_of_nat (length ends - 1))" and ?c = "le_bytes (word_of_nat (length clauses))" and ?e = "concat (map le_bytes ends)"
  let ?cs = "concat (map (\<lambda>c. concat (map le_bytes c)) clauses)"
  have t: "?t = le_bytes 0xffffffff @ ?n @ ?e @ ?c @ ?cs" by (simp add: trailer_bytes_def)
  have hd: "?t \<noteq> []" "hd ?t = 0xff" by (simp_all add: t le_bytes_def)
  note w = register_walk_entries[OF assms(1,2) hd, of "[]" False]
  have "unat (word_of_nat (length ends - 1) :: u32) = length ends - 1" using assms(2-4) by (intro unat_of_nat_u32) (cases ends, auto)
  then have un: "unat (word_of_nat (length ends - 1) :: u32) + 1 = length ends" using assms(2,3) by (metis Suc_eq_plus1 Suc_pred' length_greater_0_conv)
  have uc: "unat (word_of_nat (length clauses) :: u32) = length clauses" using assms(6) by (simp add: unat_of_nat_u32)
  have 1: "read_u32 (?x @ ?t) (length ?x) = Inr 0xffffffff" using read_u32_le_bytes[of ?x "0xffffffff"] by (simp add: t)
  have 2: "read_u32 (?x @ ?t) (length ?x + 4) = Inr (word_of_nat (length ends - 1))"
    using read_u32_le_bytes[of "?x @ le_bytes 0xffffffff" "word_of_nat (length ends - 1)"] by (simp add: t)
  have 3: "alloc_funclets (?x @ ?t) (length ends) 0 False 0 (entry_blocks 0 xs) (length ?x + 8)
      = Inr (funclet_allocs False 0 ends (entry_blocks 0 xs), length ?x + 8 + 4 * length ends)"
    using alloc_funclets_ends[of "entry_blocks 0 xs" ends "?x @ le_bytes 0xffffffff @ ?n" "?c @ ?cs" "[]" False 0] assms(3) by (simp add: t)
  have le: "length ?e = 4 * length ends" by (simp add: length_concat comp_def sum_list_triv)
  have 4: "read_u32 (?x @ ?t) (length ?x + 8 + 4 * length ends) = Inr (word_of_nat (length clauses))"
    using read_u32_le_bytes[of "?x @ le_bytes 0xffffffff @ ?n @ ?e" "word_of_nat (length clauses)"] le by (simp add: t add.assoc)
  have 5: "read_clauses (?x @ ?t) (length clauses) (length ?x + 8 + 4 * length ends + 4) = Inr clauses"
    using read_clauses_bytes[OF assms(5), of "?x @ le_bytes 0xffffffff @ ?n @ ?e @ ?c" "[]"] le by (simp add: t add.assoc)
  obtain N :: u32 where N: "N = word_of_nat (length ends - 1)" by simp
  show ?thesis using w 1 2[folded N] 3 4 5 un[folded N] uc assms(7)
    by (simp add: registerEHFrames_def del: alloc_funclets.simps read_clauses.simps)
qed

lemma funclet_allocs_match:
  "length ends = length xs \<Longrightarrow> map (\<lambda>a. (IsHandlerKind a, UnwindSize a)) (funclet_allocs h s ends (entry_blocks p xs)) = reservations h xs
     \<and> map EndOffset (funclet_allocs h s ends (entry_blocks p xs)) = ends
     \<and> map StartOffset (funclet_allocs h s ends (entry_blocks p xs)) = (if ends = [] then [] else s # butlast ends)"
  by (induction ends xs arbitrary: h s p rule: list_induct2') auto

lemma funclet_allocs_blocks:
  "length ends = length xs \<Longrightarrow> i < length xs \<Longrightarrow>
    take (UnwindSize (funclet_allocs h s ends (entry_blocks (length pre) xs) ! i)) (drop (UnwindBlock (funclet_allocs h s ends (entry_blocks (length pre) xs) ! i)) (pre @ xdata_bytes xs @ rest))
      = take (reported (xs ! i)) (entry_bytes (xs ! i))"
proof (induction ends xs arbitrary: h s pre i rule: list_induct2')
  case (4 e ends x xs)
  show ?case
  proof (cases i)
    case 0
    have "reported x \<le> length (entry_bytes x)" by (simp add: reported_def entry_bytes_def)
    then show ?thesis using 0 by simp
  next
    case (Suc j)
    then show ?thesis using 4(1)[of j True e "pre @ entry_bytes x"] 4(2,3) by simp
  qed
qed simp_all

subsection \<open>Properties\<close>

text \<open>C24: the read-only data sections of a method do not collide. After the reservation, when the sizes of
  the requested sections with their worst padding fit the reserved size and there is at most one stack
  map, every request succeeds; the sections are aligned as asked, lie inside the reserved block and
  are pairwise disjoint.\<close>

theorem data_sections_separate:
  assumes "reserveAllocationSpace allocMem CodeSize CodeAlign RODataSize RODataAlign RWDataSize m0 = Inr m" "StackMapBlock m0 = 0"
    and "unat (ReadOnlyDataBlock m) + 2 * unat RODataSize + 16 < 2 ^ 64"
    and "\<forall>(sz, al, name) \<in> set reqs. 0 < al \<and> al \<le> 16" "padded_size reqs \<le> unat RODataSize" "stackmap_requests reqs \<le> 1"
  shows "\<exists>ps m'. allocate_sections reqs m = Inr (ps, m') \<and> length ps = length reqs
     \<and> (\<forall>i < length reqs. section_aligned m (fst (snd (reqs ! i))) (ps ! i)
          \<and> section_range (ps ! i) (fst (reqs ! i)) \<subseteq> {unat (ReadOnlyDataBlock m)..<unat (ReadOnlyDataBlock m) + unat RODataSize})
     \<and> (\<forall>i j. i < j \<longrightarrow> j < length reqs \<longrightarrow> section_range (ps ! i) (fst (reqs ! i)) \<inter> section_range (ps ! j) (fst (reqs ! j)) = {})"
proof -
  have m: "ReadOnlyDataUnallocated m = ReadOnlyDataBlock m" "ReadOnlyDataSize m = RODataSize" "StackMapBlock m = 0"
    using assms(1,2) by (auto simp: reserveAllocationSpace_def rbind_eq_Inr_iff split: prod.splits)
  have ds: "data_space m" using assms(3) m by (simp add: data_space_def)
  have "unat sz \<le> padded_size reqs" if "(sz, al, name) \<in> set reqs" for sz al name
  proof -
    have "unat sz + (unat al - 1) \<le> padded_size reqs" unfolding padded_size_def using that by (intro member_le_sum_list) force+
    then show ?thesis by simp
  qed
  then have rq: "\<forall>rq \<in> set reqs. request_ok m rq" using assms(4,5) m(2) by (fastforce simp: request_ok_def word_le_nat_alt)
  obtain ps m' where a: "allocate_sections reqs m = Inr (ps, m')"
    using allocate_sections_total[OF ds rq] assms(5,6) m by auto
  from allocate_sections_ok[OF ds rq a] show ?thesis using a m by (auto simp: section_range_def) force+
qed

theorem data_sections_separate_witness:
  "\<exists>m ps m'. reserveAllocationSpace (\<lambda>c x d f. (0x1000, 0, 0x2004)) 64 16 64 16 0 (EEMemoryManager_new False 0) = Inr m
     \<and> allocate_sections [(10, 8, ''.rodata''), (20, 16, ''.llvm_stackmaps'')] m = Inr (ps, m') \<and> length ps = 2"
proof -
  obtain m where m: "reserveAllocationSpace (\<lambda>c x d f. (0x1000, 0, 0x2004)) 64 16 64 16 0 (EEMemoryManager_new False 0) = Inr m" "ReadOnlyDataBlock m = 0x2004"
    by (auto simp: reserveAllocationSpace_def)
  from data_sections_separate[OF m(1), of "[(10, 8, ''.rodata''), (20, 16, ''.llvm_stackmaps'')]"] m show ?thesis
    by (fastforce simp: EEMemoryManager_new_def padded_size_def stackmap_requests_def)
qed



end
