(* ===== verification/JitConfig.thy ===== *)
theory JitConfig
  imports MethodSet
begin

section \<open>The options of a compilation\<close>

text \<open>
  include/Reader/options.h, include/Jit/jitoptions.h and lib/Jit/jitoptions.cpp: the options of a
  compilation, computed from the flags of the request and from the configuration of the host. The
  method sets of the class \<open>JitOptions\<close> are static: they are initialised from the configuration by the
  first compilation that asks and kept, so they are the state that the queries thread. A configuration
  value is the text after its conversion to UTF-8, \<open>None\<close> when the host has no value of the name.
\<close>

datatype OptLevel = INVALID | DEBUG_CODE | BLENDED_CODE | SMALL_CODE | FAST_CODE

datatype DumpLevel = NODUMP | SUMMARY | VERBOSE

record Options =
  opt_DumpLevel :: DumpLevel
  opt_OptLevel :: OptLevel
  EnableOptimization :: bool
  UseConservativeGC :: bool
  DoInsertStatepoints :: bool
  DoTailCallOpt :: bool
  LogGcInfo :: bool
  ExecuteHandlers :: bool
  DoSIMDIntrinsic :: bool
  PreferredIntrinsicSIMDVectorLength :: nat
  IsAltJit :: bool
  IsExcludeMethod :: bool
  IsBreakMethod :: bool
  IsMSILDumpMethod :: bool
  IsLLVMDumpMethod :: bool
  IsCodeRangeMethod :: bool

record MethodSets =
  AltJitMethodSet :: MethodSet
  AltJitNgenMethodSet :: MethodSet
  ExcludeMethodSet :: MethodSet
  BreakMethodSet :: MethodSet
  MSILMethodSet :: MethodSet
  LLVMMethodSet :: MethodSet
  CodeRangeMethodSet :: MethodSet

definition MethodSets_new :: MethodSets where
  "MethodSets_new = \<lparr>AltJitMethodSet = MethodSet_new, AltJitNgenMethodSet = MethodSet_new, ExcludeMethodSet = MethodSet_new,
     BreakMethodSet = MethodSet_new, MSILMethodSet = MethodSet_new, LLVMMethodSet = MethodSet_new, CodeRangeMethodSet = MethodSet_new\<rparr>"

text \<open>What the queries use of the host and of the request: the configuration, the flags, the names and the
  signature of the method, and the decoder of CoreCLR for the number of arguments in the signature.\<close>

record Request =
  ConfigValue :: "string \<Rightarrow> string option"
  FLG_PREJIT :: bool
  FLG_DEBUG_CODE :: bool
  FLG_READYTORUN :: bool
  FLG_IMPORT_ONLY :: bool
  RequestMethodName :: string
  RequestClassName :: string
  RequestSig :: "u8 list"
  UncompressData :: "u8 list \<Rightarrow> int"

text \<open>\<open>MethodSet::init\<close> with enough fuel for the text.\<close>

definition init_set :: "string \<Rightarrow> MethodSet \<Rightarrow> MethodSet result" where
  "init_set S s = (case init (Suc (length S)) S s of Some r \<Rightarrow> r | None \<Rightarrow> Inl (AssertFailed ''fuel''))"

definition in_set :: "Request \<Rightarrow> MethodSet \<Rightarrow> bool result" where
  "in_set R s = contains (UncompressData R) s (Some (RequestMethodName R)) (Some (RequestClassName R)) (Some (RequestSig R))"

definition queryMethodSet :: "Request \<Rightarrow> string \<Rightarrow> MethodSet \<Rightarrow> (bool \<times> MethodSet) result" where
  "queryMethodSet R Name TheSet =
     rbind (if \<not> isInitialized TheSet then init_set (case ConfigValue R Name of None \<Rightarrow> [] | Some s \<Rightarrow> s) TheSet else Inr TheSet) (\<lambda>TheSet.
     rbind (in_set R TheSet) (\<lambda>b. Inr (b, TheSet)))"

definition queryNonNullNonEmpty :: "Request \<Rightarrow> string \<Rightarrow> bool" where
  "queryNonNullNonEmpty R Name = (case ConfigValue R Name of None \<Rightarrow> False | Some s \<Rightarrow> s \<noteq> [])"

text \<open>The alternative jit, in a debug build: a missing configuration value is a null pointer that the
  conversion dereferences.\<close>

definition alt_jit_set :: "Request \<Rightarrow> string \<Rightarrow> MethodSet \<Rightarrow> MethodSet result" where
  "alt_jit_set R Name s = (if \<not> isInitialized s then
     (case ConfigValue R Name of None \<Rightarrow> Inl (AssertFailed ''null WideStr'') | Some v \<Rightarrow> init_set v s) else Inr s)"

definition queryIsAltJit :: "Request \<Rightarrow> MethodSets \<Rightarrow> (bool \<times> MethodSets) result" where
  "queryIsAltJit R st =
     (if FLG_PREJIT R then rbind (alt_jit_set R ''AltJitNgen'' (AltJitNgenMethodSet st)) (\<lambda>AltJit.
        rbind (in_set R AltJit) (\<lambda>b. Inr (b, st\<lparr>AltJitNgenMethodSet := AltJit\<rparr>)))
      else rbind (alt_jit_set R ''AltJit'' (AltJitMethodSet st)) (\<lambda>AltJit.
        rbind (in_set R AltJit) (\<lambda>b. Inr (b, st\<lparr>AltJitMethodSet := AltJit\<rparr>))))"

text \<open>In a release build.\<close>

definition queryIsAltJit_release :: "Request \<Rightarrow> bool result" where
  "queryIsAltJit_release R = (case ConfigValue R (if FLG_PREJIT R then ''AltJitNgen'' else ''AltJit'') of
     None \<Rightarrow> Inl (AssertFailed ''null WideStr'') | Some v \<Rightarrow> Inr (v = ''*''))"

definition to_upper :: "char \<Rightarrow> char" where
  "to_upper c = (let n = of_char c :: nat in if 97 \<le> n \<and> n \<le> 122 then char_of (n - 32) else c)"

definition queryDumpLevel :: "Request \<Rightarrow> DumpLevel" where
  "queryDumpLevel R = (case ConfigValue R ''DUMPLLVMIR'' of None \<Rightarrow> NODUMP | Some v \<Rightarrow>
     (let Level = map to_upper v in if Level = ''VERBOSE'' then VERBOSE else if Level = ''SUMMARY'' then SUMMARY else NODUMP))"

definition queryIsExcludeMethod :: "Request \<Rightarrow> MethodSets \<Rightarrow> (bool \<times> MethodSets) result" where
  "queryIsExcludeMethod R st = rbind (queryMethodSet R ''AltJitExclude'' (ExcludeMethodSet st)) (\<lambda>(b, s). Inr (b, st\<lparr>ExcludeMethodSet := s\<rparr>))"

definition queryIsBreakMethod :: "Request \<Rightarrow> MethodSets \<Rightarrow> (bool \<times> MethodSets) result" where
  "queryIsBreakMethod R st = rbind (queryMethodSet R ''AltJitBreakAtJitStart'' (BreakMethodSet st)) (\<lambda>(b, s). Inr (b, st\<lparr>BreakMethodSet := s\<rparr>))"

definition queryIsMSILDumpMethod :: "Request \<Rightarrow> MethodSets \<Rightarrow> (bool \<times> MethodSets) result" where
  "queryIsMSILDumpMethod R st = rbind (queryMethodSet R ''AltJitMSILDump'' (MSILMethodSet st)) (\<lambda>(b, s). Inr (b, st\<lparr>MSILMethodSet := s\<rparr>))"

definition queryIsLLVMDumpMethod :: "Request \<Rightarrow> MethodSets \<Rightarrow> (bool \<times> MethodSets) result" where
  "queryIsLLVMDumpMethod R st = rbind (queryMethodSet R ''AltJitLLVMDump'' (LLVMMethodSet st)) (\<lambda>(b, s). Inr (b, st\<lparr>LLVMMethodSet := s\<rparr>))"

definition queryIsCodeRangeMethod :: "Request \<Rightarrow> MethodSets \<Rightarrow> (bool \<times> MethodSets) result" where
  "queryIsCodeRangeMethod R st = rbind (queryMethodSet R ''AltJitCodeRangeDump'' (CodeRangeMethodSet st)) (\<lambda>(b, s). Inr (b, st\<lparr>CodeRangeMethodSet := s\<rparr>))"

definition queryUseConservativeGC :: "Request \<Rightarrow> bool" where
  "queryUseConservativeGC R = queryNonNullNonEmpty R ''gcConservative''"

definition queryDoInsertStatepoints :: "Request \<Rightarrow> bool" where
  "queryDoInsertStatepoints R = queryNonNullNonEmpty R ''INSERTSTATEPOINTS''"

definition queryLogGcInfo :: "Request \<Rightarrow> bool" where
  "queryLogGcInfo R = queryNonNullNonEmpty R ''JitGCInfoLogging''"

definition queryExecuteHandlers :: "Request \<Rightarrow> bool" where
  "queryExecuteHandlers R = queryNonNullNonEmpty R ''ExecuteHandlers''"

definition queryDoSIMDIntrinsic :: "Request \<Rightarrow> bool" where
  "queryDoSIMDIntrinsic R = queryNonNullNonEmpty R ''SIMDINTRINSIC''"

definition DEFAULT_TAIL_CALL_OPT :: bool where
  "DEFAULT_TAIL_CALL_OPT = True"

definition queryOptLevel :: "Request \<Rightarrow> OptLevel" where
  "queryOptLevel R = (if FLG_DEBUG_CODE R then DEBUG_CODE else BLENDED_CODE)"

text \<open>The constructor, in a debug build.\<close>

definition JitOptions :: "Request \<Rightarrow> MethodSets \<Rightarrow> (Options \<times> MethodSets) result" where
  "JitOptions R st =
     rbind (queryIsAltJit R st) (\<lambda>(alt, st).
     rbind (queryIsExcludeMethod R st) (\<lambda>(excl, st).
     rbind (queryIsBreakMethod R st) (\<lambda>(brk, st).
     rbind (queryIsMSILDumpMethod R st) (\<lambda>(msil, st).
     rbind (queryIsLLVMDumpMethod R st) (\<lambda>(llvm, st).
     rbind (queryIsCodeRangeMethod R st) (\<lambda>(range, st).
     let opts = \<lparr>opt_DumpLevel = queryDumpLevel R, opt_OptLevel = queryOptLevel R, EnableOptimization = (queryOptLevel R \<noteq> DEBUG_CODE),
           UseConservativeGC = queryUseConservativeGC R, DoInsertStatepoints = queryDoInsertStatepoints R,
           DoTailCallOpt = DEFAULT_TAIL_CALL_OPT, LogGcInfo = queryLogGcInfo R, ExecuteHandlers = queryExecuteHandlers R,
           DoSIMDIntrinsic = queryDoSIMDIntrinsic R, PreferredIntrinsicSIMDVectorLength = (if alt then 0 else 32),
           IsAltJit = alt, IsExcludeMethod = excl, IsBreakMethod = brk, IsMSILDumpMethod = msil, IsLLVMDumpMethod = llvm, IsCodeRangeMethod = range\<rparr> in
     rbind (rassert ''Statepoints required for precise-GC'' (DoInsertStatepoints opts \<or> UseConservativeGC opts)) (\<lambda>_. Inr (opts, st))))))))"

subsection \<open>Specification and lemmas\<close>

text \<open>The methods that a list of patterns selects.\<close>

definition selected :: "Request \<Rightarrow> (nat \<times> pattern) list \<Rightarrow> bool" where
  "selected R ps \<longleftrightarrow> (\<exists>p \<in> snd ` set ps. selects (pattern_id p) (RequestMethodName R) (RequestClassName R) (UncompressData R (tl (RequestSig R))))"

definition patterns_ok :: "(nat \<times> pattern) list \<Rightarrow> bool" where
  "patterns_ok ps \<longleftrightarrow> list_all (pattern_ok \<circ> snd) ps \<and> length (config_text ps) < npos"

text \<open>The configuration lists patterns: a value that the host does not have lists none.\<close>

definition lists_patterns :: "Request \<Rightarrow> string \<Rightarrow> (nat \<times> pattern) list \<Rightarrow> bool" where
  "lists_patterns R Name ps \<longleftrightarrow> patterns_ok ps \<and> (case ConfigValue R Name of None \<Rightarrow> ps = [] | Some v \<Rightarrow> v = config_text ps)"

lemma parse_all_mono: "parse_all f S I = Some r \<Longrightarrow> f \<le> f' \<Longrightarrow> parse_all f' S I = Some r"
proof (induction f arbitrary: I r f')
  case (Suc f)
  then obtain g where g: "f' = Suc g" "f \<le> g" by (cases f') auto
  show ?case
  proof (cases "\<exists>MId I'. parse S I = Inr (Some MId, I')")
    case True
    then obtain MId I' where p: "parse S I = Inr (Some MId, I')" by blast
    then obtain r' where r': "parse_all f S I' = Some r'" using Suc.prems(1) by (cases "parse_all f S I'") auto
    then show ?thesis using p Suc.IH[OF r' g(2)] Suc.prems(1) g(1) by simp
  next
    case False
    then show ?thesis using Suc.prems(1) g(1) by (auto split: sum.splits option.splits)
  qed
qed simp

lemma config_text_length: "length ps \<le> length (config_text ps)"
  by (induction ps) (auto simp: config_text_def)

lemma init_set_patterns:
  assumes "patterns_ok ps" "\<not> isInitialized s" "Initialized s = 0"
  shows "\<exists>s'. init_set (config_text ps) s = Inr s' \<and> MethodIDList s' = Some (map (pattern_id \<circ> snd) ps)"
proof -
  have "parse_all (Suc (length ps)) (config_text ps) 0 = Some (Inr (map (pattern_id \<circ> snd) ps))"
    using parse_all_config[of ps "config_text ps" "[]" "[]"] assms(1) by (simp add: patterns_ok_def)
  then have "parse_all (Suc (length (config_text ps))) (config_text ps) 0 = Some (Inr (map (pattern_id \<circ> snd) ps))"
    by (rule parse_all_mono) (simp add: config_text_length)
  then show ?thesis using assms(2,3) by (simp add: init_set_def init_def insert_patterns_def publish_def del: parse_all.simps)
qed

lemma in_set_patterns: "MethodIDList s = Some (map (pattern_id \<circ> snd) ps) \<Longrightarrow> in_set R s = Inr (selected R ps)"
  by (auto simp: in_set_def contains_def contains_loop_iff selected_def)

text \<open>A set that was initialised from patterns, or is not yet and will be.\<close>

definition set_for :: "Request \<Rightarrow> string \<Rightarrow> (nat \<times> pattern) list \<Rightarrow> MethodSet \<Rightarrow> bool" where
  "set_for R Name ps s \<longleftrightarrow> MethodIDList s = Some (map (pattern_id \<circ> snd) ps)
     \<or> MethodIDList s = None \<and> Initialized s = 0 \<and> lists_patterns R Name ps"

lemma queryMethodSet_patterns:
  assumes "set_for R Name ps s"
  shows "\<exists>s'. queryMethodSet R Name s = Inr (selected R ps, s') \<and> MethodIDList s' = Some (map (pattern_id \<circ> snd) ps)"
proof (cases "isInitialized s")
  case True
  then show ?thesis using assms in_set_patterns by (auto simp: queryMethodSet_def set_for_def isInitialized_def)
next
  case False
  then have "(case ConfigValue R Name of None \<Rightarrow> [] | Some s \<Rightarrow> s) = config_text ps" "patterns_ok ps" "Initialized s = 0"
    using assms by (auto simp: set_for_def isInitialized_def lists_patterns_def config_text_def split: option.splits)
  then show ?thesis using init_set_patterns[of ps s] False in_set_patterns by (auto simp: queryMethodSet_def)
qed

lemma alt_jit_set_patterns:
  assumes "set_for R Name ps s" "isInitialized s \<or> ConfigValue R Name \<noteq> None"
  shows "\<exists>s'. alt_jit_set R Name s = Inr s' \<and> MethodIDList s' = Some (map (pattern_id \<circ> snd) ps)"
proof (cases "isInitialized s")
  case True
  then show ?thesis using assms by (auto simp: alt_jit_set_def set_for_def isInitialized_def)
next
  case False
  then have "ConfigValue R Name = Some (config_text ps)" "patterns_ok ps" "Initialized s = 0"
    using assms by (auto simp: set_for_def isInitialized_def lists_patterns_def split: option.splits)
  then show ?thesis using init_set_patterns[of ps s] False by (auto simp: alt_jit_set_def)
qed

definition alt_name :: "Request \<Rightarrow> string" where
  "alt_name R = (if FLG_PREJIT R then ''AltJitNgen'' else ''AltJit'')"

definition alt_set :: "Request \<Rightarrow> MethodSets \<Rightarrow> MethodSet" where
  "alt_set R st = (if FLG_PREJIT R then AltJitNgenMethodSet st else AltJitMethodSet st)"

text \<open>The sets of a process in which the configuration lists the given patterns.\<close>

definition sets_for :: "Request \<Rightarrow> (string \<Rightarrow> (nat \<times> pattern) list) \<Rightarrow> MethodSets \<Rightarrow> bool" where
  "sets_for R cfg st \<longleftrightarrow> set_for R (alt_name R) (cfg (alt_name R)) (alt_set R st)
     \<and> set_for R ''AltJitExclude'' (cfg ''AltJitExclude'') (ExcludeMethodSet st)
     \<and> set_for R ''AltJitBreakAtJitStart'' (cfg ''AltJitBreakAtJitStart'') (BreakMethodSet st)
     \<and> set_for R ''AltJitMSILDump'' (cfg ''AltJitMSILDump'') (MSILMethodSet st)
     \<and> set_for R ''AltJitLLVMDump'' (cfg ''AltJitLLVMDump'') (LLVMMethodSet st)
     \<and> set_for R ''AltJitCodeRangeDump'' (cfg ''AltJitCodeRangeDump'') (CodeRangeMethodSet st)"

lemma queryIsAltJit_patterns:
  assumes "set_for R (alt_name R) ps (alt_set R st)" "isInitialized (alt_set R st) \<or> ConfigValue R (alt_name R) \<noteq> None"
  shows "\<exists>st'. queryIsAltJit R st = Inr (selected R ps, st') \<and> ExcludeMethodSet st' = ExcludeMethodSet st \<and> BreakMethodSet st' = BreakMethodSet st
     \<and> MSILMethodSet st' = MSILMethodSet st \<and> LLVMMethodSet st' = LLVMMethodSet st \<and> CodeRangeMethodSet st' = CodeRangeMethodSet st
     \<and> MethodIDList (alt_set R st') = Some (map (pattern_id \<circ> snd) ps)"
  using alt_jit_set_patterns[OF assms] in_set_patterns by (auto simp: queryIsAltJit_def alt_set_def alt_name_def)


lemma queryIsExcludeMethod_patterns:
  assumes "set_for R ''AltJitExclude'' ps (ExcludeMethodSet st)"
  shows "\<exists>s. queryIsExcludeMethod R st = Inr (selected R ps, st\<lparr>ExcludeMethodSet := s\<rparr>) \<and> MethodIDList s = Some (map (pattern_id \<circ> snd) ps)"
  using queryMethodSet_patterns[OF assms] by (auto simp: queryIsExcludeMethod_def)

lemma queryIsBreakMethod_patterns:
  assumes "set_for R ''AltJitBreakAtJitStart'' ps (BreakMethodSet st)"
  shows "\<exists>s. queryIsBreakMethod R st = Inr (selected R ps, st\<lparr>BreakMethodSet := s\<rparr>) \<and> MethodIDList s = Some (map (pattern_id \<circ> snd) ps)"
  using queryMethodSet_patterns[OF assms] by (auto simp: queryIsBreakMethod_def)

lemma queryIsMSILDumpMethod_patterns:
  assumes "set_for R ''AltJitMSILDump'' ps (MSILMethodSet st)"
  shows "\<exists>s. queryIsMSILDumpMethod R st = Inr (selected R ps, st\<lparr>MSILMethodSet := s\<rparr>) \<and> MethodIDList s = Some (map (pattern_id \<circ> snd) ps)"
  using queryMethodSet_patterns[OF assms] by (auto simp: queryIsMSILDumpMethod_def)

lemma queryIsLLVMDumpMethod_patterns:
  assumes "set_for R ''AltJitLLVMDump'' ps (LLVMMethodSet st)"
  shows "\<exists>s. queryIsLLVMDumpMethod R st = Inr (selected R ps, st\<lparr>LLVMMethodSet := s\<rparr>) \<and> MethodIDList s = Some (map (pattern_id \<circ> snd) ps)"
  using queryMethodSet_patterns[OF assms] by (auto simp: queryIsLLVMDumpMethod_def)

lemma queryIsCodeRangeMethod_patterns:
  assumes "set_for R ''AltJitCodeRangeDump'' ps (CodeRangeMethodSet st)"
  shows "\<exists>s. queryIsCodeRangeMethod R st = Inr (selected R ps, st\<lparr>CodeRangeMethodSet := s\<rparr>) \<and> MethodIDList s = Some (map (pattern_id \<circ> snd) ps)"
  using queryMethodSet_patterns[OF assms] by (auto simp: queryIsCodeRangeMethod_def)

text \<open>What the options of a request are to be.\<close>

definition options_for :: "Request \<Rightarrow> (string \<Rightarrow> (nat \<times> pattern) list) \<Rightarrow> Options" where
  "options_for R cfg = \<lparr>opt_DumpLevel = queryDumpLevel R, opt_OptLevel = (if FLG_DEBUG_CODE R then DEBUG_CODE else BLENDED_CODE),
     EnableOptimization = (\<not> FLG_DEBUG_CODE R), UseConservativeGC = queryNonNullNonEmpty R ''gcConservative'',
     DoInsertStatepoints = queryNonNullNonEmpty R ''INSERTSTATEPOINTS'', DoTailCallOpt = True,
     LogGcInfo = queryNonNullNonEmpty R ''JitGCInfoLogging'', ExecuteHandlers = queryNonNullNonEmpty R ''ExecuteHandlers'',
     DoSIMDIntrinsic = queryNonNullNonEmpty R ''SIMDINTRINSIC'',
     PreferredIntrinsicSIMDVectorLength = (if selected R (cfg (alt_name R)) then 0 else 32),
     IsAltJit = selected R (cfg (alt_name R)), IsExcludeMethod = selected R (cfg ''AltJitExclude''),
     IsBreakMethod = selected R (cfg ''AltJitBreakAtJitStart''), IsMSILDumpMethod = selected R (cfg ''AltJitMSILDump''),
     IsLLVMDumpMethod = selected R (cfg ''AltJitLLVMDump''), IsCodeRangeMethod = selected R (cfg ''AltJitCodeRangeDump'')\<rparr>"

definition sets_ready :: "Request \<Rightarrow> (string \<Rightarrow> (nat \<times> pattern) list) \<Rightarrow> MethodSets \<Rightarrow> bool" where
  "sets_ready R cfg st \<longleftrightarrow> MethodIDList (alt_set R st) = Some (map (pattern_id \<circ> snd) (cfg (alt_name R)))
     \<and> MethodIDList (ExcludeMethodSet st) = Some (map (pattern_id \<circ> snd) (cfg ''AltJitExclude''))
     \<and> MethodIDList (BreakMethodSet st) = Some (map (pattern_id \<circ> snd) (cfg ''AltJitBreakAtJitStart''))
     \<and> MethodIDList (MSILMethodSet st) = Some (map (pattern_id \<circ> snd) (cfg ''AltJitMSILDump''))
     \<and> MethodIDList (LLVMMethodSet st) = Some (map (pattern_id \<circ> snd) (cfg ''AltJitLLVMDump''))
     \<and> MethodIDList (CodeRangeMethodSet st) = Some (map (pattern_id \<circ> snd) (cfg ''AltJitCodeRangeDump''))"

lemma alt_set_update [simp]:
  "alt_set R (st\<lparr>ExcludeMethodSet := s\<rparr>) = alt_set R st" "alt_set R (st\<lparr>BreakMethodSet := s\<rparr>) = alt_set R st"
  "alt_set R (st\<lparr>MSILMethodSet := s\<rparr>) = alt_set R st" "alt_set R (st\<lparr>LLVMMethodSet := s\<rparr>) = alt_set R st"
  "alt_set R (st\<lparr>CodeRangeMethodSet := s\<rparr>) = alt_set R st"
  by (simp_all add: alt_set_def)

lemma JitOptions_for:
  assumes "sets_for R cfg st" "isInitialized (alt_set R st) \<or> ConfigValue R (alt_name R) \<noteq> None"
    "queryNonNullNonEmpty R ''INSERTSTATEPOINTS'' \<or> queryNonNullNonEmpty R ''gcConservative''"
  shows "\<exists>st'. JitOptions R st = Inr (options_for R cfg, st') \<and> sets_ready R cfg st'"
proof -
  note s = assms(1)[unfolded sets_for_def]
  obtain t0 where t0: "queryIsAltJit R st = Inr (selected R (cfg (alt_name R)), t0)" "ExcludeMethodSet t0 = ExcludeMethodSet st"
     "BreakMethodSet t0 = BreakMethodSet st" "MSILMethodSet t0 = MSILMethodSet st" "LLVMMethodSet t0 = LLVMMethodSet st"
     "CodeRangeMethodSet t0 = CodeRangeMethodSet st" "MethodIDList (alt_set R t0) = Some (map (pattern_id \<circ> snd) (cfg (alt_name R)))"
    using queryIsAltJit_patterns[of R "cfg (alt_name R)" st] s assms(2) by blast
  obtain e where e: "queryIsExcludeMethod R t0 = Inr (selected R (cfg ''AltJitExclude''), t0\<lparr>ExcludeMethodSet := e\<rparr>)"
    "MethodIDList e = Some (map (pattern_id \<circ> snd) (cfg ''AltJitExclude''))" using queryIsExcludeMethod_patterns[of R _ t0] s t0 by metis
  let ?t1 = "t0\<lparr>ExcludeMethodSet := e\<rparr>"
  obtain b where b: "queryIsBreakMethod R ?t1 = Inr (selected R (cfg ''AltJitBreakAtJitStart''), ?t1\<lparr>BreakMethodSet := b\<rparr>)"
    "MethodIDList b = Some (map (pattern_id \<circ> snd) (cfg ''AltJitBreakAtJitStart''))" using queryIsBreakMethod_patterns[of R _ ?t1] s t0 by auto
  let ?t2 = "?t1\<lparr>BreakMethodSet := b\<rparr>"
  obtain m where m: "queryIsMSILDumpMethod R ?t2 = Inr (selected R (cfg ''AltJitMSILDump''), ?t2\<lparr>MSILMethodSet := m\<rparr>)"
    "MethodIDList m = Some (map (pattern_id \<circ> snd) (cfg ''AltJitMSILDump''))" using queryIsMSILDumpMethod_patterns[of R _ ?t2] s t0 by auto
  let ?t3 = "?t2\<lparr>MSILMethodSet := m\<rparr>"
  obtain l where l: "queryIsLLVMDumpMethod R ?t3 = Inr (selected R (cfg ''AltJitLLVMDump''), ?t3\<lparr>LLVMMethodSet := l\<rparr>)"
    "MethodIDList l = Some (map (pattern_id \<circ> snd) (cfg ''AltJitLLVMDump''))" using queryIsLLVMDumpMethod_patterns[of R _ ?t3] s t0 by auto
  let ?t4 = "?t3\<lparr>LLVMMethodSet := l\<rparr>"
  obtain c where c: "queryIsCodeRangeMethod R ?t4 = Inr (selected R (cfg ''AltJitCodeRangeDump''), ?t4\<lparr>CodeRangeMethodSet := c\<rparr>)"
    "MethodIDList c = Some (map (pattern_id \<circ> snd) (cfg ''AltJitCodeRangeDump''))" using queryIsCodeRangeMethod_patterns[of R _ ?t4] s t0 by auto
  have "JitOptions R st = Inr (options_for R cfg, ?t4\<lparr>CodeRangeMethodSet := c\<rparr>)"
    using assms(3) by (auto simp: JitOptions_def t0(1) e(1) b(1) m(1) l(1) c(1) options_for_def queryOptLevel_def DEFAULT_TAIL_CALL_OPT_def rassert_def
        queryUseConservativeGC_def queryDoInsertStatepoints_def queryLogGcInfo_def queryExecuteHandlers_def queryDoSIMDIntrinsic_def)
  moreover have "sets_ready R cfg (?t4\<lparr>CodeRangeMethodSet := c\<rparr>)"
    using e(2) b(2) m(2) l(2) c(2) t0(7) by (simp add: sets_ready_def)
  ultimately show ?thesis by blast
qed

lemma sets_ready_for: "sets_ready R cfg st \<Longrightarrow> alt_name R = alt_name R' \<Longrightarrow> sets_for R' cfg st"
  by (auto simp: sets_ready_def sets_for_def set_for_def alt_name_def alt_set_def split: if_splits)

lemma sets_ready_alt: "sets_ready R cfg st \<Longrightarrow> alt_name R = alt_name R' \<Longrightarrow> isInitialized (alt_set R' st)"
  by (auto simp: sets_ready_def isInitialized_def alt_name_def alt_set_def split: if_splits)

subsection \<open>The compilations of a process\<close>

text \<open>The options of a sequence of requests, which share the static method sets.\<close>

fun compile_options :: "Request list \<Rightarrow> MethodSets \<Rightarrow> (Options list \<times> MethodSets) result" where
  "compile_options [] st = Inr ([], st)"
| "compile_options (R # Rs) st = rbind (JitOptions R st) (\<lambda>(opts, st). rbind (compile_options Rs st) (\<lambda>(os, st). Inr (opts # os, st)))"

lemma compile_options_ready:
  assumes "sets_ready R cfg st" "\<forall>R' \<in> set Rs. FLG_PREJIT R' = FLG_PREJIT R \<and> (queryNonNullNonEmpty R' ''INSERTSTATEPOINTS'' \<or> queryNonNullNonEmpty R' ''gcConservative'')"
  shows "\<exists>st'. compile_options Rs st = Inr (map (\<lambda>R'. options_for R' cfg) Rs, st') \<and> sets_ready R cfg st'"
  using assms
proof (induction Rs arbitrary: st)
  case (Cons R' Rs)
  then have n: "alt_name R' = alt_name R" by (simp add: alt_name_def)
  obtain st1 where st1: "JitOptions R' st = Inr (options_for R' cfg, st1)" "sets_ready R' cfg st1"
    using JitOptions_for[of R' cfg st] sets_ready_for sets_ready_alt n Cons.prems by (metis list.set_intros(1))
  then have "sets_ready R cfg st1" using n Cons.prems(2) by (simp add: sets_ready_def alt_set_def)
  then obtain st2 where "compile_options Rs st1 = Inr (map (\<lambda>R'. options_for R' cfg) Rs, st2)" "sets_ready R cfg st2"
    using Cons.IH Cons.prems(2) by auto
  then show ?case using st1(1) by simp
qed simp

definition set_names :: "Request \<Rightarrow> string list" where
  "set_names R = [alt_name R, ''AltJitExclude'', ''AltJitBreakAtJitStart'', ''AltJitMSILDump'', ''AltJitLLVMDump'', ''AltJitCodeRangeDump'']"

lemma sets_for_new:
  assumes "\<forall>Name \<in> set (set_names R). lists_patterns R Name (cfg Name)"
  shows "sets_for R cfg MethodSets_new"
  using assms by (simp add: set_names_def sets_for_def set_for_def MethodSets_new_def MethodSet_new_def alt_set_def)


definition sample_request :: "string \<Rightarrow> string \<Rightarrow> Request" where
  "sample_request method_name class_name = \<lparr>ConfigValue = (\<lambda>Name. if Name = ''AltJit'' then Some '' *'' else if Name = ''AltJitExclude'' then Some '' Main''
       else if Name = ''gcConservative'' then Some ''1'' else None), FLG_PREJIT = False, FLG_DEBUG_CODE = False, FLG_READYTORUN = False,
     FLG_IMPORT_ONLY = False, RequestMethodName = method_name, RequestClassName = class_name, RequestSig = [0, 0], UncompressData = (\<lambda>_. 0)\<rparr>"

definition sample_patterns :: "string \<Rightarrow> (nat \<times> pattern) list" where
  "sample_patterns Name = (if Name = ''AltJit'' then [(0, Star)] else if Name = ''AltJitExclude'' then [(0, Pat None ''Main'' None)] else [])"

lemmas sample_defs = sample_request_def sample_patterns_def

lemma sample_lists: "\<forall>Name \<in> set (set_names (sample_request M C)). lists_patterns (sample_request M C) Name (sample_patterns Name)"
  by (simp add: set_names_def alt_name_def lists_patterns_def patterns_ok_def sample_defs config_text_def name_ok_def npos_def)


end
