(* ===== verification/ReaderLoop.thy ===== *)
theory ReaderLoop
  imports ILDecode MethodSignature EHRegion
begin

section \<open>The reader loop\<close>

text \<open>
  lib/Reader/reader.cpp, \<open>readBytesForFlowGraphNodeHelper\<close>: the loop that decodes the instructions of a
  block, keeps the operand stack and calls the client (the generator of IR) for every instruction. The
  class is abstract in the client: its calls are recorded, in order, with their arguments, and the value
  that a call returns is a fresh name. The operand stack has its top first. Verification is off in this
  build (the \<open>verify\<close> functions are stubs), \<open>BADCODE\<close> returns, and the pass is never verify-only, so none
  of them leaves a trace here; neither do \<open>removeStackInterference\<close> and \<open>sequencePoint\<close>, which the client leaves
  empty, and \<open>resolveToken\<close>, which only asks the engine. The targets of branches, which the loop computes for the
  verifier only, are left out.
\<close>

subsection \<open>State\<close>

datatype IRNode = Incoming nat | Fresh nat

datatype GenArg = Node IRNode | Nodes "IRNode list" | NullNode | Tok u32 | Num int | Flag bool | Bytes "u8 list" | OpArg OPCODE

type_synonym GenCall = "string \<times> GenArg list"

record ReaderState =
  ReaderOperandStack :: "IRNode list"
  NextNode :: nat
  Trace :: "GenCall list"
  AlignmentPrefix :: u8
  HasVolatilePrefix :: bool
  HasTailCallPrefix :: bool
  HasReadOnlyPrefix :: bool
  HasConstrainedPrefix :: bool
  ConstraintTypeRef :: u32
  LoadFtnToken :: u32
  LastLoadToken :: u32
  HasFallThrough :: bool

definition Reader_AlignNatural :: u8 where
  "Reader_AlignNatural = 255"

definition mdTokenNil :: u32 where
  "mdTokenNil = 0"

text \<open>What the loop takes from the method and from the engine. The calls \<open>call\<close> and \<open>newObj\<close> of the client
  take their operands from the stack themselves: how many, and whether they return a value, is what the
  signature of the token says. \<open>RetType\<close> and \<open>RetClass\<close> are those of the signature of a method token and
  of the current method.\<close>

record LoopEnv =
  ILInput :: "u8 list"
  OpcodeArgs :: "OPCODE \<Rightarrow> InlineKind"
  CallPops :: "OPCODE \<Rightarrow> u32 \<Rightarrow> nat"
  CallReturns :: "OPCODE \<Rightarrow> u32 \<Rightarrow> bool"
  ReturnsVoid :: bool
  IsSynchronized :: bool
  IsZeroInitLocals :: bool
  DoTailCall :: bool
  IsReadyToRun :: bool
  IsDirectCall :: "u32 \<Rightarrow> bool"
  TargetRet :: "u32 \<Rightarrow> CorInfoType \<times> nat option"
  CurrentRet :: "CorInfoType \<times> nat option"
  CurrentRegion :: "RegionKind option"

record Instr =
  iOpcode :: OPCODE
  iOperand :: "u32 option"
  CurrentOffset :: u32
  NextOffset :: u32

definition ILSize :: "LoopEnv \<Rightarrow> u32" where
  "ILSize env = word_of_nat (length (ILInput env))"

definition MappedValue :: "OPCODE \<Rightarrow> int" where
  "MappedValue op = OpcodeRemap ! op"

subsection \<open>Operand stack and client\<close>

text \<open>\<open>GenStack::pop\<close> asserts that the stack is not empty.\<close>

definition pop_op :: "ReaderState \<Rightarrow> (IRNode \<Rightarrow> ReaderState \<Rightarrow> 'a result) \<Rightarrow> 'a result" where
  "pop_op st k = (case ReaderOperandStack st of [] \<Rightarrow> Inl (AssertFailed ''stack underflow'')
     | n # ns \<Rightarrow> k n (st\<lparr>ReaderOperandStack := ns\<rparr>))"

definition push_op :: "IRNode \<Rightarrow> ReaderState \<Rightarrow> ReaderState" where
  "push_op n st = st\<lparr>ReaderOperandStack := n # ReaderOperandStack st\<rparr>"

definition emit :: "string \<Rightarrow> GenArg list \<Rightarrow> ReaderState \<Rightarrow> ReaderState" where
  "emit f args st = st\<lparr>Trace := Trace st @ [(f, args)]\<rparr>"

text \<open>A call that returns a value, which is pushed.\<close>

definition gen_push :: "string \<Rightarrow> GenArg list \<Rightarrow> ReaderState \<Rightarrow> ReaderState" where
  "gen_push f args st = (emit f args st)\<lparr>ReaderOperandStack := Fresh (NextNode st) # ReaderOperandStack st, NextNode := NextNode st + 1\<rparr>"

text \<open>\<open>clearStack\<close> of the reader: every operand is given to \<open>pop\<close> of the client, the top first.\<close>

definition clearStack :: "ReaderState \<Rightarrow> ReaderState" where
  "clearStack st = st\<lparr>ReaderOperandStack := [], Trace := Trace st @ map (\<lambda>n. (''pop'', [Node n])) (ReaderOperandStack st)\<rparr>"

text \<open>The end of a block: operands that are left are handed to the successors, and the client empties the stack.\<close>

definition maintain_and_clear :: "ReaderState \<Rightarrow> ReaderState" where
  "maintain_and_clear st = (if ReaderOperandStack st \<noteq> []
     then (emit ''maintainOperandStack'' [Nodes (ReaderOperandStack st)] st)\<lparr>ReaderOperandStack := []\<rparr> else st)"

definition operand_ptr :: "Instr \<Rightarrow> u32 result" where
  "operand_ptr i = (case iOperand i of None \<Rightarrow> Inl (OutOfBounds ''Operand'' 0) | Some p \<Rightarrow> Inr p)"

definition read_token :: "LoopEnv \<Rightarrow> Instr \<Rightarrow> (u32 \<Rightarrow> 'a result) \<Rightarrow> 'a result" where
  "read_token env i k = rbind (operand_ptr i) (\<lambda>p. rbind (readValue_u32 (ILInput env) p) k)"

definition read_unsigned :: "nat \<Rightarrow> LoopEnv \<Rightarrow> Instr \<Rightarrow> (int \<Rightarrow> 'a result) \<Rightarrow> 'a result" where
  "read_unsigned n env i k = rbind (operand_ptr i) (\<lambda>p. rbind (read_bytes ''IL'' (ILInput env) (unat p) n) (\<lambda>bs. k (int (le_value bs))))"

definition read_signed :: "nat \<Rightarrow> LoopEnv \<Rightarrow> Instr \<Rightarrow> (int \<Rightarrow> 'a result) \<Rightarrow> 'a result" where
  "read_signed n env i k = rbind (operand_ptr i) (\<lambda>p.
     rbind (if n = 1 then readValue_i8 (ILInput env) p else if n = 4 then readValue_i32 (ILInput env) p else readValue_i64 (ILInput env) p) k)"

definition read_raw :: "nat \<Rightarrow> LoopEnv \<Rightarrow> Instr \<Rightarrow> (u8 list \<Rightarrow> 'a result) \<Rightarrow> 'a result" where
  "read_raw n env i k = rbind (operand_ptr i) (\<lambda>p. rbind (read_bytes ''IL'' (ILInput env) (unat p) n) k)"

subsection \<open>Tail calls\<close>

text \<open>The instructions behind a call up to the first one that is neither \<open>nop\<close> nor the first \<open>pop\<close>; the fuel
  bounds the number of instructions.\<close>

fun skip_to_ret :: "nat \<Rightarrow> LoopEnv \<Rightarrow> u32 \<Rightarrow> nat \<Rightarrow> (OPCODE \<times> nat) result option" where
  "skip_to_ret 0 env off NumPops = None"
| "skip_to_ret (Suc fuel) env off NumPops =
     (case parseILOpcode (OpcodeArgs env) (ILInput env) off (ILSize env) False of
        Inl e \<Rightarrow> Some (Inl e)
      | Inr r \<Rightarrow>
          (if next_offset r < ILSize env \<and> opcode r = CEE_NOP then skip_to_ret fuel env (next_offset r) NumPops
           else if next_offset r < ILSize env \<and> opcode r = CEE_POP
           then (if NumPops + 1 = 1 then skip_to_ret fuel env (next_offset r) (NumPops + 1) else Some (Inr (opcode r, NumPops + 1)))
           else Some (Inr (opcode r, NumPops))))"

text \<open>The build does not define \<open>TAMD64\<close>: value classes are refused, and so is every \<open>pop\<close>.\<close>

definition isUnmarkedTailCall :: "LoopEnv \<Rightarrow> u32 \<Rightarrow> u32 \<Rightarrow> bool result" where
  "isUnmarkedTailCall env off Token =
     (case skip_to_ret (Suc (length (ILInput env))) env off 0 of
        None \<Rightarrow> Inl (AssertFailed ''fuel'')
      | Some (Inl e) \<Rightarrow> Inl e
      | Some (Inr (op, NumPops)) \<Rightarrow>
          Inr (op = CEE_RET \<and> NumPops \<le> 1 \<and> fst (TargetRet env Token) \<noteq> CORINFO_TYPE_VALUECLASS
               \<and> fst (CurrentRet env) \<noteq> CORINFO_TYPE_VALUECLASS \<and> NumPops = 0 \<and> TargetRet env Token = CurrentRet env))"

text \<open>The check of an explicit tail call: whether a return follows, behind any number of \<open>nop\<close> and,
  where it is allowed, one \<open>pop\<close>.\<close>

fun explicit_ret :: "nat \<Rightarrow> LoopEnv \<Rightarrow> u32 \<Rightarrow> bool \<Rightarrow> OPCODE result option" where
  "explicit_ret 0 env off AllowPop = None"
| "explicit_ret (Suc fuel) env off AllowPop =
     (case parseILOpcode (OpcodeArgs env) (ILInput env) off (ILSize env) False of
        Inl e \<Rightarrow> Some (Inl e)
      | Inr r \<Rightarrow>
          (let (op, AllowPop) = (if AllowPop \<and> opcode r = CEE_POP then (CEE_NOP, False) else (opcode r, AllowPop)) in
           if next_offset r < ILSize env \<and> op = CEE_NOP then explicit_ret fuel env (next_offset r) AllowPop else Some (Inr op)))"

definition SizeOfCEECall :: u32 where
  "SizeOfCEECall = 5"

definition checkExplicitTailCall :: "LoopEnv \<Rightarrow> u32 \<Rightarrow> bool \<Rightarrow> bool result" where
  "checkExplicitTailCall env ILOffset AllowPop =
     (case explicit_ret (Suc (length (ILInput env))) env (ILOffset + SizeOfCEECall) AllowPop of
        None \<Rightarrow> Inl (AssertFailed ''fuel'') | Some (Inl e) \<Rightarrow> Inl e | Some (Inr op) \<Rightarrow> Inr (op = CEE_RET))"

subsection \<open>The instructions\<close>

definition binary_ops :: "OPCODE list" where
  "binary_ops = [CEE_ADD_OVF_UN, CEE_ADD, CEE_ADD_OVF, CEE_AND, CEE_DIV, CEE_DIV_UN, CEE_MUL, CEE_MUL_OVF, CEE_MUL_OVF_UN, CEE_OR,
     CEE_REM, CEE_REM_UN, CEE_SUB, CEE_SUB_OVF, CEE_SUB_OVF_UN, CEE_XOR]"

definition read_binary :: "Instr \<Rightarrow> ReaderState \<Rightarrow> ReaderState result" where
  "read_binary i st = pop_op st (\<lambda>Arg2 st. pop_op st (\<lambda>Arg1 st.
     Inr (gen_push ''binaryOp'' [Num (MappedValue (iOpcode i)), Node Arg1, Node Arg2] st)))"

definition read_box :: "LoopEnv \<Rightarrow> Instr \<Rightarrow> ReaderState \<Rightarrow> ReaderState result" where
  "read_box env i st = read_token env i (\<lambda>Token. pop_op st (\<lambda>Arg1 st.
     Inr (gen_push ''box'' [Tok Token, Node Arg1] (emit ''handleClassAccess'' [Tok Token] st))))"

definition cond_branches :: "OPCODE list" where
  "cond_branches = [CEE_BEQ, CEE_BGE, CEE_BGE_UN, CEE_BGT, CEE_BGT_UN, CEE_BLE, CEE_BLE_UN, CEE_BLT, CEE_BLT_UN, CEE_BNE_UN,
     CEE_BEQ_S, CEE_BGE_S, CEE_BGE_UN_S, CEE_BGT_S, CEE_BGT_UN_S, CEE_BLE_S, CEE_BLE_UN_S, CEE_BLT_S, CEE_BLT_UN_S, CEE_BNE_UN_S]"

definition read_cond_branch :: "Instr \<Rightarrow> ReaderState \<Rightarrow> ReaderState result" where
  "read_cond_branch i st = pop_op st (\<lambda>Arg2 st. pop_op st (\<lambda>Arg1 st.
     Inr (emit ''condBranch'' [Num (MappedValue (iOpcode i)), Node Arg1, Node Arg2] (maintain_and_clear st))))"

definition bool_branches :: "OPCODE list" where
  "bool_branches = [CEE_BRTRUE, CEE_BRFALSE, CEE_BRTRUE_S, CEE_BRFALSE_S]"

definition read_bool_branch :: "Instr \<Rightarrow> ReaderState \<Rightarrow> ReaderState result" where
  "read_bool_branch i st = pop_op st (\<lambda>Arg1 st.
     Inr (emit ''boolBranch'' [Num (MappedValue (iOpcode i)), Node Arg1] (maintain_and_clear st)))"

definition read_branch_always :: "ReaderState \<Rightarrow> ReaderState result" where
  "read_branch_always st = Inr (emit ''branch'' [] (maintain_and_clear ((emit ''nop'' [] st)\<lparr>HasFallThrough := False\<rparr>)))"

fun pop_list :: "nat \<Rightarrow> ReaderState \<Rightarrow> (IRNode list \<Rightarrow> ReaderState \<Rightarrow> 'a result) \<Rightarrow> 'a result" where
  "pop_list 0 st k = k [] st"
| "pop_list (Suc n) st k = pop_op st (\<lambda>a st. pop_list n st (\<lambda>as. k (a # as)))"

definition push_result :: "bool \<Rightarrow> string \<Rightarrow> GenArg list \<Rightarrow> ReaderState \<Rightarrow> ReaderState" where
  "push_result returns f args st = (if returns then gen_push f args st else emit f args st)"

text \<open>A call: without a prefix it is a tail call when the code behind it allows that.\<close>

definition read_call :: "LoopEnv \<Rightarrow> Instr \<Rightarrow> ReaderState \<Rightarrow> ReaderState result" where
  "read_call env i st =
     (let st = emit ''setDebugLocation'' [Num (uint (CurrentOffset i)), Flag True] st in
      read_token env i (\<lambda>Token.
      rbind (if \<not> HasTailCallPrefix st \<and> iOpcode i \<noteq> CEE_CALLI \<and> DoTailCall env
             then isUnmarkedTailCall env (NextOffset i) Token else Inr False) (\<lambda>IsUnmarkedTailCall.
      let st = (if IsUnmarkedTailCall then st\<lparr>HasTailCallPrefix := True\<rparr> else st) in
      pop_list (CallPops env (iOpcode i) Token) st (\<lambda>Args st.
      Inr ((push_result (CallReturns env (iOpcode i) Token) ''call''
        [Num (MappedValue (iOpcode i)), Tok Token, Tok (ConstraintTypeRef st), Tok mdTokenNil, Flag (HasReadOnlyPrefix st),
         Flag (HasTailCallPrefix st), Flag IsUnmarkedTailCall, Num (uint (CurrentOffset i)), Nodes Args] st)\<lparr>LastLoadToken := mdTokenNil\<rparr>)))))"

definition read_cast :: "LoopEnv \<Rightarrow> Instr \<Rightarrow> ReaderState \<Rightarrow> ReaderState result" where
  "read_cast env i st = read_token env i (\<lambda>Token. pop_op st (\<lambda>Arg1 st.
     Inr (gen_push (if iOpcode i = CEE_CASTCLASS then ''castClass'' else ''isInst'') [Tok Token, Node Arg1] (emit ''handleClassAccess'' [Tok Token] st))))"

definition compare_ops :: "OPCODE list" where
  "compare_ops = [CEE_CEQ, CEE_CGT, CEE_CGT_UN, CEE_CLT, CEE_CLT_UN]"

definition read_compare :: "Instr \<Rightarrow> ReaderState \<Rightarrow> ReaderState result" where
  "read_compare i st = pop_op st (\<lambda>Arg2 st. pop_op st (\<lambda>Arg1 st.
     Inr (gen_push ''cmp'' [Num (MappedValue (iOpcode i)), Node Arg1, Node Arg2] st)))"

definition read_ckfinite :: "ReaderState \<Rightarrow> ReaderState result" where
  "read_ckfinite st = pop_op st (\<lambda>Arg1 st. Inr (gen_push ''ckFinite'' [Node Arg1] st))"

definition conv_ops :: "OPCODE list" where
  "conv_ops = [CEE_CONV_I1, CEE_CONV_I2, CEE_CONV_I4, CEE_CONV_I8, CEE_CONV_R4, CEE_CONV_R8, CEE_CONV_U1, CEE_CONV_U2, CEE_CONV_U4,
     CEE_CONV_U8, CEE_CONV_I, CEE_CONV_U, CEE_CONV_OVF_I1, CEE_CONV_OVF_I2, CEE_CONV_OVF_I4, CEE_CONV_OVF_I8, CEE_CONV_OVF_U1,
     CEE_CONV_OVF_U2, CEE_CONV_OVF_U4, CEE_CONV_OVF_U8, CEE_CONV_OVF_I, CEE_CONV_OVF_U, CEE_CONV_OVF_I1_UN, CEE_CONV_OVF_I2_UN,
     CEE_CONV_OVF_I4_UN, CEE_CONV_OVF_I8_UN, CEE_CONV_OVF_U1_UN, CEE_CONV_OVF_U2_UN, CEE_CONV_OVF_U4_UN, CEE_CONV_OVF_U8_UN,
     CEE_CONV_OVF_I_UN, CEE_CONV_OVF_U_UN, CEE_CONV_R_UN]"

definition read_conv :: "Instr \<Rightarrow> ReaderState \<Rightarrow> ReaderState result" where
  "read_conv i st = pop_op st (\<lambda>Arg1 st. Inr (gen_push ''conv'' [Num (MappedValue (iOpcode i)), Node Arg1] st))"

text \<open>The memory operations see the alignment and the volatile prefix.\<close>

definition prefix_args :: "ReaderState \<Rightarrow> GenArg list" where
  "prefix_args st = [Num (uint (AlignmentPrefix st)), Flag (HasVolatilePrefix st)]"

definition read_block_op :: "Instr \<Rightarrow> ReaderState \<Rightarrow> ReaderState result" where
  "read_block_op i st = pop_op st (\<lambda>Arg1 st. pop_op st (\<lambda>Arg2 st. pop_op st (\<lambda>Arg3 st.
     Inr (emit (if iOpcode i = CEE_CPBLK then ''cpBlk'' else ''initBlk'') ([Node Arg1, Node Arg2, Node Arg3] @ prefix_args st) st))))"

definition read_cpobj :: "LoopEnv \<Rightarrow> Instr \<Rightarrow> ReaderState \<Rightarrow> ReaderState result" where
  "read_cpobj env i st = read_token env i (\<lambda>Token. pop_op st (\<lambda>Arg1 st. pop_op st (\<lambda>Arg2 st.
     Inr (emit ''cpObj'' ([Tok Token, Node Arg1, Node Arg2] @ prefix_args st) st))))"

text \<open>\<open>dup\<close> of the client returns two values.\<close>

definition read_dup :: "ReaderState \<Rightarrow> ReaderState result" where
  "read_dup st = pop_op st (\<lambda>Arg1 st.
     Inr ((emit ''dup'' [Node Arg1] st)\<lparr>ReaderOperandStack := Fresh (NextNode st + 1) # Fresh (NextNode st) # ReaderOperandStack st,
       NextNode := NextNode st + 2\<rparr>))"

definition read_endfilter :: "ReaderState \<Rightarrow> ReaderState result" where
  "read_endfilter st = pop_op (st\<lparr>HasFallThrough := False\<rparr>) (\<lambda>Arg1 st. Inr (emit ''endFilter'' [Node Arg1] st))"

definition read_endfinally :: "ReaderState \<Rightarrow> ReaderState result" where
  "read_endfinally st = Inr (clearStack (st\<lparr>HasFallThrough := False\<rparr>))"

definition read_initobj :: "LoopEnv \<Rightarrow> Instr \<Rightarrow> ReaderState \<Rightarrow> ReaderState result" where
  "read_initobj env i st = read_token env i (\<lambda>Token. pop_op st (\<lambda>Arg1 st. Inr (emit ''initObj'' [Tok Token, Node Arg1] st)))"

definition read_jmp :: "LoopEnv \<Rightarrow> Instr \<Rightarrow> ReaderState \<Rightarrow> ReaderState result" where
  "read_jmp env i st = read_token env i (\<lambda>Token.
     Inr (emit ''jmp'' [Num (MappedValue (iOpcode i)), Tok Token] (clearStack (st\<lparr>HasFallThrough := False\<rparr>))))"

text \<open>The number of an argument or local: from the operand, or from the opcode.\<close>

definition read_index :: "LoopEnv \<Rightarrow> Instr \<Rightarrow> OPCODE \<Rightarrow> OPCODE \<Rightarrow> (int \<Rightarrow> 'a result) \<Rightarrow> 'a result" where
  "read_index env i long short k = (if iOpcode i = long then read_unsigned 2 env i k
     else if iOpcode i = short then read_unsigned 1 env i k else k (MappedValue (iOpcode i)))"

definition ldarg_ops :: "OPCODE list" where
  "ldarg_ops = [CEE_LDARG, CEE_LDARG_S, CEE_LDARG_0, CEE_LDARG_1, CEE_LDARG_2, CEE_LDARG_3]"

definition ldloc_ops :: "OPCODE list" where
  "ldloc_ops = [CEE_LDLOC, CEE_LDLOC_S, CEE_LDLOC_0, CEE_LDLOC_1, CEE_LDLOC_2, CEE_LDLOC_3]"

definition read_load_var :: "LoopEnv \<Rightarrow> Instr \<Rightarrow> ReaderState \<Rightarrow> ReaderState result" where
  "read_load_var env i st =
     (if iOpcode i \<in> set ldarg_ops then read_index env i CEE_LDARG CEE_LDARG_S (\<lambda>n. Inr (gen_push ''loadArg'' [Num n, Flag False] st))
      else read_index env i CEE_LDLOC CEE_LDLOC_S (\<lambda>n. Inr (gen_push ''loadLocal'' [Num n] st)))"

definition read_load_addr :: "LoopEnv \<Rightarrow> Instr \<Rightarrow> ReaderState \<Rightarrow> ReaderState result" where
  "read_load_addr env i st =
     (if iOpcode i = CEE_LDARGA \<or> iOpcode i = CEE_LDARGA_S
      then read_index env i CEE_LDARGA CEE_LDARGA_S (\<lambda>n. Inr (gen_push ''loadArgAddress'' [Num n] st))
      else read_index env i CEE_LDLOCA CEE_LDLOCA_S (\<lambda>n. Inr (gen_push ''loadLocalAddress'' [Num n] st)))"

definition ldc_i4_ops :: "OPCODE list" where
  "ldc_i4_ops = [CEE_LDC_I4, CEE_LDC_I4_S, CEE_LDC_I4_0, CEE_LDC_I4_1, CEE_LDC_I4_2, CEE_LDC_I4_3, CEE_LDC_I4_4, CEE_LDC_I4_5,
     CEE_LDC_I4_6, CEE_LDC_I4_7, CEE_LDC_I4_8, CEE_LDC_I4_M1]"

definition read_ldc :: "LoopEnv \<Rightarrow> Instr \<Rightarrow> ReaderState \<Rightarrow> ReaderState result" where
  "read_ldc env i st =
     (if iOpcode i = CEE_LDC_I8 then read_signed 8 env i (\<lambda>v. Inr (gen_push ''loadConstantI8'' [Num v] st))
      else if iOpcode i = CEE_LDC_R4 then read_raw 4 env i (\<lambda>v. Inr (gen_push ''loadConstantR4'' [Bytes v] st))
      else if iOpcode i = CEE_LDC_R8 then read_raw 8 env i (\<lambda>v. Inr (gen_push ''loadConstantR8'' [Bytes v] st))
      else (let k = (\<lambda>v. Inr (gen_push ''loadConstantI4'' [Num v] (emit ''nop'' [] st))) in
        if iOpcode i = CEE_LDC_I4 then read_signed 4 env i k else if iOpcode i = CEE_LDC_I4_S then read_signed 1 env i k
        else k (MappedValue (iOpcode i))))"

definition ldelem_ops :: "OPCODE list" where
  "ldelem_ops = [CEE_LDELEM, CEE_LDELEM_I1, CEE_LDELEM_U1, CEE_LDELEM_I2, CEE_LDELEM_U2, CEE_LDELEM_I4, CEE_LDELEM_U4, CEE_LDELEM_I8,
     CEE_LDELEM_I, CEE_LDELEM_R4, CEE_LDELEM_R8, CEE_LDELEM_REF]"

text \<open>The token of an element access, where the opcode has one.\<close>

definition read_elem_token :: "LoopEnv \<Rightarrow> Instr \<Rightarrow> OPCODE \<Rightarrow> (u32 \<Rightarrow> 'a result) \<Rightarrow> 'a result" where
  "read_elem_token env i op k = (if iOpcode i = op then read_token env i k else k mdTokenNil)"

definition read_ldelem :: "LoopEnv \<Rightarrow> Instr \<Rightarrow> ReaderState \<Rightarrow> ReaderState result" where
  "read_ldelem env i st = read_elem_token env i CEE_LDELEM (\<lambda>Token. pop_op st (\<lambda>Arg1 st. pop_op st (\<lambda>Arg2 st.
     Inr (gen_push ''loadElem'' [Num (MappedValue (iOpcode i)), Tok Token, Node Arg1, Node Arg2] st))))"

definition read_ldelema :: "LoopEnv \<Rightarrow> Instr \<Rightarrow> ReaderState \<Rightarrow> ReaderState result" where
  "read_ldelema env i st = read_token env i (\<lambda>Token. pop_op st (\<lambda>Arg1 st. pop_op st (\<lambda>Arg2 st.
     Inr (gen_push ''loadElemA'' [Tok Token, Node Arg1, Node Arg2, Flag (HasReadOnlyPrefix st)] st))))"

definition read_ldfld :: "LoopEnv \<Rightarrow> Instr \<Rightarrow> ReaderState \<Rightarrow> ReaderState result" where
  "read_ldfld env i st = read_token env i (\<lambda>Token. pop_op st (\<lambda>Arg1 st.
     Inr (gen_push ''loadField'' ([Tok Token, Node Arg1] @ prefix_args st) st)))"

text \<open>A function pointer: the token is kept for a delegate constructor that follows at once.\<close>

definition remember_ftn :: "LoopEnv \<Rightarrow> u32 \<Rightarrow> ReaderState \<Rightarrow> ReaderState" where
  "remember_ftn env Token st = st\<lparr>LoadFtnToken := (if IsReadyToRun env \<and> \<not> IsDirectCall env Token then mdTokenNil else Token)\<rparr>"

definition read_ldftn :: "LoopEnv \<Rightarrow> Instr \<Rightarrow> ReaderState \<Rightarrow> ReaderState result" where
  "read_ldftn env i st = read_token env i (\<lambda>Token.
     let st = emit ''handleMemberAccess'' [Tok Token] (remember_ftn env Token st) in
     if iOpcode i = CEE_LDFTN then Inr (gen_push ''rdrMakeLdFtnTargetNode'' [Tok Token] st)
     else pop_op st (\<lambda>Arg1 st. Inr (gen_push ''loadVirtFunc'' [Node Arg1, Tok Token] st)))"

definition ldind_ops :: "OPCODE list" where
  "ldind_ops = [CEE_LDIND_I1, CEE_LDIND_U1, CEE_LDIND_I2, CEE_LDIND_U2, CEE_LDIND_I4, CEE_LDIND_U4, CEE_LDIND_I8, CEE_LDIND_I,
     CEE_LDIND_R4, CEE_LDIND_R8, CEE_LDIND_REF]"

definition read_ldind :: "Instr \<Rightarrow> ReaderState \<Rightarrow> ReaderState result" where
  "read_ldind i st = pop_op st (\<lambda>Arg1 st.
     Inr (gen_push ''loadIndir'' ([Num (MappedValue (iOpcode i)), Node Arg1] @ prefix_args st @ [Flag False]) st))"

definition read_ldlen :: "ReaderState \<Rightarrow> ReaderState result" where
  "read_ldlen st = pop_op st (\<lambda>Arg1 st. Inr (gen_push ''loadLen'' [Node Arg1] st))"

definition read_static :: "LoopEnv \<Rightarrow> Instr \<Rightarrow> ReaderState \<Rightarrow> ReaderState result" where
  "read_static env i st = read_token env i (\<lambda>Token.
     Inr (if iOpcode i = CEE_LDSTR then gen_push ''loadStr'' [Tok Token] st
          else if iOpcode i = CEE_LDSFLD then gen_push ''loadStaticField'' [Tok Token, Flag (HasVolatilePrefix st)] st
          else gen_push ''getStaticFieldAddress'' [Tok Token] st))"

definition read_ldflda :: "LoopEnv \<Rightarrow> Instr \<Rightarrow> ReaderState \<Rightarrow> ReaderState result" where
  "read_ldflda env i st = read_token env i (\<lambda>Token. pop_op st (\<lambda>Arg1 st. Inr (gen_push ''loadFieldAddress'' [Tok Token, Node Arg1] st)))"

definition read_ldobj :: "LoopEnv \<Rightarrow> Instr \<Rightarrow> ReaderState \<Rightarrow> ReaderState result" where
  "read_ldobj env i st = read_token env i (\<lambda>Token. pop_op st (\<lambda>Arg1 st.
     Inr (gen_push ''loadObj'' ([Tok Token, Node Arg1] @ prefix_args st @ [Flag False]) st)))"

definition read_ldtoken :: "LoopEnv \<Rightarrow> Instr \<Rightarrow> ReaderState \<Rightarrow> ReaderState result" where
  "read_ldtoken env i st = read_token env i (\<lambda>Token. Inr (gen_push ''loadToken'' [Tok Token] (st\<lparr>LastLoadToken := Token\<rparr>)))"

definition read_leave :: "LoopEnv \<Rightarrow> Instr \<Rightarrow> ReaderState \<Rightarrow> ReaderState result" where
  "read_leave env i st = read_signed (if iOpcode i = CEE_LEAVE then 4 else 1) env i (\<lambda>v.
     Inr (emit ''leave'' [Num (uint (NextOffset i + word_of_int v))] (clearStack (st\<lparr>HasFallThrough := False\<rparr>))))"

definition read_localloc :: "LoopEnv \<Rightarrow> ReaderState \<Rightarrow> ReaderState result" where
  "read_localloc env st = pop_op st (\<lambda>Arg1 st. Inr (gen_push ''localAlloc'' [Node Arg1, Flag (IsZeroInitLocals env)] st))"

definition read_mkrefany :: "LoopEnv \<Rightarrow> Instr \<Rightarrow> ReaderState \<Rightarrow> ReaderState result" where
  "read_mkrefany env i st = read_token env i (\<lambda>Token. pop_op st (\<lambda>Arg1 st.
     Inr (gen_push ''makeRefAny'' [Tok Token, Node Arg1] (emit ''handleClassAccess'' [Tok Token] st))))"

definition read_unary :: "Instr \<Rightarrow> ReaderState \<Rightarrow> ReaderState result" where
  "read_unary i st = pop_op st (\<lambda>Arg1 st. Inr (gen_push ''unaryOp'' [Num (MappedValue (iOpcode i)), Node Arg1] st))"

definition read_newarr :: "LoopEnv \<Rightarrow> Instr \<Rightarrow> ReaderState \<Rightarrow> ReaderState result" where
  "read_newarr env i st = read_token env i (\<lambda>Token. pop_op (emit ''handleClassAccess'' [Tok Token] st) (\<lambda>Arg1 st.
     Inr (gen_push ''newArr'' [Tok Token, Node Arg1] st)))"

definition read_newobj :: "LoopEnv \<Rightarrow> Instr \<Rightarrow> ReaderState \<Rightarrow> ReaderState result" where
  "read_newobj env i st = read_token env i (\<lambda>Token. pop_list (CallPops env CEE_NEWOBJ Token) st (\<lambda>Args st.
     Inr ((push_result (CallReturns env CEE_NEWOBJ Token) ''newObj'' [Tok Token, Tok (LoadFtnToken st), Num (uint (CurrentOffset i)), Nodes Args] st)
       \<lparr>LoadFtnToken := mdTokenNil\<rparr>)))"

definition read_pop :: "ReaderState \<Rightarrow> ReaderState result" where
  "read_pop st = pop_op st (\<lambda>Arg1 st. Inr (emit ''pop'' [Node Arg1] st))"

definition read_refany :: "LoopEnv \<Rightarrow> Instr \<Rightarrow> ReaderState \<Rightarrow> ReaderState result" where
  "read_refany env i st =
     (if iOpcode i = CEE_REFANYTYPE then pop_op st (\<lambda>Arg1 st. Inr (gen_push ''refAnyType'' [Node Arg1] st))
      else read_token env i (\<lambda>Token. pop_op st (\<lambda>Arg1 st. Inr (gen_push ''refAnyVal'' [Node Arg1, Tok Token] st))))"

definition read_rethrow :: "ReaderState \<Rightarrow> ReaderState result" where
  "read_rethrow st = Inr (emit ''rethrow'' [] ((clearStack st)\<lparr>HasFallThrough := False\<rparr>))"

definition EPILOG :: int where
  "EPILOG = -3"

definition read_ret :: "LoopEnv \<Rightarrow> ReaderState \<Rightarrow> ReaderState result" where
  "read_ret env st =
     (let st = (emit ''setDebugLocation'' [Num EPILOG, Flag False] (emit ''nop'' [] st))\<lparr>HasFallThrough := False\<rparr> in
      if ReturnsVoid env then Inr (emit ''returnOpcode'' [NullNode, Flag (IsSynchronized env)] st)
      else pop_op st (\<lambda>Arg1 st. Inr (emit ''returnOpcode'' [Node Arg1, Flag (IsSynchronized env)] st)))"

definition shift_ops :: "OPCODE list" where
  "shift_ops = [CEE_SHL, CEE_SHR, CEE_SHR_UN]"

definition read_shift :: "Instr \<Rightarrow> ReaderState \<Rightarrow> ReaderState result" where
  "read_shift i st = pop_op st (\<lambda>Arg1 st. pop_op st (\<lambda>Arg2 st.
     Inr (gen_push ''shift'' [Num (MappedValue (iOpcode i)), Node Arg1, Node Arg2] st)))"

definition read_sizeof :: "LoopEnv \<Rightarrow> Instr \<Rightarrow> ReaderState \<Rightarrow> ReaderState result" where
  "read_sizeof env i st = read_token env i (\<lambda>Token. Inr (gen_push ''sizeofOpcode'' [Tok Token] st))"

definition stloc_ops :: "OPCODE list" where
  "stloc_ops = [CEE_STLOC, CEE_STLOC_S, CEE_STLOC_0, CEE_STLOC_1, CEE_STLOC_2, CEE_STLOC_3]"

definition read_store_var :: "LoopEnv \<Rightarrow> Instr \<Rightarrow> ReaderState \<Rightarrow> ReaderState result" where
  "read_store_var env i st =
     (if iOpcode i \<in> set stloc_ops then read_index env i CEE_STLOC CEE_STLOC_S (\<lambda>n. pop_op st (\<lambda>Arg1 st.
        Inr (emit ''storeLocal'' ([Num n, Node Arg1] @ prefix_args st) st)))
      else read_index env i CEE_STARG CEE_STARG_S (\<lambda>n. pop_op st (\<lambda>Arg1 st.
        Inr (emit ''storeArg'' ([Num n, Node Arg1] @ prefix_args st) st))))"

definition stelem_ops :: "OPCODE list" where
  "stelem_ops = [CEE_STELEM, CEE_STELEM_I, CEE_STELEM_I1, CEE_STELEM_I2, CEE_STELEM_I4, CEE_STELEM_I8, CEE_STELEM_R4, CEE_STELEM_R8, CEE_STELEM_REF]"

definition read_stelem :: "LoopEnv \<Rightarrow> Instr \<Rightarrow> ReaderState \<Rightarrow> ReaderState result" where
  "read_stelem env i st = read_elem_token env i CEE_STELEM (\<lambda>Token. pop_op st (\<lambda>Arg1 st. pop_op st (\<lambda>Arg2 st. pop_op st (\<lambda>Arg3 st.
     Inr (emit ''storeElem'' [Num (MappedValue (iOpcode i)), Tok Token, Node Arg1, Node Arg2, Node Arg3] st)))))"

definition read_store_field :: "LoopEnv \<Rightarrow> Instr \<Rightarrow> ReaderState \<Rightarrow> ReaderState result" where
  "read_store_field env i st = read_token env i (\<lambda>Token. pop_op st (\<lambda>Arg1 st. pop_op st (\<lambda>Arg2 st.
     Inr (if iOpcode i = CEE_STFLD then emit ''storeField'' ([Tok Token, Node Arg1, Node Arg2] @ prefix_args st) st
          else emit ''storeObj'' ([Tok Token, Node Arg1, Node Arg2] @ prefix_args st @ [Flag False]) st))))"

definition stind_ops :: "OPCODE list" where
  "stind_ops = [CEE_STIND_I1, CEE_STIND_I2, CEE_STIND_I4, CEE_STIND_I8, CEE_STIND_I, CEE_STIND_R4, CEE_STIND_R8, CEE_STIND_REF]"

definition read_stind :: "Instr \<Rightarrow> ReaderState \<Rightarrow> ReaderState result" where
  "read_stind i st = pop_op st (\<lambda>Arg1 st. pop_op st (\<lambda>Arg2 st.
     Inr (emit ''storeIndir'' ([Num (MappedValue (iOpcode i)), Node Arg1, Node Arg2] @ prefix_args st) st)))"

definition read_stsfld :: "LoopEnv \<Rightarrow> Instr \<Rightarrow> ReaderState \<Rightarrow> ReaderState result" where
  "read_stsfld env i st = read_token env i (\<lambda>Token. pop_op st (\<lambda>Arg1 st.
     Inr (emit ''storeStaticField'' [Tok Token, Node Arg1, Flag (HasVolatilePrefix st)] st)))"

text \<open>A switch: the operands below the selector go to the successors; a switch without cases falls through
  and drops them.\<close>

definition read_switch :: "LoopEnv \<Rightarrow> Instr \<Rightarrow> ReaderState \<Rightarrow> ReaderState result" where
  "read_switch env i st = rbind (operand_ptr i) (\<lambda>p. rbind (readNumberOfSwitchCases (ILInput env) p) (\<lambda>(NumCases, _).
     pop_op st (\<lambda>Arg1 st.
       Inr ((if NumCases \<noteq> 0 then maintain_and_clear (emit ''switchOpcode'' [Node Arg1] st) else emit ''pop'' [Node Arg1] st)
         \<lparr>ReaderOperandStack := []\<rparr>))))"

definition read_throw :: "ReaderState \<Rightarrow> ReaderState result" where
  "read_throw st = pop_op (st\<lparr>HasFallThrough := False\<rparr>) (\<lambda>Arg1 st. Inr (clearStack (emit ''throwOpcode'' [Node Arg1] st)))"

definition read_unbox :: "LoopEnv \<Rightarrow> Instr \<Rightarrow> ReaderState \<Rightarrow> ReaderState result" where
  "read_unbox env i st = read_token env i (\<lambda>Token. pop_op st (\<lambda>Arg1 st.
     let st = emit ''handleClassAccess'' [Tok Token] st in
     Inr (if iOpcode i = CEE_UNBOX then gen_push ''unbox'' [Tok Token, Node Arg1, Flag False, Num (uint Reader_AlignNatural), Flag False] st
          else gen_push ''unboxAny'' ([Tok Token, Node Arg1] @ prefix_args st) st)))"

text \<open>The prefixes.\<close>

definition prefix_ops :: "OPCODE list" where
  "prefix_ops = [CEE_VOLATILE, CEE_TAILCALL, CEE_UNALIGNED, CEE_READONLY, CEE_CONSTRAINED]"

definition read_prefix :: "LoopEnv \<Rightarrow> Instr \<Rightarrow> ReaderState \<Rightarrow> ReaderState result" where
  "read_prefix env i st =
     (if iOpcode i = CEE_TAILCALL then Inr (st\<lparr>HasTailCallPrefix := True\<rparr>)
      else if iOpcode i = CEE_CONSTRAINED then read_token env i (\<lambda>Token. Inr (st\<lparr>HasConstrainedPrefix := True, ConstraintTypeRef := Token\<rparr>))
      else if iOpcode i = CEE_READONLY then Inr (st\<lparr>HasReadOnlyPrefix := True\<rparr>)
      else if iOpcode i = CEE_UNALIGNED then read_raw 1 env i (\<lambda>bs. Inr (st\<lparr>AlignmentPrefix := hd bs\<rparr>))
      else Inr (st\<lparr>HasVolatilePrefix := True\<rparr>))"

definition reset_prefixes :: "OPCODE \<Rightarrow> ReaderState \<Rightarrow> ReaderState" where
  "reset_prefixes op st = (if op \<in> set prefix_ops then st
     else st\<lparr>HasVolatilePrefix := False, HasTailCallPrefix := False, AlignmentPrefix := Reader_AlignNatural, HasReadOnlyPrefix := False,
             HasConstrainedPrefix := False, ConstraintTypeRef := mdTokenNil\<rparr>)"

subsection \<open>The dispatch and the loop\<close>

text \<open>The switch on the opcode, in three parts: instructions up to \<open>jmp\<close>, loads, and the others.\<close>

definition early_ops :: "OPCODE list" where
  "early_ops = binary_ops @ [CEE_ARGLIST, CEE_BOX] @ cond_branches @ bool_branches @ [CEE_BR, CEE_BR_S, CEE_BREAK, CEE_CALL, CEE_CALLI,
     CEE_CALLVIRT, CEE_CASTCLASS, CEE_ISINST] @ compare_ops @ [CEE_CKFINITE] @ conv_ops @ [CEE_CPBLK, CEE_CPOBJ, CEE_DUP, CEE_ENDFILTER,
     CEE_ENDFINALLY, CEE_INITOBJ, CEE_INITBLK, CEE_JMP]"

definition read_early :: "LoopEnv \<Rightarrow> Instr \<Rightarrow> ReaderState \<Rightarrow> ReaderState result" where
  "read_early env i st = (let op = iOpcode i in
     if op \<in> set binary_ops then read_binary i st
     else if op = CEE_ARGLIST then Inr (gen_push ''argList'' [] st)
     else if op = CEE_BOX then read_box env i st
     else if op \<in> set cond_branches then read_cond_branch i st
     else if op \<in> set bool_branches then read_bool_branch i st
     else if op = CEE_BR \<or> op = CEE_BR_S then read_branch_always st
     else if op = CEE_BREAK then Inr (emit ''breakOpcode'' [] st)
     else if op \<in> {CEE_CALL, CEE_CALLI, CEE_CALLVIRT} then read_call env i st
     else if op \<in> {CEE_CASTCLASS, CEE_ISINST} then read_cast env i st
     else if op \<in> set compare_ops then read_compare i st
     else if op = CEE_CKFINITE then read_ckfinite st
     else if op \<in> set conv_ops then read_conv i st
     else if op \<in> {CEE_CPBLK, CEE_INITBLK} then read_block_op i st
     else if op = CEE_CPOBJ then read_cpobj env i st
     else if op = CEE_DUP then read_dup st
     else if op = CEE_ENDFILTER then read_endfilter st
     else if op = CEE_ENDFINALLY then read_endfinally st
     else if op = CEE_INITOBJ then read_initobj env i st
     else read_jmp env i st)"

definition load_ops :: "OPCODE list" where
  "load_ops = ldarg_ops @ ldloc_ops @ [CEE_LDARGA, CEE_LDARGA_S, CEE_LDLOCA, CEE_LDLOCA_S, CEE_LDC_I8, CEE_LDC_R4, CEE_LDC_R8] @ ldc_i4_ops
     @ ldelem_ops @ [CEE_LDELEMA, CEE_LDFLD, CEE_LDFTN] @ ldind_ops @ [CEE_LDLEN, CEE_LDNULL, CEE_LDSTR, CEE_LDSFLD, CEE_LDSFLDA, CEE_LDFLDA,
     CEE_LDOBJ, CEE_LDTOKEN, CEE_LDVIRTFTN]"

definition read_loads :: "LoopEnv \<Rightarrow> Instr \<Rightarrow> ReaderState \<Rightarrow> ReaderState result" where
  "read_loads env i st = (let op = iOpcode i in
     if op \<in> set ldarg_ops \<or> op \<in> set ldloc_ops then read_load_var env i st
     else if op \<in> {CEE_LDARGA, CEE_LDARGA_S, CEE_LDLOCA, CEE_LDLOCA_S} then read_load_addr env i st
     else if op \<in> {CEE_LDC_I8, CEE_LDC_R4, CEE_LDC_R8} \<or> op \<in> set ldc_i4_ops then read_ldc env i st
     else if op \<in> set ldelem_ops then read_ldelem env i st
     else if op = CEE_LDELEMA then read_ldelema env i st
     else if op = CEE_LDFLD then read_ldfld env i st
     else if op = CEE_LDFTN \<or> op = CEE_LDVIRTFTN then read_ldftn env i st
     else if op \<in> set ldind_ops then read_ldind i st
     else if op = CEE_LDLEN then read_ldlen st
     else if op = CEE_LDNULL then Inr (gen_push ''loadNull'' [] st)
     else if op \<in> {CEE_LDSTR, CEE_LDSFLD, CEE_LDSFLDA} then read_static env i st
     else if op = CEE_LDFLDA then read_ldflda env i st
     else if op = CEE_LDOBJ then read_ldobj env i st
     else read_ldtoken env i st)"

definition late_ops :: "OPCODE list" where
  "late_ops = [CEE_LEAVE, CEE_LEAVE_S, CEE_LOCALLOC, CEE_MKREFANY, CEE_NEG, CEE_NOT, CEE_NEWARR, CEE_NEWOBJ, CEE_NOP, CEE_POP, CEE_REFANYTYPE,
     CEE_REFANYVAL, CEE_RETHROW, CEE_RET] @ shift_ops @ [CEE_SIZEOF, CEE_STARG, CEE_STARG_S] @ stelem_ops @ [CEE_STFLD] @ stloc_ops @ stind_ops
     @ [CEE_STOBJ, CEE_STSFLD, CEE_SWITCH, CEE_THROW, CEE_UNBOX, CEE_UNBOX_ANY] @ prefix_ops"

definition read_late :: "LoopEnv \<Rightarrow> Instr \<Rightarrow> ReaderState \<Rightarrow> ReaderState result" where
  "read_late env i st = (let op = iOpcode i in
     if op = CEE_LEAVE \<or> op = CEE_LEAVE_S then read_leave env i st
     else if op = CEE_LOCALLOC then read_localloc env st
     else if op = CEE_MKREFANY then read_mkrefany env i st
     else if op = CEE_NEG \<or> op = CEE_NOT then read_unary i st
     else if op = CEE_NEWARR then read_newarr env i st
     else if op = CEE_NEWOBJ then read_newobj env i st
     else if op = CEE_NOP then Inr (emit ''nop'' [] st)
     else if op = CEE_POP then read_pop st
     else if op = CEE_REFANYTYPE \<or> op = CEE_REFANYVAL then read_refany env i st
     else if op = CEE_RETHROW then read_rethrow st
     else if op = CEE_RET then read_ret env st
     else if op \<in> set shift_ops then read_shift i st
     else if op = CEE_SIZEOF then read_sizeof env i st
     else if op \<in> {CEE_STARG, CEE_STARG_S} \<or> op \<in> set stloc_ops then read_store_var env i st
     else if op \<in> set stelem_ops then read_stelem env i st
     else if op = CEE_STFLD \<or> op = CEE_STOBJ then read_store_field env i st
     else if op \<in> set stind_ops then read_stind i st
     else if op = CEE_STSFLD then read_stsfld env i st
     else if op = CEE_SWITCH then read_switch env i st
     else if op = CEE_THROW then read_throw st
     else if op = CEE_UNBOX \<or> op = CEE_UNBOX_ANY then read_unbox env i st
     else read_prefix env i st)"

text \<open>Before the switch: the debug location of an instruction that starts with an empty stack, and the
  tokens that only the next instruction may use.\<close>

definition begin_instr :: "Instr \<Rightarrow> ReaderState \<Rightarrow> ReaderState" where
  "begin_instr i st =
     (let st = (if ReaderOperandStack st = [] then emit ''setDebugLocation'' [Num (uint (CurrentOffset i)), Flag False] st else st);
          st = (if iOpcode i \<noteq> CEE_NEWOBJ then st\<lparr>LoadFtnToken := mdTokenNil\<rparr> else st)
      in if iOpcode i \<noteq> CEE_CALL then st\<lparr>LastLoadToken := mdTokenNil\<rparr> else st)"

text \<open>An opcode of no case is reported and skipped.\<close>

definition read_opcode :: "LoopEnv \<Rightarrow> Instr \<Rightarrow> ReaderState \<Rightarrow> ReaderState result" where
  "read_opcode env i st = (let op = iOpcode i in
     if op \<in> set early_ops then read_early env i st else if op \<in> set load_ops then read_loads env i st
     else if op \<in> set late_ops then read_late env i st else Inr st)"

definition read_instr :: "LoopEnv \<Rightarrow> Instr \<Rightarrow> ReaderState \<Rightarrow> ReaderState result" where
  "read_instr env i st =
     rbind (array_get ''OpcodeRemap'' OpcodeRemap (iOpcode i)) (\<lambda>_.
     rbind (read_opcode env i (begin_instr i st)) (\<lambda>st. Inr (reset_prefixes (iOpcode i) st)))"

fun read_loop :: "nat \<Rightarrow> LoopEnv \<Rightarrow> u32 \<Rightarrow> u32 \<Rightarrow> ReaderState \<Rightarrow> ReaderState result option" where
  "read_loop 0 env EndOffset off st = None"
| "read_loop (Suc fuel) env EndOffset off st =
     (if off < EndOffset then
        (case parseILOpcode (OpcodeArgs env) (ILInput env) off (ILSize env) True of
           Inl e \<Rightarrow> Some (Inl e)
         | Inr r \<Rightarrow>
             (case read_instr env \<lparr>iOpcode = opcode r, iOperand = operand r, CurrentOffset = off, NextOffset = next_offset r\<rparr> st of
                Inl e \<Rightarrow> Some (Inl e)
              | Inr st \<Rightarrow> read_loop fuel env EndOffset (next_offset r) st))
      else Some (Inr st))"

definition block_start :: "IRNode list \<Rightarrow> nat \<Rightarrow> ReaderState" where
  "block_start stack n = \<lparr>ReaderOperandStack = stack, NextNode = n, Trace = [], AlignmentPrefix = Reader_AlignNatural, HasVolatilePrefix = False,
     HasTailCallPrefix = False, HasReadOnlyPrefix = False, HasConstrainedPrefix = False, ConstraintTypeRef = mdTokenNil,
     LoadFtnToken = mdTokenNil, LastLoadToken = mdTokenNil, HasFallThrough = True\<rparr>"

text \<open>\<open>readBytesForFlowGraphNode\<close>: the loop over the block with its own copy of the operand stack; at the end
  what is left on the stack goes to the successors.\<close>

definition readBytesForFlowGraphNode :: "nat \<Rightarrow> LoopEnv \<Rightarrow> u32 \<Rightarrow> u32 \<Rightarrow> IRNode list \<Rightarrow> nat \<Rightarrow> ReaderState result option" where
  "readBytesForFlowGraphNode fuel env StartOffset EndOffset stack n =
     (case read_loop fuel env EndOffset StartOffset (emit ''beginFlowGraphNode'' [Num (uint StartOffset)] (block_start stack n)) of
        None \<Rightarrow> None | Some (Inl e) \<Rightarrow> Some (Inl e)
      | Some (Inr st) \<Rightarrow>
          (let st = emit ''endFlowGraphNode'' [Num (uint StartOffset)] st in
           Some (Inr (maintain_and_clear st))))"

end
