(* ===== verification/StackMachine.thy ===== *)
theory StackMachine
  imports ReaderLoop
begin

section \<open>The stack machine of the instruction set\<close>

text \<open>
  The specification of the reader loop: the stack transitions of the instruction set (ECMA-335), as a table from
  opcodes to rows, a machine that executes rows, and the abstraction from the reader's state to the machine's.
\<close>

subsection \<open>The stack machine\<close>

text \<open>What becomes of the operands below those that an instruction takes: they stay, they are passed to the
  successors of the block (before or after the instruction acts), or they are dropped.\<close>

datatype disposal = Keep | PassBefore | PassAfter | DropBefore | DropAfter

text \<open>A row of the stack transition table of the instruction set: the action, the number of operands, the
  number of results, the fate of the other operands, and whether the prefixes of memory accesses apply.\<close>

record il_row =
  action :: string
  pops :: nat
  pushes :: nat
  rest :: disposal
  mem :: bool

definition row :: "string \<Rightarrow> nat \<Rightarrow> nat \<Rightarrow> il_row" where
  "row f n k = \<lparr>action = f, pops = n, pushes = k, rest = Keep, mem = False\<rparr>"

definition il_token :: "LoopEnv \<Rightarrow> Instr \<Rightarrow> u32" where
  "il_token env i = (case iOperand i of None \<Rightarrow> 0 | Some p \<Rightarrow> word_of_nat (le_value (take 4 (drop (unat p) (ILInput env)))))"

definition no_action :: il_row where
  "no_action = row [] 0 0"

definition table_values :: "LoopEnv \<Rightarrow> (OPCODE list \<times> il_row) list" where
  "table_values env =
    [([CEE_ADD, CEE_SUB, CEE_MUL, CEE_DIV, CEE_DIV_UN, CEE_REM, CEE_REM_UN, CEE_AND, CEE_OR, CEE_XOR, CEE_ADD_OVF, CEE_ADD_OVF_UN,
       CEE_MUL_OVF, CEE_MUL_OVF_UN, CEE_SUB_OVF, CEE_SUB_OVF_UN], row ''binaryOp'' 2 1),
     ([CEE_SHL, CEE_SHR, CEE_SHR_UN], row ''shift'' 2 1),
     ([CEE_NEG, CEE_NOT], row ''unaryOp'' 1 1),
     ([CEE_CEQ, CEE_CGT, CEE_CGT_UN, CEE_CLT, CEE_CLT_UN], row ''cmp'' 2 1),
     ([CEE_CONV_I1, CEE_CONV_I2, CEE_CONV_I4, CEE_CONV_I8, CEE_CONV_U1, CEE_CONV_U2, CEE_CONV_U4, CEE_CONV_U8, CEE_CONV_I, CEE_CONV_U,
       CEE_CONV_R4, CEE_CONV_R8, CEE_CONV_R_UN, CEE_CONV_OVF_I1, CEE_CONV_OVF_I2, CEE_CONV_OVF_I4, CEE_CONV_OVF_I8, CEE_CONV_OVF_U1,
       CEE_CONV_OVF_U2, CEE_CONV_OVF_U4, CEE_CONV_OVF_U8, CEE_CONV_OVF_I, CEE_CONV_OVF_U, CEE_CONV_OVF_I1_UN, CEE_CONV_OVF_I2_UN,
       CEE_CONV_OVF_I4_UN, CEE_CONV_OVF_I8_UN, CEE_CONV_OVF_U1_UN, CEE_CONV_OVF_U2_UN, CEE_CONV_OVF_U4_UN, CEE_CONV_OVF_U8_UN,
       CEE_CONV_OVF_I_UN, CEE_CONV_OVF_U_UN], row ''conv'' 1 1),
     ([CEE_CKFINITE], row ''ckFinite'' 1 1),
     ([CEE_ARGLIST], row ''argList'' 0 1),
     ([CEE_BOX], row ''box'' 1 1), ([CEE_CASTCLASS], row ''castClass'' 1 1), ([CEE_ISINST], row ''isInst'' 1 1),
     ([CEE_UNBOX], row ''unbox'' 1 1), ([CEE_UNBOX_ANY], (row ''unboxAny'' 1 1)\<lparr>mem := True\<rparr>),
     ([CEE_MKREFANY], row ''makeRefAny'' 1 1), ([CEE_REFANYTYPE], row ''refAnyType'' 1 1), ([CEE_REFANYVAL], row ''refAnyVal'' 1 1),
     ([CEE_NEWARR], row ''newArr'' 1 1), ([CEE_LOCALLOC], row ''localAlloc'' 1 1), ([CEE_SIZEOF], row ''sizeofOpcode'' 0 1),
     ([CEE_DUP], row ''dup'' 1 2), ([CEE_POP], row ''pop'' 1 0)]"

definition table_memory :: "(OPCODE list \<times> il_row) list" where
  "table_memory =
    [([CEE_LDARG, CEE_LDARG_S, CEE_LDARG_0, CEE_LDARG_1, CEE_LDARG_2, CEE_LDARG_3], row ''loadArg'' 0 1),
     ([CEE_LDLOC, CEE_LDLOC_S, CEE_LDLOC_0, CEE_LDLOC_1, CEE_LDLOC_2, CEE_LDLOC_3], row ''loadLocal'' 0 1),
     ([CEE_LDARGA, CEE_LDARGA_S], row ''loadArgAddress'' 0 1), ([CEE_LDLOCA, CEE_LDLOCA_S], row ''loadLocalAddress'' 0 1),
     ([CEE_LDC_I8], row ''loadConstantI8'' 0 1), ([CEE_LDC_R4], row ''loadConstantR4'' 0 1), ([CEE_LDC_R8], row ''loadConstantR8'' 0 1),
     ([CEE_LDC_I4, CEE_LDC_I4_S, CEE_LDC_I4_0, CEE_LDC_I4_1, CEE_LDC_I4_2, CEE_LDC_I4_3, CEE_LDC_I4_4, CEE_LDC_I4_5, CEE_LDC_I4_6,
       CEE_LDC_I4_7, CEE_LDC_I4_8, CEE_LDC_I4_M1], row ''loadConstantI4'' 0 1),
     ([CEE_LDNULL], row ''loadNull'' 0 1), ([CEE_LDSTR], row ''loadStr'' 0 1), ([CEE_LDTOKEN], row ''loadToken'' 0 1),
     ([CEE_LDFTN], row ''rdrMakeLdFtnTargetNode'' 0 1), ([CEE_LDVIRTFTN], row ''loadVirtFunc'' 1 1),
     ([CEE_LDSFLD], row ''loadStaticField'' 0 1), ([CEE_LDSFLDA], row ''getStaticFieldAddress'' 0 1), ([CEE_STSFLD], row ''storeStaticField'' 1 0),
     ([CEE_LDFLD], (row ''loadField'' 1 1)\<lparr>mem := True\<rparr>), ([CEE_LDFLDA], row ''loadFieldAddress'' 1 1),
     ([CEE_STFLD], (row ''storeField'' 2 0)\<lparr>mem := True\<rparr>),
     ([CEE_LDELEM, CEE_LDELEM_I1, CEE_LDELEM_U1, CEE_LDELEM_I2, CEE_LDELEM_U2, CEE_LDELEM_I4, CEE_LDELEM_U4, CEE_LDELEM_I8, CEE_LDELEM_I,
       CEE_LDELEM_R4, CEE_LDELEM_R8, CEE_LDELEM_REF], row ''loadElem'' 2 1),
     ([CEE_LDELEMA], row ''loadElemA'' 2 1),
     ([CEE_STELEM, CEE_STELEM_I, CEE_STELEM_I1, CEE_STELEM_I2, CEE_STELEM_I4, CEE_STELEM_I8, CEE_STELEM_R4, CEE_STELEM_R8, CEE_STELEM_REF],
       row ''storeElem'' 3 0),
     ([CEE_LDLEN], row ''loadLen'' 1 1),
     ([CEE_LDIND_I1, CEE_LDIND_U1, CEE_LDIND_I2, CEE_LDIND_U2, CEE_LDIND_I4, CEE_LDIND_U4, CEE_LDIND_I8, CEE_LDIND_I, CEE_LDIND_R4,
       CEE_LDIND_R8, CEE_LDIND_REF], (row ''loadIndir'' 1 1)\<lparr>mem := True\<rparr>),
     ([CEE_STIND_I1, CEE_STIND_I2, CEE_STIND_I4, CEE_STIND_I8, CEE_STIND_I, CEE_STIND_R4, CEE_STIND_R8, CEE_STIND_REF],
       (row ''storeIndir'' 2 0)\<lparr>mem := True\<rparr>),
     ([CEE_STLOC, CEE_STLOC_S, CEE_STLOC_0, CEE_STLOC_1, CEE_STLOC_2, CEE_STLOC_3], (row ''storeLocal'' 1 0)\<lparr>mem := True\<rparr>),
     ([CEE_STARG, CEE_STARG_S], (row ''storeArg'' 1 0)\<lparr>mem := True\<rparr>),
     ([CEE_LDOBJ], (row ''loadObj'' 1 1)\<lparr>mem := True\<rparr>), ([CEE_STOBJ], (row ''storeObj'' 2 0)\<lparr>mem := True\<rparr>),
     ([CEE_CPOBJ], (row ''cpObj'' 2 0)\<lparr>mem := True\<rparr>), ([CEE_INITOBJ], row ''initObj'' 1 0),
     ([CEE_CPBLK], (row ''cpBlk'' 3 0)\<lparr>mem := True\<rparr>), ([CEE_INITBLK], (row ''initBlk'' 3 0)\<lparr>mem := True\<rparr>)]"

definition table_control :: "LoopEnv \<Rightarrow> OPCODE \<Rightarrow> u32 \<Rightarrow> (OPCODE list \<times> il_row) list" where
  "table_control env op token =
    [([CEE_BEQ, CEE_BGE, CEE_BGT, CEE_BLE, CEE_BLT, CEE_BNE_UN, CEE_BGE_UN, CEE_BGT_UN, CEE_BLE_UN, CEE_BLT_UN, CEE_BEQ_S, CEE_BGE_S,
       CEE_BGT_S, CEE_BLE_S, CEE_BLT_S, CEE_BNE_UN_S, CEE_BGE_UN_S, CEE_BGT_UN_S, CEE_BLE_UN_S, CEE_BLT_UN_S],
       (row ''condBranch'' 2 0)\<lparr>rest := PassBefore\<rparr>),
     ([CEE_BRTRUE, CEE_BRFALSE, CEE_BRTRUE_S, CEE_BRFALSE_S], (row ''boolBranch'' 1 0)\<lparr>rest := PassBefore\<rparr>),
     ([CEE_BR, CEE_BR_S], (row ''branch'' 0 0)\<lparr>rest := PassBefore\<rparr>),
     ([CEE_SWITCH], (row ''switchOpcode'' 1 0)\<lparr>rest := PassAfter\<rparr>),
     ([CEE_LEAVE, CEE_LEAVE_S], (row ''leave'' 0 0)\<lparr>rest := DropBefore\<rparr>),
     ([CEE_ENDFINALLY], no_action\<lparr>rest := DropBefore\<rparr>), ([CEE_ENDFILTER], row ''endFilter'' 1 0),
     ([CEE_THROW], (row ''throwOpcode'' 1 0)\<lparr>rest := DropAfter\<rparr>), ([CEE_RETHROW], (row ''rethrow'' 0 0)\<lparr>rest := DropBefore\<rparr>),
     ([CEE_JMP], (row ''jmp'' 0 0)\<lparr>rest := DropBefore\<rparr>),
     ([CEE_RET], row ''returnOpcode'' (if ReturnsVoid env then 0 else 1) 0),
     ([CEE_CALL, CEE_CALLI, CEE_CALLVIRT], row ''call'' (CallPops env op token) (if CallReturns env op token then 1 else 0)),
     ([CEE_NEWOBJ], row ''newObj'' (CallPops env op token) (if CallReturns env op token then 1 else 0)),
     ([CEE_BREAK], row ''breakOpcode'' 0 0)]"

fun find_row :: "OPCODE \<Rightarrow> (OPCODE list \<times> il_row) list \<Rightarrow> il_row" where
  "find_row op [] = no_action"
| "find_row op ((ops, r) # rows) = (if op \<in> set ops then r else find_row op rows)"

definition il_row_of :: "LoopEnv \<Rightarrow> Instr \<Rightarrow> il_row" where
  "il_row_of env i = find_row (iOpcode i) (table_values env @ table_memory @ table_control env (iOpcode i) (il_token env i))"

text \<open>An action of the machine: its name, its operands in the order in which they were pushed, and the
  alignment and volatile prefix for a memory access.\<close>

type_synonym il_event = "string \<times> IRNode list \<times> (int \<times> bool) option"

record il_state =
  il_stack :: "IRNode list"
  il_next :: nat
  il_log :: "il_event list"
  il_align :: int
  il_volatile :: bool

definition pass_on :: "IRNode list \<Rightarrow> il_event list" where
  "pass_on s = (if s = [] then [] else [(''maintainOperandStack'', rev s, None)])"

definition drop_all :: "IRNode list \<Rightarrow> il_event list" where
  "drop_all = map (\<lambda>n. (''pop'', [n], None))"

definition act :: "il_row \<Rightarrow> IRNode list \<Rightarrow> il_state \<Rightarrow> il_event list" where
  "act r args s = (if action r = [] then [] else [(action r, args, if mem r then Some (il_align s, il_volatile s) else None)])"

definition dispose :: "disposal \<Rightarrow> IRNode list \<Rightarrow> il_event list \<Rightarrow> il_event list" where
  "dispose d s e = (case d of Keep \<Rightarrow> e | PassBefore \<Rightarrow> pass_on s @ e | PassAfter \<Rightarrow> e @ pass_on s
     | DropBefore \<Rightarrow> drop_all s @ e | DropAfter \<Rightarrow> e @ drop_all s)"

definition il_exec :: "il_row \<Rightarrow> il_state \<Rightarrow> il_state option" where
  "il_exec r s = (if length (il_stack s) < pops r then None else
     let args = rev (take (pops r) (il_stack s)); below = drop (pops r) (il_stack s) in
     Some (s\<lparr>il_stack := (if rest r = Keep then map Fresh (rev [il_next s..<il_next s + pushes r]) @ below else []),
             il_next := il_next s + pushes r, il_log := il_log s @ dispose (rest r) below (act r args s)\<rparr>))"

text \<open>The memory prefixes hold for the next instruction that is not a prefix.\<close>

definition il_prefix :: "LoopEnv \<Rightarrow> Instr \<Rightarrow> il_state \<Rightarrow> il_state" where
  "il_prefix env i s =
     (if iOpcode i = CEE_VOLATILE then s\<lparr>il_volatile := True\<rparr>
      else if iOpcode i = CEE_UNALIGNED then s\<lparr>il_align := uint (ILInput env ! unat (the (iOperand i)))\<rparr>
      else if iOpcode i \<in> {CEE_TAILCALL, CEE_READONLY, CEE_CONSTRAINED} then s
      else s\<lparr>il_volatile := False, il_align := 255\<rparr>)"

definition il_step :: "LoopEnv \<Rightarrow> Instr \<Rightarrow> il_state \<Rightarrow> il_state option" where
  "il_step env i s = map_option (il_prefix env i) (il_exec (il_row_of env i) s)"

fun il_run :: "LoopEnv \<Rightarrow> Instr list \<Rightarrow> il_state \<Rightarrow> il_state option" where
  "il_run env [] s = Some s"
| "il_run env (i # is) s = Option.bind (il_step env i s) (il_run env is)"

subsection \<open>What the reader did, as actions of the machine\<close>

definition is_node :: "GenArg \<Rightarrow> bool" where
  "is_node a = (case a of Node n \<Rightarrow> True | Nodes ns \<Rightarrow> True | _ \<Rightarrow> False)"

definition arg_nodes :: "GenArg \<Rightarrow> IRNode list" where
  "arg_nodes a = (case a of Node n \<Rightarrow> [n] | Nodes ns \<Rightarrow> ns | _ \<Rightarrow> [])"

text \<open>The client takes the operands of a binary operation, a comparison or a conditional branch in the order
  of the stack machine, and those of every other call with the top first.\<close>

definition in_order :: "string list" where
  "in_order = [''binaryOp'', ''cmp'', ''condBranch'']"

definition helper_calls :: "string list" where
  "helper_calls = [''nop'', ''setDebugLocation'', ''handleClassAccess'', ''handleMemberAccess'', ''beginFlowGraphNode'', ''endFlowGraphNode'']"

definition mem_args :: "GenArg list \<Rightarrow> (int \<times> bool) option" where
  "mem_args args = (case dropWhile is_node (dropWhile (Not \<circ> is_node) args) of Num a # Flag v # _ \<Rightarrow> Some (a, v) | _ \<Rightarrow> None)"

definition call_event :: "GenCall \<Rightarrow> il_event list" where
  "call_event c = (case c of (f, args) \<Rightarrow> if f \<in> set helper_calls then [] else
     [(f, (if f \<in> set in_order then id else rev) (concat (map arg_nodes args)), mem_args args)])"

definition abs_state :: "ReaderState \<Rightarrow> il_state" where
  "abs_state st = \<lparr>il_stack = ReaderOperandStack st, il_next = NextNode st, il_log = concat (map call_event (Trace st)),
     il_align = uint (AlignmentPrefix st), il_volatile = HasVolatilePrefix st\<rparr>"

end
