(* ===== verification/ReaderLoopCorrect.thy ===== *)
theory ReaderLoopCorrect
  imports StackMachine
begin

section \<open>One instruction of the reader loop is one step of the stack machine\<close>

text \<open>
  For every case of the loop, that it does what the row of its opcodes says; from that, for every opcode, that an
  instruction simulates a step of the machine.
\<close>

text \<open>How many bytes of the operand the reader reads for an opcode.\<close>

definition token_ops :: "OPCODE list" where
  "token_ops = [CEE_BOX, CEE_CALL, CEE_CALLI, CEE_CALLVIRT, CEE_CASTCLASS, CEE_ISINST, CEE_CPOBJ, CEE_INITOBJ, CEE_JMP, CEE_LDELEM, CEE_LDELEMA,
     CEE_LDFLD, CEE_LDFTN, CEE_LDVIRTFTN, CEE_LDSTR, CEE_LDSFLD, CEE_LDSFLDA, CEE_LDFLDA, CEE_LDOBJ, CEE_LDTOKEN, CEE_MKREFANY, CEE_NEWARR,
     CEE_NEWOBJ, CEE_REFANYVAL, CEE_SIZEOF, CEE_STELEM, CEE_STFLD, CEE_STOBJ, CEE_STSFLD, CEE_CONSTRAINED, CEE_UNBOX, CEE_UNBOX_ANY]"

definition operand_width :: "OPCODE \<Rightarrow> nat" where
  "operand_width op =
     (if op \<in> set token_ops then 4
      else if op \<in> {CEE_LDC_I4, CEE_LDC_R4, CEE_LEAVE, CEE_SWITCH} then 4
      else if op \<in> {CEE_LDC_I8, CEE_LDC_R8} then 8
      else if op \<in> {CEE_LDARG, CEE_LDARGA, CEE_LDLOC, CEE_LDLOCA, CEE_STARG, CEE_STLOC} then 2
      else if op \<in> {CEE_LDARG_S, CEE_LDARGA_S, CEE_LDLOC_S, CEE_LDLOCA_S, CEE_STARG_S, CEE_STLOC_S, CEE_LDC_I4_S, CEE_LEAVE_S, CEE_UNALIGNED} then 1
      else 0)"

definition readable :: "LoopEnv \<Rightarrow> Instr \<Rightarrow> bool" where
  "readable env i \<longleftrightarrow> operand_width (iOpcode i) = 0
     \<or> (case iOperand i of None \<Rightarrow> False | Some p \<Rightarrow> unat p + operand_width (iOpcode i) \<le> length (ILInput env))"

definition tail_scan_ok :: "LoopEnv \<Rightarrow> Instr \<Rightarrow> bool" where
  "tail_scan_ok env i \<longleftrightarrow> (iOpcode i = CEE_CALL \<or> iOpcode i = CEE_CALLVIRT) \<longrightarrow> DoTailCall env \<longrightarrow>
     (case isUnmarkedTailCall env (NextOffset i) (il_token env i) of Inl e \<Rightarrow> False | Inr b \<Rightarrow> True)"

definition has_cases :: "LoopEnv \<Rightarrow> Instr \<Rightarrow> bool" where
  "has_cases env i \<longleftrightarrow> iOpcode i = CEE_SWITCH \<longrightarrow> il_token env i \<noteq> 0"

definition instr_ok :: "LoopEnv \<Rightarrow> Instr \<Rightarrow> bool" where
  "instr_ok env i \<longleftrightarrow> readable env i \<and> iOpcode i < 292 \<and> has_cases env i \<and> tail_scan_ok env i"

subsection \<open>One instruction\<close>

lemma read_token_ok:
  assumes "readable env i" "operand_width (iOpcode i) = 4"
  shows "read_token env i k = k (il_token env i)"
  using assms by (auto simp: readable_def read_token_def operand_ptr_def il_token_def readValue_u32_def read_bytes_def split: option.splits)

lemma token_width [simp]: "op \<in> set token_ops \<Longrightarrow> operand_width op = 4"
  by (simp add: operand_width_def)

text \<open>What an instruction of a given row has to do.\<close>

definition does :: "il_row \<Rightarrow> ReaderState \<Rightarrow> ReaderState result \<Rightarrow> bool" where
  "does r st m \<longleftrightarrow> (case il_exec r (abs_state st) of None \<Rightarrow> m = Inl (AssertFailed ''stack underflow'')
     | Some s \<Rightarrow> \<exists>st'. m = Inr st' \<and> abs_state st' = s)"

lemma call_event_eq: "call_event (f, args) = (if f \<in> set helper_calls then [] else
     [(f, (if f \<in> set in_order then id else rev) (concat (map arg_nodes args)), mem_args args)])"
  by (simp add: call_event_def)

lemmas step_defs = does_def il_exec_def abs_state_def row_def no_action_def pop_op_def gen_push_def emit_def act_def dispose_def pass_on_def
  call_event_eq helper_calls_def in_order_def arg_nodes_def mem_args_def is_node_def prefix_args_def maintain_and_clear_def Let_def

lemma stack_cases:
  obtains "s = []" | a where "s = [a]" | a b where "s = [a, b]" | a b c t where "s = a # b # c # t"
  by (cases s; cases "tl s"; cases "tl (tl s)") auto

lemma read_token_op:
  assumes "readable env i" "iOpcode i \<in> set token_ops"
  shows "read_token env i k = k (il_token env i)"
  using read_token_ok[OF assms(1)] assms(2) by simp

lemma read_elem_token_op:
  assumes "readable env i" "op \<in> set token_ops"
  shows "read_elem_token env i op k = k (if iOpcode i = op then il_token env i else mdTokenNil)"
  using read_token_op[OF assms(1)] assms(2) by (auto simp: read_elem_token_def)

lemma read_index_op:
  assumes "readable env i" "operand_width long = 2" "operand_width short = 1"
  shows "\<exists>n. \<forall>k :: int \<Rightarrow> ReaderState result. read_index env i long short k = k n"
  by (cases "iOpcode i = long"; cases "iOpcode i = short")
    (use assms in \<open>auto simp: read_index_def readable_def read_unsigned_def operand_ptr_def read_bytes_def split: option.splits\<close>)

lemma read_signed_op:
  assumes "readable env i" "operand_width (iOpcode i) = n" "n = 1 \<or> n = 4 \<or> n = 8"
  shows "\<exists>v. \<forall>k :: int \<Rightarrow> ReaderState result. read_signed n env i k = k v"
  using assms by (auto simp: readable_def read_signed_def operand_ptr_def readValue_i8_def readValue_i32_def readValue_i64_def read_bytes_def split: option.splits)

lemma read_raw_op:
  assumes "readable env i" "operand_width (iOpcode i) = n" "0 < n"
  shows "read_raw n env i (k :: u8 list \<Rightarrow> ReaderState result) = k (take n (drop (unat (the (iOperand i))) (ILInput env)))"
  using assms by (auto simp: readable_def read_raw_def operand_ptr_def read_bytes_def split: option.splits)

lemmas tok = read_token_op token_ops_def

lemma does_values:
  "does (row ''binaryOp'' 2 1) st (read_binary i st)"
  "does (row ''shift'' 2 1) st (read_shift i st)"
  "does (row ''unaryOp'' 1 1) st (read_unary i st)"
  "does (row ''cmp'' 2 1) st (read_compare i st)"
  "does (row ''conv'' 1 1) st (read_conv i st)"
  "does (row ''ckFinite'' 1 1) st (read_ckfinite st)"
  "does (row ''localAlloc'' 1 1) st (read_localloc env st)"
  "does (row ''dup'' 1 2) st (read_dup st)"
  "does (row ''pop'' 1 0) st (read_pop st)"
  by (cases "ReaderOperandStack st" rule: stack_cases; auto simp: step_defs read_binary_def read_shift_def read_unary_def read_compare_def read_conv_def
      read_ckfinite_def read_localloc_def read_dup_def read_pop_def upt_rec)+

lemma does_value_tokens:
  assumes "readable env i"
  shows "iOpcode i = CEE_BOX \<Longrightarrow> does (row ''box'' 1 1) st (read_box env i st)"
    "iOpcode i = CEE_CASTCLASS \<Longrightarrow> does (row ''castClass'' 1 1) st (read_cast env i st)"
    "iOpcode i = CEE_ISINST \<Longrightarrow> does (row ''isInst'' 1 1) st (read_cast env i st)"
    "iOpcode i = CEE_UNBOX \<Longrightarrow> does (row ''unbox'' 1 1) st (read_unbox env i st)"
    "iOpcode i = CEE_UNBOX_ANY \<Longrightarrow> does ((row ''unboxAny'' 1 1)\<lparr>mem := True\<rparr>) st (read_unbox env i st)"
    "iOpcode i = CEE_MKREFANY \<Longrightarrow> does (row ''makeRefAny'' 1 1) st (read_mkrefany env i st)"
    "iOpcode i = CEE_REFANYTYPE \<Longrightarrow> does (row ''refAnyType'' 1 1) st (read_refany env i st)"
    "iOpcode i = CEE_REFANYVAL \<Longrightarrow> does (row ''refAnyVal'' 1 1) st (read_refany env i st)"
    "iOpcode i = CEE_NEWARR \<Longrightarrow> does (row ''newArr'' 1 1) st (read_newarr env i st)"
    "iOpcode i = CEE_SIZEOF \<Longrightarrow> does (row ''sizeofOpcode'' 0 1) st (read_sizeof env i st)"
  using assms by (cases "ReaderOperandStack st" rule: stack_cases; simp add: step_defs tok read_box_def read_cast_def read_unbox_def read_mkrefany_def
      read_refany_def read_newarr_def read_sizeof_def)+


lemma does_load_var:
  assumes "readable env i"
  shows "iOpcode i \<in> set ldarg_ops \<Longrightarrow> does (row ''loadArg'' 0 1) st (read_load_var env i st)"
    "iOpcode i \<in> set ldloc_ops \<Longrightarrow> does (row ''loadLocal'' 0 1) st (read_load_var env i st)"
    "iOpcode i \<in> {CEE_LDARGA, CEE_LDARGA_S} \<Longrightarrow> does (row ''loadArgAddress'' 0 1) st (read_load_addr env i st)"
    "iOpcode i \<in> {CEE_LDLOCA, CEE_LDLOCA_S} \<Longrightarrow> does (row ''loadLocalAddress'' 0 1) st (read_load_addr env i st)"
proof -
  have d: "op \<in> set ldloc_ops \<Longrightarrow> op \<notin> set ldarg_ops" for op by (auto simp: ldloc_ops_def ldarg_ops_def)
  obtain n1 where n1: "\<And>k :: int \<Rightarrow> ReaderState result. read_index env i CEE_LDARG CEE_LDARG_S k = k n1"
    using read_index_op[OF assms, of CEE_LDARG CEE_LDARG_S] by (auto simp: operand_width_def token_ops_def)
  obtain n2 where n2: "\<And>k :: int \<Rightarrow> ReaderState result. read_index env i CEE_LDLOC CEE_LDLOC_S k = k n2"
    using read_index_op[OF assms, of CEE_LDLOC CEE_LDLOC_S] by (auto simp: operand_width_def token_ops_def)
  obtain n3 where n3: "\<And>k :: int \<Rightarrow> ReaderState result. read_index env i CEE_LDARGA CEE_LDARGA_S k = k n3"
    using read_index_op[OF assms, of CEE_LDARGA CEE_LDARGA_S] by (auto simp: operand_width_def token_ops_def)
  obtain n4 where n4: "\<And>k :: int \<Rightarrow> ReaderState result. read_index env i CEE_LDLOCA CEE_LDLOCA_S k = k n4"
    using read_index_op[OF assms, of CEE_LDLOCA CEE_LDLOCA_S] by (auto simp: operand_width_def token_ops_def)
  show "iOpcode i \<in> set ldarg_ops \<Longrightarrow> does (row ''loadArg'' 0 1) st (read_load_var env i st)" by (simp add: read_load_var_def n1 step_defs)
  show "iOpcode i \<in> set ldloc_ops \<Longrightarrow> does (row ''loadLocal'' 0 1) st (read_load_var env i st)" by (simp add: read_load_var_def d n2 step_defs)
  show "iOpcode i \<in> {CEE_LDARGA, CEE_LDARGA_S} \<Longrightarrow> does (row ''loadArgAddress'' 0 1) st (read_load_addr env i st)"
    by (auto simp: read_load_addr_def n3 step_defs)
  show "iOpcode i \<in> {CEE_LDLOCA, CEE_LDLOCA_S} \<Longrightarrow> does (row ''loadLocalAddress'' 0 1) st (read_load_addr env i st)"
    by (auto simp: read_load_addr_def n4 step_defs)
qed

lemma does_store_var:
  assumes "readable env i"
  shows "iOpcode i \<in> set stloc_ops \<Longrightarrow> does ((row ''storeLocal'' 1 0)\<lparr>mem := True\<rparr>) st (read_store_var env i st)"
    "iOpcode i \<in> {CEE_STARG, CEE_STARG_S} \<Longrightarrow> does ((row ''storeArg'' 1 0)\<lparr>mem := True\<rparr>) st (read_store_var env i st)"
proof -
  have d: "op \<in> {CEE_STARG, CEE_STARG_S} \<Longrightarrow> op \<notin> set stloc_ops" for op by (auto simp: stloc_ops_def)
  obtain n1 where n1: "\<And>k :: int \<Rightarrow> ReaderState result. read_index env i CEE_STLOC CEE_STLOC_S k = k n1"
    using read_index_op[OF assms, of CEE_STLOC CEE_STLOC_S] by (auto simp: operand_width_def token_ops_def)
  obtain n2 where n2: "\<And>k :: int \<Rightarrow> ReaderState result. read_index env i CEE_STARG CEE_STARG_S k = k n2"
    using read_index_op[OF assms, of CEE_STARG CEE_STARG_S] by (auto simp: operand_width_def token_ops_def)
  show "iOpcode i \<in> set stloc_ops \<Longrightarrow> does ((row ''storeLocal'' 1 0)\<lparr>mem := True\<rparr>) st (read_store_var env i st)"
    by (cases "ReaderOperandStack st") (simp_all add: read_store_var_def n1 step_defs)
  show "iOpcode i \<in> {CEE_STARG, CEE_STARG_S} \<Longrightarrow> does ((row ''storeArg'' 1 0)\<lparr>mem := True\<rparr>) st (read_store_var env i st)"
    using d by (cases "ReaderOperandStack st") (simp_all add: read_store_var_def n2 step_defs)
qed

lemma does_ldc:
  assumes "readable env i"
  shows "iOpcode i = CEE_LDC_I8 \<Longrightarrow> does (row ''loadConstantI8'' 0 1) st (read_ldc env i st)"
    "iOpcode i = CEE_LDC_R4 \<Longrightarrow> does (row ''loadConstantR4'' 0 1) st (read_ldc env i st)"
    "iOpcode i = CEE_LDC_R8 \<Longrightarrow> does (row ''loadConstantR8'' 0 1) st (read_ldc env i st)"
    "iOpcode i \<in> set ldc_i4_ops \<Longrightarrow> does (row ''loadConstantI4'' 0 1) st (read_ldc env i st)"
proof -
  show "does (row ''loadConstantI8'' 0 1) st (read_ldc env i st)" if op: "iOpcode i = CEE_LDC_I8"
  proof -
    obtain v where "\<And>k :: int \<Rightarrow> ReaderState result. read_signed 8 env i k = k v"
      using read_signed_op[OF assms, of 8] op by (auto simp: operand_width_def token_ops_def)
    then show ?thesis using op by (simp add: read_ldc_def step_defs)
  qed
  show "iOpcode i = CEE_LDC_R4 \<Longrightarrow> does (row ''loadConstantR4'' 0 1) st (read_ldc env i st)"
    "iOpcode i = CEE_LDC_R8 \<Longrightarrow> does (row ''loadConstantR8'' 0 1) st (read_ldc env i st)"
    using read_raw_op[OF assms] by (simp_all add: operand_width_def token_ops_def read_ldc_def step_defs)
  show "does (row ''loadConstantI4'' 0 1) st (read_ldc env i st)" if op: "iOpcode i \<in> set ldc_i4_ops"
  proof -
    have "\<exists>v. read_ldc env i st = Inr (gen_push ''loadConstantI4'' [Num v] (emit ''nop'' [] st))"
      using op read_signed_op[OF assms, of 4] read_signed_op[OF assms, of 1]
      by (auto simp: ldc_i4_ops_def read_ldc_def operand_width_def token_ops_def Let_def) blast+
    then show ?thesis by (auto simp: step_defs)
  qed
qed

lemma does_elems:
  assumes "readable env i"
  shows "does (row ''loadElem'' 2 1) st (read_ldelem env i st)" "does (row ''storeElem'' 3 0) st (read_stelem env i st)"
proof -
  obtain t u where "\<And>k :: u32 \<Rightarrow> ReaderState result. read_elem_token env i CEE_LDELEM k = k t"
    "\<And>k :: u32 \<Rightarrow> ReaderState result. read_elem_token env i CEE_STELEM k = k u"
    using read_elem_token_op[OF assms, of CEE_LDELEM] read_elem_token_op[OF assms, of CEE_STELEM] by (auto simp: token_ops_def)
  then show "does (row ''loadElem'' 2 1) st (read_ldelem env i st)" "does (row ''storeElem'' 3 0) st (read_stelem env i st)"
    by (cases "ReaderOperandStack st" rule: stack_cases; simp add: step_defs read_ldelem_def read_stelem_def)+
qed

lemma does_memory_tokens:
  assumes "readable env i"
  shows "iOpcode i = CEE_LDSTR \<Longrightarrow> does (row ''loadStr'' 0 1) st (read_static env i st)"
    "iOpcode i = CEE_LDSFLD \<Longrightarrow> does (row ''loadStaticField'' 0 1) st (read_static env i st)"
    "iOpcode i = CEE_LDSFLDA \<Longrightarrow> does (row ''getStaticFieldAddress'' 0 1) st (read_static env i st)"
    "iOpcode i = CEE_LDTOKEN \<Longrightarrow> does (row ''loadToken'' 0 1) st (read_ldtoken env i st)"
    "iOpcode i = CEE_LDFTN \<Longrightarrow> does (row ''rdrMakeLdFtnTargetNode'' 0 1) st (read_ldftn env i st)"
    "iOpcode i = CEE_LDVIRTFTN \<Longrightarrow> does (row ''loadVirtFunc'' 1 1) st (read_ldftn env i st)"
    "iOpcode i = CEE_STSFLD \<Longrightarrow> does (row ''storeStaticField'' 1 0) st (read_stsfld env i st)"
    "iOpcode i = CEE_LDFLD \<Longrightarrow> does ((row ''loadField'' 1 1)\<lparr>mem := True\<rparr>) st (read_ldfld env i st)"
    "iOpcode i = CEE_LDFLDA \<Longrightarrow> does (row ''loadFieldAddress'' 1 1) st (read_ldflda env i st)"
    "iOpcode i = CEE_STFLD \<Longrightarrow> does ((row ''storeField'' 2 0)\<lparr>mem := True\<rparr>) st (read_store_field env i st)"
    "iOpcode i = CEE_STOBJ \<Longrightarrow> does ((row ''storeObj'' 2 0)\<lparr>mem := True\<rparr>) st (read_store_field env i st)"
    "iOpcode i = CEE_LDOBJ \<Longrightarrow> does ((row ''loadObj'' 1 1)\<lparr>mem := True\<rparr>) st (read_ldobj env i st)"
    "iOpcode i = CEE_CPOBJ \<Longrightarrow> does ((row ''cpObj'' 2 0)\<lparr>mem := True\<rparr>) st (read_cpobj env i st)"
    "iOpcode i = CEE_INITOBJ \<Longrightarrow> does (row ''initObj'' 1 0) st (read_initobj env i st)"
    "iOpcode i = CEE_LDELEMA \<Longrightarrow> does (row ''loadElemA'' 2 1) st (read_ldelema env i st)"
  using assms by (cases "ReaderOperandStack st" rule: stack_cases; simp add: step_defs tok read_static_def read_ldtoken_def read_ldftn_def remember_ftn_def
      read_stsfld_def read_ldfld_def read_ldflda_def read_store_field_def read_ldobj_def read_cpobj_def read_initobj_def read_ldelema_def)+

lemma does_memory:
  "does ((row ''loadIndir'' 1 1)\<lparr>mem := True\<rparr>) st (read_ldind i st)"
  "does ((row ''storeIndir'' 2 0)\<lparr>mem := True\<rparr>) st (read_stind i st)"
  "does (row ''loadLen'' 1 1) st (read_ldlen st)"
  "iOpcode i = CEE_CPBLK \<Longrightarrow> does ((row ''cpBlk'' 3 0)\<lparr>mem := True\<rparr>) st (read_block_op i st)"
  "iOpcode i = CEE_INITBLK \<Longrightarrow> does ((row ''initBlk'' 3 0)\<lparr>mem := True\<rparr>) st (read_block_op i st)"
  by (cases "ReaderOperandStack st" rule: stack_cases; simp add: step_defs read_ldind_def read_stind_def read_ldlen_def read_block_op_def)+


lemma drop_events: "concat (map (call_event \<circ> (\<lambda>n. (''pop'', [Node n]))) s) = drop_all s"
  by (induction s) (auto simp: drop_all_def call_event_eq helper_calls_def in_order_def arg_nodes_def mem_args_def is_node_def)

lemma does_control:
  "does ((row ''condBranch'' 2 0)\<lparr>rest := PassBefore\<rparr>) st (read_cond_branch i st)"
  "does ((row ''boolBranch'' 1 0)\<lparr>rest := PassBefore\<rparr>) st (read_bool_branch i st)"
  "does ((row ''branch'' 0 0)\<lparr>rest := PassBefore\<rparr>) st (read_branch_always st)"
  "does (row ''endFilter'' 1 0) st (read_endfilter st)"
  "does (row ''returnOpcode'' (if ReturnsVoid env then 0 else 1) 0) st (read_ret env st)"
  by (cases "ReaderOperandStack st" rule: stack_cases; simp add: step_defs read_cond_branch_def read_bool_branch_def read_branch_always_def
      read_endfilter_def read_ret_def)+

lemma does_drop:
  "does (no_action\<lparr>rest := DropBefore\<rparr>) st (read_endfinally st)"
  "does ((row ''rethrow'' 0 0)\<lparr>rest := DropBefore\<rparr>) st (read_rethrow st)"
  "does ((row ''throwOpcode'' 1 0)\<lparr>rest := DropAfter\<rparr>) st (read_throw st)"
proof -
  show "does (no_action\<lparr>rest := DropBefore\<rparr>) st (read_endfinally st)" "does ((row ''rethrow'' 0 0)\<lparr>rest := DropBefore\<rparr>) st (read_rethrow st)"
    by (simp_all add: step_defs read_endfinally_def read_rethrow_def clearStack_def drop_events)
  show "does ((row ''throwOpcode'' 1 0)\<lparr>rest := DropAfter\<rparr>) st (read_throw st)"
    by (cases "ReaderOperandStack st") (simp_all add: step_defs read_throw_def clearStack_def drop_events)
qed

lemma does_clear_token:
  assumes "readable env i"
  shows "iOpcode i = CEE_JMP \<Longrightarrow> does ((row ''jmp'' 0 0)\<lparr>rest := DropBefore\<rparr>) st (read_jmp env i st)"
    "iOpcode i \<in> {CEE_LEAVE, CEE_LEAVE_S} \<Longrightarrow> does ((row ''leave'' 0 0)\<lparr>rest := DropBefore\<rparr>) st (read_leave env i st)"
proof -
  show "iOpcode i = CEE_JMP \<Longrightarrow> does ((row ''jmp'' 0 0)\<lparr>rest := DropBefore\<rparr>) st (read_jmp env i st)"
    using assms by (simp add: step_defs tok read_jmp_def clearStack_def drop_events)
  show "does ((row ''leave'' 0 0)\<lparr>rest := DropBefore\<rparr>) st (read_leave env i st)" if op: "iOpcode i \<in> {CEE_LEAVE, CEE_LEAVE_S}"
  proof -
    have "\<exists>v. read_leave env i st = Inr (emit ''leave'' [Num v] (clearStack (st\<lparr>HasFallThrough := False\<rparr>)))"
      using op read_signed_op[OF assms, of 4] read_signed_op[OF assms, of 1]
      by (auto simp: read_leave_def operand_width_def token_ops_def) blast+
    then show ?thesis by (auto simp: step_defs clearStack_def drop_events)
  qed
qed

lemma does_switch:
  assumes "readable env i" "iOpcode i = CEE_SWITCH" "has_cases env i"
  shows "does ((row ''switchOpcode'' 1 0)\<lparr>rest := PassAfter\<rparr>) st (read_switch env i st)"
proof -
  obtain p c where "read_switch env i st = pop_op st (\<lambda>Arg1 st.
       Inr ((maintain_and_clear (emit ''switchOpcode'' [Node Arg1] st))\<lparr>ReaderOperandStack := []\<rparr>))"
    using assms by (auto simp: read_switch_def readable_def operand_width_def token_ops_def operand_ptr_def readNumberOfSwitchCases_def readValue_u32_def
        read_bytes_def has_cases_def il_token_def split: option.splits)
  then show ?thesis by (cases "ReaderOperandStack st" rule: stack_cases) (simp_all add: step_defs)
qed

lemma pop_list_ok:
  "pop_list n st k = (if length (ReaderOperandStack st) < n then Inl (AssertFailed ''stack underflow'')
     else k (take n (ReaderOperandStack st)) (st\<lparr>ReaderOperandStack := drop n (ReaderOperandStack st)\<rparr>))"
  by (induction n arbitrary: st k) (auto simp: pop_op_def split: list.splits)

lemma does_call:
  assumes "readable env i" "iOpcode i \<in> {CEE_CALL, CEE_CALLI, CEE_CALLVIRT}" "tail_scan_ok env i"
  shows "does (row ''call'' (CallPops env (iOpcode i) (il_token env i)) (if CallReturns env (iOpcode i) (il_token env i) then 1 else 0)) st (read_call env i st)"
proof -
  let ?t = "il_token env i"
  have "\<exists>b. (if \<not> HasTailCallPrefix st \<and> iOpcode i \<noteq> CEE_CALLI \<and> DoTailCall env then isUnmarkedTailCall env (NextOffset i) ?t else Inr False) = Inr b"
    using assms(2,3) by (cases "isUnmarkedTailCall env (NextOffset i) ?t") (auto simp: tail_scan_ok_def)
  then obtain b where b: "(if \<not> HasTailCallPrefix st \<and> iOpcode i \<noteq> CEE_CALLI \<and> DoTailCall env then isUnmarkedTailCall env (NextOffset i) ?t else Inr False) = Inr b"
    by blast
  have t: "read_token env i k = k ?t" for k :: "u32 \<Rightarrow> ReaderState result" using read_token_op[OF assms(1)] assms(2) by (auto simp: token_ops_def)
  show ?thesis using b
    by (auto simp: read_call_def t emit_def pop_list_ok step_defs push_result_def)
qed

lemma does_newobj:
  assumes "readable env i" "iOpcode i = CEE_NEWOBJ"
  shows "does (row ''newObj'' (CallPops env (iOpcode i) (il_token env i)) (if CallReturns env (iOpcode i) (il_token env i) then 1 else 0)) st (read_newobj env i st)"
  using assms by (auto simp: read_newobj_def tok pop_list_ok step_defs push_result_def)



lemma does_consts:
  "does (row ''argList'' 0 1) st (Inr (gen_push ''argList'' [] st))"
  "does (row ''loadNull'' 0 1) st (Inr (gen_push ''loadNull'' [] st))"
  "does (row ''breakOpcode'' 0 0) st (Inr (emit ''breakOpcode'' [] st))"
  "does no_action st (Inr (emit ''nop'' [] st))"
  by (simp_all add: step_defs)

subsection \<open>The dispatch\<close>

lemmas op_groups = binary_ops_def cond_branches_def bool_branches_def compare_ops_def conv_ops_def ldarg_ops_def ldloc_ops_def ldc_i4_ops_def
  ldelem_ops_def ldind_ops_def shift_ops_def stloc_ops_def stelem_ops_def stind_ops_def prefix_ops_def

lemmas dispatch_defs = read_opcode_def read_early_def read_loads_def read_late_def early_ops_def load_ops_def late_ops_def op_groups Let_def

lemma find_row_nth:
  assumes "distinct (concat (map fst rows))" "k < length rows" "op \<in> set (fst (rows ! k))"
  shows "find_row op (rows @ X) = snd (rows ! k)"
  using assms
proof (induction rows arbitrary: k)
  case (Cons a rows)
  obtain ops r where a: "a = (ops, r)" by (cases a)
  show ?case
  proof (cases k)
    case 0
    then show ?thesis using Cons.prems a by simp
  next
    case (Suc j)
    then have "op \<in> set (concat (map fst rows))" using Cons.prems(2,3) by (auto intro!: bexI[of _ "rows ! j"])
    then have "op \<notin> set ops" using Cons.prems(1) a by auto
    then show ?thesis using Cons a Suc by simp
  qed
qed simp

lemma distinct_values: "distinct (concat (map fst (table_values env)))"
  by (simp add: table_values_def)

lemma distinct_memory: "distinct (concat (map fst table_memory))"
  by (simp add: table_memory_def)

lemma distinct_control: "distinct (concat (map fst (table_control env op2 tok)))"
  by (simp add: table_control_def)

lemma row_at:
  assumes "distinct (concat (map fst rows))" "k < length rows" "list_all (\<lambda>op. op \<in> set (fst (rows ! k))) ops" "snd (rows ! k) = r"
  shows "list_all (\<lambda>op. find_row op (rows @ X) = r) ops"
  using find_row_nth[OF assms(1,2)] assms(3,4) by (auto simp: list_all_iff)

text \<open>The rows of the table, group by group.\<close>

lemma value_rows:
  "list_all (\<lambda>op. find_row op (table_values env @ X) = row ''binaryOp'' 2 1) binary_ops"
  "list_all (\<lambda>op. find_row op (table_values env @ X) = row ''shift'' 2 1) shift_ops"
  "list_all (\<lambda>op. find_row op (table_values env @ X) = row ''unaryOp'' 1 1) [CEE_NEG, CEE_NOT]"
  "list_all (\<lambda>op. find_row op (table_values env @ X) = row ''cmp'' 2 1) compare_ops"
  "list_all (\<lambda>op. find_row op (table_values env @ X) = row ''conv'' 1 1) conv_ops"
  "list_all (\<lambda>op. find_row op (table_values env @ X) = row ''ckFinite'' 1 1) [CEE_CKFINITE]"
  "list_all (\<lambda>op. find_row op (table_values env @ X) = row ''argList'' 0 1) [CEE_ARGLIST]"
  "list_all (\<lambda>op. find_row op (table_values env @ X) = row ''box'' 1 1) [CEE_BOX]"
  "list_all (\<lambda>op. find_row op (table_values env @ X) = row ''castClass'' 1 1) [CEE_CASTCLASS]"
  "list_all (\<lambda>op. find_row op (table_values env @ X) = row ''isInst'' 1 1) [CEE_ISINST]"
  "list_all (\<lambda>op. find_row op (table_values env @ X) = row ''unbox'' 1 1) [CEE_UNBOX]"
  "list_all (\<lambda>op. find_row op (table_values env @ X) = (row ''unboxAny'' 1 1)\<lparr>mem := True\<rparr>) [CEE_UNBOX_ANY]"
  "list_all (\<lambda>op. find_row op (table_values env @ X) = row ''makeRefAny'' 1 1) [CEE_MKREFANY]"
  "list_all (\<lambda>op. find_row op (table_values env @ X) = row ''refAnyType'' 1 1) [CEE_REFANYTYPE]"
  "list_all (\<lambda>op. find_row op (table_values env @ X) = row ''refAnyVal'' 1 1) [CEE_REFANYVAL]"
  "list_all (\<lambda>op. find_row op (table_values env @ X) = row ''newArr'' 1 1) [CEE_NEWARR]"
  "list_all (\<lambda>op. find_row op (table_values env @ X) = row ''localAlloc'' 1 1) [CEE_LOCALLOC]"
  "list_all (\<lambda>op. find_row op (table_values env @ X) = row ''sizeofOpcode'' 0 1) [CEE_SIZEOF]"
  "list_all (\<lambda>op. find_row op (table_values env @ X) = row ''dup'' 1 2) [CEE_DUP]"
  "list_all (\<lambda>op. find_row op (table_values env @ X) = row ''pop'' 1 0) [CEE_POP]"
  subgoal by (rule row_at[OF distinct_values, where k = 0]) (simp_all add: table_values_def op_groups)
  subgoal by (rule row_at[OF distinct_values, where k = 1]) (simp_all add: table_values_def op_groups)
  subgoal by (rule row_at[OF distinct_values, where k = 2]) (simp_all add: table_values_def op_groups)
  subgoal by (rule row_at[OF distinct_values, where k = 3]) (simp_all add: table_values_def op_groups)
  subgoal by (rule row_at[OF distinct_values, where k = 4]) (simp_all add: table_values_def op_groups)
  subgoal by (rule row_at[OF distinct_values, where k = 5]) (simp_all add: table_values_def op_groups)
  subgoal by (rule row_at[OF distinct_values, where k = 6]) (simp_all add: table_values_def op_groups)
  subgoal by (rule row_at[OF distinct_values, where k = 7]) (simp_all add: table_values_def op_groups)
  subgoal by (rule row_at[OF distinct_values, where k = 8]) (simp_all add: table_values_def op_groups)
  subgoal by (rule row_at[OF distinct_values, where k = 9]) (simp_all add: table_values_def op_groups)
  subgoal by (rule row_at[OF distinct_values, where k = 10]) (simp_all add: table_values_def op_groups)
  subgoal by (rule row_at[OF distinct_values, where k = 11]) (simp_all add: table_values_def op_groups)
  subgoal by (rule row_at[OF distinct_values, where k = 12]) (simp_all add: table_values_def op_groups)
  subgoal by (rule row_at[OF distinct_values, where k = 13]) (simp_all add: table_values_def op_groups)
  subgoal by (rule row_at[OF distinct_values, where k = 14]) (simp_all add: table_values_def op_groups)
  subgoal by (rule row_at[OF distinct_values, where k = 15]) (simp_all add: table_values_def op_groups)
  subgoal by (rule row_at[OF distinct_values, where k = 16]) (simp_all add: table_values_def op_groups)
  subgoal by (rule row_at[OF distinct_values, where k = 17]) (simp_all add: table_values_def op_groups)
  subgoal by (rule row_at[OF distinct_values, where k = 18]) (simp_all add: table_values_def op_groups)
  subgoal by (rule row_at[OF distinct_values, where k = 19]) (simp_all add: table_values_def op_groups)
  done

lemma memory_rows:
  "list_all (\<lambda>op. find_row op (table_memory @ X) = row ''loadArg'' 0 1) ldarg_ops"
  "list_all (\<lambda>op. find_row op (table_memory @ X) = row ''loadLocal'' 0 1) ldloc_ops"
  "list_all (\<lambda>op. find_row op (table_memory @ X) = row ''loadArgAddress'' 0 1) [CEE_LDARGA, CEE_LDARGA_S]"
  "list_all (\<lambda>op. find_row op (table_memory @ X) = row ''loadLocalAddress'' 0 1) [CEE_LDLOCA, CEE_LDLOCA_S]"
  "list_all (\<lambda>op. find_row op (table_memory @ X) = row ''loadConstantI8'' 0 1) [CEE_LDC_I8]"
  "list_all (\<lambda>op. find_row op (table_memory @ X) = row ''loadConstantR4'' 0 1) [CEE_LDC_R4]"
  "list_all (\<lambda>op. find_row op (table_memory @ X) = row ''loadConstantR8'' 0 1) [CEE_LDC_R8]"
  "list_all (\<lambda>op. find_row op (table_memory @ X) = row ''loadConstantI4'' 0 1) ldc_i4_ops"
  "list_all (\<lambda>op. find_row op (table_memory @ X) = row ''loadNull'' 0 1) [CEE_LDNULL]"
  "list_all (\<lambda>op. find_row op (table_memory @ X) = row ''loadStr'' 0 1) [CEE_LDSTR]"
  "list_all (\<lambda>op. find_row op (table_memory @ X) = row ''loadToken'' 0 1) [CEE_LDTOKEN]"
  "list_all (\<lambda>op. find_row op (table_memory @ X) = row ''rdrMakeLdFtnTargetNode'' 0 1) [CEE_LDFTN]"
  "list_all (\<lambda>op. find_row op (table_memory @ X) = row ''loadVirtFunc'' 1 1) [CEE_LDVIRTFTN]"
  "list_all (\<lambda>op. find_row op (table_memory @ X) = row ''loadStaticField'' 0 1) [CEE_LDSFLD]"
  "list_all (\<lambda>op. find_row op (table_memory @ X) = row ''getStaticFieldAddress'' 0 1) [CEE_LDSFLDA]"
  "list_all (\<lambda>op. find_row op (table_memory @ X) = row ''storeStaticField'' 1 0) [CEE_STSFLD]"
  "list_all (\<lambda>op. find_row op (table_memory @ X) = (row ''loadField'' 1 1)\<lparr>mem := True\<rparr>) [CEE_LDFLD]"
  "list_all (\<lambda>op. find_row op (table_memory @ X) = row ''loadFieldAddress'' 1 1) [CEE_LDFLDA]"
  "list_all (\<lambda>op. find_row op (table_memory @ X) = (row ''storeField'' 2 0)\<lparr>mem := True\<rparr>) [CEE_STFLD]"
  "list_all (\<lambda>op. find_row op (table_memory @ X) = row ''loadElem'' 2 1) ldelem_ops"
  "list_all (\<lambda>op. find_row op (table_memory @ X) = row ''loadElemA'' 2 1) [CEE_LDELEMA]"
  "list_all (\<lambda>op. find_row op (table_memory @ X) = row ''storeElem'' 3 0) stelem_ops"
  "list_all (\<lambda>op. find_row op (table_memory @ X) = row ''loadLen'' 1 1) [CEE_LDLEN]"
  "list_all (\<lambda>op. find_row op (table_memory @ X) = (row ''loadIndir'' 1 1)\<lparr>mem := True\<rparr>) ldind_ops"
  "list_all (\<lambda>op. find_row op (table_memory @ X) = (row ''storeIndir'' 2 0)\<lparr>mem := True\<rparr>) stind_ops"
  "list_all (\<lambda>op. find_row op (table_memory @ X) = (row ''storeLocal'' 1 0)\<lparr>mem := True\<rparr>) stloc_ops"
  "list_all (\<lambda>op. find_row op (table_memory @ X) = (row ''storeArg'' 1 0)\<lparr>mem := True\<rparr>) [CEE_STARG, CEE_STARG_S]"
  "list_all (\<lambda>op. find_row op (table_memory @ X) = (row ''loadObj'' 1 1)\<lparr>mem := True\<rparr>) [CEE_LDOBJ]"
  "list_all (\<lambda>op. find_row op (table_memory @ X) = (row ''storeObj'' 2 0)\<lparr>mem := True\<rparr>) [CEE_STOBJ]"
  "list_all (\<lambda>op. find_row op (table_memory @ X) = (row ''cpObj'' 2 0)\<lparr>mem := True\<rparr>) [CEE_CPOBJ]"
  "list_all (\<lambda>op. find_row op (table_memory @ X) = row ''initObj'' 1 0) [CEE_INITOBJ]"
  "list_all (\<lambda>op. find_row op (table_memory @ X) = (row ''cpBlk'' 3 0)\<lparr>mem := True\<rparr>) [CEE_CPBLK]"
  "list_all (\<lambda>op. find_row op (table_memory @ X) = (row ''initBlk'' 3 0)\<lparr>mem := True\<rparr>) [CEE_INITBLK]"
  subgoal by (rule row_at[OF distinct_memory, where k = 0]) (simp_all add: table_memory_def op_groups)
  subgoal by (rule row_at[OF distinct_memory, where k = 1]) (simp_all add: table_memory_def op_groups)
  subgoal by (rule row_at[OF distinct_memory, where k = 2]) (simp_all add: table_memory_def op_groups)
  subgoal by (rule row_at[OF distinct_memory, where k = 3]) (simp_all add: table_memory_def op_groups)
  subgoal by (rule row_at[OF distinct_memory, where k = 4]) (simp_all add: table_memory_def op_groups)
  subgoal by (rule row_at[OF distinct_memory, where k = 5]) (simp_all add: table_memory_def op_groups)
  subgoal by (rule row_at[OF distinct_memory, where k = 6]) (simp_all add: table_memory_def op_groups)
  subgoal by (rule row_at[OF distinct_memory, where k = 7]) (simp_all add: table_memory_def op_groups)
  subgoal by (rule row_at[OF distinct_memory, where k = 8]) (simp_all add: table_memory_def op_groups)
  subgoal by (rule row_at[OF distinct_memory, where k = 9]) (simp_all add: table_memory_def op_groups)
  subgoal by (rule row_at[OF distinct_memory, where k = 10]) (simp_all add: table_memory_def op_groups)
  subgoal by (rule row_at[OF distinct_memory, where k = 11]) (simp_all add: table_memory_def op_groups)
  subgoal by (rule row_at[OF distinct_memory, where k = 12]) (simp_all add: table_memory_def op_groups)
  subgoal by (rule row_at[OF distinct_memory, where k = 13]) (simp_all add: table_memory_def op_groups)
  subgoal by (rule row_at[OF distinct_memory, where k = 14]) (simp_all add: table_memory_def op_groups)
  subgoal by (rule row_at[OF distinct_memory, where k = 15]) (simp_all add: table_memory_def op_groups)
  subgoal by (rule row_at[OF distinct_memory, where k = 16]) (simp_all add: table_memory_def op_groups)
  subgoal by (rule row_at[OF distinct_memory, where k = 17]) (simp_all add: table_memory_def op_groups)
  subgoal by (rule row_at[OF distinct_memory, where k = 18]) (simp_all add: table_memory_def op_groups)
  subgoal by (rule row_at[OF distinct_memory, where k = 19]) (simp_all add: table_memory_def op_groups)
  subgoal by (rule row_at[OF distinct_memory, where k = 20]) (simp_all add: table_memory_def op_groups)
  subgoal by (rule row_at[OF distinct_memory, where k = 21]) (simp_all add: table_memory_def op_groups)
  subgoal by (rule row_at[OF distinct_memory, where k = 22]) (simp_all add: table_memory_def op_groups)
  subgoal by (rule row_at[OF distinct_memory, where k = 23]) (simp_all add: table_memory_def op_groups)
  subgoal by (rule row_at[OF distinct_memory, where k = 24]) (simp_all add: table_memory_def op_groups)
  subgoal by (rule row_at[OF distinct_memory, where k = 25]) (simp_all add: table_memory_def op_groups)
  subgoal by (rule row_at[OF distinct_memory, where k = 26]) (simp_all add: table_memory_def op_groups)
  subgoal by (rule row_at[OF distinct_memory, where k = 27]) (simp_all add: table_memory_def op_groups)
  subgoal by (rule row_at[OF distinct_memory, where k = 28]) (simp_all add: table_memory_def op_groups)
  subgoal by (rule row_at[OF distinct_memory, where k = 29]) (simp_all add: table_memory_def op_groups)
  subgoal by (rule row_at[OF distinct_memory, where k = 30]) (simp_all add: table_memory_def op_groups)
  subgoal by (rule row_at[OF distinct_memory, where k = 31]) (simp_all add: table_memory_def op_groups)
  subgoal by (rule row_at[OF distinct_memory, where k = 32]) (simp_all add: table_memory_def op_groups)
  done

lemma control_rows:
  "list_all (\<lambda>op. find_row op (table_control env op2 tok @ X) = (row ''condBranch'' 2 0)\<lparr>rest := PassBefore\<rparr>) cond_branches"
  "list_all (\<lambda>op. find_row op (table_control env op2 tok @ X) = (row ''boolBranch'' 1 0)\<lparr>rest := PassBefore\<rparr>) bool_branches"
  "list_all (\<lambda>op. find_row op (table_control env op2 tok @ X) = (row ''branch'' 0 0)\<lparr>rest := PassBefore\<rparr>) [CEE_BR, CEE_BR_S]"
  "list_all (\<lambda>op. find_row op (table_control env op2 tok @ X) = (row ''switchOpcode'' 1 0)\<lparr>rest := PassAfter\<rparr>) [CEE_SWITCH]"
  "list_all (\<lambda>op. find_row op (table_control env op2 tok @ X) = (row ''leave'' 0 0)\<lparr>rest := DropBefore\<rparr>) [CEE_LEAVE, CEE_LEAVE_S]"
  "list_all (\<lambda>op. find_row op (table_control env op2 tok @ X) = no_action\<lparr>rest := DropBefore\<rparr>) [CEE_ENDFINALLY]"
  "list_all (\<lambda>op. find_row op (table_control env op2 tok @ X) = row ''endFilter'' 1 0) [CEE_ENDFILTER]"
  "list_all (\<lambda>op. find_row op (table_control env op2 tok @ X) = (row ''throwOpcode'' 1 0)\<lparr>rest := DropAfter\<rparr>) [CEE_THROW]"
  "list_all (\<lambda>op. find_row op (table_control env op2 tok @ X) = (row ''rethrow'' 0 0)\<lparr>rest := DropBefore\<rparr>) [CEE_RETHROW]"
  "list_all (\<lambda>op. find_row op (table_control env op2 tok @ X) = (row ''jmp'' 0 0)\<lparr>rest := DropBefore\<rparr>) [CEE_JMP]"
  "list_all (\<lambda>op. find_row op (table_control env op2 tok @ X) = row ''returnOpcode'' (if ReturnsVoid env then 0 else 1) 0) [CEE_RET]"
  "list_all (\<lambda>op. find_row op (table_control env op2 tok @ X) = row ''call'' (CallPops env op2 tok) (if CallReturns env op2 tok then 1 else 0)) [CEE_CALL, CEE_CALLI, CEE_CALLVIRT]"
  "list_all (\<lambda>op. find_row op (table_control env op2 tok @ X) = row ''newObj'' (CallPops env op2 tok) (if CallReturns env op2 tok then 1 else 0)) [CEE_NEWOBJ]"
  "list_all (\<lambda>op. find_row op (table_control env op2 tok @ X) = row ''breakOpcode'' 0 0) [CEE_BREAK]"
  subgoal by (rule row_at[OF distinct_control, where k = 0]) (simp_all add: table_control_def op_groups)
  subgoal by (rule row_at[OF distinct_control, where k = 1]) (simp_all add: table_control_def op_groups)
  subgoal by (rule row_at[OF distinct_control, where k = 2]) (simp_all add: table_control_def op_groups)
  subgoal by (rule row_at[OF distinct_control, where k = 3]) (simp_all add: table_control_def op_groups)
  subgoal by (rule row_at[OF distinct_control, where k = 4]) (simp_all add: table_control_def op_groups)
  subgoal by (rule row_at[OF distinct_control, where k = 5]) (simp_all add: table_control_def op_groups)
  subgoal by (rule row_at[OF distinct_control, where k = 6]) (simp_all add: table_control_def op_groups)
  subgoal by (rule row_at[OF distinct_control, where k = 7]) (simp_all add: table_control_def op_groups)
  subgoal by (rule row_at[OF distinct_control, where k = 8]) (simp_all add: table_control_def op_groups)
  subgoal by (rule row_at[OF distinct_control, where k = 9]) (simp_all add: table_control_def op_groups)
  subgoal by (rule row_at[OF distinct_control, where k = 10]) (simp_all add: table_control_def op_groups)
  subgoal by (rule row_at[OF distinct_control, where k = 11]) (simp_all add: table_control_def op_groups)
  subgoal by (rule row_at[OF distinct_control, where k = 12]) (simp_all add: table_control_def op_groups)
  subgoal by (rule row_at[OF distinct_control, where k = 13]) (simp_all add: table_control_def op_groups)
  done

lemma find_row_skip: "op \<notin> set (concat (map fst rows)) \<Longrightarrow> find_row op (rows @ X) = find_row op X"
  by (induction rows) auto

definition memory_list :: "OPCODE list" where
  "memory_list = concat (map fst table_memory)"

definition control_list :: "OPCODE list" where
  "control_list = cond_branches @ bool_branches @ [CEE_BR, CEE_BR_S, CEE_SWITCH, CEE_LEAVE, CEE_LEAVE_S, CEE_ENDFINALLY, CEE_ENDFILTER, CEE_THROW,
     CEE_RETHROW, CEE_JMP, CEE_RET, CEE_CALL, CEE_CALLI, CEE_CALLVIRT, CEE_NEWOBJ, CEE_BREAK, CEE_NOP] @ prefix_ops"

lemma disjoint_tables:
  "list_all (\<lambda>op. op \<notin> set (concat (map fst (table_values env)))) memory_list"
  "list_all (\<lambda>op. op \<notin> set (concat (map fst (table_values env)))) control_list"
  "list_all (\<lambda>op. op \<notin> set (concat (map fst table_memory))) control_list"
  by (simp_all add: table_values_def memory_list_def table_memory_def control_list_def op_groups)

text \<open>The table of an instruction, by the part of the table in which it is.\<close>

lemma find_memory: "op \<in> set memory_list \<Longrightarrow> find_row op (table_values env @ X) = find_row op X"
  using disjoint_tables(1) by (intro find_row_skip) (simp add: list_all_iff)

lemma find_control: "op \<in> set control_list \<Longrightarrow> find_row op (table_values env @ table_memory @ X) = find_row op X"
proof -
  assume "op \<in> set control_list"
  then have "op \<notin> set (concat (map fst (table_values env)))" "op \<notin> set (concat (map fst table_memory))"
    using disjoint_tables(2,3) by (simp_all add: list_all_iff)
  then show ?thesis by (metis find_row_skip)
qed

lemma dispatch_values:
  "list_all (\<lambda>op. \<forall>i. iOpcode i = op \<longrightarrow> read_opcode env i st = read_binary i st) binary_ops"
  "list_all (\<lambda>op. \<forall>i. iOpcode i = op \<longrightarrow> read_opcode env i st = read_shift i st) shift_ops"
  "list_all (\<lambda>op. \<forall>i. iOpcode i = op \<longrightarrow> read_opcode env i st = read_unary i st) [CEE_NEG, CEE_NOT]"
  "list_all (\<lambda>op. \<forall>i. iOpcode i = op \<longrightarrow> read_opcode env i st = read_compare i st) compare_ops"
  "list_all (\<lambda>op. \<forall>i. iOpcode i = op \<longrightarrow> read_opcode env i st = read_conv i st) conv_ops"
  "list_all (\<lambda>op. \<forall>i. iOpcode i = op \<longrightarrow> read_opcode env i st = read_ckfinite st) [CEE_CKFINITE]"
  "list_all (\<lambda>op. \<forall>i. iOpcode i = op \<longrightarrow> read_opcode env i st = Inr (gen_push ''argList'' [] st)) [CEE_ARGLIST]"
  "list_all (\<lambda>op. \<forall>i. iOpcode i = op \<longrightarrow> read_opcode env i st = read_box env i st) [CEE_BOX]"
  "list_all (\<lambda>op. \<forall>i. iOpcode i = op \<longrightarrow> read_opcode env i st = read_cast env i st) [CEE_CASTCLASS]"
  "list_all (\<lambda>op. \<forall>i. iOpcode i = op \<longrightarrow> read_opcode env i st = read_cast env i st) [CEE_ISINST]"
  "list_all (\<lambda>op. \<forall>i. iOpcode i = op \<longrightarrow> read_opcode env i st = read_unbox env i st) [CEE_UNBOX]"
  "list_all (\<lambda>op. \<forall>i. iOpcode i = op \<longrightarrow> read_opcode env i st = read_unbox env i st) [CEE_UNBOX_ANY]"
  "list_all (\<lambda>op. \<forall>i. iOpcode i = op \<longrightarrow> read_opcode env i st = read_mkrefany env i st) [CEE_MKREFANY]"
  "list_all (\<lambda>op. \<forall>i. iOpcode i = op \<longrightarrow> read_opcode env i st = read_refany env i st) [CEE_REFANYTYPE]"
  "list_all (\<lambda>op. \<forall>i. iOpcode i = op \<longrightarrow> read_opcode env i st = read_refany env i st) [CEE_REFANYVAL]"
  "list_all (\<lambda>op. \<forall>i. iOpcode i = op \<longrightarrow> read_opcode env i st = read_newarr env i st) [CEE_NEWARR]"
  "list_all (\<lambda>op. \<forall>i. iOpcode i = op \<longrightarrow> read_opcode env i st = read_localloc env st) [CEE_LOCALLOC]"
  "list_all (\<lambda>op. \<forall>i. iOpcode i = op \<longrightarrow> read_opcode env i st = read_sizeof env i st) [CEE_SIZEOF]"
  "list_all (\<lambda>op. \<forall>i. iOpcode i = op \<longrightarrow> read_opcode env i st = read_dup st) [CEE_DUP]"
  "list_all (\<lambda>op. \<forall>i. iOpcode i = op \<longrightarrow> read_opcode env i st = read_pop st) [CEE_POP]"
  by (simp_all add: dispatch_defs)

lemma dispatch_memory:
  "list_all (\<lambda>op. \<forall>i. iOpcode i = op \<longrightarrow> read_opcode env i st = read_load_var env i st) ldarg_ops"
  "list_all (\<lambda>op. \<forall>i. iOpcode i = op \<longrightarrow> read_opcode env i st = read_load_var env i st) ldloc_ops"
  "list_all (\<lambda>op. \<forall>i. iOpcode i = op \<longrightarrow> read_opcode env i st = read_load_addr env i st) [CEE_LDARGA, CEE_LDARGA_S]"
  "list_all (\<lambda>op. \<forall>i. iOpcode i = op \<longrightarrow> read_opcode env i st = read_load_addr env i st) [CEE_LDLOCA, CEE_LDLOCA_S]"
  "list_all (\<lambda>op. \<forall>i. iOpcode i = op \<longrightarrow> read_opcode env i st = read_ldc env i st) [CEE_LDC_I8]"
  "list_all (\<lambda>op. \<forall>i. iOpcode i = op \<longrightarrow> read_opcode env i st = read_ldc env i st) [CEE_LDC_R4]"
  "list_all (\<lambda>op. \<forall>i. iOpcode i = op \<longrightarrow> read_opcode env i st = read_ldc env i st) [CEE_LDC_R8]"
  "list_all (\<lambda>op. \<forall>i. iOpcode i = op \<longrightarrow> read_opcode env i st = read_ldc env i st) ldc_i4_ops"
  "list_all (\<lambda>op. \<forall>i. iOpcode i = op \<longrightarrow> read_opcode env i st = Inr (gen_push ''loadNull'' [] st)) [CEE_LDNULL]"
  "list_all (\<lambda>op. \<forall>i. iOpcode i = op \<longrightarrow> read_opcode env i st = read_static env i st) [CEE_LDSTR]"
  "list_all (\<lambda>op. \<forall>i. iOpcode i = op \<longrightarrow> read_opcode env i st = read_ldtoken env i st) [CEE_LDTOKEN]"
  "list_all (\<lambda>op. \<forall>i. iOpcode i = op \<longrightarrow> read_opcode env i st = read_ldftn env i st) [CEE_LDFTN]"
  "list_all (\<lambda>op. \<forall>i. iOpcode i = op \<longrightarrow> read_opcode env i st = read_ldftn env i st) [CEE_LDVIRTFTN]"
  "list_all (\<lambda>op. \<forall>i. iOpcode i = op \<longrightarrow> read_opcode env i st = read_static env i st) [CEE_LDSFLD]"
  "list_all (\<lambda>op. \<forall>i. iOpcode i = op \<longrightarrow> read_opcode env i st = read_static env i st) [CEE_LDSFLDA]"
  "list_all (\<lambda>op. \<forall>i. iOpcode i = op \<longrightarrow> read_opcode env i st = read_stsfld env i st) [CEE_STSFLD]"
  "list_all (\<lambda>op. \<forall>i. iOpcode i = op \<longrightarrow> read_opcode env i st = read_ldfld env i st) [CEE_LDFLD]"
  "list_all (\<lambda>op. \<forall>i. iOpcode i = op \<longrightarrow> read_opcode env i st = read_ldflda env i st) [CEE_LDFLDA]"
  "list_all (\<lambda>op. \<forall>i. iOpcode i = op \<longrightarrow> read_opcode env i st = read_store_field env i st) [CEE_STFLD]"
  "list_all (\<lambda>op. \<forall>i. iOpcode i = op \<longrightarrow> read_opcode env i st = read_ldelem env i st) ldelem_ops"
  "list_all (\<lambda>op. \<forall>i. iOpcode i = op \<longrightarrow> read_opcode env i st = read_ldelema env i st) [CEE_LDELEMA]"
  "list_all (\<lambda>op. \<forall>i. iOpcode i = op \<longrightarrow> read_opcode env i st = read_stelem env i st) stelem_ops"
  "list_all (\<lambda>op. \<forall>i. iOpcode i = op \<longrightarrow> read_opcode env i st = read_ldlen st) [CEE_LDLEN]"
  "list_all (\<lambda>op. \<forall>i. iOpcode i = op \<longrightarrow> read_opcode env i st = read_ldind i st) ldind_ops"
  "list_all (\<lambda>op. \<forall>i. iOpcode i = op \<longrightarrow> read_opcode env i st = read_stind i st) stind_ops"
  "list_all (\<lambda>op. \<forall>i. iOpcode i = op \<longrightarrow> read_opcode env i st = read_store_var env i st) stloc_ops"
  "list_all (\<lambda>op. \<forall>i. iOpcode i = op \<longrightarrow> read_opcode env i st = read_store_var env i st) [CEE_STARG, CEE_STARG_S]"
  "list_all (\<lambda>op. \<forall>i. iOpcode i = op \<longrightarrow> read_opcode env i st = read_ldobj env i st) [CEE_LDOBJ]"
  "list_all (\<lambda>op. \<forall>i. iOpcode i = op \<longrightarrow> read_opcode env i st = read_store_field env i st) [CEE_STOBJ]"
  "list_all (\<lambda>op. \<forall>i. iOpcode i = op \<longrightarrow> read_opcode env i st = read_cpobj env i st) [CEE_CPOBJ]"
  "list_all (\<lambda>op. \<forall>i. iOpcode i = op \<longrightarrow> read_opcode env i st = read_initobj env i st) [CEE_INITOBJ]"
  "list_all (\<lambda>op. \<forall>i. iOpcode i = op \<longrightarrow> read_opcode env i st = read_block_op i st) [CEE_CPBLK]"
  "list_all (\<lambda>op. \<forall>i. iOpcode i = op \<longrightarrow> read_opcode env i st = read_block_op i st) [CEE_INITBLK]"
  by (simp_all add: dispatch_defs)

lemma dispatch_control:
  "list_all (\<lambda>op. \<forall>i. iOpcode i = op \<longrightarrow> read_opcode env i st = read_cond_branch i st) cond_branches"
  "list_all (\<lambda>op. \<forall>i. iOpcode i = op \<longrightarrow> read_opcode env i st = read_bool_branch i st) bool_branches"
  "list_all (\<lambda>op. \<forall>i. iOpcode i = op \<longrightarrow> read_opcode env i st = read_branch_always st) [CEE_BR, CEE_BR_S]"
  "list_all (\<lambda>op. \<forall>i. iOpcode i = op \<longrightarrow> read_opcode env i st = read_switch env i st) [CEE_SWITCH]"
  "list_all (\<lambda>op. \<forall>i. iOpcode i = op \<longrightarrow> read_opcode env i st = read_leave env i st) [CEE_LEAVE, CEE_LEAVE_S]"
  "list_all (\<lambda>op. \<forall>i. iOpcode i = op \<longrightarrow> read_opcode env i st = read_endfinally st) [CEE_ENDFINALLY]"
  "list_all (\<lambda>op. \<forall>i. iOpcode i = op \<longrightarrow> read_opcode env i st = read_endfilter st) [CEE_ENDFILTER]"
  "list_all (\<lambda>op. \<forall>i. iOpcode i = op \<longrightarrow> read_opcode env i st = read_throw st) [CEE_THROW]"
  "list_all (\<lambda>op. \<forall>i. iOpcode i = op \<longrightarrow> read_opcode env i st = read_rethrow st) [CEE_RETHROW]"
  "list_all (\<lambda>op. \<forall>i. iOpcode i = op \<longrightarrow> read_opcode env i st = read_jmp env i st) [CEE_JMP]"
  "list_all (\<lambda>op. \<forall>i. iOpcode i = op \<longrightarrow> read_opcode env i st = read_ret env st) [CEE_RET]"
  "list_all (\<lambda>op. \<forall>i. iOpcode i = op \<longrightarrow> read_opcode env i st = read_call env i st) [CEE_CALL, CEE_CALLI, CEE_CALLVIRT]"
  "list_all (\<lambda>op. \<forall>i. iOpcode i = op \<longrightarrow> read_opcode env i st = read_newobj env i st) [CEE_NEWOBJ]"
  "list_all (\<lambda>op. \<forall>i. iOpcode i = op \<longrightarrow> read_opcode env i st = Inr (emit ''breakOpcode'' [] st)) [CEE_BREAK]"
  "list_all (\<lambda>op. \<forall>i. iOpcode i = op \<longrightarrow> read_opcode env i st = Inr (emit ''nop'' [] st)) [CEE_NOP]"
  by (simp_all add: dispatch_defs)


lemma list_allD: "list_all P xs \<Longrightarrow> x \<in> set xs \<Longrightarrow> P x"
  by (simp add: list_all_iff)

lemma memory_groups:
  "list_all (\<lambda>op. op \<in> set memory_list) ldarg_ops"
  "list_all (\<lambda>op. op \<in> set memory_list) ldloc_ops"
  "list_all (\<lambda>op. op \<in> set memory_list) [CEE_LDARGA, CEE_LDARGA_S]"
  "list_all (\<lambda>op. op \<in> set memory_list) [CEE_LDLOCA, CEE_LDLOCA_S]"
  "list_all (\<lambda>op. op \<in> set memory_list) [CEE_LDC_I8]"
  "list_all (\<lambda>op. op \<in> set memory_list) [CEE_LDC_R4]"
  "list_all (\<lambda>op. op \<in> set memory_list) [CEE_LDC_R8]"
  "list_all (\<lambda>op. op \<in> set memory_list) ldc_i4_ops"
  "list_all (\<lambda>op. op \<in> set memory_list) [CEE_LDNULL]"
  "list_all (\<lambda>op. op \<in> set memory_list) [CEE_LDSTR]"
  "list_all (\<lambda>op. op \<in> set memory_list) [CEE_LDTOKEN]"
  "list_all (\<lambda>op. op \<in> set memory_list) [CEE_LDFTN]"
  "list_all (\<lambda>op. op \<in> set memory_list) [CEE_LDVIRTFTN]"
  "list_all (\<lambda>op. op \<in> set memory_list) [CEE_LDSFLD]"
  "list_all (\<lambda>op. op \<in> set memory_list) [CEE_LDSFLDA]"
  "list_all (\<lambda>op. op \<in> set memory_list) [CEE_STSFLD]"
  "list_all (\<lambda>op. op \<in> set memory_list) [CEE_LDFLD]"
  "list_all (\<lambda>op. op \<in> set memory_list) [CEE_LDFLDA]"
  "list_all (\<lambda>op. op \<in> set memory_list) [CEE_STFLD]"
  "list_all (\<lambda>op. op \<in> set memory_list) ldelem_ops"
  "list_all (\<lambda>op. op \<in> set memory_list) [CEE_LDELEMA]"
  "list_all (\<lambda>op. op \<in> set memory_list) stelem_ops"
  "list_all (\<lambda>op. op \<in> set memory_list) [CEE_LDLEN]"
  "list_all (\<lambda>op. op \<in> set memory_list) ldind_ops"
  "list_all (\<lambda>op. op \<in> set memory_list) stind_ops"
  "list_all (\<lambda>op. op \<in> set memory_list) stloc_ops"
  "list_all (\<lambda>op. op \<in> set memory_list) [CEE_STARG, CEE_STARG_S]"
  "list_all (\<lambda>op. op \<in> set memory_list) [CEE_LDOBJ]"
  "list_all (\<lambda>op. op \<in> set memory_list) [CEE_STOBJ]"
  "list_all (\<lambda>op. op \<in> set memory_list) [CEE_CPOBJ]"
  "list_all (\<lambda>op. op \<in> set memory_list) [CEE_INITOBJ]"
  "list_all (\<lambda>op. op \<in> set memory_list) [CEE_CPBLK]"
  "list_all (\<lambda>op. op \<in> set memory_list) [CEE_INITBLK]"
  by (simp_all add: memory_list_def table_memory_def op_groups)

lemma control_groups:
  "list_all (\<lambda>op. op \<in> set control_list) cond_branches"
  "list_all (\<lambda>op. op \<in> set control_list) bool_branches"
  "list_all (\<lambda>op. op \<in> set control_list) [CEE_BR, CEE_BR_S]"
  "list_all (\<lambda>op. op \<in> set control_list) [CEE_SWITCH]"
  "list_all (\<lambda>op. op \<in> set control_list) [CEE_LEAVE, CEE_LEAVE_S]"
  "list_all (\<lambda>op. op \<in> set control_list) [CEE_ENDFINALLY]"
  "list_all (\<lambda>op. op \<in> set control_list) [CEE_ENDFILTER]"
  "list_all (\<lambda>op. op \<in> set control_list) [CEE_THROW]"
  "list_all (\<lambda>op. op \<in> set control_list) [CEE_RETHROW]"
  "list_all (\<lambda>op. op \<in> set control_list) [CEE_JMP]"
  "list_all (\<lambda>op. op \<in> set control_list) [CEE_RET]"
  "list_all (\<lambda>op. op \<in> set control_list) [CEE_CALL, CEE_CALLI, CEE_CALLVIRT]"
  "list_all (\<lambda>op. op \<in> set control_list) [CEE_NEWOBJ]"
  "list_all (\<lambda>op. op \<in> set control_list) [CEE_BREAK]"
  by (simp_all add: control_list_def op_groups)

text \<open>An instruction whose row and whose reader are known does what the row says.\<close>

lemma value_does:
  assumes "list_all (\<lambda>op. find_row op (table_values env @ table_memory @ table_control env (iOpcode i) (il_token env i)) = r) ops"
    "list_all (\<lambda>op. \<forall>i. iOpcode i = op \<longrightarrow> read_opcode env i st = f i) ops" "iOpcode i \<in> set ops" "does r st (f i)"
  shows "does (il_row_of env i) st (read_opcode env i st)"
  using list_allD[OF assms(1,3)] list_allD[OF assms(2,3)] assms(4) by (simp add: il_row_of_def)

lemma memory_does:
  assumes "list_all (\<lambda>op. find_row op (table_memory @ table_control env (iOpcode i) (il_token env i)) = r) ops"
    "list_all (\<lambda>op. op \<in> set memory_list) ops"
    "list_all (\<lambda>op. \<forall>i. iOpcode i = op \<longrightarrow> read_opcode env i st = f i) ops" "iOpcode i \<in> set ops" "does r st (f i)"
  shows "does (il_row_of env i) st (read_opcode env i st)"
  using list_allD[OF assms(1,4)] list_allD[OF assms(2,4)] list_allD[OF assms(3,4)] assms(5) by (simp add: il_row_of_def find_memory)

lemma control_does:
  assumes "list_all (\<lambda>op. find_row op (table_control env (iOpcode i) (il_token env i) @ []) = r) ops"
    "list_all (\<lambda>op. op \<in> set control_list) ops"
    "list_all (\<lambda>op. \<forall>i. iOpcode i = op \<longrightarrow> read_opcode env i st = f i) ops" "iOpcode i \<in> set ops" "does r st (f i)"
  shows "does (il_row_of env i) st (read_opcode env i st)"
  using list_allD[OF assms(1,4)] list_allD[OF assms(2,4)] list_allD[OF assms(3,4)] assms(5) by (simp add: il_row_of_def find_control)

lemma does_values_ops:
  assumes "instr_ok env i"
  shows "iOpcode i \<in> set binary_ops \<Longrightarrow> does (il_row_of env i) st (read_opcode env i st)"
    "iOpcode i \<in> set shift_ops \<Longrightarrow> does (il_row_of env i) st (read_opcode env i st)"
    "iOpcode i \<in> set [CEE_NEG, CEE_NOT] \<Longrightarrow> does (il_row_of env i) st (read_opcode env i st)"
    "iOpcode i \<in> set compare_ops \<Longrightarrow> does (il_row_of env i) st (read_opcode env i st)"
    "iOpcode i \<in> set conv_ops \<Longrightarrow> does (il_row_of env i) st (read_opcode env i st)"
    "iOpcode i \<in> set [CEE_CKFINITE] \<Longrightarrow> does (il_row_of env i) st (read_opcode env i st)"
    "iOpcode i \<in> set [CEE_ARGLIST] \<Longrightarrow> does (il_row_of env i) st (read_opcode env i st)"
    "iOpcode i \<in> set [CEE_BOX] \<Longrightarrow> does (il_row_of env i) st (read_opcode env i st)"
    "iOpcode i \<in> set [CEE_CASTCLASS] \<Longrightarrow> does (il_row_of env i) st (read_opcode env i st)"
    "iOpcode i \<in> set [CEE_ISINST] \<Longrightarrow> does (il_row_of env i) st (read_opcode env i st)"
    "iOpcode i \<in> set [CEE_UNBOX] \<Longrightarrow> does (il_row_of env i) st (read_opcode env i st)"
    "iOpcode i \<in> set [CEE_UNBOX_ANY] \<Longrightarrow> does (il_row_of env i) st (read_opcode env i st)"
    "iOpcode i \<in> set [CEE_MKREFANY] \<Longrightarrow> does (il_row_of env i) st (read_opcode env i st)"
    "iOpcode i \<in> set [CEE_REFANYTYPE] \<Longrightarrow> does (il_row_of env i) st (read_opcode env i st)"
    "iOpcode i \<in> set [CEE_REFANYVAL] \<Longrightarrow> does (il_row_of env i) st (read_opcode env i st)"
    "iOpcode i \<in> set [CEE_NEWARR] \<Longrightarrow> does (il_row_of env i) st (read_opcode env i st)"
    "iOpcode i \<in> set [CEE_LOCALLOC] \<Longrightarrow> does (il_row_of env i) st (read_opcode env i st)"
    "iOpcode i \<in> set [CEE_SIZEOF] \<Longrightarrow> does (il_row_of env i) st (read_opcode env i st)"
    "iOpcode i \<in> set [CEE_DUP] \<Longrightarrow> does (il_row_of env i) st (read_opcode env i st)"
    "iOpcode i \<in> set [CEE_POP] \<Longrightarrow> does (il_row_of env i) st (read_opcode env i st)"
  subgoal by (insert assms, rule value_does[OF value_rows(1) dispatch_values(1)], assumption, rule does_values(1), (simp_all add: instr_ok_def)?)
  subgoal by (insert assms, rule value_does[OF value_rows(2) dispatch_values(2)], assumption, rule does_values(2), (simp_all add: instr_ok_def)?)
  subgoal by (insert assms, rule value_does[OF value_rows(3) dispatch_values(3)], assumption, rule does_values(3), (simp_all add: instr_ok_def)?)
  subgoal by (insert assms, rule value_does[OF value_rows(4) dispatch_values(4)], assumption, rule does_values(4), (simp_all add: instr_ok_def)?)
  subgoal by (insert assms, rule value_does[OF value_rows(5) dispatch_values(5)], assumption, rule does_values(5), (simp_all add: instr_ok_def)?)
  subgoal by (insert assms, rule value_does[OF value_rows(6) dispatch_values(6)], assumption, rule does_values(6), (simp_all add: instr_ok_def)?)
  subgoal by (insert assms, rule value_does[OF value_rows(7) dispatch_values(7)], assumption, rule does_consts(1), (simp_all add: instr_ok_def)?)
  subgoal by (insert assms, rule value_does[OF value_rows(8) dispatch_values(8)], assumption, rule does_value_tokens(1), (simp_all add: instr_ok_def)?)
  subgoal by (insert assms, rule value_does[OF value_rows(9) dispatch_values(9)], assumption, rule does_value_tokens(2), (simp_all add: instr_ok_def)?)
  subgoal by (insert assms, rule value_does[OF value_rows(10) dispatch_values(10)], assumption, rule does_value_tokens(3), (simp_all add: instr_ok_def)?)
  subgoal by (insert assms, rule value_does[OF value_rows(11) dispatch_values(11)], assumption, rule does_value_tokens(4), (simp_all add: instr_ok_def)?)
  subgoal by (insert assms, rule value_does[OF value_rows(12) dispatch_values(12)], assumption, rule does_value_tokens(5), (simp_all add: instr_ok_def)?)
  subgoal by (insert assms, rule value_does[OF value_rows(13) dispatch_values(13)], assumption, rule does_value_tokens(6), (simp_all add: instr_ok_def)?)
  subgoal by (insert assms, rule value_does[OF value_rows(14) dispatch_values(14)], assumption, rule does_value_tokens(7), (simp_all add: instr_ok_def)?)
  subgoal by (insert assms, rule value_does[OF value_rows(15) dispatch_values(15)], assumption, rule does_value_tokens(8), (simp_all add: instr_ok_def)?)
  subgoal by (insert assms, rule value_does[OF value_rows(16) dispatch_values(16)], assumption, rule does_value_tokens(9), (simp_all add: instr_ok_def)?)
  subgoal by (insert assms, rule value_does[OF value_rows(17) dispatch_values(17)], assumption, rule does_values(7), (simp_all add: instr_ok_def)?)
  subgoal by (insert assms, rule value_does[OF value_rows(18) dispatch_values(18)], assumption, rule does_value_tokens(10), (simp_all add: instr_ok_def)?)
  subgoal by (insert assms, rule value_does[OF value_rows(19) dispatch_values(19)], assumption, rule does_values(8), (simp_all add: instr_ok_def)?)
  subgoal by (insert assms, rule value_does[OF value_rows(20) dispatch_values(20)], assumption, rule does_values(9), (simp_all add: instr_ok_def)?)
  done

lemma does_memory_ops:
  assumes "instr_ok env i"
  shows "iOpcode i \<in> set ldarg_ops \<Longrightarrow> does (il_row_of env i) st (read_opcode env i st)"
    "iOpcode i \<in> set ldloc_ops \<Longrightarrow> does (il_row_of env i) st (read_opcode env i st)"
    "iOpcode i \<in> set [CEE_LDARGA, CEE_LDARGA_S] \<Longrightarrow> does (il_row_of env i) st (read_opcode env i st)"
    "iOpcode i \<in> set [CEE_LDLOCA, CEE_LDLOCA_S] \<Longrightarrow> does (il_row_of env i) st (read_opcode env i st)"
    "iOpcode i \<in> set [CEE_LDC_I8] \<Longrightarrow> does (il_row_of env i) st (read_opcode env i st)"
    "iOpcode i \<in> set [CEE_LDC_R4] \<Longrightarrow> does (il_row_of env i) st (read_opcode env i st)"
    "iOpcode i \<in> set [CEE_LDC_R8] \<Longrightarrow> does (il_row_of env i) st (read_opcode env i st)"
    "iOpcode i \<in> set ldc_i4_ops \<Longrightarrow> does (il_row_of env i) st (read_opcode env i st)"
    "iOpcode i \<in> set [CEE_LDNULL] \<Longrightarrow> does (il_row_of env i) st (read_opcode env i st)"
    "iOpcode i \<in> set [CEE_LDSTR] \<Longrightarrow> does (il_row_of env i) st (read_opcode env i st)"
    "iOpcode i \<in> set [CEE_LDTOKEN] \<Longrightarrow> does (il_row_of env i) st (read_opcode env i st)"
    "iOpcode i \<in> set [CEE_LDFTN] \<Longrightarrow> does (il_row_of env i) st (read_opcode env i st)"
    "iOpcode i \<in> set [CEE_LDVIRTFTN] \<Longrightarrow> does (il_row_of env i) st (read_opcode env i st)"
    "iOpcode i \<in> set [CEE_LDSFLD] \<Longrightarrow> does (il_row_of env i) st (read_opcode env i st)"
    "iOpcode i \<in> set [CEE_LDSFLDA] \<Longrightarrow> does (il_row_of env i) st (read_opcode env i st)"
    "iOpcode i \<in> set [CEE_STSFLD] \<Longrightarrow> does (il_row_of env i) st (read_opcode env i st)"
    "iOpcode i \<in> set [CEE_LDFLD] \<Longrightarrow> does (il_row_of env i) st (read_opcode env i st)"
    "iOpcode i \<in> set [CEE_LDFLDA] \<Longrightarrow> does (il_row_of env i) st (read_opcode env i st)"
    "iOpcode i \<in> set [CEE_STFLD] \<Longrightarrow> does (il_row_of env i) st (read_opcode env i st)"
    "iOpcode i \<in> set ldelem_ops \<Longrightarrow> does (il_row_of env i) st (read_opcode env i st)"
    "iOpcode i \<in> set [CEE_LDELEMA] \<Longrightarrow> does (il_row_of env i) st (read_opcode env i st)"
    "iOpcode i \<in> set stelem_ops \<Longrightarrow> does (il_row_of env i) st (read_opcode env i st)"
    "iOpcode i \<in> set [CEE_LDLEN] \<Longrightarrow> does (il_row_of env i) st (read_opcode env i st)"
    "iOpcode i \<in> set ldind_ops \<Longrightarrow> does (il_row_of env i) st (read_opcode env i st)"
    "iOpcode i \<in> set stind_ops \<Longrightarrow> does (il_row_of env i) st (read_opcode env i st)"
    "iOpcode i \<in> set stloc_ops \<Longrightarrow> does (il_row_of env i) st (read_opcode env i st)"
    "iOpcode i \<in> set [CEE_STARG, CEE_STARG_S] \<Longrightarrow> does (il_row_of env i) st (read_opcode env i st)"
    "iOpcode i \<in> set [CEE_LDOBJ] \<Longrightarrow> does (il_row_of env i) st (read_opcode env i st)"
    "iOpcode i \<in> set [CEE_STOBJ] \<Longrightarrow> does (il_row_of env i) st (read_opcode env i st)"
    "iOpcode i \<in> set [CEE_CPOBJ] \<Longrightarrow> does (il_row_of env i) st (read_opcode env i st)"
    "iOpcode i \<in> set [CEE_INITOBJ] \<Longrightarrow> does (il_row_of env i) st (read_opcode env i st)"
    "iOpcode i \<in> set [CEE_CPBLK] \<Longrightarrow> does (il_row_of env i) st (read_opcode env i st)"
    "iOpcode i \<in> set [CEE_INITBLK] \<Longrightarrow> does (il_row_of env i) st (read_opcode env i st)"
  subgoal by (insert assms, rule memory_does[OF memory_rows(1) memory_groups(1) dispatch_memory(1)], assumption, rule does_load_var(1), (simp_all add: instr_ok_def)?)
  subgoal by (insert assms, rule memory_does[OF memory_rows(2) memory_groups(2) dispatch_memory(2)], assumption, rule does_load_var(2), (simp_all add: instr_ok_def)?)
  subgoal by (insert assms, rule memory_does[OF memory_rows(3) memory_groups(3) dispatch_memory(3)], assumption, rule does_load_var(3), (simp_all add: instr_ok_def)?)
  subgoal by (insert assms, rule memory_does[OF memory_rows(4) memory_groups(4) dispatch_memory(4)], assumption, rule does_load_var(4), (simp_all add: instr_ok_def)?)
  subgoal by (insert assms, rule memory_does[OF memory_rows(5) memory_groups(5) dispatch_memory(5)], assumption, rule does_ldc(1), (simp_all add: instr_ok_def)?)
  subgoal by (insert assms, rule memory_does[OF memory_rows(6) memory_groups(6) dispatch_memory(6)], assumption, rule does_ldc(2), (simp_all add: instr_ok_def)?)
  subgoal by (insert assms, rule memory_does[OF memory_rows(7) memory_groups(7) dispatch_memory(7)], assumption, rule does_ldc(3), (simp_all add: instr_ok_def)?)
  subgoal by (insert assms, rule memory_does[OF memory_rows(8) memory_groups(8) dispatch_memory(8)], assumption, rule does_ldc(4), (simp_all add: instr_ok_def)?)
  subgoal by (insert assms, rule memory_does[OF memory_rows(9) memory_groups(9) dispatch_memory(9)], assumption, rule does_consts(2), (simp_all add: instr_ok_def)?)
  subgoal by (insert assms, rule memory_does[OF memory_rows(10) memory_groups(10) dispatch_memory(10)], assumption, rule does_memory_tokens(1), (simp_all add: instr_ok_def)?)
  subgoal by (insert assms, rule memory_does[OF memory_rows(11) memory_groups(11) dispatch_memory(11)], assumption, rule does_memory_tokens(4), (simp_all add: instr_ok_def)?)
  subgoal by (insert assms, rule memory_does[OF memory_rows(12) memory_groups(12) dispatch_memory(12)], assumption, rule does_memory_tokens(5), (simp_all add: instr_ok_def)?)
  subgoal by (insert assms, rule memory_does[OF memory_rows(13) memory_groups(13) dispatch_memory(13)], assumption, rule does_memory_tokens(6), (simp_all add: instr_ok_def)?)
  subgoal by (insert assms, rule memory_does[OF memory_rows(14) memory_groups(14) dispatch_memory(14)], assumption, rule does_memory_tokens(2), (simp_all add: instr_ok_def)?)
  subgoal by (insert assms, rule memory_does[OF memory_rows(15) memory_groups(15) dispatch_memory(15)], assumption, rule does_memory_tokens(3), (simp_all add: instr_ok_def)?)
  subgoal by (insert assms, rule memory_does[OF memory_rows(16) memory_groups(16) dispatch_memory(16)], assumption, rule does_memory_tokens(7), (simp_all add: instr_ok_def)?)
  subgoal by (insert assms, rule memory_does[OF memory_rows(17) memory_groups(17) dispatch_memory(17)], assumption, rule does_memory_tokens(8), (simp_all add: instr_ok_def)?)
  subgoal by (insert assms, rule memory_does[OF memory_rows(18) memory_groups(18) dispatch_memory(18)], assumption, rule does_memory_tokens(9), (simp_all add: instr_ok_def)?)
  subgoal by (insert assms, rule memory_does[OF memory_rows(19) memory_groups(19) dispatch_memory(19)], assumption, rule does_memory_tokens(10), (simp_all add: instr_ok_def)?)
  subgoal by (insert assms, rule memory_does[OF memory_rows(20) memory_groups(20) dispatch_memory(20)], assumption, rule does_elems(1), (simp_all add: instr_ok_def)?)
  subgoal by (insert assms, rule memory_does[OF memory_rows(21) memory_groups(21) dispatch_memory(21)], assumption, rule does_memory_tokens(15), (simp_all add: instr_ok_def)?)
  subgoal by (insert assms, rule memory_does[OF memory_rows(22) memory_groups(22) dispatch_memory(22)], assumption, rule does_elems(2), (simp_all add: instr_ok_def)?)
  subgoal by (insert assms, rule memory_does[OF memory_rows(23) memory_groups(23) dispatch_memory(23)], assumption, rule does_memory(3), (simp_all add: instr_ok_def)?)
  subgoal by (insert assms, rule memory_does[OF memory_rows(24) memory_groups(24) dispatch_memory(24)], assumption, rule does_memory(1), (simp_all add: instr_ok_def)?)
  subgoal by (insert assms, rule memory_does[OF memory_rows(25) memory_groups(25) dispatch_memory(25)], assumption, rule does_memory(2), (simp_all add: instr_ok_def)?)
  subgoal by (insert assms, rule memory_does[OF memory_rows(26) memory_groups(26) dispatch_memory(26)], assumption, rule does_store_var(1), (simp_all add: instr_ok_def)?)
  subgoal by (insert assms, rule memory_does[OF memory_rows(27) memory_groups(27) dispatch_memory(27)], assumption, rule does_store_var(2), (simp_all add: instr_ok_def)?)
  subgoal by (insert assms, rule memory_does[OF memory_rows(28) memory_groups(28) dispatch_memory(28)], assumption, rule does_memory_tokens(12), (simp_all add: instr_ok_def)?)
  subgoal by (insert assms, rule memory_does[OF memory_rows(29) memory_groups(29) dispatch_memory(29)], assumption, rule does_memory_tokens(11), (simp_all add: instr_ok_def)?)
  subgoal by (insert assms, rule memory_does[OF memory_rows(30) memory_groups(30) dispatch_memory(30)], assumption, rule does_memory_tokens(13), (simp_all add: instr_ok_def)?)
  subgoal by (insert assms, rule memory_does[OF memory_rows(31) memory_groups(31) dispatch_memory(31)], assumption, rule does_memory_tokens(14), (simp_all add: instr_ok_def)?)
  subgoal by (insert assms, rule memory_does[OF memory_rows(32) memory_groups(32) dispatch_memory(32)], assumption, rule does_memory(4), (simp_all add: instr_ok_def)?)
  subgoal by (insert assms, rule memory_does[OF memory_rows(33) memory_groups(33) dispatch_memory(33)], assumption, rule does_memory(5), (simp_all add: instr_ok_def)?)
  done

lemma does_control_ops:
  assumes "instr_ok env i"
  shows "iOpcode i \<in> set cond_branches \<Longrightarrow> does (il_row_of env i) st (read_opcode env i st)"
    "iOpcode i \<in> set bool_branches \<Longrightarrow> does (il_row_of env i) st (read_opcode env i st)"
    "iOpcode i \<in> set [CEE_BR, CEE_BR_S] \<Longrightarrow> does (il_row_of env i) st (read_opcode env i st)"
    "iOpcode i \<in> set [CEE_SWITCH] \<Longrightarrow> does (il_row_of env i) st (read_opcode env i st)"
    "iOpcode i \<in> set [CEE_LEAVE, CEE_LEAVE_S] \<Longrightarrow> does (il_row_of env i) st (read_opcode env i st)"
    "iOpcode i \<in> set [CEE_ENDFINALLY] \<Longrightarrow> does (il_row_of env i) st (read_opcode env i st)"
    "iOpcode i \<in> set [CEE_ENDFILTER] \<Longrightarrow> does (il_row_of env i) st (read_opcode env i st)"
    "iOpcode i \<in> set [CEE_THROW] \<Longrightarrow> does (il_row_of env i) st (read_opcode env i st)"
    "iOpcode i \<in> set [CEE_RETHROW] \<Longrightarrow> does (il_row_of env i) st (read_opcode env i st)"
    "iOpcode i \<in> set [CEE_JMP] \<Longrightarrow> does (il_row_of env i) st (read_opcode env i st)"
    "iOpcode i \<in> set [CEE_RET] \<Longrightarrow> does (il_row_of env i) st (read_opcode env i st)"
    "iOpcode i \<in> set [CEE_CALL, CEE_CALLI, CEE_CALLVIRT] \<Longrightarrow> does (il_row_of env i) st (read_opcode env i st)"
    "iOpcode i \<in> set [CEE_NEWOBJ] \<Longrightarrow> does (il_row_of env i) st (read_opcode env i st)"
    "iOpcode i \<in> set [CEE_BREAK] \<Longrightarrow> does (il_row_of env i) st (read_opcode env i st)"
  subgoal by (insert assms, rule control_does[OF control_rows(1) control_groups(1) dispatch_control(1)], assumption, rule does_control(1), (simp_all add: instr_ok_def)?)
  subgoal by (insert assms, rule control_does[OF control_rows(2) control_groups(2) dispatch_control(2)], assumption, rule does_control(2), (simp_all add: instr_ok_def)?)
  subgoal by (insert assms, rule control_does[OF control_rows(3) control_groups(3) dispatch_control(3)], assumption, rule does_control(3), (simp_all add: instr_ok_def)?)
  subgoal by (insert assms, rule control_does[OF control_rows(4) control_groups(4) dispatch_control(4)], assumption, rule does_switch, (simp_all add: instr_ok_def)?)
  subgoal by (insert assms, rule control_does[OF control_rows(5) control_groups(5) dispatch_control(5)], assumption, rule does_clear_token(2), (simp_all add: instr_ok_def)?)
  subgoal by (insert assms, rule control_does[OF control_rows(6) control_groups(6) dispatch_control(6)], assumption, rule does_drop(1), (simp_all add: instr_ok_def)?)
  subgoal by (insert assms, rule control_does[OF control_rows(7) control_groups(7) dispatch_control(7)], assumption, rule does_control(4), (simp_all add: instr_ok_def)?)
  subgoal by (insert assms, rule control_does[OF control_rows(8) control_groups(8) dispatch_control(8)], assumption, rule does_drop(3), (simp_all add: instr_ok_def)?)
  subgoal by (insert assms, rule control_does[OF control_rows(9) control_groups(9) dispatch_control(9)], assumption, rule does_drop(2), (simp_all add: instr_ok_def)?)
  subgoal by (insert assms, rule control_does[OF control_rows(10) control_groups(10) dispatch_control(10)], assumption, rule does_clear_token(1), (simp_all add: instr_ok_def)?)
  subgoal by (insert assms, rule control_does[OF control_rows(11) control_groups(11) dispatch_control(11)], assumption, rule does_control(5), (simp_all add: instr_ok_def)?)
  subgoal by (insert assms, rule control_does[OF control_rows(12) control_groups(12) dispatch_control(12)], assumption, rule does_call, (simp_all add: instr_ok_def)?)
  subgoal by (insert assms, rule control_does[OF control_rows(13) control_groups(13) dispatch_control(13)], assumption, rule does_newobj, (simp_all add: instr_ok_def)?)
  subgoal by (insert assms, rule control_does[OF control_rows(14) control_groups(14) dispatch_control(14)], assumption, rule does_consts(3), (simp_all add: instr_ok_def)?)
  done

lemma group_values: "list_all (\<lambda>op. op \<in> set binary_ops \<or> op \<in> set shift_ops \<or> op \<in> set [CEE_NEG, CEE_NOT] \<or> op \<in> set compare_ops \<or> op \<in> set conv_ops \<or> op \<in> set [CEE_CKFINITE] \<or> op \<in> set [CEE_ARGLIST] \<or> op \<in> set [CEE_BOX] \<or> op \<in> set [CEE_CASTCLASS] \<or> op \<in> set [CEE_ISINST] \<or> op \<in> set [CEE_UNBOX] \<or> op \<in> set [CEE_UNBOX_ANY] \<or> op \<in> set [CEE_MKREFANY] \<or> op \<in> set [CEE_REFANYTYPE] \<or> op \<in> set [CEE_REFANYVAL] \<or> op \<in> set [CEE_NEWARR] \<or> op \<in> set [CEE_LOCALLOC] \<or> op \<in> set [CEE_SIZEOF] \<or> op \<in> set [CEE_DUP] \<or> op \<in> set [CEE_POP]) (concat (map fst (table_values env)))"
  by (simp add: table_values_def op_groups)

lemma group_memory: "list_all (\<lambda>op. op \<in> set ldarg_ops \<or> op \<in> set ldloc_ops \<or> op \<in> set [CEE_LDARGA, CEE_LDARGA_S] \<or> op \<in> set [CEE_LDLOCA, CEE_LDLOCA_S] \<or> op \<in> set [CEE_LDC_I8] \<or> op \<in> set [CEE_LDC_R4] \<or> op \<in> set [CEE_LDC_R8] \<or> op \<in> set ldc_i4_ops \<or> op \<in> set [CEE_LDNULL] \<or> op \<in> set [CEE_LDSTR] \<or> op \<in> set [CEE_LDTOKEN] \<or> op \<in> set [CEE_LDFTN] \<or> op \<in> set [CEE_LDVIRTFTN] \<or> op \<in> set [CEE_LDSFLD] \<or> op \<in> set [CEE_LDSFLDA] \<or> op \<in> set [CEE_STSFLD] \<or> op \<in> set [CEE_LDFLD] \<or> op \<in> set [CEE_LDFLDA] \<or> op \<in> set [CEE_STFLD] \<or> op \<in> set ldelem_ops \<or> op \<in> set [CEE_LDELEMA] \<or> op \<in> set stelem_ops \<or> op \<in> set [CEE_LDLEN] \<or> op \<in> set ldind_ops \<or> op \<in> set stind_ops \<or> op \<in> set stloc_ops \<or> op \<in> set [CEE_STARG, CEE_STARG_S] \<or> op \<in> set [CEE_LDOBJ] \<or> op \<in> set [CEE_STOBJ] \<or> op \<in> set [CEE_CPOBJ] \<or> op \<in> set [CEE_INITOBJ] \<or> op \<in> set [CEE_CPBLK] \<or> op \<in> set [CEE_INITBLK]) memory_list"
  by (simp add: memory_list_def table_memory_def op_groups)

lemma group_control: "list_all (\<lambda>op. op \<in> set cond_branches \<or> op \<in> set bool_branches \<or> op \<in> set [CEE_BR, CEE_BR_S] \<or> op \<in> set [CEE_SWITCH] \<or> op \<in> set [CEE_LEAVE, CEE_LEAVE_S] \<or> op \<in> set [CEE_ENDFINALLY] \<or> op \<in> set [CEE_ENDFILTER] \<or> op \<in> set [CEE_THROW] \<or> op \<in> set [CEE_RETHROW] \<or> op \<in> set [CEE_JMP] \<or> op \<in> set [CEE_RET] \<or> op \<in> set [CEE_CALL, CEE_CALLI, CEE_CALLVIRT] \<or> op \<in> set [CEE_NEWOBJ] \<or> op \<in> set [CEE_BREAK] \<or> op = CEE_NOP \<or> op \<in> set prefix_ops) control_list"
  by (simp add: control_list_def op_groups)

lemma group_all: "list_all (\<lambda>op. op \<in> set (concat (map fst (table_values env))) \<or> op \<in> set memory_list \<or> op \<in> set control_list) (early_ops @ load_ops @ late_ops)"
  by (simp add: early_ops_def load_ops_def late_ops_def table_values_def memory_list_def table_memory_def control_list_def op_groups)

lemma tables_covered:
  "list_all (\<lambda>op. op \<in> set (early_ops @ load_ops @ late_ops)) (concat (map fst (table_values env)))"
  "list_all (\<lambda>op. op \<in> set (early_ops @ load_ops @ late_ops)) (concat (map fst table_memory))"
  "list_all (\<lambda>op. op \<in> set (early_ops @ load_ops @ late_ops)) (concat (map fst (table_control env op2 tok)))"
  by (simp_all add: early_ops_def load_ops_def late_ops_def table_values_def table_memory_def table_control_def op_groups)

lemma other_row: "op \<notin> set (early_ops @ load_ops @ late_ops) \<Longrightarrow> find_row op (table_values env @ table_memory @ table_control env op2 tok) = no_action"
proof -
  assume "op \<notin> set (early_ops @ load_ops @ late_ops)"
  then have "op \<notin> set (concat (map fst (table_values env)))" "op \<notin> set (concat (map fst table_memory))" "op \<notin> set (concat (map fst (table_control env op2 tok)))"
    using list_allD[OF tables_covered(1)] list_allD[OF tables_covered(2)] list_allD[OF tables_covered(3)] by blast+
  then show ?thesis using find_row_skip by (metis append_Nil2 find_row.simps(1))
qed

lemma silent_control: "find_row CEE_NOP (table_control env op2 tok) = no_action"
  "op \<in> set prefix_ops \<Longrightarrow> find_row op (table_control env op2 tok) = no_action"
proof -
  have "list_all (\<lambda>op. find_row op (table_control env op2 tok) = no_action) (CEE_NOP # prefix_ops)"
    by (simp add: table_control_def prefix_ops_def)
  then show "find_row CEE_NOP (table_control env op2 tok) = no_action"
    "op \<in> set prefix_ops \<Longrightarrow> find_row op (table_control env op2 tok) = no_action" by (auto simp: list_all_iff)
qed

lemma prefix_control: "op \<in> set prefix_ops \<Longrightarrow> op \<in> set control_list" "CEE_NOP \<in> set control_list"
  by (simp_all add: control_list_def)

lemma read_opcode_does:
  assumes "instr_ok env i" "iOpcode i \<notin> set prefix_ops"
  shows "does (il_row_of env i) st (read_opcode env i st)"
proof (cases "iOpcode i \<in> set (early_ops @ load_ops @ late_ops)")
  case False
  then have "read_opcode env i st = Inr st" "il_row_of env i = no_action"
    by (simp_all add: read_opcode_def Let_def il_row_of_def other_row)
  then show ?thesis by (simp add: step_defs)
next
  case True
  then consider "iOpcode i \<in> set (concat (map fst (table_values env)))" | "iOpcode i \<in> set memory_list" | "iOpcode i \<in> set control_list"
    using list_allD[OF group_all] by blast
  then show ?thesis
  proof cases
    case 1
    show ?thesis using list_allD[OF group_values 1] by - (elim disjE; (rule does_values_ops[OF assms(1)], assumption))
  next
    case 2
    show ?thesis using list_allD[OF group_memory 2] by - (elim disjE; (rule does_memory_ops[OF assms(1)], assumption))
  next
    case 3
    have "does (il_row_of env i) st (read_opcode env i st)" if "iOpcode i = CEE_NOP"
      using that dispatch_control(15)[of env st] does_consts(4) find_control[OF 3] silent_control(1) by (simp add: il_row_of_def)
    note nop = this
    show ?thesis using list_allD[OF group_control 3] assms(2)
      by - (elim disjE; ((rule does_control_ops[OF assms(1)], assumption) | (rule nop, assumption) | (erule notE, assumption)))
  qed
qed

subsection \<open>Prefixes and the loop\<close>

lemma abs_begin [simp]: "abs_state (begin_instr i st) = abs_state st"
  by (simp add: begin_instr_def abs_state_def emit_def call_event_eq helper_calls_def Let_def)

lemma abs_reset:
  assumes "iOpcode i \<notin> set prefix_ops"
  shows "abs_state (reset_prefixes (iOpcode i) st) = il_prefix env i (abs_state st)"
  using assms by (simp add: reset_prefixes_def il_prefix_def abs_state_def prefix_ops_def Reader_AlignNatural_def)

lemma read_prefix_step:
  assumes "instr_ok env i" "iOpcode i \<in> set prefix_ops"
  shows "\<exists>st'. read_opcode env i st = Inr st' \<and> abs_state st' = il_prefix env i (abs_state st)"
proof -
  have "list_all (\<lambda>op. \<forall>i. iOpcode i = op \<longrightarrow> read_opcode env i st = read_prefix env i st) prefix_ops" by (simp add: dispatch_defs)
  then have d: "read_opcode env i st = read_prefix env i st" using assms(2) by (auto simp: list_all_iff)
  have "operand_width CEE_UNALIGNED = 1" by (simp add: operand_width_def token_ops_def)
  then have u: "iOpcode i = CEE_UNALIGNED \<Longrightarrow> read_raw 1 env i k = k [ILInput env ! unat (the (iOperand i))]" for k :: "u8 list \<Rightarrow> ReaderState result"
    using assms(1) read_raw_op[of env i 1 k] by (auto simp: instr_ok_def readable_def take_Suc_conv_app_nth hd_drop_conv_nth take_Suc drop_eq_Nil split: option.splits)
  show ?thesis unfolding d using assms u
    by (auto simp: instr_ok_def prefix_ops_def read_prefix_def il_prefix_def abs_state_def tok)
qed

lemma read_instr_step:
  assumes "instr_ok env i"
  shows "case il_step env i (abs_state st) of None \<Rightarrow> read_instr env i st = Inl (AssertFailed ''stack underflow'')
     | Some s \<Rightarrow> \<exists>st'. read_instr env i st = Inr st' \<and> abs_state st' = s"
proof -
  have g: "array_get ''OpcodeRemap'' OpcodeRemap (iOpcode i) = Inr (OpcodeRemap ! iOpcode i)" using assms by (simp add: instr_ok_def)
  show ?thesis
  proof (cases "iOpcode i \<in> set prefix_ops")
    case True
    obtain st' where st': "read_opcode env i (begin_instr i st) = Inr st'" "abs_state st' = il_prefix env i (abs_state st)"
      using read_prefix_step[OF assms True, of "begin_instr i st"] by auto
    have "il_row_of env i = no_action"
      using True find_control prefix_control silent_control(2) by (simp add: il_row_of_def)
    then have "il_step env i (abs_state st) = Some (il_prefix env i (abs_state st))" by (simp add: il_step_def il_exec_def no_action_def row_def dispose_def act_def)
    then show ?thesis using st' g True by (simp add: read_instr_def reset_prefixes_def)
  next
    case False
    have "does (il_row_of env i) (begin_instr i st) (read_opcode env i (begin_instr i st))" by (rule read_opcode_does[OF assms False])
    then show ?thesis using g abs_reset[OF False] by (auto simp: does_def il_step_def read_instr_def split: option.splits)
  qed
qed

end
