(* ===== verification/ReaderLoopProperties.thy ===== *)
theory ReaderLoopProperties
  imports ReaderLoopCorrect
begin

section \<open>The reader loop as a whole\<close>

text \<open>
  From one instruction to a block: the decoder's laws give that the loop runs through the block and that the
  operands are in the buffer, and the simulation of one instruction gives that of the loop.
\<close>

text \<open>What the engine promises of the method: the operand of an opcode is as long as the loop takes it to be,
  the code is not so long that an offset wraps around, and it has no byte pair on which the decoder leaves its
  table.\<close>

definition env_ok :: "LoopEnv \<Rightarrow> bool" where
  "env_ok env \<longleftrightarrow> opargs_wf (OpcodeArgs env) \<and> (\<forall>op. op \<noteq> CEE_SWITCH \<longrightarrow> int (operand_width op) \<le> operandSize (OpcodeArgs env op))
     \<and> length (ILInput env) + 8 < 2 ^ 32 \<and> switches_fit (OpcodeArgs env) (ILInput env)
     \<and> (\<forall>k. Suc k < length (ILInput env) \<longrightarrow> ILInput env ! k = 0xFE \<longrightarrow> ILInput env ! Suc k \<noteq> 33)"

fun block_decodes :: "LoopEnv \<Rightarrow> u32 \<Rightarrow> u32 \<Rightarrow> Instr list \<Rightarrow> bool" where
  "block_decodes env off EndOffset [] \<longleftrightarrow> \<not> off < EndOffset"
| "block_decodes env off EndOffset (i # is) \<longleftrightarrow> off < EndOffset
     \<and> (case parseILOpcode (OpcodeArgs env) (ILInput env) off (ILSize env) True of Inl e \<Rightarrow> False
        | Inr r \<Rightarrow> i = \<lparr>iOpcode = opcode r, iOperand = operand r, CurrentOffset = off, NextOffset = next_offset r\<rparr>
            \<and> block_decodes env (next_offset r) EndOffset is)"

lemma env_size: "env_ok env \<Longrightarrow> unat (ILSize env) = length (ILInput env)"
  by (simp add: env_ok_def ILSize_def unat_of_nat_u32)

lemma env_parses:
  assumes "env_ok env"
  shows "\<exists>r. parseILOpcode (OpcodeArgs env) (ILInput env) off (ILSize env) rep = Inr r"
proof -
  have "\<not> (\<exists>e. parseILOpcode (OpcodeArgs env) (ILInput env) off (ILSize env) rep = Inl e)"
    using parseILOpcode_fault_iff[of "OpcodeArgs env" "ILInput env" "ILSize env" off rep] assms env_size[OF assms]
    by (auto simp: env_ok_def)
  then show ?thesis by (metis old.sum.exhaust)
qed

lemma env_switch_fits:
  assumes "env_ok env" "off < ILSize env" "parseILOpcode (OpcodeArgs env) (ILInput env) off (ILSize env) True = Inr r"
  shows "switch_fits (ILInput env) r"
  using switches_fitD[OF _ env_size[OF assms(1), symmetric] assms(2,3)] assms(1) by (simp add: env_ok_def)

lemma env_next:
  assumes "env_ok env" "parseILOpcode (OpcodeArgs env) (ILInput env) off (ILSize env) True = Inr r" "off < ILSize env"
  shows "unat off < unat (next_offset r) \<and> unat (next_offset r) \<le> length (ILInput env)"
  using parseILOpcode_progress[of "OpcodeArgs env" "ILInput env" "ILSize env" off r] assms env_size[OF assms(1)] env_switch_fits[OF assms(1,3,2)]
  by (simp add: env_ok_def)

lemma parse_silent:
  "parseILOpcode opargs buf off sz False = rbind (parseILOpcode opargs buf off sz True)
     (\<lambda>r. Inr (if report r = None then r else r\<lparr>opcode := CEE_NOP, operand := Some off, report := None\<rparr>))"
proof -
  have "parse_operand opargs buf off sz False cur op = rbind (parse_operand opargs buf off sz True cur op)
     (\<lambda>r. Inr (if report r = None then r else r\<lparr>opcode := CEE_NOP, operand := Some off, report := None\<rparr>))" for cur op
    by (cases "getMSILInstrLength opargs op buf cur") (simp_all add: parse_operand_def parse_failure_def)
  then show ?thesis
    by (cases "read_byte buf off"; cases "read_byte buf (off + 1)"; cases "prefixed_opcode (projr (read_byte buf (off + 1)))")
      (simp_all add: parseILOpcode_def parse_failure_def)
qed

lemma skip_total:
  assumes "env_ok env" "length (ILInput env) - unat off < fuel"
  shows "\<exists>x. skip_to_ret fuel env off n = Some (Inr x)"
  using assms(2)
proof (induction fuel arbitrary: off n)
  case (Suc fuel)
  obtain r where r: "parseILOpcode (OpcodeArgs env) (ILInput env) off (ILSize env) True = Inr r" using env_parses[OF assms(1)] by blast
  obtain r' where r': "parseILOpcode (OpcodeArgs env) (ILInput env) off (ILSize env) False = Inr r'" "next_offset r' = next_offset r"
    using parse_silent[of "OpcodeArgs env" "ILInput env" off "ILSize env"] r by simp
  have "\<exists>x. skip_to_ret fuel env (next_offset r') m = Some (Inr x)" if "next_offset r' < ILSize env" for m
  proof -
    have "off < ILSize env"
    proof (rule ccontr)
      assume "\<not> off < ILSize env"
      then have "next_offset r = ILSize env" using r by (auto simp: parseILOpcode_def parse_failure_def not_less)
      then show False using that r' by simp
    qed
    then have "unat off < unat (next_offset r)" using env_next[OF assms(1) r] by blast
    moreover have "unat off < length (ILInput env)" using \<open>off < ILSize env\<close> env_size[OF assms(1)] by (simp add: word_less_nat_alt)
    ultimately show ?thesis using Suc r' by simp
  qed
  then show ?case using r'(1) by auto
qed simp

lemma env_tail_scan:
  assumes "env_ok env"
  shows "tail_scan_ok env i"
proof -
  obtain op n where "skip_to_ret (Suc (length (ILInput env))) env (NextOffset i) 0 = Some (Inr (op, n))"
    using skip_total[OF assms, of "NextOffset i" "Suc (length (ILInput env))" 0] by (metis diff_le_self le_imp_less_Suc prod.exhaust)
  then show ?thesis
    by (auto simp: tail_scan_ok_def isUnmarkedTailCall_def simp del: skip_to_ret.simps)
qed

lemma ByteCodes_bound: "list_all (\<lambda>op. op < 292) ByteCodes"
  by (simp add: ByteCodes_def)

lemma PrefixedByteCodes_bound: "list_all (\<lambda>op. op < 292) PrefixedByteCodes"
  by (simp add: PrefixedByteCodes_def)

lemma prefixed_opcode_bound: "prefixed_opcode b = Inr op \<Longrightarrow> op < 292"
  using PrefixedByteCodes_bound by (auto simp: prefixed_opcode_def list_all_length split: if_splits)

lemma ByteCodes_nth_bound: "ByteCodes ! unat (w :: u8) < 292"
  using ByteCodes_bound unat_bound_u8[of w] by (simp add: list_all_length)

lemma parse_operand_opcode:
  "parse_operand opargs buf off sz True cur op = Inr r \<Longrightarrow> opcode r = op \<or> opcode r = CEE_ILLEGAL"
  by (auto simp: parse_operand_def parse_failure_def rbind_eq_Inr_iff split: if_splits)

lemma parse_opcode_bound:
  assumes "parseILOpcode opargs buf off sz True = Inr r"
  shows "opcode r < 292"
proof -
  have op: "opcode r < 292" if "parse_operand opargs buf off sz True cur op = Inr r" "op < 292" for cur op
    using parse_operand_opcode[OF that(1)] that(2) by auto
  show ?thesis
  proof (cases "off \<ge> sz")
    case True
    then show ?thesis using assms by (auto simp: parseILOpcode_def parse_failure_def)
  next
    case False
    then obtain b where b: "read_byte buf off = Inr b" using assms by (auto simp: parseILOpcode_def rbind_eq_Inr_iff)
    show ?thesis
    proof (cases "b = 0xFE")
      case True
      then show ?thesis using assms False b
        by (auto simp: parseILOpcode_def rbind_eq_Inr_iff parse_failure_def split: if_splits
            dest!: op dest: prefixed_opcode_bound)
    next
      case nb: False
      have "parse_operand opargs buf off sz True (off + 1) (ByteCodes ! unat b) = Inr r"
        using assms False b nb by (simp add: parseILOpcode_def)
      then show ?thesis by (rule op) (rule ByteCodes_nth_bound)
    qed
  qed
qed

lemma decoded_ok:
  assumes "env_ok env" "parseILOpcode (OpcodeArgs env) (ILInput env) off (ILSize env) True = Inr r" "off < ILSize env"
    "has_cases env \<lparr>iOpcode = opcode r, iOperand = operand r, CurrentOffset = off, NextOffset = next_offset r\<rparr>"
  shows "instr_ok env \<lparr>iOpcode = opcode r, iOperand = operand r, CurrentOffset = off, NextOffset = next_offset r\<rparr>"
proof -
  have "readable env \<lparr>iOpcode = opcode r, iOperand = operand r, CurrentOffset = off, NextOffset = next_offset r\<rparr>"
  proof (cases "report r = None")
    case True
    obtain cur where c: "operand r = Some cur" "unat (next_offset r) = unat cur + operand_bytes (OpcodeArgs env) (ILInput env) (opcode r) cur"
       "unat (next_offset r) \<le> length (ILInput env)"
      using parseILOpcode_next[of "OpcodeArgs env" "ILInput env" "ILSize env" off r] assms(1,2) True env_size[OF assms(1)] env_switch_fits[OF assms(1,3,2)]
      by (auto simp: env_ok_def)
    have "operand_width (opcode r) \<le> operand_bytes (OpcodeArgs env) (ILInput env) (opcode r) cur"
    proof (cases "opcode r = CEE_SWITCH")
      case True
      then show ?thesis by (simp add: operand_bytes_def operand_width_def token_ops_def)
    next
      case False
      then have "int (operand_width (opcode r)) \<le> operandSize (OpcodeArgs env (opcode r))" using assms(1) by (simp add: env_ok_def)
      then show ?thesis using False by (simp add: operand_bytes_def)
    qed
    then show ?thesis using c by (simp add: readable_def)
  next
    case False
    then show ?thesis using parseILOpcode_failure[OF assms(2) False] by (simp add: readable_def operand_width_def token_ops_def)
  qed
  then show ?thesis using assms(4) env_tail_scan[OF assms(1)] parse_opcode_bound[OF assms(2)] by (simp add: instr_ok_def)
qed

lemma read_loop_run:
  assumes "env_ok env" "EndOffset \<le> ILSize env" "block_decodes env off EndOffset is" "\<forall>i \<in> set is. has_cases env i" "length is < fuel"
  shows "case il_run env is (abs_state st) of None \<Rightarrow> read_loop fuel env EndOffset off st = Some (Inl (AssertFailed ''stack underflow''))
     | Some s \<Rightarrow> \<exists>st'. read_loop fuel env EndOffset off st = Some (Inr st') \<and> abs_state st' = s"
  using assms(3-5)
proof (induction "is" arbitrary: off st fuel)
  case Nil
  then show ?case by (cases fuel) auto
next
  case (Cons i "is")
  then obtain f where f: "fuel = Suc f" by (cases fuel) auto
  obtain r where r: "parseILOpcode (OpcodeArgs env) (ILInput env) off (ILSize env) True = Inr r" "off < EndOffset"
     "i = \<lparr>iOpcode = opcode r, iOperand = operand r, CurrentOffset = off, NextOffset = next_offset r\<rparr>" "block_decodes env (next_offset r) EndOffset is"
    using Cons.prems(1) by (cases "parseILOpcode (OpcodeArgs env) (ILInput env) off (ILSize env) True") auto
  have ok: "instr_ok env i" using decoded_ok[OF assms(1) r(1)] r(2,3) assms(2) Cons.prems(2) by (simp add: order_less_le_trans)
  show ?case
  proof (cases "il_step env i (abs_state st)")
    case None
    then show ?thesis using read_instr_step[OF ok, of st] r f by simp
  next
    case (Some s)
    then obtain st' where st': "read_instr env i st = Inr st'" "abs_state st' = s" using read_instr_step[OF ok, of st] by auto
    have "case il_run env is s of None \<Rightarrow> read_loop f env EndOffset (next_offset r) st' = Some (Inl (AssertFailed ''stack underflow''))
       | Some s \<Rightarrow> \<exists>st. read_loop f env EndOffset (next_offset r) st' = Some (Inr st) \<and> abs_state st = s"
      using Cons.IH[OF r(4), of f st'] Cons.prems f st'(2) by simp
    moreover have "read_loop fuel env EndOffset off st = read_loop f env EndOffset (next_offset r) st'"
      using f r st'(1) by simp
    ultimately show ?thesis using Some by (cases "il_run env is s") simp_all
  qed
qed

lemma block_decodes_exists:
  assumes "env_ok env" "EndOffset \<le> ILSize env"
  shows "\<exists>is. block_decodes env off EndOffset is \<and> length is \<le> length (ILInput env) - unat off"
proof (induction "length (ILInput env) - unat off" arbitrary: off rule: less_induct)
  case less
  show ?case
  proof (cases "off < EndOffset")
    case False
    then show ?thesis by (intro exI[of _ "[]"]) simp
  next
    case True
    obtain r where r: "parseILOpcode (OpcodeArgs env) (ILInput env) off (ILSize env) True = Inr r" using env_parses[OF assms(1)] by blast
    have lt: "off < ILSize env" using True assms(2) by simp
    have n: "unat off < unat (next_offset r)" "unat off < length (ILInput env)"
      using env_next[OF assms(1) r lt] lt env_size[OF assms(1)] by (auto simp: word_less_nat_alt)
    then obtain "is" where "block_decodes env (next_offset r) EndOffset is" "length is \<le> length (ILInput env) - unat (next_offset r)"
      using less[of "next_offset r"] diff_less_mono2 by blast
    then show ?thesis using True r n by (intro exI[of _ "\<lparr>iOpcode = opcode r, iOperand = operand r, CurrentOffset = off, NextOffset = next_offset r\<rparr> # is"]) simp
  qed
qed


definition il_start :: "IRNode list \<Rightarrow> nat \<Rightarrow> il_state" where
  "il_start stack n = abs_state (block_start stack n)"

lemma il_start_eq: "abs_state (emit ''beginFlowGraphNode'' args (block_start stack n)) = il_start stack n"
  by (simp add: il_start_def abs_state_def emit_def block_start_def call_event_def helper_calls_def)

lemma block_end:
  "abs_state (maintain_and_clear (emit ''endFlowGraphNode'' args st))
   = (abs_state st)\<lparr>il_stack := [], il_log := il_log (abs_state st) @ pass_on (il_stack (abs_state st))\<rparr>"
  by (simp add: maintain_and_clear_def abs_state_def emit_def call_event_def helper_calls_def pass_on_def in_order_def mem_args_def
      arg_nodes_def is_node_def)

text \<open>An operand table in which every opcode has exactly the bytes that the loop reads.\<close>

definition width_opargs :: "OPCODE \<Rightarrow> InlineKind" where
  "width_opargs op = (if op = CEE_SWITCH then InlineSwitch else if operand_width op = 8 then InlineI8
     else if operand_width op = 4 then InlineI else if operand_width op = 2 then InlineVar
     else if operand_width op = 1 then ShortInlineI else InlineNone)"

lemma operand_width_cases: "operand_width op \<in> {0, 1, 2, 4, 8}"
  by (simp add: operand_width_def)

lemma width_opargs_fits: "op \<noteq> CEE_SWITCH \<Longrightarrow> int (operand_width op) \<le> operandSize (width_opargs op)"
  using operand_width_cases[of op] by (auto simp: width_opargs_def)

lemma width_opargs_wf: "opargs_wf width_opargs"
  by (simp add: opargs_wf_def width_opargs_def)

definition sample_env :: LoopEnv where
  "sample_env = \<lparr>ILInput = [0x0E, 1, 0x17, 0x58, 0x2A], OpcodeArgs = width_opargs, CallPops = (\<lambda>_ _. 0), CallReturns = (\<lambda>_ _. False),
     ReturnsVoid = False, IsSynchronized = False, IsZeroInitLocals = True, DoTailCall = True, IsReadyToRun = False,
     IsDirectCall = (\<lambda>_. True), TargetRet = (\<lambda>_. (CORINFO_TYPE_INT, None)), CurrentRet = (CORINFO_TYPE_INT, None), CurrentRegion = None\<rparr>"

lemma sample_env_ok: "env_ok sample_env"
proof -
  have "switches_fit width_opargs [0x0E, 1, 0x17, 0x58, 0x2A]"
    by (simp add: switches_fit_def switch_fits_def parse_eval width_opargs_def operand_width_def token_ops_def upt_rec)
  then show ?thesis
    by (auto simp: env_ok_def sample_env_def width_opargs_wf width_opargs_fits nth_Cons')
qed



end
