(* ===== verification/ReaderWalk.thy ===== *)
theory ReaderWalk
  imports FlowGraph
begin

section \<open>Visiting the blocks\<close>

text \<open>
  The part of \<open>ReaderBase::msilToIR\<close> (lib/Reader/reader.cpp) behind the construction of the flow graph: a
  depth-first walk marks the blocks that can be reached from the first one, the marked blocks are listed in
  the order of the function, and each is read. Reading a block may create blocks: successors that are not
  marked yet are put behind the block in the list. The edges are those of GenIR (lib/Reader/readerir.cpp): the
  successors of the terminator and, first, the pad of the handler of the region the block is in, which is a
  nominal edge, as is every edge to a pad.
\<close>

subsection \<open>Edges\<close>

fun term_succs :: "FlowGraph \<Rightarrow> Terminator \<Rightarrow> node list" where
  "term_succs s (Br n) = [n]"
| "term_succs s (CondBr t f) = t # (case f of None \<Rightarrow> [] | Some n \<Rightarrow> [n])"
| "term_succs s (SwitchBr d cs) = d # map snd cs"
| "term_succs s (FinallySwitch r) = (case UnreachableContinuationBlock s of None \<Rightarrow> [] | Some d \<Rightarrow> [d])
     @ (case EndFinallySwitch (Pads s ! r) of None \<Rightarrow> [] | Some d \<Rightarrow> map snd (Cases d))"
| "term_succs s (CatchSwitchBr hs u) = (case u of None \<Rightarrow> [] | Some n \<Rightarrow> [n]) @ hs"
| "term_succs s (CleanupRet p u) = (case u of None \<Rightarrow> [] | Some n \<Rightarrow> [n])"
| "term_succs s UnreachableInst = []"
| "term_succs s NoTerm = []"

definition nominal_succ :: "FlowGraph \<Rightarrow> node \<Rightarrow> node list" where
  "nominal_succ s n = (case Region (Nodes s ! n) of None \<Rightarrow> []
     | Some r \<Rightarrow> (case HandlerEHPad (Pads s ! r) of None \<Rightarrow> [] | Some p \<Rightarrow> [p]))"

definition fgNodeGetSuccessors :: "FlowGraph \<Rightarrow> node \<Rightarrow> node list" where
  "fgNodeGetSuccessors s n = nominal_succ s n @ term_succs s (Term (Nodes s ! n))"

definition fgEdgeIsNominal :: "FlowGraph \<Rightarrow> node \<Rightarrow> bool" where
  "fgEdgeIsNominal s sink \<longleftrightarrow> Pad (Nodes s ! sink) \<noteq> NoPad"

definition fgNodeGetSuccessorsActual :: "FlowGraph \<Rightarrow> node \<Rightarrow> node list" where
  "fgNodeGetSuccessorsActual s n = filter (\<lambda>x. \<not> fgEdgeIsNominal s x) (fgNodeGetSuccessors s n)"

text \<open>The predecessors of a node are the blocks of the uses of the node in terminators, one for each use. Their
  order, which is that of the list of uses, matters to none of the callers.\<close>

definition fgNodeGetPredecessors :: "FlowGraph \<Rightarrow> node \<Rightarrow> node list" where
  "fgNodeGetPredecessors s n = concat (map (\<lambda>b. replicate (count_list (term_succs s (Term (Nodes s ! b))) n) b) [0..<length (Nodes s)])"

definition fgNodeGetPredecessorsActual :: "FlowGraph \<Rightarrow> node \<Rightarrow> node list" where
  "fgNodeGetPredecessorsActual s n = (if fgEdgeIsNominal s n then [] else fgNodeGetPredecessors s n)"

definition fgNodePropagatesOperandStack :: "FlowGraph \<Rightarrow> node \<Rightarrow> bool" where
  "fgNodePropagatesOperandStack s n = PropagatesOperandStack (Nodes s ! n)"

definition fgNodeHasMultiplePredsPropagatingStack :: "FlowGraph \<Rightarrow> node \<Rightarrow> bool" where
  "fgNodeHasMultiplePredsPropagatingStack s n =
     (length (filter (fgNodePropagatesOperandStack s) (fgNodeGetPredecessorsActual s n)) > 1)"

definition fgNodeHasNoPredsPropagatingStack :: "FlowGraph \<Rightarrow> node \<Rightarrow> bool" where
  "fgNodeHasNoPredsPropagatingStack s n = list_all (\<lambda>p. \<not> fgNodePropagatesOperandStack s p) (fgNodeGetPredecessorsActual s n)"

subsection \<open>The walk\<close>

record Walk =
  IsVisited :: "node set"
  Worklist :: "node list"

text \<open>The loop over the successors asserts that a block which is not visited is not on the worklist.\<close>

fun prepend_unvisited :: "node list \<Rightarrow> Walk \<Rightarrow> Walk result" where
  "prepend_unvisited [] w = Inr w"
| "prepend_unvisited (x # xs) w =
     (if x \<in> IsVisited w then prepend_unvisited xs w
      else if x \<in> set (Worklist w) then Inl (AssertFailed ''block is on the worklist twice'')
      else prepend_unvisited xs \<lparr>IsVisited = insert x (IsVisited w), Worklist = x # Worklist w\<rparr>)"

definition fgPrependUnvisitedSuccToWorklist :: "FlowGraph \<Rightarrow> node \<Rightarrow> Walk \<Rightarrow> Walk result" where
  "fgPrependUnvisitedSuccToWorklist s CurrBlock w = prepend_unvisited (fgNodeGetSuccessors s CurrBlock) w"

fun walk_loop :: "nat \<Rightarrow> FlowGraph \<Rightarrow> Walk \<Rightarrow> node set result option" where
  "walk_loop 0 s w = None"
| "walk_loop (Suc fuel) s w =
     (case Worklist w of [] \<Rightarrow> Some (Inr (IsVisited w))
      | Block # Next \<Rightarrow>
          (case fgPrependUnvisitedSuccToWorklist s Block (w\<lparr>Worklist := Next\<rparr>) of
             Inl e \<Rightarrow> Some (Inl e) | Inr w \<Rightarrow> walk_loop fuel s w))"

definition visit_reachable :: "nat \<Rightarrow> FlowGraph \<Rightarrow> node \<Rightarrow> node set result option" where
  "visit_reachable fuel s FgHead = walk_loop fuel s \<lparr>IsVisited = {FgHead}, Worklist = [FgHead]\<rparr>"

text \<open>The visited blocks in the order of the function, with the assertion that the offsets do not go back.\<close>

fun msil_order :: "FlowGraph \<Rightarrow> node set \<Rightarrow> u32 \<Rightarrow> node list \<Rightarrow> node list result" where
  "msil_order s V LastInsertedInOrderBlockEndOffset [] = Inr []"
| "msil_order s V LastInsertedInOrderBlockEndOffset (b # bs) =
     (if b \<in> V
      then if LastInsertedInOrderBlockEndOffset \<le> StartMSILOffset (Nodes s ! b)
           then rbind (msil_order s V (EndMSILOffset (Nodes s ! b)) bs) (\<lambda>order. Inr (b # order))
           else Inl (AssertFailed ''MSIL offset order'')
      else msil_order s V LastInsertedInOrderBlockEndOffset bs)"

text \<open>The successors of a block that has been read. The iterator stays at the block, so a block that is found
  later goes before one that was found earlier.\<close>

fun insert_new_successors :: "FlowGraph \<Rightarrow> node \<Rightarrow> node list \<Rightarrow> node set \<times> node list \<Rightarrow> (node set \<times> node list) result" where
  "insert_new_successors s CurrentNode [] vr = Inr vr"
| "insert_new_successors s CurrentNode (x # xs) (V, rest) =
     (if x \<in> V then insert_new_successors s CurrentNode xs (V, rest)
      else if fgNodeHasMultiplePredsPropagatingStack s x then Inl (AssertFailed ''multiple predecessors'')
      else if \<not> (fgNodePropagatesOperandStack s CurrentNode \<or> fgNodeHasNoPredsPropagatingStack s x)
      then Inl (AssertFailed ''propagating predecessor'')
      else insert_new_successors s CurrentNode xs (insert x V, x # rest))"

text \<open>The loop over the list; it returns the blocks read, each with the graph that reading it left. \<open>read\<close>
  is \<open>readBytesForFlowGraphNode\<close>, as far as it changes the graph.\<close>

fun read_blocks :: "nat \<Rightarrow> (node \<Rightarrow> FlowGraph \<Rightarrow> FlowGraph result) \<Rightarrow> FlowGraph \<Rightarrow> node set \<Rightarrow> node list
    \<Rightarrow> (node \<times> FlowGraph) list result option" where
  "read_blocks 0 read s V order = None"
| "read_blocks (Suc fuel) read s V [] = Some (Inr [])"
| "read_blocks (Suc fuel) read s V (CurrentNode # rest) =
     (case read CurrentNode s of Inl e \<Rightarrow> Some (Inl e)
      | Inr s \<Rightarrow>
          (case insert_new_successors s CurrentNode (fgNodeGetSuccessors s CurrentNode) (V, rest) of Inl e \<Rightarrow> Some (Inl e)
           | Inr (V, rest) \<Rightarrow> map_option (\<lambda>r. rbind r (\<lambda>tr. Inr ((CurrentNode, s) # tr))) (read_blocks fuel read s V rest)))"

text \<open>\<open>Layout\<close> is the list of the blocks of the function from the first one on, as \<open>fgNodeGetNext\<close> goes through
  it.\<close>

definition msilToIR_blocks :: "nat \<Rightarrow> (node \<Rightarrow> FlowGraph \<Rightarrow> FlowGraph result) \<Rightarrow> FlowGraph \<Rightarrow> node \<Rightarrow> node list
    \<Rightarrow> (node \<times> FlowGraph) list result option" where
  "msilToIR_blocks fuel read s FgHead Layout =
     (case visit_reachable fuel s FgHead of None \<Rightarrow> None | Some (Inl e) \<Rightarrow> Some (Inl e)
      | Some (Inr V) \<Rightarrow>
          (case msil_order s V 0 Layout of Inl e \<Rightarrow> Some (Inl e) | Inr order \<Rightarrow> read_blocks fuel read s V order))"

subsection \<open>The walk finds the reachable blocks\<close>

definition flow_edges :: "FlowGraph \<Rightarrow> (node \<times> node) set" where
  "flow_edges s = {(a, b). b \<in> set (fgNodeGetSuccessors s a)}"

definition reachable :: "FlowGraph \<Rightarrow> node \<Rightarrow> node \<Rightarrow> bool" where
  "reachable s h n \<longleftrightarrow> (h, n) \<in> (flow_edges s)\<^sup>*"

definition graph_closed :: "FlowGraph \<Rightarrow> bool" where
  "graph_closed s = list_all (\<lambda>n. list_all (\<lambda>x. x < length (Nodes s)) (fgNodeGetSuccessors s n)) [0..<length (Nodes s)]"

definition walk_inv :: "FlowGraph \<Rightarrow> node \<Rightarrow> Walk \<Rightarrow> bool" where
  "walk_inv s h w \<longleftrightarrow> h \<in> IsVisited w \<and> set (Worklist w) \<subseteq> IsVisited w \<and> (\<forall>n \<in> IsVisited w. reachable s h n \<and> n < length (Nodes s))
     \<and> (\<forall>n \<in> IsVisited w - set (Worklist w). set (fgNodeGetSuccessors s n) \<subseteq> IsVisited w)"

lemma graph_closedD: "graph_closed s \<Longrightarrow> n < length (Nodes s) \<Longrightarrow> x \<in> set (fgNodeGetSuccessors s n) \<Longrightarrow> x < length (Nodes s)"
  by (auto simp: graph_closed_def list_all_iff)

lemma card_Un_new:
  assumes "set new = X - V" "distinct new" "finite V"
  shows "card (V \<union> X) = card V + length new"
proof -
  have "card (V \<union> set new) = card V + card (set new)" using assms(1,3) by (intro card_Un_disjoint finite_set) auto
  moreover have "V \<union> X = V \<union> set new" using assms(1) by auto
  ultimately show ?thesis using assms(2) by (simp add: distinct_card)
qed

lemma reachable_step: "reachable s h n \<Longrightarrow> x \<in> set (fgNodeGetSuccessors s n) \<Longrightarrow> reachable s h x"
  by (auto simp: reachable_def flow_edges_def intro: rtrancl_into_rtrancl)

text \<open>The worklist always holds visited blocks only, so the assertion cannot fail; what is added to it is new.\<close>

lemma prepend_spec:
  assumes "set (Worklist w) \<subseteq> IsVisited w"
  shows "\<exists>new. prepend_unvisited xs w = Inr \<lparr>IsVisited = IsVisited w \<union> set xs, Worklist = new @ Worklist w\<rparr>
     \<and> set new = set xs - IsVisited w \<and> distinct new"
  using assms
proof (induction xs arbitrary: w)
  case (Cons x xs)
  show ?case
  proof (cases "x \<in> IsVisited w")
    case True
    then show ?thesis using Cons.IH[OF Cons.prems] by (auto simp: insert_absorb)
  next
    case False
    let ?w = "\<lparr>IsVisited = insert x (IsVisited w), Worklist = x # Worklist w\<rparr>"
    obtain new where new: "prepend_unvisited xs ?w = Inr \<lparr>IsVisited = insert x (IsVisited w) \<union> set xs, Worklist = new @ x # Worklist w\<rparr>"
       "set new = set xs - insert x (IsVisited w)" "distinct new"
      using Cons.IH[of ?w] Cons.prems by auto
    have "x \<notin> set (Worklist w)" using False Cons.prems by blast
    then show ?thesis using False new by (intro exI[of _ "new @ [x]"]) auto
  qed
qed simp

lemma walk_step:
  assumes "walk_inv s h w" "graph_closed s" "Worklist w = b # rest"
  shows "\<exists>w'. fgPrependUnvisitedSuccToWorklist s b (w\<lparr>Worklist := rest\<rparr>) = Inr w' \<and> walk_inv s h w'
     \<and> length (Nodes s) - card (IsVisited w') + length (Worklist w') < length (Nodes s) - card (IsVisited w) + length (Worklist w)"
proof -
  let ?xs = "fgNodeGetSuccessors s b"
  obtain new where p: "prepend_unvisited ?xs (w\<lparr>Worklist := rest\<rparr>) = Inr \<lparr>IsVisited = IsVisited w \<union> set ?xs, Worklist = new @ rest\<rparr>"
     "set new = set ?xs - IsVisited w" "distinct new"
    using prepend_spec[of "w\<lparr>Worklist := rest\<rparr>" ?xs] assms(1,3) by (auto simp: walk_inv_def)
  let ?V = "IsVisited w \<union> set ?xs"
  have b: "b \<in> IsVisited w" "b < length (Nodes s)" "reachable s h b" using assms(1,3) by (auto simp: walk_inv_def)
  have lt: "?V \<subseteq> {..<length (Nodes s)}" using assms(1) graph_closedD[OF assms(2) b(2)] by (auto simp: walk_inv_def)
  have fin: "finite (IsVisited w)" using lt finite_subset[of "IsVisited w" "{..<length (Nodes s)}"] by auto
  have "card ?V = card (IsVisited w) + length new" by (rule card_Un_new[OF p(2,3) fin])
  moreover have "card ?V \<le> length (Nodes s)" using card_mono[OF _ lt] by simp
  moreover have "walk_inv s h \<lparr>IsVisited = ?V, Worklist = new @ rest\<rparr>"
    using assms(1,3) p(2) lt b reachable_step[OF b(3)] by (auto simp: walk_inv_def)
  ultimately show ?thesis using p(1) assms(3) by (auto simp: fgPrependUnvisitedSuccToWorklist_def)
qed

lemma walk_done:
  assumes "walk_inv s h w" "Worklist w = []"
  shows "IsVisited w = {n. reachable s h n}"
proof -
  have "n \<in> IsVisited w" if "(h, n) \<in> (flow_edges s)\<^sup>*" for n
    using that assms by induction (auto simp: walk_inv_def flow_edges_def)
  then show ?thesis using assms(1) by (auto simp: walk_inv_def reachable_def)
qed

lemma walk_loop_visits:
  assumes "walk_inv s h w" "graph_closed s" "length (Nodes s) - card (IsVisited w) + length (Worklist w) < fuel"
  shows "walk_loop fuel s w = Some (Inr {n. reachable s h n})"
  using assms(1,3)
proof (induction fuel arbitrary: w)
  case (Suc fuel)
  show ?case
  proof (cases "Worklist w")
    case Nil
    then show ?thesis using walk_done[OF Suc.prems(1)] by simp
  next
    case (Cons b rest)
    from walk_step[OF Suc.prems(1) assms(2) Cons] obtain w' where
      w: "fgPrependUnvisitedSuccToWorklist s b (w\<lparr>Worklist := rest\<rparr>) = Inr w'" "walk_inv s h w'"
      "length (Nodes s) - card (IsVisited w') + length (Worklist w') < length (Nodes s) - card (IsVisited w) + length (Worklist w)" by blast
    then show ?thesis using Suc.IH[of w'] Suc.prems(2) Cons by simp
  qed
qed simp

lemma walk_bound:
  assumes "graph_closed s" "h < length (Nodes s)" "reachable s h n"
  shows "n < length (Nodes s)"
  using assms(3) unfolding reachable_def by induction (use assms graph_closedD in \<open>auto simp: flow_edges_def\<close>)

lemma visit_reachable_correct:
  assumes "graph_closed s" "h < length (Nodes s)" "length (Nodes s) < fuel"
  shows "visit_reachable fuel s h = Some (Inr {n. reachable s h n})"
proof -
  have "walk_inv s h \<lparr>IsVisited = {h}, Worklist = [h]\<rparr>" using assms(2) by (simp add: walk_inv_def reachable_def)
  from walk_loop_visits[OF this assms(1), of fuel] show ?thesis using assms(2,3) by (simp add: visit_reachable_def)
qed

subsection \<open>Reading in the order of the offsets\<close>

fun offsets_ascend :: "FlowGraph \<Rightarrow> u32 \<Rightarrow> node list \<Rightarrow> bool" where
  "offsets_ascend s off [] \<longleftrightarrow> True"
| "offsets_ascend s off (b # bs) \<longleftrightarrow> off \<le> StartMSILOffset (Nodes s ! b) \<and> offsets_ascend s (EndMSILOffset (Nodes s ! b)) bs"

lemma msil_order_iff: "msil_order s V off bs = Inr order \<longleftrightarrow> order = filter (\<lambda>b. b \<in> V) bs \<and> offsets_ascend s off order"
  by (induction s V off bs arbitrary: order rule: msil_order.induct) (auto simp: rbind_eq_Inr_iff)

text \<open>The contract of the client: reading a block succeeds and keeps what the client keeps of the graph; a new
  successor of the block is one of at most \<open>N\<close> nodes and takes its stack from this block only.\<close>

definition client_ok :: "(node \<Rightarrow> FlowGraph \<Rightarrow> FlowGraph result) \<Rightarrow> (FlowGraph \<Rightarrow> bool) \<Rightarrow> node set \<Rightarrow> nat \<Rightarrow> bool" where
  "client_ok read Inv V N \<longleftrightarrow> (\<forall>g. Inv g \<longrightarrow> length (Nodes g) \<le> N \<and> (\<forall>n < length (Nodes g).
     \<exists>g'. read n g = Inr g' \<and> Inv g' \<and> length (Nodes g) \<le> length (Nodes g') \<and> (\<forall>x \<in> set (fgNodeGetSuccessors g' n). x < length (Nodes g')
       \<and> (x \<notin> V \<longrightarrow> \<not> fgNodeHasMultiplePredsPropagatingStack g' x \<and> (fgNodePropagatesOperandStack g' n \<or> fgNodeHasNoPredsPropagatingStack g' x)))))"

lemma insert_new_spec:
  assumes "\<forall>x \<in> set xs. x \<notin> V0 \<longrightarrow> \<not> fgNodeHasMultiplePredsPropagatingStack g x \<and> (fgNodePropagatesOperandStack g n \<or> fgNodeHasNoPredsPropagatingStack g x)"
    "V0 \<subseteq> V"
  shows "\<exists>new. insert_new_successors g n xs (V, rest) = Inr (V \<union> set xs, new @ rest) \<and> set new = set xs - V \<and> distinct new"
  using assms
proof (induction xs arbitrary: V rest)
  case (Cons x xs)
  show ?case
  proof (cases "x \<in> V")
    case True
    then show ?thesis using Cons.IH[of V rest] Cons.prems by (auto simp: insert_absorb)
  next
    case False
    obtain new where new: "insert_new_successors g n xs (insert x V, x # rest) = Inr (insert x V \<union> set xs, new @ x # rest)"
      "set new = set xs - insert x V" "distinct new"
      using Cons.IH[of "insert x V" "x # rest"] Cons.prems by auto
    have "x \<notin> V0" using False Cons.prems(2) by blast
    then show ?thesis using False new Cons.prems(1) by (intro exI[of _ "new @ [x]"]) auto
  qed
qed simp

definition reads_ok :: "node set \<Rightarrow> node set \<Rightarrow> node list \<Rightarrow> (node \<times> FlowGraph) list \<Rightarrow> bool" where
  "reads_ok V0 V order tr \<longleftrightarrow> distinct (map fst tr) \<and> set order \<subseteq> fst ` set tr \<and> fst ` set tr \<inter> V \<subseteq> set order
     \<and> filter (\<lambda>n. n \<in> V0) (map fst tr) = filter (\<lambda>n. n \<in> V0) order
     \<and> (\<forall>(n, g) \<in> set tr. set (fgNodeGetSuccessors g n) \<subseteq> V \<union> fst ` set tr)"

lemma read_blocks_spec:
  assumes "client_ok read Inv V0 N" "V0 \<subseteq> V" "V \<subseteq> {..<length (Nodes g)}" "Inv g" "distinct order" "set order \<subseteq> V" "N - card V + length order < fuel"
  shows "\<exists>tr. read_blocks fuel read g V order = Some (Inr tr) \<and> reads_ok V0 V order tr"
  using assms(2-)
proof (induction fuel arbitrary: V g order)
  case (Suc fuel)
  show ?case
  proof (cases order)
    case Nil
    then show ?thesis by (simp add: reads_ok_def)
  next
    case (Cons n rest)
    have "n < length (Nodes g)" using Suc.prems(2,5) Cons by auto
    then obtain g' where g': "read n g = Inr g'" "Inv g'" "\<forall>x \<in> set (fgNodeGetSuccessors g' n). x < length (Nodes g')
     \<and> (x \<notin> V0 \<longrightarrow> \<not> fgNodeHasMultiplePredsPropagatingStack g' x \<and> (fgNodePropagatesOperandStack g' n \<or> fgNodeHasNoPredsPropagatingStack g' x))"
      "length (Nodes g) \<le> length (Nodes g')" "length (Nodes g') \<le> N"
      using assms(1) Suc.prems(3) unfolding client_ok_def by blast
    let ?xs = "fgNodeGetSuccessors g' n"
    obtain new where new: "insert_new_successors g' n ?xs (V, rest) = Inr (V \<union> set ?xs, new @ rest)" "set new = set ?xs - V" "distinct new"
      using insert_new_spec[of ?xs V0 g' n V rest] g'(3) Suc.prems(1) by auto
    have sub: "V \<union> set ?xs \<subseteq> {..<length (Nodes g')}" using Suc.prems(2) g'(3,4) by auto
    have fin: "finite V" using Suc.prems(2) finite_subset by blast
    have "card (V \<union> set ?xs) = card V + length new" by (rule card_Un_new[OF new(2,3) fin])
    moreover have "card (V \<union> set ?xs) \<le> N" using card_mono[OF _ sub] g'(5) by simp
    ultimately have m: "N - card (V \<union> set ?xs) + length (new @ rest) < fuel" using Suc.prems(6) Cons by simp
    have d: "distinct (new @ rest)" "set (new @ rest) \<subseteq> V \<union> set ?xs" using new(2,3) Suc.prems(4,5) Cons by auto
    have "V0 \<subseteq> V \<union> set ?xs" using Suc.prems(1) by blast
    from Suc.IH[OF this sub g'(2) d m] obtain tr where tr: "read_blocks fuel read g' (V \<union> set ?xs) (new @ rest) = Some (Inr tr)"
      "reads_ok V0 (V \<union> set ?xs) (new @ rest) tr" by blast
    have n: "n \<notin> fst ` set tr" using tr(2) new(2) Suc.prems(4,5) Cons unfolding reads_ok_def by auto
    have f: "filter (\<lambda>n. n \<in> V0) new = []" using new(2) Suc.prems(1) by (auto simp: filter_empty_conv)
    have c: "V \<union> set ?xs \<union> fst ` set tr \<subseteq> V \<union> insert n (fst ` set tr)" "set ?xs \<subseteq> V \<union> fst ` set tr"
      using tr(2) new(2) unfolding reads_ok_def by auto
    have e: "set (fgNodeGetSuccessors q m) \<subseteq> V \<union> insert n (fst ` set tr)" if "(m, q) \<in> set tr" for m q
      using tr(2) that c(1) unfolding reads_ok_def by blast
    have "\<forall>(m, q) \<in> set ((n, g') # tr). set (fgNodeGetSuccessors q m) \<subseteq> V \<union> fst ` set ((n, g') # tr)"
    proof (rule ballI, rule case_prodI2)
      fix p m q assume "p \<in> set ((n, g') # tr)" "p = (m, q)"
      then show "set (fgNodeGetSuccessors q m) \<subseteq> V \<union> fst ` set ((n, g') # tr)" using e[of m q] c(2) by auto
    qed
    moreover have "set order \<subseteq> fst ` set ((n, g') # tr)" "fst ` set ((n, g') # tr) \<inter> V \<subseteq> set order"
      using tr(2) new(2) Cons unfolding reads_ok_def by auto
    ultimately have "reads_ok V0 V order ((n, g') # tr)"
      using tr(2) n f Cons unfolding reads_ok_def by simp
    then show ?thesis using tr(1) g'(1) new(1) Cons by (simp split: prod.split)
  qed
qed simp


text \<open>A diamond with an unreachable block, whose client puts a new block on an edge.\<close>

definition diamond_node :: "u32 \<Rightarrow> Terminator \<Rightarrow> FlowGraphNode" where
  "diamond_node off t = new_node\<lparr>StartMSILOffset := off, EndMSILOffset := off + 1, Term := t\<rparr>"

definition diamond :: FlowGraph where
  "diamond = \<lparr>Nodes = [diamond_node 0 (CondBr 2 (Some 1)), diamond_node 1 (Br 3), diamond_node 2 (Br 3), diamond_node 3 UnreachableInst,
     diamond_node 4 (Br 3)], Chain = [0, 1, 2, 3, 4], PointBlocks = [], NodeOffsetListArray = [], Pads = [], UnreachableContinuationBlock = None,
     ContinuationStoreMap = [], CurrentRegion = None, HasLocAlloc = False, HasAddressTaken = False\<rparr>"

definition diamond_split :: FlowGraph where
  "diamond_split = diamond\<lparr>Nodes := (Nodes diamond)[1 := diamond_node 1 (Br 5)] @ [diamond_node 1 (Br 3)]\<rparr>"

definition diamond_read :: "node \<Rightarrow> FlowGraph \<Rightarrow> FlowGraph result" where
  "diamond_read n g = Inr (if n = 1 then diamond_split else g)"

lemmas diamond_eval = diamond_split_def diamond_def diamond_node_def new_node_def fgNodeGetSuccessors_def nominal_succ_def

lemma diamond_succs:
  "map (fgNodeGetSuccessors diamond) [0, 1, 2, 3, 4] = [[2, 1], [3], [3], [], [3]]"
  "map (fgNodeGetSuccessors diamond_split) [0, 1, 2, 3, 4, 5] = [[2, 1], [5], [3], [], [3], [3]]"
  by (simp_all add: diamond_eval)

lemma diamond_lengths: "length (Nodes diamond) = 5" "length (Nodes diamond_split) = 6"
  by (simp_all add: diamond_split_def diamond_def)

lemma diamond_closed: "graph_closed diamond"
  using diamond_succs(1) by (simp add: graph_closed_def diamond_lengths upt_rec numeral_eq_Suc)

lemma diamond_reachable: "{n. reachable diamond 0 n} = {0, 1, 2, 3}"
proof -
  have "visit_reachable (Suc (Suc (Suc (Suc (Suc (Suc 0)))))) diamond 0 = Some (Inr {n. reachable diamond 0 n})"
    by (rule visit_reachable_correct[OF diamond_closed]) (simp_all add: diamond_lengths)
  moreover have "visit_reachable (Suc (Suc (Suc (Suc (Suc (Suc 0)))))) diamond 0 = Some (Inr {3, 1, 2, 0})"
    using diamond_succs(1) by (simp add: visit_reachable_def fgPrependUnvisitedSuccToWorklist_def insert_commute)
  ultimately show ?thesis by (simp add: insert_commute)
qed

lemma diamond_new_pred: "\<not> fgNodeHasMultiplePredsPropagatingStack diamond_split 5" "fgNodePropagatesOperandStack diamond_split 1"
proof -
  have "filter (fgNodePropagatesOperandStack diamond_split) (fgNodeGetPredecessorsActual diamond_split 5) = [1]"
    by (simp add: fgNodeGetPredecessorsActual_def fgNodeGetPredecessors_def fgEdgeIsNominal_def fgNodePropagatesOperandStack_def diamond_eval upt_rec)
  then show "\<not> fgNodeHasMultiplePredsPropagatingStack diamond_split 5" by (simp add: fgNodeHasMultiplePredsPropagatingStack_def)
qed (simp add: fgNodePropagatesOperandStack_def diamond_eval)

lemma diamond_client: "client_ok diamond_read (\<lambda>g. g = diamond \<or> g = diamond_split) {0, 1, 2, 3} 6"
proof -
  have "n \<in> set [0, 1, 2, 3, 4]" if "n < length (Nodes diamond)" for n using that by (auto simp: diamond_lengths)
  moreover have "n \<in> set [0, 1, 2, 3, 4, 5]" if "n < length (Nodes diamond_split)" for n using that by (auto simp: diamond_lengths)
  ultimately show ?thesis using diamond_succs diamond_new_pred
    unfolding client_ok_def by (fastforce simp: diamond_read_def diamond_lengths)
qed



end
