(* ===== verification/StackMerge.thy ===== *)
theory StackMerge
  imports ReaderWalk
begin

section \<open>Operand stacks across blocks\<close>

text \<open>
  lib/Reader/readerir.cpp: at the end of a block \<open>maintainOperandStack\<close> hands the operand stack to the
  successors. A successor with one predecessor that propagates its stack takes a copy; one with several gets a
  PHI instruction for every operand, with an incoming value for every predecessor. The operands may differ in
  type: the PHI takes the merged type of the evaluation stack, and the values are cast to it.

  A value is an operand with its type, an undefined value, a PHI, or a cast, which is an instruction of its own
  and has a number. The PHIs of a block are those of its stack. Classes, their merge and the type of a class come
  from the engine and from \<open>getType\<close>, which asks it. The insertion point of a cast is left out.
\<close>

subsection \<open>Types and values\<close>

datatype VType = VVoid | VInt nat | VFloat | VDouble | VVector nat VType | VPtr VType nat | VStruct string bool "VType list"
  | VFunc VType "VType list" bool

definition is_int_type :: "VType \<Rightarrow> bool" where
  "is_int_type t = (case t of VInt _ \<Rightarrow> True | _ \<Rightarrow> False)"

definition is_fp_type :: "VType \<Rightarrow> bool" where
  "is_fp_type t = (t = VFloat \<or> t = VDouble)"

definition is_pointer_type :: "VType \<Rightarrow> bool" where
  "is_pointer_type t = (case t of VPtr _ _ \<Rightarrow> True | _ \<Rightarrow> False)"

definition gc_pointer_type :: "VType \<Rightarrow> bool" where
  "gc_pointer_type t = (case t of VPtr _ a \<Rightarrow> a = 1 | _ \<Rightarrow> False)"

definition unmanaged_pointer_type :: "VType \<Rightarrow> bool" where
  "unmanaged_pointer_type t \<longleftrightarrow> is_pointer_type t \<and> \<not> gc_pointer_type t"

definition isValidStackType :: "VType \<Rightarrow> bool result" where
  "isValidStackType t = (case t of VInt n \<Rightarrow> Inr (n = 32 \<or> n = 64) | VPtr _ _ \<Rightarrow> Inr True | VFloat \<Rightarrow> Inr True | VDouble \<Rightarrow> Inr True
     | VVector _ _ \<Rightarrow> Inr True | _ \<Rightarrow> Inl (AssertFailed ''UNREACHED''))"

datatype CastKind = IntCast | PtrToInt | FPCast | PointerCast

datatype Value = Operand nat VType bool     \<comment> \<open>whether it stands for a struct\<close>
  | UndefOf VType
  | PhiOf node nat
  | Cast nat CastKind Value VType

record Phi =
  PhiTy :: VType
  PhiStruct :: bool
  PhiIn :: "(node \<times> Value) list"

record MergeState =
  Phis :: "node \<Rightarrow> Phi list"
  Stacks :: "node \<Rightarrow> Value list option"
  NextCast :: nat

record MergeEnv =
  PointerBits :: nat
  ReverseClassTypeMap :: "VType \<Rightarrow> nat option"
  mergeClasses :: "nat \<Rightarrow> nat \<Rightarrow> nat"
  isValueClass :: "nat \<Rightarrow> bool"
  ObjectClass :: nat
  classType :: "nat \<Rightarrow> VType"

definition is_undef :: "Value \<Rightarrow> bool" where
  "is_undef v = (case v of UndefOf _ \<Rightarrow> True | _ \<Rightarrow> False)"

fun val_type :: "(node \<Rightarrow> Phi list) \<Rightarrow> Value \<Rightarrow> VType" where
  "val_type phis (Operand _ t _) = t"
| "val_type phis (UndefOf t) = t"
| "val_type phis (PhiOf b i) = PhiTy (phis b ! i)"
| "val_type phis (Cast _ _ _ t) = t"

fun val_struct :: "(node \<Rightarrow> Phi list) \<Rightarrow> Value \<Rightarrow> bool" where
  "val_struct phis (Operand _ _ s) = s"
| "val_struct phis (UndefOf t) = False"
| "val_struct phis (PhiOf b i) = PhiStruct (phis b ! i)"
| "val_struct phis (Cast _ _ _ t) = False"

subsection \<open>The merged type\<close>

fun pointee :: "VType \<Rightarrow> VType option" where
  "pointee (VPtr t _) = Some t"
| "pointee _ = None"

fun is_func_type :: "VType \<Rightarrow> bool" where
  "is_func_type (VFunc _ _ _) = True"
| "is_func_type _ = False"

definition merged_class :: "MergeEnv \<Rightarrow> VType \<Rightarrow> VType \<Rightarrow> nat result" where
  "merged_class env Ty1 Ty2 =
     (case (ReverseClassTypeMap env Ty1, ReverseClassTypeMap env Ty2) of
        (Some Class1, Some Class2) \<Rightarrow>
          (let c = mergeClasses env Class1 Class2 in if isValueClass env c then Inl (AssertFailed ''merged class is a value class'') else Inr c)
      | _ \<Rightarrow> Inr (ObjectClass env))"

text \<open>The casts of the pointee to struct types and the reads through the pointer types fail where a type is not
  a pointer to a struct or not a pointer at all.\<close>

definition identical_layout :: "VType \<Rightarrow> VType \<Rightarrow> bool result" where
  "identical_layout Ty1 Ty2 =
     (case (pointee Ty1, pointee Ty2) of
        (Some (VStruct _ p1 fs1), Some (VStruct _ p2 fs2)) \<Rightarrow> Inr (p1 = p2 \<and> fs1 = fs2)
      | _ \<Rightarrow> Inl (AssertFailed ''cast to a struct type''))"

definition merge_functions :: "VType \<Rightarrow> VType \<Rightarrow> VType result" where
  "merge_functions Ty1 Ty2 =
     (case (pointee Ty1, pointee Ty2) of
        (Some t1, Some t2) \<Rightarrow>
          if is_func_type t1 \<and> is_func_type t2 then Inr (if t1 \<noteq> VFunc VVoid [] False then Ty1 else Ty2)
          else Inl (AssertFailed ''UNREACHED'')
      | _ \<Rightarrow> Inl (AssertFailed ''null pointer type''))"

definition getStackMergeType :: "MergeEnv \<Rightarrow> VType \<Rightarrow> VType \<Rightarrow> bool \<Rightarrow> bool \<Rightarrow> VType result" where
  "getStackMergeType env Ty1 Ty2 IsStruct1 IsStruct2 =
     (if Ty1 = Ty2 then Inr Ty1
      else if IsStruct1 \<noteq> IsStruct2 then Inl (AssertFailed ''IsStruct1 == IsStruct2'')
      else let NativeIntTy = VInt (PointerBits env) in
      if Ty1 = NativeIntTy \<and> Ty2 = VInt 32 \<or> Ty2 = NativeIntTy \<and> Ty1 = VInt 32 then Inr Ty1
      else if Ty1 = VFloat \<and> Ty2 = VDouble \<or> Ty2 = VFloat \<and> Ty1 = VDouble then Inr VDouble
      else if unmanaged_pointer_type Ty1 \<and> Ty2 = NativeIntTy \<or> unmanaged_pointer_type Ty2 \<and> Ty1 = NativeIntTy then Inr NativeIntTy
      else if gc_pointer_type Ty1 \<and> gc_pointer_type Ty2 then rbind (merged_class env Ty1 Ty2) (\<lambda>c. Inr (classType env c))
      else if IsStruct1 \<and> IsStruct2
      then rbind (identical_layout Ty1 Ty2) (\<lambda>same. if same then Inr Ty1 else merge_functions Ty1 Ty2)
      else merge_functions Ty1 Ty2)"

subsection \<open>PHI operands\<close>

text \<open>A cast to the type the value has is the value.\<close>

definition make_cast :: "CastKind \<Rightarrow> Value \<Rightarrow> VType \<Rightarrow> VType \<Rightarrow> nat \<Rightarrow> Value \<times> nat" where
  "make_cast k v t NewTy n = (if t = NewTy then (v, n) else (Cast n k v NewTy, Suc n))"

definition changePHIOperandType :: "(node \<Rightarrow> Phi list) \<Rightarrow> Value \<Rightarrow> VType \<Rightarrow> nat \<Rightarrow> (Value \<times> nat) result" where
  "changePHIOperandType phis v NewTy n =
     (let t = val_type phis v in
      if is_int_type NewTy
      then if is_int_type t then Inr (make_cast IntCast v t NewTy n)
           else if unmanaged_pointer_type t then Inr (make_cast PtrToInt v t NewTy n)
           else Inl (AssertFailed ''isUnmanagedPointer'')
      else if is_fp_type NewTy
      then if is_fp_type t then Inr (make_cast FPCast v t NewTy n) else Inl (AssertFailed ''CreateFPCast'')
      else if is_pointer_type t then Inr (make_cast PointerCast v t NewTy n) else Inl (AssertFailed ''CreatePointerCast''))"

fun retype_operands :: "(node \<Rightarrow> Phi list) \<Rightarrow> VType \<Rightarrow> (node \<times> Value) list \<Rightarrow> nat \<Rightarrow> ((node \<times> Value) list \<times> nat) result" where
  "retype_operands phis NewTy [] n = Inr ([], n)"
| "retype_operands phis NewTy ((b, v) # xs) n =
     rbind (if is_undef v then Inr (v, n) else changePHIOperandType phis v NewTy n) (\<lambda>(v, n).
     rbind (retype_operands phis NewTy xs n) (\<lambda>(xs, n). Inr ((b, v) # xs, n)))"

fun set_operand :: "node \<Rightarrow> Value \<Rightarrow> (node \<times> Value) list \<Rightarrow> (node \<times> Value) list result" where
  "set_operand NewBlock v [] = Inl (AssertFailed ''FoundBlockOperand'')"
| "set_operand NewBlock v ((b, c) # xs) =
     (if b = NewBlock
      then if is_undef c then Inr ((b, v) # xs)
           else if c = v then rbind (set_operand NewBlock v xs) (\<lambda>xs. Inr ((b, c) # xs))
           else Inl (AssertFailed ''CurrentOperand == NewOperand'')
      else rbind (set_operand NewBlock v xs) (\<lambda>xs. Inr ((b, c) # xs)))"

definition update_phi :: "node \<Rightarrow> nat \<Rightarrow> (Phi \<Rightarrow> Phi) \<Rightarrow> (node \<Rightarrow> Phi list) \<Rightarrow> node \<Rightarrow> Phi list" where
  "update_phi b i f phis = phis(b := (phis b)[i := f (phis b ! i)])"

text \<open>The type of the PHI changes before its operands are cast.\<close>

definition change_phi_type :: "node \<Rightarrow> nat \<Rightarrow> VType \<Rightarrow> MergeState \<Rightarrow> MergeState result" where
  "change_phi_type b i NewTy st =
     (let phis = update_phi b i (\<lambda>p. p\<lparr>PhiTy := NewTy\<rparr>) (Phis st) in
      rbind (retype_operands phis NewTy (PhiIn (Phis st b ! i)) (NextCast st)) (\<lambda>(xs, n).
      Inr (st\<lparr>Phis := update_phi b i (\<lambda>p. p\<lparr>PhiIn := xs\<rparr>) phis, NextCast := n\<rparr>)))"

definition merge_phi_type :: "MergeEnv \<Rightarrow> node \<Rightarrow> nat \<Rightarrow> Value \<Rightarrow> MergeState \<Rightarrow> (Value \<times> MergeState) result" where
  "merge_phi_type env b i NewOperand st =
     (let PHITy = PhiTy (Phis st b ! i); NewOperandTy = val_type (Phis st) NewOperand in
      if PHITy = NewOperandTy then Inr (NewOperand, st)
      else rbind (getStackMergeType env PHITy NewOperandTy (PhiStruct (Phis st b ! i)) (val_struct (Phis st) NewOperand)) (\<lambda>NewPHITy.
        rbind (if NewPHITy \<noteq> PHITy then change_phi_type b i NewPHITy st else Inr st) (\<lambda>st.
        if NewPHITy \<noteq> NewOperandTy
        then rbind (changePHIOperandType (Phis st) NewOperand NewPHITy (NextCast st)) (\<lambda>(v, n). Inr (v, st\<lparr>NextCast := n\<rparr>))
        else Inr (NewOperand, st))))"

definition addPHIOperand :: "MergeEnv \<Rightarrow> node \<Rightarrow> nat \<Rightarrow> Value \<Rightarrow> node \<Rightarrow> MergeState \<Rightarrow> MergeState result" where
  "addPHIOperand env b i NewOperand NewBlock st =
     rbind (merge_phi_type env b i NewOperand st) (\<lambda>(v, st).
     rbind (set_operand NewBlock v (PhiIn (Phis st b ! i))) (\<lambda>xs.
     Inr (st\<lparr>Phis := update_phi b i (\<lambda>p. p\<lparr>PhiIn := xs\<rparr>) (Phis st)\<rparr>)))"

subsection \<open>Handing the stack on\<close>

text \<open>A new PHI has an undefined value for every predecessor.\<close>

definition createPHINode :: "FlowGraph \<Rightarrow> node \<Rightarrow> Value \<Rightarrow> MergeState \<Rightarrow> MergeState" where
  "createPHINode g b v st =
     (let t = val_type (Phis st) v in
      st\<lparr>Phis := (Phis st)(b := Phis st b @ [\<lparr>PhiTy = t, PhiStruct = val_struct (Phis st) v,
           PhiIn = map (\<lambda>p. (p, UndefOf t)) (fgNodeGetPredecessorsActual g b)\<rparr>])\<rparr>)"

fun add_operands :: "MergeEnv \<Rightarrow> FlowGraph \<Rightarrow> bool \<Rightarrow> node \<Rightarrow> node \<Rightarrow> nat \<Rightarrow> Value list \<Rightarrow> MergeState \<Rightarrow> MergeState result" where
  "add_operands env g CreatePHIs cur succ i [] st =
     (if CreatePHIs \<or> Term (Nodes g ! succ) = NoTerm \<or> length (Phis st succ) \<le> i then Inr st else Inl (AssertFailed ''more PHIs than operands''))"
| "add_operands env g CreatePHIs cur succ i (v # vs) st =
     (let st = (if CreatePHIs then createPHINode g succ v st else st) in
      if i < length (Phis st succ)
      then rbind (addPHIOperand env succ i v cur st) (\<lambda>st.
           add_operands env g CreatePHIs cur succ (Suc i) vs
             (if CreatePHIs then st\<lparr>Stacks := (Stacks st)(succ := Some (the (Stacks st succ) @ [PhiOf succ i]))\<rparr> else st))
      else Inl (AssertFailed ''isa<PHINode>(CurrentInst)''))"

definition maintain_successor :: "MergeEnv \<Rightarrow> FlowGraph \<Rightarrow> node \<Rightarrow> Value list \<Rightarrow> node \<Rightarrow> MergeState \<Rightarrow> MergeState result" where
  "maintain_successor env g cur stack succ st =
     (if \<not> fgNodeHasMultiplePredsPropagatingStack g succ
      then if \<not> fgNodePropagatesOperandStack g succ then Inr st
           else if fgNodePropagatesOperandStack g cur then Inr (st\<lparr>Stacks := (Stacks st)(succ := Some stack)\<rparr>)
           else if fgNodeHasNoPredsPropagatingStack g succ then Inr (st\<lparr>Stacks := (Stacks st)(succ := Some [])\<rparr>)
           else Inl (AssertFailed ''fgNodeHasNoPredsPropagatingStack'')
      else if Stacks st succ = None
      then add_operands env g True cur succ (length (Phis st succ)) stack (st\<lparr>Stacks := (Stacks st)(succ := Some [])\<rparr>)
      else add_operands env g False cur succ 0 stack st)"

fun maintain_successors :: "MergeEnv \<Rightarrow> FlowGraph \<Rightarrow> node \<Rightarrow> Value list \<Rightarrow> node list \<Rightarrow> MergeState \<Rightarrow> MergeState result" where
  "maintain_successors env g cur stack [] st = Inr st"
| "maintain_successors env g cur stack (x # xs) st =
     rbind (maintain_successor env g cur stack x st) (maintain_successors env g cur stack xs)"

definition maintainOperandStack :: "MergeEnv \<Rightarrow> FlowGraph \<Rightarrow> node \<Rightarrow> Value list \<Rightarrow> MergeState \<Rightarrow> MergeState result" where
  "maintainOperandStack env g cur stack st =
     (if stack = [] then Inr st else maintain_successors env g cur stack (fgNodeGetSuccessorsActual g cur) st)"

text \<open>The blocks of a method one after the other, each with the stack it ends with.\<close>

fun maintain_all :: "MergeEnv \<Rightarrow> FlowGraph \<Rightarrow> (node \<times> Value list) list \<Rightarrow> MergeState \<Rightarrow> MergeState result" where
  "maintain_all env g [] st = Inr st"
| "maintain_all env g ((cur, stack) # xs) st = rbind (maintainOperandStack env g cur stack st) (maintain_all env g xs)"


subsection \<open>Types and sources of PHI operands\<close>

text \<open>The operand a value was made from by casts.\<close>

fun source :: "Value \<Rightarrow> Value" where
  "source (Cast _ _ v _) = source v"
| "source v = v"

definition is_cast :: "Value \<Rightarrow> bool" where
  "is_cast v = (case v of Cast _ _ _ _ \<Rightarrow> True | _ \<Rightarrow> False)"

definition phi_block :: "Value \<Rightarrow> node option" where
  "phi_block v = (case v of PhiOf b i \<Rightarrow> Some b | _ \<Rightarrow> None)"

definition phi_typed :: "(node \<Rightarrow> Phi list) \<Rightarrow> Phi \<Rightarrow> bool" where
  "phi_typed phis p \<longleftrightarrow> (\<forall>(k, v) \<in> set (PhiIn p). is_undef v \<or> val_type phis v = PhiTy p)"

definition comes_from :: "Value set \<Rightarrow> Phi \<Rightarrow> bool" where
  "comes_from S p \<longleftrightarrow> (\<forall>(k, v) \<in> set (PhiIn p). is_undef v \<or> is_cast v \<or> v \<in> S)"

definition carried :: "Phi \<Rightarrow> node \<Rightarrow> Value \<Rightarrow> bool" where
  "carried p k x \<longleftrightarrow> (\<exists>v. (k, v) \<in> set (PhiIn p) \<and> \<not> is_undef v \<and> source v = x)"

definition avoids :: "Value set \<Rightarrow> node \<Rightarrow> bool" where
  "avoids S b \<longleftrightarrow> (\<forall>w \<in> S. phi_block w \<noteq> Some b)"

text \<open>What casting does to a value.\<close>

definition recast :: "(node \<Rightarrow> Phi list) \<Rightarrow> VType \<Rightarrow> Value \<Rightarrow> Value \<Rightarrow> bool" where
  "recast phis T v w \<longleftrightarrow> \<not> is_undef w \<and> val_type phis w = T \<and> source w = source v \<and> (w = v \<or> is_cast w)"

lemma list_all2_right: "list_all2 P xs ys \<Longrightarrow> y \<in> set ys \<Longrightarrow> \<exists>x \<in> set xs. P x y"
  by (induction xs ys rule: list_all2_induct) auto

lemma list_all2_left: "list_all2 P xs ys \<Longrightarrow> x \<in> set xs \<Longrightarrow> \<exists>y \<in> set ys. P x y"
  by (induction xs ys rule: list_all2_induct) auto

lemma changePHIOperandType_recast:
  assumes "changePHIOperandType phis v T n = Inr (w, m)" "\<not> is_undef v"
  shows "recast phis T v w"
  using assms by (auto simp: changePHIOperandType_def make_cast_def recast_def is_undef_def is_cast_def Let_def split: if_splits)

lemma retype_operands_recast:
  assumes "retype_operands phis T xs n = Inr (ys, m)"
  shows "list_all2 (\<lambda>(b, v) (c, w). c = b \<and> (if is_undef v then w = v else recast phis T v w)) xs ys"
  using assms
proof (induction phis T xs n arbitrary: ys m rule: retype_operands.induct)
  case (2 phis T b v xs n)
  from "2.prems" obtain w k zs where w: "(if is_undef v then Inr (v, n) else changePHIOperandType phis v T n) = Inr (w, k)"
     "retype_operands phis T xs k = Inr (zs, m)" "ys = (b, w) # zs" by (auto simp: rbind_eq_Inr_iff)
  have "if is_undef v then w = v else recast phis T v w"
    using w(1) changePHIOperandType_recast[of phis v T n w k] by (auto split: if_splits)
  then show ?case using "2.IH"[of "(w, k)" w k zs m] w by auto
qed simp

lemma set_operand_update:
  assumes "set_operand b v xs = Inr ys"
  shows "\<exists>j c. j < length xs \<and> xs ! j = (b, c) \<and> is_undef c \<and> ys = xs[j := (b, v)]"
  using assms
proof (induction b v xs arbitrary: ys rule: set_operand.induct)
  case (2 b v k c xs)
  show ?case
  proof (cases "k = b \<and> is_undef c")
    case True
    then show ?thesis using "2.prems" by (intro exI[of _ 0] exI[of _ c]) auto
  next
    case False
    then obtain zs where zs: "set_operand b v xs = Inr zs" "ys = (k, c) # zs" using "2.prems" by (auto simp: rbind_eq_Inr_iff split: if_splits)
    then obtain j d where "j < length xs" "xs ! j = (b, d)" "is_undef d" "zs = xs[j := (b, v)]"
      using "2.IH" False "2.prems" by (auto simp: rbind_eq_Inr_iff split: if_splits)
    then show ?thesis using zs by (intro exI[of _ "Suc j"] exI[of _ d]) simp
  qed
qed simp

lemma val_type_frame: "phi_block w \<noteq> Some b \<Longrightarrow> val_type (phis(b := X)) w = val_type phis w"
  by (cases w) (auto simp: phi_block_def)

lemma phi_typed_frame:
  assumes "comes_from S p" "avoids S b"
  shows "phi_typed (phis(b := X)) p = phi_typed phis p"
proof -
  have "val_type (phis(b := X)) v = val_type phis v" if "(k, v) \<in> set (PhiIn p)" "\<not> is_undef v" for k v
  proof -
    have "is_cast v \<or> v \<in> S" using assms(1) that by (auto simp: comes_from_def)
    then have "phi_block v \<noteq> Some b" using assms(2) by (auto simp: avoids_def is_cast_def phi_block_def split: Value.splits)
    then show ?thesis by (rule val_type_frame)
  qed
  then show ?thesis unfolding phi_typed_def by fastforce
qed

text \<open>The first half of adding an operand: the PHI and the operand get a common type.\<close>

definition phi_changed :: "Value set \<Rightarrow> node \<Rightarrow> nat \<Rightarrow> MergeState \<Rightarrow> MergeState \<Rightarrow> Phi \<Rightarrow> bool" where
  "phi_changed S b i st st' p \<longleftrightarrow> Phis st' = (Phis st)(b := (Phis st b)[i := p]) \<and> Stacks st' = Stacks st \<and> phi_typed (Phis st') p
     \<and> comes_from S p \<and> (\<forall>k x. carried (Phis st b ! i) k x \<longrightarrow> carried p k x)"

lemma change_phi_type_spec:
  assumes "change_phi_type b i T st = Inr st'" "i < length (Phis st b)" "comes_from S (Phis st b ! i)" "avoids S b"
  shows "\<exists>p. phi_changed S b i st st' p \<and> PhiTy p = T"
proof -
  let ?q = "Phis st b ! i" let ?phis = "update_phi b i (\<lambda>p. p\<lparr>PhiTy := T\<rparr>) (Phis st)"
  obtain xs n where xs: "retype_operands ?phis T (PhiIn ?q) (NextCast st) = Inr (xs, n)"
     "st' = st\<lparr>Phis := update_phi b i (\<lambda>p. p\<lparr>PhiIn := xs\<rparr>) ?phis, NextCast := n\<rparr>"
    using assms(1) by (auto simp: change_phi_type_def Let_def rbind_eq_Inr_iff)
  let ?p = "?q\<lparr>PhiTy := T, PhiIn := xs\<rparr>"
  have phis: "Phis st' = (Phis st)(b := (Phis st b)[i := ?p])" using xs(2) assms(2) by (simp add: update_phi_def)
  have r: "list_all2 (\<lambda>(b, v) (c, w). c = b \<and> (if is_undef v then w = v else recast ?phis T v w)) (PhiIn ?q) xs"
    by (rule retype_operands_recast[OF xs(1)])
  have e: "\<exists>v. (k, v) \<in> set (PhiIn ?q) \<and> (if is_undef v then w = v else recast ?phis T v w)" if "(k, w) \<in> set xs" for k w
    using list_all2_right[OF r that] by auto
  have cf: "comes_from S ?p" using e assms(3) by (fastforce simp: comes_from_def recast_def split: if_splits)
  have "phi_typed ?phis ?p" using e by (fastforce simp: phi_typed_def recast_def split: if_splits)
  then have "phi_typed (Phis st') ?p"
    unfolding phis update_phi_def using phi_typed_frame[OF cf assms(4)] by simp
  moreover have "carried ?p k x" if c: "carried ?q k x" for k x
  proof -
    obtain v where v: "(k, v) \<in> set (PhiIn ?q)" "\<not> is_undef v" "source v = x" using c by (auto simp: carried_def)
    then obtain w where "(k, w) \<in> set xs" "recast ?phis T v w"
      using list_all2_left[OF r v(1)] by auto
    then show ?thesis using v by (auto simp: carried_def recast_def)
  qed
  ultimately show ?thesis using phis cf xs(2) by (intro exI[of _ ?p]) (simp add: phi_changed_def)
qed


lemma merge_phi_type_spec:
  assumes "merge_phi_type env b i v st = Inr (w, st')" "i < length (Phis st b)" "phi_typed (Phis st) (Phis st b ! i)"
    "comes_from S (Phis st b ! i)" "avoids S b" "v \<in> S" "\<not> is_undef v"
  shows "\<exists>p. phi_changed S b i st st' p \<and> recast (Phis st') (PhiTy p) v w"
proof -
  let ?q = "Phis st b ! i"
  have same: "phi_changed S b i st st ?q" using assms(2-4) by (simp add: phi_changed_def)
  show ?thesis
  proof (cases "PhiTy ?q = val_type (Phis st) v")
    case True
    then have "w = v" "st' = st" using assms(1) by (auto simp: merge_phi_type_def)
    then show ?thesis using same True assms(7) by (auto simp: recast_def)
  next
    case False
    obtain T st1 where T: "(if T \<noteq> PhiTy ?q then change_phi_type b i T st else Inr st) = Inr st1"
      "(if T \<noteq> val_type (Phis st) v then rbind (changePHIOperandType (Phis st1) v T (NextCast st1)) (\<lambda>(v, n). Inr (v, st1\<lparr>NextCast := n\<rparr>))
        else Inr (v, st1)) = Inr (w, st')"
      using assms(1) False by (auto simp: merge_phi_type_def Let_def rbind_eq_Inr_iff)
    obtain p where p: "phi_changed S b i st st1 p" "PhiTy p = T"
      using T(1) change_phi_type_spec[OF _ assms(2,4,5), of T st1] same by (cases "T = PhiTy ?q") auto
    have "val_type (Phis st1) v = val_type (Phis st) v"
      using p(1) assms(5,6) val_type_frame[of v b "Phis st"] by (auto simp: phi_changed_def avoids_def)
    then have "recast (Phis st1) T v w \<and> Phis st' = Phis st1 \<and> Stacks st' = Stacks st1"
      using T(2) changePHIOperandType_recast[of "Phis st1" v T] assms(7) by (auto simp: rbind_eq_Inr_iff recast_def split: if_splits)
    then show ?thesis using p by (intro exI[of _ p]) (auto simp: phi_changed_def)
  qed
qed

lemma addPHIOperand_spec:
  assumes "addPHIOperand env b i v k st = Inr st'" "i < length (Phis st b)" "phi_typed (Phis st) (Phis st b ! i)"
    "comes_from S (Phis st b ! i)" "avoids S b" "v \<in> S" "\<not> is_undef v"
  shows "\<exists>p. phi_changed S b i st st' p \<and> carried p k (source v)"
proof -
  obtain w st1 xs where s: "merge_phi_type env b i v st = Inr (w, st1)" "set_operand k w (PhiIn (Phis st1 b ! i)) = Inr xs"
     "st' = st1\<lparr>Phis := update_phi b i (\<lambda>p. p\<lparr>PhiIn := xs\<rparr>) (Phis st1)\<rparr>"
    using assms(1) by (auto simp: addPHIOperand_def rbind_eq_Inr_iff)
  obtain p where p: "phi_changed S b i st st1 p" "recast (Phis st1) (PhiTy p) v w" using merge_phi_type_spec[OF s(1) assms(2-)] by blast
  have pi: "Phis st1 b ! i = p" "i < length (Phis st1 b)" using p(1) assms(2) by (auto simp: phi_changed_def)
  obtain j c where j: "j < length (PhiIn p)" "PhiIn p ! j = (k, c)" "is_undef c" "xs = (PhiIn p)[j := (k, w)]"
    using set_operand_update[OF s(2)] pi by auto
  let ?p = "p\<lparr>PhiIn := xs\<rparr>"
  have phis: "Phis st' = (Phis st1)(b := (Phis st1 b)[i := ?p])" using s(3) pi by (simp add: update_phi_def)
  have x: "(m, u) \<in> set (PhiIn p) \<or> m = k \<and> u = w" if "(m, u) \<in> set xs" for m u
    using that set_update_subset_insert[of "PhiIn p" j "(k, w)"] unfolding j(4) by blast
  have cf: "comes_from S ?p" using x p assms(6) by (fastforce simp: comes_from_def phi_changed_def recast_def)
  have "phi_typed (Phis st1) ?p" using x p by (fastforce simp: phi_typed_def phi_changed_def recast_def)
  then have "phi_typed (Phis st') ?p" unfolding phis using phi_typed_frame[OF cf assms(5)] by simp
  moreover have "(k, w) \<in> set xs" using j by (auto simp: set_update_memI)
  then have "carried ?p k (source v)" using p(2) by (auto simp: carried_def recast_def)
  moreover have "carried ?p m y" if c: "carried p m y" for m y
  proof -
    obtain u where u: "(m, u) \<in> set (PhiIn p)" "\<not> is_undef u" "source u = y" using c by (auto simp: carried_def)
    then obtain l where "l < length (PhiIn p)" "PhiIn p ! l = (m, u)" by (auto simp: in_set_conv_nth)
    then have "xs ! l = (m, u)" "l < length xs" using j u(2) by (auto simp: nth_list_update)
    then have "(m, u) \<in> set xs" by (metis nth_mem)
    then show ?thesis using u by (auto simp: carried_def)
  qed
  ultimately show ?thesis using p(1) phis cf s(3) by (intro exI[of _ ?p]) (simp add: phi_changed_def)
qed


subsection \<open>Blocks\<close>

definition merge_inv :: "Value set \<Rightarrow> MergeState \<Rightarrow> bool" where
  "merge_inv S st \<longleftrightarrow> (\<forall>c. \<forall>p \<in> set (Phis st c). phi_typed (Phis st) p \<and> comes_from S p) \<and> (\<forall>c. Stacks st c = None \<longrightarrow> Phis st c = [])"

definition keeps :: "MergeState \<Rightarrow> MergeState \<Rightarrow> bool" where
  "keeps st st' \<longleftrightarrow> (\<forall>c. length (Phis st c) \<le> length (Phis st' c)
     \<and> (\<forall>i < length (Phis st c). \<forall>k x. carried (Phis st c ! i) k x \<longrightarrow> carried (Phis st' c ! i) k x))"

definition has_operands :: "node \<Rightarrow> node \<Rightarrow> nat \<Rightarrow> Value list \<Rightarrow> MergeState \<Rightarrow> bool" where
  "has_operands cur b i vs st \<longleftrightarrow> i + length vs \<le> length (Phis st b) \<and> (\<forall>j < length vs. carried (Phis st b ! (i + j)) cur (source (vs ! j)))"

lemma keeps_refl: "keeps st st"
  by (simp add: keeps_def)

lemma keeps_trans: "keeps s1 s2 \<Longrightarrow> keeps s2 s3 \<Longrightarrow> keeps s1 s3"
  unfolding keeps_def by (meson order_less_le_trans order_trans)

lemma keeps_operands: "keeps s1 s2 \<Longrightarrow> has_operands cur b i vs s1 \<Longrightarrow> has_operands cur b i vs s2"
  unfolding keeps_def has_operands_def by (meson nat_add_left_cancel_less order_less_le_trans order_trans)

lemma merge_inv_mono: "merge_inv S st \<Longrightarrow> S \<subseteq> S' \<Longrightarrow> merge_inv S' st"
  by (fastforce simp: merge_inv_def comes_from_def)

lemma addPHIOperand_keeps:
  assumes "addPHIOperand env b i v k st = Inr st'" "i < length (Phis st b)" "merge_inv S st" "avoids S b" "v \<in> S" "\<not> is_undef v"
  shows "merge_inv S st' \<and> keeps st st' \<and> carried (Phis st' b ! i) k (source v) \<and> length (Phis st' b) = length (Phis st b)
    \<and> Stacks st' = Stacks st"
proof -
  have "Phis st b ! i \<in> set (Phis st b)" using assms(2) by simp
  then have "phi_typed (Phis st) (Phis st b ! i)" "comes_from S (Phis st b ! i)" using assms(3) unfolding merge_inv_def by blast+
  from addPHIOperand_spec[OF assms(1,2) this assms(4-6)] obtain p where p: "phi_changed S b i st st' p" "carried p k (source v)" by blast
  have phis: "Phis st' = (Phis st)(b := (Phis st b)[i := p])" using p(1) by (simp add: phi_changed_def)
  have "phi_typed (Phis st') q \<and> comes_from S q" if q: "q \<in> set (Phis st' c)" for c q
  proof (cases "q = p")
    case True
    then show ?thesis using p(1) by (auto simp: phi_changed_def)
  next
    case False
    then have "q \<in> set (Phis st c)" using q phis set_update_subset_insert[of "Phis st b" i p] by (auto split: if_splits)
    then have "phi_typed (Phis st) q" "comes_from S q" using assms(3) unfolding merge_inv_def by blast+
    then show ?thesis unfolding phis using phi_typed_frame[OF _ assms(4)] by simp
  qed
  moreover have "Stacks st' c = None \<longrightarrow> Phis st' c = []" for c
    using assms(2,3) p(1) by (auto simp: phi_changed_def merge_inv_def)
  moreover have "keeps st st'" using p assms(2) by (auto simp: keeps_def phi_changed_def nth_list_update)
  ultimately show ?thesis using p assms(2) by (auto simp: merge_inv_def phi_changed_def)
qed

lemma createPHINode_keeps:
  assumes "merge_inv S st" "avoids S b" "Stacks st b \<noteq> None"
  shows "merge_inv S (createPHINode g b v st) \<and> keeps st (createPHINode g b v st)
    \<and> length (Phis (createPHINode g b v st) b) = Suc (length (Phis st b)) \<and> Stacks (createPHINode g b v st) = Stacks st"
proof -
  let ?st = "createPHINode g b v st"
  obtain p where p: "Phis ?st = (Phis st)(b := Phis st b @ [p])" "\<forall>(k, u) \<in> set (PhiIn p). is_undef u"
    by (auto simp: createPHINode_def Let_def is_undef_def)
  have "phi_typed (Phis ?st) q \<and> comes_from S q" if q: "q \<in> set (Phis ?st c)" for c q
  proof (cases "q = p")
    case True
    then show ?thesis using p(2) by (auto simp: phi_typed_def comes_from_def)
  next
    case False
    then have "q \<in> set (Phis st c)" using q p(1) by (auto split: if_splits)
    then have "phi_typed (Phis st) q" "comes_from S q" using assms(1) unfolding merge_inv_def by blast+
    then show ?thesis unfolding p using phi_typed_frame[OF _ assms(2)] by simp
  qed
  moreover have "Stacks ?st = Stacks st" by (simp add: createPHINode_def Let_def)
  moreover have "keeps st ?st" using p(1) by (auto simp: keeps_def nth_append)
  ultimately show ?thesis using assms p(1) by (auto simp: merge_inv_def)
qed

lemma merge_inv_stacks: "merge_inv S st \<Longrightarrow> merge_inv S (st\<lparr>Stacks := (Stacks st)(b := Some vs)\<rparr>)"
  by (simp add: merge_inv_def)

lemma keeps_stacks: "keeps st (st'\<lparr>Stacks := X\<rparr>) = keeps st st'" "keeps (st\<lparr>Stacks := X\<rparr>) st' = keeps st st'"
  by (simp_all add: keeps_def)

lemma has_operands_Cons:
  assumes "has_operands cur b (Suc i) vs st" "i < length (Phis st b)" "carried (Phis st b ! i) cur (source v)"
  shows "has_operands cur b i (v # vs) st"
proof -
  have "carried (Phis st b ! (i + j)) cur (source ((v # vs) ! j))" if "j < length (v # vs)" for j
    using that assms by (cases j) (auto simp: has_operands_def)
  then show ?thesis using assms(1) by (simp add: has_operands_def)
qed

lemma add_operands_spec:
  assumes "add_operands env g create cur b i vs st = Inr st'" "merge_inv S st" "avoids S b" "set vs \<subseteq> S" "\<forall>v \<in> set vs. \<not> is_undef v"
    "Stacks st b \<noteq> None" "create \<Longrightarrow> i = length (Phis st b)" "i \<le> length (Phis st b)"
  shows "merge_inv S st' \<and> keeps st st' \<and> has_operands cur b i vs st'"
  using assms
proof (induction env g create cur b i vs st rule: add_operands.induct)
  case (1 env g create cur b i st)
  then show ?case by (auto simp: keeps_refl has_operands_def split: if_splits)
next
  case (2 env g create cur b i v vs st)
  let ?s1 = "if create then createPHINode g b v st else st"
  have s1: "merge_inv S ?s1" "keeps st ?s1" "Stacks ?s1 = Stacks st" "create \<Longrightarrow> length (Phis ?s1 b) = Suc i"
    using createPHINode_keeps[OF "2.prems"(2,3,6)] "2.prems"(2,7) by (auto simp: keeps_refl)
  obtain s2 where s2: "i < length (Phis ?s1 b)" "addPHIOperand env b i v cur ?s1 = Inr s2"
    "add_operands env g create cur b (Suc i) vs
       (if create then s2\<lparr>Stacks := (Stacks s2)(b := Some (the (Stacks s2 b) @ [PhiOf b i]))\<rparr> else s2) = Inr st'"
    using "2.prems"(1) by (auto simp: Let_def rbind_eq_Inr_iff split: if_splits)
  let ?s3 = "if create then s2\<lparr>Stacks := (Stacks s2)(b := Some (the (Stacks s2 b) @ [PhiOf b i]))\<rparr> else s2"
  have k2: "merge_inv S s2" "keeps ?s1 s2" "carried (Phis s2 b ! i) cur (source v)" "length (Phis s2 b) = length (Phis ?s1 b)"
     "Stacks s2 = Stacks ?s1"
    using addPHIOperand_keeps[OF s2(2,1) s1(1) "2.prems"(3)] "2.prems"(4,5) by auto
  have "merge_inv S ?s3" using merge_inv_stacks[OF k2(1)] k2(1) by simp
  moreover have "keeps st ?s3" using keeps_trans[OF s1(2) k2(2)] by (simp add: keeps_stacks)
  moreover have "merge_inv S st' \<and> keeps ?s3 st' \<and> has_operands cur b (Suc i) vs st'"
    by (rule "2.IH"[OF refl s2(1) _ s2(3)]) (use k2 s1 s2 "2.prems" calculation in \<open>auto simp: merge_inv_stacks\<close>)
  moreover have "has_operands cur b i [v] s2" using k2(3,4) s2(1) by (simp add: has_operands_def)
  then have "has_operands cur b i [v] ?s3" by (simp add: has_operands_def)
  ultimately show ?case
    using keeps_trans keeps_operands[of ?s3 st' cur b i "[v]"] has_operands_Cons[of cur b i vs st' v] by (auto simp: has_operands_def)
qed


lemma maintain_successor_spec:
  assumes "maintain_successor env g cur vs b st = Inr st'" "merge_inv S st" "set vs \<subseteq> S" "\<forall>v \<in> set vs. \<not> is_undef v"
    "fgNodeHasMultiplePredsPropagatingStack g b \<Longrightarrow> avoids S b"
  shows "merge_inv S st' \<and> keeps st st' \<and> (fgNodeHasMultiplePredsPropagatingStack g b \<longrightarrow> has_operands cur b 0 vs st')"
proof (cases "fgNodeHasMultiplePredsPropagatingStack g b")
  case False
  then show ?thesis using assms(1,2)
    by (auto simp: maintain_successor_def merge_inv_stacks keeps_stacks keeps_refl split: if_splits)
next
  case multi: True
  show ?thesis
  proof (cases "Stacks st b")
    case None
    let ?st = "st\<lparr>Stacks := (Stacks st)(b := Some [])\<rparr>"
    have e: "Phis st b = []" using None assms(2) by (simp add: merge_inv_def)
    have "add_operands env g True cur b 0 vs ?st = Inr st'" using assms(1) multi None e by (simp add: maintain_successor_def)
    from add_operands_spec[OF this merge_inv_stacks[OF assms(2)] assms(5)[OF multi] assms(3,4)] show ?thesis
      using multi e by (simp add: keeps_stacks)
  next
    case (Some us)
    then have "add_operands env g False cur b 0 vs st = Inr st'" using assms(1) multi by (simp add: maintain_successor_def)
    from add_operands_spec[OF this assms(2) assms(5)[OF multi] assms(3,4)] show ?thesis using multi Some by simp
  qed
qed

lemma maintain_successors_spec:
  assumes "maintain_successors env g cur vs xs st = Inr st'" "merge_inv S st" "set vs \<subseteq> S" "\<forall>v \<in> set vs. \<not> is_undef v"
    "\<forall>b \<in> set xs. fgNodeHasMultiplePredsPropagatingStack g b \<longrightarrow> avoids S b"
  shows "merge_inv S st' \<and> keeps st st' \<and> (\<forall>b \<in> set xs. fgNodeHasMultiplePredsPropagatingStack g b \<longrightarrow> has_operands cur b 0 vs st')"
  using assms
proof (induction xs arbitrary: st)
  case (Cons b xs)
  obtain s1 where s1: "maintain_successor env g cur vs b st = Inr s1" "maintain_successors env g cur vs xs s1 = Inr st'"
    using Cons.prems(1) by (auto simp: rbind_eq_Inr_iff)
  have 1: "merge_inv S s1" "keeps st s1" "fgNodeHasMultiplePredsPropagatingStack g b \<longrightarrow> has_operands cur b 0 vs s1"
    using maintain_successor_spec[OF s1(1) Cons.prems(2-4)] Cons.prems(5) by auto
  have 2: "merge_inv S st'" "keeps s1 st'" "\<forall>b \<in> set xs. fgNodeHasMultiplePredsPropagatingStack g b \<longrightarrow> has_operands cur b 0 vs st'"
    using Cons.IH[OF s1(2) 1(1) Cons.prems(3,4)] Cons.prems(5) by auto
  show ?case using 1 2 keeps_trans[OF 1(2) 2(2)] keeps_operands[OF 2(2)] by auto
qed (simp add: keeps_refl)

text \<open>A run goes forward: the PHIs of a successor with several predecessors are on no stack before.\<close>

fun forward :: "FlowGraph \<Rightarrow> Value set \<Rightarrow> (node \<times> Value list) list \<Rightarrow> bool" where
  "forward g S [] \<longleftrightarrow> True"
| "forward g S ((cur, vs) # xs) \<longleftrightarrow>
     (\<forall>b \<in> set (fgNodeGetSuccessorsActual g cur). fgNodeHasMultiplePredsPropagatingStack g b \<longrightarrow> avoids (S \<union> set vs) b)
     \<and> (\<forall>v \<in> set vs. \<not> is_undef v) \<and> forward g (S \<union> set vs) xs"

lemma maintain_all_spec:
  assumes "maintain_all env g run st = Inr st'" "merge_inv S st" "forward g S run"
  shows "(\<exists>S'. merge_inv S' st') \<and> keeps st st' \<and> (\<forall>(cur, vs) \<in> set run. \<forall>b \<in> set (fgNodeGetSuccessorsActual g cur).
     fgNodeHasMultiplePredsPropagatingStack g b \<longrightarrow> has_operands cur b 0 vs st')"
  using assms
proof (induction env g run st arbitrary: S rule: maintain_all.induct)
  case (1 env g st)
  then show ?case by (auto simp: keeps_refl)
next
  case (2 env g cur vs xs st)
  obtain s1 where s1: "maintainOperandStack env g cur vs st = Inr s1" "maintain_all env g xs s1 = Inr st'"
    using "2.prems"(1) by (auto simp: rbind_eq_Inr_iff)
  let ?S = "S \<union> set vs"
  have m: "merge_inv ?S st" using merge_inv_mono[OF "2.prems"(2)] by blast
  have 1: "merge_inv ?S s1 \<and> keeps st s1 \<and> (\<forall>b \<in> set (fgNodeGetSuccessorsActual g cur).
     fgNodeHasMultiplePredsPropagatingStack g b \<longrightarrow> has_operands cur b 0 vs s1)"
  proof (cases "vs = []")
    case True
    then show ?thesis using s1(1) m by (auto simp: maintainOperandStack_def keeps_refl has_operands_def)
  next
    case False
    then show ?thesis using maintain_successors_spec[of env g cur vs _ st s1 ?S] s1(1) m "2.prems"(3) by (simp add: maintainOperandStack_def)
  qed
  have 2: "(\<exists>S'. merge_inv S' st') \<and> keeps s1 st' \<and> (\<forall>(cur, vs) \<in> set xs. \<forall>b \<in> set (fgNodeGetSuccessorsActual g cur).
     fgNodeHasMultiplePredsPropagatingStack g b \<longrightarrow> has_operands cur b 0 vs st')"
    using "2.IH"[OF s1, of ?S] 1 "2.prems"(3) by simp
  show ?case using 1 2 keeps_trans[of st s1 st'] keeps_operands[of s1 st' cur _ 0 vs] by auto
qed

subsection \<open>Properties\<close>

definition no_stacks :: MergeState where
  "no_stacks = \<lparr>Phis = (\<lambda>_. []), Stacks = (\<lambda>_. None), NextCast = 0\<rparr>"

lemma no_stacks_inv: "merge_inv {} no_stacks"
  by (simp add: merge_inv_def no_stacks_def)



definition sample_merge_env :: MergeEnv where
  "sample_merge_env = \<lparr>PointerBits = 64, ReverseClassTypeMap = (\<lambda>_. None), mergeClasses = (\<lambda>a b. a), isValueClass = (\<lambda>_. False),
     ObjectClass = 0, classType = (\<lambda>_. VPtr (VStruct ''Object'' False []) 1)\<rparr>"

definition sample_stacks :: "(node \<times> Value list) list" where
  "sample_stacks = [(1, [Operand 0 VFloat False]), (2, [Operand 1 VDouble False])]"

lemma diamond_join:
  "fgNodeGetPredecessorsActual diamond 3 = [1, 2, 4]" "fgNodeGetSuccessorsActual diamond 1 = [3]" "fgNodeGetSuccessorsActual diamond 2 = [3]"
  "fgNodeHasMultiplePredsPropagatingStack diamond 3"
proof -
  show p: "fgNodeGetPredecessorsActual diamond 3 = [1, 2, 4]"
    by (simp add: fgNodeGetPredecessorsActual_def fgNodeGetPredecessors_def fgEdgeIsNominal_def diamond_eval upt_rec)
  show "fgNodeHasMultiplePredsPropagatingStack diamond 3"
    unfolding fgNodeHasMultiplePredsPropagatingStack_def p by (simp add: fgNodePropagatesOperandStack_def diamond_eval)
qed (simp_all add: fgNodeGetSuccessorsActual_def fgEdgeIsNominal_def diamond_eval)

lemma Term_diamond: "Term (Nodes diamond ! 3) = UnreachableInst"
  by (simp add: diamond_eval)

lemma sample_merged:
  "\<exists>st. maintain_all sample_merge_env diamond sample_stacks no_stacks = Inr st
     \<and> Phis st 3 = [\<lparr>PhiTy = VDouble, PhiStruct = False,
          PhiIn = [(1, Cast 0 FPCast (Operand 0 VFloat False) VDouble), (2, Operand 1 VDouble False), (4, UndefOf VFloat)]\<rparr>]"
  by (simp add: sample_stacks_def maintainOperandStack_def diamond_join maintain_successor_def no_stacks_def createPHINode_def addPHIOperand_def
      merge_phi_type_def is_undef_def update_phi_def getStackMergeType_def sample_merge_env_def change_phi_type_def changePHIOperandType_def
      make_cast_def is_int_type_def is_fp_type_def Term_diamond del: One_nat_def)


end
