(* ===== verification/GenArith.thy ===== *)
theory GenArith
  imports StackMerge MethodSignature
begin

section \<open>Code for arithmetic\<close>

text \<open>
  lib/Reader/readerir.cpp: the IR that GenIR makes for the arithmetic, the conversions, the comparisons, the
  shifts and the checks of the instruction set. An IR value is a term over the operands of the instruction; a
  check is a conditional call of a helper that throws, and a piece of code is the checks in their order with the
  value behind them. The target is 64-bit. A meaning is given to integers and pointers (a pointer is its
  address), as LLVM defines it: an operation whose result LLVM leaves undefined has none.
\<close>

subsection \<open>Intermediate representation\<close>

datatype BinOp = IRAdd | IRSub | IRMul | IRSDiv | IRUDiv | IRSRem | IRURem | IRAnd | IROr | IRXor | IRShl | IRAShr | IRLShr
  | IRFAdd | IRFSub | IRFMul | IRFDiv | IRFRem

datatype OvfIntrinsic = SAddOvf | UAddOvf | SSubOvf | USubOvf | SMulOvf | UMulOvf

datatype Predicate = ICMP_EQ | ICMP_NE | ICMP_SGT | ICMP_SGE | ICMP_SLT | ICMP_SLE | ICMP_UGT | ICMP_UGE | ICMP_ULT | ICMP_ULE
  | FCMP_OEQ | FCMP_OGT | FCMP_OGE | FCMP_OLT | FCMP_OLE | FCMP_UGT | FCMP_UGE | FCMP_ULT | FCMP_ULE | FCMP_UNE

datatype IR =
    IROperand nat VType
  | IRConst VType int
  | IRBin BinOp IR IR
  | IRExtract0 OvfIntrinsic IR IR     \<comment> \<open>the result of the pair that an intrinsic returns\<close>
  | IRExtract1 OvfIntrinsic IR IR     \<comment> \<open>its overflow bit\<close>
  | IRCmp Predicate IR IR
  | IRIntCast IR VType bool           \<comment> \<open>whether it extends the sign\<close>
  | IRPtrToInt IR VType
  | IRIntToPtr IR VType
  | IRPointerCast IR VType
  | IRFPCast IR VType
  | IRFPToInt IR VType bool
  | IRIntToFP IR VType bool
  | IRNeg IR
  | IRFNeg IR
  | IRNot IR
  | IRGep IR IR                       \<comment> \<open>a byte offset from a base\<close>
  | IRCall string "IR list" VType

fun ir_type :: "IR \<Rightarrow> VType" where
  "ir_type (IROperand _ t) = t"
| "ir_type (IRConst t _) = t"
| "ir_type (IRBin _ a _) = ir_type a"
| "ir_type (IRExtract0 _ a _) = ir_type a"
| "ir_type (IRExtract1 _ _ _) = VInt 1"
| "ir_type (IRCmp _ _ _) = VInt 1"
| "ir_type (IRIntCast _ t _) = t"
| "ir_type (IRPtrToInt _ t) = t"
| "ir_type (IRIntToPtr _ t) = t"
| "ir_type (IRPointerCast _ t) = t"
| "ir_type (IRFPCast _ t) = t"
| "ir_type (IRFPToInt _ t _) = t"
| "ir_type (IRIntToFP _ t _) = t"
| "ir_type (IRNeg a) = ir_type a"
| "ir_type (IRFNeg a) = ir_type a"
| "ir_type (IRNot a) = ir_type a"
| "ir_type (IRGep a _) = ir_type a"
| "ir_type (IRCall _ _ t) = t"

type_synonym Check = "IR \<times> string"
type_synonym Code = "Check list \<times> IR"

definition TargetPointerSizeInBits :: nat where
  "TargetPointerSizeInBits = 64"

definition NativeInt :: VType where
  "NativeInt = VInt TargetPointerSizeInBits"

text \<open>The builder's casts return the value itself where nothing changes.\<close>

definition CreateIntCast :: "IR \<Rightarrow> VType \<Rightarrow> bool \<Rightarrow> IR" where
  "CreateIntCast a t sx = (if ir_type a = t then a else IRIntCast a t sx)"

definition CreatePointerCast :: "IR \<Rightarrow> VType \<Rightarrow> IR" where
  "CreatePointerCast a t = (if ir_type a = t then a else if is_int_type t then IRPtrToInt a t else IRPointerCast a t)"

subsection \<open>Types of the evaluation stack\<close>

definition getPrimitiveSizeInBits :: "VType \<Rightarrow> nat" where
  "getPrimitiveSizeInBits t = (case t of VInt n \<Rightarrow> n | VFloat \<Rightarrow> 32 | VDouble \<Rightarrow> 64 | _ \<Rightarrow> 0)"

definition stackSize :: "CorInfoType \<Rightarrow> nat result" where
  "stackSize c =
     (if c \<in> {CORINFO_TYPE_BOOL, CORINFO_TYPE_CHAR, CORINFO_TYPE_BYTE, CORINFO_TYPE_UBYTE, CORINFO_TYPE_SHORT, CORINFO_TYPE_USHORT,
        CORINFO_TYPE_INT, CORINFO_TYPE_UINT, CORINFO_TYPE_FLOAT} then Inr 32
      else if c \<in> {CORINFO_TYPE_LONG, CORINFO_TYPE_ULONG, CORINFO_TYPE_DOUBLE} then Inr 64
      else if c \<in> {CORINFO_TYPE_NATIVEINT, CORINFO_TYPE_NATIVEUINT, CORINFO_TYPE_PTR, CORINFO_TYPE_BYREF, CORINFO_TYPE_CLASS}
      then Inr TargetPointerSizeInBits
      else Inl (AssertFailed ''UNREACHED''))"

text \<open>\<open>size\<close> of the source, which has 8 bits for a character and 16 for an unsigned byte.\<close>

definition size_of :: "CorInfoType \<Rightarrow> nat result" where
  "size_of c =
     (if c \<in> {CORINFO_TYPE_BOOL, CORINFO_TYPE_CHAR, CORINFO_TYPE_BYTE} then Inr 8
      else if c \<in> {CORINFO_TYPE_UBYTE, CORINFO_TYPE_SHORT, CORINFO_TYPE_USHORT} then Inr 16
      else if c \<in> {CORINFO_TYPE_INT, CORINFO_TYPE_UINT, CORINFO_TYPE_FLOAT} then Inr 32
      else if c \<in> {CORINFO_TYPE_LONG, CORINFO_TYPE_ULONG, CORINFO_TYPE_DOUBLE} then Inr 64
      else if c \<in> {CORINFO_TYPE_NATIVEINT, CORINFO_TYPE_NATIVEUINT, CORINFO_TYPE_PTR, CORINFO_TYPE_BYREF, CORINFO_TYPE_CLASS}
      then Inr TargetPointerSizeInBits
      else Inl (AssertFailed ''UNREACHED''))"

text \<open>\<open>getType\<close> on the types that need no class.\<close>

definition getType_primitive :: "CorInfoType \<Rightarrow> VType result" where
  "getType_primitive c =
     (if c = CORINFO_TYPE_VOID then Inr VVoid
      else if c \<in> {CORINFO_TYPE_BOOL, CORINFO_TYPE_BYTE, CORINFO_TYPE_UBYTE} then Inr (VInt 8)
      else if c \<in> {CORINFO_TYPE_SHORT, CORINFO_TYPE_USHORT, CORINFO_TYPE_CHAR} then Inr (VInt 16)
      else if c \<in> {CORINFO_TYPE_INT, CORINFO_TYPE_UINT} then Inr (VInt 32)
      else if c \<in> {CORINFO_TYPE_LONG, CORINFO_TYPE_ULONG} then Inr (VInt 64)
      else if c \<in> {CORINFO_TYPE_NATIVEINT, CORINFO_TYPE_NATIVEUINT} then Inr NativeInt
      else if c = CORINFO_TYPE_FLOAT then Inr VFloat
      else if c = CORINFO_TYPE_DOUBLE then Inr VDouble
      else Inl (NYI ''unexpected CorInfoType in GetType''))"

definition convertToStackType :: "IR \<Rightarrow> CorInfoType \<Rightarrow> IR result" where
  "convertToStackType a c =
     (case ir_type a of
        VInt Size \<Rightarrow>
          rbind (stackSize c) (\<lambda>DesiredSize.
          if Size > DesiredSize then Inl (AssertFailed ''Size <= DesiredSize'')
          else if Size < DesiredSize then rbind (isSigned c) (\<lambda>IsSigned. Inr (CreateIntCast a (VInt DesiredSize) IsSigned))
          else Inr a)
      | VPtr _ _ \<Rightarrow> Inr a | VFloat \<Rightarrow> Inr a | VDouble \<Rightarrow> Inr a | VVector _ _ \<Rightarrow> Inr a
      | _ \<Rightarrow> Inl (AssertFailed ''UNREACHED''))"

text \<open>The pointer case is the one of a value that does not stand for a struct.\<close>

definition convertFromStackType :: "IR \<Rightarrow> CorInfoType \<Rightarrow> VType \<Rightarrow> IR result" where
  "convertFromStackType a c ResultTy =
     (case ir_type a of
        VInt Size \<Rightarrow>
          rbind (size_of c) (\<lambda>DesiredSize.
          let NeedsReinterpret = (c = CORINFO_TYPE_PTR \<or> c = CORINFO_TYPE_BYREF) in
          if Size > DesiredSize
          then if NeedsReinterpret then Inl (AssertFailed ''cannot reinterpret and truncate'')
               else rbind (isSigned c) (\<lambda>IsSigned. Inr (CreateIntCast a ResultTy IsSigned))
          else if Size < DesiredSize
          then if NeedsReinterpret then Inl (AssertFailed ''cannot reinterpret and extend'')
               else if c = CORINFO_TYPE_NATIVEINT \<or> c = CORINFO_TYPE_NATIVEUINT
               then Inr (CreateIntCast a ResultTy (c = CORINFO_TYPE_NATIVEINT))
               else Inl (AssertFailed ''only expect to extend to native int or uint'')
          else Inr (if NeedsReinterpret then IRIntToPtr a ResultTy else a))
      | VFloat \<Rightarrow> rbind (size_of c) (\<lambda>DesiredSize. if DesiredSize \<noteq> 32 then rbind (getType_primitive c) (\<lambda>t. Inr (IRFPCast a t)) else Inr a)
      | VDouble \<Rightarrow> rbind (size_of c) (\<lambda>DesiredSize. if DesiredSize \<noteq> 64 then rbind (getType_primitive c) (\<lambda>t. Inr (IRFPCast a t)) else Inr a)
      | VPtr _ _ \<Rightarrow> Inr (CreatePointerCast a ResultTy)
      | VVector _ _ \<Rightarrow> Inr a
      | _ \<Rightarrow> Inl (AssertFailed ''UNREACHED''))"

subsection \<open>Unary and binary operations\<close>

definition genConditionalThrow :: "IR \<Rightarrow> string \<Rightarrow> Check" where
  "genConditionalThrow Condition HelperId = (Condition, HelperId)"

definition unaryOp :: "UnaryOpcode \<Rightarrow> IR \<Rightarrow> IR" where
  "unaryOp Opcode a = (case Opcode of Neg \<Rightarrow> if is_fp_type (ir_type a) then IRFNeg a else IRNeg a | Not_op \<Rightarrow> IRNot a)"

text \<open>A row of the maps: the operation or intrinsic, and \<open>IsUnsigned\<close>; \<open>IsOverflow\<close> is true for the intrinsics. The
  rows that are left empty are no operation of LLVM.\<close>

datatype BinaryTriple = OpTriple BinOp bool | IntrinsicTriple OvfIntrinsic bool | InvalidTriple

fun IntMap :: "BinaryOpcode \<Rightarrow> BinaryTriple" where
  "IntMap Add = OpTriple IRAdd False"
| "IntMap AddOvf = IntrinsicTriple SAddOvf False"
| "IntMap AddOvfUn = IntrinsicTriple UAddOvf True"
| "IntMap And = OpTriple IRAnd False"
| "IntMap Div = OpTriple IRSDiv False"
| "IntMap DivUn = OpTriple IRUDiv True"
| "IntMap Mul = OpTriple IRMul False"
| "IntMap MulOvf = IntrinsicTriple SMulOvf False"
| "IntMap MulOvfUn = IntrinsicTriple UMulOvf True"
| "IntMap Or = OpTriple IROr False"
| "IntMap Rem = OpTriple IRSRem False"
| "IntMap RemUn = OpTriple IRURem True"
| "IntMap Sub = OpTriple IRSub False"
| "IntMap SubOvf = IntrinsicTriple SSubOvf False"
| "IntMap SubOvfUn = IntrinsicTriple USubOvf True"
| "IntMap Xor = OpTriple IRXor False"

fun FloatMap :: "BinaryOpcode \<Rightarrow> BinaryTriple" where
  "FloatMap Add = OpTriple IRFAdd False"
| "FloatMap Div = OpTriple IRFDiv False"
| "FloatMap Mul = OpTriple IRFMul False"
| "FloatMap Rem = OpTriple IRFRem False"
| "FloatMap Sub = OpTriple IRFSub False"
| "FloatMap _ = InvalidTriple"

definition is_add :: "BinaryOpcode \<Rightarrow> bool" where
  "is_add Opcode = (Opcode \<in> {Add, AddOvf, AddOvfUn})"

definition is_sub :: "BinaryOpcode \<Rightarrow> bool" where
  "is_sub Opcode = (Opcode \<in> {Sub, SubOvf, SubOvfUn})"

definition operand_size :: "VType \<Rightarrow> nat" where
  "operand_size t = (if is_pointer_type t then TargetPointerSizeInBits else getPrimitiveSizeInBits t)"

definition int_op_type :: "VType \<Rightarrow> VType \<Rightarrow> VType result" where
  "int_op_type Type1 Type2 =
     (let Size1 = operand_size Type1; Size2 = operand_size Type2 in
      if Size1 = Size2 then Inr Type1
      else if Size1 = TargetPointerSizeInBits \<and> Size1 > Size2 then Inr Type1
      else if Size2 = TargetPointerSizeInBits \<and> Size2 > Size1 then Inr Type2
      else Inl (AssertFailed ''UNREACHED''))"

definition pointer_op_type :: "BinaryOpcode \<Rightarrow> VType \<Rightarrow> VType \<Rightarrow> VType result" where
  "pointer_op_type Opcode Type1 Type2 =
     (let Size1 = operand_size Type1; Size2 = operand_size Type2 in
      if unmanaged_pointer_type Type1 \<or> unmanaged_pointer_type Type2
      then if (is_add Opcode \<or> is_sub Opcode) \<and> unmanaged_pointer_type Type1 \<and> is_int_type Type2 \<and> Size1 \<ge> Size2 then Inr Type1
           else if is_add Opcode \<and> is_int_type Type1 \<and> unmanaged_pointer_type Type2 \<and> Size2 \<ge> Size1 then Inr Type2
           else if Size1 \<le> TargetPointerSizeInBits \<and> Size2 \<le> TargetPointerSizeInBits then Inr NativeInt
           else Inl (AssertFailed ''UNREACHED'')
      else if gc_pointer_type Type1
      then if is_sub Opcode \<and> gc_pointer_type Type2 then Inr NativeInt
           else if (Opcode = Add \<or> Opcode = Sub) \<and> is_int_type Type2 \<and> Size1 \<ge> Size2 then Inr Type1
           else Inl (AssertFailed ''UNREACHED'')
      else Inl (AssertFailed ''UNREACHED''))"

definition binaryOpType :: "BinaryOpcode \<Rightarrow> VType \<Rightarrow> VType \<Rightarrow> VType result" where
  "binaryOpType Opcode Type1 Type2 =
     (if is_fp_type Type1 \<and> is_fp_type Type2
      then Inr (if getPrimitiveSizeInBits Type1 \<ge> getPrimitiveSizeInBits Type2 then Type1 else Type2)
      else if \<not> (is_int_type Type1 \<or> is_pointer_type Type1) then Inl (AssertFailed ''unexpected operand type1 for binary op'')
      else if \<not> (is_int_type Type2 \<or> is_pointer_type Type2) then Inl (AssertFailed ''unexpected operand type2 for binary op'')
      else if is_int_type Type1 \<and> is_int_type Type2 then int_op_type Type1 Type2
      else pointer_op_type Opcode Type1 Type2)"

text \<open>The conversion of an operand to the type of the arithmetic.\<close>

definition convert_operand :: "VType \<Rightarrow> IR \<Rightarrow> bool \<Rightarrow> IR result" where
  "convert_operand Ty a SourceIsSigned =
     (let SourceTy = ir_type a in
      if Ty = SourceTy then Inr a
      else if is_int_type SourceTy \<and> is_int_type Ty then Inr (CreateIntCast a Ty SourceIsSigned)
      else if is_fp_type SourceTy \<and> is_fp_type Ty then Inr (IRFPCast a Ty)
      else if is_pointer_type SourceTy \<and> is_int_type Ty then Inr (IRPtrToInt a Ty)
      else Inl (AssertFailed ''UNREACHED''))"

text \<open>Pointer and integer: a byte offset from the pointer; \<open>None\<close> is the null the source returns where the
  operands do not fit. The cast of the base to a byte pointer keeps the address space.\<close>

definition byte_pointer :: "IR \<Rightarrow> IR" where
  "byte_pointer a = (case ir_type a of VPtr _ s \<Rightarrow> IRPointerCast a (VPtr (VInt 8) s) | _ \<Rightarrow> a)"

definition genPointerAdd :: "IR \<Rightarrow> IR \<Rightarrow> IR option result" where
  "genPointerAdd a b =
     (let p1 = is_pointer_type (ir_type a); p2 = is_pointer_type (ir_type b) in
      if \<not> (p1 \<or> p2) then Inl (AssertFailed ''Arg1IsPointer || Arg2IsPointer'')
      else if p1 \<and> p2 then Inr None
      else let (BasePtr, Offset) = (if p2 then (b, a) else (a, b)) in
        if \<not> is_int_type (ir_type Offset) then Inr None else Inr (Some (IRGep (byte_pointer BasePtr) Offset)))"

definition genPointerSub :: "IR \<Rightarrow> IR \<Rightarrow> IR option result" where
  "genPointerSub a b =
     (let p1 = is_pointer_type (ir_type a); p2 = is_pointer_type (ir_type b) in
      if \<not> p1 then Inl (AssertFailed ''Arg1IsPointer'')
      else if p1 \<and> p2 then Inr None
      else if \<not> is_int_type (ir_type b) then Inr None else Inr (Some (IRGep (byte_pointer a) (IRNeg b))))"

definition pointer_shortcut :: "BinaryOpcode \<Rightarrow> VType \<Rightarrow> IR \<Rightarrow> IR \<Rightarrow> IR option result" where
  "pointer_shortcut Opcode ResultTy a b =
     (if is_pointer_type ResultTy
      then if Opcode = Add then genPointerAdd a b else if Opcode = Sub then genPointerSub a b else Inr None
      else Inr None)"

definition divides :: "BinOp \<Rightarrow> bool" where
  "divides Op = (Op \<in> {IRSDiv, IRUDiv, IRSRem, IRURem})"

definition arithmetic :: "BinaryOpcode \<Rightarrow> BinaryTriple \<Rightarrow> VType \<Rightarrow> IR \<Rightarrow> IR \<Rightarrow> Code result" where
  "arithmetic Opcode t ResultTy a b =
     (if is_fp_type ResultTy \<and> Opcode = Rem
      then Inr ([], IRCall (if ResultTy = VFloat then ''CORINFO_HELP_FLTREM'' else ''CORINFO_HELP_DBLREM'') [a, b] ResultTy)
      else case t of
        IntrinsicTriple i _ \<Rightarrow> Inr ([genConditionalThrow (IRExtract1 i a b) ''CORINFO_HELP_OVERFLOW''], IRExtract0 i a b)
      | OpTriple Op _ \<Rightarrow>
          Inr (if divides Op then [genConditionalThrow (IRCmp ICMP_EQ b (IRConst (ir_type b) 0)) ''CORINFO_HELP_THROWDIVZERO''] else [],
               IRBin Op a b)
      | InvalidTriple \<Rightarrow> Inl (AssertFailed ''invalid binary operation''))"

definition is_unsigned_triple :: "BinaryTriple \<Rightarrow> bool" where
  "is_unsigned_triple t = (case t of OpTriple _ u \<Rightarrow> u | IntrinsicTriple _ u \<Rightarrow> u | InvalidTriple \<Rightarrow> False)"

definition binaryOp :: "BinaryOpcode \<Rightarrow> IR \<Rightarrow> IR \<Rightarrow> Code result" where
  "binaryOp Opcode Arg1 Arg2 =
     rbind (binaryOpType Opcode (ir_type Arg1) (ir_type Arg2)) (\<lambda>ResultTy.
     rbind (pointer_shortcut Opcode ResultTy Arg1 Arg2) (\<lambda>shortcut.
     case shortcut of Some p \<Rightarrow> Inr ([], p)
     | None \<Rightarrow>
       (let ArithType = (if is_pointer_type ResultTy \<and> (Opcode = AddOvfUn \<or> Opcode = SubOvfUn) then NativeInt else ResultTy);
            t = (if is_fp_type ResultTy then FloatMap else IntMap) Opcode;
            IsUnsigned = is_unsigned_triple t in
        rbind (convert_operand ArithType Arg1 (\<not> IsUnsigned)) (\<lambda>a.
        rbind (convert_operand ArithType Arg2 (\<not> IsUnsigned)) (\<lambda>b.
        rbind (arithmetic Opcode t ResultTy a b) (\<lambda>(checks, r).
        Inr (checks, if ResultTy \<noteq> ArithType then IRIntToPtr r ResultTy else r)))))))"


subsection \<open>Conversions\<close>

fun conv_info :: "ConvOpcode \<Rightarrow> CorInfoType \<times> bool \<times> bool" where
  "conv_info ConvI1 = (CORINFO_TYPE_BYTE, False, False)"
| "conv_info ConvI2 = (CORINFO_TYPE_SHORT, False, False)"
| "conv_info ConvI4 = (CORINFO_TYPE_INT, False, False)"
| "conv_info ConvI8 = (CORINFO_TYPE_LONG, False, False)"
| "conv_info ConvR4 = (CORINFO_TYPE_FLOAT, False, False)"
| "conv_info ConvR8 = (CORINFO_TYPE_DOUBLE, False, False)"
| "conv_info ConvU1 = (CORINFO_TYPE_UBYTE, False, False)"
| "conv_info ConvU2 = (CORINFO_TYPE_USHORT, False, False)"
| "conv_info ConvU4 = (CORINFO_TYPE_UINT, False, False)"
| "conv_info ConvU8 = (CORINFO_TYPE_ULONG, False, False)"
| "conv_info ConvI = (CORINFO_TYPE_NATIVEINT, False, False)"
| "conv_info ConvU = (CORINFO_TYPE_NATIVEUINT, False, False)"
| "conv_info ConvOvfI1 = (CORINFO_TYPE_BYTE, True, False)"
| "conv_info ConvOvfI2 = (CORINFO_TYPE_SHORT, True, False)"
| "conv_info ConvOvfI4 = (CORINFO_TYPE_INT, True, False)"
| "conv_info ConvOvfI8 = (CORINFO_TYPE_LONG, True, False)"
| "conv_info ConvOvfU1 = (CORINFO_TYPE_UBYTE, True, False)"
| "conv_info ConvOvfU2 = (CORINFO_TYPE_USHORT, True, False)"
| "conv_info ConvOvfU4 = (CORINFO_TYPE_UINT, True, False)"
| "conv_info ConvOvfU8 = (CORINFO_TYPE_ULONG, True, False)"
| "conv_info ConvOvfI = (CORINFO_TYPE_NATIVEINT, True, False)"
| "conv_info ConvOvfU = (CORINFO_TYPE_NATIVEUINT, True, False)"
| "conv_info ConvOvfI1Un = (CORINFO_TYPE_BYTE, True, True)"
| "conv_info ConvOvfI2Un = (CORINFO_TYPE_SHORT, True, True)"
| "conv_info ConvOvfI4Un = (CORINFO_TYPE_INT, True, True)"
| "conv_info ConvOvfI8Un = (CORINFO_TYPE_LONG, True, True)"
| "conv_info ConvOvfU1Un = (CORINFO_TYPE_UBYTE, True, True)"
| "conv_info ConvOvfU2Un = (CORINFO_TYPE_USHORT, True, True)"
| "conv_info ConvOvfU4Un = (CORINFO_TYPE_UINT, True, True)"
| "conv_info ConvOvfU8Un = (CORINFO_TYPE_ULONG, True, True)"
| "conv_info ConvOvfIUn = (CORINFO_TYPE_NATIVEINT, True, True)"
| "conv_info ConvOvfUUn = (CORINFO_TYPE_NATIVEUINT, True, True)"
| "conv_info ConvRUn = (CORINFO_TYPE_DOUBLE, False, True)"

definition throw_overflow :: "IR \<Rightarrow> Check" where
  "throw_overflow Ovf = genConditionalThrow Ovf ''CORINFO_HELP_OVERFLOW''"

text \<open>The source of a checked conversion as an integer, and whether it is signed: a floating point value goes
  through a helper, a pointer is its address.\<close>

definition checked_source :: "IR \<Rightarrow> nat \<Rightarrow> bool \<Rightarrow> bool \<Rightarrow> (IR \<times> bool) result" where
  "checked_source Source TargetBitWidth SourceIsSigned DestIsSigned =
     (let t = ir_type Source in
      if is_fp_type t
      then let (Helper, HelperResultTy) =
             (if TargetBitWidth = 64 then (if DestIsSigned then ''CORINFO_HELP_DBL2LNG_OVF'' else ''CORINFO_HELP_DBL2ULNG_OVF'', VInt 64)
              else (if DestIsSigned then ''CORINFO_HELP_DBL2INT_OVF'' else ''CORINFO_HELP_DBL2UINT_OVF'', VInt 32));
             d = (if t = VFloat then IRFPCast Source VDouble else Source) in
           Inr (IRCall Helper [d] HelperResultTy, DestIsSigned)
      else if is_pointer_type t then Inr (IRPtrToInt Source NativeInt, SourceIsSigned)
      else if is_int_type t then Inr (Source, SourceIsSigned)
      else Inl (AssertFailed ''SourceTy->isIntegerTy()''))"

definition overflow_checks :: "IR \<Rightarrow> nat \<Rightarrow> bool \<Rightarrow> bool \<Rightarrow> Check list" where
  "overflow_checks Source TargetBitWidth SourceIsSigned DestIsSigned =
     (let SourceTy = ir_type Source; SourceBitWidth = getPrimitiveSizeInBits SourceTy; const = IRConst SourceTy in
      if TargetBitWidth > SourceBitWidth
      then if SourceIsSigned \<and> \<not> DestIsSigned then [throw_overflow (IRCmp ICMP_SLT Source (const 0))] else []
      else if TargetBitWidth = SourceBitWidth
      then if SourceIsSigned \<noteq> DestIsSigned then [throw_overflow (IRCmp ICMP_SLT Source (const 0))] else []
      else if DestIsSigned
      then if SourceIsSigned
           then [throw_overflow (IRCmp ICMP_SLT Source (const (- (2 ^ (TargetBitWidth - 1))))),
                 throw_overflow (IRCmp ICMP_SGT Source (const (2 ^ (TargetBitWidth - 1) - 1)))]
           else [throw_overflow (IRCmp ICMP_UGT Source (const (2 ^ (TargetBitWidth - 1) - 1)))]
      else [throw_overflow (IRCmp ICMP_UGT Source (const (2 ^ TargetBitWidth - 1)))])"

definition genConvertOverflowCheck :: "IR \<Rightarrow> nat \<Rightarrow> bool \<Rightarrow> bool \<Rightarrow> (Check list \<times> IR \<times> bool) result" where
  "genConvertOverflowCheck Source TargetBitWidth SourceIsSigned DestIsSigned =
     rbind (checked_source Source TargetBitWidth SourceIsSigned DestIsSigned) (\<lambda>(Source, SourceIsSigned).
     Inr (overflow_checks Source TargetBitWidth SourceIsSigned DestIsSigned, Source, SourceIsSigned))"

definition conversion :: "IR \<Rightarrow> VType \<Rightarrow> bool \<Rightarrow> bool \<Rightarrow> IR result" where
  "conversion Source TargetTy SourceIsSigned DestIsSigned =
     (let SourceTy = ir_type Source in
      if SourceTy = TargetTy then Inr Source
      else if is_int_type SourceTy \<and> is_int_type TargetTy then Inr (CreateIntCast Source TargetTy DestIsSigned)
      else if is_pointer_type SourceTy \<and> is_int_type TargetTy then Inr (IRPtrToInt Source TargetTy)
      else if is_int_type SourceTy \<and> is_fp_type TargetTy then Inr (IRIntToFP Source TargetTy SourceIsSigned)
      else if is_fp_type SourceTy \<and> is_int_type TargetTy
      then if getPrimitiveSizeInBits TargetTy < 64
           then Inr (CreateIntCast (IRFPToInt Source (VInt 64) DestIsSigned) TargetTy DestIsSigned)
           else Inr (IRFPToInt Source TargetTy DestIsSigned)
      else if is_fp_type SourceTy \<and> is_fp_type TargetTy then Inr (IRFPCast Source TargetTy)
      else Inl (AssertFailed ''UNREACHED''))"

definition conv :: "ConvOpcode \<Rightarrow> IR \<Rightarrow> Code result" where
  "conv Opcode Source =
     (let (CorTy, CheckForOverflow, SourceIsUnsigned) = conv_info Opcode in
      rbind (getType_primitive CorTy) (\<lambda>TargetTy.
      rbind (if is_int_type TargetTy then isSigned CorTy else Inr False) (\<lambda>DestIsSigned.
      rbind (if CheckForOverflow
             then genConvertOverflowCheck Source (getPrimitiveSizeInBits TargetTy) (\<not> SourceIsUnsigned) DestIsSigned
             else Inr ([], Source, \<not> SourceIsUnsigned)) (\<lambda>(checks, Source, SourceIsSigned).
      rbind (conversion Source TargetTy SourceIsSigned DestIsSigned) (\<lambda>Conversion.
      rbind (convertToStackType Conversion CorTy) (\<lambda>Result. Inr (checks, Result)))))))"

subsection \<open>Comparisons and branches\<close>

definition classifyCmpType :: "VType \<Rightarrow> (nat \<times> bool \<times> bool) result" where
  "classifyCmpType t =
     (case t of VInt n \<Rightarrow> Inr (n, False, False) | VPtr _ _ \<Rightarrow> Inr (TargetPointerSizeInBits, True, False)
      | VFloat \<Rightarrow> Inr (32, False, True) | VDouble \<Rightarrow> Inr (64, False, True) | _ \<Rightarrow> Inl (AssertFailed ''Unexpected type in cmp''))"

definition widen_for_compare :: "IR \<Rightarrow> VType \<Rightarrow> bool \<Rightarrow> IR" where
  "widen_for_compare a t IsFloat = (if IsFloat then IRFPCast a t else CreateIntCast a t True)"

definition prepareArgsForCompare :: "IR \<Rightarrow> IR \<Rightarrow> (IR \<times> IR \<times> bool) result" where
  "prepareArgsForCompare Arg1 Arg2 =
     (let Ty1 = ir_type Arg1; Ty2 = ir_type Arg2 in
      rbind (classifyCmpType Ty1) (\<lambda>(Size1, IsPointer1, IsFloat1).
      rbind (classifyCmpType Ty2) (\<lambda>(Size2, IsPointer2, IsFloat2).
      rbind (rassert ''Size1'' (Size1 = 32 \<or> Size1 = 64)) (\<lambda>_.
      rbind (rassert ''Size2'' (Size2 = 32 \<or> Size2 = 64)) (\<lambda>_.
      rbind (rassert ''IsFloat1 == IsFloat2'' (IsFloat1 = IsFloat2)) (\<lambda>_.
      if Size1 \<noteq> Size2
      then rbind (rassert ''!IsPointer1 && !IsPointer2'' (\<not> IsPointer1 \<and> \<not> IsPointer2)) (\<lambda>_.
           Inr (if Size1 = 32 then (widen_for_compare Arg1 Ty2 IsFloat1, Arg2, IsFloat1)
                else (Arg1, widen_for_compare Arg2 Ty1 IsFloat2, IsFloat1)))
      else if Ty1 \<noteq> Ty2
      then rbind (rassert ''IsPointer1 || IsPointer2'' (IsPointer1 \<or> IsPointer2)) (\<lambda>_.
           Inr (if IsPointer1 \<and> \<not> IsPointer2 then (CreatePointerCast Arg1 Ty2, Arg2, IsFloat1)
                else (Arg1, CreatePointerCast Arg2 Ty1, IsFloat1)))
      else Inr (Arg1, Arg2, IsFloat1)))))))"

fun IntCmpMap :: "CmpOpcode \<Rightarrow> Predicate" where
  "IntCmpMap Ceq = ICMP_EQ"
| "IntCmpMap Cgt = ICMP_SGT"
| "IntCmpMap CgtUn = ICMP_UGT"
| "IntCmpMap Clt = ICMP_SLT"
| "IntCmpMap CltUn = ICMP_ULT"

fun FloatCmpMap :: "CmpOpcode \<Rightarrow> Predicate" where
  "FloatCmpMap Ceq = FCMP_OEQ"
| "FloatCmpMap Cgt = FCMP_OGT"
| "FloatCmpMap CgtUn = FCMP_UGT"
| "FloatCmpMap Clt = FCMP_OLT"
| "FloatCmpMap CltUn = FCMP_ULT"

definition cmp :: "CmpOpcode \<Rightarrow> IR \<Rightarrow> IR \<Rightarrow> IR result" where
  "cmp Opcode Arg1 Arg2 = rbind (prepareArgsForCompare Arg1 Arg2) (\<lambda>(a, b, IsFloat).
     convertToStackType (IRCmp ((if IsFloat then FloatCmpMap else IntCmpMap) Opcode) a b) CORINFO_TYPE_UINT)"

fun BranchMap :: "BoolBranchOpcode \<Rightarrow> Predicate" where
  "BranchMap BrFalse = ICMP_EQ"
| "BranchMap BrFalseS = ICMP_EQ"
| "BranchMap BrTrue = ICMP_NE"
| "BranchMap BrTrueS = ICMP_NE"

text \<open>The condition that a branch is given.\<close>

definition boolBranch :: "BoolBranchOpcode \<Rightarrow> IR \<Rightarrow> IR" where
  "boolBranch Opcode Arg1 = IRCmp (BranchMap Opcode) Arg1 (IRConst (ir_type Arg1) 0)"

fun IntBranchMap :: "CondBranchOpcode \<Rightarrow> Predicate" where
  "IntBranchMap Beq = ICMP_EQ" | "IntBranchMap BeqS = ICMP_EQ"
| "IntBranchMap Bge = ICMP_SGE" | "IntBranchMap BgeS = ICMP_SGE"
| "IntBranchMap BgeUn = ICMP_UGE" | "IntBranchMap BgeUnS = ICMP_UGE"
| "IntBranchMap Bgt = ICMP_SGT" | "IntBranchMap BgtS = ICMP_SGT"
| "IntBranchMap BgtUn = ICMP_UGT" | "IntBranchMap BgtUnS = ICMP_UGT"
| "IntBranchMap Ble = ICMP_SLE" | "IntBranchMap BleS = ICMP_SLE"
| "IntBranchMap BleUn = ICMP_ULE" | "IntBranchMap BleUnS = ICMP_ULE"
| "IntBranchMap Blt = ICMP_SLT" | "IntBranchMap BltS = ICMP_SLT"
| "IntBranchMap BltUn = ICMP_ULT" | "IntBranchMap BltUnS = ICMP_ULT"
| "IntBranchMap BneUn = ICMP_NE" | "IntBranchMap BneUnS = ICMP_NE"

fun FloatBranchMap :: "CondBranchOpcode \<Rightarrow> Predicate" where
  "FloatBranchMap Beq = FCMP_OEQ" | "FloatBranchMap BeqS = FCMP_OEQ"
| "FloatBranchMap Bge = FCMP_OGE" | "FloatBranchMap BgeS = FCMP_OGE"
| "FloatBranchMap BgeUn = FCMP_UGE" | "FloatBranchMap BgeUnS = FCMP_UGE"
| "FloatBranchMap Bgt = FCMP_OGT" | "FloatBranchMap BgtS = FCMP_OGT"
| "FloatBranchMap BgtUn = FCMP_UGT" | "FloatBranchMap BgtUnS = FCMP_UGT"
| "FloatBranchMap Ble = FCMP_OLE" | "FloatBranchMap BleS = FCMP_OLE"
| "FloatBranchMap BleUn = FCMP_ULE" | "FloatBranchMap BleUnS = FCMP_ULE"
| "FloatBranchMap Blt = FCMP_OLT" | "FloatBranchMap BltS = FCMP_OLT"
| "FloatBranchMap BltUn = FCMP_ULT" | "FloatBranchMap BltUnS = FCMP_ULT"
| "FloatBranchMap BneUn = FCMP_UNE" | "FloatBranchMap BneUnS = FCMP_UNE"

definition condBranch :: "CondBranchOpcode \<Rightarrow> IR \<Rightarrow> IR \<Rightarrow> IR result" where
  "condBranch Opcode Arg1 Arg2 = rbind (prepareArgsForCompare Arg1 Arg2) (\<lambda>(a, b, IsFloat).
     Inr (IRCmp ((if IsFloat then FloatBranchMap else IntBranchMap) Opcode) a b))"

subsection \<open>Shifts and checks\<close>

definition shift :: "ShiftOpcode \<Rightarrow> IR \<Rightarrow> IR \<Rightarrow> IR" where
  "shift Opcode ShiftAmount ShiftOperand =
     (let n = CreateIntCast ShiftAmount (ir_type ShiftOperand) False in
      case Opcode of Shl \<Rightarrow> IRBin IRShl ShiftOperand n | Shr \<Rightarrow> IRBin IRAShr ShiftOperand n | ShrUn \<Rightarrow> IRBin IRLShr ShiftOperand n)"

definition genNullCheck :: "IR \<Rightarrow> Code" where
  "genNullCheck a = ([genConditionalThrow (IRCmp ICMP_EQ a (IRConst (ir_type a) 0)) ''CORINFO_HELP_THROWNULLREF''], a)"

definition genBoundsCheck :: "IR \<Rightarrow> IR \<Rightarrow> Check list result" where
  "genBoundsCheck ArrayLength Index =
     rbind (rassert ''Index size'' (getPrimitiveSizeInBits (ir_type Index) \<le> getPrimitiveSizeInBits (ir_type ArrayLength))) (\<lambda>_.
     Inr [genConditionalThrow (IRCmp ICMP_UGE (CreateIntCast Index (ir_type ArrayLength) False) ArrayLength) ''CORINFO_HELP_RNGCHKFAIL''])"

end
