(* ===== verification/GenArithCorrect.thy ===== *)
theory GenArithCorrect
  imports GenArith
begin

section \<open>The code for arithmetic computes what the instruction set says\<close>

text \<open>
  The meaning of the code: an integer of \<open>w\<close> bits is a number from 0 below \<open>2 ^ w\<close>, and \<open>as_signed w\<close> reads it as a
  number in two's complement. The checks run in their order; the first that holds throws. A result that LLVM
  leaves undefined is \<open>Undefined\<close>. Then the specification of the instructions (ECMA-335, III) in terms of
  numbers, and that the code meets it.
\<close>

unbundle bit_operations_syntax

subsection \<open>Meaning\<close>

definition width :: "VType \<Rightarrow> nat" where
  "width t = (case t of VInt n \<Rightarrow> n | VPtr _ _ \<Rightarrow> TargetPointerSizeInBits | _ \<Rightarrow> 0)"

definition as_signed :: "nat \<Rightarrow> int \<Rightarrow> int" where
  "as_signed w x = signed_take_bit (w - 1) x"

definition in_signed :: "nat \<Rightarrow> int \<Rightarrow> bool" where
  "in_signed w v \<longleftrightarrow> - (2 ^ (w - 1)) \<le> v \<and> v < 2 ^ (w - 1)"

definition in_unsigned :: "nat \<Rightarrow> int \<Rightarrow> bool" where
  "in_unsigned w v \<longleftrightarrow> 0 \<le> v \<and> v < 2 ^ w"

text \<open>Division rounds towards zero.\<close>

definition tdiv :: "int \<Rightarrow> int \<Rightarrow> int" where
  "tdiv a b = sgn a * sgn b * (\<bar>a\<bar> div \<bar>b\<bar>)"

definition trem :: "int \<Rightarrow> int \<Rightarrow> int" where
  "trem a b = a - b * tdiv a b"

definition division_overflow :: "nat \<Rightarrow> int \<Rightarrow> int \<Rightarrow> bool" where
  "division_overflow w x y \<longleftrightarrow> as_signed w x = - (2 ^ (w - 1)) \<and> as_signed w y = - 1"

fun bin_sem :: "BinOp \<Rightarrow> nat \<Rightarrow> int \<Rightarrow> int \<Rightarrow> int option" where
  "bin_sem IRAdd w x y = Some (take_bit w (x + y))"
| "bin_sem IRSub w x y = Some (take_bit w (x - y))"
| "bin_sem IRMul w x y = Some (take_bit w (x * y))"
| "bin_sem IRSDiv w x y = (if y = 0 \<or> division_overflow w x y then None else Some (take_bit w (tdiv (as_signed w x) (as_signed w y))))"
| "bin_sem IRUDiv w x y = (if y = 0 then None else Some (x div y))"
| "bin_sem IRSRem w x y = (if y = 0 \<or> division_overflow w x y then None else Some (take_bit w (trem (as_signed w x) (as_signed w y))))"
| "bin_sem IRURem w x y = (if y = 0 then None else Some (x mod y))"
| "bin_sem IRAnd w x y = Some (x AND y)"
| "bin_sem IROr w x y = Some (x OR y)"
| "bin_sem IRXor w x y = Some (x XOR y)"
| "bin_sem IRShl w x y = (if y < int w then Some (take_bit w (push_bit (nat y) x)) else None)"
| "bin_sem IRAShr w x y = (if y < int w then Some (take_bit w (drop_bit (nat y) (as_signed w x))) else None)"
| "bin_sem IRLShr w x y = (if y < int w then Some (drop_bit (nat y) x) else None)"
| "bin_sem _ w x y = None"

fun ovf_exact :: "OvfIntrinsic \<Rightarrow> nat \<Rightarrow> int \<Rightarrow> int \<Rightarrow> int" where
  "ovf_exact SAddOvf w x y = as_signed w x + as_signed w y"
| "ovf_exact UAddOvf w x y = x + y"
| "ovf_exact SSubOvf w x y = as_signed w x - as_signed w y"
| "ovf_exact USubOvf w x y = x - y"
| "ovf_exact SMulOvf w x y = as_signed w x * as_signed w y"
| "ovf_exact UMulOvf w x y = x * y"

fun ovf_fits :: "OvfIntrinsic \<Rightarrow> nat \<Rightarrow> int \<Rightarrow> bool" where
  "ovf_fits SAddOvf w v = in_signed w v"
| "ovf_fits SSubOvf w v = in_signed w v"
| "ovf_fits SMulOvf w v = in_signed w v"
| "ovf_fits _ w v = in_unsigned w v"

fun cmp_sem :: "Predicate \<Rightarrow> nat \<Rightarrow> int \<Rightarrow> int \<Rightarrow> bool option" where
  "cmp_sem ICMP_EQ w x y = Some (x = y)"
| "cmp_sem ICMP_NE w x y = Some (x \<noteq> y)"
| "cmp_sem ICMP_SGT w x y = Some (as_signed w x > as_signed w y)"
| "cmp_sem ICMP_SGE w x y = Some (as_signed w x \<ge> as_signed w y)"
| "cmp_sem ICMP_SLT w x y = Some (as_signed w x < as_signed w y)"
| "cmp_sem ICMP_SLE w x y = Some (as_signed w x \<le> as_signed w y)"
| "cmp_sem ICMP_UGT w x y = Some (x > y)"
| "cmp_sem ICMP_UGE w x y = Some (x \<ge> y)"
| "cmp_sem ICMP_ULT w x y = Some (x < y)"
| "cmp_sem ICMP_ULE w x y = Some (x \<le> y)"
| "cmp_sem _ w x y = None"

definition cast_sem :: "nat \<Rightarrow> nat \<Rightarrow> bool \<Rightarrow> int \<Rightarrow> int" where
  "cast_sem w w' sx x = take_bit w' (if sx then as_signed w x else x)"

fun eval :: "(nat \<Rightarrow> int) \<Rightarrow> IR \<Rightarrow> int option" where
  "eval env (IROperand n t) = (if is_int_type t \<or> is_pointer_type t then Some (take_bit (width t) (env n)) else None)"
| "eval env (IRConst t v) = (if is_int_type t \<or> is_pointer_type t then Some (take_bit (width t) v) else None)"
| "eval env (IRBin op a b) = Option.bind (eval env a) (\<lambda>x. Option.bind (eval env b) (\<lambda>y. bin_sem op (width (ir_type a)) x y))"
| "eval env (IRExtract0 i a b) = Option.bind (eval env a) (\<lambda>x. Option.bind (eval env b) (\<lambda>y.
     Some (take_bit (width (ir_type a)) (ovf_exact i (width (ir_type a)) x y))))"
| "eval env (IRExtract1 i a b) = Option.bind (eval env a) (\<lambda>x. Option.bind (eval env b) (\<lambda>y.
     Some (of_bool (\<not> ovf_fits i (width (ir_type a)) (ovf_exact i (width (ir_type a)) x y)))))"
| "eval env (IRCmp p a b) = Option.bind (eval env a) (\<lambda>x. Option.bind (eval env b) (\<lambda>y.
     map_option of_bool (cmp_sem p (width (ir_type a)) x y)))"
| "eval env (IRIntCast a t sx) = map_option (cast_sem (width (ir_type a)) (width t) sx) (eval env a)"
| "eval env (IRPtrToInt a t) = map_option (take_bit (width t)) (eval env a)"
| "eval env (IRIntToPtr a t) = map_option (take_bit TargetPointerSizeInBits) (eval env a)"
| "eval env (IRPointerCast a t) = eval env a"
| "eval env (IRNeg a) = map_option (\<lambda>x. take_bit (width (ir_type a)) (- x)) (eval env a)"
| "eval env (IRNot a) = map_option (\<lambda>x. take_bit (width (ir_type a)) (NOT x)) (eval env a)"
| "eval env (IRGep a b) = Option.bind (eval env a) (\<lambda>x. Option.bind (eval env b) (\<lambda>y.
     Some (take_bit TargetPointerSizeInBits (x + as_signed (width (ir_type b)) y))))"
| "eval env _ = None"

datatype outcome = Returns int | Throws string | Undefined

fun run_checks :: "(nat \<Rightarrow> int) \<Rightarrow> Check list \<Rightarrow> outcome \<Rightarrow> outcome" where
  "run_checks env [] r = r"
| "run_checks env ((c, h) # cs) r = (case eval env c of None \<Rightarrow> Undefined | Some v \<Rightarrow> if v = 0 then run_checks env cs r else Throws h)"

definition run :: "(nat \<Rightarrow> int) \<Rightarrow> Code \<Rightarrow> outcome" where
  "run env c = run_checks env (fst c) (case eval env (snd c) of None \<Rightarrow> Undefined | Some v \<Rightarrow> Returns v)"

text \<open>A value of \<open>w\<close> bits.\<close>

definition has_value :: "(nat \<Rightarrow> int) \<Rightarrow> IR \<Rightarrow> nat \<Rightarrow> int \<Rightarrow> bool" where
  "has_value env a w x \<longleftrightarrow> ir_type a = VInt w \<and> eval env a = Some x \<and> in_unsigned w x"

lemma width_VInt [simp]: "width (VInt n) = n"
  by (simp add: width_def)

lemma int_type_VInt [simp]: "is_int_type (VInt n)" "\<not> is_pointer_type (VInt n)" "\<not> is_fp_type (VInt n)" "getPrimitiveSizeInBits (VInt n) = n"
  by (simp_all add: is_int_type_def is_pointer_type_def is_fp_type_def getPrimitiveSizeInBits_def)

lemma has_valueD: "has_value env a w x \<Longrightarrow> ir_type a = VInt w" "has_value env a w x \<Longrightarrow> eval env a = Some x"
  "has_value env a w x \<Longrightarrow> 0 \<le> x" "has_value env a w x \<Longrightarrow> x < 2 ^ w" "has_value env a w x \<Longrightarrow> take_bit w x = x"
  by (simp_all add: has_value_def in_unsigned_def take_bit_int_eq_self)

lemma in_unsigned_take_bit [simp]: "in_unsigned w (take_bit w x)"
  by (simp add: in_unsigned_def take_bit_int_less_exp)

subsection \<open>Binary operations\<close>

definition checked :: "bool \<Rightarrow> nat \<Rightarrow> int \<Rightarrow> outcome" where
  "checked fits w v = (if fits then Returns (take_bit w v) else Throws ''CORINFO_HELP_OVERFLOW'')"

definition divided :: "int \<Rightarrow> outcome \<Rightarrow> outcome" where
  "divided y r = (if y = 0 then Throws ''CORINFO_HELP_THROWDIVZERO'' else r)"

fun ecma_binary :: "BinaryOpcode \<Rightarrow> nat \<Rightarrow> int \<Rightarrow> int \<Rightarrow> outcome" where
  "ecma_binary Add w x y = Returns (take_bit w (x + y))"
| "ecma_binary Sub w x y = Returns (take_bit w (x - y))"
| "ecma_binary Mul w x y = Returns (take_bit w (x * y))"
| "ecma_binary AddOvf w x y = checked (in_signed w (as_signed w x + as_signed w y)) w (as_signed w x + as_signed w y)"
| "ecma_binary SubOvf w x y = checked (in_signed w (as_signed w x - as_signed w y)) w (as_signed w x - as_signed w y)"
| "ecma_binary MulOvf w x y = checked (in_signed w (as_signed w x * as_signed w y)) w (as_signed w x * as_signed w y)"
| "ecma_binary AddOvfUn w x y = checked (in_unsigned w (x + y)) w (x + y)"
| "ecma_binary SubOvfUn w x y = checked (in_unsigned w (x - y)) w (x - y)"
| "ecma_binary MulOvfUn w x y = checked (in_unsigned w (x * y)) w (x * y)"
| "ecma_binary And w x y = Returns (x AND y)"
| "ecma_binary Or w x y = Returns (x OR y)"
| "ecma_binary Xor w x y = Returns (x XOR y)"
| "ecma_binary DivUn w x y = divided y (Returns (x div y))"
| "ecma_binary RemUn w x y = divided y (Returns (x mod y))"
| "ecma_binary Div w x y = divided y (checked (\<not> division_overflow w x y) w (tdiv (as_signed w x) (as_signed w y)))"
| "ecma_binary Rem w x y = divided y (checked (\<not> division_overflow w x y) w (trem (as_signed w x) (as_signed w y)))"

text \<open>An \<open>int32\<close> next to a native integer is extended: with zeros for the unsigned operations.\<close>

definition unsigned_op :: "BinaryOpcode \<Rightarrow> bool" where
  "unsigned_op op = (op \<in> {AddOvfUn, SubOvfUn, MulOvfUn, DivUn, RemUn})"

definition widened :: "bool \<Rightarrow> nat \<Rightarrow> nat \<Rightarrow> int \<Rightarrow> int" where
  "widened sx w w' x = (if w = w' then x else cast_sem w w' sx x)"

lemma unsigned_triple: "is_unsigned_triple (IntMap op) = unsigned_op op"
  by (cases op) (simp_all add: is_unsigned_triple_def unsigned_op_def)

lemma convert_operand_value:
  assumes "has_value env a w x"
  shows "\<exists>b. convert_operand (VInt w') a sx = Inr b \<and> has_value env b w' (widened sx w w' x)"
  using assms by (auto simp: convert_operand_def has_value_def CreateIntCast_def widened_def cast_sem_def Let_def)

lemma zero_check: "has_value env b w y \<Longrightarrow> eval env (IRCmp ICMP_EQ b (IRConst (ir_type b) 0)) = Some (of_bool (y = 0))"
  by (simp add: has_valueD)

lemma arithmetic_correct:
  assumes "has_value env a w x" "has_value env b w y" "\<not> (op \<in> {Div, Rem} \<and> y \<noteq> 0 \<and> division_overflow w x y)"
  shows "\<exists>c. arithmetic op (IntMap op) (VInt w) a b = Inr c \<and> run env c = ecma_binary op w x y \<and> ir_type (snd c) = VInt w"
  using assms zero_check[OF assms(2)]
  by (cases op) (auto simp: arithmetic_def run_def genConditionalThrow_def divides_def has_valueD checked_def divided_def)


lemma binaryOpType_int:
  "w1 \<in> {32, 64} \<Longrightarrow> w2 \<in> {32, 64} \<Longrightarrow> binaryOpType op (VInt w1) (VInt w2) = Inr (VInt (max w1 w2))"
  by (auto simp: binaryOpType_def int_op_type_def operand_size_def TargetPointerSizeInBits_def)

subsection \<open>Reading integers\<close>

lemma signed_take [simp]: "0 < w \<Longrightarrow> as_signed w (take_bit w v) = as_signed w v"
  by (auto simp: as_signed_def signed_take_bit_take_bit)

lemma signed_0 [simp]: "as_signed w 0 = 0"
  by (simp add: as_signed_def)

lemma signed_self: "in_signed w v \<Longrightarrow> as_signed w v = v"
  by (simp add: as_signed_def in_signed_def signed_take_bit_int_eq_self)

lemma take_signed: "n \<le> w \<Longrightarrow> 0 < w \<Longrightarrow> take_bit n (as_signed w x) = take_bit n x"
  by (simp add: as_signed_def take_bit_signed_take_bit)

lemma pow_half: "0 < w \<Longrightarrow> (2 :: int) ^ w = 2 * 2 ^ (w - 1)"
  by (simp add: power_eq_if)

lemma pow_less: "m < n \<Longrightarrow> 2 * (2 :: int) ^ m \<le> 2 ^ n"
proof -
  assume "m < n"
  then have "(2 :: int) ^ Suc m \<le> 2 ^ n" by (intro power_increasing) auto
  then show ?thesis by simp
qed

lemma signed_eq:
  assumes "in_unsigned w x" "0 < w"
  shows "as_signed w x = (if x < 2 ^ (w - 1) then x else x - 2 ^ w)"
proof (cases "x < 2 ^ (w - 1)")
  case True
  then show ?thesis using assms(1) signed_self[of w x] by (simp add: in_signed_def in_unsigned_def order_trans[of "- (2 ^ (w - 1))" 0])
next
  case False
  have "take_bit w (x - 2 ^ w) = x" using assms(1) by (simp add: in_unsigned_def take_bit_eq_mod mod_diff_right_eq[symmetric])
  then have "as_signed w x = as_signed w (x - 2 ^ w)" using signed_take[OF assms(2), of "x - 2 ^ w"] by simp
  moreover have "in_signed w (x - 2 ^ w)" using False assms pow_half[OF assms(2)] by (simp add: in_signed_def in_unsigned_def)
  ultimately show ?thesis using False signed_self by simp
qed

subsection \<open>Conversions\<close>

definition target_of :: "ConvOpcode \<Rightarrow> (bool \<times> nat) option" where
  "target_of op =
     (if op \<in> {ConvI1, ConvOvfI1, ConvOvfI1Un} then Some (True, 8)
      else if op \<in> {ConvI2, ConvOvfI2, ConvOvfI2Un} then Some (True, 16)
      else if op \<in> {ConvI4, ConvOvfI4, ConvOvfI4Un} then Some (True, 32)
      else if op \<in> {ConvI8, ConvOvfI8, ConvOvfI8Un, ConvI, ConvOvfI, ConvOvfIUn} then Some (True, 64)
      else if op \<in> {ConvU1, ConvOvfU1, ConvOvfU1Un} then Some (False, 8)
      else if op \<in> {ConvU2, ConvOvfU2, ConvOvfU2Un} then Some (False, 16)
      else if op \<in> {ConvU4, ConvOvfU4, ConvOvfU4Un} then Some (False, 32)
      else if op \<in> {ConvU8, ConvOvfU8, ConvOvfU8Un, ConvU, ConvOvfU, ConvOvfUUn} then Some (False, 64)
      else None)"

definition from_unsigned :: "ConvOpcode \<Rightarrow> bool" where
  "from_unsigned op = (op \<in> {ConvOvfI1Un, ConvOvfI2Un, ConvOvfI4Un, ConvOvfI8Un, ConvOvfU1Un, ConvOvfU2Un, ConvOvfU4Un, ConvOvfU8Un,
     ConvOvfIUn, ConvOvfUUn, ConvRUn})"

definition is_checked :: "ConvOpcode \<Rightarrow> bool" where
  "is_checked op = (from_unsigned op \<and> op \<noteq> ConvRUn \<or> op \<in> {ConvOvfI1, ConvOvfI2, ConvOvfI4, ConvOvfI8, ConvOvfU1, ConvOvfU2, ConvOvfU4,
     ConvOvfU8, ConvOvfI, ConvOvfU})"

definition read_as :: "bool \<Rightarrow> nat \<Rightarrow> int \<Rightarrow> int" where
  "read_as sx w x = (if sx then as_signed w x else x)"

definition in_range :: "bool \<Rightarrow> nat \<Rightarrow> int \<Rightarrow> bool" where
  "in_range sx n v = (if sx then in_signed n v else in_unsigned n v)"

text \<open>A conversion to an integer: the checked ones keep the value of the source or throw, the others keep the low
  bits or extend the source by the sign of the target. A value of fewer than 32 bits is extended on the stack.\<close>

definition ecma_conv :: "ConvOpcode \<Rightarrow> bool \<Rightarrow> nat \<Rightarrow> nat \<Rightarrow> int \<Rightarrow> outcome" where
  "ecma_conv op sx n w x =
     (let v = read_as (\<not> from_unsigned op) w x in
      if is_checked op then checked (in_range sx n v) (max 32 n) v
      else Returns (take_bit (max 32 n) (read_as sx n (take_bit n (read_as sx w x)))))"

lemma conv_info_target:
  assumes "target_of op = Some (sx, n)"
  shows "\<exists>c. conv_info op = (c, is_checked op, from_unsigned op) \<and> getType_primitive c = Inr (VInt n) \<and> isSigned c = Inr sx
     \<and> stackSize c = Inr (max 32 n)"
  using assms
  by (cases op) (auto simp: target_of_def is_checked_def from_unsigned_def getType_primitive_def isSigned_def stackSize_def NativeInt_def
      TargetPointerSizeInBits_def)

lemma target_width: "target_of op = Some (sx, n) \<Longrightarrow> n \<in> {8, 16, 32, 64}"
  by (auto simp: target_of_def split: if_splits)

text \<open>The checks of a conversion hold exactly for the values that the target does not have.\<close>

lemma overflow_checks_range:
  assumes "has_value env a w x" "0 < w" "0 < n"
  shows "run_checks env (overflow_checks a n ss sx) r = (if in_range sx n (read_as ss w x) then r else Throws ''CORINFO_HELP_OVERFLOW'')"
proof -
  have u: "in_unsigned w x" using assms(1) by (simp add: has_value_def)
  note sg = signed_eq[OF u assms(2)]
  consider (wide) "w < n" | (same) "w = n" | (narrow) "n < w" by linarith
  then show ?thesis
  proof cases
    case wide
    have "2 * (2 :: int) ^ (w - 1) \<le> 2 ^ (n - 1)" "(2 :: int) ^ w \<le> 2 ^ (n - 1)" using wide assms(2) pow_less[of "w - 1" "n - 1"] by (auto intro: power_increasing)
    then show ?thesis using wide u assms pow_half[OF assms(2)] pow_half[OF assms(3)] sg
      by (auto simp: overflow_checks_def has_valueD(1,2)[OF assms(1)] throw_overflow_def genConditionalThrow_def in_range_def read_as_def in_signed_def in_unsigned_def split: if_splits)
  next
    case same
    then show ?thesis using u assms pow_half[OF assms(2)] sg
      by (auto simp: overflow_checks_def has_valueD(1,2)[OF assms(1)] throw_overflow_def genConditionalThrow_def in_range_def read_as_def in_signed_def in_unsigned_def split: if_splits)
  next
    case narrow
    have p: "2 * (2 :: int) ^ (n - 1) \<le> 2 ^ (w - 1)" "(2 :: int) ^ n \<le> 2 ^ (w - 1)"
      using narrow assms(3) pow_less[of "n - 1" "w - 1"] by (auto intro: power_increasing)
    have q: "0 < (2 :: int) ^ (n - 1)" "0 < (2 :: int) ^ (w - 1)" "0 < (2 :: int) ^ n" by simp_all
    have "in_signed w (- (2 ^ (n - 1)))" "in_signed w (2 ^ (n - 1) - 1)" unfolding in_signed_def using p q by linarith+
    then have c: "as_signed w (take_bit w (- (2 ^ (n - 1)))) = - (2 ^ (n - 1))" "as_signed w (2 ^ (n - 1) - 1) = 2 ^ (n - 1) - 1"
      using assms(2) by (simp_all add: signed_self)
    have d: "take_bit w (2 ^ (n - 1) - 1) = (2 ^ (n - 1) - 1 :: int)" "take_bit w (2 ^ n - 1) = (2 ^ n - 1 :: int)"
      by (rule take_bit_int_eq_self, use p q pow_half[OF assms(2)] in linarith, use p q pow_half[OF assms(2)] in linarith)+
    have r: "run_checks env (overflow_checks a n ss sx) r = (if (if sx then if ss then as_signed w x < - (2 ^ (n - 1)) \<or> as_signed w x > 2 ^ (n - 1) - 1
        else x > 2 ^ (n - 1) - 1 else x > 2 ^ n - 1) then Throws ''CORINFO_HELP_OVERFLOW'' else r)"
      using narrow by (simp add: overflow_checks_def has_valueD(1,2)[OF assms(1)] throw_overflow_def genConditionalThrow_def c d Let_def del: One_nat_def)
    have x: "0 \<le> x" "x < 2 ^ w" "(2 :: int) ^ w = 2 * 2 ^ (w - 1)" using u pow_half[OF assms(2)] by (simp_all add: in_unsigned_def)
    show ?thesis
    proof (cases "sx \<or> \<not> ss")
      case True
      then show ?thesis unfolding r in_range_def read_as_def in_signed_def in_unsigned_def using x q by auto
    next
      case False
      have "x > 2 ^ n - 1 \<longleftrightarrow> \<not> in_unsigned n (as_signed w x)"
      proof (cases "x < 2 ^ (w - 1)")
        case True
        show ?thesis unfolding sg in_unsigned_def if_P[OF True] using x q by linarith
      next
        case neg: False
        show ?thesis unfolding sg in_unsigned_def if_not_P[OF neg] using x p q neg by linarith
      qed
      then show ?thesis unfolding r in_range_def read_as_def using False by simp
    qed
  qed
qed

lemma conversion_value:
  assumes "has_value env a w x"
  shows "\<exists>b. conversion a (VInt n) ss sx = Inr b \<and> has_value env b n (widened sx w n x)"
  using assms by (auto simp: conversion_def has_value_def CreateIntCast_def widened_def cast_sem_def Let_def)

lemma convertToStackType_value:
  assumes "has_value env a n x" "stackSize c = Inr (max 32 n)" "isSigned c = Inr sx"
  shows "\<exists>b. convertToStackType a c = Inr b \<and> has_value env b (max 32 n) (widened sx n (max 32 n) x)"
  using assms by (auto simp: convertToStackType_def has_value_def CreateIntCast_def widened_def cast_sem_def max_def)

lemma run_checked_value:
  assumes "has_value env a w x"
  shows "run env (cs, a) = run_checks env cs (Returns x)"
  using assms by (simp add: run_def has_valueD)

text \<open>The code of a conversion, before the arithmetic is looked at.\<close>

lemma conv_runs:
  assumes "has_value env a w x" "0 < w" "target_of op = Some (sx, n)"
  shows "\<exists>c. conv op a = Inr c \<and> ir_type (snd c) = VInt (max 32 n)
     \<and> run env c = (if is_checked op \<and> \<not> in_range sx n (read_as (\<not> from_unsigned op) w x) then Throws ''CORINFO_HELP_OVERFLOW''
         else Returns (widened sx n (max 32 n) (widened sx w n x)))"
proof -
  obtain c where c: "conv_info op = (c, is_checked op, from_unsigned op)" "getType_primitive c = Inr (VInt n)" "isSigned c = Inr sx"
     "stackSize c = Inr (max 32 n)" using conv_info_target[OF assms(3)] by blast
  obtain b where b: "conversion a (VInt n) (\<not> from_unsigned op) sx = Inr b" "has_value env b n (widened sx w n x)"
    using conversion_value[OF assms(1)] by blast
  obtain d where d: "convertToStackType b c = Inr d" "has_value env d (max 32 n) (widened sx n (max 32 n) (widened sx w n x))"
    using convertToStackType_value[OF b(2) c(4,3)] by blast
  let ?cs = "if is_checked op then overflow_checks a n (\<not> from_unsigned op) sx else []"
  have s: "checked_source a n (\<not> from_unsigned op) sx = Inr (a, \<not> from_unsigned op)" using assms(1) by (simp add: checked_source_def has_valueD)
  have "conv op a = Inr (?cs, d)"
    using c b d s by (simp add: conv_def genConvertOverflowCheck_def)
  moreover have "0 < n" using target_width[OF assms(3)] by auto
  ultimately show ?thesis
    using d(2) run_checked_value[OF d(2)] overflow_checks_range[OF assms(1,2), of n] by (auto simp: has_valueD)
qed

lemma widened_stack:
  assumes "in_unsigned n r" "0 < n"
  shows "widened sx n (max 32 n) r = take_bit (max 32 n) (read_as sx n r)"
proof (cases "32 \<le> n")
  case True
  then have "take_bit n (as_signed n r) = r" using take_signed[of n n r] assms by (simp add: in_unsigned_def take_bit_int_eq_self)
  then show ?thesis using True assms by (simp add: widened_def read_as_def max_def in_unsigned_def take_bit_int_eq_self)
qed (simp add: widened_def read_as_def cast_sem_def max_def)

lemma widened_low:
  assumes "in_unsigned w x" "0 < w"
  shows "widened sx w n x = take_bit n (read_as sx w x)"
proof (cases "w = n")
  case True
  then have "take_bit n (as_signed n x) = x" using take_signed[of n n x] assms by (simp add: in_unsigned_def take_bit_int_eq_self)
  then show ?thesis using True assms by (simp add: widened_def read_as_def in_unsigned_def take_bit_int_eq_self)
qed (simp add: widened_def read_as_def cast_sem_def)

text \<open>Where the target has the value, the bits of the target are the value, unless the target is wider and
  signed and the source is unsigned.\<close>

lemma checked_bits:
  assumes "in_unsigned w x" "0 < w" "0 < n" "in_range sx n (read_as ss w x)" "\<not> (w < n \<and> sx \<and> \<not> ss \<and> 2 ^ (w - 1) \<le> x)"
  shows "read_as sx n (take_bit n (read_as sx w x)) = read_as ss w x"
proof -
  have t: "read_as sx n (take_bit n v) = v" if "in_range sx n v" for v
    using that assms(3) by (auto simp: read_as_def in_range_def signed_self in_unsigned_def take_bit_int_eq_self)
  have "take_bit n (read_as sx w x) = take_bit n (read_as ss w x)"
  proof (cases "n \<le> w")
    case True
    then show ?thesis using take_signed[OF True assms(2)] by (simp add: read_as_def)
  next
    case False
    then have "sx = ss \<or> as_signed w x = x"
      using assms signed_eq[OF assms(1,2)] by (auto simp: in_range_def read_as_def in_unsigned_def split: if_splits)
    then show ?thesis by (auto simp: read_as_def)
  qed
  then show ?thesis using t[OF assms(4)] by simp
qed

subsection \<open>Comparisons\<close>

fun ecma_compare :: "CmpOpcode \<Rightarrow> nat \<Rightarrow> int \<Rightarrow> int \<Rightarrow> bool" where
  "ecma_compare Ceq w x y = (x = y)"
| "ecma_compare Cgt w x y = (as_signed w x > as_signed w y)"
| "ecma_compare CgtUn w x y = (x > y)"
| "ecma_compare Clt w x y = (as_signed w x < as_signed w y)"
| "ecma_compare CltUn w x y = (x < y)"

definition ecma_branch :: "CondBranchOpcode \<Rightarrow> nat \<Rightarrow> int \<Rightarrow> int \<Rightarrow> bool" where
  "ecma_branch op w x y =
     (if op \<in> {Beq, BeqS} then x = y else if op \<in> {BneUn, BneUnS} then x \<noteq> y
      else if op \<in> {Bge, BgeS} then as_signed w x \<ge> as_signed w y else if op \<in> {BgeUn, BgeUnS} then x \<ge> y
      else if op \<in> {Bgt, BgtS} then as_signed w x > as_signed w y else if op \<in> {BgtUn, BgtUnS} then x > y
      else if op \<in> {Ble, BleS} then as_signed w x \<le> as_signed w y else if op \<in> {BleUn, BleUnS} then x \<le> y
      else if op \<in> {Blt, BltS} then as_signed w x < as_signed w y else x < y)"

lemma prepareArgs_int:
  assumes "has_value env a w1 x" "has_value env b w2 y" "w1 \<in> {32, 64}" "w2 \<in> {32, 64}"
  shows "\<exists>a' b'. prepareArgsForCompare a b = Inr (a', b', False) \<and> has_value env a' (max w1 w2) (widened True w1 (max w1 w2) x)
     \<and> has_value env b' (max w1 w2) (widened True w2 (max w1 w2) y)"
  using assms
  by (auto simp: prepareArgsForCompare_def has_value_def classifyCmpType_def rassert_def widen_for_compare_def CreateIntCast_def widened_def
      cast_sem_def)


lemma bit_on_stack: "widened False 1 32 (of_bool t) = of_bool t" "widened False (Suc 0) 32 (of_bool t) = of_bool t"
  by (cases t; simp add: widened_def cast_sem_def)+

lemma shift_value:
  assumes "has_value env k wk n" "has_value env a w x" "n < int w"
  shows "eval env (shift Shl k a) = Some (take_bit w (push_bit (nat n) x))"
    "eval env (shift Shr k a) = Some (take_bit w (drop_bit (nat n) (as_signed w x)))"
    "eval env (shift ShrUn k a) = Some (drop_bit (nat n) x)"
proof -
  have "int w < int (2 ^ w)" by (simp only: of_nat_less_iff less_exp)
  then have "int w < 2 ^ w" by simp
  moreover have "0 \<le> n" using assms(1) by (simp add: has_valueD)
  ultimately have "take_bit w n = n" using assms(3) by (intro take_bit_int_eq_self) linarith+
  then have "eval env (CreateIntCast k (VInt w) False) = Some n" using assms(1) by (simp add: CreateIntCast_def has_valueD cast_sem_def)
  then show "eval env (shift Shl k a) = Some (take_bit w (push_bit (nat n) x))"
    "eval env (shift Shr k a) = Some (take_bit w (drop_bit (nat n) (as_signed w x)))"
    "eval env (shift ShrUn k a) = Some (drop_bit (nat n) x)" using assms(2,3) by (simp_all add: shift_def has_valueD)
qed

lemma null_check_value:
  assumes "has_value env a w x"
  shows "run env (genNullCheck a) = (if x = 0 then Throws ''CORINFO_HELP_THROWNULLREF'' else Returns x)"
  using assms by (simp add: genNullCheck_def run_def genConditionalThrow_def has_valueD)

lemma ecma_compare_int: "cmp_sem (IntCmpMap op) w x y = Some (ecma_compare op w x y)"
  by (cases op) simp_all

lemma ecma_branch_int: "cmp_sem (IntBranchMap op) w x y = Some (ecma_branch op w x y)"
  by (cases op) (simp_all add: ecma_branch_def)

subsection \<open>Properties\<close>

text \<open>C12: the code of a binary operation on integers computes what the instruction set says, for every opcode and
  every combination of 32-bit and 64-bit operands: the result modulo the width, the overflow exception of the
  checked operations exactly when the exact result does not fit, and the exception for a zero divisor. Only the
  quotient and remainder of the least integer by -1 are undefined where the instruction set has an exception.\<close>

theorem binary_op_correct:
  assumes "has_value env a w1 x" "has_value env b w2 y" "w1 \<in> {32, 64}" "w2 \<in> {32, 64}"
  shows "\<exists>c. binaryOp op a b = Inr c \<and> ir_type (snd c) = VInt (max w1 w2) \<and>
    (let w = max w1 w2; x' = widened (\<not> unsigned_op op) w1 w x; y' = widened (\<not> unsigned_op op) w2 w y in
     run env c = (if op \<in> {Div, Rem} \<and> y' \<noteq> 0 \<and> division_overflow w x' y' then Undefined else ecma_binary op w x' y'))"
proof -
  let ?w = "max w1 w2" let ?s = "\<not> unsigned_op op"
  obtain a' where a: "convert_operand (VInt ?w) a ?s = Inr a'" "has_value env a' ?w (widened ?s w1 ?w x)"
    using convert_operand_value[OF assms(1)] by blast
  obtain b' where b: "convert_operand (VInt ?w) b ?s = Inr b'" "has_value env b' ?w (widened ?s w2 ?w y)"
    using convert_operand_value[OF assms(2)] by blast
  have t: "binaryOpType op (ir_type a) (ir_type b) = Inr (VInt ?w)" using binaryOpType_int[OF assms(3,4)] assms(1,2) by (simp add: has_valueD)
  have g: "binaryOp op a b = arithmetic op (IntMap op) (VInt ?w) a' b'"
    using t a b by (cases "arithmetic op (IntMap op) (VInt ?w) a' b'") (auto simp: binaryOp_def pointer_shortcut_def unsigned_triple)
  show ?thesis
  proof (cases "op \<in> {Div, Rem} \<and> widened ?s w2 ?w y \<noteq> 0 \<and> division_overflow ?w (widened ?s w1 ?w x) (widened ?s w2 ?w y)")
    case True
    then show ?thesis using zero_check[OF b(2)] a(2) b(2) unfolding g
      by (auto simp: arithmetic_def run_def genConditionalThrow_def divides_def has_valueD)
  next
    case False
    then show ?thesis using arithmetic_correct[OF a(2) b(2) False] unfolding g by (auto simp: Let_def)
  qed
qed

theorem binary_op_correct_witness:
  "\<exists>c. binaryOp AddOvf (IROperand 0 (VInt 32)) (IROperand 1 (VInt 64)) = Inr c \<and> ir_type (snd c) = VInt 64
     \<and> run (\<lambda>i. 5) c = Returns 10"
proof -
  have "has_value (\<lambda>i. 5) (IROperand 0 (VInt 32)) 32 5" "has_value (\<lambda>i. 5) (IROperand 1 (VInt 64)) 64 5"
    by (simp_all add: has_value_def in_unsigned_def take_bit_int_eq_self)
  from binary_op_correct[OF this, of AddOvf] show ?thesis
    by (simp add: unsigned_op_def widened_def cast_sem_def checked_def in_signed_def signed_eq[unfolded in_unsigned_def] take_bit_int_eq_self Let_def)
qed



text \<open>C39: the checked conversion of an unsigned 32-bit integer to a as_signed 64-bit integer is wrong above the signed
  range: it extends the sign, so that it returns a negative number, where the instruction set has the value of the
  source.\<close>

theorem unsigned_widening_wrong:
  assumes "has_value env a 32 x" "op = ConvOvfI8Un \<or> op = ConvOvfIUn" "2 ^ 31 \<le> x"
  shows "\<exists>c. conv op a = Inr c \<and> run env c = Returns (x + (2 ^ 64 - 2 ^ 32)) \<and> ecma_conv op True 64 32 x = Returns x"
proof -
  have u: "in_unsigned 32 x" using assms(1) by (simp add: has_value_def)
  have t: "target_of op = Some (True, 64)" "is_checked op" "from_unsigned op" using assms(2) by (auto simp: target_of_def is_checked_def from_unsigned_def)
  have r: "in_range True 64 x" using u by (simp add: in_range_def in_signed_def in_unsigned_def)
  obtain c where c: "conv op a = Inr c" "run env c = Returns (widened True 64 64 (widened True 32 64 x))"
    using conv_runs[OF assms(1) _ t(1)] t(2,3) r by (auto simp: read_as_def)
  have "widened True 32 64 x = take_bit 64 (x - 2 ^ 32)" using signed_eq[OF u] assms(3) by (simp add: widened_def cast_sem_def)
  also have "\<dots> = (x - 2 ^ 32 + 2 ^ 64) mod 2 ^ 64" unfolding take_bit_eq_mod by (rule mod_add_self2[symmetric])
  also have "\<dots> = x + (2 ^ 64 - 2 ^ 32)" using u assms(3) by (simp add: in_unsigned_def)
  finally have "run env c = Returns (x + (2 ^ 64 - 2 ^ 32))" using c(2) by (simp add: widened_def)
  moreover have "ecma_conv op True 64 32 x = Returns x"
    using t r u by (simp add: ecma_conv_def read_as_def checked_def in_unsigned_def take_bit_int_eq_self)
  ultimately show ?thesis using c(1) by blast
qed

theorem unsigned_widening_wrong_witness:
  "\<exists>c. conv ConvOvfI8Un (IROperand 0 (VInt 32)) = Inr c \<and> run (\<lambda>i. 0x80000000) c = Returns 0xFFFFFFFF80000000"
proof -
  have "has_value (\<lambda>i. 0x80000000) (IROperand 0 (VInt 32)) 32 0x80000000" by (simp add: has_value_def in_unsigned_def take_bit_int_eq_self)
  from unsigned_widening_wrong[OF this, of ConvOvfI8Un] show ?thesis by auto
qed


text \<open>C26: comparisons and conditional branches on integers decide what the instruction set says, signed or unsigned
  as the opcode, with a 32-bit operand extended next to a 64-bit one; a comparison leaves 0 or 1 as a 32-bit
  integer, and \<open>brtrue\<close> and \<open>brfalse\<close> test for zero.\<close>

theorem comparisons_correct:
  assumes "has_value env a w1 x" "has_value env b w2 y" "w1 \<in> {32, 64}" "w2 \<in> {32, 64}"
  shows "let w = max w1 w2; x' = widened True w1 w x; y' = widened True w2 w y in
    (\<exists>c. cmp op a b = Inr c \<and> has_value env c 32 (of_bool (ecma_compare op w x' y')))
    \<and> (\<exists>c. condBranch br a b = Inr c \<and> has_value env c 1 (of_bool (ecma_branch br w x' y')))
    \<and> has_value env (boolBranch bb a) 1 (of_bool (if bb \<in> {BrTrue, BrTrueS} then x \<noteq> 0 else x = 0))"
proof -
  let ?w = "max w1 w2"
  obtain a' b' where p: "prepareArgsForCompare a b = Inr (a', b', False)" "has_value env a' ?w (widened True w1 ?w x)"
     "has_value env b' ?w (widened True w2 ?w y)" using prepareArgs_int[OF assms] by blast
  have c: "has_value env (IRCmp q a' b') 1 (of_bool t)" if "cmp_sem q ?w (widened True w1 ?w x) (widened True w2 ?w y) = Some t" for q t
    using p(2,3) that by (simp add: has_value_def in_unsigned_def)
  have s: "stackSize CORINFO_TYPE_UINT = Inr (max 32 1)" "isSigned CORINFO_TYPE_UINT = Inr False" by (simp_all add: stackSize_def isSigned_def)
  have "\<exists>d. cmp op a b = Inr d \<and> has_value env d 32 (of_bool (ecma_compare op ?w (widened True w1 ?w x) (widened True w2 ?w y)))"
    using convertToStackType_value[OF c[OF ecma_compare_int[of op]] s] p(1) by (simp add: cmp_def bit_on_stack)
  moreover have "has_value env (boolBranch bb a) 1 (of_bool (if bb \<in> {BrTrue, BrTrueS} then x \<noteq> 0 else x = 0))"
    using assms(1) by (cases bb) (simp_all add: boolBranch_def has_value_def in_unsigned_def)
  ultimately show ?thesis using c[OF ecma_branch_int[of br]] p(1) by (simp add: condBranch_def Let_def)
qed

theorem comparisons_correct_witness:
  "\<exists>c. cmp CgtUn (IROperand 0 (VInt 32)) (IROperand 1 (VInt 32)) = Inr c \<and> has_value (\<lambda>i. if i = 0 then 0xFFFFFFFF else 1) c 32 1"
proof -
  let ?e = "\<lambda>i :: nat. if i = 0 then 0xFFFFFFFF else 1 :: int"
  have "has_value ?e (IROperand 0 (VInt 32)) 32 0xFFFFFFFF" "has_value ?e (IROperand 1 (VInt 32)) 32 1"
    by (simp_all add: has_value_def in_unsigned_def take_bit_int_eq_self)
  from comparisons_correct[OF this, of CgtUn] show ?thesis by (simp add: widened_def Let_def)
qed

text \<open>C27: the bounds check lets exactly the indices of the array through: read as a signed number the index is not
  negative and below the length. That holds for an index of at most the width of the length, as long as the length
  is not negative as a number of the width of the index.\<close>

theorem bounds_check_guards:
  assumes "has_value env len wl l" "has_value env i wi x" "0 < wi" "wi \<le> wl" "l < 2 ^ (wi - 1)"
  shows "\<exists>cs. genBoundsCheck len i = Inr cs
     \<and> run_checks env cs r = (if 0 \<le> as_signed wi x \<and> as_signed wi x < l then r else Throws ''CORINFO_HELP_RNGCHKFAIL'')"
proof -
  let ?c = "CreateIntCast i (VInt wl) False"
  have u: "in_unsigned wi x" using assms(2) by (simp add: has_value_def)
  have "(2 :: int) ^ wi \<le> 2 ^ wl" using assms(4) by (intro power_increasing) auto
  then have "x < 2 ^ wl" using u unfolding in_unsigned_def by linarith
  then have e: "eval env ?c = Some x" "ir_type ?c = VInt wl"
    using assms(2) u by (auto simp: CreateIntCast_def has_value_def cast_sem_def in_unsigned_def take_bit_int_eq_self)
  have "x < l \<longleftrightarrow> 0 \<le> as_signed wi x \<and> as_signed wi x < l"
  proof (cases "x < 2 ^ (wi - 1)")
    case True
    then show ?thesis using signed_eq[OF u assms(3)] u by (simp add: in_unsigned_def)
  next
    case False
    then show ?thesis using signed_eq[OF u assms(3)] u assms(5) by (simp add: in_unsigned_def)
  qed
  then show ?thesis using assms(1,2,4) e by (auto simp: genBoundsCheck_def rassert_def genConditionalThrow_def has_valueD(1,2))
qed

theorem bounds_check_guards_witness:
  "\<exists>cs. genBoundsCheck (IROperand 0 (VInt 64)) (IROperand 1 (VInt 32)) = Inr cs
     \<and> run_checks (\<lambda>i. if i = 0 then 10 else 0xFFFFFFFF) cs (Returns 7) = Throws ''CORINFO_HELP_RNGCHKFAIL''"
proof -
  let ?e = "\<lambda>i :: nat. if i = 0 then 10 else 0xFFFFFFFF :: int"
  have "has_value ?e (IROperand 0 (VInt 64)) 64 10" "has_value ?e (IROperand 1 (VInt 32)) 32 0xFFFFFFFF"
    by (simp_all add: has_value_def in_unsigned_def take_bit_int_eq_self)
  from bounds_check_guards[OF this, of "Returns 7"] show ?thesis by (simp add: signed_eq[unfolded in_unsigned_def])
qed

end
