(* ===== verification/LoadListener.thy ===== *)
theory LoadListener
  imports Prelude "HOL-Library.Sublist"
begin

section \<open>What the runtime is told about a loaded object\<close>

text \<open>
  lib/Jit/LLILCJit.cpp, class \<open>ObjectLoadListener\<close>: when an object file has been loaded, its line table, the
  locations of its locals and its relocations are reported to the runtime. The object file and its DWARF
  information, which LLVM parses, are data of the model: symbols, line table, trees of debug entries, sections with
  relocations, and the load address of each section. A report is the list of the calls that the runtime receives.
\<close>

subsection \<open>Data\<close>

record Symbol =
  is_function :: bool
  sym_address :: "u64 option"     \<comment> \<open>\<open>None\<close> is an error of \<open>getAddress\<close>\<close>
  sym_size :: u64

record LineInfo =
  line_address :: u64
  Line :: u32
  Column :: u32

datatype MappingSource = CALL_INSTRUCTION | STACK_EMPTY

record OffsetMapping =
  nativeOffset :: u32
  ilOffset :: u32
  source :: MappingSource

datatype RegNum = REGNUM_RAX | REGNUM_RCX | REGNUM_RDX | REGNUM_RBX | REGNUM_RSP | REGNUM_RBP | REGNUM_RSI | REGNUM_RDI
  | REGNUM_R8 | REGNUM_R9 | REGNUM_R10 | REGNUM_R11 | REGNUM_R12 | REGNUM_R13 | REGNUM_R14 | REGNUM_R15 | REGNUM_COUNT

text \<open>A local on the stack; the offset is \<open>None\<close> where the source leaves its variable uninitialised.\<close>

record NativeVarInfo =
  startOffset :: u32
  endOffset :: u32
  varNumber :: u32
  vlsBaseReg :: RegNum
  vlsOffset :: "u32 option"

datatype FormValue = FormBlock "u8 list" | FormAddress u64 | FormOther

datatype DwTag = DW_TAG_subprogram | DW_TAG_formal_parameter | DW_TAG_variable | DW_TAG_other nat

text \<open>A debug entry with its attributes (location, frame base, low pc) and its children; \<open>NullDIE\<close> ends the list of
  the children in the file.\<close>

datatype DIE = NullDIE | DIE DwTag "FormValue option" "FormValue option" "FormValue option" "DIE list"

datatype EERelocation = IMAGE_REL_BASED_ABSOLUTE | IMAGE_REL_BASED_DIR64 | IMAGE_REL_BASED_REL32

datatype EECall =
    setBoundaries u64 u32 "OffsetMapping option list"
  | setVars u64 nat "NativeVarInfo option list"
  | recordRelocation u64 u64 EERelocation

record RelocSymbol =
  symbol_name :: string
  symbol_section :: "nat option"     \<comment> \<open>\<open>None\<close> is an external symbol\<close>
  symbol_value :: u64

record Relocation =
  rel_type :: u64
  rel_offset :: u64
  rel_symbol :: RelocSymbol
  rel_addend :: u64                  \<comment> \<open>of an ELF relocation\<close>

record Section =
  section_name :: string
  relocated_section :: "nat option"
  relocations :: "Relocation list"

record ObjectFile =
  sections :: "Section list"
  isELF :: bool
  symbols :: "Symbol list"
  line_table :: "u64 \<Rightarrow> u64 \<Rightarrow> LineInfo list"     \<comment> \<open>\<open>getLineInfoForAddressRange\<close>\<close>
  compile_units :: "DIE list"
  load_address :: "nat \<Rightarrow> u64"
  memory32 :: "u64 \<Rightarrow> u32"
  memory64 :: "u64 \<Rightarrow> u64"

text \<open>The context: the method, the handles of the global variables, and the sizes of two structures of the runtime.\<close>

record ListenerContext =
  ftn :: u64
  NameToHandleMap :: "string \<Rightarrow> u64 option"
  sizeof_OffsetMapping :: u32
  sizeof_NativeVarInfo :: u32

text \<open>\<open>allocateArray\<close> with a size in bytes, as an array of structures.\<close>

definition allocate_array :: "u32 \<Rightarrow> u32 \<Rightarrow> 'a option list" where
  "allocate_array bytes elem = replicate (unat bytes div unat elem) None"

subsection \<open>Lines\<close>

fun function_range :: "Symbol list \<Rightarrow> u64 \<Rightarrow> u64 \<Rightarrow> u64 \<times> u64" where
  "function_range [] Addr Size = (Addr, Size)"
| "function_range (s # ss) Addr Size =
     (if \<not> is_function s then function_range ss Addr Size
      else case sym_address s of None \<Rightarrow> function_range ss Addr Size
           | Some SingleAddr \<Rightarrow> function_range ss (if SingleAddr < Addr then SingleAddr else Addr) (Size + sym_size s))"

fun count_ranges :: "LineInfo list \<Rightarrow> u32 \<Rightarrow> u32 \<Rightarrow> u32" where
  "count_ranges [] LastDebugOffset NumDebugRanges = NumDebugRanges"
| "count_ranges (l # ls) LastDebugOffset NumDebugRanges =
     (if Line l \<noteq> LastDebugOffset then count_ranges ls (Line l) (NumDebugRanges + 1)
      else count_ranges ls LastDebugOffset NumDebugRanges)"

definition offset_mapping :: "LineInfo \<Rightarrow> OffsetMapping" where
  "offset_mapping l = \<lparr>nativeOffset = ucast (line_address l), ilOffset = Line l,
     source = (if Column l = 1 then CALL_INSTRUCTION else STACK_EMPTY)\<rparr>"

fun fill_ranges :: "LineInfo list \<Rightarrow> u32 \<Rightarrow> nat \<Rightarrow> OffsetMapping option list \<Rightarrow> OffsetMapping option list result" where
  "fill_ranges [] LastDebugOffset CurrentDebugEntry OM = Inr OM"
| "fill_ranges (l # ls) LastDebugOffset CurrentDebugEntry OM =
     (if Line l \<noteq> LastDebugOffset
      then rbind (array_put ''OM'' OM CurrentDebugEntry (Some (offset_mapping l))) (fill_ranges ls (Line l) (CurrentDebugEntry + 1))
      else fill_ranges ls LastDebugOffset CurrentDebugEntry OM)"

subsection \<open>Locals\<close>

fun getSubprogramDIE :: "DIE \<Rightarrow> DIE option" where
  "getSubprogramDIE NullDIE = None"
| "getSubprogramDIE (DIE tag loc fb pc []) = (if tag = DW_TAG_subprogram then Some (DIE tag loc fb pc []) else None)"
| "getSubprogramDIE (DIE tag loc fb pc (c # cs)) =
     (if tag = DW_TAG_subprogram then Some (DIE tag loc fb pc (c # cs)) else getSubprogramDIE c)"

text \<open>\<open>getAsBlock\<close> and the last byte of the block: a value that is no block is an empty \<open>Optional\<close>.\<close>

definition block_back :: "FormValue \<Rightarrow> u8 result" where
  "block_back v = (case v of FormBlock bs \<Rightarrow> if bs = [] then Inl (AssertFailed ''!empty()'') else Inr (last bs)
     | _ \<Rightarrow> Inl (AssertFailed ''Optional has a value''))"

definition local_offset :: "FormValue option \<Rightarrow> u64 option result" where
  "local_offset loc = (case loc of None \<Rightarrow> Inr None | Some v \<Rightarrow> rbind (block_back v) (\<lambda>b. Inr (Some (ucast b))))"

fun extractLocalLocations :: "DIE \<Rightarrow> u64 option list \<Rightarrow> u64 option list result"
and extract_children :: "DIE list \<Rightarrow> u64 option list \<Rightarrow> u64 option list result" where
  "extractLocalLocations NullDIE Offsets = Inr Offsets"
| "extractLocalLocations (DIE tag loc fb pc cs) Offsets =
     rbind (if tag = DW_TAG_formal_parameter \<or> tag = DW_TAG_variable
            then rbind (local_offset loc) (\<lambda>Offset. Inr (Offsets @ [Offset])) else Inr Offsets)
       (extract_children cs)"
| "extract_children [] Offsets = Inr Offsets"
| "extract_children (c # cs) Offsets = rbind (extractLocalLocations c Offsets) (extract_children cs)"

definition mapDwarfRegisterToRegNum :: "u8 \<Rightarrow> RegNum" where
  "mapDwarfRegisterToRegNum DwarfRegister =
     (let regs = [REGNUM_RAX, REGNUM_RDX, REGNUM_RCX, REGNUM_RBX, REGNUM_RSI, REGNUM_RDI, REGNUM_RBP, REGNUM_RSP,
        REGNUM_R8, REGNUM_R9, REGNUM_R10, REGNUM_R11, REGNUM_R12, REGNUM_R13, REGNUM_R14, REGNUM_R15]; r = unat DwarfRegister in
      if 0x50 \<le> r \<and> r \<le> 0x5F then regs ! (r - 0x50) else REGNUM_COUNT)"

fun fill_vars :: "u64 \<Rightarrow> u64 \<Rightarrow> RegNum \<Rightarrow> u64 option list \<Rightarrow> nat \<Rightarrow> NativeVarInfo option list \<Rightarrow> NativeVarInfo option list result" where
  "fill_vars Addr Size reg [] CurrentDebugEntry LocalVars = Inr LocalVars"
| "fill_vars Addr Size reg (Offset # Offsets) CurrentDebugEntry LocalVars =
     rbind (array_put ''LocalVars'' LocalVars CurrentDebugEntry
        (Some \<lparr>startOffset = ucast Addr, endOffset = ucast (Addr + Size), varNumber = of_nat CurrentDebugEntry,
               vlsBaseReg = reg, vlsOffset = map_option ucast Offset\<rparr>))
       (fill_vars Addr Size reg Offsets (CurrentDebugEntry + 1))"

text \<open>\<open>None\<close> for the low pc of another function, at which the source returns.\<close>

definition unit_locals :: "ListenerContext \<Rightarrow> u64 \<Rightarrow> u64 \<Rightarrow> DIE \<Rightarrow> EECall list option result" where
  "unit_locals ctx Addr Size CU =
     (case getSubprogramDIE CU of
        None \<Rightarrow> Inl (AssertFailed ''null SubprogramDIE'')
      | Some NullDIE \<Rightarrow> Inl (AssertFailed ''null SubprogramDIE'')
      | Some (DIE tag loc fb pc cs) \<Rightarrow>
          rbind (case fb of None \<Rightarrow> Inr REGNUM_COUNT | Some v \<Rightarrow> rbind (block_back v) (\<lambda>b. Inr (mapDwarfRegisterToRegNum b))) (\<lambda>FrameBaseRegister.
          rbind (case pc of None \<Rightarrow> Inr True | Some (FormAddress a) \<Rightarrow> Inr (a = Addr) | Some _ \<Rightarrow> Inl (AssertFailed ''Optional has a value'')) (\<lambda>here.
          if \<not> here then Inr None
          else rbind (extractLocalLocations (DIE tag loc fb pc cs) []) (\<lambda>Offsets.
            let SizeOfArray = of_nat (length Offsets) * sizeof_NativeVarInfo ctx in
            if SizeOfArray > 0
            then rbind (fill_vars Addr Size FrameBaseRegister Offsets 0 (allocate_array SizeOfArray (sizeof_NativeVarInfo ctx))) (\<lambda>LocalVars.
                 Inr (Some [setVars (ftn ctx) (length Offsets) LocalVars]))
            else Inr (Some [])))))"

fun getDebugInfoForLocals :: "ListenerContext \<Rightarrow> u64 \<Rightarrow> u64 \<Rightarrow> DIE list \<Rightarrow> EECall list result" where
  "getDebugInfoForLocals ctx Addr Size [] = Inr []"
| "getDebugInfoForLocals ctx Addr Size (CU # CUs) =
     rbind (unit_locals ctx Addr Size CU) (\<lambda>r. case r of None \<Rightarrow> Inr []
       | Some calls \<Rightarrow> rbind (getDebugInfoForLocals ctx Addr Size CUs) (\<lambda>more. Inr (calls @ more)))"

definition getDebugInfoForObject :: "ListenerContext \<Rightarrow> ObjectFile \<Rightarrow> EECall list result" where
  "getDebugInfoForObject ctx Obj =
     (let (Addr, Size) = function_range (symbols Obj) (- 1) 0;
          Lines = line_table Obj Addr Size;
          NumDebugRanges = count_ranges Lines (- 1) 0 in
      if NumDebugRanges > 0
      then rbind (fill_ranges Lines (- 1) 0 (allocate_array (NumDebugRanges * sizeof_OffsetMapping ctx) (sizeof_OffsetMapping ctx))) (\<lambda>OM.
           rbind (getDebugInfoForLocals ctx Addr Size (compile_units Obj)) (\<lambda>more.
           Inr (setBoundaries (ftn ctx) NumDebugRanges OM # more)))
      else Inr [])"

subsection \<open>Relocations\<close>

text \<open>The numbers of the relocation types: 0 is \<open>IMAGE_REL_AMD64_ABSOLUTE\<close>, 1 is \<open>ADDR64\<close>, 4 is \<open>REL32\<close>.\<close>

definition getRelocationType :: "u64 \<Rightarrow> EERelocation result" where
  "getRelocationType t = (if t = 0 then Inr IMAGE_REL_BASED_ABSOLUTE else if t = 1 then Inr IMAGE_REL_BASED_DIR64
     else if t = 4 then Inr IMAGE_REL_BASED_REL32 else Inl (Unreachable ''Unknown reloc type.''))"

definition getRelocationAddend :: "ObjectFile \<Rightarrow> u64 \<Rightarrow> u64 \<Rightarrow> u64 result" where
  "getRelocationAddend Obj t FixupAddress =
     (if t = 0 then Inr (ucast (memory32 Obj FixupAddress)) else if t = 1 then Inr (memory64 Obj FixupAddress)
      else if t = 4 then Inr (ucast (memory32 Obj FixupAddress)) else Inl (Unreachable ''Unknown reloc type.''))"

definition is_skipped_section :: "string \<Rightarrow> bool" where
  "is_skipped_section SectionName \<longleftrightarrow> prefix ''.debug'' SectionName \<or> prefix ''.rela.debug'' SectionName \<or> SectionName = ''.pdata''
     \<or> prefix ''.eh_frame'' SectionName \<or> prefix ''.rela.eh_frame'' SectionName"

text \<open>The target without the addend; \<open>None\<close> is the personality routine, which is not reported.\<close>

definition relocation_target :: "ListenerContext \<Rightarrow> ObjectFile \<Rightarrow> string \<Rightarrow> RelocSymbol \<Rightarrow> u64 option result" where
  "relocation_target ctx Obj SectionName Sym =
     (case symbol_section Sym of
        Some SymbolSection \<Rightarrow> Inr (Some (load_address Obj SymbolSection + symbol_value Sym))
      | None \<Rightarrow>
          (case NameToHandleMap ctx (symbol_name Sym) of
             Some h \<Rightarrow> Inr (Some h)
           | None \<Rightarrow>
               rbind (rassert ''ProcessCLRException'' (symbol_name Sym = ''ProcessCLRException'')) (\<lambda>_.
               rbind (rassert ''.xdata'' (prefix ''.xdata'' SectionName)) (\<lambda>_. Inr None))))"

definition record_relocation :: "ListenerContext \<Rightarrow> ObjectFile \<Rightarrow> nat \<Rightarrow> string \<Rightarrow> Relocation \<Rightarrow> EECall list result" where
  "record_relocation ctx Obj sec SectionName I =
     rbind (relocation_target ctx Obj SectionName (rel_symbol I)) (\<lambda>target.
     case target of None \<Rightarrow> Inr []
     | Some RelocationTarget \<Rightarrow>
         rbind (getRelocationType (rel_type I)) (\<lambda>EERelType.
         let SectionAddress = load_address Obj sec; FixupAddress = SectionAddress + rel_offset I in
         rbind (rassert ''SectionAddress != 0'' (SectionAddress \<noteq> 0)) (\<lambda>_.
         rbind (if isELF Obj then Inr (rel_addend I) else getRelocationAddend Obj (rel_type I) FixupAddress) (\<lambda>Addend.
         Inr [recordRelocation FixupAddress (RelocationTarget + Addend) EERelType]))))"

fun rconcat :: "'a list result list \<Rightarrow> 'a list result" where
  "rconcat [] = Inr []"
| "rconcat (r # rs) = rbind r (\<lambda>xs. rbind (rconcat rs) (\<lambda>ys. Inr (xs @ ys)))"

definition section_relocations :: "ListenerContext \<Rightarrow> ObjectFile \<Rightarrow> Section \<Rightarrow> EECall list result" where
  "section_relocations ctx Obj SI =
     (case relocated_section SI of
        None \<Rightarrow> Inr []
      | Some sec \<Rightarrow>
          rbind (array_get ''sections'' (sections Obj) sec) (\<lambda>S.
          if is_skipped_section (section_name S) then Inr []
          else rconcat (map (record_relocation ctx Obj sec (section_name S)) (relocations SI))))"

definition recordRelocations :: "ListenerContext \<Rightarrow> ObjectFile \<Rightarrow> EECall list result" where
  "recordRelocations ctx Obj = rconcat (map (section_relocations ctx Obj) (sections Obj))"

definition notify_loaded :: "ListenerContext \<Rightarrow> ObjectFile list \<Rightarrow> EECall list result" where
  "notify_loaded ctx Objs = rconcat (concat (map (\<lambda>Obj. [getDebugInfoForObject ctx Obj, recordRelocations ctx Obj]) Objs))"

subsection \<open>Specification\<close>

text \<open>The entries of the line table that start a range: their IL offset differs from that of the entry before; the
  first is compared with -1.\<close>

definition starts_range :: "LineInfo list \<Rightarrow> nat \<Rightarrow> bool" where
  "starts_range ls i \<longleftrightarrow> Line (ls ! i) \<noteq> (if i = 0 then - 1 else Line (ls ! (i - 1)))"

definition boundaries :: "LineInfo list \<Rightarrow> OffsetMapping list" where
  "boundaries ls = map (\<lambda>i. offset_mapping (ls ! i)) (filter (starts_range ls) [0..<length ls])"

definition located_functions :: "Symbol list \<Rightarrow> Symbol list" where
  "located_functions ss = filter (\<lambda>s. is_function s \<and> sym_address s \<noteq> None) ss"

text \<open>The relocations that are reported, with the section they are in.\<close>

definition is_personality :: "ListenerContext \<Rightarrow> Relocation \<Rightarrow> bool" where
  "is_personality ctx I \<longleftrightarrow> symbol_section (rel_symbol I) = None \<and> NameToHandleMap ctx (symbol_name (rel_symbol I)) = None"

definition reported_relocations :: "ListenerContext \<Rightarrow> ObjectFile \<Rightarrow> (nat \<times> Relocation) list" where
  "reported_relocations ctx Obj = concat (map (\<lambda>SI. case relocated_section SI of None \<Rightarrow> []
     | Some sec \<Rightarrow> if is_skipped_section (section_name (sections Obj ! sec)) then []
         else map (Pair sec) (filter (\<lambda>I. \<not> is_personality ctx I) (relocations SI))) (sections Obj))"

definition symbol_address :: "ListenerContext \<Rightarrow> ObjectFile \<Rightarrow> RelocSymbol \<Rightarrow> u64" where
  "symbol_address ctx Obj s = (case symbol_section s of Some sec \<Rightarrow> load_address Obj sec + symbol_value s
     | None \<Rightarrow> the (NameToHandleMap ctx (symbol_name s)))"

definition addend :: "ObjectFile \<Rightarrow> u64 \<Rightarrow> Relocation \<Rightarrow> u64" where
  "addend Obj place I = (if isELF Obj then rel_addend I else if rel_type I = 1 then memory64 Obj place else ucast (memory32 Obj place))"

definition ee_type :: "u64 \<Rightarrow> EERelocation" where
  "ee_type t = (if t = 0 then IMAGE_REL_BASED_ABSOLUTE else if t = 1 then IMAGE_REL_BASED_DIR64 else IMAGE_REL_BASED_REL32)"

definition relocation_call :: "ListenerContext \<Rightarrow> ObjectFile \<Rightarrow> nat \<times> Relocation \<Rightarrow> EECall" where
  "relocation_call ctx Obj = (\<lambda>(sec, I). let place = load_address Obj sec + rel_offset I in
     recordRelocation place (symbol_address ctx Obj (rel_symbol I) + addend Obj place I) (ee_type (rel_type I)))"

text \<open>What the source takes for granted of an object: known relocation types, loaded sections, and no unknown
  external symbol but the personality routine of the unwind data.\<close>

definition relocation_ok :: "ListenerContext \<Rightarrow> ObjectFile \<Rightarrow> nat \<Rightarrow> Relocation \<Rightarrow> bool" where
  "relocation_ok ctx Obj sec I \<longleftrightarrow>
     (if is_personality ctx I
      then symbol_name (rel_symbol I) = ''ProcessCLRException'' \<and> prefix ''.xdata'' (section_name (sections Obj ! sec))
      else rel_type I \<in> {0, 1, 4} \<and> load_address Obj sec \<noteq> 0)"

definition section_ok :: "ListenerContext \<Rightarrow> ObjectFile \<Rightarrow> Section \<Rightarrow> bool" where
  "section_ok ctx Obj SI = (case relocated_section SI of None \<Rightarrow> True
     | Some sec \<Rightarrow> sec < length (sections Obj) \<and>
         (is_skipped_section (section_name (sections Obj ! sec)) \<or> list_all (relocation_ok ctx Obj sec) (relocations SI)))"

text \<open>The signed LEB128 encoding of DWARF, and the location of a variable at an offset from the frame base.\<close>

function sleb128 :: "int \<Rightarrow> u8 list" where
  "sleb128 x = (let b = x mod 128; y = x div 128 in
     if y = 0 \<and> b < 64 \<or> y = - 1 \<and> 64 \<le> b then [word_of_int b] else word_of_int (b + 128) # sleb128 y)"
  by pat_completeness auto

termination
proof (relation "measure (\<lambda>x. nat \<bar>x\<bar>)")
  fix x b y :: int
  assume d: "b = x mod 128" "y = x div 128" and n: "\<not> (y = 0 \<and> b < 64 \<or> y = - 1 \<and> 64 \<le> b)"
  then have x: "x = 128 * y + b" "0 \<le> b" "b < 128" by simp_all
  consider "y = 0" | "y = - 1" | "0 < y" | "y < - 1" by linarith
  then have "\<bar>y\<bar> < \<bar>x\<bar>" using n x by cases auto
  then show "(y, x) \<in> measure (\<lambda>x. nat \<bar>x\<bar>)" by simp
qed simp

declare sleb128.simps [simp del]

definition DW_OP_fbreg :: u8 where
  "DW_OP_fbreg = 0x91"

subsection \<open>Lemmas\<close>

fun runs :: "u32 \<Rightarrow> LineInfo list \<Rightarrow> LineInfo list" where
  "runs prev [] = []"
| "runs prev (l # ls) = (if Line l \<noteq> prev then [l] else []) @ runs (Line l) ls"

lemma length_runs: "length (runs prev ls) \<le> length ls"
  by (induction ls arbitrary: prev) (auto intro: le_SucI)

lemma runs_index:
  "map f (runs prev ls) = map (\<lambda>i. f (ls ! i)) (filter (\<lambda>i. Line (ls ! i) \<noteq> (if i = 0 then prev else Line (ls ! (i - 1)))) [0..<length ls])"
proof (induction ls arbitrary: prev)
  case (Cons l ls)
  let ?P = "\<lambda>ls prev i. Line (ls ! i) \<noteq> (if i = 0 then prev else Line (ls ! (i - 1)))"
  have up: "[0..<length (l # ls)] = 0 # map Suc [0..<length ls]" by (simp add: upt_conv_Cons map_Suc_upt del: upt_Suc)
  have eq: "?P (l # ls) prev (Suc i) = ?P ls (Line l) i" for i by (cases i) simp_all
  have "filter (?P (l # ls) prev) (map Suc [0..<length ls]) = map Suc (filter (?P ls (Line l)) [0..<length ls])"
    unfolding filter_map by (rule arg_cong[where f = "map Suc"], rule filter_cong) (simp_all only: o_apply eq)
  then show ?case unfolding up filter.simps using Cons.IH[of "Line l"] by (simp add: o_def)
qed simp

lemma boundaries_runs: "boundaries ls = map offset_mapping (runs (- 1) ls)"
  unfolding boundaries_def starts_range_def by (rule runs_index[symmetric])

lemma count_ranges_runs: "count_ranges ls prev n = n + of_nat (length (runs prev ls))"
  by (induction ls arbitrary: prev n) auto

lemma fill_ranges_runs:
  "k + length (runs prev ls) \<le> length OM \<Longrightarrow>
   fill_ranges ls prev k OM = Inr (take k OM @ map (Some \<circ> offset_mapping) (runs prev ls) @ drop (k + length (runs prev ls)) OM)"
proof (induction ls arbitrary: prev k OM)
  case (Cons l ls)
  then show ?case by (auto simp: take_Suc_conv_app_nth take_update_swap list_update_append)
qed simp

lemma allocate_array_length:
  assumes "e \<noteq> 0" "n * unat e < 2 ^ 32"
  shows "length (allocate_array (of_nat n * e) e) = n"
proof -
  have "0 < unat e" using assms(1) by (simp add: unat_gt_0)
  moreover from this have "n < 2 ^ 32" using assms(2) by (metis le_less_trans mult.right_neutral mult_le_mono2 Suc_leI One_nat_def)
  ultimately have "unat (of_nat n * e) = n * unat e" using assms(2) by (simp add: unat_word_ariths unat_of_nat)
  then show ?thesis using \<open>0 < unat e\<close> by (simp add: allocate_array_def)
qed

lemma fill_vars_all:
  "k + length os \<le> length vs \<Longrightarrow>
   fill_vars Addr Size reg os k vs = Inr (take k vs @ map (\<lambda>(i, off). Some \<lparr>startOffset = ucast Addr, endOffset = ucast (Addr + Size),
      varNumber = of_nat i, vlsBaseReg = reg, vlsOffset = map_option ucast off\<rparr>) (enumerate k os) @ drop (k + length os) vs)"
proof (induction os arbitrary: k vs)
  case (Cons x os)
  then show ?case by (auto simp: take_Suc_conv_app_nth take_update_swap list_update_append)
qed simp

lemma function_range_eq:
  "function_range ss Addr Size =
     (fold min (map (the \<circ> sym_address) (located_functions ss)) Addr, Size + sum_list (map sym_size (located_functions ss)))"
  by (induction ss arbitrary: Addr Size) (auto simp: located_functions_def min_def fold_commute split: option.splits)

lemma fold_min_le:
  fixes xs :: "'a::linorder list"
  shows "fold min xs a \<le> a" "x \<in> set xs \<Longrightarrow> fold min xs a \<le> x"
proof -
  show le: "fold min xs a \<le> a" for xs :: "'a list" and a
    by (induction xs arbitrary: a) (simp, metis fold_simps(2) min.bounded_iff)
  show "x \<in> set xs \<Longrightarrow> fold min xs a \<le> x"
    by (induction xs arbitrary: a) (simp, metis fold_simps(2) le min.bounded_iff set_ConsD)
qed

lemma fold_min_mem:
  fixes xs :: "u64 list"
  assumes "xs \<noteq> []"
  shows "fold min xs (- 1) \<in> set xs"
proof -
  have "fold min xs a \<in> insert a (set xs)" for a by (induction xs arbitrary: a) (auto simp: min_def)
  moreover have "fold min xs (- 1) \<noteq> - 1 \<or> (\<forall>x \<in> set xs. x = - 1)"
    using fold_min_le(2)[of _ xs "- 1"] by (metis word_order.extremum_unique)
  ultimately show ?thesis using assms by (metis insertE last_in_set)
qed

lemma rconcat_map: "(\<And>x. x \<in> set xs \<Longrightarrow> f x = Inr (g x)) \<Longrightarrow> rconcat (map f xs) = Inr (concat (map g xs))"
  by (induction xs) auto

lemma record_relocation_eq:
  assumes "relocation_ok ctx Obj sec I"
  shows "record_relocation ctx Obj sec (section_name (sections Obj ! sec)) I =
    Inr (if is_personality ctx I then [] else [relocation_call ctx Obj (sec, I)])"
  using assms
  by (auto simp: relocation_ok_def record_relocation_def is_personality_def relocation_target_def relocation_call_def symbol_address_def
      addend_def ee_type_def getRelocationType_def getRelocationAddend_def Let_def split: option.splits if_splits)

lemma concat_map_if: "concat (map (\<lambda>x. if P x then [] else [f x]) xs) = map f (filter (\<lambda>x. \<not> P x) xs)"
  by (induction xs) auto

lemma section_relocations_eq:
  assumes "section_ok ctx Obj SI"
  shows "section_relocations ctx Obj SI = Inr (case relocated_section SI of None \<Rightarrow> []
     | Some sec \<Rightarrow> if is_skipped_section (section_name (sections Obj ! sec)) then []
         else map (relocation_call ctx Obj \<circ> Pair sec) (filter (\<lambda>I. \<not> is_personality ctx I) (relocations SI)))"
proof (cases "relocated_section SI")
  case (Some sec)
  have "rconcat (map (record_relocation ctx Obj sec (section_name (sections Obj ! sec))) (relocations SI)) =
      Inr (map (relocation_call ctx Obj \<circ> Pair sec) (filter (\<lambda>I. \<not> is_personality ctx I) (relocations SI)))"
    if "list_all (relocation_ok ctx Obj sec) (relocations SI)"
    using that by (subst rconcat_map[where g = "\<lambda>I. if is_personality ctx I then [] else [relocation_call ctx Obj (sec, I)]"])
      (auto simp: list_all_iff record_relocation_eq concat_map_if)
  then show ?thesis using assms Some by (auto simp: section_relocations_def section_ok_def)
qed (simp add: section_relocations_def)

text \<open>The last byte of an encoding.\<close>

lemma sleb128_last:
  "\<exists>b. last (sleb128 x) = word_of_int b \<and> 0 \<le> b \<and> b < 128 \<and> (x < 0 \<longrightarrow> 64 \<le> b) \<and> (0 \<le> x \<longrightarrow> b < 64 \<and> b \<le> x)"
proof (induction x rule: sleb128.induct)
  case (1 x)
  let ?b = "x mod 128" and ?y = "x div 128"
  have x: "x = 128 * ?y + ?b" "0 \<le> ?b" "?b < 128" by simp_all
  show ?case
  proof (cases "?y = 0 \<and> ?b < 64 \<or> ?y = - 1 \<and> 64 \<le> ?b")
    case True
    then show ?thesis using x by (auto simp: sleb128.simps[of x] Let_def intro!: exI[of _ ?b])
  next
    case False
    have ne: "sleb128 ?y \<noteq> []" by (subst sleb128.simps) (simp add: Let_def)
    have "last (sleb128 x) = last (sleb128 ?y)" using ne by (simp only: sleb128.simps[of x] Let_def False if_False last_ConsR simp_thms)
    moreover obtain b where "last (sleb128 ?y) = word_of_int b" "0 \<le> b" "b < 128" "?y < 0 \<longrightarrow> 64 \<le> b" "0 \<le> ?y \<longrightarrow> b < 64 \<and> b \<le> ?y"
      using "1.IH"[OF refl refl False] by blast
    moreover have "?y < 0 \<longleftrightarrow> x < 0" "0 \<le> x \<longrightarrow> ?y \<le> x" using x by linarith+
    ultimately show ?thesis by (auto intro!: exI[of _ b])
  qed
qed

subsection \<open>Properties\<close>

text \<open>C31: the runtime receives the line table of a function and its funclets: the table is asked for the range from
  the least address of a function symbol over the sum of their sizes; the mappings are those of exactly the entries that
  start a new IL offset, in their order, the array is as long as the count says and no write leaves it. With no
  such entry nothing is reported, the locals included.\<close>

theorem line_table_reported:
  assumes "function_range (symbols Obj) (- 1) 0 = (Addr, Size)" "Lines = line_table Obj Addr Size"
    and "sizeof_OffsetMapping ctx \<noteq> 0" "length Lines * unat (sizeof_OffsetMapping ctx) < 2 ^ 32"
  shows "getDebugInfoForObject ctx Obj =
      (if boundaries Lines = [] then Inr []
       else rbind (getDebugInfoForLocals ctx Addr Size (compile_units Obj)) (\<lambda>more.
         Inr (setBoundaries (ftn ctx) (of_nat (length (boundaries Lines))) (map Some (boundaries Lines)) # more)))
    \<and> Size = sum_list (map sym_size (located_functions (symbols Obj)))
    \<and> (\<forall>s \<in> set (located_functions (symbols Obj)). Addr \<le> the (sym_address s))
    \<and> (located_functions (symbols Obj) \<noteq> [] \<longrightarrow> (\<exists>s \<in> set (located_functions (symbols Obj)). sym_address s = Some Addr))"
proof -
  let ?e = "sizeof_OffsetMapping ctx" and ?n = "length (runs (- 1) Lines)" and ?fs = "located_functions (symbols Obj)"
  have n: "?n * unat ?e < 2 ^ 32" using assms(4) length_runs[of "- 1" Lines] by (meson le_less_trans mult_le_mono1)
  have f: "fill_ranges Lines (- 1) 0 (allocate_array (of_nat ?n * ?e) ?e) = Inr (map Some (boundaries Lines))"
    by (simp add: fill_ranges_runs boundaries_runs allocate_array_length[OF assms(3) n])
  have "0 < unat ?e" using assms(3) by (simp add: unat_gt_0)
  then have "?n < 2 ^ 32" using n by (metis le_less_trans mult.right_neutral mult_le_mono2 Suc_leI One_nat_def)
  then have z: "(0 < (of_nat ?n :: u32)) = (boundaries Lines \<noteq> [])"
    by (simp add: word_less_nat_alt unat_of_nat boundaries_runs)
  have addr: "Addr = fold min (map (the \<circ> sym_address) ?fs) (- 1)" "Size = sum_list (map sym_size ?fs)"
    using assms(1) by (simp_all add: function_range_eq)
  have "getDebugInfoForObject ctx Obj =
      (if boundaries Lines = [] then Inr []
       else rbind (getDebugInfoForLocals ctx Addr Size (compile_units Obj)) (\<lambda>more.
         Inr (setBoundaries (ftn ctx) (of_nat (length (boundaries Lines))) (map Some (boundaries Lines)) # more)))"
    using f z by (simp add: getDebugInfoForObject_def assms(1) assms(2)[symmetric] count_ranges_runs) (simp add: boundaries_runs)
  moreover have "Addr \<le> the (sym_address s)" if "s \<in> set ?fs" for s
    using fold_min_le(2)[of "the (sym_address s)" "map (the \<circ> sym_address) ?fs"] that by (simp add: addr(1))
  moreover have "\<exists>s \<in> set ?fs. sym_address s = Some Addr" if "?fs \<noteq> []"
    using fold_min_mem[of "map (the \<circ> sym_address) ?fs"] that addr(1) by (auto simp: located_functions_def)
  ultimately show ?thesis using addr(2) by blast
qed


text \<open>C40: the location that is reported for a local is the last byte of its DWARF location: for a variable at an offset
  from the frame base it is that offset only from 0 to 63; for every other offset, each negative one included, another
  number is reported.\<close>

theorem local_offsets_wrong:
  "\<exists>v. extractLocalLocations (DIE DW_TAG_variable (Some (FormBlock (DW_OP_fbreg # sleb128 off))) fb pc []) [] = Inr [Some v]
     \<and> (sint (ucast v :: u32) = off \<longleftrightarrow> 0 \<le> off \<and> off < 64)"
proof -
  obtain b where b: "last (sleb128 off) = word_of_int b" "0 \<le> b" "b < 128" "off < 0 \<longrightarrow> 64 \<le> b" "0 \<le> off \<longrightarrow> b < 64 \<and> b \<le> off"
    using sleb128_last by blast
  have ne: "sleb128 off \<noteq> []" by (subst sleb128.simps) (simp add: Let_def)
  have w: "uint (word_of_int c :: u8) = c" if "0 \<le> c" "c < 128" for c
    using that by (simp add: unsigned_of_int take_bit_int_eq_self)
  have v: "sint (ucast (ucast (word_of_int b :: u8) :: u64) :: u32) = b"
    using b(2,3) w[of b] by (simp add: sint_uint unsigned_ucast_eq unsigned_take_bit_eq take_bit_int_eq_self signed_take_bit_int_eq_self)
  have "b = off" if "0 \<le> off" "off < 64"
  proof -
    have "last (sleb128 off) = word_of_int off" using that by (subst sleb128.simps) (simp add: Let_def)
    then have "uint (last (sleb128 off)) = off" using w[of off] that by (simp only:)
    moreover have "uint (last (sleb128 off)) = b" using w[of b] b(2,3) by (simp only: b(1))
    ultimately show ?thesis by (simp only:)
  qed
  then show ?thesis using ne b v by (auto simp: local_offset_def block_back_def)
qed

subsection \<open>Witnesses\<close>

definition sample_object :: ObjectFile where
  "sample_object = \<lparr>sections = [
       \<lparr>section_name = ''.text'', relocated_section = None, relocations = []\<rparr>,
       \<lparr>section_name = ''.rela.text'', relocated_section = Some 0, relocations = [
          \<lparr>rel_type = 1, rel_offset = 2, rel_symbol = \<lparr>symbol_name = ''static'', symbol_section = None, symbol_value = 0\<rparr>, rel_addend = 8\<rparr>]\<rparr>,
       \<lparr>section_name = ''.rela.debug_info'', relocated_section = Some 3, relocations = []\<rparr>,
       \<lparr>section_name = ''.debug_info'', relocated_section = None, relocations = []\<rparr>],
     isELF = True,
     symbols = [\<lparr>is_function = True, sym_address = Some 0x1040, sym_size = 16\<rparr>, \<lparr>is_function = False, sym_address = Some 0, sym_size = 8\<rparr>,
       \<lparr>is_function = True, sym_address = Some 0x1000, sym_size = 64\<rparr>],
     line_table = (\<lambda>Addr Size. [\<lparr>line_address = Addr, Line = 0, Column = 0\<rparr>, \<lparr>line_address = Addr + 4, Line = 0, Column = 0\<rparr>,
       \<lparr>line_address = Addr + 9, Line = 5, Column = 1\<rparr>]),
     compile_units = [], load_address = (\<lambda>n. if n = 0 then 0x1000 else 0), memory32 = (\<lambda>_. 0), memory64 = (\<lambda>_. 0)\<rparr>"

definition sample_listener :: ListenerContext where
  "sample_listener = \<lparr>ftn = 7, NameToHandleMap = [''static'' \<mapsto> 0x5000], sizeof_OffsetMapping = 12, sizeof_NativeVarInfo = 40\<rparr>"

theorem line_table_reported_witness:
  "getDebugInfoForObject sample_listener sample_object = Inr [setBoundaries 7 2 [
     Some \<lparr>nativeOffset = 0x1000, ilOffset = 0, source = STACK_EMPTY\<rparr>, Some \<lparr>nativeOffset = 0x1009, ilOffset = 5, source = CALL_INSTRUCTION\<rparr>]]"
  using line_table_reported[where Obj = sample_object and ctx = sample_listener and Addr = "0x1000" and Size = 80, OF _ refl]
  by (simp add: sample_object_def sample_listener_def boundaries_def starts_range_def offset_mapping_def upt_rec)


end
