(* ===== verification/JitDriver.thy ===== *)
theory JitDriver
  imports JitConfig "HOL-Library.Multiset"
begin

section \<open>Compiling a method\<close>

text \<open>
  lib/Jit/LLILCJit.cpp: \<open>compileMethod\<close>, the entry of the jit, with the stack of contexts of the thread. Reading a method
  may need other methods to run first, which the runtime compiles on the same thread, so requests nest: a
  compilation is a job with the compilations that the runtime asks for while it is read. The reader, the target
  machine, the code generator and the loader are data of the job: what reading the method gives, whether the
  module verifies, where the code is. The objects that are created with \<open>new\<close> are a multiset; what the jit does to
  the module and tells the runtime is a trace of actions, each with the context it belongs to. This is the debug
  build, in which a failed assertion ends the process.
\<close>

subsection \<open>Data\<close>

datatype CodeGenLevel = OptNone | OptDefault

datatype CodeModel = ModelDefault | ModelJITDefault

datatype CorJitResult = CORJIT_OK | CORJIT_INTERNALERROR

datatype Action = DumpMSIL | DumpModule | PlaceSafepoints | RewriteStatepoints | GenerateCode CodeGenLevel CodeModel
  | EmitGCInfo | RemoveModuleSet | SetVerifiable

datatype Resource = TheABIInfo nat | TheGcInfo nat | TheTargetMachine nat

record JitState =
  HasThreadState :: bool
  JitContexts :: "nat list"          \<comment> \<open>the innermost first\<close>
  NextContext :: nat
  Sets :: MethodSets
  Live :: "Resource multiset"
  Trace :: "(nat \<times> Action) list"

text \<open>Reading either ends, with whether the method has unmanaged calls, or meets something not implemented.\<close>

datatype ReadOutcome = ReadsMethod bool | ReadFails string

record Job =
  HasNullArgument :: bool
  JobRequest :: Request
  BITCODE_PATH :: "string option"
  parseIRFile :: "string \<Rightarrow> string option"     \<comment> \<open>the identifier of the module in a file\<close>
  FindsTarget :: bool
  Reading :: ReadOutcome
  ModuleVerifies :: bool
  UninitialisedFlag :: bool                  \<comment> \<open>what an uninitialised variable happens to hold\<close>
  findSymbol :: "string \<Rightarrow> u64"
  HotCodeBlock :: u64
  HotCodeSize :: u64
  ReadOnlyDataSize :: u64

datatype Compilation = Compile Job "Compilation list"

type_synonym Outcome = "CorJitResult \<times> (u64 \<times> u32) option"     \<comment> \<open>entry and size, where they are set\<close>

subsection \<open>Contexts\<close>

definition enter_context :: "JitState \<Rightarrow> nat \<times> JitState" where
  "enter_context st = (NextContext st, st\<lparr>HasThreadState := True, JitContexts := NextContext st # JitContexts st, NextContext := NextContext st + 1\<rparr>)"

definition leave_context :: "nat \<Rightarrow> JitState \<Rightarrow> JitState result" where
  "leave_context c st = (case JitContexts st of [] \<Rightarrow> Inl (AssertFailed ''Unbalanced contexts!'')
     | innermost # outer \<Rightarrow> rbind (rassert ''Unbalanced contexts!'' (innermost = c)) (\<lambda>_. Inr (st\<lparr>JitContexts := outer\<rparr>)))"

definition create :: "Resource \<Rightarrow> JitState \<Rightarrow> JitState" where
  "create r st = st\<lparr>Live := add_mset r (Live st)\<rparr>"

definition delete :: "Resource \<Rightarrow> JitState \<Rightarrow> JitState" where
  "delete r st = st\<lparr>Live := Live st - {#r#}\<rparr>"

definition act :: "nat \<Rightarrow> Action list \<Rightarrow> JitState \<Rightarrow> JitState" where
  "act c as st = st\<lparr>Trace := Trace st @ map (Pair c) as\<rparr>"

subsection \<open>The module\<close>

text \<open>The identifier of the module and whether it was loaded.\<close>

definition getModuleForMethod :: "Job \<Rightarrow> string \<times> bool" where
  "getModuleForMethod j =
     (let ModName = RequestClassName (JobRequest j) @ ''.'' @ RequestMethodName (JobRequest j) in
      case BITCODE_PATH j of
        None \<Rightarrow> (ModName, False)
      | Some BitcodePath \<Rightarrow>
          (case parseIRFile j (BitcodePath @ [CHR 0x5C] @ ModName @ ''.bc'') of
             Some M \<Rightarrow> (M, True)
           | None \<Rightarrow> (ModName, False)))"

text \<open>Whether there is a method, and whether it has unmanaged calls, which is not set where nothing is read.\<close>

definition readMethod :: "Job \<Rightarrow> bool \<Rightarrow> (bool \<times> bool) result" where
  "readMethod j HasLoadedBitCode =
     (if HasLoadedBitCode then Inr (True, UninitialisedFlag j)
      else case Reading j of
        ReadFails reason \<Rightarrow> Inr (False, UninitialisedFlag j)
      | ReadsMethod ContainsUnmanagedCall \<Rightarrow>
          rbind (rassert ''verification failed'' (ModuleVerifies j)) (\<lambda>_. Inr (True, ContainsUnmanagedCall)))"

definition codegen_level :: "Request \<Rightarrow> Options \<Rightarrow> CodeGenLevel" where
  "codegen_level R opts = (if EnableOptimization opts \<or> FLG_PREJIT R \<or> FLG_READYTORUN R then OptDefault else OptNone)"

definition code_model :: "Request \<Rightarrow> CodeModel" where
  "code_model R = (if FLG_PREJIT R \<or> FLG_READYTORUN R then ModelDefault else ModelJITDefault)"

definition module_passes :: "Options \<Rightarrow> bool \<Rightarrow> Action list" where
  "module_passes opts ContainsUnmanagedCall =
     (if ContainsUnmanagedCall \<or> DoInsertStatepoints opts
      then (if DoInsertStatepoints opts then [PlaceSafepoints] else []) @ [RewriteStatepoints] else [])"

text \<open>From the module to code.\<close>

definition generate :: "Job \<Rightarrow> nat \<Rightarrow> Options \<Rightarrow> string \<Rightarrow> bool \<Rightarrow> JitState \<Rightarrow> (Outcome \<times> JitState) result" where
  "generate j c opts Ident ContainsUnmanagedCall st =
     (let R = JobRequest j; NativeEntry = findSymbol j Ident;
          NativeSizeOfCode = ucast (HotCodeSize j + ReadOnlyDataSize j) in
      rbind (rassert ''Expect the JITted method at the beginning of the code block'' (NativeEntry = HotCodeBlock j)) (\<lambda>_.
      Inr ((CORJIT_OK, Some (NativeEntry, NativeSizeOfCode)),
           act c ((if IsLLVMDumpMethod opts then [DumpModule] else []) @ module_passes opts ContainsUnmanagedCall
             @ [GenerateCode (codegen_level R opts) (code_model R), EmitGCInfo, RemoveModuleSet]) st)))"

text \<open>The end of the function: the ABI information and the GC information are deleted, the context goes.\<close>

definition finish_request :: "nat \<Rightarrow> Outcome \<times> JitState \<Rightarrow> (Outcome \<times> JitState) result" where
  "finish_request c r = rbind (leave_context c (delete (TheGcInfo c) (delete (TheABIInfo c) (snd r)))) (\<lambda>st. Inr (fst r, st))"

text \<open>An early return: only the context goes.\<close>

definition return_early :: "nat \<Rightarrow> CorJitResult \<Rightarrow> JitState \<Rightarrow> (Outcome \<times> JitState) result" where
  "return_early c Result st = rbind (leave_context c st) (\<lambda>st. Inr ((Result, Some (0, 0)), st))"

definition begin_request :: "Job \<Rightarrow> JitState \<Rightarrow> (Options \<times> JitState) result" where
  "begin_request j st =
     (let (c, st) = enter_context st; st = create (TheGcInfo c) (create (TheABIInfo c) st) in
      rbind (JitOptions (JobRequest j) (Sets st)) (\<lambda>(opts, sets).
      Inr (opts, act c (if IsMSILDumpMethod opts then [DumpMSIL] else []) (st\<lparr>Sets := sets\<rparr>))))"

text \<open>Behind the reader.\<close>

definition after_read :: "Job \<Rightarrow> nat \<Rightarrow> Options \<Rightarrow> JitState \<Rightarrow> (Outcome \<times> JitState) result" where
  "after_read j c opts st =
     (let (Ident, HasLoadedBitCode) = getModuleForMethod j in
      rbind (readMethod j HasLoadedBitCode) (\<lambda>(HasMethod, ContainsUnmanagedCall).
      if FLG_IMPORT_ONLY (JobRequest j) then return_early c CORJIT_OK (act c [SetVerifiable] st)
      else rbind (if HasMethod then generate j c opts Ident ContainsUnmanagedCall st
                  else Inr ((CORJIT_INTERNALERROR, Some (0, 0)), st)) (\<lambda>(r, st).
        finish_request c (r, delete (TheTargetMachine c) st))))"

fun compileMethod :: "Compilation \<Rightarrow> JitState \<Rightarrow> (Outcome \<times> JitState) result"
and compile_all :: "Compilation list \<Rightarrow> JitState \<Rightarrow> JitState result" where
  "compileMethod (Compile j nested) st =
     (if HasNullArgument j then Inr ((CORJIT_INTERNALERROR, None), st)
      else let c = NextContext st in
        rbind (begin_request j st) (\<lambda>(opts, st).
        if IsAltJit opts \<and> \<not> IsExcludeMethod opts
        then if \<not> FindsTarget j then return_early c CORJIT_INTERNALERROR st
             else let st = create (TheTargetMachine c) st in
               rbind (if snd (getModuleForMethod j) then Inr st else compile_all nested st) (after_read j c opts)
        else finish_request c ((CORJIT_INTERNALERROR, Some (0, 0)), st)))"
| "compile_all [] st = Inr st"
| "compile_all (k # ks) st = rbind (compileMethod k st) (\<lambda>(r, st). compile_all ks st)"

subsection \<open>Specification and lemmas\<close>

text \<open>The actions of a context.\<close>

definition actions :: "nat \<Rightarrow> JitState \<Rightarrow> Action list" where
  "actions c st = map snd (filter (\<lambda>(i, a). i = c) (Trace st))"

definition trace_fresh :: "JitState \<Rightarrow> bool" where
  "trace_fresh st \<longleftrightarrow> (\<forall>c \<in> fst ` set (Trace st). c < NextContext st)"

text \<open>A request that does not return early, nor does one nested in it.\<close>

fun clean :: "Compilation \<Rightarrow> bool" where
  "clean (Compile j nested) = (FindsTarget j \<and> \<not> FLG_IMPORT_ONLY (JobRequest j) \<and> list_all clean nested)"

definition continues :: "JitState \<Rightarrow> JitState \<Rightarrow> bool" where
  "continues st st' \<longleftrightarrow> NextContext st \<le> NextContext st' \<and>
     (\<exists>t. Trace st' = Trace st @ t \<and> (\<forall>c \<in> fst ` set t. NextContext st \<le> c \<and> c < NextContext st'))"

definition grown :: "JitState \<Rightarrow> Resource multiset \<Rightarrow> JitState \<Rightarrow> bool" where
  "grown st leak st' \<longleftrightarrow> JitContexts st' = JitContexts st \<and> Live st' = Live st + leak \<and> continues st st'"

text \<open>The state while a context is the innermost, with the objects made so far.\<close>

definition inside :: "nat \<Rightarrow> JitState \<Rightarrow> Resource multiset \<Rightarrow> JitState \<Rightarrow> bool" where
  "inside c st made st' \<longleftrightarrow> c = NextContext st \<and> JitContexts st' = c # JitContexts st \<and> Live st' = Live st + made
     \<and> c < NextContext st' \<and> continues st st'"

lemma continues_refl [simp]: "continues st st"
  by (simp add: continues_def)

lemma continues_trans: "continues a b \<Longrightarrow> continues b c \<Longrightarrow> continues a c"
  unfolding continues_def by fastforce

lemma inside_grown: "inside c st made st1 \<Longrightarrow> grown st1 leak st2 \<Longrightarrow> inside c st (made + leak) st2"
  by (auto simp: inside_def grown_def intro: continues_trans) (auto simp: continues_def)

lemma inside_act: "inside c st made st1 \<Longrightarrow> inside c st made (act c as st1)"
  by (fastforce simp: inside_def act_def continues_def)

lemma inside_create: "inside c st made st1 \<Longrightarrow> inside c st (add_mset r made) (create r st1)"
  by (auto simp: inside_def create_def continues_def)

lemma inside_delete: "inside c st (add_mset r made) st1 \<Longrightarrow> inside c st made (delete r st1)"
  by (auto simp: inside_def delete_def continues_def)

lemma leave_inside:
  assumes "inside c st made st1"
  shows "\<exists>st'. leave_context c st1 = Inr st' \<and> grown st made st' \<and> Trace st' = Trace st1 \<and> NextContext st' = NextContext st1"
  using assms by (auto simp: inside_def grown_def leave_context_def continues_def)

lemma begin_request_inside:
  assumes "begin_request j st = Inr (opts, st1)"
  shows "inside (NextContext st) st {#TheGcInfo (NextContext st), TheABIInfo (NextContext st)#} st1"
    "Trace st1 = Trace st @ (if IsMSILDumpMethod opts then [(NextContext st, DumpMSIL)] else [])"
    "\<exists>sets. JitOptions (JobRequest j) (Sets st) = Inr (opts, sets)"
  using assms by (auto simp: begin_request_def enter_context_def create_def act_def inside_def continues_def rbind_eq_Inr_iff Let_def)

lemma finish_inside:
  assumes "inside c st (add_mset (TheGcInfo c) (add_mset (TheABIInfo c) leak)) st1"
  shows "\<exists>st'. finish_request c (r, st1) = Inr (r, st') \<and> grown st leak st' \<and> Trace st' = Trace st1 \<and> NextContext st' = NextContext st1"
proof -
  have "inside c st leak (delete (TheGcInfo c) (delete (TheABIInfo c) st1))"
    using assms by (intro inside_delete) (simp add: add_mset_commute)
  from leave_inside[OF this] show ?thesis by (auto simp: finish_request_def delete_def)
qed

lemma generate_inside:
  assumes "generate j c opts n u st1 = Inr (r, st2)" "inside c st made st1"
  shows "inside c st made st2"
  using assms inside_act by (auto simp: generate_def rbind_eq_Inr_iff Let_def)

lemma after_read_grown:
  assumes "after_read j c opts st1 = Inr (r, st')"
    and "inside c st (add_mset (TheTargetMachine c) (add_mset (TheGcInfo c) (add_mset (TheABIInfo c) leak))) st1"
  shows "\<exists>leak'. grown st leak' st' \<and> (\<not> FLG_IMPORT_ONLY (JobRequest j) \<longrightarrow> leak' = leak)"
proof (cases "FLG_IMPORT_ONLY (JobRequest j)")
  case True
  then show ?thesis using assms leave_inside[OF inside_act[OF assms(2)], of "[SetVerifiable]"]
    by (auto simp: after_read_def return_early_def rbind_eq_Inr_iff split: prod.splits)
next
  case False
  obtain n b where m: "getModuleForMethod j = (n, b)" by fastforce
  obtain has u where rd: "readMethod j b = Inr (has, u)" using assms(1) m by (auto simp: after_read_def rbind_eq_Inr_iff)
  obtain r2 st2 where g: "(if has then generate j c opts n u st1 else Inr ((CORJIT_INTERNALERROR, Some (0, 0)), st1)) = Inr (r2, st2)"
    and f: "finish_request c (r2, delete (TheTargetMachine c) st2) = Inr (r, st')"
    using assms(1) m rd False by (auto simp: after_read_def rbind_eq_Inr_iff)
  have "inside c st (add_mset (TheTargetMachine c) (add_mset (TheGcInfo c) (add_mset (TheABIInfo c) leak))) st2"
    using g generate_inside[OF _ assms(2)] assms(2) by (auto split: if_splits)
  from finish_inside[OF inside_delete[OF this], of r2] f show ?thesis by auto
qed

lemma compile_grown:
  "compileMethod k st = Inr (r, st') \<Longrightarrow> \<exists>leak. grown st leak st' \<and> (clean k \<longrightarrow> leak = {#})"
  "compile_all ks st = Inr st' \<Longrightarrow> \<exists>leak. grown st leak st' \<and> (list_all clean ks \<longrightarrow> leak = {#})"
proof (induction k st and ks st arbitrary: r st' and st' rule: compileMethod_compile_all.induct)
  case (1 j nested st)
  show ?case
  proof (cases "HasNullArgument j")
    case False
    let ?c = "NextContext st"
    obtain opts st1 where b: "begin_request j st = Inr (opts, st1)"
      using "1.prems" False by (auto simp: Let_def rbind_eq_Inr_iff)
    note in1 = begin_request_inside(1)[OF b]
    consider "\<not> (IsAltJit opts \<and> \<not> IsExcludeMethod opts)" | "IsAltJit opts \<and> \<not> IsExcludeMethod opts" "\<not> FindsTarget j"
      | "IsAltJit opts \<and> \<not> IsExcludeMethod opts" "FindsTarget j" by blast
    then show ?thesis
    proof cases
      case 1
      then show ?thesis using "1.prems" False b finish_inside[OF in1, of "(CORJIT_INTERNALERROR, Some (0, 0))"] by (auto simp: Let_def)
    next
      case 2
      then show ?thesis using "1.prems" False b leave_inside[OF in1] by (auto simp: Let_def return_early_def)
    next
      case 3
      let ?st2 = "create (TheTargetMachine ?c) st1"
      obtain st3 where n: "(if snd (getModuleForMethod j) then Inr ?st2 else compile_all nested ?st2) = Inr st3"
        and a: "after_read j ?c opts st3 = Inr (r, st')"
        using "1.prems" False b 3 by (auto simp: Let_def rbind_eq_Inr_iff)
      obtain leak where l: "grown ?st2 leak st3" "list_all clean nested \<longrightarrow> leak = {#}"
        using n "1.IH"[OF False refl b refl 3(1) _ refl] 3(2) by (auto simp: grown_def split: if_splits)
      have "inside ?c st (add_mset (TheTargetMachine ?c) (add_mset (TheGcInfo ?c) (add_mset (TheABIInfo ?c) leak))) st3"
        using inside_grown[OF inside_create[OF in1] l(1)] by simp
      from after_read_grown[OF a this] show ?thesis using l(2) 3(2) by auto
    qed
  qed (use "1.prems" in \<open>auto simp: grown_def\<close>)
next
  case (2 st)
  then show ?case by (auto simp: grown_def)
next
  case (3 k ks st)
  then obtain r1 st1 where "compileMethod k st = Inr (r1, st1)" "compile_all ks st1 = Inr st'" by (auto simp: rbind_eq_Inr_iff)
  moreover from this(1) obtain l1 where "grown st l1 st1" "clean k \<longrightarrow> l1 = {#}" using "3.IH"(1) by blast
  ultimately obtain l2 where "grown st (l1 + l2) st'" "list_all clean ks \<longrightarrow> l2 = {#}"
    using "3.IH"(2)[OF _ refl] by (fastforce simp: grown_def ac_simps intro: continues_trans)
  with \<open>clean k \<longrightarrow> l1 = {#}\<close> show ?case by (intro exI[of _ "l1 + l2"]) simp
qed

lemma actions_continues:
  assumes "continues st st'" "c < NextContext st"
  shows "actions c st' = actions c st"
proof -
  obtain t where t: "Trace st' = Trace st @ t" "\<forall>c \<in> fst ` set t. NextContext st \<le> c" using assms(1) by (auto simp: continues_def)
  then have "filter (\<lambda>(i, a). i = c) t = []" using assms(2) by (fastforce simp: filter_empty_conv)
  with t(1) show ?thesis by (simp add: actions_def)
qed

lemma actions_fresh: "trace_fresh st \<Longrightarrow> actions (NextContext st) st = []"
  by (fastforce simp: trace_fresh_def actions_def filter_empty_conv)

lemma actions_act [simp]: "actions c (act c as st) = actions c st @ as"
  by (simp add: actions_def act_def filter_map o_def)

lemma actions_create [simp]: "actions c (create r st) = actions c st" "NextContext (create r st) = NextContext st"
  by (simp_all add: actions_def create_def)

lemma actions_delete [simp]: "actions c (delete r st) = actions c st"
  by (simp add: actions_def delete_def)

lemma actions_leave: "leave_context c st = Inr st' \<Longrightarrow> actions i st' = actions i st"
  by (auto simp: leave_context_def actions_def rbind_eq_Inr_iff split: list.splits)

lemma actions_finish: "finish_request c (r, st) = Inr (r', st') \<Longrightarrow> r' = r \<and> actions i st' = actions i st"
  by (auto simp: finish_request_def rbind_eq_Inr_iff dest: actions_leave)

lemma JitOptions_precise: "JitOptions R st = Inr (opts, st') \<Longrightarrow> DoInsertStatepoints opts \<or> UseConservativeGC opts"
  by (auto simp: JitOptions_def rbind_eq_Inr_iff Let_def)

lemma begin_request_actions:
  assumes "begin_request j st = Inr (opts, st1)" "trace_fresh st"
  shows "actions (NextContext st) st1 = (if IsMSILDumpMethod opts then [DumpMSIL] else [])"
  using begin_request_inside(2)[OF assms(1)] actions_fresh[OF assms(2)] by (simp add: actions_def)

text \<open>What a request is told when it has been read.\<close>

definition has_method :: "Job \<Rightarrow> bool" where
  "has_method j \<longleftrightarrow> snd (getModuleForMethod j) \<or> (\<exists>u. Reading j = ReadsMethod u)"

lemma readMethod_cases:
  "readMethod j b = Inr (has, u) \<Longrightarrow> has = (b \<or> (\<exists>u. Reading j = ReadsMethod u)) \<and> (\<forall>u'. \<not> b \<longrightarrow> Reading j = ReadsMethod u' \<longrightarrow> u = u')"
  by (auto simp: readMethod_def rbind_eq_Inr_iff split: if_splits ReadOutcome.splits)

definition code_actions :: "Job \<Rightarrow> Options \<Rightarrow> bool \<Rightarrow> Action list" where
  "code_actions j opts u = (if IsLLVMDumpMethod opts then [DumpModule] else []) @ module_passes opts u
     @ [GenerateCode (codegen_level (JobRequest j) opts) (code_model (JobRequest j)), EmitGCInfo, RemoveModuleSet]"

lemma after_read_outcome:
  assumes "after_read j c opts st1 = Inr ((res, out), st')"
  shows "if FLG_IMPORT_ONLY (JobRequest j) then res = CORJIT_OK \<and> out = Some (0, 0) \<and> actions c st' = actions c st1 @ [SetVerifiable]
    else if has_method j
    then res = CORJIT_OK \<and> out = Some (HotCodeBlock j, ucast (HotCodeSize j + ReadOnlyDataSize j)) \<and>
      (\<exists>u. actions c st' = actions c st1 @ code_actions j opts u \<and>
         (\<forall>u'. \<not> snd (getModuleForMethod j) \<longrightarrow> Reading j = ReadsMethod u' \<longrightarrow> u = u'))
    else res = CORJIT_INTERNALERROR \<and> out = Some (0, 0) \<and> actions c st' = actions c st1"
proof -
  obtain n b where m: "getModuleForMethod j = (n, b)" by fastforce
  obtain has u where rd: "readMethod j b = Inr (has, u)" using assms(1) m by (auto simp: after_read_def rbind_eq_Inr_iff)
  have h: "has = has_method j" "\<forall>u'. \<not> b \<longrightarrow> Reading j = ReadsMethod u' \<longrightarrow> u = u'"
    using readMethod_cases[OF rd] m by (simp_all add: has_method_def)
  show ?thesis
  proof (cases "FLG_IMPORT_ONLY (JobRequest j)")
    case True
    then show ?thesis using assms m rd by (auto simp: after_read_def return_early_def rbind_eq_Inr_iff dest!: actions_leave[where i = c])
  next
    case False
    then obtain r2 st2 where g: "(if has then generate j c opts n u st1 else Inr ((CORJIT_INTERNALERROR, Some (0, 0)), st1)) = Inr (r2, st2)"
      and f: "finish_request c (r2, delete (TheTargetMachine c) st2) = Inr ((res, out), st')"
      using assms m rd by (auto simp: after_read_def rbind_eq_Inr_iff)
    have a: "r2 = (res, out)" "actions c st' = actions c st2" using actions_finish[OF f] by auto
    show ?thesis
    proof (cases "has_method j")
      case True
      then have "actions c st' = actions c st1 @ code_actions j opts u" "res = CORJIT_OK"
        "out = Some (HotCodeBlock j, ucast (HotCodeSize j + ReadOnlyDataSize j))"
        using g a h(1) by (auto simp: generate_def rbind_eq_Inr_iff Let_def code_actions_def)
      then show ?thesis using False True h(2) m by auto
    qed (use False g a h in auto)
  qed
qed

subsection \<open>Properties\<close>

text \<open>C30: requests nest without interference: whatever the runtime asks for while a method is read, at any depth, the
  stack of contexts is at the end what it was at the beginning, so an enclosing request finds its own context
  again; and where no request returns early every object that was created is deleted.\<close>

theorem compile_balanced:
  assumes "compileMethod k st = Inr (r, st')"
  shows "JitContexts st' = JitContexts st \<and> (clean k \<longrightarrow> Live st' = Live st)"
  using compile_grown(1)[OF assms] by (auto simp: grown_def)


text \<open>A request to import only returns before the end of the function: the target machine, the ABI information and
  the GC information that it created are not deleted.\<close>

theorem import_only_leaks:
  assumes "compileMethod (Compile j nested) st = Inr ((CORJIT_OK, out), st')" "FLG_IMPORT_ONLY (JobRequest j)"
    and "list_all clean nested"
  shows "Live st' = Live st + {#TheTargetMachine (NextContext st), TheGcInfo (NextContext st), TheABIInfo (NextContext st)#}"
proof -
  let ?c = "NextContext st"
  have "\<not> HasNullArgument j" using assms(1) by auto
  then obtain opts st1 where b: "begin_request j st = Inr (opts, st1)"
    using assms(1) by (auto simp: Let_def rbind_eq_Inr_iff)
  let ?st2 = "create (TheTargetMachine ?c) st1"
  have sel: "IsAltJit opts \<and> \<not> IsExcludeMethod opts" "FindsTarget j"
    using assms(1) b \<open>\<not> HasNullArgument j\<close>
    by (auto simp: Let_def return_early_def rbind_eq_Inr_iff dest: actions_finish split: if_splits)
  then obtain st3 where n: "(if snd (getModuleForMethod j) then Inr ?st2 else compile_all nested ?st2) = Inr st3"
    and ar: "after_read j ?c opts st3 = Inr ((CORJIT_OK, out), st')"
    using assms(1) b \<open>\<not> HasNullArgument j\<close> by (auto simp: Let_def rbind_eq_Inr_iff)
  have "grown ?st2 {#} st3" using n compile_grown(2)[of nested ?st2] assms(3) by (auto simp: grown_def split: if_splits)
  then have "inside ?c st {#TheTargetMachine ?c, TheGcInfo ?c, TheABIInfo ?c#} st3"
    using inside_grown[OF inside_create[OF begin_request_inside(1)[OF b]]] by fastforce
  from leave_inside[OF inside_act[OF this], of "[SetVerifiable]"] ar assms(2) show ?thesis
    by (auto simp: after_read_def return_early_def rbind_eq_Inr_iff grown_def split: prod.splits)
qed

subsection \<open>Witnesses\<close>

text \<open>A thread with initialised sets that select every method, a request with a nested one, and a request to import.\<close>

definition sample_set :: "MethodID list \<Rightarrow> MethodSet" where
  "sample_set l = MethodSet_new\<lparr>MethodIDList := Some l\<rparr>"

definition sample_state :: JitState where
  "sample_state = \<lparr>HasThreadState = True, JitContexts = [3], NextContext = 4,
     Sets = \<lparr>AltJitMethodSet = sample_set [\<lparr>ClassName = Some ''*'', MethodName = None, NumArgs = AnyArgs\<rparr>], AltJitNgenMethodSet = sample_set [],
       ExcludeMethodSet = sample_set [], BreakMethodSet = sample_set [], MSILMethodSet = sample_set [], LLVMMethodSet = sample_set [],
       CodeRangeMethodSet = sample_set []\<rparr>,
     Live = {#TheABIInfo 3#}, Trace = []\<rparr>"

definition sample_job :: "bool \<Rightarrow> Job" where
  "sample_job import_only = \<lparr>HasNullArgument = False,
     JobRequest = (sample_request ''Run'' ''P'')\<lparr>ConfigValue := [''INSERTSTATEPOINTS'' \<mapsto> ''1''], FLG_IMPORT_ONLY := import_only\<rparr>, BITCODE_PATH = None, parseIRFile = (\<lambda>_. None),
     FindsTarget = True, Reading = ReadsMethod False, ModuleVerifies = True, UninitialisedFlag = True, findSymbol = (\<lambda>_. 0x1000),
     HotCodeBlock = 0x1000, HotCodeSize = 64, ReadOnlyDataSize = 16\<rparr>"

lemma sample_options:
  "\<exists>opts. JitOptions (JobRequest (sample_job b)) (Sets sample_state) = Inr (opts, Sets sample_state) \<and> IsAltJit opts \<and> \<not> IsExcludeMethod opts
     \<and> \<not> IsMSILDumpMethod opts \<and> \<not> IsLLVMDumpMethod opts \<and> DoInsertStatepoints opts"
  by (simp add: JitOptions_def sample_job_def sample_request_def sample_state_def sample_set_def queryIsAltJit_def alt_jit_set_def queryIsExcludeMethod_def
      queryIsBreakMethod_def queryIsMSILDumpMethod_def queryIsLLVMDumpMethod_def queryIsCodeRangeMethod_def queryMethodSet_def isInitialized_def
      in_set_def contains_def queryDoInsertStatepoints_def queryNonNullNonEmpty_def Let_def MethodSet_new_def)

lemmas compile_eval = begin_request_def enter_context_def create_def act_def delete_def after_read_def readMethod_def getModuleForMethod_def generate_def
  finish_request_def leave_context_def return_early_def Let_def

lemma sample_compiles:
  assumes "Sets st = Sets sample_state" "nested = [] \<or> \<not> b \<and> nested = [Compile (sample_job True) []]"
  shows "\<exists>st'. compileMethod (Compile (sample_job b) nested) st = Inr ((CORJIT_OK, Some (if b then (0, 0) else (0x1000, 80))), st')"
proof -
  have j: "\<not> HasNullArgument (sample_job b)" "FindsTarget (sample_job b)" "BITCODE_PATH (sample_job b) = None" "Reading (sample_job b) = ReadsMethod False"
    "ModuleVerifies (sample_job b)" "findSymbol (sample_job b) n = HotCodeBlock (sample_job b)" "HotCodeBlock (sample_job b) = 0x1000"
    "HotCodeSize (sample_job b) = 64" "ReadOnlyDataSize (sample_job b) = 16" "FLG_IMPORT_ONLY (JobRequest (sample_job b)) = b" for b n
    by (simp_all add: sample_job_def)
  obtain opts where o: "JitOptions (JobRequest (sample_job False)) (Sets sample_state) = Inr (opts, Sets sample_state)" "IsAltJit opts" "\<not> IsExcludeMethod opts"
    using sample_options by blast
  obtain opts' where o': "JitOptions (JobRequest (sample_job True)) (Sets sample_state) = Inr (opts', Sets sample_state)" "IsAltJit opts'" "\<not> IsExcludeMethod opts'"
    using sample_options by blast
  show ?thesis using assms(2) by (cases b; elim disjE conjE) (simp_all add: compile_eval assms(1) j o o')
qed

lemma sample_fresh: "trace_fresh sample_state"
  by (simp add: trace_fresh_def sample_state_def)

theorem compile_balanced_witness:
  "\<exists>st'. compileMethod (Compile (sample_job False) []) sample_state = Inr ((CORJIT_OK, Some (0x1000, 80)), st')
     \<and> JitContexts st' = [3] \<and> Live st' = {#TheABIInfo 3#}"
proof -
  obtain st' where c: "compileMethod (Compile (sample_job False) []) sample_state = Inr ((CORJIT_OK, Some (0x1000, 80)), st')"
    using sample_compiles[OF refl, of "[]" False] by auto
  have "clean (Compile (sample_job False) [])" by (simp add: sample_job_def sample_request_def)
  with compile_balanced[OF c] c show ?thesis by (simp add: sample_state_def)
qed


theorem import_only_leaks_witness:
  "\<exists>st'. compileMethod (Compile (sample_job True) []) sample_state = Inr ((CORJIT_OK, Some (0, 0)), st')
     \<and> Live st' = {#TheABIInfo 3, TheTargetMachine 4, TheGcInfo 4, TheABIInfo 4#}"
proof -
  obtain st' where c: "compileMethod (Compile (sample_job True) []) sample_state = Inr ((CORJIT_OK, Some (0, 0)), st')"
    using sample_compiles[OF refl, of "[]" True] by auto
  have "FLG_IMPORT_ONLY (JobRequest (sample_job True))" by (simp add: sample_job_def)
  from import_only_leaks[OF c this] c show ?thesis by (simp add: sample_state_def ac_simps)
qed

end
