(* ===== verification/ClassFields.thy ===== *)
theory ClassFields
  imports Prelude
begin

section \<open>The fields of a class\<close>

text \<open>
  lib/Reader/readerir.cpp: the part of \<open>getClassTypeWorker\<close> that lays out the fields of a class as an LLVM struct, with
  \<open>addFieldsRecursively\<close>, \<open>createOverlapFields\<close> and \<open>addArrayFields\<close>, and the address of a field in
  \<open>simpleFieldAddress\<close>. The struct is packed: padding is explicit, so an element is at the sum of the sizes before it.
  A named struct is a number; where it is complete and part of another type its elements stand with it, and
  behind a pointer only its number. Offsets and sizes are naturals; those of the runtime are far below the 32
  bits of the source. The target is 64-bit, and the SIMD types, which are vectors, are left out.
\<close>

subsection \<open>Types\<close>

datatype CType = CInt nat | CFloat | CDouble
  | CPtr bool CType               \<comment> \<open>whether it is managed\<close>
  | CArray CType nat
  | CStruct nat "CType list"
  | CRef nat                      \<comment> \<open>a struct by its number only\<close>

fun byte_size :: "CType \<Rightarrow> nat" where
  "byte_size (CInt n) = n div 8"
| "byte_size CFloat = 4"
| "byte_size CDouble = 8"
| "byte_size (CPtr _ _) = 8"
| "byte_size (CArray t n) = n * byte_size t"
| "byte_size (CStruct _ ts) = sum_list (map byte_size ts)"
| "byte_size (CRef _) = 0"

definition total_size :: "CType list \<Rightarrow> nat" where
  "total_size ts = sum_list (map byte_size ts)"

text \<open>The offset of an element in the layout of a packed struct.\<close>

definition element_offset :: "CType list \<Rightarrow> nat \<Rightarrow> nat" where
  "element_offset ts i = total_size (take i ts)"

definition is_opaque :: "CType \<Rightarrow> bool" where
  "is_opaque t = (case t of CRef _ \<Rightarrow> True | _ \<Rightarrow> False)"

definition is_gc_pointer :: "CType \<Rightarrow> bool" where
  "is_gc_pointer t = (case t of CPtr m _ \<Rightarrow> m | _ \<Rightarrow> False)"

definition bytes :: "nat \<Rightarrow> CType" where
  "bytes n = CArray (CInt 8) n"

definition PointerByteSize :: nat where
  "PointerByteSize = 8"

subsection \<open>Overlapping fields\<close>

fun addFieldsRecursively :: "(nat \<times> CType) list \<Rightarrow> nat \<Rightarrow> CType \<Rightarrow> (nat \<times> CType) list"
and add_subtypes :: "(nat \<times> CType) list \<Rightarrow> nat \<Rightarrow> CType list \<Rightarrow> (nat \<times> CType) list" where
  "addFieldsRecursively Flds Offset (CStruct i ts) = add_subtypes Flds Offset ts"
| "addFieldsRecursively Flds Offset t = Flds @ [(Offset, t)]"
| "add_subtypes Flds Offset [] = Flds"
| "add_subtypes Flds Offset (t # ts) = add_subtypes (addFieldsRecursively Flds Offset t) (Offset + byte_size t) ts"

text \<open>The walk over the sorted fields: the offsets of the GC references and the end of the region.\<close>

fun overlap_walk :: "(nat \<times> CType) list \<Rightarrow> nat list \<Rightarrow> nat \<Rightarrow> (nat list \<times> nat) result" where
  "overlap_walk [] GcOffsets OverlapEndOffset = Inr (GcOffsets, OverlapEndOffset)"
| "overlap_walk ((Offset, t) # fs) GcOffsets OverlapEndOffset =
     (let e = max OverlapEndOffset (Offset + byte_size t) in
      if is_gc_pointer t
      then rbind (rassert ''expect aligned gc pointers'' (Offset mod PointerByteSize = 0)) (\<lambda>_.
           if GcOffsets = [] then overlap_walk fs [Offset] e
           else rbind (rassert ''expect offsets to be sorted'' (Offset \<ge> last GcOffsets)) (\<lambda>_.
             if Offset > last GcOffsets then overlap_walk fs (GcOffsets @ [Offset]) e else overlap_walk fs GcOffsets e))
      else overlap_walk fs GcOffsets e)"

fun gc_fields :: "CType \<Rightarrow> nat list \<Rightarrow> nat \<Rightarrow> CType list \<Rightarrow> (CType list \<times> nat) result" where
  "gc_fields ObjTy [] CurrentOffset Flds = Inr (Flds, CurrentOffset)"
| "gc_fields ObjTy (GcOffset # gs) CurrentOffset Flds =
     rbind (rassert ''expect offsets to be sorted'' (GcOffset \<ge> CurrentOffset)) (\<lambda>_.
     let NonGcPreambleSize = GcOffset - CurrentOffset;
         Flds = (if NonGcPreambleSize > 0 then Flds @ [bytes NonGcPreambleSize] else Flds) in
     gc_fields ObjTy gs (CurrentOffset + PointerByteSize) (Flds @ [ObjTy]))"

definition createOverlapFields :: "CType \<Rightarrow> (nat \<times> CType) list \<Rightarrow> CType list \<Rightarrow> CType list result" where
  "createOverlapFields ObjTy OverlapFields Flds =
     (let fs = sort_key fst OverlapFields in
      rbind (overlap_walk fs [] 0) (\<lambda>(GcOffsets, OverlapEndOffset).
      rbind (if fs = [] then Inl (OutOfBounds ''OverlapFields'' 0) else Inr (fst (hd fs))) (\<lambda>FirstOffset.
      rbind (gc_fields ObjTy GcOffsets FirstOffset Flds) (\<lambda>(Flds, CurrentOffset).
      rbind (rassert ''overlap size overflow'' (CurrentOffset \<le> OverlapEndOffset)) (\<lambda>_.
      Inr (if CurrentOffset < OverlapEndOffset then Flds @ [bytes (OverlapEndOffset - CurrentOffset)] else Flds))))))"

subsection \<open>The walk over the fields\<close>

type_synonym FieldHandle = nat

record Layout =
  Flds :: "CType list"
  ByteOffset :: nat
  OverlappingFields :: "(nat \<times> CType) list"
  FieldIndexMap :: "FieldHandle \<Rightarrow> nat option"

text \<open>What the walk knows of the class: its kind, its fields with their offsets in their order, how many fields it has
  of its own, and the type of an object.\<close>

record LayoutClass =
  IsUnion :: bool
  IsTypedByref :: bool
  IsString :: bool
  DerivedFields :: "(nat \<times> FieldHandle) list"
  NumDerivedFields :: nat
  ObjectTy :: CType

definition overlap_field :: "LayoutClass \<Rightarrow> nat \<Rightarrow> CType \<Rightarrow> Layout \<Rightarrow> Layout result" where
  "overlap_field C FieldOffset FieldTy L =
     rbind (rassert ''unexpected overlapping fields'' (IsUnion C)) (\<lambda>_.
     rbind (rassert ''No overlap expected in this type'' (\<not> IsTypedByref C \<and> \<not> IsString C)) (\<lambda>_.
     rbind (if OverlappingFields L = []
            then if Flds L = [] then Inl (OutOfBounds ''Fields'' 0)
                 else let PreviousFieldTy = last (Flds L) in
                   Inr (L\<lparr>Flds := butlast (Flds L),
                     OverlappingFields := addFieldsRecursively [] (ByteOffset L - byte_size PreviousFieldTy) PreviousFieldTy\<rparr>)
            else Inr L) (\<lambda>L.
     Inr (L\<lparr>OverlappingFields := addFieldsRecursively (OverlappingFields L) FieldOffset FieldTy,
        ByteOffset := max (ByteOffset L) (FieldOffset + byte_size FieldTy)\<rparr>))))"

definition end_overlap :: "LayoutClass \<Rightarrow> Layout \<Rightarrow> Layout result" where
  "end_overlap C L = (if OverlappingFields L \<noteq> []
     then rbind (createOverlapFields (ObjectTy C) (OverlappingFields L) (Flds L)) (\<lambda>fs. Inr (L\<lparr>Flds := fs, OverlappingFields := []\<rparr>))
     else Inr L)"

definition pad_to :: "nat \<Rightarrow> Layout \<Rightarrow> Layout" where
  "pad_to FieldOffset L = (if FieldOffset > ByteOffset L
     then L\<lparr>Flds := Flds L @ [bytes (FieldOffset - ByteOffset L)], ByteOffset := ByteOffset L + byte_size (bytes (FieldOffset - ByteOffset L))\<rparr>
     else L)"

text \<open>The first field of a typed reference is a managed pointer, the last one of a string an array.\<close>

definition field_type :: "LayoutClass \<Rightarrow> FieldHandle \<Rightarrow> CType \<Rightarrow> CType result" where
  "field_type C FieldHandle FieldTy =
     rbind (if IsTypedByref C then rbind (array_get ''DerivedFields'' (DerivedFields C) 0) (\<lambda>p.
              Inr (if FieldHandle = snd p then CPtr True FieldTy else FieldTy)) else Inr FieldTy) (\<lambda>FieldTy.
     if IsString C then rbind (array_get ''DerivedFields'' (DerivedFields C) (NumDerivedFields C - 1)) (\<lambda>p.
              Inr (if FieldHandle = snd p then CArray FieldTy 0 else FieldTy)) else Inr FieldTy)"

definition place_field :: "LayoutClass \<Rightarrow> nat \<Rightarrow> FieldHandle \<Rightarrow> CType \<Rightarrow> Layout \<Rightarrow> Layout result" where
  "place_field C FieldOffset FieldHandle FieldTy L =
     rbind (end_overlap C L) (\<lambda>L.
     let L = pad_to FieldOffset L in
     rbind (rassert ''FieldOffset == ByteOffset'' (FieldOffset = ByteOffset L)) (\<lambda>_.
     rbind (case FieldIndexMap L FieldHandle of
              Some i \<Rightarrow> rbind (rassert ''FieldMapEntry'' (i = length (Flds L))) (\<lambda>_. Inr L)
            | None \<Rightarrow> Inr (L\<lparr>FieldIndexMap := (FieldIndexMap L)(FieldHandle \<mapsto> length (Flds L))\<rparr>)) (\<lambda>L.
     rbind (field_type C FieldHandle FieldTy) (\<lambda>FieldTy.
     Inr (L\<lparr>Flds := Flds L @ [FieldTy], ByteOffset := ByteOffset L + byte_size FieldTy\<rparr>)))))"

definition add_field :: "LayoutClass \<Rightarrow> nat \<Rightarrow> FieldHandle \<Rightarrow> CType \<Rightarrow> Layout \<Rightarrow> Layout result" where
  "add_field C FieldOffset FieldHandle FieldTy L =
     rbind (rassert ''!isOpaque'' (\<not> is_opaque FieldTy)) (\<lambda>_.
     if FieldOffset < ByteOffset L then overlap_field C FieldOffset FieldTy L
     else place_field C FieldOffset FieldHandle FieldTy L)"

fun add_fields :: "LayoutClass \<Rightarrow> (nat \<times> FieldHandle \<times> CType) list \<Rightarrow> Layout \<Rightarrow> Layout result" where
  "add_fields C [] L = Inr L"
| "add_fields C ((off, h, t) # fs) L = rbind (add_field C off h t L) (add_fields C fs)"

text \<open>The padding at the end of a value class whose size the runtime gives.\<close>

definition end_padding :: "nat option \<Rightarrow> Layout \<Rightarrow> Layout result" where
  "end_padding EEClassSize L = (case EEClassSize of None \<Rightarrow> Inr L
     | Some s \<Rightarrow> rbind (rassert ''EEClassSize >= ByteOffset'' (s \<ge> ByteOffset L)) (\<lambda>_. Inr (pad_to s L)))"

text \<open>The implicit fields of an array; the elements start behind them.\<close>

definition addArrayFields :: "bool \<Rightarrow> nat \<Rightarrow> CType \<Rightarrow> CType list \<Rightarrow> CType list \<times> nat" where
  "addArrayFields IsVector ArrayRank ElementTy fs =
     (let header = [CInt 32, bytes 4] @ (if \<not> IsVector then [CArray (CInt 32) ArrayRank, CArray (CInt 32) ArrayRank] else []) in
      (fs @ header @ [CArray ElementTy 0], total_size header))"

definition sort_fields :: "(nat \<times> FieldHandle) list \<Rightarrow> (nat \<times> FieldHandle) list" where
  "sort_fields fs = sort_key fst (sort_key snd fs)"

definition layout_fields :: "LayoutClass \<Rightarrow> (FieldHandle \<Rightarrow> CType) \<Rightarrow> nat option \<Rightarrow> Layout \<Rightarrow> Layout result" where
  "layout_fields C FieldTypes EEClassSize L =
     rbind (add_fields C (map (\<lambda>(off, h). (off, h, FieldTypes h)) (DerivedFields C)) L) (\<lambda>L.
     rbind (end_overlap C L) (end_padding EEClassSize))"

subsection \<open>The address of a field\<close>

text \<open>An element of a struct, or a number of bytes behind the base, to which first a size is added that the runtime knows
  only later (a handle).\<close>

datatype FieldAddress = StructGEP CType nat | ByteAddress "nat option" nat

text \<open>In the ReadyToRun mode the offset of a field is relative to the end of the base class, whose size is the handle. Else the
  struct behind the base pointer is looked at, where it is one, with its elements.\<close>

definition simpleFieldAddress ::
  "bool \<Rightarrow> nat option \<Rightarrow> (nat \<Rightarrow> CType list option) \<Rightarrow> (FieldHandle \<Rightarrow> nat option) \<Rightarrow> CType \<Rightarrow> FieldHandle \<Rightarrow> nat \<Rightarrow> FieldAddress result"
where
  "simpleFieldAddress IsReadyToRun EmbHandle Bodies IndexMap BaseObjTy FieldHandle FieldOffset =
     (let elems = (case BaseObjTy of CStruct i ts \<Rightarrow> Some ts | CRef i \<Rightarrow> Some (case Bodies i of Some ts \<Rightarrow> ts | None \<Rightarrow> []) | _ \<Rightarrow> None);
          fallback = Inr (ByteAddress (if IsReadyToRun then EmbHandle else None) FieldOffset) in
      if IsReadyToRun then fallback
      else case (elems, IndexMap FieldHandle) of
        (Some ts, Some FieldIndex) \<Rightarrow>
          if length ts > FieldIndex
          then rbind (rassert ''getElementOffset'' (element_offset ts FieldIndex = FieldOffset)) (\<lambda>_. Inr (StructGEP BaseObjTy FieldIndex))
          else fallback
      | _ \<Rightarrow> fallback)"

subsection \<open>Overlap regions\<close>

lemma total_size_simps [simp]:
  "total_size [] = 0" "total_size (t # ts) = byte_size t + total_size ts" "total_size (xs @ ys) = total_size xs + total_size ys"
  by (simp_all add: total_size_def)

lemma byte_size_bytes [simp]: "byte_size (bytes n) = n"
  by (simp add: bytes_def)

lemma byte_size_gc: "is_gc_pointer t \<Longrightarrow> byte_size t = 8"
  by (auto simp: is_gc_pointer_def split: CType.splits)

text \<open>The offsets of the GC pointers among the elements of a packed struct that starts at an offset.\<close>

fun gc_positions :: "nat \<Rightarrow> CType list \<Rightarrow> nat list" where
  "gc_positions p [] = []"
| "gc_positions p (t # ts) = (if is_gc_pointer t then [p] else []) @ gc_positions (p + byte_size t) ts"

definition region_start :: "(nat \<times> CType) list \<Rightarrow> nat" where
  "region_start fs = Min (fst ` set fs)"

definition region_end :: "(nat \<times> CType) list \<Rightarrow> nat" where
  "region_end fs = Max ((\<lambda>(x, t). x + byte_size t) ` set fs)"

definition region_gc :: "(nat \<times> CType) list \<Rightarrow> nat list" where
  "region_gc fs = sorted_list_of_set (fst ` set (filter (is_gc_pointer \<circ> snd) fs))"

lemma gc_positions_append: "gc_positions p (xs @ ys) = gc_positions p xs @ gc_positions (p + total_size xs) ys"
  by (induction xs arbitrary: p) (auto simp: ac_simps)

lemma gc_positions_bytes [simp]: "is_gc_pointer (bytes n) = False"
  by (simp add: is_gc_pointer_def bytes_def)

text \<open>The walk collects the distinct offsets of the GC pointers, in order, and the end of the region.\<close>

lemma overlap_walk_eq:
  assumes "sorted (map fst fs)" "\<forall>f \<in> set fs. is_gc_pointer (snd f) \<longrightarrow> fst f mod 8 = 0"
    and "sorted_wrt (<) gs" "\<forall>g \<in> set gs. \<forall>f \<in> set fs. g \<le> fst f"
  shows "\<exists>gs'. overlap_walk fs gs e = Inr (gs', fold (\<lambda>(x, t) e. max e (x + byte_size t)) fs e) \<and> sorted_wrt (<) gs'
     \<and> set gs' = set gs \<union> fst ` set (filter (is_gc_pointer \<circ> snd) fs)"
  using assms
proof (induction fs arbitrary: gs e)
  case (Cons f fs)
  obtain x t where f: "f = (x, t)" by fastforce
  let ?e = "max e (x + byte_size t)"
  have tl: "sorted (map fst fs)" "\<forall>f \<in> set fs. is_gc_pointer (snd f) \<longrightarrow> fst f mod 8 = 0" "\<forall>f \<in> set fs. x \<le> fst f" "\<forall>g \<in> set gs. g \<le> x"
    "is_gc_pointer t \<longrightarrow> x mod 8 = 0"
    using Cons.prems f by auto
  have step: "\<exists>gs'. overlap_walk fs gs1 ?e = Inr (gs', fold (\<lambda>(x, t) e. max e (x + byte_size t)) fs ?e) \<and> sorted_wrt (<) gs'
     \<and> set gs' = set gs1 \<union> fst ` set (filter (is_gc_pointer \<circ> snd) fs)" if "sorted_wrt (<) gs1" "set gs1 \<subseteq> insert x (set gs)" for gs1
  proof (rule Cons.IH[OF tl(1,2) that(1)])
    show "\<forall>g \<in> set gs1. \<forall>f \<in> set fs. g \<le> fst f" using that(2) tl(3,4) by fastforce
  qed
  consider "\<not> is_gc_pointer t" | "is_gc_pointer t" "gs = []" | "is_gc_pointer t" "gs \<noteq> []" "x > last gs" | "is_gc_pointer t" "gs \<noteq> []" "x = last gs"
    using tl(4) by (metis last_in_set nat_less_le)
  then show ?case
  proof cases
    case 1
    then show ?thesis using step[of gs] Cons.prems(3) f by auto
  next
    case 2
    then show ?thesis using step[of "[x]"] tl(5) f by (auto simp: PointerByteSize_def)
  next
    case 3
    have "sorted_wrt (<) (butlast gs @ [last gs])" using Cons.prems(3) 3(2) by simp
    then have "\<forall>g \<in> set (butlast gs). g < last gs" by (simp only: sorted_wrt_append) simp
    moreover have "set gs = insert (last gs) (set (butlast gs))" using 3(2) by (metis append_butlast_last_id list.set(2) rotate1.simps(2) set_rotate1)
    ultimately have "\<forall>g \<in> set gs. g \<le> last gs" by auto
    then have "\<forall>g \<in> set gs. g < x" using 3(3) by fastforce
    moreover have r: "rassert ''expect offsets to be sorted'' (last gs \<le> x) = Inr ()" using 3(3) by simp
    ultimately show ?thesis using step[of "gs @ [x]"] Cons.prems(3) 3 tl(5) f by (auto simp: r PointerByteSize_def sorted_wrt_append)
  next
    case 4
    then have "insert x (set gs) = set gs" by auto
    then show ?thesis using step[of gs] Cons.prems(3) tl(5) f 4 by (auto simp: PointerByteSize_def)
  qed
qed auto

lemma fold_max_Max:
  fixes f :: "'a \<Rightarrow> nat"
  shows "fold (\<lambda>x e. max e (f x)) xs a = Max (insert a (f ` set xs))"
proof (induction xs arbitrary: a)
  case (Cons x xs)
  have "Max (insert (max a (f x)) S) = Max (insert a (insert (f x) S))" if "finite S" for S :: "nat set"
    using that by (cases "S = {}") (simp_all add: max.assoc)
  then show ?case using Cons by (simp add: insert_commute)
qed simp

text \<open>What a walk over the references adds where each lies at or behind the current offset: the gaps, which are not
  added to the current offset, are in the size.\<close>

definition gaps :: "nat \<Rightarrow> nat list \<Rightarrow> nat" where
  "gaps c gs = (\<Sum>k<length gs. gs ! k - (c + 8 * k))"

lemma gc_fields_eq:
  assumes "\<forall>k < length gs. c + 8 * k \<le> gs ! k" "byte_size ObjTy = 8"
  shows "\<exists>mid. (\<forall>fs. gc_fields ObjTy gs c fs = Inr (fs @ mid, c + 8 * length gs)) \<and> total_size mid = 8 * length gs + gaps c gs
     \<and> (gaps c gs = 0 \<longrightarrow> mid = replicate (length gs) ObjTy)"
  using assms(1)
proof (induction gs arbitrary: c)
  case (Cons g gs)
  have g: "c \<le> g" using Cons.prems[rule_format, of 0] by simp
  have "\<forall>k < length gs. c + 8 + 8 * k \<le> gs ! k" using Cons.prems[rule_format, of "Suc k" for k] by (simp add: algebra_simps)
  from Cons.IH[OF this] obtain mid where m: "(\<forall>fs. gc_fields ObjTy gs (c + 8) fs = Inr (fs @ mid, c + 8 + 8 * length gs))
     \<and> total_size mid = 8 * length gs + gaps (c + 8) gs \<and> (gaps (c + 8) gs = 0 \<longrightarrow> mid = replicate (length gs) ObjTy)"
    by (rule exE)
  have gap: "gaps c (g # gs) = (g - c) + gaps (c + 8) gs"
    unfolding gaps_def by (simp add: sum.lessThan_Suc_shift ac_simps del: sum.lessThan_Suc)
  show ?case
  proof (cases "g = c")
    case True
    then show ?thesis using m assms(2) by (intro exI[of _ "ObjTy # mid"]) (simp add: gap[unfolded True] PointerByteSize_def)
  next
    case False
    then show ?thesis using m g assms(2) by (intro exI[of _ "bytes (g - c) # ObjTy # mid"]) (simp add: gap PointerByteSize_def)
  qed
qed (simp add: gaps_def)

lemma aligned_spread:
  assumes "sorted_wrt (<) gs" "\<forall>g \<in> set gs. g mod 8 = 0" "k < length gs"
  shows "gs ! 0 + 8 * k \<le> gs ! k"
  using assms(3)
proof (induction k)
  case (Suc k)
  have "gs ! k < gs ! Suc k" using sorted_wrt_nth_less[OF assms(1), of k "Suc k"] Suc.prems by simp
  moreover have "gs ! k mod 8 = 0" "gs ! Suc k mod 8 = 0" using assms(2) Suc.prems by simp_all
  ultimately have "gs ! k + 8 \<le> gs ! Suc k" by presburger
  then show ?case using Suc by simp
qed simp

lemma gaps_zero_iff:
  assumes "\<forall>k < length gs. c + 8 * k \<le> gs ! k"
  shows "gaps c gs = 0 \<longleftrightarrow> gs = map (\<lambda>k. c + 8 * k) [0..<length gs]"
proof -
  have "gaps c gs = 0 \<longleftrightarrow> (\<forall>k < length gs. gs ! k - (c + 8 * k) = 0)" by (auto simp: gaps_def)
  also have "\<dots> \<longleftrightarrow> (\<forall>k < length gs. gs ! k = c + 8 * k)"
  proof -
    have "gs ! k - (c + 8 * k) = 0 \<longleftrightarrow> gs ! k = c + 8 * k" if "k < length gs" for k using assms[rule_format, OF that] by arith
    then show ?thesis by (simp only: cong: imp_cong)
  qed
  also have "\<dots> \<longleftrightarrow> gs = map (\<lambda>k. c + 8 * k) [0..<length gs]"
  proof
    assume e: "gs = map (\<lambda>k. c + 8 * k) [0..<length gs]"
    show "\<forall>k < length gs. gs ! k = c + 8 * k" using arg_cong[OF e, of "\<lambda>l. l ! k" for k] by simp
  qed (intro nth_equalityI, simp_all)
  finally show ?thesis .
qed

lemma gc_positions_replicate: "is_gc_pointer t \<Longrightarrow> byte_size t = 8 \<Longrightarrow> gc_positions p (replicate n t) = map (\<lambda>k. p + 8 * k) [0..<n]"
proof (induction n arbitrary: p)
  case (Suc n)
  have "[0..<Suc n] = 0 # map Suc [0..<n]" by (simp add: upt_conv_Cons map_Suc_upt del: upt_Suc)
  then show ?case using Suc by (simp add: o_def algebra_simps del: upt_Suc)
qed simp

text \<open>The references of a region lie behind its start, at least a pointer apart, and inside it.\<close>

lemma region_gc_bounds:
  assumes "\<forall>f \<in> set fs. is_gc_pointer (snd f) \<longrightarrow> fst f mod 8 = 0"
  shows "\<forall>k < length (region_gc fs). region_start fs + 8 * k \<le> region_gc fs ! k"
    "fs \<noteq> [] \<Longrightarrow> region_start fs + 8 * length (region_gc fs) \<le> region_end fs"
proof -
  let ?gs = "region_gc fs"
  have s: "sorted_wrt (<) ?gs" by (simp add: region_gc_def)
  have mem: "set ?gs = fst ` set (filter (is_gc_pointer \<circ> snd) fs)" by (simp add: region_gc_def)
  then have al: "\<forall>g \<in> set ?gs. g mod 8 = 0" using assms by auto
  have st: "\<forall>g \<in> set ?gs. region_start fs \<le> g" unfolding region_start_def by (subst mem) (auto intro!: Min_le)
  show a: "\<forall>k < length ?gs. region_start fs + 8 * k \<le> ?gs ! k"
  proof (intro allI impI)
    fix k assume k: "k < length ?gs"
    then have "?gs ! 0 \<in> set ?gs" by (intro nth_mem) linarith
    then show "region_start fs + 8 * k \<le> ?gs ! k" using st aligned_spread[OF s al k] by fastforce
  qed
  show "region_start fs + 8 * length ?gs \<le> region_end fs" if ne: "fs \<noteq> []"
  proof (cases "?gs = []")
    case True
    obtain f where "f \<in> set fs" using ne by (cases fs) auto
    then have "region_start fs \<le> fst f" "fst f + byte_size (snd f) \<le> region_end fs"
      by (auto simp: region_start_def region_end_def intro!: Min_le Max_ge)
    then show ?thesis using True by simp
  next
    case False
    then have "last ?gs \<in> set ?gs" "?gs ! (length ?gs - 1) = last ?gs" by (simp_all add: last_conv_nth)
    then obtain t where t: "(last ?gs, t) \<in> set fs" "is_gc_pointer t" unfolding mem by auto
    have "last ?gs + byte_size t \<le> region_end fs" unfolding region_end_def using t(1) by (intro Max_ge) force+
    then have "last ?gs + 8 \<le> region_end fs" using byte_size_gc[OF t(2)] by simp
    moreover have "region_start fs + 8 * (length ?gs - 1) \<le> last ?gs" using a False \<open>?gs ! (length ?gs - 1) = last ?gs\<close> by (metis diff_less length_greater_0_conv less_one)
    moreover have "8 * length ?gs = 8 * (length ?gs - 1) + 8" using False by (cases ?gs) auto
    ultimately show ?thesis by simp
  qed
qed

lemma createOverlapFields_eq:
  assumes "fs \<noteq> []" "\<forall>f \<in> set fs. is_gc_pointer (snd f) \<longrightarrow> fst f mod 8 = 0" "is_gc_pointer ObjTy"
  shows "\<exists>cs. (\<forall>F. createOverlapFields ObjTy fs F = Inr (F @ cs)) \<and> total_size cs = region_end fs - region_start fs + gaps (region_start fs) (region_gc fs)
     \<and> (gaps (region_start fs) (region_gc fs) = 0 \<longrightarrow> gc_positions (region_start fs) cs = region_gc fs)"
proof -
  let ?fs = "sort_key fst fs" and ?c = "region_start fs" and ?gs = "region_gc fs" and ?e = "region_end fs"
  obtain gs' where w: "overlap_walk ?fs [] 0 = Inr (gs', fold (\<lambda>(x, t) e. max e (x + byte_size t)) ?fs 0)" "sorted_wrt (<) gs'"
    "set gs' = fst ` set (filter (is_gc_pointer \<circ> snd) ?fs)"
    using overlap_walk_eq[of ?fs "[]" 0] assms(2) by auto
  have gs: "gs' = ?gs" using w(2,3) unfolding region_gc_def
    by (metis filter_set list.set_map sorted_list_of_set.idem_if_sorted_distinct set_sort strict_sorted_iff)
  have e: "fold (\<lambda>(x, t) e. max e (x + byte_size t)) ?fs 0 = ?e"
    using fold_max_Max[of "\<lambda>(x, t). x + byte_size t" ?fs 0] assms(1) by (simp add: region_end_def case_prod_unfold)
  have "?fs \<noteq> []" using assms(1) by (metis length_0_conv length_sort)
  then obtain f r where fr: "?fs = f # r" by (cases ?fs) auto
  have "sorted (map fst ?fs)" by simp
  then have "\<forall>x \<in> set fs. fst f \<le> fst x" unfolding set_sort[of fst fs, symmetric] fr by auto
  moreover have "f \<in> set fs" using set_sort[of fst fs] fr by (metis list.set_intros(1))
  ultimately have c: "fst (hd ?fs) = ?c" unfolding region_start_def fr by (intro Min_eqI[symmetric]) auto
  obtain mid where m: "(\<forall>F. gc_fields ObjTy ?gs ?c F = Inr (F @ mid, ?c + 8 * length ?gs)) \<and> total_size mid = 8 * length ?gs + gaps ?c ?gs
     \<and> (gaps ?c ?gs = 0 \<longrightarrow> mid = replicate (length ?gs) ObjTy)"
    using gc_fields_eq[OF region_gc_bounds(1)[OF assms(2)] byte_size_gc[OF assms(3)]] by (rule exE)
  let ?rest = "if ?c + 8 * length ?gs < ?e then [bytes (?e - (?c + 8 * length ?gs))] else []"
  have le: "?c + 8 * length ?gs \<le> ?e" using region_gc_bounds(2)[OF assms(2,1)] .
  have A: "createOverlapFields ObjTy fs F = Inr (F @ mid @ ?rest)" for F
    using w(1) \<open>?fs \<noteq> []\<close> m le by (simp add: createOverlapFields_def gs e c Let_def)
  have B: "total_size (mid @ ?rest) = ?e - ?c + gaps ?c ?gs" using m le by auto
  have G: "gc_positions ?c (mid @ ?rest) = ?gs" if "gaps ?c ?gs = 0"
  proof -
    have "gc_positions ?c mid = map (\<lambda>k. ?c + 8 * k) [0..<length ?gs]"
      using that m gc_positions_replicate[OF assms(3) byte_size_gc[OF assms(3)], of ?c] by simp
    moreover have "map (\<lambda>k. ?c + 8 * k) [0..<length ?gs] = ?gs" using iffD1[OF gaps_zero_iff[OF region_gc_bounds(1)[OF assms(2)]] that] by (rule sym)
    ultimately show ?thesis by (simp add: gc_positions_append)
  qed
  show ?thesis by (intro exI[of _ "mid @ ?rest"] conjI allI impI) (rule A B G; assumption?)+
qed

subsection \<open>The invariant of the walk\<close>

text \<open>The flat fields of a type lie inside it; where it has a size some start at its start and end at its end.\<close>

fun no_gc :: "CType \<Rightarrow> bool" where
  "no_gc (CPtr m _) = (\<not> m)"
| "no_gc (CStruct _ ts) = (\<forall>t \<in> set ts. no_gc t)"
| "no_gc _ = True"

definition covers :: "nat \<Rightarrow> nat \<Rightarrow> (nat \<times> CType) list \<Rightarrow> bool" where
  "covers a b fs \<longleftrightarrow> (\<forall>(x, t) \<in> set fs. a \<le> x \<and> x + byte_size t \<le> b \<and> \<not> is_gc_pointer t) \<and>
     (a < b \<longrightarrow> (\<exists>(x, t) \<in> set fs. x = a) \<and> (\<exists>(x, t) \<in> set fs. x + byte_size t = b))"

lemma covers_append: "covers a b xs \<Longrightarrow> covers b c ys \<Longrightarrow> a \<le> b \<Longrightarrow> b \<le> c \<Longrightarrow> covers a c (xs @ ys)"
proof -
  assume c: "covers a b xs" "covers b c ys" and le: "a \<le> b" "b \<le> c"
  have "\<forall>f \<in> set xs. a \<le> fst f \<and> fst f + byte_size (snd f) \<le> c \<and> \<not> is_gc_pointer (snd f)"
    using c(1) le(2) by (fastforce simp: covers_def case_prod_unfold)
  moreover have "\<forall>f \<in> set ys. a \<le> fst f \<and> fst f + byte_size (snd f) \<le> c \<and> \<not> is_gc_pointer (snd f)"
    using c(2) le(1) by (fastforce simp: covers_def case_prod_unfold)
  moreover have "(\<exists>f \<in> set (xs @ ys). fst f = a) \<and> (\<exists>f \<in> set (xs @ ys). fst f + byte_size (snd f) = c)" if "a < c"
  proof -
    have x: "a < b \<longrightarrow> (\<exists>f \<in> set xs. fst f = a) \<and> (\<exists>f \<in> set xs. fst f + byte_size (snd f) = b)"
      and y: "b < c \<longrightarrow> (\<exists>f \<in> set ys. fst f = b) \<and> (\<exists>f \<in> set ys. fst f + byte_size (snd f) = c)"
      using c by (simp_all add: covers_def case_prod_unfold)
    show ?thesis unfolding set_append using x y le that by (metis UnI1 UnI2 le_neq_implies_less)
  qed
  ultimately show ?thesis by (auto simp: covers_def case_prod_unfold)
qed

lemma covers_extend:
  assumes "covers a b xs" "covers x y ys" "a \<le> x" "x \<le> b" "a < b"
  shows "covers a (max b y) (xs @ ys)"
proof -
  have "\<forall>f \<in> set xs. a \<le> fst f \<and> fst f + byte_size (snd f) \<le> max b y \<and> \<not> is_gc_pointer (snd f)"
    using assms(1) by (fastforce simp: covers_def case_prod_unfold)
  moreover have "\<forall>f \<in> set ys. a \<le> fst f \<and> fst f + byte_size (snd f) \<le> max b y \<and> \<not> is_gc_pointer (snd f)"
    using assms(2,3) by (fastforce simp: covers_def case_prod_unfold)
  moreover have "\<exists>f \<in> set (xs @ ys). fst f = a" using assms(1,5) by (auto simp: covers_def case_prod_unfold)
  moreover have "\<exists>f \<in> set (xs @ ys). fst f + byte_size (snd f) = max b y"
  proof (cases "b < y")
    case True
    then have "x < y" using assms(4) by simp
    then have "\<exists>f \<in> set ys. fst f + byte_size (snd f) = y" using assms(2) by (auto simp: covers_def case_prod_unfold)
    then show ?thesis using True by auto
  next
    case False
    have "\<exists>f \<in> set xs. fst f + byte_size (snd f) = b" using assms(1,5) by (auto simp: covers_def case_prod_unfold)
    then show ?thesis using False by (auto simp: max_def)
  qed
  ultimately show ?thesis by (auto simp: covers_def case_prod_unfold)
qed

lemma flat_leaf: "no_gc t \<Longrightarrow> \<forall>i ts. t \<noteq> CStruct i ts \<Longrightarrow> covers off (off + byte_size t) [(off, t)]"
  by (cases t) (auto simp: covers_def is_gc_pointer_def)

lemma flat_fields:
  "no_gc t \<Longrightarrow> \<exists>ys. addFieldsRecursively fs off t = fs @ ys \<and> covers off (off + byte_size t) ys"
  "\<forall>t \<in> set ts. no_gc t \<Longrightarrow> \<exists>ys. add_subtypes fs off ts = fs @ ys \<and> covers off (off + total_size ts) ys"
proof (induction fs off t and fs off ts rule: addFieldsRecursively_add_subtypes.induct)
  case (1 fs off i ts)
  then show ?case by (auto simp: total_size_def)
next
  case (4 fs off t ts)
  then obtain ys zs where y: "addFieldsRecursively fs off t = fs @ ys" "covers off (off + byte_size t) ys"
    "add_subtypes (fs @ ys) (off + byte_size t) ts = (fs @ ys) @ zs" "covers (off + byte_size t) (off + byte_size t + total_size ts) zs" by fastforce
  have "covers off (off + byte_size t + total_size ts) (ys @ zs)" by (rule covers_append[OF y(2,4)]) simp_all
  then show ?case using y(1,3) by (auto simp: add.assoc)
qed (auto intro!: flat_leaf simp: covers_def is_gc_pointer_def)

definition layout_inv :: "LayoutClass \<Rightarrow> nat \<Rightarrow> Layout \<Rightarrow> bool" where
  "layout_inv C p L \<longleftrightarrow> p \<le> ByteOffset L \<and>
     (if OverlappingFields L = []
      then total_size (Flds L) = ByteOffset L \<and>
        (p < ByteOffset L \<longrightarrow> Flds L \<noteq> [] \<and> total_size (butlast (Flds L)) = p \<and> (IsUnion C \<longrightarrow> no_gc (last (Flds L))))
      else total_size (Flds L) \<le> p \<and> total_size (Flds L) < ByteOffset L \<and> covers (total_size (Flds L)) (ByteOffset L) (OverlappingFields L))"

text \<open>Where the fields placed so far are: the index that is kept for one is that of its offset.\<close>

definition index_inv :: "LayoutClass \<Rightarrow> (FieldHandle \<Rightarrow> nat) \<Rightarrow> (FieldHandle \<Rightarrow> CType) \<Rightarrow> FieldHandle set \<Rightarrow> Layout \<Rightarrow> bool" where
  "index_inv C offs fty hs L \<longleftrightarrow> (\<forall>h \<in> hs.
     (\<forall>i. FieldIndexMap L h = Some i \<longrightarrow> i \<le> length (Flds L) \<and> (OverlappingFields L = [] \<longrightarrow> i < length (Flds L)) \<and> element_offset (Flds L) i = offs h) \<and>
     (\<not> IsUnion C \<longrightarrow> (\<exists>i < length (Flds L). FieldIndexMap L h = Some i \<and> Flds L ! i = fty h)))"

lemma element_offset_append [simp]: "i \<le> length xs \<Longrightarrow> element_offset (xs @ ys) i = element_offset xs i"
  by (simp add: element_offset_def)

lemma element_offset_butlast: "i \<le> length xs - 1 \<Longrightarrow> element_offset (butlast xs) i = element_offset xs i"
  by (simp add: element_offset_def butlast_conv_take min_def)

lemma covers_region:
  assumes "covers a b fs" "a < b"
  shows "fs \<noteq> []" "region_start fs = a" "region_end fs = b" "region_gc fs = []"
proof -
  have c: "\<forall>(x, t) \<in> set fs. a \<le> x \<and> x + byte_size t \<le> b \<and> \<not> is_gc_pointer t" "\<exists>(x, t) \<in> set fs. x = a" "\<exists>(x, t) \<in> set fs. x + byte_size t = b"
    using assms by (simp_all add: covers_def)
  show "fs \<noteq> []" using c(2) by auto
  show "region_start fs = a" unfolding region_start_def using c(1,2) by (intro Min_eqI) force+
  show "region_end fs = b" unfolding region_end_def using c(1,3) by (intro Max_eqI) force+
  have "filter (is_gc_pointer \<circ> snd) fs = []" using c(1) by (auto simp: filter_empty_conv)
  then show "region_gc fs = []" by (simp add: region_gc_def)
qed

lemma end_overlap_ok:
  assumes "layout_inv C p L" "is_gc_pointer (ObjectTy C)"
  shows "\<exists>cs. end_overlap C L = Inr (L\<lparr>Flds := Flds L @ cs, OverlappingFields := []\<rparr>) \<and> total_size (Flds L @ cs) = ByteOffset L
     \<and> (OverlappingFields L \<noteq> [] \<longrightarrow> cs \<noteq> []) \<and> (OverlappingFields L = [] \<longrightarrow> cs = [])"
proof (cases "OverlappingFields L = []")
  case True
  then show ?thesis using assms by (intro exI[of _ "[]"]) (simp add: end_overlap_def layout_inv_def)
next
  case False
  let ?a = "total_size (Flds L)"
  have c: "?a < ByteOffset L" "covers ?a (ByteOffset L) (OverlappingFields L)" using assms(1) False by (simp_all add: layout_inv_def)
  note r = covers_region[OF c(2,1)]
  have "\<forall>f \<in> set (OverlappingFields L). is_gc_pointer (snd f) \<longrightarrow> fst f mod 8 = 0" using c(2) by (auto simp: covers_def)
  from createOverlapFields_eq[OF r(1) this assms(2)] obtain cs
    where cs: "(\<forall>F. createOverlapFields (ObjectTy C) (OverlappingFields L) F = Inr (F @ cs)) \<and> total_size cs = ByteOffset L - ?a"
    unfolding r by (auto simp: gaps_def)
  then have "cs \<noteq> []" using c(1) by auto
  then show ?thesis using cs False c(1) by (intro exI[of _ cs]) (simp add: end_overlap_def)
qed

lemma overlap_field_ok:
  assumes inv: "layout_inv C p L" and idx: "index_inv C offs fty hs L" and off: "p \<le> off" "off < ByteOffset L"
    and C: "IsUnion C" "\<not> IsTypedByref C" "\<not> IsString C" and t: "no_gc t"
  shows "\<exists>L'. overlap_field C off t L = Inr L' \<and> layout_inv C off L' \<and> index_inv C offs fty hs L' \<and> FieldIndexMap L' = FieldIndexMap L
     \<and> ByteOffset L' = max (ByteOffset L) (off + byte_size t)"
proof -
  let ?b = "max (ByteOffset L) (off + byte_size t)"
  obtain F ov where L1: "(if OverlappingFields L = [] then if Flds L = [] then Inl (OutOfBounds ''Fields'' 0)
        else let PreviousFieldTy = last (Flds L) in Inr (L\<lparr>Flds := butlast (Flds L),
            OverlappingFields := addFieldsRecursively [] (ByteOffset L - byte_size PreviousFieldTy) PreviousFieldTy\<rparr>) else Inr L)
      = Inr (L\<lparr>Flds := F, OverlappingFields := ov\<rparr>)"
    and cov: "total_size F \<le> p" "total_size F < ByteOffset L" "covers (total_size F) (ByteOffset L) ov"
    and F: "\<And>i. i \<le> length F \<Longrightarrow> element_offset F i = element_offset (Flds L) i"
      "\<And>h i. h \<in> hs \<Longrightarrow> FieldIndexMap L h = Some i \<Longrightarrow> i \<le> length F"
  proof (cases "OverlappingFields L = []")
    case False
    show ?thesis
    proof (rule that[of "OverlappingFields L" "Flds L"])
      show "\<And>h i. h \<in> hs \<Longrightarrow> FieldIndexMap L h = Some i \<Longrightarrow> i \<le> length (Flds L)" using idx by (auto simp: index_inv_def)
    qed (use False inv in \<open>simp_all add: layout_inv_def\<close>)
  next
    case True
    let ?P = "last (Flds L)"
    have p: "total_size (Flds L) = ByteOffset L" "Flds L \<noteq> []" "total_size (butlast (Flds L)) = p" "no_gc ?P" "p < ByteOffset L"
      using inv True off C(1) by (auto simp: layout_inv_def)
    have "total_size (butlast (Flds L) @ [?P]) = ByteOffset L" using p(1,2) by simp
    then have s: "p + byte_size ?P = ByteOffset L" using p(3) by simp
    obtain ys where ys: "addFieldsRecursively [] p ?P = ys" "covers p (ByteOffset L) ys" using flat_fields(1)[OF p(4), of "[]" p] s by auto
    show ?thesis
    proof (rule that[of ys "butlast (Flds L)"])
      show "\<And>h i. h \<in> hs \<Longrightarrow> FieldIndexMap L h = Some i \<Longrightarrow> i \<le> length (butlast (Flds L))" using idx True by (force simp: index_inv_def)
      show "\<And>i. i \<le> length (butlast (Flds L)) \<Longrightarrow> element_offset (butlast (Flds L)) i = element_offset (Flds L) i"
        by (simp add: element_offset_butlast)
      have "ByteOffset L - byte_size ?P = p" using s by simp
      then show "(if OverlappingFields L = [] then if Flds L = [] then Inl (OutOfBounds ''Fields'' 0)
        else let PreviousFieldTy = last (Flds L) in Inr (L\<lparr>Flds := butlast (Flds L),
            OverlappingFields := addFieldsRecursively [] (ByteOffset L - byte_size PreviousFieldTy) PreviousFieldTy\<rparr>) else Inr L)
      = Inr (L\<lparr>Flds := butlast (Flds L), OverlappingFields := ys\<rparr>)" using True p(2) ys(1) by (simp add: Let_def)
    qed (use p ys in simp_all)
  qed
  obtain zs where zs: "addFieldsRecursively ov off t = ov @ zs" "covers off (off + byte_size t) zs" using flat_fields(1)[OF t] by blast
  have c: "covers (total_size F) ?b (ov @ zs)" using covers_extend[OF cov(3) zs(2)] cov off by simp
  have ne: "ov @ zs \<noteq> []" using covers_region(1)[OF cov(3,2)] by simp
  let ?L = "L\<lparr>Flds := F, OverlappingFields := ov @ zs, ByteOffset := ?b\<rparr>"
  have "overlap_field C off t L = Inr ?L"
    unfolding overlap_field_def L1 using C zs(1) by simp
  moreover have "layout_inv C off ?L" using c ne cov off by (auto simp: layout_inv_def)
  moreover have "index_inv C offs fty hs ?L" using idx F ne C(1) by (auto simp: index_inv_def)
  ultimately show ?thesis by auto
qed

lemma place_field_ok:
  assumes inv: "layout_inv C p L" and idx: "index_inv C offs fty hs L" and off: "ByteOffset L \<le> off" "offs h = off"
    and C: "is_gc_pointer (ObjectTy C)" "field_type C h t = Inr (fty h)" "IsUnion C \<longrightarrow> no_gc (fty h)" and h: "h \<notin> hs" "FieldIndexMap L h = None"
  shows "\<exists>L'. place_field C off h t L = Inr L' \<and> layout_inv C off L' \<and> index_inv C offs fty (insert h hs) L'
     \<and> FieldIndexMap L' = (FieldIndexMap L)(h \<mapsto> length (Flds L') - 1) \<and> ByteOffset L' = off + byte_size (fty h)"
proof -
  obtain cs where cs: "end_overlap C L = Inr (L\<lparr>Flds := Flds L @ cs, OverlappingFields := []\<rparr>)" "total_size (Flds L @ cs) = ByteOffset L"
    "OverlappingFields L \<noteq> [] \<longrightarrow> cs \<noteq> []" using end_overlap_ok[OF inv C(1)] by blast
  let ?pad = "if off > ByteOffset L then [bytes (off - ByteOffset L)] else []"
  let ?F = "Flds L @ cs @ ?pad"
  have tot: "total_size ?F = off" using cs(2) off(1) by auto
  let ?L = "L\<lparr>Flds := ?F @ [fty h], OverlappingFields := [], ByteOffset := off + byte_size (fty h), FieldIndexMap := (FieldIndexMap L)(h \<mapsto> length ?F)\<rparr>"
  have "place_field C off h t L = Inr ?L"
    unfolding place_field_def cs(1) using off(1) h(2) C(2) by (auto simp: pad_to_def Let_def)
  moreover have "layout_inv C off ?L" using tot C(3) by (simp add: layout_inv_def butlast_append)
  moreover have "index_inv C offs fty (insert h hs) ?L"
    unfolding index_inv_def
  proof (intro ballI conjI)
    fix h' assume h': "h' \<in> insert h hs"
    have same: "element_offset (?F @ [fty h]) (length ?F) = off" using tot by (simp add: element_offset_def)
    show "\<forall>i. FieldIndexMap ?L h' = Some i \<longrightarrow> i \<le> length (Flds ?L) \<and> (OverlappingFields ?L = [] \<longrightarrow> i < length (Flds ?L)) \<and> element_offset (Flds ?L) i = offs h'"
    proof (cases "h' = h")
      case True
      then show ?thesis using same off(2) by simp
    next
      case False
      then show ?thesis using idx h' cs(3) by (force simp: index_inv_def)
    qed
    show "\<not> IsUnion C \<longrightarrow> (\<exists>i < length (Flds ?L). FieldIndexMap ?L h' = Some i \<and> Flds ?L ! i = fty h')"
      using idx h' by (cases "h' = h") (force simp: index_inv_def nth_append)+
  qed
  ultimately show ?thesis by (intro exI[of _ ?L]) simp
qed

lemma add_field_ok:
  assumes "layout_inv C p L" "index_inv C offs fty hs L" "p \<le> off" "offs h = off" "\<not> is_opaque t"
    and "is_gc_pointer (ObjectTy C)" "field_type C h t = Inr (fty h)" "h \<notin> hs" "FieldIndexMap L h = None"
    and "IsUnion C \<longrightarrow> no_gc t \<and> \<not> IsTypedByref C \<and> \<not> IsString C" "off < ByteOffset L \<longrightarrow> IsUnion C"
  shows "\<exists>L'. add_field C off h t L = Inr L' \<and> layout_inv C off L' \<and> index_inv C offs fty (insert h hs) L'
     \<and> (\<forall>h'. h' \<noteq> h \<longrightarrow> FieldIndexMap L' h' = FieldIndexMap L h') \<and> ByteOffset L' = max (ByteOffset L) (off + byte_size (fty h))"
proof (cases "off < ByteOffset L")
  case True
  then have C: "IsUnion C" "\<not> IsTypedByref C" "\<not> IsString C" "no_gc t" using assms by auto
  then have "fty h = t" using assms(7) by (simp add: field_type_def)
  from overlap_field_ok[OF assms(1-3) True C] obtain L' where L': "overlap_field C off t L = Inr L'" "layout_inv C off L'" "index_inv C offs fty hs L'"
    "FieldIndexMap L' = FieldIndexMap L" "ByteOffset L' = max (ByteOffset L) (off + byte_size t)" by blast
  then have "index_inv C offs fty (insert h hs) L'" using assms(9) C(1) by (simp add: index_inv_def)
  then show ?thesis using L' True assms(5) \<open>fty h = t\<close> by (simp add: add_field_def)
next
  case False
  have "IsUnion C \<longrightarrow> no_gc (fty h)" using assms(7,10) by (auto simp: field_type_def)
  from place_field_ok[OF assms(1,2) _ assms(4,6,7) this assms(8,9)] False show ?thesis
    using assms(5) by (auto simp: add_field_def)
qed

lemma add_fields_ok:
  assumes "layout_inv C p L" "index_inv C offs fty hs L" "sorted (p # map fst fs)" "distinct (map snd fs)" "is_gc_pointer (ObjectTy C)"
    and "\<forall>(off, h) \<in> set fs. offs h = off \<and> \<not> is_opaque (FT h) \<and> field_type C h (FT h) = Inr (fty h) \<and> h \<notin> hs \<and> FieldIndexMap L h = None"
    and "IsUnion C \<longrightarrow> (\<forall>(off, h) \<in> set fs. no_gc (FT h)) \<and> \<not> IsTypedByref C \<and> \<not> IsString C"
    and "\<not> IsUnion C \<longrightarrow> sorted_wrt (\<lambda>(a, h) (b, _). a + byte_size (fty h) \<le> b) fs \<and> (\<forall>f \<in> set fs. ByteOffset L \<le> fst f)"
  shows "\<exists>L' q. add_fields C (map (\<lambda>(off, h). (off, h, FT h)) fs) L = Inr L' \<and> layout_inv C q L' \<and> index_inv C offs fty (hs \<union> snd ` set fs) L'
     \<and> (\<forall>s. ByteOffset L \<le> s \<longrightarrow> (\<forall>(off, h) \<in> set fs. off + byte_size (fty h) \<le> s) \<longrightarrow> ByteOffset L' \<le> s)"
  using assms
proof (induction fs arbitrary: p L hs)
  case (Cons f fs)
  obtain off h where f: "f = (off, h)" by fastforce
  have a: "p \<le> off" "offs h = off" "\<not> is_opaque (FT h)" "field_type C h (FT h) = Inr (fty h)" "h \<notin> hs" "FieldIndexMap L h = None"
    using Cons.prems(3,6) f by auto
  have u: "IsUnion C \<longrightarrow> no_gc (FT h) \<and> \<not> IsTypedByref C \<and> \<not> IsString C" "off < ByteOffset L \<longrightarrow> IsUnion C"
    using Cons.prems(7,8) f by force+
  from add_field_ok[OF Cons.prems(1,2) a(1-3) Cons.prems(5) a(4-6) u] obtain L1
    where L1: "add_field C off h (FT h) L = Inr L1" "layout_inv C off L1" "index_inv C offs fty (insert h hs) L1"
      "\<forall>h'. h' \<noteq> h \<longrightarrow> FieldIndexMap L1 h' = FieldIndexMap L h'" "ByteOffset L1 = max (ByteOffset L) (off + byte_size (fty h))" by blast
  have "\<exists>L' q. add_fields C (map (\<lambda>(off, h). (off, h, FT h)) fs) L1 = Inr L' \<and> layout_inv C q L' \<and> index_inv C offs fty (insert h hs \<union> snd ` set fs) L'
     \<and> (\<forall>s. ByteOffset L1 \<le> s \<longrightarrow> (\<forall>(off, h) \<in> set fs. off + byte_size (fty h) \<le> s) \<longrightarrow> ByteOffset L' \<le> s)"
  proof (rule Cons.IH[OF L1(2,3)])
    have "h \<notin> snd ` set fs" using Cons.prems(4) f by (auto simp: image_iff)
    then show "\<forall>(off, h') \<in> set fs. offs h' = off \<and> \<not> is_opaque (FT h') \<and> field_type C h' (FT h') = Inr (fty h') \<and> h' \<notin> insert h hs \<and> FieldIndexMap L1 h' = None"
      using Cons.prems(6) L1(4) by (force simp: image_iff)
    show "\<not> IsUnion C \<longrightarrow> sorted_wrt (\<lambda>(a, h) (b, _). a + byte_size (fty h) \<le> b) fs \<and> (\<forall>f \<in> set fs. ByteOffset L1 \<le> fst f)"
      using Cons.prems(8) L1(5) f by (auto simp: case_prod_unfold)
  qed (use Cons.prems f in auto)
  then obtain L' q where r: "add_fields C (map (\<lambda>(off, h). (off, h, FT h)) fs) L1 = Inr L'" "layout_inv C q L'"
    "index_inv C offs fty (insert h hs \<union> snd ` set fs) L'"
    "\<forall>s. ByteOffset L1 \<le> s \<longrightarrow> (\<forall>(off, h) \<in> set fs. off + byte_size (fty h) \<le> s) \<longrightarrow> ByteOffset L' \<le> s" by blast
  then show ?case using L1(1,5) f by (intro exI[of _ L'] exI[of _ q]) simp
qed auto

subsection \<open>Properties\<close>

text \<open>How the runtime describes the fields that a class adds to those it starts with: sorted by offset, behind the
  fields of the parent, apart from each other unless the class is a union, and inside the size of a value class. The
  type of a field is as \<open>getType\<close> gives it, \<open>placed_type\<close> the one it is placed with. The fields of a union hold no GC
  references.\<close>

definition placed_type :: "LayoutClass \<Rightarrow> (FieldHandle \<Rightarrow> CType) \<Rightarrow> FieldHandle \<Rightarrow> CType" where
  "placed_type C FieldTypes h = (case field_type C h (FieldTypes h) of Inr t \<Rightarrow> t | Inl _ \<Rightarrow> FieldTypes h)"

definition fields_described :: "LayoutClass \<Rightarrow> (FieldHandle \<Rightarrow> CType) \<Rightarrow> nat option \<Rightarrow> Layout \<Rightarrow> bool" where
  "fields_described C FieldTypes EEClassSize L \<longleftrightarrow>
     OverlappingFields L = [] \<and> total_size (Flds L) = ByteOffset L \<and> is_gc_pointer (ObjectTy C) \<and>
     sorted (ByteOffset L # map fst (DerivedFields C)) \<and> distinct (map snd (DerivedFields C)) \<and> NumDerivedFields C = length (DerivedFields C) \<and>
     (\<forall>(off, h) \<in> set (DerivedFields C). \<not> is_opaque (FieldTypes h) \<and> FieldIndexMap L h = None) \<and>
     (if IsUnion C then (\<forall>(off, h) \<in> set (DerivedFields C). no_gc (FieldTypes h)) \<and> \<not> IsTypedByref C \<and> \<not> IsString C
      else sorted_wrt (\<lambda>(a, h) (b, _). a + byte_size (placed_type C FieldTypes h) \<le> b) (DerivedFields C)) \<and>
     (case EEClassSize of None \<Rightarrow> True
      | Some s \<Rightarrow> ByteOffset L \<le> s \<and> (\<forall>(off, h) \<in> set (DerivedFields C). off + byte_size (placed_type C FieldTypes h) \<le> s))"

text \<open>The distance of an address from the base.\<close>

definition address_offset :: "CType list \<Rightarrow> FieldAddress \<Rightarrow> nat" where
  "address_offset ts a = (case a of StructGEP _ i \<Rightarrow> element_offset ts i | ByteAddress _ n \<Rightarrow> n)"

lemma field_type_ok:
  assumes "(off, h) \<in> set (DerivedFields C)" "NumDerivedFields C = length (DerivedFields C)"
  shows "field_type C h t = Inr (placed_type C (\<lambda>_. t) h)"
proof -
  have "0 < length (DerivedFields C)" "length (DerivedFields C) - 1 < length (DerivedFields C)" using assms(1) by (cases "DerivedFields C"; simp)+
  then show ?thesis using assms(2) by (auto simp: placed_type_def field_type_def)
qed

lemma end_padding_ok:
  assumes "total_size (Flds L) = ByteOffset L" "\<forall>s. EEClassSize = Some s \<longrightarrow> ByteOffset L \<le> s"
  shows "\<exists>L' pad. end_padding EEClassSize L = Inr L' \<and> Flds L' = Flds L @ pad \<and> FieldIndexMap L' = FieldIndexMap L
    \<and> total_size (Flds L') = ByteOffset L' \<and> (\<forall>s. EEClassSize = Some s \<longrightarrow> ByteOffset L' = s)"
proof (cases EEClassSize)
  case None
  then show ?thesis using assms(1) by (simp add: end_padding_def)
next
  case (Some s)
  show ?thesis
    by (rule exI[of _ "pad_to s L"], rule exI[of _ "if ByteOffset L < s then [bytes (s - ByteOffset L)] else []"])
      (use Some assms in \<open>auto simp: end_padding_def pad_to_def\<close>)
qed

lemma address_ok:
  assumes "\<forall>i. Index h = Some i \<longrightarrow> i < length ts \<and> element_offset ts i = off" "\<not> u \<longrightarrow> (\<exists>i < length ts. Index h = Some i \<and> ts ! i = t)"
  shows "\<exists>a. simpleFieldAddress False None B Index (CStruct n ts) h off = Inr a \<and> address_offset ts a = off \<and>
        (\<not> u \<longrightarrow> (\<exists>i < length ts. a = StructGEP (CStruct n ts) i \<and> ts ! i = t))"
proof (cases "Index h")
  case None
  then show ?thesis using assms(2) by (auto simp: simpleFieldAddress_def address_offset_def)
next
  case (Some k)
  then have "simpleFieldAddress False None B Index (CStruct n ts) h off = Inr (StructGEP (CStruct n ts) k)" using assms(1) by (simp add: simpleFieldAddress_def)
  then show ?thesis using assms Some by (auto simp: address_offset_def)
qed

text \<open>C13: the LLVM struct of a class has the layout of the runtime: no assertion fails, the struct is as large as the value class, and
  the address that the reader computes for each field, be it a struct access or a byte offset, is the runtime's
  offset from the base; outside unions it is an access to an element that has the type of the field.\<close>

theorem class_layout_correct:
  assumes "fields_described C FieldTypes EEClassSize L"
  shows "\<exists>L'. layout_fields C FieldTypes EEClassSize L = Inr L' \<and> total_size (Flds L') = ByteOffset L' \<and>
    (\<forall>s. EEClassSize = Some s \<longrightarrow> ByteOffset L' = s) \<and>
    (\<forall>(off, h) \<in> set (DerivedFields C).
      \<exists>a. simpleFieldAddress False None B (FieldIndexMap L') (CStruct n (Flds L')) h off = Inr a \<and> address_offset (Flds L') a = off \<and>
        (\<not> IsUnion C \<longrightarrow> (\<exists>i < length (Flds L'). a = StructGEP (CStruct n (Flds L')) i \<and> Flds L' ! i = placed_type C FieldTypes h)))"
proof -
  let ?fs = "DerivedFields C" and ?fty = "placed_type C FieldTypes"
  define offs where "offs h = the (map_of (map (\<lambda>(x, h). (h, x)) ?fs) h)" for h
  note d = assms[unfolded fields_described_def]
  have ft: "field_type C h (FieldTypes h) = Inr (?fty h)" if "(off, h) \<in> set ?fs" for off h
    using field_type_ok[OF that, of "FieldTypes h"] d by (simp add: placed_type_def)
  have offs: "offs h = off" if "(off, h) \<in> set ?fs" for off h
  proof -
    have "distinct (map fst (map (\<lambda>(x, h). (h, x)) ?fs))" using d by (simp add: o_def case_prod_unfold)
    moreover have "(h, off) \<in> set (map (\<lambda>(x, h). (h, x)) ?fs)" using that by force
    ultimately have "map_of (map (\<lambda>(x, h). (h, x)) ?fs) h = Some off" by (rule map_of_is_SomeI)
    then show ?thesis by (simp add: offs_def)
  qed
  have inv: "layout_inv C (ByteOffset L) L" "index_inv C offs ?fty {} L" using d by (simp_all add: layout_inv_def index_inv_def)
  have pre: "\<forall>(off, h) \<in> set ?fs. offs h = off \<and> \<not> is_opaque (FieldTypes h) \<and> field_type C h (FieldTypes h) = Inr (?fty h) \<and> h \<notin> {} \<and> FieldIndexMap L h = None"
    using d offs ft by (auto simp: case_prod_unfold)
  have un: "IsUnion C \<longrightarrow> (\<forall>(off, h) \<in> set ?fs. no_gc (FieldTypes h)) \<and> \<not> IsTypedByref C \<and> \<not> IsString C"
    "\<not> IsUnion C \<longrightarrow> sorted_wrt (\<lambda>(a, h) (b, _). a + byte_size (?fty h) \<le> b) ?fs \<and> (\<forall>f \<in> set ?fs. ByteOffset L \<le> fst f)"
    using d by auto
  obtain L1 q where L1: "add_fields C (map (\<lambda>(off, h). (off, h, FieldTypes h)) ?fs) L = Inr L1" "layout_inv C q L1" "index_inv C offs ?fty ({} \<union> snd ` set ?fs) L1"
    "\<forall>s. ByteOffset L \<le> s \<longrightarrow> (\<forall>(off, h) \<in> set ?fs. off + byte_size (?fty h) \<le> s) \<longrightarrow> ByteOffset L1 \<le> s"
    using add_fields_ok[OF inv _ _ _ pre un] d by blast
  obtain cs where cs: "end_overlap C L1 = Inr (L1\<lparr>Flds := Flds L1 @ cs, OverlappingFields := []\<rparr>)" "total_size (Flds L1 @ cs) = ByteOffset L1"
    "OverlappingFields L1 \<noteq> [] \<longrightarrow> cs \<noteq> []" using end_overlap_ok[OF L1(2)] d by blast
  let ?L2 = "L1\<lparr>Flds := Flds L1 @ cs, OverlappingFields := []\<rparr>"
  have "total_size (Flds ?L2) = ByteOffset ?L2" "\<forall>s. EEClassSize = Some s \<longrightarrow> ByteOffset ?L2 \<le> s" using cs(2) d L1(4) by auto
  from end_padding_ok[OF this] obtain L' pad where L': "end_padding EEClassSize ?L2 = Inr L'" "Flds L' = (Flds L1 @ cs) @ pad" "FieldIndexMap L' = FieldIndexMap L1"
    "total_size (Flds L') = ByteOffset L'" "\<forall>s. EEClassSize = Some s \<longrightarrow> ByteOffset L' = s" by auto
  have "\<exists>a. simpleFieldAddress False None B (FieldIndexMap L') (CStruct n (Flds L')) h off = Inr a \<and> address_offset (Flds L') a = off \<and>
        (\<not> IsUnion C \<longrightarrow> (\<exists>i < length (Flds L'). a = StructGEP (CStruct n (Flds L')) i \<and> Flds L' ! i = ?fty h))" if m: "(off, h) \<in> set ?fs" for off h
  proof (rule address_ok)
    have h: "h \<in> {} \<union> snd ` set ?fs" using m by force
    have i: "\<forall>i. FieldIndexMap L1 h = Some i \<longrightarrow> i \<le> length (Flds L1) \<and> (OverlappingFields L1 = [] \<longrightarrow> i < length (Flds L1)) \<and> element_offset (Flds L1) i = off"
      "\<not> IsUnion C \<longrightarrow> (\<exists>i < length (Flds L1). FieldIndexMap L1 h = Some i \<and> Flds L1 ! i = ?fty h)"
      using L1(3) h offs[OF m] unfolding index_inv_def by blast+
    have "k < length (Flds L1 @ cs)" if "FieldIndexMap L1 h = Some k" for k
      using i(1)[rule_format, OF that] cs(3) by (cases "OverlappingFields L1 = []"; cases cs; simp)
    then show "\<forall>i. FieldIndexMap L' h = Some i \<longrightarrow> i < length (Flds L') \<and> element_offset (Flds L') i = off" using i(1) by (auto simp: L'(2,3))
    show "\<not> IsUnion C \<longrightarrow> (\<exists>i < length (Flds L'). FieldIndexMap L' h = Some i \<and> Flds L' ! i = ?fty h)" using i(2) by (auto simp: L'(2,3) nth_append)
  qed
  then show ?thesis using L1(1) cs(1) L' by (intro exI[of _ L']) (auto simp: layout_fields_def)
qed


subsection \<open>Witnesses\<close>

text \<open>A value class of two integers around a padded reference, and a union of an integer with a reference behind it.\<close>

definition sample_layout :: Layout where
  "sample_layout = \<lparr>Flds = [], ByteOffset = 0, OverlappingFields = [], FieldIndexMap = (\<lambda>_. None)\<rparr>"

definition sample_layout_class :: LayoutClass where
  "sample_layout_class = \<lparr>IsUnion = False, IsTypedByref = False, IsString = False, DerivedFields = [(0, 7), (8, 5), (16, 6)], NumDerivedFields = 3,
     ObjectTy = CPtr True (CRef 0)\<rparr>"

definition sample_field_type :: "FieldHandle \<Rightarrow> CType" where
  "sample_field_type h = (if h = 5 then CPtr True (CRef 0) else CInt 32)"

theorem class_layout_correct_witness:
  "\<exists>L' a. layout_fields sample_layout_class sample_field_type (Some 24) sample_layout = Inr L' \<and> ByteOffset L' = 24
     \<and> simpleFieldAddress False None (\<lambda>_. None) (FieldIndexMap L') (CStruct 1 (Flds L')) 6 16 = Inr a \<and> address_offset (Flds L') a = 16"
proof -
  have "fields_described sample_layout_class sample_field_type (Some 24) sample_layout"
    by (simp add: fields_described_def sample_layout_class_def sample_layout_def sample_field_type_def placed_type_def field_type_def is_gc_pointer_def is_opaque_def)
  from class_layout_correct[OF this, of "\<lambda>_. None" 1] show ?thesis by (fastforce simp: sample_layout_class_def)
qed


end
