(* ===== verification/ArrayAccess.thy ===== *)
theory ArrayAccess
  imports GenArithCorrect ClassFields
begin

section \<open>Access to arrays\<close>

text \<open>
  lib/Reader/readerir.cpp: the addresses of the elements of arrays (\<open>genArrayElemAddress\<close>, and \<open>mdArrayRefAddr\<close> for
  arrays of several dimensions), their lengths, and when an access to such an array is expanded. The code is a
  sequence of loads, each of which defines an operand, and of checks, with a value behind them; the address that a GEP computes
  is the sum of the offset of the field and the scaled index, which is extended with its sign. The static constant
  \<open>UseExplicitNullChecks\<close> is true.
\<close>

subsection \<open>Code with loads\<close>

datatype Stmt = SLoad nat IR VType | SCheck Check

text \<open>A value of a managed pointer type, with the type behind the pointer.\<close>

type_synonym ArrayNode = "IR \<times> CType"

definition const32 :: "nat \<Rightarrow> IR" where
  "const32 n = IRConst (VInt 32) (int n)"

text \<open>The elements of the struct that a type is; a cast that fails is an assertion of LLVM.\<close>

definition cast_StructType :: "CType \<Rightarrow> CType list result" where
  "cast_StructType t = (case t of CStruct _ ts \<Rightarrow> Inr ts | _ \<Rightarrow> Inl (AssertFailed ''cast<StructType>''))"

definition CreateStructGEP :: "CType list \<Rightarrow> IR \<Rightarrow> nat \<Rightarrow> IR result" where
  "CreateStructGEP ts Array f = rbind (array_get ''getElementType'' ts f) (\<lambda>_. Inr (IRGep Array (IRConst (VInt 64) (int (element_offset ts f)))))"

definition CreateInBoundsGEP :: "CType list \<Rightarrow> IR \<Rightarrow> nat \<Rightarrow> IR \<Rightarrow> IR result" where
  "CreateInBoundsGEP ts Array f Index =
     rbind (array_get ''getElementType'' ts f) (\<lambda>t.
     case t of
       CArray elem _ \<Rightarrow> Inr (IRGep Array (IRBin IRAdd (IRConst (VInt 64) (int (element_offset ts f)))
           (IRBin IRMul (CreateIntCast Index (VInt 64) True) (IRConst (VInt 64) (int (byte_size elem))))))
     | _ \<Rightarrow> Inl (AssertFailed ''cast<SequentialType>''))"

definition null_check :: "IR \<Rightarrow> Stmt list \<times> IR" where
  "null_check a = (map SCheck (fst (genNullCheck a)), snd (genNullCheck a))"

subsection \<open>Types of arrays\<close>

definition isArrayType :: "CType \<Rightarrow> CType option \<Rightarrow> bool" where
  "isArrayType t ElementTy =
     (case t of
        CStruct _ ts \<Rightarrow>
          length ts = 4 \<and> (case ts ! 3 of CArray elem n \<Rightarrow> n = 0 \<and> (case ElementTy of None \<Rightarrow> True | Some e \<Rightarrow> e = elem) | _ \<Rightarrow> False)
      | _ \<Rightarrow> False)"

definition createArrayOfElementType :: "CType \<Rightarrow> CType" where
  "createArrayOfElementType ElementTy = CStruct 0 (fst (addArrayFields True 1 ElementTy [CPtr False (CArray (CInt 64) 0)]))"

text \<open>The type of the object class is an argument.\<close>

definition ensureIsArray :: "CType \<Rightarrow> ArrayNode \<Rightarrow> CType option \<Rightarrow> ArrayNode" where
  "ensureIsArray BuiltinObjectTy Array ElementTy =
     (if \<not> isArrayType (snd Array) ElementTy
      then (IRPointerCast (fst Array) (ir_type (fst Array)), createArrayOfElementType (case ElementTy of None \<Rightarrow> BuiltinObjectTy | Some e \<Rightarrow> e))
      else Array)"

subsection \<open>Lengths\<close>

definition loadLen :: "CType \<Rightarrow> nat \<Rightarrow> ArrayNode \<Rightarrow> bool \<Rightarrow> (Stmt list \<times> IR) result" where
  "loadLen BuiltinObjectTy n Array ArrayMayBeNull =
     (let Array = ensureIsArray BuiltinObjectTy Array None;
          (cs, a) = (if ArrayMayBeNull then null_check (fst Array) else ([], fst Array)) in
      rbind (cast_StructType (snd Array)) (\<lambda>ts.
      rbind (CreateStructGEP ts a 1) (\<lambda>LengthFieldAddress.
      rbind (convertToStackType (IROperand n (VInt 32)) CORINFO_TYPE_NATIVEUINT) (\<lambda>Result.
      Inr (cs @ [SLoad n LengthFieldAddress (VInt 32)], Result)))))"

definition mdArrayGetDimensionLength :: "nat \<Rightarrow> CType list \<Rightarrow> IR \<Rightarrow> IR \<Rightarrow> (Stmt list \<times> IR) result" where
  "mdArrayGetDimensionLength n ts Array Dimension =
     rbind (CreateInBoundsGEP ts Array 3 Dimension) (\<lambda>DimensionLengthAddress.
     Inr ([SLoad n DimensionLengthAddress (VInt 32)], IROperand n (VInt 32)))"

text \<open>\<open>None\<close> for an opaque instance of System.Array, for which the helper is called.\<close>

definition arrayGetDimLength :: "CType \<Rightarrow> nat \<Rightarrow> IR \<Rightarrow> ArrayNode \<Rightarrow> (Stmt list \<times> IR) option result" where
  "arrayGetDimLength BuiltinObjectTy n Dimension Array =
     rbind (cast_StructType (snd Array)) (\<lambda>ts.
     if length ts = 1 then Inr None
     else if length ts = 4
     then rbind (genBoundsCheck (const32 1) Dimension) (\<lambda>cs.
          rbind (loadLen BuiltinObjectTy n Array True) (\<lambda>(ss, l). Inr (Some (map SCheck cs @ ss, l))))
     else if length ts = 6
     then let (ns, a) = null_check (fst Array) in
          (case ts ! 3 of
             CArray _ ArrayRank \<Rightarrow>
               rbind (genBoundsCheck (const32 ArrayRank) Dimension) (\<lambda>cs.
               rbind (mdArrayGetDimensionLength n ts a Dimension) (\<lambda>(ss, l). Inr (Some (ns @ map SCheck cs @ ss, l))))
           | _ \<Rightarrow> Inl (AssertFailed ''cast<ArrayType>''))
     else Inl (AssertFailed ''Bad array type!''))"

subsection \<open>Addresses of elements\<close>

definition genArrayElemAddress :: "CType \<Rightarrow> nat \<Rightarrow> ArrayNode \<Rightarrow> IR \<Rightarrow> CType \<Rightarrow> (Stmt list \<times> IR) result" where
  "genArrayElemAddress BuiltinObjectTy n Array Index ElementTy =
     (let Array = ensureIsArray BuiltinObjectTy Array (Some ElementTy) in
      rbind (loadLen BuiltinObjectTy n Array True) (\<lambda>(ss, ArrayLength).
      rbind (genBoundsCheck ArrayLength Index) (\<lambda>cs.
      rbind (cast_StructType (snd Array)) (\<lambda>ts.
      rbind (array_get ''getElementType'' ts (length ts - 1)) (\<lambda>ArrayTy.
      rbind (rassert ''getArrayElementType() == ElementTy'' (case ArrayTy of CArray e _ \<Rightarrow> e = ElementTy | _ \<Rightarrow> False)) (\<lambda>_.
      rbind (CreateInBoundsGEP ts (fst Array) (length ts - 1) Index) (\<lambda>Address.
      Inr (ss @ map SCheck cs, Address))))))))"

text \<open>
  The loop over the dimensions \<open>I, I + 1, \<dots>\<close>; \<open>n\<close> numbers the loads. \<open>ElementOffset\<close> is null before the first one.
\<close>

fun md_loop :: "CType list \<Rightarrow> IR \<Rightarrow> nat \<Rightarrow> nat \<Rightarrow> IR option \<Rightarrow> IR list \<Rightarrow> (Stmt list \<times> IR option) result" where
  "md_loop ts Array I n ElementOffset [] = Inr ([], ElementOffset)"
| "md_loop ts Array I n ElementOffset (x # xs) =
     rbind (convertFromStackType x CORINFO_TYPE_INT (VInt 32)) (\<lambda>Index0.
     rbind (CreateInBoundsGEP ts Array (length ts - 2) (const32 I)) (\<lambda>LowerBoundAddress.
     let Index = IRBin IRSub Index0 (IROperand n (VInt 32)) in
     rbind (mdArrayGetDimensionLength (Suc n) ts Array (const32 I)) (\<lambda>(ld, DimensionLength).
     rbind (genBoundsCheck DimensionLength Index) (\<lambda>cs.
     rbind (case ElementOffset of
          None \<Rightarrow> rbind (rassert ''ElementOffset'' (I = 0)) (\<lambda>_. Inr Index)
        | Some e \<Rightarrow> Inr (IRBin IRAdd (IRBin IRMul e DimensionLength) Index)) (\<lambda>ElementOffset'.
     rbind (md_loop ts Array (Suc I) (Suc (Suc n)) (Some ElementOffset') xs) (\<lambda>(ss, e).
     Inr (SLoad n LowerBoundAddress (VInt 32) # ld @ map SCheck cs @ ss, e)))))))"

definition ArrayIntrinMaxRank :: nat where
  "ArrayIntrinMaxRank = 3"

text \<open>The operand stack is a list with its top first; the type of the array is that behind its pointer.\<close>

definition mdArrayRefAddr :: "nat \<Rightarrow> nat \<Rightarrow> CType \<Rightarrow> CType \<Rightarrow> IR list \<Rightarrow> ((Stmt list \<times> IR) \<times> IR list) result" where
  "mdArrayRefAddr n Rank ElemType ArrayTy Stack =
     rbind (rassert ''Indices'' (Rank \<le> ArrayIntrinMaxRank)) (\<lambda>_.
     rbind (rassert ''pop'' (Rank < length Stack)) (\<lambda>_.
     let Indices = rev (take Rank Stack); (ns, Array) = null_check (Stack ! Rank) in
     rbind (rassert ''!ElemType->isStructTy()'' (case ElemType of CStruct _ _ \<Rightarrow> False | CRef _ \<Rightarrow> False | _ \<Rightarrow> True)) (\<lambda>_.
     rbind (cast_StructType ArrayTy) (\<lambda>ts.
     rbind (md_loop ts Array 0 n None Indices) (\<lambda>(ss, ElementOffset).
     case ElementOffset of
       None \<Rightarrow> Inl (AssertFailed ''null index'')
     | Some e \<Rightarrow>
         rbind (CreateInBoundsGEP ts Array (length ts - 1) e) (\<lambda>ElementAddress.
         Inr ((ns @ ss, ElementAddress), drop (Suc Rank) Stack)))))))"

subsection \<open>Intrinsics of arrays of several dimensions\<close>

text \<open>A signature: the number of arguments, their types and classes, and those of the result.\<close>

record ArraySig =
  sigNumArgs :: u32
  sigArgs :: "(CorInfoType \<times> nat option) list"
  sigRetType :: CorInfoType
  sigRetTypeClass :: "nat option"

text \<open>What the engine and \<open>getType\<close> answer.\<close>

record ArrayEE =
  eeChildType :: "nat option \<Rightarrow> CorInfoType \<times> nat option"
  eeIsFinal :: "nat option \<Rightarrow> bool"
  eeTypedByRef :: nat
  eeGetType :: "CorInfoType \<Rightarrow> nat option \<Rightarrow> CType"

text \<open>The arguments for the dimensions are skipped; each is an \<open>int32\<close>.\<close>

fun skip_dimensions :: "nat \<Rightarrow> (CorInfoType \<times> nat option) list \<Rightarrow> (CorInfoType \<times> nat option) list result" where
  "skip_dimensions 0 args = Inr args"
| "skip_dimensions (Suc R) [] = Inl (AssertFailed ''getArgNext'')"
| "skip_dimensions (Suc R) (arg # args) =
     rbind (rassert ''expected MDArray indicies to be int32s'' (fst arg = CORINFO_TYPE_INT)) (\<lambda>_. skip_dimensions R args)"

definition element_type_of :: "ArrayEE \<Rightarrow> ArraySig \<Rightarrow> bool \<Rightarrow> u32 \<Rightarrow> (CorInfoType \<times> nat option) result" where
  "element_type_of E Sig IsStore Rank =
     (if IsStore
      then rbind (skip_dimensions (unat Rank) (sigArgs Sig)) (\<lambda>ArgList.
           rbind (array_get ''getArgType'' ArgList 0) (\<lambda>(CorType, ArgType).
           rbind (rassert ''CorType != CORINFO_TYPE_VAR'' (CorType \<noteq> CORINFO_TYPE_VAR)) (\<lambda>_.
           Inr (CorType, if CorType = CORINFO_TYPE_CLASS \<or> CorType = CORINFO_TYPE_VALUECLASS then ArgType
                         else if CorType = CORINFO_TYPE_REFANY then Some (eeTypedByRef E) else None))))
      else Inr (sigRetType Sig, sigRetTypeClass Sig))"

definition canExpandMDArrayRef :: "ArrayEE \<Rightarrow> ArraySig \<Rightarrow> bool \<Rightarrow> bool \<Rightarrow> (u32 \<times> CorInfoType \<times> CType) option result" where
  "canExpandMDArrayRef E Sig IsStore IsLoadAddr =
     (let Rank = (if IsStore then sigNumArgs Sig - 1 else sigNumArgs Sig) in
      if Rank > of_nat ArrayIntrinMaxRank \<or> Rank \<le> 1 then Inr None
      else rbind (element_type_of E Sig IsStore Rank) (\<lambda>(CorType, Class).
      if CorType = CORINFO_TYPE_VALUECLASS then Inr None
      else let (GCCorType, GCClass) = (if CorType = CORINFO_TYPE_BYREF then eeChildType E Class else (CorType, Class)) in
        if (IsStore \<or> IsLoadAddr) \<and> (GCCorType = CORINFO_TYPE_STRING \<or> GCCorType = CORINFO_TYPE_CLASS) \<and> \<not> eeIsFinal E GCClass
        then Inr None
        else Inr (Some (Rank, CorType, eeGetType E CorType Class))))"

text \<open>The type of a value of an element; what a pointer points to does not matter.\<close>

fun vtype_of :: "CType \<Rightarrow> VType" where
  "vtype_of (CInt n) = VInt n"
| "vtype_of CFloat = VFloat"
| "vtype_of CDouble = VDouble"
| "vtype_of (CPtr m _) = VPtr (VInt 8) (if m then 1 else 0)"
| "vtype_of _ = VVoid"

text \<open>\<open>None\<close> where the access is not expanded. The load of the element takes the next number behind those of the dimensions.\<close>

definition arrayGet :: "ArrayEE \<Rightarrow> nat \<Rightarrow> ArraySig \<Rightarrow> CType \<Rightarrow> IR list \<Rightarrow> ((Stmt list \<times> IR) \<times> IR list) option result" where
  "arrayGet E n Sig ArrayTy Stack =
     rbind (canExpandMDArrayRef E Sig False False) (\<lambda>r.
     case r of None \<Rightarrow> Inr None
     | Some (Rank, ElemCorType, ElementTy) \<Rightarrow>
         rbind (mdArrayRefAddr n (unat Rank) ElementTy ArrayTy Stack) (\<lambda>((ss, ElementAddress), S).
         let l = n + 2 * unat Rank in
         rbind (convertToStackType (IROperand l (vtype_of ElementTy)) ElemCorType) (\<lambda>v.
         Inr (Some ((ss @ [SLoad l ElementAddress (vtype_of ElementTy)], v), S)))))"

text \<open>How a value is stored: with a write barrier, or not.\<close>

datatype ArrayStore = WriteBarrier IR IR | PlainStore IR IR

definition arraySet :: "ArrayEE \<Rightarrow> nat \<Rightarrow> ArraySig \<Rightarrow> CType \<Rightarrow> IR list \<Rightarrow> ((Stmt list \<times> ArrayStore) \<times> IR list) option result" where
  "arraySet E n Sig ArrayTy Stack =
     rbind (canExpandMDArrayRef E Sig True False) (\<lambda>r.
     case r of None \<Rightarrow> Inr None
     | Some (Rank, ElemCorType, ElementTy) \<Rightarrow>
         rbind (rassert ''pop'' (Stack \<noteq> [])) (\<lambda>_.
         rbind (convertFromStackType (hd Stack) ElemCorType (vtype_of ElementTy)) (\<lambda>Value.
         rbind (mdArrayRefAddr n (unat Rank) ElementTy ArrayTy (tl Stack)) (\<lambda>((ss, ElementAddress), S).
         Inr (Some ((ss, if is_gc_pointer ElementTy then WriteBarrier ElementAddress Value else PlainStore ElementAddress Value), S))))))"

definition arrayAddress :: "ArrayEE \<Rightarrow> nat \<Rightarrow> ArraySig \<Rightarrow> CType \<Rightarrow> IR list \<Rightarrow> ((Stmt list \<times> IR) \<times> IR list) option result" where
  "arrayAddress E n Sig ArrayTy Stack =
     rbind (canExpandMDArrayRef E Sig False True) (\<lambda>r.
     case r of None \<Rightarrow> Inr None
     | Some (Rank, _, ElementTy) \<Rightarrow> rbind (mdArrayRefAddr n (unat Rank) ElementTy ArrayTy Stack) (\<lambda>r. Inr (Some r)))"

subsection \<open>Meaning\<close>

text \<open>A memory gives the value of a number of bits at an address, and nothing where there is none.\<close>

type_synonym Memory = "int \<Rightarrow> nat \<Rightarrow> int option"

fun run_stmts :: "Memory \<Rightarrow> (nat \<Rightarrow> int) \<Rightarrow> Stmt list \<Rightarrow> ((nat \<Rightarrow> int) \<Rightarrow> outcome) \<Rightarrow> outcome" where
  "run_stmts M env [] k = k env"
| "run_stmts M env (SLoad n a t # ss) k =
     (case Option.bind (eval env a) (\<lambda>p. M p (width t)) of None \<Rightarrow> Undefined | Some v \<Rightarrow> run_stmts M (env(n := v)) ss k)"
| "run_stmts M env (SCheck c # ss) k =
     (case eval env (fst c) of None \<Rightarrow> Undefined | Some v \<Rightarrow> if v = 0 then run_stmts M env ss k else Throws (snd c))"

definition run_code :: "Memory \<Rightarrow> (nat \<Rightarrow> int) \<Rightarrow> Stmt list \<times> IR \<Rightarrow> outcome" where
  "run_code M env c = run_stmts M env (fst c) (\<lambda>env. case eval env (snd c) of None \<Rightarrow> Undefined | Some v \<Rightarrow> Returns v)"

fun ir_operands :: "IR \<Rightarrow> nat set" where
  "ir_operands (IROperand n _) = {n}"
| "ir_operands (IRConst _ _) = {}"
| "ir_operands (IRBin _ a b) = ir_operands a \<union> ir_operands b"
| "ir_operands (IRExtract0 _ a b) = ir_operands a \<union> ir_operands b"
| "ir_operands (IRExtract1 _ a b) = ir_operands a \<union> ir_operands b"
| "ir_operands (IRCmp _ a b) = ir_operands a \<union> ir_operands b"
| "ir_operands (IRIntCast a _ _) = ir_operands a"
| "ir_operands (IRPtrToInt a _) = ir_operands a"
| "ir_operands (IRIntToPtr a _) = ir_operands a"
| "ir_operands (IRPointerCast a _) = ir_operands a"
| "ir_operands (IRFPCast a _) = ir_operands a"
| "ir_operands (IRFPToInt a _ _) = ir_operands a"
| "ir_operands (IRIntToFP a _ _) = ir_operands a"
| "ir_operands (IRNeg a) = ir_operands a"
| "ir_operands (IRFNeg a) = ir_operands a"
| "ir_operands (IRNot a) = ir_operands a"
| "ir_operands (IRGep a b) = ir_operands a \<union> ir_operands b"
| "ir_operands (IRCall _ as _) = \<Union> (ir_operands ` set as)"

subsection \<open>Arrays of the runtime\<close>

text \<open>
  The layout that the comment in \<open>mdArrayRefAddr\<close> describes: the method table, the total length and padding, the
  lengths of the dimensions, their lower bounds and the elements. Lengths are not negative, the bounds of a dimension are
  32-bit numbers, and there are fewer than \<open>2 ^ 31\<close> elements.
\<close>

definition md_array :: "Memory \<Rightarrow> int \<Rightarrow> nat \<Rightarrow> int list \<Rightarrow> int list \<Rightarrow> bool" where
  "md_array M A sz lens lows \<longleftrightarrow> length lows = length lens \<and> prod_list lens < 2 ^ 31 \<and> sz < 2 ^ 31 \<and> length lens < 2 ^ 31 \<and>
     A + 16 + 8 * int (length lens) + prod_list lens * int sz < 2 ^ 64 \<and>
     (\<forall>k < length lens. 0 \<le> lens ! k \<and> lens ! k < 2 ^ 31 \<and> - (2 ^ 31) \<le> lows ! k \<and> lows ! k + lens ! k \<le> 2 ^ 31 \<and>
       M (A + 16 + 4 * int k) 32 = Some (lens ! k) \<and>
       M (A + 16 + 4 * int (length lens) + 4 * int k) 32 = Some (take_bit 32 (lows ! k)))"

definition vector :: "Memory \<Rightarrow> int \<Rightarrow> nat \<Rightarrow> int \<Rightarrow> bool" where
  "vector M A sz l \<longleftrightarrow> 0 \<le> l \<and> l < 2 ^ 31 \<and> sz < 2 ^ 31 \<and> M (A + 8) 32 = Some l \<and> A + 16 + l * int sz < 2 ^ 64"

text \<open>The number of an element: the last index runs fastest.\<close>

fun row_major :: "int \<Rightarrow> (int \<times> int) list \<Rightarrow> int" where
  "row_major acc [] = acc"
| "row_major acc ((i, l) # r) = row_major (acc * l + i) r"

subsection \<open>Lemmas\<close>

lemma eval_frame: "(\<forall>m \<in> ir_operands a. env m = env' m) \<Longrightarrow> eval env a = eval env' a"
  by (induction a) auto

lemma eval_below: "ir_operands a \<subseteq> {..<n} \<Longrightarrow> \<forall>m < n. env' m = env m \<Longrightarrow> eval env' a = eval env a"
  by (rule eval_frame) auto

lemma has_value_below: "has_value env a w x \<Longrightarrow> ir_operands a \<subseteq> {..<n} \<Longrightarrow> \<forall>m < n. env' m = env m \<Longrightarrow> has_value env' a w x"
  using eval_below[of a n env' env] by (simp add: has_value_def)

lemma run_stmts_append: "run_stmts M env (ss @ ts) k = run_stmts M env ss (\<lambda>env. run_stmts M env ts k)"
proof (induction ss arbitrary: env)
  case (Cons s ss)
  then show ?case by (cases s) (auto split: option.splits simp del: fun_upd_apply)
qed simp

lemma md_offsets:
  assumes "byte_size vt = 8"
  shows "fst (addArrayFields False r e [vt]) = [vt, CInt 32, bytes 4, CArray (CInt 32) r, CArray (CInt 32) r, CArray e 0]"
    "element_offset [vt, CInt 32, bytes 4, CArray (CInt 32) r, CArray (CInt 32) r, CArray e 0] 3 = 16"
    "element_offset [vt, CInt 32, bytes 4, CArray (CInt 32) r, CArray (CInt 32) r, CArray e 0] 4 = 16 + 4 * r"
    "element_offset [vt, CInt 32, bytes 4, CArray (CInt 32) r, CArray (CInt 32) r, CArray e 0] 5 = 16 + 8 * r"
  using assms by (simp_all add: addArrayFields_def element_offset_def total_size_def bytes_def)

lemma const32_value: "n < 2 ^ 31 \<Longrightarrow> has_value env (const32 n) 32 (int n)"
  by (simp add: const32_def has_value_def in_unsigned_def take_bit_int_eq_self)

lemma signed_small: "0 \<le> x \<Longrightarrow> x < 2 ^ (w - 1) \<Longrightarrow> 0 < w \<Longrightarrow> as_signed w x = x"
  by (rule signed_self) (simp add: in_signed_def order_trans[of _ 0])

lemma gep_value:
  assumes "f < length ts" "ts ! f = CArray elem m" "eval env a = Some A" "has_value env i w x" "w = 32 \<or> w = 64" "x < 2 ^ 31"
    "0 \<le> A" "byte_size elem < 2 ^ 31" "A + int (element_offset ts f) + x * int (byte_size elem) < 2 ^ 64" "element_offset ts f < 2 ^ 62"
  shows "\<exists>p. CreateInBoundsGEP ts a f i = Inr p \<and> eval env p = Some (A + int (element_offset ts f) + x * int (byte_size elem))
    \<and> ir_operands p = ir_operands a \<union> ir_operands i"
proof -
  let ?i = "CreateIntCast i (VInt 64) True" and ?s = "int (byte_size elem)" and ?f = "int (element_offset ts f)"
  have x: "0 \<le> x" using assms(4) by (rule has_valueD(3))
  have i: "eval env ?i = Some x" "ir_operands ?i = ir_operands i"
    using assms(4,5,6) x has_valueD(1,2,5)[OF assms(4)] signed_small[of x w]
    by (auto simp: CreateIntCast_def cast_sem_def take_bit_int_eq_self)
  have t: "ir_type ?i = VInt 64" using has_valueD(1)[OF assms(4)] by (simp add: CreateIntCast_def)
  have "x * ?s \<le> 2 ^ 31 * 2 ^ 31" using assms(6,8) x by (intro mult_mono) auto
  then have sm: "0 \<le> x * ?s" "x * ?s \<le> 2 ^ 62" using x by simp_all
  have f: "take_bit 64 ?f = ?f" "take_bit 64 ?s = ?s" "take_bit 64 (x * ?s) = x * ?s" "take_bit 64 (?f + x * ?s) = ?f + x * ?s"
    using assms(8,10) sm by (auto simp: take_bit_int_eq_self)
  have s: "as_signed 64 (?f + x * ?s) = ?f + x * ?s" using assms(10) sm by (intro signed_small) auto
  have g: "take_bit TargetPointerSizeInBits (A + (?f + x * ?s)) = A + ?f + x * ?s"
    using assms(7,9) sm by (simp add: TargetPointerSizeInBits_def take_bit_int_eq_self algebra_simps)
  show ?thesis using assms(1,2,3) i t f s g by (simp add: CreateInBoundsGEP_def)
qed

lemma bounds_check_value:
  assumes "has_value env len wl l" "has_value env i wi x" "wi \<le> wl" "ir_operands len \<subseteq> S" "ir_operands i \<subseteq> S"
  shows "\<exists>c. genBoundsCheck len i = Inr [(c, ''CORINFO_HELP_RNGCHKFAIL'')] \<and> eval env c = Some (of_bool (l \<le> x)) \<and> ir_operands c \<subseteq> S"
proof -
  let ?c = "CreateIntCast i (VInt wl) False"
  have "(2 :: int) ^ wi \<le> 2 ^ wl" using assms(3) by (intro power_increasing) auto
  then have "x < 2 ^ wl" using has_valueD(4)[OF assms(2)] by linarith
  then have "eval env ?c = Some x" "ir_type ?c = VInt wl" "ir_operands ?c = ir_operands i"
    using assms(2) has_valueD(1,2,3)[OF assms(2)] by (auto simp: CreateIntCast_def cast_sem_def take_bit_int_eq_self)
  then show ?thesis using assms by (auto simp: genBoundsCheck_def genConditionalThrow_def has_valueD(1,2))
qed

text \<open>The check of the difference is the check of both bounds.\<close>

lemma index_in_range:
  assumes "in_unsigned 32 v" "0 \<le> l" "l < 2 ^ 31" "- (2 ^ 31) \<le> b" "b + l \<le> 2 ^ 31"
  shows "take_bit 32 (v - take_bit 32 b) < l \<longleftrightarrow> b \<le> as_signed 32 v \<and> as_signed 32 v < b + l"
    "b \<le> as_signed 32 v \<Longrightarrow> as_signed 32 v < b + l \<Longrightarrow> take_bit 32 (v - take_bit 32 b) = as_signed 32 v - b"
proof -
  let ?s = "as_signed 32 v"
  have s: "- (2 ^ 31) \<le> ?s" "?s < 2 ^ 31" "?s = (if v < 2 ^ 31 then v else v - 2 ^ 32)"
    using signed_eq[OF assms(1)] assms(1) by (auto simp: in_unsigned_def)
  have "take_bit 32 (v - take_bit 32 b) = take_bit 32 (v - b)" by (simp add: take_bit_eq_mod mod_diff_right_eq)
  also have "\<dots> = take_bit 32 (?s - b)"
  proof -
    have "v - 2 ^ 32 - b = v - b - 2 ^ 32" by simp
    then have "take_bit 32 (v - 2 ^ 32 - b) = take_bit 32 (v - b)" by (simp only: take_bit_eq_mod minus_mod_self2)
    then show ?thesis unfolding s(3) by simp
  qed
  finally have e: "take_bit 32 (v - take_bit 32 b) = take_bit 32 (?s - b)" .
  have pos: "take_bit 32 (?s - b) = ?s - b" if "b \<le> ?s" using that s(1,2) assms(4) by (intro take_bit_int_eq_self) auto
  have neg: "take_bit 32 (?s - b) = ?s - b + 2 ^ 32" if "?s < b"
  proof -
    have "take_bit 32 (?s - b) = take_bit 32 (?s - b + 2 ^ 32)" by (simp add: take_bit_eq_mod)
    also have "\<dots> = ?s - b + 2 ^ 32" using that s(1,2) assms(2,4,5) by (intro take_bit_int_eq_self) auto
    finally show ?thesis .
  qed
  show "take_bit 32 (v - take_bit 32 b) < l \<longleftrightarrow> b \<le> ?s \<and> ?s < b + l"
    unfolding e using pos neg s(1) assms(5) by (cases "b \<le> ?s") auto
  show "b \<le> ?s \<Longrightarrow> ?s < b + l \<Longrightarrow> take_bit 32 (v - take_bit 32 b) = ?s - b" unfolding e by (rule pos)
qed

lemma index_converted:
  assumes "has_value env x w v" "w = 32 \<or> w = 64"
  shows "\<exists>y. convertFromStackType x CORINFO_TYPE_INT (VInt 32) = Inr y \<and> has_value env y 32 (take_bit 32 v) \<and> ir_operands y = ir_operands x"
proof (cases "w = 32")
  case True
  then show ?thesis using assms by (simp add: convertFromStackType_def has_valueD(1,5) size_of_def)
next
  case False
  then have "w = 64" using assms(2) by simp
  then have "convertFromStackType x CORINFO_TYPE_INT (VInt 32) = Inr (IRIntCast x (VInt 32) True)"
    using has_valueD(1)[OF assms(1)] by (simp add: convertFromStackType_def size_of_def isSigned_def CreateIntCast_def)
  moreover have "has_value env (IRIntCast x (VInt 32) True) 32 (take_bit 32 v)"
    using assms(1) \<open>w = 64\<close> by (simp add: has_value_def cast_sem_def take_signed)
  ultimately show ?thesis by simp
qed

text \<open>An index as the number it is on the stack, the range of a dimension, and the distance of the index from its lower bound.\<close>

abbreviation index_of :: "int \<Rightarrow> int" where
  "index_of v \<equiv> as_signed 32 (take_bit 32 v)"

definition in_dims :: "int list \<Rightarrow> (int \<times> int) list \<Rightarrow> bool" where
  "in_dims vs ds \<longleftrightarrow> list_all2 (\<lambda>v (low, len). low \<le> index_of v \<and> index_of v < low + len) vs ds"

definition distances :: "int list \<Rightarrow> (int \<times> int) list \<Rightarrow> (int \<times> int) list" where
  "distances vs ds = map2 (\<lambda>v (low, len). (index_of v - low, len)) vs ds"

abbreviation md_fields :: "CType \<Rightarrow> nat \<Rightarrow> CType \<Rightarrow> CType list" where
  "md_fields vt r e \<equiv> [vt, CInt 32, bytes 4, CArray (CInt 32) r, CArray (CInt 32) r, CArray e 0]"

definition index_operand :: "(nat \<Rightarrow> int) \<Rightarrow> nat \<Rightarrow> IR \<Rightarrow> int \<Rightarrow> bool" where
  "index_operand env n x v \<longleftrightarrow> (\<exists>w. has_value env x w v \<and> (w = 32 \<or> w = 64)) \<and> ir_operands x \<subseteq> {..<n}"

lemma index_operand_later: "index_operand env n x v \<Longrightarrow> n \<le> n' \<Longrightarrow> \<forall>m < n. env' m = env m \<Longrightarrow> index_operand env' n' x v"
proof -
  assume *: "index_operand env n x v" "n \<le> n'" "\<forall>m < n. env' m = env m"
  then obtain w where w: "has_value env x w v" "w = 32 \<or> w = 64" "ir_operands x \<subseteq> {..<n}" unfolding index_operand_def by (elim conjE exE)
  have "ir_operands x \<subseteq> {..<n'}" using w(3) *(2) by (meson lessThan_subset_iff order_trans)
  then show ?thesis using has_value_below[OF w(1,3) *(3)] w(2) unfolding index_operand_def by (intro conjI exI[of _ w])
qed

lemma elements_nonneg: "\<forall>l \<in> set ls. 0 \<le> l \<Longrightarrow> 0 \<le> prod_list (ls :: int list)"
  by (induction ls) auto

text \<open>The two loads and the check of a dimension.\<close>

lemma md_dimension:
  assumes arr: "md_array M A sz lens lows" "0 \<le> A" "I < length lens" and vt: "byte_size vt = 8"
    and a: "eval env a = Some A" "ir_operands a \<subseteq> {..<n}" and x: "index_operand env n x v"
    and ts_def: "ts = md_fields vt (length lens) e"
  shows "\<exists>y p q c. convertFromStackType x CORINFO_TYPE_INT (VInt 32) = Inr y \<and> CreateInBoundsGEP ts a 4 (const32 I) = Inr p \<and>
    CreateInBoundsGEP ts a 3 (const32 I) = Inr q \<and>
    genBoundsCheck (IROperand (Suc n) (VInt 32)) (IRBin IRSub y (IROperand n (VInt 32))) = Inr [(c, ''CORINFO_HELP_RNGCHKFAIL'')] \<and>
    ir_operands y \<subseteq> {..<n} \<and>
    (let env' = env(n := take_bit 32 (lows ! I), Suc n := lens ! I); d = take_bit 32 (take_bit 32 v - take_bit 32 (lows ! I)) in
     run_stmts M env (SLoad n p (VInt 32) # SLoad (Suc n) q (VInt 32) # SCheck (c, ''CORINFO_HELP_RNGCHKFAIL'') # ss) k =
       (if d < lens ! I then run_stmts M env' ss k else Throws ''CORINFO_HELP_RNGCHKFAIL'') \<and>
     has_value env' (IRBin IRSub y (IROperand n (VInt 32))) 32 d \<and> has_value env' (IROperand (Suc n) (VInt 32)) 32 (lens ! I))"
proof -
  let ?low = "lows ! I" and ?len = "lens ! I"
  let ?env = "env(n := take_bit 32 ?low, Suc n := ?len)" and ?d = "take_bit 32 (take_bit 32 v - take_bit 32 ?low)"
  have r: "length lens < 2 ^ 31" "0 \<le> ?len" "?len < 2 ^ 31" "M (A + 16 + 4 * int I) 32 = Some ?len"
    "M (A + 16 + 4 * int (length lens) + 4 * int I) 32 = Some (take_bit 32 ?low)" "I < 2 ^ 31" "sz < 2 ^ 31"
    using arr(1,3) by (auto simp: md_array_def)
  have "0 \<le> prod_list lens" using arr(1) by (intro elements_nonneg) (simp add: md_array_def all_set_conv_all_nth)
  then have "0 \<le> prod_list lens * int sz" by simp
  moreover have "A + 16 + 8 * int (length lens) + prod_list lens * int sz < 2 ^ 64" using arr(1) by (simp only: md_array_def)
  ultimately have top: "A + 16 + 8 * int (length lens) < 2 ^ 64" by linarith
  obtain y where y: "convertFromStackType x CORINFO_TYPE_INT (VInt 32) = Inr y" "has_value env y 32 (take_bit 32 v)" "ir_operands y = ir_operands x"
    using x index_converted unfolding index_operand_def by blast
  have below: "ir_operands y \<subseteq> {..<n}" using x y(3) by (simp add: index_operand_def)
  have y': "has_value ?env y 32 (take_bit 32 v)" using has_value_below[OF y(2) below] by simp
  note off = md_offsets(2,3)[OF vt, where r = "length lens" and e = e, folded ts_def]
  have "\<exists>p. CreateInBoundsGEP ts a 4 (const32 I) = Inr p \<and> eval env p = Some (A + int (element_offset ts 4) + int I * int (byte_size (CInt 32)))
      \<and> ir_operands p = ir_operands a \<union> ir_operands (const32 I)"
    by (rule gep_value[OF _ _ a(1) const32_value]) (use r top arr(2,3) off in \<open>simp_all add: ts_def\<close>)
  then obtain p where p: "CreateInBoundsGEP ts a 4 (const32 I) = Inr p" "eval env p = Some (A + 16 + 4 * int (length lens) + 4 * int I)"
    by (auto simp: off algebra_simps)
  have "\<exists>q. CreateInBoundsGEP ts a 3 (const32 I) = Inr q \<and> eval env q = Some (A + int (element_offset ts 3) + int I * int (byte_size (CInt 32)))
      \<and> ir_operands q = ir_operands a \<union> ir_operands (const32 I)"
    by (rule gep_value[OF _ _ a(1) const32_value]) (use r top arr(2,3) off in \<open>simp_all add: ts_def\<close>)
  then obtain q where q: "CreateInBoundsGEP ts a 3 (const32 I) = Inr q" "eval env q = Some (A + 16 + 4 * int I)" "ir_operands q \<subseteq> {..<n}"
    using a(2) by (auto simp: off algebra_simps const32_def)
  have q': "eval (env(n := z)) q = eval env q" for z using q(3) by (intro eval_below) auto
  have idx: "has_value ?env (IRBin IRSub y (IROperand n (VInt 32))) 32 ?d"
    using has_valueD(1,2)[OF y'] by (simp add: has_value_def)
  have len: "has_value ?env (IROperand (Suc n) (VInt 32)) 32 ?len" using r(2,3) by (simp add: has_value_def in_unsigned_def take_bit_int_eq_self)
  obtain c where c: "genBoundsCheck (IROperand (Suc n) (VInt 32)) (IRBin IRSub y (IROperand n (VInt 32))) = Inr [(c, ''CORINFO_HELP_RNGCHKFAIL'')]"
    "eval ?env c = Some (of_bool (?len \<le> ?d))"
    using bounds_check_value[OF len idx order_refl subset_UNIV subset_UNIV] by blast
  have "run_stmts M env (SLoad n p (VInt 32) # SLoad (Suc n) q (VInt 32) # SCheck (c, ''CORINFO_HELP_RNGCHKFAIL'') # ss) k =
      (if ?d < ?len then run_stmts M ?env ss k else Throws ''CORINFO_HELP_RNGCHKFAIL'')"
    using p(2) q(2) q' r(4,5) c(2) by (auto simp del: fun_upd_apply)
  then show ?thesis using y(1) p(1) q(1) c(1) below idx len by (auto simp: Let_def)
qed

text \<open>The operand that holds the offset, and its number, before the first dimension and behind it.\<close>

definition offset_operand :: "(nat \<Rightarrow> int) \<Rightarrow> nat \<Rightarrow> nat \<Rightarrow> IR option \<Rightarrow> int \<Rightarrow> bool" where
  "offset_operand env n I eo acc \<longleftrightarrow>
     (case eo of None \<Rightarrow> I = 0 \<and> acc = 0 | Some x \<Rightarrow> has_value env x 32 (take_bit 32 acc) \<and> ir_operands x \<subseteq> {..<n})"

lemma offset_step:
  assumes "offset_operand env n I eo acc" "\<forall>m < n. env' m = env m" "has_value env' y 32 d" "has_value env' (IROperand (Suc n) (VInt 32)) 32 l"
    "ir_operands y \<subseteq> {..<Suc (Suc n)}"
  shows "\<exists>z. (case eo of None \<Rightarrow> rbind (rassert ''ElementOffset'' (I = 0)) (\<lambda>_. Inr y)
      | Some x \<Rightarrow> Inr (IRBin IRAdd (IRBin IRMul x (IROperand (Suc n) (VInt 32))) y)) = Inr z \<and>
    offset_operand env' (Suc (Suc n)) (Suc I) (Some z) (acc * l + d)"
proof (cases eo)
  case None
  then show ?thesis using assms by (simp add: offset_operand_def has_valueD(5))
next
  case (Some x)
  then have x: "has_value env' x 32 (take_bit 32 acc)" "ir_operands x \<subseteq> {..<n}"
    using assms(1,2) has_value_below[of env x 32] by (auto simp: offset_operand_def)
  have "take_bit 32 (take_bit 32 (take_bit 32 acc * l) + d) = take_bit 32 (acc * l + d)"
    by (simp add: take_bit_eq_mod mod_simps)
  then have "has_value env' (IRBin IRAdd (IRBin IRMul x (IROperand (Suc n) (VInt 32))) y) 32 (take_bit 32 (acc * l + d))"
    using has_valueD(1,2)[OF x(1)] has_valueD(1,2)[OF assms(3)] has_valueD(2)[OF assms(4)] by (simp add: has_value_def del: eval.simps(1))
  moreover have "ir_operands x \<subseteq> {..<Suc (Suc n)}" using x(2) by auto
  ultimately show ?thesis using Some assms(5) by (simp add: offset_operand_def)
qed

text \<open>The outcome of the loop: it goes on with the offset, or throws.\<close>

definition loop_outcome :: "nat \<Rightarrow> nat \<Rightarrow> (nat \<Rightarrow> int) \<Rightarrow> bool \<Rightarrow> IR option \<Rightarrow> int \<Rightarrow> ((nat \<Rightarrow> int) \<Rightarrow> outcome) \<Rightarrow> outcome \<Rightarrow> bool" where
  "loop_outcome r n env ok eo acc k res \<longleftrightarrow>
     (if ok then \<exists>env' n'. res = k env' \<and> (\<forall>m < n. env' m = env m) \<and> offset_operand env' n' r eo acc
      else res = Throws ''CORINFO_HELP_RNGCHKFAIL'')"

lemma loop_outcome_later:
  "loop_outcome r n' env' ok eo acc k res \<Longrightarrow> n \<le> n' \<Longrightarrow> \<forall>m < n. env' m = env m \<Longrightarrow> loop_outcome r n env ok eo acc k res"
  by (auto simp: loop_outcome_def split: if_splits)

text \<open>One round of the loop: the statements it adds, what they do, and the new offset.\<close>

lemma md_loop_step:
  assumes arr: "md_array M A sz lens lows" "0 \<le> A" "I < length lens" and vt: "byte_size vt = 8" and ts: "ts = md_fields vt (length lens) e"
    and a: "eval env a = Some A" "ir_operands a \<subseteq> {..<n}" and x: "index_operand env n x v" and eo: "offset_operand env n I eo acc"
  defines "env' \<equiv> env(n := take_bit 32 (lows ! I), Suc n := lens ! I)" and "d \<equiv> take_bit 32 (take_bit 32 v - take_bit 32 (lows ! I))"
  shows "\<exists>rs z. (\<forall>xs ss eo'. md_loop ts a (Suc I) (Suc (Suc n)) (Some z) xs = Inr (ss, eo') \<longrightarrow> md_loop ts a I n eo (x # xs) = Inr (rs @ ss, eo')) \<and>
    (\<forall>ss k. run_stmts M env (rs @ ss) k = (if d < lens ! I then run_stmts M env' ss k else Throws ''CORINFO_HELP_RNGCHKFAIL'')) \<and>
    offset_operand env' (Suc (Suc n)) (Suc I) (Some z) (acc * (lens ! I) + d)"
proof -
  note dim = md_dimension[OF arr vt a x ts, unfolded Let_def, folded env'_def d_def]
  obtain y p q c where d: "convertFromStackType x CORINFO_TYPE_INT (VInt 32) = Inr y" "CreateInBoundsGEP ts a 4 (const32 I) = Inr p"
    "CreateInBoundsGEP ts a 3 (const32 I) = Inr q"
    "genBoundsCheck (IROperand (Suc n) (VInt 32)) (IRBin IRSub y (IROperand n (VInt 32))) = Inr [(c, ''CORINFO_HELP_RNGCHKFAIL'')]"
    "ir_operands y \<subseteq> {..<n}" "has_value env' (IRBin IRSub y (IROperand n (VInt 32))) 32 d" "has_value env' (IROperand (Suc n) (VInt 32)) 32 (lens ! I)"
    using dim[of "[]" "\<lambda>_. Undefined"] by blast
  let ?rs = "[SLoad n p (VInt 32), SLoad (Suc n) q (VInt 32), SCheck (c, ''CORINFO_HELP_RNGCHKFAIL'')]"
  have run: "run_stmts M env (?rs @ ss) k = (if d < lens ! I then run_stmts M env' ss k else Throws ''CORINFO_HELP_RNGCHKFAIL'')" for ss k
    using dim[of ss k] d(1-4) by auto
  have same: "\<forall>m < n. env' m = env m" by (simp add: env'_def)
  have yo: "ir_operands (IRBin IRSub y (IROperand n (VInt 32))) \<subseteq> {..<Suc (Suc n)}" using d(5) by auto
  obtain z where z: "(case eo of None \<Rightarrow> rbind (rassert ''ElementOffset'' (I = 0)) (\<lambda>_. Inr (IRBin IRSub y (IROperand n (VInt 32))))
      | Some x \<Rightarrow> Inr (IRBin IRAdd (IRBin IRMul x (IROperand (Suc n) (VInt 32))) (IRBin IRSub y (IROperand n (VInt 32))))) = Inr z"
    "offset_operand env' (Suc (Suc n)) (Suc I) (Some z) (acc * (lens ! I) + d)"
    using offset_step[OF eo same d(6,7) yo] by blast
  have "length ts - 2 = 4" using ts by simp
  then have "md_loop ts a (Suc I) (Suc (Suc n)) (Some z) xs = Inr (ss, eo') \<longrightarrow> md_loop ts a I n eo (x # xs) = Inr (?rs @ ss, eo')" for xs ss eo'
    using d(1-4) z(1) by (simp add: mdArrayGetDimensionLength_def Let_def)
  then show ?thesis using run z(2) by (intro exI[of _ ?rs] exI[of _ z]) blast
qed

lemma md_loop_runs:
  assumes arr: "md_array M A sz lens lows" "0 \<le> A" and vt: "byte_size vt = 8" and ts: "ts = md_fields vt (length lens) e"
  shows "eval env a = Some A \<Longrightarrow> ir_operands a \<subseteq> {..<n} \<Longrightarrow> list_all2 (index_operand env n) xs vs \<Longrightarrow> I + length xs = length lens \<Longrightarrow>
    offset_operand env n I eo acc \<Longrightarrow>
    \<exists>ss eo'. md_loop ts a I n eo xs = Inr (ss, eo') \<and> (eo' = None \<longrightarrow> eo = None \<and> xs = []) \<and>
      (\<forall>k. loop_outcome (length lens) n env (in_dims vs (drop I (zip lows lens))) eo'
        (row_major acc (distances vs (drop I (zip lows lens)))) k (run_stmts M env ss k))"
proof (induction xs arbitrary: vs I n env eo acc)
  case Nil
  then have "vs = []" "I = length lens" "length (zip lows lens) = length lens" using arr(1) by (auto simp: md_array_def)
  then show ?case using Nil.prems by (auto simp: in_dims_def distances_def loop_outcome_def)
next
  case (Cons x xs)
  obtain v vs' where vs: "vs = v # vs'" "index_operand env n x v" "list_all2 (index_operand env n) xs vs'"
    using Cons.prems(3) by (auto simp: list_all2_Cons1)
  have I: "I < length lens" using Cons.prems(4) by simp
  let ?low = "lows ! I" and ?len = "lens ! I" and ?ds = "drop (Suc I) (zip lows lens)"
  let ?env = "env(n := take_bit 32 ?low, Suc n := ?len)" and ?d = "take_bit 32 (take_bit 32 v - take_bit 32 ?low)"
  have r: "0 \<le> ?len" "?len < 2 ^ 31" "- (2 ^ 31) \<le> ?low" "?low + ?len \<le> 2 ^ 31" "length lows = length lens"
    using arr(1) I by (auto simp: md_array_def)
  have ds: "drop I (zip lows lens) = (?low, ?len) # ?ds" using I r(5) by (subst Cons_nth_drop_Suc[symmetric]) auto
  obtain rs z where z: "\<And>xs ss eo'. md_loop ts a (Suc I) (Suc (Suc n)) (Some z) xs = Inr (ss, eo') \<Longrightarrow> md_loop ts a I n eo (x # xs) = Inr (rs @ ss, eo')"
    "\<And>ss k. run_stmts M env (rs @ ss) k = (if ?d < ?len then run_stmts M ?env ss k else Throws ''CORINFO_HELP_RNGCHKFAIL'')"
    "offset_operand ?env (Suc (Suc n)) (Suc I) (Some z) (acc * ?len + ?d)"
    using md_loop_step[OF arr I vt ts Cons.prems(1,2) vs(2) Cons.prems(5)] by blast
  have same: "\<forall>m < n. ?env m = env m" by simp
  have "eval ?env a = Some A" using eval_below[OF Cons.prems(2) same] Cons.prems(1) by (simp del: fun_upd_apply)
  moreover have "ir_operands a \<subseteq> {..<Suc (Suc n)}" using Cons.prems(2) by auto
  moreover have "list_all2 (index_operand ?env (Suc (Suc n))) xs vs'"
    using vs(3) by (rule list_all2_mono) (rule index_operand_later[OF _ _ same], simp_all)
  moreover have "Suc I + length xs = length lens" using Cons.prems(4) by simp
  ultimately obtain ss eo' where IH: "md_loop ts a (Suc I) (Suc (Suc n)) (Some z) xs = Inr (ss, eo')" "eo' \<noteq> None"
    "\<And>k. loop_outcome (length lens) (Suc (Suc n)) ?env (in_dims vs' ?ds) eo' (row_major (acc * ?len + ?d) (distances vs' ?ds)) k (run_stmts M ?env ss k)"
    using Cons.IH[OF _ _ _ _ z(3)] by blast
  note range = index_in_range[OF _ r(1-4), of "take_bit 32 v"]
  have "loop_outcome (length lens) n env (in_dims vs (drop I (zip lows lens))) eo' (row_major acc (distances vs (drop I (zip lows lens)))) k
      (if ?d < ?len then run_stmts M ?env ss k else Throws ''CORINFO_HELP_RNGCHKFAIL'')" for k
    using range loop_outcome_later[OF IH(3) _ same, of k]
    by (auto simp: in_dims_def distances_def vs(1) ds loop_outcome_def[where ok = False] simp del: fun_upd_apply)
  then show ?case using z(1)[OF IH(1)] IH(2) by (simp add: z(2) del: md_loop.simps fun_upd_apply)
qed

lemma row_major_bound:
  "0 \<le> acc \<Longrightarrow> acc < K \<Longrightarrow> \<forall>(i, l) \<in> set ds. 0 \<le> i \<and> i < l \<Longrightarrow> 0 \<le> row_major acc ds \<and> row_major acc ds < K * prod_list (map snd ds)"
proof (induction ds arbitrary: acc K)
  case (Cons d ds)
  obtain i l where d: "d = (i, l)" "0 \<le> i" "i < l" using Cons.prems(3) by (cases d) auto
  have "(acc + 1) * l \<le> K * l" using Cons.prems(2) d by (intro mult_right_mono) auto
  then have "acc * l + i < K * l" using d(3) by (simp add: algebra_simps)
  then show ?case using Cons.IH[of "acc * l + i" "K * l"] Cons.prems d by (simp add: mult.assoc)
qed simp

lemma distances_in: "in_dims vs ds \<Longrightarrow> (i, l) \<in> set (distances vs ds) \<Longrightarrow> 0 \<le> i \<and> i < l"
  by (auto simp: in_dims_def distances_def list_all2_conv_all_nth set_zip)

lemma distances_lengths: "length vs = length ds \<Longrightarrow> map snd (distances vs ds) = map snd ds"
  by (induction vs ds rule: list_induct2) (auto simp: distances_def)

lemma element_number:
  assumes "md_array M A sz lens lows" "in_dims vs (zip lows lens)"
  shows "0 \<le> row_major 0 (distances vs (zip lows lens))" "row_major 0 (distances vs (zip lows lens)) < prod_list lens"
proof -
  have l: "length lows = length lens" "length vs = length (zip lows lens)" using assms(1) list_all2_lengthD[OF assms(2)[unfolded in_dims_def]] by (auto simp: md_array_def)
  have "prod_list (map snd (distances vs (zip lows lens))) = prod_list lens" using distances_lengths[OF l(2)] l(1) by simp
  then show "0 \<le> row_major 0 (distances vs (zip lows lens))" "row_major 0 (distances vs (zip lows lens)) < prod_list lens"
    using row_major_bound[of 0 1 "distances vs (zip lows lens)"] distances_in[OF assms(2)] by auto
qed

text \<open>A null pointer and a memory that would be an array of no elements, for the code that is made and not run.\<close>

lemma empty_array: "sz < 2 ^ 31 \<Longrightarrow> r < 2 ^ 31 \<Longrightarrow> 0 < r \<Longrightarrow> md_array (\<lambda>_ _. Some 0) 0 sz (replicate r 0) (replicate r 0)"
  by (auto simp: md_array_def power_0_left)

lemma null_check_run:
  assumes "eval env a = Some A" "is_pointer_type (ir_type a)"
  shows "run_stmts M env (fst (null_check a) @ ss) k = (if A = 0 then Throws ''CORINFO_HELP_THROWNULLREF'' else run_stmts M env ss k)"
    "snd (null_check a) = a"
  using assms by (auto simp: null_check_def genNullCheck_def genConditionalThrow_def)

lemma md_code_runs:
  assumes arr: "md_array M A (byte_size e) lens lows" "0 \<le> A" and vt: "byte_size vt = 8"
    and a: "eval env a = Some A" "ir_operands a \<subseteq> {..<n}" and xs: "list_all2 (index_operand env n) xs vs" "length xs = length lens" "xs \<noteq> []"
  shows "\<exists>ss x p. md_loop (md_fields vt (length lens) e) a 0 n None xs = Inr (ss, Some x) \<and>
    CreateInBoundsGEP (md_fields vt (length lens) e) a 5 x = Inr p \<and>
    run_code M env (ss, p) = (if in_dims vs (zip lows lens)
      then Returns (A + 16 + 8 * int (length lens) + row_major 0 (distances vs (zip lows lens)) * int (byte_size e))
      else Throws ''CORINFO_HELP_RNGCHKFAIL'')"
proof -
  let ?ts = "md_fields vt (length lens) e" and ?q = "row_major 0 (distances vs (zip lows lens))"
  have "offset_operand env n 0 None 0" by (simp add: offset_operand_def)
  from md_loop_runs[OF arr vt refl[of ?ts] a xs(1) _ this] xs(2) obtain ss eo where l: "md_loop ?ts a 0 n None xs = Inr (ss, eo)" "eo = None \<longrightarrow> xs = []"
    "\<And>k. loop_outcome (length lens) n env (in_dims vs (zip lows lens)) eo ?q k (run_stmts M env ss k)" by (auto simp del: md_loop.simps)
  obtain x where x: "eo = Some x" using l(2) xs(3) by (cases eo) auto
  obtain p where p: "CreateInBoundsGEP ?ts a 5 x = Inr p" by (simp add: CreateInBoundsGEP_def)
  have "run_code M env (ss, p) = (if in_dims vs (zip lows lens) then Returns (A + 16 + 8 * int (length lens) + ?q * int (byte_size e))
      else Throws ''CORINFO_HELP_RNGCHKFAIL'')"
  proof (cases "in_dims vs (zip lows lens)")
    case True
    let ?k = "\<lambda>env. case eval env p of None \<Rightarrow> Undefined | Some v \<Rightarrow> Returns v"
    obtain env' n' where e: "run_stmts M env ss ?k = ?k env'" "\<forall>m < n. env' m = env m" "has_value env' x 32 (take_bit 32 ?q)"
      using l(3)[of ?k] True x unfolding loop_outcome_def offset_operand_def by auto
    note q = element_number[OF arr(1) True]
    have b: "prod_list lens < 2 ^ 31" "byte_size e < 2 ^ 31" "length lens < 2 ^ 31" "A + 16 + 8 * int (length lens) + prod_list lens * int (byte_size e) < 2 ^ 64"
      using arr(1) unfolding md_array_def by blast+
    have tb: "take_bit 32 ?q = ?q" using q b(1) by (intro take_bit_int_eq_self) auto
    have "?q * int (byte_size e) \<le> prod_list lens * int (byte_size e)" using q by (intro mult_right_mono) auto
    then have "A + 16 + 8 * int (length lens) + ?q * int (byte_size e) < 2 ^ 64" using b(4) by linarith
    moreover have "eval env' a = Some A" using eval_below[OF a(2) e(2)] a(1) by simp
    ultimately have "eval env' p = Some (A + 16 + 8 * int (length lens) + ?q * int (byte_size e))"
      using gep_value[of 5 ?ts e 0 env' a A x 32 ?q] e(3) tb q b p arr(2) by (simp add: md_offsets(4)[OF vt] algebra_simps)
    then show ?thesis using True e(1) by (simp add: run_code_def)
  next
    case False
    then show ?thesis using l(3) by (simp add: run_code_def loop_outcome_def)
  qed
  then show ?thesis using l(1) x p by blast
qed

text \<open>C16: the code for the address of an element of an array of several dimensions: a null array throws, an index outside the bounds of its
  dimension throws, and else the result is the address of the element in row-major order behind the header; the indices and the array leave the
  operand stack. Indices are 32-bit numbers or native ones, which are cut to 32 bits, and the products are computed with 32 bits.\<close>

theorem md_array_address:
  assumes "A = 0 \<or> md_array M A (byte_size e) lens lows" "0 \<le> A" "byte_size e < 2 ^ 31" "byte_size vt = 8" "\<forall>i ts. et \<noteq> CStruct i ts \<and> et \<noteq> CRef i"
    "eval env a = Some A" "is_pointer_type (ir_type a)" "ir_operands a \<subseteq> {..<n}"
    "list_all2 (index_operand env n) xs vs" "length xs = length lens" "length xs \<in> {2, 3}"
  shows "\<exists>code. mdArrayRefAddr n (length xs) et (CStruct i (fst (addArrayFields False (length xs) e [vt]))) (rev xs @ a # S) = Inr (code, S) \<and>
    run_code M env code =
      (if A = 0 then Throws ''CORINFO_HELP_THROWNULLREF''
       else if in_dims vs (zip lows lens)
       then Returns (A + 16 + 8 * int (length lens) + row_major 0 (distances vs (zip lows lens)) * int (byte_size e))
       else Throws ''CORINFO_HELP_RNGCHKFAIL'')"
proof -
  let ?ts = "md_fields vt (length lens) e"
  have len: "0 < length lens" "length lens < 2 ^ 31" "xs \<noteq> []" using assms(10,11) by auto
  have "\<exists>M' lens' lows'. md_array M' A (byte_size e) lens' lows' \<and> length lens' = length lens \<and> (A \<noteq> 0 \<longrightarrow> M' = M \<and> lens' = lens \<and> lows' = lows)"
    using assms(1) empty_array[OF assms(3) len(2,1)] by (cases "A = 0") force+
  then obtain M' lens' lows' where arr: "md_array M' A (byte_size e) lens' lows'" "length lens' = length lens"
    "A \<noteq> 0 \<longrightarrow> M' = M \<and> lens' = lens \<and> lows' = lows" by blast
  obtain ss x p where c: "md_loop ?ts a 0 n None xs = Inr (ss, Some x)" "CreateInBoundsGEP ?ts a 5 x = Inr p"
      "run_code M' env (ss, p) = (if in_dims vs (zip lows' lens')
        then Returns (A + 16 + 8 * int (length lens') + row_major 0 (distances vs (zip lows' lens')) * int (byte_size e)) else Throws ''CORINFO_HELP_RNGCHKFAIL'')"
    using md_code_runs[OF arr(1) assms(2,4,6,8,9) _ len(3)] assms(10) unfolding arr(2) by blast
  have last5: "CreateInBoundsGEP ?ts a (Suc (Suc (Suc (Suc (Suc 0))))) x = Inr p" using c(2) by (simp add: eval_nat_numeral)
  let ?code = "(fst (null_check a) @ ss, p)"
  have nth: "(rev xs @ a # S) ! length xs = a" "take (length xs) (rev xs @ a # S) = rev xs" "drop (Suc (length xs)) (rev xs @ a # S) = S"
    by (simp_all add: nth_append)
  have "mdArrayRefAddr n (length xs) et (CStruct i (fst (addArrayFields False (length xs) e [vt]))) (rev xs @ a # S) = Inr (?code, S)"
    using c(1) last5 assms(5,10,11) null_check_run(2)[OF assms(6,7)] nth
    by (cases et) (auto simp: mdArrayRefAddr_def ArrayIntrinMaxRank_def cast_StructType_def md_offsets(1)[OF assms(4)] case_prod_beta Let_def)
  moreover have "run_code M env ?code = (if A = 0 then Throws ''CORINFO_HELP_THROWNULLREF'' else run_code M env (ss, p))"
    using null_check_run(1)[OF assms(6,7)] by (simp add: run_code_def)
  ultimately show ?thesis using c(3) arr(3) by (intro exI[of _ ?code]) (cases "A = 0", simp_all)
qed

theorem md_array_address_witness:
  "\<exists>code. mdArrayRefAddr 3 2 (CInt 32) (CStruct 0 (fst (addArrayFields False 2 (CInt 32) [CPtr False (CInt 64)])))
      [IROperand 2 (VInt 64), IROperand 1 (VInt 32), IROperand 0 (VPtr (VInt 8) 1)] = Inr (code, []) \<and>
    run_code (\<lambda>p _. if p = 1016 then Some 2 else if p = 1020 then Some 3 else if p = 1024 then Some 0xFFFFFFFF else Some 0)
      (\<lambda>k. if k = 0 then 1000 else if k = 1 then 0 else 2) code = Returns 1052"
proof -
  let ?M = "\<lambda>p _. if p = (1016 :: int) then Some 2 else if p = 1020 then Some 3 else if p = 1024 then Some 0xFFFFFFFF else Some (0 :: int)"
  let ?env = "\<lambda>k :: nat. if k = 0 then 1000 else if k = 1 then 0 else 2 :: int"
  have arr: "1000 = (0 :: int) \<or> md_array ?M 1000 (byte_size (CInt 32)) [2, 3] [-1, 0]"
    by (auto simp: md_array_def less_Suc_eq take_bit_eq_mod)
  have idx: "list_all2 (index_operand ?env 3) [IROperand 1 (VInt 32), IROperand 2 (VInt 64)] [0, 2]"
    by (auto simp: index_operand_def has_value_def in_unsigned_def take_bit_int_eq_self)
  have d: "in_dims [0, 2] (zip [-1, 0] [2, 3])" "row_major 0 (distances [0, 2] (zip [-1, 0] [2, 3])) = 5"
    by (simp_all add: in_dims_def distances_def signed_small take_bit_int_eq_self)
  show ?thesis
    using md_array_address[OF arr, of "CPtr False (CInt 64)" "CInt 32" ?env "IROperand 0 (VPtr (VInt 8) 1)" 3
        "[IROperand 1 (VInt 32), IROperand 2 (VInt 64)]" "[0, 2]" 0 "[]"] idx d
    by (simp add: is_pointer_type_def width_def TargetPointerSizeInBits_def take_bit_int_eq_self numeral_2_eq_2[symmetric])
qed

subsection \<open>Vectors\<close>

definition array_typed :: "CType \<Rightarrow> CType \<Rightarrow> bool" where
  "array_typed t e \<longleftrightarrow> isArrayType t (Some e) \<longrightarrow> (\<exists>k vt. byte_size vt = 8 \<and> t = CStruct k (fst (addArrayFields True 1 e [vt])))"

lemma vector_fields:
  assumes "byte_size vt = 8"
  shows "fst (addArrayFields True 1 e [vt]) = [vt, CInt 32, bytes 4, CArray e 0]"
    "element_offset [vt, CInt 32, bytes 4, CArray e 0] 1 = 8" "element_offset [vt, CInt 32, bytes 4, CArray e 0] 3 = 16"
  using assms by (simp_all add: addArrayFields_def element_offset_def total_size_def bytes_def)

lemma ensure_typed:
  assumes "array_typed t e" "eval env a = Some A" "is_pointer_type (ir_type a)" "ir_operands a \<subseteq> {..<n}"
  shows "\<exists>b k vt. ensureIsArray ot (a, t) (Some e) = (b, CStruct k [vt, CInt 32, bytes 4, CArray e 0]) \<and> byte_size vt = 8 \<and>
    eval env b = Some A \<and> is_pointer_type (ir_type b) \<and> ir_operands b \<subseteq> {..<n}"
proof (cases "isArrayType t (Some e)")
  case True
  then show ?thesis using assms vector_fields(1) by (auto simp: array_typed_def ensureIsArray_def)
next
  case False
  then show ?thesis using assms(2-4) vector_fields(1)[of "CPtr False (CArray (CInt 64) 0)" e]
    by (auto simp: ensureIsArray_def createArrayOfElementType_def)
qed

lemma typed_stays: "ensureIsArray ot (b, CStruct k [vt, CInt 32, bytes 4, CArray e 0]) None = (b, CStruct k [vt, CInt 32, bytes 4, CArray e 0])"
  by (simp add: ensureIsArray_def isArrayType_def)

lemma length_loaded:
  assumes "byte_size vt = 8" "eval env b = Some A" "is_pointer_type (ir_type b)" "A = 0 \<or> vector M A sz l" "0 \<le> A"
  shows "\<exists>p. loadLen ot n (b, CStruct k [vt, CInt 32, bytes 4, CArray e 0]) True =
      Inr (fst (null_check b) @ [SLoad n p (VInt 32)], IRIntCast (IROperand n (VInt 32)) (VInt 64) False) \<and>
    run_stmts M env (fst (null_check b) @ SLoad n p (VInt 32) # ss) f =
      (if A = 0 then Throws ''CORINFO_HELP_THROWNULLREF'' else run_stmts M (env(n := l)) ss f) \<and>
    (A \<noteq> 0 \<longrightarrow> has_value (env(n := l)) (IRIntCast (IROperand n (VInt 32)) (VInt 64) False) 64 l)"
proof -
  let ?p = "IRGep b (IRConst (VInt 64) 8)"
  have c: "convertToStackType (IROperand n (VInt 32)) CORINFO_TYPE_NATIVEUINT = Inr (IRIntCast (IROperand n (VInt 32)) (VInt 64) False)"
    by (simp add: convertToStackType_def stackSize_def TargetPointerSizeInBits_def isSigned_def CreateIntCast_def)
  have "loadLen ot n (b, CStruct k [vt, CInt 32, bytes 4, CArray e 0]) True =
      Inr (fst (null_check b) @ [SLoad n ?p (VInt 32)], IRIntCast (IROperand n (VInt 32)) (VInt 64) False)"
    using c null_check_run(2)[OF assms(2,3)] vector_fields(2)[OF assms(1), of e]
    by (simp add: loadLen_def typed_stays cast_StructType_def CreateStructGEP_def case_prod_beta Let_def)
  moreover have "run_stmts M env (SLoad n ?p (VInt 32) # ss) f = run_stmts M (env(n := l)) ss f" if "A \<noteq> 0"
  proof -
    have v: "M (A + 8) 32 = Some l" "A + 8 < 2 ^ 64" using assms(4) that mult_nonneg_nonneg[of l "int sz"] unfolding vector_def by (auto, linarith)
    have "eval env ?p = Some (A + 8)"
      using assms(2,5) v(2) by (simp add: TargetPointerSizeInBits_def take_bit_int_eq_self signed_small)
    then show ?thesis using v(1) by simp
  qed
  moreover have "has_value (env(n := l)) (IRIntCast (IROperand n (VInt 32)) (VInt 64) False) 64 l" if "A \<noteq> 0"
    using assms(4) that by (auto simp: vector_def has_value_def in_unsigned_def cast_sem_def take_bit_int_eq_self)
  ultimately show ?thesis using null_check_run(1)[OF assms(2,3)] by auto
qed

lemma vector_checked:
  assumes "vector M A (byte_size e) l" "0 \<le> A" "byte_size vt = 8" "eval env b = Some A" "has_value env len 64 l" "has_value env i w x" "w = 32 \<or> w = 64"
    and q: "CreateInBoundsGEP [vt, CInt 32, bytes 4, CArray e 0] b 3 i = Inr q" and c: "genBoundsCheck len i = Inr [(c, ''CORINFO_HELP_RNGCHKFAIL'')]"
  shows "run_code M env ([SCheck (c, ''CORINFO_HELP_RNGCHKFAIL'')], q) =
    (if 0 \<le> as_signed w x \<and> as_signed w x < l then Returns (A + 16 + x * int (byte_size e)) else Throws ''CORINFO_HELP_RNGCHKFAIL'')"
proof -
  have v: "l < 2 ^ 31" "byte_size e < 2 ^ 31" "A + 16 + l * int (byte_size e) < 2 ^ 64" using assms(1) by (auto simp: vector_def)
  have check: "eval env c = Some (of_bool (l \<le> x))"
    using bounds_check_value[OF assms(5,6) _ subset_UNIV subset_UNIV] c assms(7) by auto
  have iff: "x < l \<longleftrightarrow> 0 \<le> as_signed w x \<and> as_signed w x < l"
    using signed_eq[of w x] assms(6,7) v(1) by (auto simp: has_value_def in_unsigned_def split: if_splits)
  have "eval env q = Some (A + 16 + x * int (byte_size e))" if "x < l"
  proof -
    have "x * int (byte_size e) \<le> l * int (byte_size e)" using that by (intro mult_right_mono) auto
    then have "A + 16 + x * int (byte_size e) < 2 ^ 64" using v(3) by linarith
    then show ?thesis
      using gep_value[of 3 "[vt, CInt 32, bytes 4, CArray e 0]" e 0 env b A i w x] assms(2,4,6,7) q v that by (simp add: vector_fields(3)[OF assms(3)])
  qed
  then show ?thesis using check iff by (auto simp: run_code_def)
qed

text \<open>C20: the code for the address of an element of a one-dimensional array, whatever the static type of the array: a null array throws, an
  index that is negative or not below the length throws, and else the result is the address of the element behind the header.\<close>

theorem vector_element_address:
  assumes "A = 0 \<or> vector M A (byte_size e) l" "0 \<le> A" "array_typed t e" "eval env a = Some A" "is_pointer_type (ir_type a)" "ir_operands a \<subseteq> {..<n}"
    "index_operand env n i x" "ir_type i = VInt w"
  shows "\<exists>code. genArrayElemAddress ot n (a, t) i e = Inr code \<and>
    run_code M env code =
      (if A = 0 then Throws ''CORINFO_HELP_THROWNULLREF''
       else if 0 \<le> as_signed w x \<and> as_signed w x < l then Returns (A + 16 + x * int (byte_size e))
       else Throws ''CORINFO_HELP_RNGCHKFAIL'')"
proof -
  obtain b k vt where b: "ensureIsArray ot (a, t) (Some e) = (b, CStruct k [vt, CInt 32, bytes 4, CArray e 0])" "byte_size vt = 8"
    "eval env b = Some A" "is_pointer_type (ir_type b)" "ir_operands b \<subseteq> {..<n}"
    using ensure_typed[OF assms(3-6)] by blast
  have i: "has_value env i w x" "w = 32 \<or> w = 64" "ir_operands i \<subseteq> {..<n}"
    using assms(7,8) by (auto simp: index_operand_def has_value_def)
  let ?ts = "[vt, CInt 32, bytes 4, CArray e 0]" and ?len = "IRIntCast (IROperand n (VInt 32)) (VInt 64) False"
  let ?c = "IRCmp ICMP_UGE (CreateIntCast i (VInt 64) False) ?len"
  have g: "genBoundsCheck ?len i = Inr [(?c, ''CORINFO_HELP_RNGCHKFAIL'')]"
    using i(2) has_valueD(1)[OF i(1)] by (auto simp: genBoundsCheck_def genConditionalThrow_def)
  obtain q where q: "CreateInBoundsGEP ?ts b 3 i = Inr q" by (simp add: CreateInBoundsGEP_def)
  let ?k = "\<lambda>env. case eval env q of None \<Rightarrow> Undefined | Some v \<Rightarrow> Returns v"
  obtain p where p: "loadLen ot n (b, CStruct k ?ts) True = Inr (fst (null_check b) @ [SLoad n p (VInt 32)], ?len)"
    "run_stmts M env (fst (null_check b) @ SLoad n p (VInt 32) # [SCheck (?c, ''CORINFO_HELP_RNGCHKFAIL'')]) ?k =
      (if A = 0 then Throws ''CORINFO_HELP_THROWNULLREF'' else run_stmts M (env(n := l)) [SCheck (?c, ''CORINFO_HELP_RNGCHKFAIL'')] ?k)"
    "A \<noteq> 0 \<longrightarrow> has_value (env(n := l)) ?len 64 l"
    using length_loaded[OF b(2-4) assms(1,2)] by blast
  have code: "genArrayElemAddress ot n (a, t) i e =
      Inr (fst (null_check b) @ SLoad n p (VInt 32) # [SCheck (?c, ''CORINFO_HELP_RNGCHKFAIL'')], q)"
    using b(1) p(1) g q by (simp add: genArrayElemAddress_def cast_StructType_def eval_nat_numeral)
  have same: "\<forall>m < n. (env(n := l)) m = env m" by simp
  have "A \<noteq> 0 \<Longrightarrow> run_stmts M (env(n := l)) [SCheck (?c, ''CORINFO_HELP_RNGCHKFAIL'')] ?k =
      (if 0 \<le> as_signed w x \<and> as_signed w x < l then Returns (A + 16 + x * int (byte_size e)) else Throws ''CORINFO_HELP_RNGCHKFAIL'')"
    using vector_checked[OF _ assms(2) b(2) _ _ has_value_below[OF i(1,3) same] i(2) q g, of M] assms(1) b(3) p(3) eval_below[OF b(5) same]
    by (simp add: run_code_def del: run_stmts.simps fun_upd_apply)
  then show ?thesis using code p(2) by (auto simp: run_code_def)
qed

theorem vector_element_address_witness:
  "\<exists>code. genArrayElemAddress (CInt 8) 2 (IROperand 0 (VPtr (VInt 8) 1), CRef 7) (IROperand 1 (VInt 32)) (CInt 16) = Inr code \<and>
    run_code (\<lambda>p _. if p = 1008 then Some 5 else None) (\<lambda>k. if k = 0 then 1000 else 3) code = Returns 1022"
proof -
  let ?M = "\<lambda>p (_ :: nat). if p = (1008 :: int) then Some (5 :: int) else None"
  let ?env = "\<lambda>k :: nat. if k = 0 then 1000 else 3 :: int"
  have "1000 = (0 :: int) \<or> vector ?M 1000 (byte_size (CInt 16)) 5" by (simp add: vector_def)
  moreover have "array_typed (CRef 7) (CInt 16)" by (simp add: array_typed_def isArrayType_def)
  moreover have "index_operand ?env 2 (IROperand 1 (VInt 32)) 3" by (auto simp: index_operand_def has_value_def in_unsigned_def take_bit_int_eq_self)
  ultimately show ?thesis
    using vector_element_address[of 1000 ?M "CInt 16" 5 "CRef 7" ?env "IROperand 0 (VPtr (VInt 8) 1)" 2 "IROperand 1 (VInt 32)" 3 32 "CInt 8"]
    by (simp add: is_pointer_type_def width_def TargetPointerSizeInBits_def take_bit_int_eq_self signed_small)
qed

end
