(* ===== verification/RuntimeLookup.thy ===== *)
theory RuntimeLookup
  imports ArrayAccess
begin

section \<open>Handles that are known at run time only\<close>

text \<open>
  lib/Reader/reader.cpp, \<open>genericTokenToNode\<close> and \<open>runtimeLookupToNode\<close>, with what they use of lib/Reader/readerir.cpp: in code that
  instantiations of a generic method or class share, the handle for a token is found at run time, from the instantiation
  parameter or from the method table of \<open>this\<close>, through the dictionary of the runtime or with a helper. The code is a sequence of loads,
  checks, calls of a helper and conditional forms of both, each of which defines an operand. What the engine says of a token is an
  argument. The global variable that stands for a relocatable handle has the handle as its address.
\<close>

unbundle bit_operations_syntax

subsection \<open>Code\<close>

datatype LStmt =
    LLoad nat IR
  | LCheck Check
  | LHelper nat nat IR IR                 \<comment> \<open>the result, the helper, its arguments\<close>
  | LCondLoad nat IR IR IR                \<comment> \<open>the result, the condition, the address, the other value\<close>
  | LCondHelper nat IR nat IR IR IR       \<comment> \<open>the result, the condition, the helper, its arguments, the other value\<close>

type_synonym LCode = "LStmt list \<times> IR"

definition loadConstantI :: "u64 \<Rightarrow> IR" where
  "loadConstantI c = IRConst (VInt TargetPointerSizeInBits) (uint c)"

definition derefAddress :: "nat \<Rightarrow> IR \<Rightarrow> bool \<Rightarrow> bool \<Rightarrow> LCode" where
  "derefAddress n Address DstIsGCPtr AddressMayBeNull =
     (let ReferentTy = (if DstIsGCPtr then VPtr (VInt 8) 1 else NativeInt);
          a = (case ir_type Address of
                 VPtr t s \<Rightarrow> if t \<noteq> ReferentTy then IRPointerCast Address (VPtr ReferentTy s) else Address
               | _ \<Rightarrow> IRIntToPtr Address (VPtr ReferentTy 0)) in
      ((if AddressMayBeNull then map LCheck (fst (genNullCheck a)) else []) @ [LLoad n a], IROperand n ReferentTy))"

definition handleToIRNode :: "nat \<Rightarrow> u64 \<Rightarrow> bool \<Rightarrow> LCode" where
  "handleToIRNode n EmbHandle IsIndirect =
     (let HandleValue = IRConst NativeInt (uint EmbHandle) in
      if IsIndirect then ([LLoad n (IRIntToPtr HandleValue (VPtr NativeInt 0))], IROperand n NativeInt) else ([], HandleValue))"

definition isConstantNull :: "IR \<Rightarrow> bool" where
  "isConstantNull a = (case a of IRConst _ v \<Rightarrow> v = 0 | _ \<Rightarrow> False)"

definition callRuntimeHandleHelper :: "nat \<Rightarrow> nat \<Rightarrow> IR \<Rightarrow> IR \<Rightarrow> IR option \<Rightarrow> LCode" where
  "callRuntimeHandleHelper n Helper Arg1 Arg2 NullCheckArg =
     (case NullCheckArg of
        None \<Rightarrow> ([LHelper n Helper Arg1 Arg2], IROperand n NativeInt)
      | Some h \<Rightarrow>
          if isConstantNull h then ([LHelper n Helper Arg1 Arg2], IROperand n NativeInt)
          else ([LCondHelper n (IRCmp ICMP_EQ h (IRConst (ir_type h) 0)) Helper Arg1 Arg2 h], IROperand n (ir_type h)))"

definition conditionalDerefAddress :: "nat \<Rightarrow> IR \<Rightarrow> LCode" where
  "conditionalDerefAddress n Address =
     (let AddressAsInt = (if ir_type Address = NativeInt then Address else IRPtrToInt Address NativeInt);
          One = loadConstantI 1;
          TestPredicate = IRCmp ICMP_EQ (IRBin IRAnd AddressAsInt One) One;
          ConditionalAddress = IRIntToPtr (IRBin IRAnd AddressAsInt (IRNot One)) (VPtr (ir_type Address) 0) in
      ([LCondLoad n TestPredicate ConditionalAddress Address], IROperand n (ir_type Address)))"

subsection \<open>Lookups\<close>

datatype LookupKind = LookupThisObj | LookupMethodParam | LookupClassParam

text \<open>No indirections stand for \<open>CORINFO_USEHELPER\<close>.\<close>

record Lookup =
  lkSignature :: u64
  lkHelper :: nat
  lkIndirections :: "nat option"
  lkTestForNull :: bool
  lkTestForFixup :: bool
  lkOffsets :: "u64 list"

text \<open>The loop over the indirections \<open>I, I + 1, \<dots>\<close>, with the next number of an operand.\<close>

fun indirections :: "nat \<Rightarrow> nat \<Rightarrow> IR \<Rightarrow> u64 list \<Rightarrow> (LStmt list \<times> IR \<times> nat) result" where
  "indirections I n SlotPointer [] = Inr ([], SlotPointer, n)"
| "indirections I n SlotPointer (off # offs) =
     (let (ss, p) = (if I \<noteq> 0 then derefAddress n SlotPointer False False else ([], SlotPointer)) in
      rbind (if off \<noteq> 0 then binaryOp Add p (loadConstantI off) else Inr ([], p)) (\<lambda>(cs, p').
      rbind (indirections (Suc I) (if I \<noteq> 0 then Suc n else n) p' offs) (\<lambda>(ts, r, m).
      Inr (ss @ map LCheck cs @ ts, r, m))))"

text \<open>The instantiation parameter or the method table of \<open>this\<close>; a method without the one it needs is an assertion.\<close>

definition lookup_start :: "nat \<Rightarrow> LookupKind \<Rightarrow> IR option \<Rightarrow> IR option \<Rightarrow> LCode result" where
  "lookup_start n LookKind InstParam ThisObj =
     (if LookKind = LookupMethodParam \<or> LookKind = LookupClassParam
      then (case InstParam of None \<Rightarrow> Inl (AssertFailed ''hasTypeArg'') | Some a \<Rightarrow> Inr ([], a))
      else (case ThisObj of None \<Rightarrow> Inl (AssertFailed ''hasThis'') | Some a \<Rightarrow> Inr (derefAddress n a False True)))"

definition lookup_through :: "nat \<Rightarrow> Lookup \<Rightarrow> nat \<Rightarrow> IR \<Rightarrow> LCode result" where
  "lookup_through n L k VTableNode =
     rbind (rassert ''offsets'' (k \<le> length (lkOffsets L))) (\<lambda>_.
     rbind (indirections 0 n VTableNode (take k (lkOffsets L))) (\<lambda>(ss, SlotPointer, m).
     if \<not> lkTestForNull L
     then if k = 0 then Inr (ss, SlotPointer)
          else let (ds, Handle) = derefAddress m SlotPointer False False in
               if \<not> lkTestForFixup L then Inr (ss @ ds, Handle)
               else let (fs, r) = conditionalDerefAddress (Suc m) Handle in Inr (ss @ ds @ fs, r)
     else rbind (rassert ''indirections != 0'' (k \<noteq> 0)) (\<lambda>_.
          let (ds, Handle) = derefAddress m SlotPointer False False;
              (_, SignatureNode) = handleToIRNode (Suc m) (lkSignature L) False;
              (cs, r) = callRuntimeHandleHelper (Suc m) (lkHelper L) VTableNode SignatureNode (Some Handle) in
          Inr (ss @ ds @ cs, r))))"

definition runtimeLookupToNode :: "nat \<Rightarrow> LookupKind \<Rightarrow> Lookup \<Rightarrow> IR option \<Rightarrow> IR option \<Rightarrow> LCode result" where
  "runtimeLookupToNode n LookKind L InstParam ThisObj =
     rbind (lookup_start n LookKind InstParam ThisObj) (\<lambda>(vs, VTableNode).
     rbind (case lkIndirections L of
          None \<Rightarrow> Inr (callRuntimeHandleHelper (Suc n) (lkHelper L) VTableNode (snd (handleToIRNode (Suc n) (lkSignature L) False)) None)
        | Some k \<Rightarrow> lookup_through (Suc n) L k VTableNode) (\<lambda>(ss, r).
     Inr (vs @ ss, r)))"

subsection \<open>Tokens\<close>

datatype InfoAccessType = IAT_VALUE | IAT_PVALUE | IAT_PPVALUE

datatype HandleType = HandleClass | HandleMethod | HandleField | HandleUnknown

text \<open>The answer of the engine: whether a lookup at run time is needed, and what is known at compile time.\<close>

record GenericHandle =
  ghNeedsRuntimeLookup :: bool
  ghKind :: LookupKind
  ghLookup :: Lookup
  ghType :: HandleType
  ghCompileTimeHandle :: u64
  ghAccessType :: InfoAccessType
  ghHandle :: u64

text \<open>What the engine is told to load before the code runs.\<close>

datatype LoadRequest = ClassMustBeLoaded u64 | MethodMustBeLoaded u64 | FieldClassMustBeLoaded u64

definition restore_requests :: "bool \<Rightarrow> GenericHandle \<Rightarrow> LoadRequest list" where
  "restore_requests MustRestoreHandle R =
     (if MustRestoreHandle \<and> \<not> ghNeedsRuntimeLookup R
      then case ghType R of
        HandleClass \<Rightarrow> [ClassMustBeLoaded (ghCompileTimeHandle R)]
      | HandleMethod \<Rightarrow> [MethodMustBeLoaded (ghCompileTimeHandle R)]
      | HandleField \<Rightarrow> [FieldClassMustBeLoaded (ghCompileTimeHandle R)]
      | HandleUnknown \<Rightarrow> []
      else [])"

text \<open>The code, if there is a result, with the requests and whether a lookup is made, which keeps the generic context of the method alive. The
  compile time handle that the caller may ask for is in the answer of the engine; the token only serves to name the global variable.\<close>

definition genericTokenToNode ::
    "nat \<Rightarrow> bool \<Rightarrow> GenericHandle \<Rightarrow> bool \<Rightarrow> bool \<Rightarrow> IR option \<Rightarrow> IR option \<Rightarrow> (LCode option \<times> LoadRequest list \<times> bool) result" where
  "genericTokenToNode n IsInlined R MustRestoreHandle NeedResult InstParam ThisObj =
     (if ghNeedsRuntimeLookup R \<and> IsInlined then Inl (AssertFailed ''We inlined a runtime generic dictionary lookup!'')
      else if \<not> ghNeedsRuntimeLookup R
      then if NeedResult
           then if ghAccessType R = IAT_VALUE
                then rbind (rassert ''handle != nullptr'' (ghHandle R \<noteq> 0)) (\<lambda>_.
                     Inr (Some (handleToIRNode n (ghHandle R) False), restore_requests MustRestoreHandle R, False))
                else rbind (rassert ''accessType == IAT_PVALUE'' (ghAccessType R = IAT_PVALUE)) (\<lambda>_.
                     Inr (Some (handleToIRNode n (ghHandle R) True), restore_requests MustRestoreHandle R, False))
           else Inr (None, restore_requests MustRestoreHandle R, False)
      else rbind (runtimeLookupToNode n (ghKind R) (ghLookup R) InstParam ThisObj) (\<lambda>c. Inr (Some c, [], True)))"

subsection \<open>Meaning\<close>

text \<open>The memory holds words; a helper is a function of its arguments.\<close>

fun run_lookup :: "(int \<Rightarrow> int option) \<Rightarrow> (nat \<Rightarrow> int \<Rightarrow> int \<Rightarrow> int) \<Rightarrow> (nat \<Rightarrow> int) \<Rightarrow> LStmt list \<Rightarrow> ((nat \<Rightarrow> int) \<Rightarrow> outcome) \<Rightarrow> outcome" where
  "run_lookup M H env [] k = k env"
| "run_lookup M H env (LLoad n a # ss) k =
     (case Option.bind (eval env a) M of None \<Rightarrow> Undefined | Some v \<Rightarrow> run_lookup M H (env(n := v)) ss k)"
| "run_lookup M H env (LCheck c # ss) k =
     (case eval env (fst c) of None \<Rightarrow> Undefined | Some v \<Rightarrow> if v = 0 then run_lookup M H env ss k else Throws (snd c))"
| "run_lookup M H env (LHelper n f a b # ss) k =
     (case (eval env a, eval env b) of (Some x, Some y) \<Rightarrow> run_lookup M H (env(n := H f x y)) ss k | _ \<Rightarrow> Undefined)"
| "run_lookup M H env (LCondLoad n c a b # ss) k =
     (case eval env c of None \<Rightarrow> Undefined
      | Some v \<Rightarrow> (case (if v \<noteq> 0 then Option.bind (eval env a) M else eval env b) of None \<Rightarrow> Undefined | Some x \<Rightarrow> run_lookup M H (env(n := x)) ss k))"
| "run_lookup M H env (LCondHelper n c f a b d # ss) k =
     (case (eval env c, eval env a, eval env b, eval env d) of
        (Some v, Some x, Some y, Some z) \<Rightarrow> run_lookup M H (env(n := (if v \<noteq> 0 then H f x y else z))) ss k
      | _ \<Rightarrow> Undefined)"

definition run_lcode :: "(int \<Rightarrow> int option) \<Rightarrow> (nat \<Rightarrow> int \<Rightarrow> int \<Rightarrow> int) \<Rightarrow> (nat \<Rightarrow> int) \<Rightarrow> LCode \<Rightarrow> outcome" where
  "run_lcode M H env c = run_lookup M H env (fst c) (\<lambda>env. case eval env (snd c) of None \<Rightarrow> Undefined | Some v \<Rightarrow> Returns v)"

subsection \<open>Specification\<close>

text \<open>A path through the dictionary: at each step the word at an offset.\<close>

fun follow :: "(int \<Rightarrow> int option) \<Rightarrow> int \<Rightarrow> int list \<Rightarrow> int option" where
  "follow M p [] = Some p"
| "follow M p (off # offs) = Option.bind (M (take_bit 64 (p + off))) (\<lambda>q. follow M q offs)"

text \<open>The handle that a lookup finds: by the helper; by the helper where the entry is still null; through one more word where the entry is
  a fixup, which has its lowest bit set; or the entry itself.\<close>

definition found :: "(int \<Rightarrow> int option) \<Rightarrow> (nat \<Rightarrow> int \<Rightarrow> int \<Rightarrow> int) \<Rightarrow> Lookup \<Rightarrow> int \<Rightarrow> int option" where
  "found M H L context =
     (case lkIndirections L of
        None \<Rightarrow> Some (H (lkHelper L) context (uint (lkSignature L)))
      | Some k \<Rightarrow>
          Option.bind (follow M context (map uint (take k (lkOffsets L)))) (\<lambda>h.
          if lkTestForNull L then Some (if h = 0 then H (lkHelper L) context (uint (lkSignature L)) else h)
          else if lkTestForFixup L \<and> k \<noteq> 0 \<and> odd h then M (h - 1)
          else Some h))"

subsection \<open>Lemmas\<close>

lemma run_lookup_append: "run_lookup M H env (ss @ ts) k = run_lookup M H env ss (\<lambda>env. run_lookup M H env ts k)"
proof (induction ss arbitrary: env)
  case (Cons s ss)
  then show ?case by (cases s) (auto split: option.splits simp del: fun_upd_apply)
qed simp

text \<open>An operand of 64 bits that is defined before the number \<open>n\<close>.\<close>

definition word_operand :: "(nat \<Rightarrow> int) \<Rightarrow> nat \<Rightarrow> IR \<Rightarrow> int \<Rightarrow> bool" where
  "word_operand env n a x \<longleftrightarrow> has_value env a 64 x \<and> ir_operands a \<subseteq> {..<n}"

lemma word_operand_later: "word_operand env n a x \<Longrightarrow> word_operand (env(n := v)) (Suc n) a x"
  using has_value_below[of env a 64 x n "env(n := v)"] unfolding word_operand_def by (auto simp del: fun_upd_apply intro: less_SucI) auto

lemma NativeInt_eq: "NativeInt = VInt 64"
  by (simp add: NativeInt_def TargetPointerSizeInBits_def)

lemma loaded_operand: "in_unsigned 64 v \<Longrightarrow> word_operand (env(n := v)) (Suc n) (IROperand n NativeInt) v"
  by (simp add: word_operand_def has_value_def NativeInt_eq in_unsigned_def take_bit_int_eq_self)

lemma deref_word:
  assumes "word_operand env n a x" "M x = Some v"
  shows "snd (derefAddress n a False False) = IROperand n NativeInt"
    "run_lookup M H env (fst (derefAddress n a False False) @ ss) k = run_lookup M H (env(n := v)) ss k"
  using assms has_valueD(1,2,5)[of env a 64 x]
  by (simp_all add: derefAddress_def Let_def word_operand_def NativeInt_eq TargetPointerSizeInBits_def)

lemma add_offset:
  assumes "word_operand env n p x"
  shows "\<exists>q. binaryOp Add p (loadConstantI off) = Inr ([], q) \<and> word_operand env n q (take_bit 64 (x + uint off))"
proof -
  have t: "ir_type p = VInt 64" "eval env p = Some x" using assms by (auto simp: word_operand_def has_value_def)
  have "binaryOp Add p (loadConstantI off) = Inr ([], IRBin IRAdd p (loadConstantI off))"
    using t by (simp add: binaryOp_def binaryOpType_int loadConstantI_def TargetPointerSizeInBits_def pointer_shortcut_def convert_operand_def arithmetic_def divides_def is_unsigned_triple_def)
  then show ?thesis using assms t
    by (auto simp: word_operand_def has_value_def loadConstantI_def TargetPointerSizeInBits_def take_bit_eq_mod mod_simps in_unsigned_def)
qed

text \<open>Where the next word of the path is found: at the slot itself before the first indirection, and else behind the slot.\<close>

lemma indirections_follow:
  assumes M: "\<forall>p v. M p = Some v \<longrightarrow> in_unsigned 64 v"
  shows "word_operand env n slot s \<Longrightarrow> (if I = 0 then s = p else M s = Some p) \<Longrightarrow> follow M p (map uint offs) = Some h \<Longrightarrow> offs \<noteq> [] \<Longrightarrow>
    \<exists>ss slot' m. indirections I n slot offs = Inr (ss, slot', m) \<and> n \<le> m \<and>
      (\<forall>k. \<exists>env' s'. (\<forall>ts. run_lookup M H env (ss @ ts) k = run_lookup M H env' ts k) \<and> (\<forall>j < n. env' j = env j) \<and> word_operand env' m slot' s' \<and> M s' = Some h)"
proof (induction offs arbitrary: I n slot s p env)
  case (Cons off offs)
  obtain q where q: "M (take_bit 64 (p + uint off)) = Some q" "follow M q (map uint offs) = Some h"
    using Cons.prems(3) by (auto simp: Option.bind_eq_Some_conv)
  define d where "d = (if I \<noteq> 0 then derefAddress n slot False False else ([], slot))"
  define n1 where "n1 = (if I \<noteq> 0 then Suc n else n)"
  define env1 where "env1 = (if I \<noteq> 0 then env(n := p) else env)"
  have d1: "run_lookup M H env (fst d @ ts) k = run_lookup M H env1 ts k" "word_operand env1 n1 (snd d) p" for ts k
    using Cons.prems(1,2) M deref_word[of env n slot s M p] loaded_operand[of p env n]
    by (auto simp: d_def n1_def env1_def split: if_splits)
  have below: "\<forall>j < n. env1 j = env j" "n \<le> n1" by (auto simp: env1_def n1_def)
  have "p = take_bit 64 (p + uint off)" if "off = 0"
    using d1(2) that by (simp add: word_operand_def has_value_def in_unsigned_def take_bit_int_eq_self)
  then obtain p' where p': "(if off \<noteq> 0 then binaryOp Add (snd d) (loadConstantI off) else Inr ([], snd d)) = Inr ([], p')"
    "word_operand env1 n1 p' (take_bit 64 (p + uint off))"
    using add_offset[OF d1(2), of off] d1(2) by (cases "off = 0") auto
  show ?case
  proof (cases "offs = []")
    case True
    then have "indirections I n slot (off # offs) = Inr (fst d, p', n1)"
      using p'(1) by (auto simp: d_def n1_def split: if_splits prod.splits)
    then show ?thesis using True q d1(1) below p'(2) by auto
  next
    case False
    from Cons.IH[OF p'(2), of "Suc I" q] q False obtain ss slot' m where IH: "indirections (Suc I) n1 p' offs = Inr (ss, slot', m)" "n1 \<le> m"
      "\<And>k. \<exists>env' s'. (\<forall>ts. run_lookup M H env1 (ss @ ts) k = run_lookup M H env' ts k) \<and> (\<forall>j < n1. env' j = env1 j) \<and> word_operand env' m slot' s' \<and> M s' = Some h"
      by auto
    have "indirections I n slot (off # offs) = Inr (fst d @ ss, slot', m)"
      using p'(1) IH(1) by (auto simp: d_def n1_def split: if_splits prod.splits)
    moreover have "\<exists>env' s'. (\<forall>ts. run_lookup M H env ((fst d @ ss) @ ts) k = run_lookup M H env' ts k) \<and> (\<forall>j < n. env' j = env j) \<and> word_operand env' m slot' s' \<and> M s' = Some h" for k
    proof -
      from IH(3)[of k] obtain env' s' where e: "\<forall>ts. run_lookup M H env1 (ss @ ts) k = run_lookup M H env' ts k" "\<forall>j < n1. env' j = env1 j" "word_operand env' m slot' s'" "M s' = Some h"
        by blast
      have "\<forall>j < n. env' j = env j" using e(2) below by auto
      then show ?thesis using e(1,3,4) d1(1) by (intro exI[of _ env'] exI[of _ s']) simp
    qed
    ultimately show ?thesis using IH(2) below(2) by (intro exI[of _ "fst d @ ss"] exI[of _ slot'] exI[of _ m]) simp
  qed
qed simp

text \<open>The entry of the dictionary, behind the first indirection.\<close>

lemma entry_loaded:
  assumes M: "\<forall>p v. M p = Some v \<longrightarrow> in_unsigned 64 v" and v: "word_operand env n vt c" and h: "follow M c (map uint offs) = Some h" "offs \<noteq> []"
  shows "\<exists>ss slot m. indirections 0 n vt offs = Inr (ss, slot, m) \<and> snd (derefAddress m slot False False) = IROperand m NativeInt \<and>
    (\<forall>k. \<exists>env'. (\<forall>ts. run_lookup M H env (ss @ fst (derefAddress m slot False False) @ ts) k = run_lookup M H env' ts k) \<and>
       word_operand env' (Suc m) (IROperand m NativeInt) h \<and> word_operand env' (Suc m) vt c)"
proof -
  from indirections_follow[OF M v _ h(1,2), where I = 0 and H = H] obtain ss slot m where i: "indirections 0 n vt offs = Inr (ss, slot, m)" "n \<le> m"
    "\<And>k. \<exists>env' s'. (\<forall>ts. run_lookup M H env (ss @ ts) k = run_lookup M H env' ts k) \<and> (\<forall>j < n. env' j = env j) \<and> word_operand env' m slot s' \<and> M s' = Some h"
    by auto
  have "\<exists>env'. (\<forall>ts. run_lookup M H env (ss @ fst (derefAddress m slot False False) @ ts) k = run_lookup M H env' ts k) \<and>
       word_operand env' (Suc m) (IROperand m NativeInt) h \<and> word_operand env' (Suc m) vt c" for k
  proof -
    from i(3)[of k] obtain env' s' where e: "\<forall>ts. run_lookup M H env (ss @ ts) k = run_lookup M H env' ts k" "\<forall>j < n. env' j = env j"
      "word_operand env' m slot s'" "M s' = Some h" by blast
    have "has_value env' vt 64 c" "ir_operands vt \<subseteq> {..<m}"
      using v has_value_below[of env vt 64 c n env'] e(2) i(2) unfolding word_operand_def by auto
    then have "word_operand (env'(m := h)) (Suc m) vt c" by (intro word_operand_later) (simp add: word_operand_def)
    then show ?thesis using e(1) deref_word(2)[of env' m slot s' M h, OF e(3,4)] loaded_operand[OF M[rule_format, OF e(4)], of env' m] by (intro exI[of _ "env'(m := h)"]) simp
  qed
  moreover have "snd (derefAddress m slot False False) = IROperand m NativeInt" by (simp add: derefAddress_def Let_def)
  ultimately show ?thesis using i(1) by blast
qed

lemma fixup_followed:
  assumes "word_operand env m a h" "ir_type a = NativeInt" "odd h \<Longrightarrow> M (h - 1) = Some r" "even h \<Longrightarrow> r = h" "in_unsigned 64 r"
  shows "run_lcode M H env (conditionalDerefAddress n a) = Returns r"
proof -
  have a: "eval env a = Some h" "0 \<le> h" "h < 2 ^ 64" using assms(1) by (auto simp: word_operand_def has_value_def in_unsigned_def)
  have one: "eval env (IRCmp ICMP_EQ (IRBin IRAnd a (loadConstantI 1)) (loadConstantI 1)) = Some (of_bool (odd h))"
    using a assms(2) by (simp add: loadConstantI_def TargetPointerSizeInBits_def NativeInt_eq and_one_eq odd_iff_mod_2_eq_one)
  have "h AND take_bit 64 (NOT 1) = h AND NOT 1"
  proof -
    have "h AND take_bit 64 (NOT 1) = take_bit 64 h AND take_bit 64 (NOT 1)" using a by (simp add: take_bit_int_eq_self)
    also have "\<dots> = take_bit 64 (h AND NOT 1)" by (simp add: take_bit_and)
    also have "\<dots> = h AND NOT 1" using a by (intro take_bit_int_eq_self) (auto simp: AND_upper1 intro: order_le_less_trans[OF AND_upper1])
    finally show ?thesis .
  qed
  moreover have "h AND NOT 1 = h - 1" if "odd h" using that unset_bit_0[of h] by (simp add: unset_bit_eq_and_not) presburger
  moreover have "take_bit 64 (h - 1) = h - 1" if "odd h" using a that by (intro take_bit_int_eq_self) (cases "h = 0"; auto)+
  ultimately have "odd h \<Longrightarrow> eval env (IRIntToPtr (IRBin IRAnd a (IRNot (loadConstantI 1))) t) = Some (h - 1)" for t
    using a assms(2) by (simp add: loadConstantI_def TargetPointerSizeInBits_def NativeInt_eq take_bit_int_eq_self)
  then show ?thesis using one a assms(2-5)
    by (cases "odd h") (auto simp: conditionalDerefAddress_def run_lcode_def Let_def NativeInt_eq in_unsigned_def take_bit_int_eq_self)
qed

lemma null_entry:
  assumes "word_operand env m a h" "word_operand env m vt c" "ir_type a = NativeInt" "\<not> isConstantNull a" "\<And>f x y. in_unsigned 64 (H f x y)"
  shows "run_lcode M H env (callRuntimeHandleHelper n f vt (snd (handleToIRNode n sig False)) (Some a)) = Returns (if h = 0 then H f c (uint sig) else h)"
proof -
  have v: "eval env a = Some h" "eval env vt = Some c" "take_bit 64 h = h" using assms(1,2) by (auto simp: word_operand_def has_valueD)
  have "take_bit 64 (uint sig) = uint sig" "take_bit 64 (H f c (uint sig)) = H f c (uint sig)"
    using assms(5) unsigned_less[of sig, where ?'a = int] by (simp_all add: in_unsigned_def take_bit_int_eq_self)
  then show ?thesis using v assms(3,4) by (auto simp: callRuntimeHandleHelper_def handleToIRNode_def run_lcode_def NativeInt_eq Let_def)
qed

lemma lookup_through_found:
  assumes M: "\<forall>p v. M p = Some v \<longrightarrow> in_unsigned 64 v" and H: "\<And>f x y. in_unsigned 64 (H f x y)" and vt: "word_operand env n vt c"
    and L: "lkIndirections L = Some k" "k \<le> length (lkOffsets L)" "lkTestForNull L \<longrightarrow> k \<noteq> 0" and r: "found M H L c = Some r"
  shows "\<exists>code. lookup_through n L k vt = Inr code \<and> run_lcode M H env code = Returns r"
proof -
  obtain h where h: "follow M c (map uint (take k (lkOffsets L))) = Some h" "(if lkTestForNull L then Some (if h = 0 then H (lkHelper L) c (uint (lkSignature L)) else h)
      else if lkTestForFixup L \<and> k \<noteq> 0 \<and> odd h then M (h - 1) else Some h) = Some r"
    using r L(1) by (auto simp: found_def Option.bind_eq_Some_conv)
  show ?thesis
  proof (cases "k = 0")
    case True
    then show ?thesis using L h vt by (auto simp: lookup_through_def run_lcode_def word_operand_def has_valueD)
  next
    case False
    then have "take k (lkOffsets L) \<noteq> []" using L(2) by auto
    from entry_loaded[OF M vt h(1) this, of H] obtain ss slot m where e: "indirections 0 n vt (take k (lkOffsets L)) = Inr (ss, slot, m)"
      "snd (derefAddress m slot False False) = IROperand m NativeInt"
      "\<And>k. \<exists>env'. (\<forall>ts. run_lookup M H env (ss @ fst (derefAddress m slot False False) @ ts) k = run_lookup M H env' ts k) \<and>
         word_operand env' (Suc m) (IROperand m NativeInt) h \<and> word_operand env' (Suc m) vt c" by blast
    let ?d = "ss @ fst (derefAddress m slot False False)" and ?h = "IROperand m NativeInt"
    have step: "run_lcode M H env (?d @ fst c', snd c') = Returns r"
      if "\<And>env'. word_operand env' (Suc m) ?h h \<Longrightarrow> word_operand env' (Suc m) vt c \<Longrightarrow> run_lcode M H env' c' = Returns r" for c'
      using e(3)[of "\<lambda>env. case eval env (snd c') of None \<Rightarrow> Undefined | Some v \<Rightarrow> Returns v"] that by (auto simp: run_lcode_def)
    show ?thesis
    proof (cases "lkTestForNull L")
      case True
      let ?c = "callRuntimeHandleHelper (Suc m) (lkHelper L) vt (snd (handleToIRNode (Suc m) (lkSignature L) False)) (Some ?h)"
      have "lookup_through n L k vt = Inr (?d @ fst ?c, snd ?c)" using True e(1,2) L(2) False by (simp add: lookup_through_def case_prod_beta Let_def)
      moreover have "run_lcode M H env (?d @ fst ?c, snd ?c) = Returns r"
        using h(2) True by (intro step) (simp add: null_entry[OF _ _ _ _ H] isConstantNull_def)
      ultimately show ?thesis by blast
    next
      case nt: False
      show ?thesis
      proof (cases "lkTestForFixup L")
        case True
        let ?c = "conditionalDerefAddress (Suc m) ?h"
        have "lookup_through n L k vt = Inr (?d @ fst ?c, snd ?c)" using True nt e(1,2) L(2) False by (simp add: lookup_through_def case_prod_beta Let_def)
        moreover have "run_lcode M H env (?d @ fst ?c, snd ?c) = Returns r"
          using h(2) True nt False M by (intro step fixup_followed[where h = h]) (auto simp: word_operand_def has_value_def split: if_splits)
        ultimately show ?thesis by blast
      next
        case nf: False
        have "lookup_through n L k vt = Inr (?d @ [], ?h)" using nf nt e(1,2) L(2) False by (simp add: lookup_through_def case_prod_beta Let_def)
        moreover have "run_lcode M H env (?d @ fst ([] :: LStmt list, ?h), snd ([] :: LStmt list, ?h)) = Returns r"
          using h(2) nt nf by (intro step) (simp add: run_lcode_def word_operand_def has_valueD(2) del: eval.simps)
        ultimately show ?thesis by auto
      qed
    qed
  qed
qed

lemma deref_this:
  assumes "eval env a = Some T" "is_pointer_type (ir_type a)" "T \<noteq> 0 \<longrightarrow> M T = Some c"
  shows "snd (derefAddress n a False True) = IROperand n NativeInt"
    "run_lookup M H env (fst (derefAddress n a False True) @ ss) k = (if T = 0 then Throws ''CORINFO_HELP_THROWNULLREF'' else run_lookup M H (env(n := c)) ss k)"
proof -
  obtain t s where t: "ir_type a = VPtr t s" using assms(2) by (cases "ir_type a") (auto simp: is_pointer_type_def)
  show "snd (derefAddress n a False True) = IROperand n NativeInt" by (simp add: derefAddress_def Let_def)
  show "run_lookup M H env (fst (derefAddress n a False True) @ ss) k = (if T = 0 then Throws ''CORINFO_HELP_THROWNULLREF'' else run_lookup M H (env(n := c)) ss k)"
    using assms t by (auto simp: derefAddress_def Let_def genNullCheck_def genConditionalThrow_def is_pointer_type_def)
qed

text \<open>The handle from the context, whichever the code path.\<close>

lemma lookup_found:
  assumes M: "\<forall>p v. M p = Some v \<longrightarrow> in_unsigned 64 v" and H: "\<And>f x y. in_unsigned 64 (H f x y)" and vt: "word_operand env n vt c"
    and L: "\<forall>k. lkIndirections L = Some k \<longrightarrow> k \<le> length (lkOffsets L) \<and> (lkTestForNull L \<longrightarrow> k \<noteq> 0)" and r: "found M H L c = Some r"
  shows "\<exists>code. (case lkIndirections L of
       None \<Rightarrow> Inr (callRuntimeHandleHelper n (lkHelper L) vt (snd (handleToIRNode n (lkSignature L) False)) None)
     | Some k \<Rightarrow> lookup_through n L k vt) = Inr code \<and> run_lcode M H env code = Returns r"
proof (cases "lkIndirections L")
  case None
  have "take_bit 64 (uint (lkSignature L)) = uint (lkSignature L)" "take_bit 64 (H f x y) = H f x y" for f x y
    using H unsigned_less[of "lkSignature L", where ?'a = int] by (simp_all add: in_unsigned_def take_bit_int_eq_self)
  then show ?thesis using None r vt
    by (auto simp: found_def callRuntimeHandleHelper_def handleToIRNode_def run_lcode_def Let_def NativeInt_eq word_operand_def has_valueD(2))
next
  case (Some k)
  then show ?thesis using lookup_through_found[OF M H vt Some _ _ r] L by auto
qed

text \<open>C23: a token in shared generic code: the code that is made for it computes the handle that the dictionary holds, through the helper
  where the runtime asks for it or where the entry is still null, and through the fixup where the entry is one; it throws where it needs
  the method table of a null \<open>this\<close>. No assertion fails, and the generic context is kept alive.\<close>

theorem generic_handle_found:
  assumes "\<forall>p v. M p = Some v \<longrightarrow> in_unsigned 64 v" "\<forall>f x y. in_unsigned 64 (H f x y)" "in_unsigned 64 c"
    "ghNeedsRuntimeLookup R" "\<forall>k. lkIndirections (ghLookup R) = Some k \<longrightarrow> k \<le> length (lkOffsets (ghLookup R)) \<and> (lkTestForNull (ghLookup R) \<longrightarrow> k \<noteq> 0)"
    "if ghKind R = LookupThisObj
     then ThisObj = Some a \<and> eval env a = Some T \<and> is_pointer_type (ir_type a) \<and> (T \<noteq> 0 \<longrightarrow> M T = Some c)
     else InstParam = Some a \<and> word_operand env n a c"
    "found M H (ghLookup R) c = Some r"
  shows "\<exists>code. genericTokenToNode n False R MustRestoreHandle NeedResult InstParam ThisObj = Inr (Some code, [], True) \<and>
    run_lcode M H env code = (if ghKind R = LookupThisObj \<and> T = 0 then Throws ''CORINFO_HELP_THROWNULLREF'' else Returns r)"
proof (cases "ghKind R = LookupThisObj")
  case True
  then have t: "ThisObj = Some a" "eval env a = Some T" "is_pointer_type (ir_type a)" "T \<noteq> 0 \<longrightarrow> M T = Some c" using assms(6) by auto
  let ?d = "derefAddress n a False True"
  obtain code where code: "(case lkIndirections (ghLookup R) of
       None \<Rightarrow> Inr (callRuntimeHandleHelper (Suc n) (lkHelper (ghLookup R)) (IROperand n NativeInt) (snd (handleToIRNode (Suc n) (lkSignature (ghLookup R)) False)) None)
     | Some k \<Rightarrow> lookup_through (Suc n) (ghLookup R) k (IROperand n NativeInt)) = Inr code" "run_lcode M H (env(n := c)) code = Returns r"
    using lookup_found[OF assms(1) _ loaded_operand[OF assms(3)] assms(5,7)] assms(2) by blast
  have "genericTokenToNode n False R MustRestoreHandle NeedResult InstParam ThisObj = Inr (Some (fst ?d @ fst code, snd code), [], True)"
    using True t(1) assms(4) code(1) deref_this(1)[of env a T M c n, OF t(2-4)]
    by (simp add: genericTokenToNode_def runtimeLookupToNode_def lookup_start_def case_prod_beta)
  moreover have "run_lcode M H env (fst ?d @ fst code, snd code) = (if T = 0 then Throws ''CORINFO_HELP_THROWNULLREF'' else Returns r)"
    using deref_this(2)[of env a T M c, OF t(2-4)] code(2) by (simp add: run_lcode_def)
  ultimately show ?thesis using True by auto
next
  case False
  then have i: "InstParam = Some a" "word_operand (env(n := env n)) (Suc n) a c" using assms(6) word_operand_later[of env n a c "env n"] by auto
  obtain code where code: "(case lkIndirections (ghLookup R) of
       None \<Rightarrow> Inr (callRuntimeHandleHelper (Suc n) (lkHelper (ghLookup R)) a (snd (handleToIRNode (Suc n) (lkSignature (ghLookup R)) False)) None)
     | Some k \<Rightarrow> lookup_through (Suc n) (ghLookup R) k a) = Inr code" "run_lcode M H env code = Returns r"
    using lookup_found[OF assms(1) _ i(2) assms(5,7)] assms(2) by auto
  have "genericTokenToNode n False R MustRestoreHandle NeedResult InstParam ThisObj = Inr (Some code, [], True)"
    using False i(1) assms(4) code(1) by (cases "ghKind R") (simp_all add: genericTokenToNode_def runtimeLookupToNode_def lookup_start_def case_prod_beta)
  then show ?thesis using False code(2) by auto
qed

text \<open>A dictionary two steps behind the method table of \<open>this\<close>, with a fixup in it.\<close>

definition sample_lookup :: GenericHandle where
  "sample_lookup = \<lparr>ghNeedsRuntimeLookup = True, ghKind = LookupThisObj,
     ghLookup = \<lparr>lkSignature = 5, lkHelper = 9, lkIndirections = Some 2, lkTestForNull = False, lkTestForFixup = True, lkOffsets = [16, 8]\<rparr>,
     ghType = HandleClass, ghCompileTimeHandle = 0, ghAccessType = IAT_VALUE, ghHandle = 0\<rparr>"

theorem generic_handle_found_witness:
  "\<exists>code. genericTokenToNode 1 False sample_lookup True True None (Some (IROperand 0 (VPtr (VInt 8) 1))) = Inr (Some code, [], True) \<and>
    run_lcode (\<lambda>p. if p = 1000 then Some 2000 else if p = 2016 then Some 3000 else if p = 3008 then Some 4001 else if p = 4000 then Some 77 else None)
      (\<lambda>_ _ _. 0) (\<lambda>_. 1000) code = Returns 77"
proof -
  let ?M = "\<lambda>p :: int. if p = 1000 then Some 2000 else if p = 2016 then Some 3000 else if p = 3008 then Some 4001 else if p = 4000 then Some 77 else (None :: int option)"
  have M: "\<forall>p v. ?M p = Some v \<longrightarrow> in_unsigned 64 v" by (auto simp: in_unsigned_def)
  have H: "\<forall>f x y. in_unsigned 64 ((\<lambda>_ _ _. 0) (f :: nat) (x :: int) (y :: int))" "in_unsigned 64 (2000 :: int)" by (simp_all add: in_unsigned_def)
  have F: "found ?M (\<lambda>_ _ _. 0) (ghLookup sample_lookup) 2000 = Some 77" by (simp add: found_def sample_lookup_def take_bit_int_eq_self)
  show ?thesis
    using generic_handle_found[OF M H, of sample_lookup "Some (IROperand 0 (VPtr (VInt 8) 1))" "IROperand 0 (VPtr (VInt 8) 1)" "\<lambda>_. 1000" 1000 None 1 77 True True] F
    by (simp add: sample_lookup_def is_pointer_type_def width_def TargetPointerSizeInBits_def take_bit_int_eq_self)
qed

end
