(* ===== verification/CoreDisTools.thy ===== *)
theory CoreDisTools
  imports Prelude
begin

unbundle bit_operations_syntax

section \<open>The disassembly tools\<close>

text \<open>
  lib/CoreDisTools/coredistools.cpp: the iteration over the instructions of a block of code, the disassembly of an
  instruction with its prefixes, the dump of a block, and \<open>nearDiff\<close>, which compares two blocks instruction by
  instruction. The decoder of LLVM is an argument: from the bytes that are left and their address it gives an
  instruction and its length, or nothing. What is printed is a list of messages.
\<close>

subsection \<open>Data\<close>

datatype MCOperand = RegOp nat | ImmOp u64 | FPImmOp u64 | ExprOp | InstOp | InvalidOp

record MCInst =
  getOpcode :: nat
  operands :: "MCOperand list"

datatype TargetArch = Target_Thumb | Target_Arm64 | Target_X86 | Target_X64

type_synonym Decoder = "u8 list \<Rightarrow> u64 \<Rightarrow> (MCInst \<times> nat) option"

text \<open>
  The messages: a failure to decode, with the address; a dumped instruction, with its address, its bytes, the columns
  of padding and the instruction; what the comparison logs; and the lines around a dump.
\<close>

datatype Message =
    DecodeFailure u64
  | Dumped u64 "u8 list" nat MCInst
  | Logged string u64 u64
  | Separator
  | BlockHeader nat u64

text \<open>A code point: the bytes that are left of the block, the decoded instruction and its length, which is 0 before it is decoded.\<close>

record BlockIterator =
  Bytes :: "u8 list"
  Addr :: u64
  Inst :: MCInst
  InstrSize :: nat
  BlockStartAddr :: u64

definition no_inst :: MCInst where
  "no_inst = \<lparr>getOpcode = 0, operands = []\<rparr>"

definition BlockIterator_new :: "u8 list \<Rightarrow> u64 \<Rightarrow> BlockIterator" where
  "BlockIterator_new bs a = \<lparr>Bytes = bs, Addr = a, Inst = no_inst, InstrSize = 0, BlockStartAddr = a\<rparr>"

definition BlockInfo_isEmpty :: "BlockIterator \<Rightarrow> bool" where
  "BlockInfo_isEmpty it \<longleftrightarrow> length (Bytes it) = 0"

definition isDecoded :: "BlockIterator \<Rightarrow> bool" where
  "isDecoded it \<longleftrightarrow> InstrSize it \<noteq> 0"

definition advance :: "BlockIterator \<Rightarrow> BlockIterator result" where
  "advance it =
     rbind (rassert ''Cannot advance before Decode'' (isDecoded it)) (\<lambda>_.
     rbind (rassert ''Overflow'' (InstrSize it \<le> length (Bytes it))) (\<lambda>_.
     Inr (it\<lparr>Bytes := drop (InstrSize it) (Bytes it), Addr := Addr it + of_nat (InstrSize it), InstrSize := 0\<rparr>)))"

definition BlockOffset :: "BlockIterator \<Rightarrow> u64" where
  "BlockOffset it = Addr it - BlockStartAddr it"

definition isBitwiseEqual :: "BlockIterator \<Rightarrow> BlockIterator \<Rightarrow> bool" where
  "isBitwiseEqual l r \<longleftrightarrow> take (InstrSize l) (Bytes l) = take (InstrSize l) (Bytes r)"

subsection \<open>Disassembly\<close>

definition X86Prefix :: "u8 list" where
  "X86Prefix = [0xF0, 0xF2, 0xF3, 0x66, 0x2E, 0x3E, 0x26, 0x64, 0x65, 0x36, 0x67, 0x48, 0x49, 0x4A, 0x4B, 0x4C, 0x4D, 0x4E, 0x4F]"

text \<open>A decoding that fails leaves the code point not decoded.\<close>

definition decodeInstruction :: "Decoder \<Rightarrow> bool \<Rightarrow> BlockIterator \<Rightarrow> (bool \<times> BlockIterator \<times> Message list) result" where
  "decodeInstruction D MayFail it =
     (case D (Bytes it) (Addr it) of
        None \<Rightarrow> Inr (False, it\<lparr>InstrSize := 0\<rparr>, if \<not> MayFail then [DecodeFailure (Addr it)] else [])
      | Some (i, n) \<Rightarrow>
          rbind (rassert ''Invalid Decode'' (n \<le> length (Bytes it))) (\<lambda>_.
          rbind (rassert ''Zero Length Decode'' (n > 0)) (\<lambda>_.
          Inr (True, it\<lparr>Inst := i, InstrSize := n\<rparr>, []))))"

definition dumpInstruction :: "TargetArch \<Rightarrow> BlockIterator \<Rightarrow> Message result" where
  "dumpInstruction arch it =
     rbind (rassert ''Cannot print before Decode'' (isDecoded it)) (\<lambda>_.
     rbind (if arch = Target_X86 \<or> arch = Target_X64
            then array_get ''Padding'' [0, 3, 6, 9, 12, 15, 18] (if InstrSize it < 7 then 7 - InstrSize it else 0)
            else Inr 0) (\<lambda>pad.
     Inr (Dumped (Addr it) (take (InstrSize it) (Bytes it)) pad (Inst it))))"

definition dump_if :: "TargetArch \<Rightarrow> bool \<Rightarrow> BlockIterator \<Rightarrow> Message list result" where
  "dump_if arch DumpAsm it = (if DumpAsm then rbind (dumpInstruction arch it) (\<lambda>m. Inr [m]) else Inr [])"

definition is_prefix :: "TargetArch \<Rightarrow> BlockIterator \<Rightarrow> bool" where
  "is_prefix arch it \<longleftrightarrow> (arch = Target_X86 \<or> arch = Target_X64) \<and> InstrSize it = 1 \<and> hd (Bytes it) \<in> set X86Prefix"

lemma decode_True:
  "decodeInstruction D b it = Inr (True, it', ms) \<longleftrightarrow>
     (\<exists>i n. D (Bytes it) (Addr it) = Some (i, n) \<and> 0 < n \<and> n \<le> length (Bytes it) \<and> it' = it\<lparr>Inst := i, InstrSize := n\<rparr> \<and> ms = [])"
  by (auto simp: decodeInstruction_def rbind_eq_Inr_iff split: option.splits)

lemma advance_eq: "advance it = Inr it' \<longleftrightarrow> 0 < InstrSize it \<and> InstrSize it \<le> length (Bytes it) \<and>
    it' = it\<lparr>Bytes := drop (InstrSize it) (Bytes it), Addr := Addr it + of_nat (InstrSize it), InstrSize := 0\<rparr>"
  by (auto simp: advance_def isDecoded_def rbind_eq_Inr_iff)

function disasm_loop :: "Decoder \<Rightarrow> TargetArch \<Rightarrow> bool \<Rightarrow> BlockIterator \<Rightarrow> nat \<Rightarrow> Message list \<Rightarrow> (nat \<times> BlockIterator \<times> Message list) result" where
  "disasm_loop D arch DumpAsm it TotalSize out =
     (case decodeInstruction D False it of
        Inl e \<Rightarrow> Inl e
      | Inr (ok, it, ms) \<Rightarrow>
          if \<not> ok then Inr (0, it, out @ ms)
          else (case dump_if arch DumpAsm it of
              Inl e \<Rightarrow> Inl e
            | Inr ds \<Rightarrow>
                if is_prefix arch it
                then (case advance it of
                    Inl e \<Rightarrow> Inl e
                  | Inr it' \<Rightarrow> disasm_loop D arch DumpAsm it' (TotalSize + InstrSize it) (out @ ms @ ds))
                else Inr (TotalSize + InstrSize it, it, out @ ms @ ds)))"
  by pat_completeness auto
termination
  by (relation "measure (\<lambda>(D, arch, d, it, t, out). length (Bytes it))") (auto simp: decode_True advance_eq)

declare disasm_loop.simps [simp del]

definition disasmInstruction :: "Decoder \<Rightarrow> TargetArch \<Rightarrow> bool \<Rightarrow> BlockIterator \<Rightarrow> (nat \<times> BlockIterator \<times> Message list) result" where
  "disasmInstruction D arch DumpAsm it = disasm_loop D arch DumpAsm it 0 []"

text \<open>The exported function: the length of the instruction with its prefixes, 0 where it cannot be decoded.\<close>

definition DisasmInstruction :: "Decoder \<Rightarrow> TargetArch \<Rightarrow> u64 \<Rightarrow> u8 list \<Rightarrow> nat result" where
  "DisasmInstruction D arch Address bs = rbind (disasmInstruction D arch False (BlockIterator_new bs Address)) (\<lambda>(n, _, _). Inr n)"

subsection \<open>Comparison\<close>

text \<open>Inequality of two doubles, by their bits: a NaN differs from everything and the two zeros are equal.\<close>

definition is_nan :: "u64 \<Rightarrow> bool" where
  "is_nan x \<longleftrightarrow> x AND 0x7FFFFFFFFFFFFFFF > 0x7FF0000000000000"

definition double_ne :: "u64 \<Rightarrow> u64 \<Rightarrow> bool" where
  "double_ne x y \<longleftrightarrow> is_nan x \<or> is_nan y \<or> (x \<noteq> y \<and> (x OR y) AND 0x7FFFFFFFFFFFFFFF \<noteq> 0)"

text \<open>The operands of the left instruction against those of the right one; \<open>Some\<close> of a message is a mismatch.\<close>

definition compare_operand :: "(u64 \<Rightarrow> u64 \<Rightarrow> bool) \<Rightarrow> MCOperand \<Rightarrow> MCOperand \<Rightarrow> string option" where
  "compare_operand Comp L R =
     (if L = ExprOp \<or> R = ExprOp \<or> L = InstOp \<or> R = InstOp then Some ''Unexpected Operand Kind''
      else case L of
        RegOp a \<Rightarrow> (case R of RegOp b \<Rightarrow> if a \<noteq> b then Some ''Operand Register Mismatch'' else None | _ \<Rightarrow> Some ''Operand Kind Mismatch'')
      | FPImmOp a \<Rightarrow> (case R of FPImmOp b \<Rightarrow> if double_ne a b then Some ''Operand FP value Mismatch'' else None | _ \<Rightarrow> Some ''Operand Kind Mismatch'')
      | ImmOp a \<Rightarrow> (case R of ImmOp b \<Rightarrow> if a = b then None else if Comp a b then None else Some ''Immediate Operand Value Mismatch''
                  | _ \<Rightarrow> Some ''Operand Kind Mismatch'')
      | _ \<Rightarrow> None)"

fun compare_operands :: "(u64 \<Rightarrow> u64 \<Rightarrow> bool) \<Rightarrow> MCOperand list \<Rightarrow> MCOperand list \<Rightarrow> nat \<Rightarrow> string option result" where
  "compare_operands Comp [] Rs i = Inr None"
| "compare_operands Comp (L # Ls) Rs i =
     rbind (array_get ''getOperand'' Rs i) (\<lambda>R.
     case compare_operand Comp L R of Some m \<Rightarrow> Inr (Some m) | None \<Rightarrow> compare_operands Comp Ls Rs (Suc i))"

text \<open>The tests of the opcodes and of the numbers of operands compare the left instruction with itself.\<close>

definition compare_fields :: "(u64 \<Rightarrow> u64 \<Rightarrow> bool) \<Rightarrow> MCInst \<Rightarrow> MCInst \<Rightarrow> string option result" where
  "compare_fields Comp InstL InstR =
     (if getOpcode InstL \<noteq> getOpcode InstL then Inr (Some ''OpCode Mismatch'')
      else if length (operands InstL) \<noteq> length (operands InstL) then Inr (Some ''Operand Count Mismatch'')
      else compare_operands Comp (operands InstL) (operands InstR) 0)"

definition compare_instructions :: "(u64 \<Rightarrow> nat \<Rightarrow> u64 \<Rightarrow> u64 \<Rightarrow> bool) \<Rightarrow> BlockIterator \<Rightarrow> BlockIterator \<Rightarrow> string option result" where
  "compare_instructions Comp LeftIt RightIt =
     (if InstrSize LeftIt \<noteq> InstrSize RightIt then Inr (Some ''Instruction Size Mismatch'')
      else if isBitwiseEqual LeftIt RightIt then Inr None
      else compare_fields (Comp (BlockOffset LeftIt) (InstrSize LeftIt)) (Inst LeftIt) (Inst RightIt))"

function diff_loop :: "Decoder \<Rightarrow> (u64 \<Rightarrow> nat \<Rightarrow> u64 \<Rightarrow> u64 \<Rightarrow> bool) \<Rightarrow> BlockIterator \<Rightarrow> BlockIterator \<Rightarrow> Message list \<Rightarrow> (bool \<times> Message list) result" where
  "diff_loop D Comp LeftIt RightIt out =
     (if \<not> BlockInfo_isEmpty LeftIt \<and> \<not> BlockInfo_isEmpty RightIt
      then case decodeInstruction D False LeftIt of
        Inl e \<Rightarrow> Inl e
      | Inr (okL, LeftIt, msL) \<Rightarrow>
          (case decodeInstruction D False RightIt of
             Inl e \<Rightarrow> Inl e
           | Inr (okR, RightIt, msR) \<Rightarrow>
               if \<not> isDecoded LeftIt \<or> \<not> isDecoded RightIt then Inr (False, out @ msL @ msR)
               else (case compare_instructions Comp LeftIt RightIt of
                   Inl e \<Rightarrow> Inl e
                 | Inr (Some m) \<Rightarrow> Inr (False, out @ msL @ msR @ [Logged m (Addr LeftIt) (Addr RightIt)])
                 | Inr None \<Rightarrow>
                     (case advance LeftIt of Inl e \<Rightarrow> Inl e | Inr LeftIt \<Rightarrow>
                      (case advance RightIt of Inl e \<Rightarrow> Inl e | Inr RightIt \<Rightarrow> diff_loop D Comp LeftIt RightIt (out @ msL @ msR)))))
      else Inr (True, out))"
  by pat_completeness auto
termination
  by (relation "measure (\<lambda>(D, c, l, r, out). length (Bytes l))")
    (auto simp: decodeInstruction_def isDecoded_def advance_eq rbind_eq_Inr_iff split: option.splits)

declare diff_loop.simps [simp del]

definition nearDiff :: "Decoder \<Rightarrow> (u64 \<Rightarrow> nat \<Rightarrow> u64 \<Rightarrow> u64 \<Rightarrow> bool) \<Rightarrow> BlockIterator \<Rightarrow> BlockIterator \<Rightarrow> (bool \<times> Message list) result" where
  "nearDiff D Comp LeftIt RightIt =
     (if length (Bytes LeftIt) \<noteq> length (Bytes RightIt) then Inr (False, [Logged ''Code Size mismatch'' (Addr LeftIt) (Addr RightIt)])
      else diff_loop D Comp LeftIt RightIt [])"

definition NearDiffCodeBlocks :: "Decoder \<Rightarrow> (u64 \<Rightarrow> nat \<Rightarrow> u64 \<Rightarrow> u64 \<Rightarrow> bool) \<Rightarrow> u64 \<Rightarrow> u8 list \<Rightarrow> u64 \<Rightarrow> u8 list \<Rightarrow> (bool \<times> Message list) result" where
  "NearDiffCodeBlocks D Comp Address1 Bytes1 Address2 Bytes2 = nearDiff D Comp (BlockIterator_new Bytes1 Address1) (BlockIterator_new Bytes2 Address2)"

definition DefaultEqualityComparator :: "u64 \<Rightarrow> nat \<Rightarrow> u64 \<Rightarrow> u64 \<Rightarrow> bool" where
  "DefaultEqualityComparator BlockOff InstructionLength Offset1 Offset2 \<longleftrightarrow> Offset1 = Offset2"

lemma disasm_loop_bytes:
  "disasm_loop D arch d it t out = Inr (n, it', ms) \<Longrightarrow> length (Bytes it') \<le> length (Bytes it)"
proof (induction D arch d it t out rule: disasm_loop.induct)
  case (1 D arch d it t out)
  show ?case
  proof (cases "decodeInstruction D False it")
    case (Inr r)
    obtain ok it1 ms1 where r: "r = (ok, it1, ms1)" by (cases r)
    have "Bytes it1 = Bytes it" using Inr r by (auto simp: decodeInstruction_def rbind_eq_Inr_iff split: option.splits)
    then show ?thesis using "1.prems" "1.IH"[OF Inr r[symmetric] refl] Inr r
      by (auto simp: disasm_loop.simps[of D arch d it] advance_eq split: if_splits sum.splits)
  qed (use "1.prems" in \<open>simp add: disasm_loop.simps[of D arch d it]\<close>)
qed

function dump_loop :: "Decoder \<Rightarrow> TargetArch \<Rightarrow> BlockIterator \<Rightarrow> Message list \<Rightarrow> Message list result" where
  "dump_loop D arch it out =
     (if BlockInfo_isEmpty it then Inr out
      else case disasmInstruction D arch True it of
        Inl e \<Rightarrow> Inl e
      | Inr (n, it, ms) \<Rightarrow>
          if \<not> isDecoded it then Inr (out @ ms)
          else (case advance it of Inl e \<Rightarrow> Inl e | Inr it \<Rightarrow> dump_loop D arch it (out @ ms)))"
  by pat_completeness auto
termination
  by (relation "measure (\<lambda>(D, arch, it, out). length (Bytes it))")
    (auto simp: disasmInstruction_def advance_eq dest: disasm_loop_bytes)

declare dump_loop.simps [simp del]

definition DumpCodeBlock :: "Decoder \<Rightarrow> TargetArch \<Rightarrow> u64 \<Rightarrow> u8 list \<Rightarrow> Message list result" where
  "DumpCodeBlock D arch Address bs =
     rbind (dump_loop D arch (BlockIterator_new bs Address) [Separator, BlockHeader (length bs) Address, Separator]) (\<lambda>out.
     Inr (out @ [Separator]))"

subsection \<open>Specification\<close>

text \<open>The instructions of a block, each with its address and its bytes.\<close>

inductive stream :: "Decoder \<Rightarrow> u8 list \<Rightarrow> u64 \<Rightarrow> (u64 \<times> u8 list \<times> MCInst) list \<Rightarrow> bool" for D where
  stream_end: "stream D [] a []"
| stream_step: "D bs a = Some (i, n) \<Longrightarrow> 0 < n \<Longrightarrow> n \<le> length bs \<Longrightarrow> stream D (drop n bs) (a + of_nat n) s
    \<Longrightarrow> stream D bs a ((a, take n bs, i) # s)"

inductive_cases stream_cases: "stream D bs a s"

text \<open>An instruction with its prefixes, and its length.\<close>

inductive instruction :: "Decoder \<Rightarrow> TargetArch \<Rightarrow> u8 list \<Rightarrow> u64 \<Rightarrow> nat \<Rightarrow> bool" for D arch where
  plain: "D bs a = Some (i, n) \<Longrightarrow> 0 < n \<Longrightarrow> n \<le> length bs \<Longrightarrow> \<not> (arch \<in> {Target_X86, Target_X64} \<and> n = 1 \<and> hd bs \<in> set X86Prefix)
    \<Longrightarrow> instruction D arch bs a n"
| prefixed: "D bs a = Some (i, 1) \<Longrightarrow> bs \<noteq> [] \<Longrightarrow> arch \<in> {Target_X86, Target_X64} \<Longrightarrow> hd bs \<in> set X86Prefix
    \<Longrightarrow> instruction D arch (tl bs) (a + 1) n \<Longrightarrow> instruction D arch bs a (Suc n)"

inductive_cases instruction_cases: "instruction D arch bs a n"

definition decoder_ok :: "Decoder \<Rightarrow> bool" where
  "decoder_ok D \<longleftrightarrow> (\<forall>bs a i n. D bs a = Some (i, n) \<longrightarrow> 0 < n \<and> n \<le> length bs)"

text \<open>What the comparison asks of two instructions: nothing of their opcodes.\<close>

definition near_match :: "(u64 \<Rightarrow> nat \<Rightarrow> u64 \<Rightarrow> u64 \<Rightarrow> bool) \<Rightarrow> u64 \<Rightarrow> u64 \<times> u8 list \<times> MCInst \<Rightarrow> u64 \<times> u8 list \<times> MCInst \<Rightarrow> bool" where
  "near_match Comp start = (\<lambda>(a, bs, i) (b, cs, j). length bs = length cs \<and>
     (bs = cs \<or> length (operands i) \<le> length (operands j) \<and>
       (\<forall>k < length (operands i). compare_operand (Comp (a - start) (length bs)) (operands i ! k) (operands j ! k) = None)))"

subsection \<open>Lemmas\<close>

lemma compare_operands_None:
  "compare_operands C Ls Rs i = Inr None \<longleftrightarrow> (Ls \<noteq> [] \<longrightarrow> i + length Ls \<le> length Rs) \<and> (\<forall>k < length Ls. compare_operand C (Ls ! k) (Rs ! (i + k)) = None)"
proof (induction Ls arbitrary: i)
  case (Cons L Ls)
  show ?case
  proof (cases "i < length Rs \<and> compare_operand C L (Rs ! i) = None")
    case True
    then have "compare_operands C (L # Ls) Rs i = compare_operands C Ls Rs (Suc i)" by simp
    also have "\<dots> = Inr None \<longleftrightarrow> (Ls \<noteq> [] \<longrightarrow> Suc i + length Ls \<le> length Rs) \<and> (\<forall>k < length Ls. compare_operand C (Ls ! k) (Rs ! (Suc i + k)) = None)"
      by (rule Cons.IH)
    finally show ?thesis using True by (cases Ls) (auto simp: All_less_Suc2 nth_Cons')
  next
    case False
    have "i + length (L # Ls) \<le> length Rs \<longrightarrow> i < length Rs" by simp
    then show ?thesis using False by (fastforce simp: rbind_eq_Inr_iff split: option.splits)
  qed
qed simp

lemma compare_None:
  assumes "InstrSize l \<le> length (Bytes l)" "InstrSize r \<le> length (Bytes r)"
  shows "compare_instructions Comp l r = Inr None \<longleftrightarrow>
    near_match Comp (BlockStartAddr l) (Addr l, take (InstrSize l) (Bytes l), Inst l) (Addr r, take (InstrSize r) (Bytes r), Inst r)"
  using assms by (auto simp: compare_instructions_def near_match_def isBitwiseEqual_def compare_fields_def compare_operands_None BlockOffset_def min_absorb2)

lemma decode_not_True:
  "decodeInstruction D b it = Inr (ok, it', ms) \<Longrightarrow> isDecoded it' = ok \<and> Bytes it' = Bytes it \<and> Addr it' = Addr it \<and> BlockStartAddr it' = BlockStartAddr it"
  by (auto simp: decodeInstruction_def isDecoded_def rbind_eq_Inr_iff split: option.splits)

text \<open>One round of the comparison, where both blocks have bytes left.\<close>

lemma diff_loop_step:
  assumes "\<not> BlockInfo_isEmpty l" "\<not> BlockInfo_isEmpty r"
  shows "diff_loop D Comp l r out = Inr (True, out') \<longleftrightarrow>
    (\<exists>i n j. D (Bytes l) (Addr l) = Some (i, n) \<and> 0 < n \<and> n \<le> length (Bytes l) \<and> D (Bytes r) (Addr r) = Some (j, n) \<and> n \<le> length (Bytes r) \<and>
       near_match Comp (BlockStartAddr l) (Addr l, take n (Bytes l), i) (Addr r, take n (Bytes r), j) \<and>
       diff_loop D Comp (l\<lparr>Bytes := drop n (Bytes l), Addr := Addr l + of_nat n, Inst := i, InstrSize := 0\<rparr>)
         (r\<lparr>Bytes := drop n (Bytes r), Addr := Addr r + of_nat n, Inst := j, InstrSize := 0\<rparr>) out = Inr (True, out'))"
  (is "?L = ?R")
proof (cases "\<exists>i n j m. D (Bytes l) (Addr l) = Some (i, n) \<and> 0 < n \<and> n \<le> length (Bytes l) \<and> D (Bytes r) (Addr r) = Some (j, m) \<and> 0 < m \<and> m \<le> length (Bytes r)")
  case True
  then obtain i n j m where *: "D (Bytes l) (Addr l) = Some (i, n)" "0 < n" "n \<le> length (Bytes l)" "D (Bytes r) (Addr r) = Some (j, m)" "0 < m" "m \<le> length (Bytes r)"
    by blast
  let ?l = "l\<lparr>Inst := i, InstrSize := n\<rparr>" and ?r = "r\<lparr>Inst := j, InstrSize := m\<rparr>"
  have dec: "decodeInstruction D False l = Inr (True, ?l, [])" "decodeInstruction D False r = Inr (True, ?r, [])"
    using * by (auto simp: decode_True)
  have adv: "advance ?l = Inr (l\<lparr>Bytes := drop n (Bytes l), Addr := Addr l + of_nat n, Inst := i, InstrSize := 0\<rparr>)"
    "advance ?r = Inr (r\<lparr>Bytes := drop m (Bytes r), Addr := Addr r + of_nat m, Inst := j, InstrSize := 0\<rparr>)"
    using * by (auto simp: advance_eq)
  have len: "near_match Comp (BlockStartAddr l) (Addr l, take n (Bytes l), i) (Addr r, take m (Bytes r), j) \<Longrightarrow> n = m"
    using * by (auto simp: near_match_def)
  have cmp: "compare_instructions Comp ?l ?r = Inr None \<longleftrightarrow> near_match Comp (BlockStartAddr l) (Addr l, take n (Bytes l), i) (Addr r, take m (Bytes r), j)"
    using * by (simp add: compare_None)
  have "?L \<longleftrightarrow> compare_instructions Comp ?l ?r = Inr None \<and>
      diff_loop D Comp (l\<lparr>Bytes := drop n (Bytes l), Addr := Addr l + of_nat n, Inst := i, InstrSize := 0\<rparr>)
        (r\<lparr>Bytes := drop m (Bytes r), Addr := Addr r + of_nat m, Inst := j, InstrSize := 0\<rparr>) out = Inr (True, out')"
    using assms * by (simp add: diff_loop.simps[of D Comp l r] dec adv isDecoded_def split: sum.splits option.splits)
  then show ?thesis using * len unfolding cmp by auto
next
  case False
  have "\<not> ?R" using False by blast
  moreover have "\<not> ?L"
    using False assms
    by (auto simp: diff_loop.simps[of D Comp l r] decodeInstruction_def isDecoded_def rbind_eq_Inr_iff
      rbind_def rassert_def split: sum.splits option.splits if_splits)
  ultimately show ?thesis by simp
qed

lemma stream_Nil: "stream D [] a s \<longleftrightarrow> s = []"
  by (auto intro: stream_end elim: stream_cases)

lemma stream_nonempty: "bs \<noteq> [] \<Longrightarrow> stream D bs a s \<longleftrightarrow> (\<exists>i n s'. D bs a = Some (i, n) \<and> 0 < n \<and> n \<le> length bs \<and>
    s = (a, take n bs, i) # s' \<and> stream D (drop n bs) (a + of_nat n) s')"
  by (auto intro: stream_step elim: stream_cases)

lemma streams_step:
  assumes "bs \<noteq> []" "cs \<noteq> []" "length bs = length cs"
  shows "(\<exists>s t. stream D bs a s \<and> stream D cs b t \<and> list_all2 (near_match Comp c) s t) \<longleftrightarrow>
    (\<exists>i n j. D bs a = Some (i, n) \<and> 0 < n \<and> n \<le> length bs \<and> D cs b = Some (j, n) \<and> n \<le> length cs \<and>
       near_match Comp c (a, take n bs, i) (b, take n cs, j) \<and>
       (\<exists>s t. stream D (drop n bs) (a + of_nat n) s \<and> stream D (drop n cs) (b + of_nat n) t \<and> list_all2 (near_match Comp c) s t))"
  (is "?L = ?R")
proof
  assume ?L
  then obtain s t where s: "stream D bs a s" "stream D cs b t" "list_all2 (near_match Comp c) s t" by blast
  obtain i n s' where i: "D bs a = Some (i, n)" "0 < n" "n \<le> length bs" "s = (a, take n bs, i) # s'" "stream D (drop n bs) (a + of_nat n) s'"
    using s(1) assms(1) by (auto simp: stream_nonempty)
  obtain j m t' where j: "D cs b = Some (j, m)" "0 < m" "m \<le> length cs" "t = (b, take m cs, j) # t'" "stream D (drop m cs) (b + of_nat m) t'"
    using s(2) assms(2) by (auto simp: stream_nonempty)
  have "m = n" using s(3) i j by (simp add: near_match_def)
  then show ?R using s(3) i j by auto
next
  assume ?R
  then obtain i n j s t where *: "D bs a = Some (i, n)" "0 < n" "n \<le> length bs" "D cs b = Some (j, n)" "n \<le> length cs"
    "near_match Comp c (a, take n bs, i) (b, take n cs, j)" "stream D (drop n bs) (a + of_nat n) s" "stream D (drop n cs) (b + of_nat n) t"
    "list_all2 (near_match Comp c) s t" by blast
  have "stream D bs a ((a, take n bs, i) # s)" "stream D cs b ((b, take n cs, j) # t)"
    using * by (auto intro: stream_step)
  then show ?L using *(6,9) by (intro exI[of _ "(a, take n bs, i) # s"] exI[of _ "(b, take n cs, j) # t"]) simp
qed

lemma diff_loop_True:
  "length (Bytes l) = length (Bytes r) \<Longrightarrow> diff_loop D Comp l r out = Inr (True, out') \<longleftrightarrow> out' = out \<and>
     (\<exists>s t. stream D (Bytes l) (Addr l) s \<and> stream D (Bytes r) (Addr r) t \<and> list_all2 (near_match Comp (BlockStartAddr l)) s t)"
proof (induction "length (Bytes l)" arbitrary: l r rule: less_induct)
  case less
  show ?case
  proof (cases "Bytes l = []")
    case True
    then show ?thesis using less.prems by (auto simp: diff_loop.simps[of D Comp l r] BlockInfo_isEmpty_def stream_Nil)
  next
    case False
    then have ne: "\<not> BlockInfo_isEmpty l" "\<not> BlockInfo_isEmpty r" and r: "Bytes r \<noteq> []" using less.prems by (auto simp: BlockInfo_isEmpty_def)
    have IH: "0 < n \<Longrightarrow> diff_loop D Comp (l\<lparr>Bytes := drop n (Bytes l), Addr := Addr l + of_nat n, Inst := i, InstrSize := 0\<rparr>)
         (r\<lparr>Bytes := drop n (Bytes r), Addr := Addr r + of_nat n, Inst := j, InstrSize := 0\<rparr>) out = Inr (True, out') \<longleftrightarrow> out' = out \<and>
       (\<exists>s t. stream D (drop n (Bytes l)) (Addr l + of_nat n) s \<and> stream D (drop n (Bytes r)) (Addr r + of_nat n) t \<and>
         list_all2 (near_match Comp (BlockStartAddr l)) s t)" for n i j
      using less.hyps[of "l\<lparr>Bytes := drop n (Bytes l), Addr := Addr l + of_nat n, Inst := i, InstrSize := 0\<rparr>"
        "r\<lparr>Bytes := drop n (Bytes r), Addr := Addr r + of_nat n, Inst := j, InstrSize := 0\<rparr>"] False less.prems
      by (cases "Bytes r") auto
    show ?thesis unfolding diff_loop_step[OF ne] streams_step[OF False r less.prems] using IH by (auto 0 3)
  qed
qed

lemma stream_length: "stream D bs a s \<Longrightarrow> length bs = (\<Sum>(_, xs, _)\<leftarrow>s. length xs)"
  by (induction rule: stream.induct) auto

lemma near_match_length: "list_all2 (near_match Comp c) s t \<Longrightarrow> (\<Sum>(_, xs, _)\<leftarrow>s. length xs) = (\<Sum>(_, xs, _)\<leftarrow>t. length xs)"
  by (induction rule: list_all2_induct) (auto simp: near_match_def)


subsection \<open>The length of an instruction\<close>

lemma disasm_loop_instruction:
  assumes "decoder_ok D"
  shows "\<exists>n it' ms. disasm_loop D arch False it t out = Inr (n, it', ms) \<and>
    (if n = 0 then \<not> (\<exists>m. instruction D arch (Bytes it) (Addr it) m)
     else \<exists>m. n = t + m \<and> instruction D arch (Bytes it) (Addr it) m)"
proof (induction "length (Bytes it)" arbitrary: it t out rule: less_induct)
  case less
  show ?case
  proof (cases "D (Bytes it) (Addr it)")
    case None
    then have "\<not> instruction D arch (Bytes it) (Addr it) m" for m by (auto elim: instruction_cases)
    then show ?thesis using None by (simp add: disasm_loop.simps[of D arch False it] decodeInstruction_def)
  next
    case (Some x)
    obtain i n where x: "x = (i, n)" by (cases x)
    have n: "0 < n" "n \<le> length (Bytes it)" using assms Some x unfolding decoder_ok_def by blast+
    let ?it = "it\<lparr>Inst := i, InstrSize := n\<rparr>"
    have dec: "decodeInstruction D False it = Inr (True, ?it, [])" using Some x n by (auto simp: decode_True)
    show ?thesis
    proof (cases "is_prefix arch ?it")
      case False
      then have "instruction D arch (Bytes it) (Addr it) n" using Some x n by (auto intro!: plain simp: is_prefix_def)
      then show ?thesis using False n by (auto simp: disasm_loop.simps[of D arch False it] dec dump_if_def)
    next
      case True
      then have p: "n = 1" "arch \<in> {Target_X86, Target_X64}" "hd (Bytes it) \<in> set X86Prefix" by (auto simp: is_prefix_def)
      let ?next = "it\<lparr>Bytes := tl (Bytes it), Addr := Addr it + 1, Inst := i, InstrSize := 0\<rparr>"
      have adv: "advance ?it = Inr ?next" using n p by (simp add: advance_eq drop_Suc)
      have inst: "instruction D arch (Bytes it) (Addr it) m \<longleftrightarrow> (\<exists>k. m = Suc k \<and> instruction D arch (Bytes ?next) (Addr ?next) k)" for m
        using Some x n p by (auto elim: instruction_cases intro: prefixed)
      have "length (Bytes ?next) < length (Bytes it)" using n by simp
      from less.hyps[OF this, of "t + 1" out] obtain k it' ms where
        k: "disasm_loop D arch False ?next (t + 1) out = Inr (k, it', ms)"
        "if k = 0 then \<not> (\<exists>m. instruction D arch (Bytes ?next) (Addr ?next) m) else \<exists>m. k = t + 1 + m \<and> instruction D arch (Bytes ?next) (Addr ?next) m"
        by blast
      have "disasm_loop D arch False it t out = Inr (k, it', ms)"
        using k(1) True adv p by (simp add: disasm_loop.simps[of D arch False it] dec dump_if_def)
      then show ?thesis using k(2) by (intro exI[of _ k] exI[of _ it'] exI[of _ ms]) (auto simp: inst split: if_splits)
    qed
  qed
qed

lemma instruction_bounds: "instruction D arch bs a n \<Longrightarrow> 0 < n \<and> n \<le> length bs"
proof (induction rule: instruction.induct)
  case (prefixed bs a i n)
  then show ?case by (cases bs) auto
qed simp

text \<open>C36: the exported length function always returns where the decoder keeps to the bytes that are left: the length of the
  instruction together with the prefixes in front of it, which stays in the buffer, and 0 exactly where there is none.\<close>

theorem disasm_instruction:
  assumes "decoder_ok D"
  shows "\<exists>n. DisasmInstruction D arch a bs = Inr n \<and> n \<le> length bs \<and>
    (if n = 0 then \<not> (\<exists>m. instruction D arch bs a m) else instruction D arch bs a n)"
proof -
  let ?it = "BlockIterator_new bs a"
  obtain n it' ms where *: "disasm_loop D arch False ?it 0 [] = Inr (n, it', ms)"
    "if n = 0 then \<not> (\<exists>m. instruction D arch (Bytes ?it) (Addr ?it) m) else \<exists>m. n = 0 + m \<and> instruction D arch (Bytes ?it) (Addr ?it) m"
    using disasm_loop_instruction[OF assms] by blast
  have "DisasmInstruction D arch a bs = Inr n" using *(1) by (simp add: DisasmInstruction_def disasmInstruction_def)
  then show ?thesis using *(2) instruction_bounds[of D arch bs a n] by (auto simp: BlockIterator_new_def split: if_splits)
qed

text \<open>A decoder for the witnesses: LOCK is a prefix of one byte, 1 an instruction of two bytes with an immediate, anything else is not decoded.\<close>

definition sample_decoder :: Decoder where
  "sample_decoder bs a =
     (case bs of
        b # c # _ \<Rightarrow> if b = 0xF0 then Some (\<lparr>getOpcode = 7, operands = []\<rparr>, 1)
                    else if b = 1 \<or> b = 2 then Some (\<lparr>getOpcode = unat b, operands = [RegOp 3, ImmOp (ucast c)]\<rparr>, 2) else None
      | _ \<Rightarrow> None)"

lemma sample_decoder_ok: "decoder_ok sample_decoder"
  by (auto simp: decoder_ok_def sample_decoder_def split: list.splits if_splits)

theorem disasm_instruction_witness:
  "decoder_ok sample_decoder \<and> DisasmInstruction sample_decoder Target_X64 0x1000 [0xF0, 1, 5, 9] = Inr 3 \<and>
   instruction sample_decoder Target_X64 [0xF0, 1, 5, 9] 0x1000 3"
proof -
  have run: "DisasmInstruction sample_decoder Target_X64 0x1000 [0xF0, 1, 5, 9] = Inr 3" by code_simp
  have "instruction sample_decoder Target_X64 [0xF0, 1, 5, 9] 0x1000 3"
    using disasm_instruction[OF sample_decoder_ok, of Target_X64 "0x1000" "[0xF0, 1, 5, 9]"] by (simp add: run)
  then show ?thesis using run sample_decoder_ok by simp
qed

subsection \<open>What the comparison does not see\<close>

lemma same_operand_None:
  "x \<notin> {ExprOp, InstOp} \<Longrightarrow> (\<forall>v. x \<noteq> FPImmOp v) \<Longrightarrow> compare_operand C x x = None"
  by (auto simp: compare_operand_def split: MCOperand.splits)

text \<open>Two blocks whose instructions have the same lengths and the same operands, registers and immediates, pass the
  comparison, whatever their opcodes: the test of the opcodes has the left instruction on both sides.\<close>

theorem opcodes_not_compared:
  assumes "stream D bs a s" "stream D cs b t"
    "list_all2 (\<lambda>(_, xs, i) (_, ys, j). length xs = length ys \<and> operands i = operands j \<and>
       (\<forall>x \<in> set (operands i). x \<notin> {ExprOp, InstOp} \<and> (\<forall>v. x \<noteq> FPImmOp v))) s t"
  shows "NearDiffCodeBlocks D DefaultEqualityComparator a bs b cs = Inr (True, [])"
proof -
  have match: "list_all2 (near_match DefaultEqualityComparator a) s t"
    using assms(3) by (rule list_all2_mono) (auto simp: near_match_def intro!: same_operand_None)
  then have "diff_loop D DefaultEqualityComparator (BlockIterator_new bs a) (BlockIterator_new cs b) [] = Inr (True, [])"
    if "length bs = length cs"
    using assms(1,2) that by (auto simp: diff_loop_True BlockIterator_new_def)
  moreover have "length bs = length cs"
    using stream_length[OF assms(1)] stream_length[OF assms(2)] near_match_length[OF match] by simp
  ultimately show ?thesis by (simp add: NearDiffCodeBlocks_def nearDiff_def BlockIterator_new_def)
qed

theorem opcodes_not_compared_witness:
  "stream sample_decoder [1, 5] 0 [(0, [1, 5], \<lparr>getOpcode = 1, operands = [RegOp 3, ImmOp 5]\<rparr>)] \<and>
   stream sample_decoder [2, 5] 0 [(0, [2, 5], \<lparr>getOpcode = 2, operands = [RegOp 3, ImmOp 5]\<rparr>)] \<and>
   NearDiffCodeBlocks sample_decoder DefaultEqualityComparator 0 [1, 5] 0 [2, 5] = Inr (True, [])"
proof -
  have s: "stream sample_decoder [1, 5] 0 [(0, [1, 5], \<lparr>getOpcode = 1, operands = [RegOp 3, ImmOp 5]\<rparr>)]"
    and t: "stream sample_decoder [2, 5] 0 [(0, [2, 5], \<lparr>getOpcode = 2, operands = [RegOp 3, ImmOp 5]\<rparr>)]"
    by (auto simp: stream_nonempty stream_Nil sample_decoder_def)
  show ?thesis using opcodes_not_compared[OF s t] s t by simp
qed

end
