(* ===== verification/Spec2Isabelle.thy ===== *)
theory Spec2Isabelle
  imports ILDecode MethodSet ABISignature FlowGraphProperties GcSort GcContainers GcInfoProperties EEMemory JitConfig ReaderLoopProperties StackMerge GenArithCorrect LoadListener JitDriver RuntimeLookup CoreDisTools
begin

text \<open>
  LLILC is a just-in-time compiler for the .NET intermediate language. CoreCLR hands it a method (bytes of MSIL, a
  signature, exception clauses); it reads the method into LLVM IR, runs LLVM's code generator, and hands machine code,
  GC information, unwind information, debug information and relocations back. This development models the code
  of the repository on that way, in the order in which a method takes it, and the disassembly tools beside it.

  \<^bold>\<open>The way of a method\<close> (files under src/).

  \<^item> \<open>LLILCJit::compileMethod\<close> (lib/Jit/LLILCJit.cpp) makes a context for the request and pushes it on the stack of
    contexts of the thread, since the engine may ask for another method while one is compiled. \<open>JitOptions\<close>
    (lib/Jit/jitoptions.cpp) decides from the flags and the configuration whether the method is compiled, and how; the
    method sets of the configuration are parsed and matched by \<open>MethodSet\<close> and \<open>MethodID\<close> (lib/Jit/utility.cpp).
  \<^item> The reader (lib/Reader/reader.cpp, with its client \<open>GenIR\<close> in lib/Reader/readerir.cpp) computes the argument list
    of the method, builds the tree of exception regions, decodes the MSIL into a flow graph, visits the reachable blocks,
    and interprets the instructions of a block over an operand stack, calling the client for each. The operand stack
    that a block leaves is handed to its successors through PHIs.
  \<^item> The client makes the IR: signatures through the ABI (lib/Reader/abi.cpp, abisignature.cpp), structs for classes,
    arithmetic with its checks.
  \<^item> \<open>EEMemoryManager\<close> (lib/Jit/EEMemoryManager.cpp) places the sections of the object file in the memory of the engine
    and reports unwind information; \<open>ObjectLoadListener\<close> reports lines, locals and relocations;
    \<open>GcInfoEmitter\<close> (lib/GcInfo/GcInfo.cpp) translates LLVM's stack maps for the GC of the engine.

  \<^bold>\<open>Conventions.\<close> A C++ assertion, an access outside an array and an unreachable case are errors (\<open>Inl\<close>) of the type
  \<open>result\<close> of \<open>Prelude\<close>, so that a theorem with a result \<open>Inr\<close> also says that no assertion fails. Integers whose
  wrap-around matters are words of their width: offsets in MSIL (32 bits), addresses, sizes in the memory manager. Objects
  that the code shares and updates through pointers are indices into a heap (regions, flow graph nodes, links of a list).
  What the execution engine or LLVM answer is an argument of the definitions; what is reported to them is returned. Loops
  are recursive functions with a termination proof. The recursive searches in the region tree take fuel: a
  search started with the number of regions returns, since each call descends to a region with a larger index
  (\<open>heap_ok\<close>).

  \<^bold>\<open>Theories.\<close>

  \<^item> \<open>Prelude\<close>: machine integers, results, C enumerations, little-endian reads, lemmas on lists.
  \<^item> \<open>Opcodes\<close>: the enumerations of include/Reader/readerenum.h and the tables of bytecodetowvmcode.def.
    \<open>ILDecode\<close>: \<open>parseILOpcode\<close>, the reading of operands and of switch tables, \<open>printMSIL\<close>. An encoded instruction is
    decoded to itself, decoding stays in the buffer, and a parse fails exactly on truncated or unknown input.
  \<^item> \<open>MethodSet\<close>: patterns, method sets and their initialisation by several threads as a step relation: printing and
    parsing a pattern is the identity, and a set that is initialised does not change.
    \<open>JitConfig\<close>: the options follow the flags and the configuration.
  \<^item> \<open>JitDriver\<close>: \<open>compileMethod\<close> with nested requests: the outcome on each path, and that the stack of contexts and
    the objects are balanced. \<open>LoadListener\<close>: what the engine is told of lines, locals and relocations.
    \<open>EEMemory\<close>: sections do not overlap and are aligned; the unwind information that is registered is that which was
    reserved.
  \<^item> \<open>MethodSignature\<close>: \<open>ReaderMethodSignature\<close>, \<open>initMethodInfo\<close>, \<open>buildUpParams\<close>. \<open>ABI\<close>: the classification of
    arguments by \<open>Win64\<close> and \<open>SysV\<close>; the locale \<open>signature_classifier\<close> states what both promise and is interpreted on
    both and on their selection. \<open>ABISignature\<close>: the signature of a function, its call and the homing of its parameters;
    the caller places each argument where the callee finds it.
  \<^item> \<open>EHRegion\<close>: the construction of the region tree, the searches in it, the finallys that a \<open>leave\<close> runs.
    \<open>NodeOffsets\<close>: the bucketed list of branch targets and the bit vector of legal offsets, through the locales
    \<open>label_table\<close> and \<open>bit_set\<close>. \<open>FlowGraph\<close>: \<open>fgBuildBasicBlocksFromBytes\<close>, both phases; \<open>FlowGraphShape\<close>: its
    invariant; \<open>FlowGraphCorrect\<close> and \<open>FlowGraphProperties\<close>: blocks tile the code, terminators are those of the
    instructions, construction terminates. \<open>ReaderWalk\<close>: every reachable block is read once.
  \<^item> \<open>ReaderLoop\<close>: \<open>readBytesForFlowGraphNode\<close>, each case of the loop. \<open>StackMachine\<close>: the specification, a table of
    the stack behaviour of the instruction set (ECMA-335) and a machine over it. \<open>ReaderLoopCorrect\<close> and
    \<open>ReaderLoopProperties\<close>: the loop simulates the machine, for every opcode and for a block.
    \<open>StackMerge\<close>: \<open>maintainOperandStack\<close>; PHIs and their operands have one type.
  \<^item> \<open>GenArith\<close>, \<open>GenArithCorrect\<close>: arithmetic, conversions, comparisons, shifts and checks as IR terms, with a
    meaning; the terms compute what ECMA-335 says of the instructions. \<open>ClassFields\<close>: the struct of a class has the
    layout of the engine. \<open>ArrayAccess\<close>: the code for lengths and elements of arrays throws outside the bounds, and computes the
    address of the element inside them. \<open>RuntimeLookup\<close>: handles in shared generic code (\<open>genericTokenToNode\<close>), through the dictionary of
    the runtime, its helper or a fixup.
  \<^item> \<open>GcSort\<close>: the sort of the GC library over the locale \<open>strict_weak_order\<close>. \<open>GcContainers\<close>: its lists and bit
    utilities. \<open>GcInfo\<close>, \<open>GcInfoProperties\<close>: the encoder is told the live pointers of the stack map and no others.
  \<^item> \<open>CoreDisTools\<close>: lib/CoreDisTools/coredistools.cpp, lengths of instructions and the comparison of code.

  \<^bold>\<open>Behaviour that is not what the code means.\<close> Some theorems state what the code does where that differs from its
  intent: the structs of unions with GC references (\<open>ClassFields\<close>), conversions from unsigned values
  (\<open>GenArithCorrect\<close>), offsets of locals in the debug information (\<open>LoadListener\<close>), branch targets outside the method
  (\<open>FlowGraphProperties\<close>), opcodes in the comparison of code (\<open>CoreDisTools\<close>).

  \<^bold>\<open>Not modelled.\<close> The verifier (vtypeinfo.h, newvstate.h, gverify.h): its functions are stubs in this build
  and its branches are never taken. lib/Reader/GenIRStubs.cpp: functions that throw \<open>NotYetImplementedException\<close> or do nothing.
  The IR of calls, boxing, static fields and SIMD intrinsics in readerir.cpp and the queries of the engine in reader.cpp:
  sequences of calls of the LLVM builder and of the engine. The recursion of \<open>getClassType\<close> over the classes and its caches.
  lib/ObjWriter: emission through LLVM's MC layer, with a vendored header. EEObjectLinkingLayer.h and compiler.h: glue to
  LLVM's ORC. The Pal and clr headers, which are declarations of other systems.
\<close>

end
